(* ===== verification/Prelude.thy ===== *)
theory Prelude
  imports Main "HOL-Library.Word" "HOL-Library.Monad_Syntax"
begin

text \<open>
  Shared vocabulary of the development: the machine integer types of the C++ code, the
  decimal text the components print, and generic lemmas on positions, words, lists and maps.

  The code is built with MSVC for x64 Windows, so \<open>char\<close> is eight bits, \<open>int\<close> and \<open>long\<close> are
  32 bits, \<open>long long\<close> and \<open>size_t\<close> are 64 bits, and integers are stored with the least
  significant byte first.
\<close>

unbundle bit_operations_syntax

type_synonym u8 = "8 word"
type_synonym u16 = "16 word"
type_synonym u32 = "32 word"
type_synonym u64 = "64 word"

subsection \<open>Decimal text\<close>

text \<open>\<open>std::to_string\<close> of an unsigned number, and of a signed one.\<close>

definition digit_char :: "nat \<Rightarrow> char" where
  "digit_char d = char_of (48 + d)"

fun show_nat :: "nat \<Rightarrow> string" where
  "show_nat n = (if n < 10 then [digit_char n] else show_nat (n div 10) @ [digit_char (n mod 10)])"

declare show_nat.simps [simp del]

definition show_int :: "int \<Rightarrow> string" where
  "show_int i = (if i < 0 then CHR ''-'' # show_nat (nat (- i)) else show_nat (nat i))"

subsection \<open>Division by the sizes of bytes and double words\<close>

lemma div_32_div_8: "(i::nat) div 32 = i div 8 div 4"
  using div_mult2_eq [of i 8 4] by simp

lemma mod_32_div_8: "(i::nat) mod 32 div 8 = i div 8 mod 4"
  using mod_mult2_eq [of i 8 4] by simp

lemma mod_32_mod_8: "(i::nat) mod 32 mod 8 = i mod 8"
  using mod_mult2_eq [of i 8 4] by simp

lemma dword_pos: "i div 32 = q \<Longrightarrow> 32 * q + i mod 32 = (i::nat)"
  by auto

lemma less_4_cases: "(j::nat) < 4 \<Longrightarrow> j = 0 \<or> j = 1 \<or> j = 2 \<or> j = 3"
  by linarith

lemma unat_drop_bit_less:
  fixes data :: "'a::len word"
  assumes "0x7F < data"
  shows "unat (drop_bit 7 data) < unat data"
proof -
  have "data \<noteq> 0" using assms by auto
  then have "0 < unat data" by (simp add: unat_gt_0)
  then show ?thesis by (simp only: unat_drop_bit_eq) (simp add: drop_bit_eq_div)
qed

subsection \<open>The type int\<close>

text \<open>The value an \<open>int\<close> of 32 bits has after an operation: it wraps around.\<close>

definition int32 :: "int \<Rightarrow> int" where
  "int32 i = sint (word_of_int i :: u32)"

lemma int32_id: "- (2 ^ 31) \<le> i \<Longrightarrow> i < 2 ^ 31 \<Longrightarrow> int32 i = i"
  by (simp add: int32_def sint_sbintrunc' signed_take_bit_int_eq_self)

lemma int32_numeral [simp]: "numeral n < (2 ^ 31 :: int) \<Longrightarrow> int32 (numeral n) = numeral n"
  by (rule int32_id) (simp_all add: order.trans [of _ 0])

subsection \<open>Lists\<close>

definition opt_list :: "'a option \<Rightarrow> 'a list" where
  "opt_list x = (case x of None \<Rightarrow> [] | Some y \<Rightarrow> [y])"

lemma opt_list_simps [simp]: "opt_list None = []" "opt_list (Some x) = [x]"
  by (simp_all add: opt_list_def)

lemma map_of_rev_distinct:
  "distinct (map fst xs) \<Longrightarrow> map_of (rev xs) = map_of xs"
proof (induction xs)
  case (Cons x xs)
  then have "map_of (rev (x # xs)) = map_of [x] ++ map_of xs"
    by simp
  also have "\<dots> = map_of xs ++ map_of [x]"
    using Cons.prems by (intro map_add_comm) (auto simp: dom_map_of_conv_image_fst)
  finally show ?case
    by (cases x) (simp add: map_add_def fun_eq_iff)
qed simp

end
