(* ===== verification/CppStd.thy ===== *)
theory CppStd
  imports Prelude
begin

text \<open>
  What the components use of the C++ library: outcomes of calls that may throw or leave the bounds of
  an object, C strings inside a buffer, number parsing, and the file names of \<open>std::filesystem\<close> paths.
\<close>

section \<open>Outcomes\<close>

text \<open>
  A call returns, throws an exception that nobody catches, or does something undefined (it reads or
  writes outside an object).
\<close>

datatype exn = invalid_argument | out_of_range | filesystem_error | system_error

datatype 'a outcome = Ret 'a | Throw exn | Undefined

fun obind :: "'a outcome \<Rightarrow> ('a \<Rightarrow> 'b outcome) \<Rightarrow> 'b outcome" where
  "obind (Ret x) f = f x"
| "obind (Throw e) f = Throw e"
| "obind Undefined f = Undefined"

lemma obind_Ret: "obind m f = Ret y \<longleftrightarrow> (\<exists>x. m = Ret x \<and> f x = Ret y)"
  by (cases m) auto

text \<open>Going on after a call that gives an error or a value.\<close>

fun ebind :: "('e + 'a) outcome \<Rightarrow> ('a \<Rightarrow> ('e + 'b) outcome) \<Rightarrow> ('e + 'b) outcome" where
  "ebind (Ret (Inl e)) f = Ret (Inl e)"
| "ebind (Ret (Inr x)) f = f x"
| "ebind (Throw e) f = Throw e"
| "ebind Undefined f = Undefined"

lemma ebind_Inr: "ebind m f = Ret (Inr y) \<longleftrightarrow> (\<exists>x. m = Ret (Inr x) \<and> f x = Ret (Inr y))"
  by (cases "(m, f)" rule: ebind.cases) auto

section \<open>Characters\<close>

text \<open>The functions on characters, in the C locale.\<close>

definition tolower :: "char \<Rightarrow> char" where
  "tolower c = (if 65 \<le> (of_char c :: nat) \<and> (of_char c :: nat) \<le> 90 then char_of ((of_char c :: nat) + 32) else c)"

definition isalnum :: "char \<Rightarrow> bool" where
  "isalnum c \<longleftrightarrow> (let n = (of_char c :: nat) in 48 \<le> n \<and> n \<le> 57 \<or> 65 \<le> n \<and> n \<le> 90 \<or> 97 \<le> n \<and> n \<le> 122)"

section \<open>C strings\<close>

definition NUL :: char where "NUL = CHR 0x00"
definition LF :: char where "LF = CHR 0x0A"
definition CR :: char where "CR = CHR 0x0D"

text \<open>The string a pointer into a buffer points to: the characters up to the next zero.\<close>

definition cstr :: "string \<Rightarrow> nat \<Rightarrow> string outcome" where
  "cstr buf p = (if NUL \<in> set (drop p buf) then Ret (takeWhile (\<lambda>c. c \<noteq> NUL) (drop p buf)) else Undefined)"

lemma cstr_at:
  assumes "take (length s + 1) (drop p buf) = s @ [NUL]" "NUL \<notin> set s"
  shows "cstr buf p = Ret s"
proof -
  obtain r where r: "drop p buf = s @ NUL # r"
    using assms(1) by (metis append.assoc append_Cons append_Nil append_take_drop_id)
  have "takeWhile (\<lambda>c. c \<noteq> NUL) (s @ NUL # r) = s"
    using assms(2) by (subst takeWhile_append2) auto
  with r show ?thesis by (simp add: cstr_def)
qed

section \<open>Files in text mode\<close>

text \<open>
  Writing in text mode on Windows puts a carriage return before each line feed. Reading drops a
  carriage return before a line feed, and takes a control-Z as the end of the file.
\<close>

definition to_crlf :: "string \<Rightarrow> string" where
  "to_crlf s = concat (map (\<lambda>c. if c = LF then [CR, LF] else [c]) s)"

fun drop_cr :: "string \<Rightarrow> string" where
  "drop_cr [] = []"
| "drop_cr (c # s) = (if c = CR \<and> s \<noteq> [] \<and> hd s = LF then drop_cr s else c # drop_cr s)"

definition text_mode :: "string \<Rightarrow> string" where
  "text_mode f = drop_cr (takeWhile (\<lambda>c. c \<noteq> CHR 0x1A) f)"

lemma takeWhile_all: "\<forall>x \<in> set xs. P x \<Longrightarrow> takeWhile P xs = xs"
  by (induction xs) auto

lemma drop_cr_plain: "CR \<notin> set s \<Longrightarrow> drop_cr s = s"
  by (induction s) auto

lemma text_mode_id:
  assumes "CR \<notin> set s" "CHR 0x1A \<notin> set s"
  shows "text_mode s = s"
proof -
  have "takeWhile (\<lambda>c. c \<noteq> CHR 0x1A) s = s" using assms(2) by (intro takeWhile_all) auto
  then show ?thesis unfolding text_mode_def by (simp only: drop_cr_plain [OF assms(1)])
qed

lemma drop_cr_to_crlf: "drop_cr (to_crlf s) = s"
proof (induction s)
  case (Cons c s)
  have "s \<noteq> [] \<Longrightarrow> hd (to_crlf s) = (if hd s = LF then CR else hd s)"
    by (cases s) (simp_all add: to_crlf_def)
  moreover have "to_crlf (c # s) = (if c = LF then [CR, LF] else [c]) @ to_crlf s" by (simp add: to_crlf_def)
  moreover have "to_crlf s = [] \<longleftrightarrow> s = []" by (cases s) (simp_all add: to_crlf_def)
  moreover have "CR \<noteq> LF" by (simp add: CR_def LF_def)
  ultimately show ?case using Cons.IH by (cases s) auto
qed (simp add: to_crlf_def)

text \<open>What was written in text mode is read back, unless it holds a control-Z.\<close>

lemma text_mode_to_crlf:
  assumes "CHR 0x1A \<notin> set s"
  shows "text_mode (to_crlf s) = s"
proof -
  have "CHR 0x1A \<notin> set (to_crlf s)" using assms by (auto simp: to_crlf_def CR_def LF_def split: if_splits)
  then have "takeWhile (\<lambda>c. c \<noteq> CHR 0x1A) (to_crlf s) = to_crlf s" by (intro takeWhile_all) auto
  then show ?thesis by (simp only: text_mode_def drop_cr_to_crlf)
qed

lemma length_to_crlf: "length (to_crlf s) = length s + length (filter (\<lambda>c. c = LF) s)"
  by (induction s) (simp_all add: to_crlf_def)

section \<open>Numbers\<close>

definition is_space :: "char \<Rightarrow> bool" where
  "is_space c \<longleftrightarrow> of_char c \<in> {9, 10, 11, 12, 13, 32 :: nat}"

definition is_digit :: "char \<Rightarrow> bool" where
  "is_digit c \<longleftrightarrow> 48 \<le> (of_char c :: nat) \<and> (of_char c :: nat) \<le> 57"

definition digits_val :: "string \<Rightarrow> nat" where
  "digits_val ds = foldl (\<lambda>n c. 10 * n + (of_char c - 48)) 0 ds"

text \<open>The sign and the digits a number starts with, after white space.\<close>

definition num_prefix :: "string \<Rightarrow> bool \<times> string" where
  "num_prefix s =
     (let s = dropWhile is_space s in
      case s of
        [] \<Rightarrow> (False, [])
      | c # r \<Rightarrow> if c = CHR ''-'' then (True, takeWhile is_digit r)
                 else if c = CHR ''+'' then (False, takeWhile is_digit r)
                 else (False, takeWhile is_digit s))"

text \<open>\<open>std::stoi\<close> in base 10, and \<open>strtoull\<close>, which saturates and negates modulo \<open>2 ^ 64\<close>.\<close>

definition stoi :: "string \<Rightarrow> int outcome" where
  "stoi s =
     (case num_prefix s of (neg, ds) \<Rightarrow>
        if ds = [] then Throw invalid_argument
        else
          let v = (if neg then - int (digits_val ds) else int (digits_val ds)) in
          if v < - (2 ^ 31) \<or> 2 ^ 31 \<le> v then Throw out_of_range else Ret v)"

definition strtoull :: "string \<Rightarrow> u64" where
  "strtoull s =
     (case num_prefix s of (neg, ds) \<Rightarrow>
        if digits_val ds < 2 ^ 64
        then (if neg then - of_nat (digits_val ds) else of_nat (digits_val ds)) else - 1)"

lemma of_char_digit_char: "d < 10 \<Longrightarrow> (of_char (digit_char d) :: nat) = 48 + d"
  by (simp add: digit_char_def)

lemma is_digit_digit_char: "d < 10 \<Longrightarrow> is_digit (digit_char d)"
  by (simp add: is_digit_def of_char_digit_char)

lemma show_nat_digits: "\<forall>c \<in> set (show_nat n). is_digit c"
proof (induction n rule: show_nat.induct)
  case (1 n)
  then show ?case by (subst show_nat.simps) (auto simp: is_digit_digit_char)
qed

lemma show_nat_nonempty [simp]: "show_nat n \<noteq> []"
  by (subst show_nat.simps) simp

lemma digits_val_snoc: "digits_val (ds @ [c]) = 10 * digits_val ds + (of_char c - 48)"
  by (simp add: digits_val_def)

lemma digits_val_show_nat: "digits_val (show_nat n) = n"
proof (induction n rule: show_nat.induct)
  case (1 n)
  show ?case
  proof (cases "n < 10")
    case True
    then show ?thesis by (subst show_nat.simps) (simp add: digits_val_def of_char_digit_char)
  next
    case False
    with 1 show ?thesis
      by (subst show_nat.simps) (simp add: digits_val_snoc of_char_digit_char)
  qed
qed

lemma is_digit_not_special:
  assumes "is_digit c"
  shows "\<not> is_space c" "c \<noteq> CHR ''-''" "c \<noteq> CHR ''+''"
  using assms by (auto simp: is_digit_def is_space_def)

lemma num_prefix_show_nat: "num_prefix (show_nat n) = (False, show_nat n)"
proof -
  obtain c r where cr: "show_nat n = c # r" by (cases "show_nat n") auto
  then have "is_digit c" "\<forall>x \<in> set (c # r). is_digit x" using show_nat_digits [of n] by auto
  then show ?thesis unfolding cr num_prefix_def
    using is_digit_not_special [of c] by (simp add: takeWhile_all)
qed

lemma num_prefix_neg: "num_prefix (CHR ''-'' # show_nat n) = (True, show_nat n)"
  using show_nat_digits [of n] by (simp add: num_prefix_def is_space_def takeWhile_all)

text \<open>Printing and parsing an \<open>int\<close>.\<close>

lemma stoi_show_int:
  assumes "- (2 ^ 31) \<le> n" "n < 2 ^ 31"
  shows "stoi (show_int n) = Ret n"
  using assms by (auto simp: stoi_def show_int_def num_prefix_show_nat num_prefix_neg digits_val_show_nat Let_def)

text \<open>An \<open>int\<close> compared with or used as a \<open>size_t\<close>.\<close>

definition as_size :: "int \<Rightarrow> int" where
  "as_size n = (if n < 0 then n + 2 ^ 64 else n)"

text \<open>\<open>atoi\<close>, which saturates.\<close>

definition atoi :: "string \<Rightarrow> u32" where
  "atoi s =
     (case num_prefix s of (neg, ds) \<Rightarrow>
        let v = (if neg then - int (digits_val ds) else int (digits_val ds))
        in word_of_int (max (- (2 ^ 31)) (min (2 ^ 31 - 1) v)))"

section \<open>Searching text\<close>

text \<open>\<open>std::string::find\<close>: the first position from one on at which a text occurs.\<close>

definition string_find :: "string \<Rightarrow> nat \<Rightarrow> string \<Rightarrow> nat option" where
  "string_find pat pos s =
     find (\<lambda>i. take (length pat) (drop i s) = pat) [pos..<(if length pat \<le> length s then Suc (length s - length pat) else 0)]"

section \<open>Paths\<close>

text \<open>
  The file name of a path starts after the last separator; both slashes are separators on Windows.
  The stem ends before the last dot of the file name, unless that dot is its first character or the
  name is \<open>..\<close>; the extension is the rest.
\<close>

definition is_sep :: "char \<Rightarrow> bool" where
  "is_sep c \<longleftrightarrow> c = CHR ''/'' \<or> c = CHR 0x5C"

definition path_filename :: "string \<Rightarrow> string" where
  "path_filename p = rev (takeWhile (\<lambda>c. \<not> is_sep c) (rev p))"

definition path_dir :: "string \<Rightarrow> string" where
  "path_dir p = rev (dropWhile (\<lambda>c. \<not> is_sep c) (rev p))"

definition path_extension :: "string \<Rightarrow> string" where
  "path_extension p =
     (let f = path_filename p; e = rev (takeWhile (\<lambda>c. c \<noteq> CHR ''.'') (rev f)) in
      if CHR ''.'' \<notin> set f \<or> length e + 1 = length f \<or> f = ''..'' then [] else CHR ''.'' # e)"

definition path_stem :: "string \<Rightarrow> string" where
  "path_stem p = (let f = path_filename p in take (length f - length (path_extension p)) f)"

text \<open>\<open>operator/\<close> for a relative right-hand side.\<close>

definition path_append :: "string \<Rightarrow> string \<Rightarrow> string" where
  "path_append a b = (if a = [] \<or> is_sep (last a) then a @ b else a @ CHR 0x5C # b)"

lemma path_dir_filename: "path_dir p @ path_filename p = p"
  unfolding path_dir_def path_filename_def
  by (metis rev_append rev_rev_ident takeWhile_dropWhile_id)

end
