(* ===== verification/ScriptJson.thy ===== *)
theory ScriptJson
  imports CppStd
begin

text \<open>
  The JSON bridge of the script system, \<open>src/vscript/scripts/scriptjson.cpp\<close>: script tables
  and arrays are turned into rapidjson values by \<open>EncodeJSONTable\<close> and \<open>EncodeJSONArray\<close>, and
  rapidjson values are rebuilt on the stack of the script VM by \<open>DecodeJsonTable\<close> and
  \<open>DecodeJsonArray\<close>. The two script functions \<open>DecodeJSON\<close> and \<open>EncodeJSON\<close> compose them with
  rapidjson's parser and writer.

  The VM and rapidjson are not part of the repository. The VM operations are the fields of the
  record \<open>sqapi\<close>, rapidjson's number accessors the fields of \<open>jsonnum\<close>, and its parser and writer
  are arguments of \<open>DecodeJSON\<close> and \<open>EncodeJSON\<close>. Floating point numbers stay abstract: \<open>'f\<close> is the
  script float, \<open>'d\<close> the double of a JSON number. Strings are passed between the three as pointers to
  zero-terminated characters, so what follows a zero is cut off.
\<close>

section \<open>Data\<close>

text \<open>
  A script object, with the type tags the encoder distinguishes. A table is the array of its
  hash nodes, each a key and a value; empty nodes have a key that is not a string. A boolean is
  stored in \<open>asInteger\<close>.
\<close>

datatype 'f sqobj =
    SqNull
  | SqString string
  | SqInteger u32
  | SqFloat 'f
  | SqBool u32
  | SqTable "('f sqobj \<times> 'f sqobj) list"
  | SqArray "'f sqobj list"
  | SqOther nat

text \<open>
  A rapidjson value. Members of an object are kept in order, duplicates included. An integer is one of 64 bits, signed or not; the parser
  makes a larger one a double.
\<close>

datatype 'd json =
    JNull
  | JBool bool
  | JInt int
  | JDouble 'd
  | JString string
  | JArray "'d json list"
  | JObject "(string \<times> 'd json) list"

text \<open>
  rapidjson's number conversions: the double that stores a float, \<open>GetFloat\<close> and \<open>GetInt\<close>; which doubles are neither infinite nor
  not a number; and which doubles the parser may give for the text of a double: without the option for full precision those of the same sign
  within three units in the last place.
\<close>

record ('f, 'd) jsonnum =
  of_float :: "'f \<Rightarrow> 'd"
  GetFloat :: "'d \<Rightarrow> 'f"
  GetInt :: "int \<Rightarrow> u32"
  is_finite :: "'d \<Rightarrow> bool"
  near :: "'d \<Rightarrow> 'd \<Rightarrow> bool"

definition c_string :: "string \<Rightarrow> string" where
  "c_string s = takeWhile (\<lambda>c. c \<noteq> NUL) s"

lemma c_string_id: "NUL \<notin> set s \<Longrightarrow> c_string s = s"
  unfolding c_string_def by (rule takeWhile_eq_all_conv [THEN iffD2]) auto

section \<open>Encoding: script values to JSON\<close>

text \<open>
  The nodes are visited in order. Only nodes with a string key are written, and values of a
  type JSON does not have are skipped with a warning. In an array a boolean is written as the
  string \<open>"true"\<close> or \<open>"false"\<close>.
\<close>

fun EncodeJSONTable ::
    "('f, 'd) jsonnum \<Rightarrow> ('f sqobj \<times> 'f sqobj) list \<Rightarrow> (string \<times> 'd json) list
      \<Rightarrow> (string \<times> 'd json) list"
  and EncodeJSONArray ::
    "('f, 'd) jsonnum \<Rightarrow> 'f sqobj list \<Rightarrow> 'd json list \<Rightarrow> 'd json list" where
  "EncodeJSONTable jn [] obj = obj"
| "EncodeJSONTable jn ((key, val) # nodes) obj =
     EncodeJSONTable jn nodes
      (case key of
         SqString k \<Rightarrow>
           (case val of
              SqString s \<Rightarrow> obj @ [(c_string k, JString (c_string s))]
            | SqInteger i \<Rightarrow> obj @ [(c_string k, JInt (sint i))]
            | SqFloat f \<Rightarrow> obj @ [(c_string k, JDouble (of_float jn f))]
            | SqBool b \<Rightarrow> (if b \<noteq> 0 then obj @ [(c_string k, JBool True)] else obj @ [(c_string k, JBool False)])
            | SqTable t \<Rightarrow> obj @ [(c_string k, JObject (EncodeJSONTable jn t []))]
            | SqArray a \<Rightarrow> obj @ [(c_string k, JArray (EncodeJSONArray jn a []))]
            | _ \<Rightarrow> obj)
       | _ \<Rightarrow> obj)"
| "EncodeJSONArray jn [] obj = obj"
| "EncodeJSONArray jn (node # nodes) obj =
     EncodeJSONArray jn nodes
      (case node of
         SqString s \<Rightarrow> obj @ [JString (c_string s)]
       | SqInteger i \<Rightarrow> obj @ [JInt (sint i)]
       | SqFloat f \<Rightarrow> obj @ [JDouble (of_float jn f)]
       | SqBool b \<Rightarrow> (if b \<noteq> 0 then obj @ [JString ''true''] else obj @ [JString ''false''])
       | SqTable t \<Rightarrow> obj @ [JObject (EncodeJSONTable jn t [])]
       | SqArray a \<Rightarrow> obj @ [JArray (EncodeJSONArray jn a [])]
       | _ \<Rightarrow> obj)"

section \<open>Decoding: JSON to script values on the VM stack\<close>

text \<open>The VM operations the decoder calls.\<close>

record ('vm, 'f) sqapi =
  newtable :: "'vm \<Rightarrow> 'vm"
  newarray :: "u32 \<Rightarrow> 'vm \<Rightarrow> 'vm"
  pushstring :: "string \<Rightarrow> 'vm \<Rightarrow> 'vm"
  pushinteger :: "u32 \<Rightarrow> 'vm \<Rightarrow> 'vm"
  pushfloat :: "'f \<Rightarrow> 'vm \<Rightarrow> 'vm"
  pushbool :: "bool \<Rightarrow> 'vm \<Rightarrow> 'vm"
  arrayappend :: "int \<Rightarrow> 'vm \<Rightarrow> 'vm"
  newslot :: "int \<Rightarrow> bool \<Rightarrow> 'vm \<Rightarrow> 'vm"

text \<open>
  The loops over the elements of an array and the members of an object. The container is below
  the element on the stack: \<open>arrayappend\<close> names it by \<open>-2\<close>, \<open>newslot\<close>, which also takes the key, by
  \<open>-3\<close>. Null elements and members push nothing.
\<close>

fun DecodeJsonArrayLoop ::
    "('vm, 'f) sqapi \<Rightarrow> ('f, 'd) jsonnum \<Rightarrow> 'vm \<Rightarrow> 'd json list \<Rightarrow> 'vm"
  and DecodeJsonTableLoop ::
    "('vm, 'f) sqapi \<Rightarrow> ('f, 'd) jsonnum \<Rightarrow> 'vm \<Rightarrow> (string \<times> 'd json) list \<Rightarrow> 'vm" where
  "DecodeJsonArrayLoop api jn vm [] = vm"
| "DecodeJsonArrayLoop api jn vm (itr # rest) =
     DecodeJsonArrayLoop api jn
      (case itr of
         JObject ms \<Rightarrow> arrayappend api (-2) (DecodeJsonTableLoop api jn (newtable api vm) ms)
       | JArray xs \<Rightarrow> arrayappend api (-2) (DecodeJsonArrayLoop api jn (newarray api 0 vm) xs)
       | JString s \<Rightarrow> arrayappend api (-2) (pushstring api (c_string s) vm)
       | JBool b \<Rightarrow> arrayappend api (-2) (pushbool api b vm)
       | JDouble d \<Rightarrow> arrayappend api (-2) (pushfloat api (GetFloat jn d) vm)
       | JInt i \<Rightarrow> arrayappend api (-2) (pushinteger api (GetInt jn i) vm)
       | JNull \<Rightarrow> vm)
      rest"
| "DecodeJsonTableLoop api jn vm [] = vm"
| "DecodeJsonTableLoop api jn vm ((name, value) # rest) =
     DecodeJsonTableLoop api jn
      (case value of
         JObject ms \<Rightarrow>
           newslot api (-3) False
            (DecodeJsonTableLoop api jn (newtable api (pushstring api (c_string name) vm)) ms)
       | JArray xs \<Rightarrow>
           newslot api (-3) False
            (DecodeJsonArrayLoop api jn (newarray api 0 (pushstring api (c_string name) vm)) xs)
       | JString s \<Rightarrow> newslot api (-3) False (pushstring api (c_string s) (pushstring api (c_string name) vm))
       | JBool b \<Rightarrow> newslot api (-3) False (pushbool api b (pushstring api (c_string name) vm))
       | JDouble d \<Rightarrow> newslot api (-3) False (pushfloat api (GetFloat jn d) (pushstring api (c_string name) vm))
       | JInt i \<Rightarrow> newslot api (-3) False (pushinteger api (GetInt jn i) (pushstring api (c_string name) vm))
       | JNull \<Rightarrow> vm)
      rest"

text \<open>
  \<open>DecodeJsonTable\<close> iterates over the members of its argument. rapidjson requires an object there;
  for any other value the result is \<open>None\<close> (a failed assertion, undefined in a release build).
\<close>

definition DecodeJsonArray ::
    "('vm, 'f) sqapi \<Rightarrow> ('f, 'd) jsonnum \<Rightarrow> 'vm \<Rightarrow> 'd json list \<Rightarrow> 'vm" where
  "DecodeJsonArray api jn vm arr = DecodeJsonArrayLoop api jn (newarray api 0 vm) arr"

definition DecodeJsonTable ::
    "('vm, 'f) sqapi \<Rightarrow> ('f, 'd) jsonnum \<Rightarrow> 'vm \<Rightarrow> 'd json \<Rightarrow> 'vm option" where
  "DecodeJsonTable api jn vm obj =
     (case obj of
        JObject ms \<Rightarrow> Some (DecodeJsonTableLoop api jn (newtable api vm) ms)
      | _ \<Rightarrow> None)"

section \<open>The script functions\<close>

text \<open>How a script function ends: it raises a script error, or it returns the top of the stack.\<close>

datatype sqresult = RaiseError string | NotNull

definition json_error_text :: "string \<Rightarrow> nat \<Rightarrow> string" where
  "json_error_text err off =
     ''Failed parsing json file: encountered parse error \"'' @ err @ ''\" at offset '' @ show_nat off"

text \<open>
  \<open>DecodeJSON\<close>: the parser returns an error text and an offset, or a document. On a parse error an
  empty table is pushed first; it is what a non-fatal error returns.
\<close>

definition DecodeJSON ::
    "('vm, 'f) sqapi \<Rightarrow> ('f, 'd) jsonnum \<Rightarrow> (string \<Rightarrow> (string \<times> nat) + 'd json)
      \<Rightarrow> 'vm \<Rightarrow> string \<Rightarrow> bool \<Rightarrow> (sqresult \<times> 'vm) option" where
  "DecodeJSON api jn Parse vm pJson bFatalParseErrors =
     (case Parse (c_string pJson) of
        Inl (err, off) \<Rightarrow>
          (let vm' = newtable api vm; sErrorString = json_error_text err off in
           if bFatalParseErrors then Some (RaiseError sErrorString, vm')
           else Some (NotNull, vm'))
      | Inr doc \<Rightarrow>
          (case DecodeJsonTable api jn vm doc of
             None \<Rightarrow> None
           | Some vm' \<Rightarrow> Some (NotNull, vm')))"

text \<open>
  \<open>EncodeJSON\<close>: the nodes are those of the table the script passed. The text is what the writer has written, also if it
  stopped, as it does at a number that is not finite.
\<close>

definition EncodeJSON ::
    "('f, 'd) jsonnum \<Rightarrow> ('d json \<Rightarrow> string) \<Rightarrow> ('f sqobj \<times> 'f sqobj) list \<Rightarrow> string" where
  "EncodeJSON jn Write nodes = c_string (Write (JObject (EncodeJSONTable jn nodes [])))"

section \<open>Script values\<close>

text \<open>
  What a script sees: a value, with a table as a partial map from its string keys. \<open>value_of\<close> is
  the value a JSON document stands for (null stands for none), and \<open>abs_val\<close> the value of a
  script object.
\<close>

datatype 'f sqval =
    VNull
  | VString string
  | VInteger u32
  | VFloat 'f
  | VBool bool
  | VArray "'f sqval list"
  | VTable "string \<Rightarrow> 'f sqval option"
  | VOther nat

fun value_of :: "('f, 'd) jsonnum \<Rightarrow> 'd json \<Rightarrow> 'f sqval option" where
  "value_of jn JNull = None"
| "value_of jn (JBool b) = Some (VBool b)"
| "value_of jn (JInt i) = Some (VInteger (GetInt jn i))"
| "value_of jn (JDouble d) = Some (VFloat (GetFloat jn d))"
| "value_of jn (JString s) = Some (VString (c_string s))"
| "value_of jn (JArray xs) = Some (VArray (concat (map (\<lambda>x. opt_list (value_of jn x)) xs)))"
| "value_of jn (JObject ms) =
     Some (VTable (map_of (rev (concat
       (map (\<lambda>m. map (Pair (c_string (fst m))) (opt_list (value_of jn (snd m)))) ms)))))"

abbreviation elem_vals :: "('f, 'd) jsonnum \<Rightarrow> 'd json list \<Rightarrow> 'f sqval list" where
  "elem_vals jn xs \<equiv> concat (map (\<lambda>x. opt_list (value_of jn x)) xs)"

abbreviation member_vals ::
    "('f, 'd) jsonnum \<Rightarrow> (string \<times> 'd json) list \<Rightarrow> (string \<times> 'f sqval) list" where
  "member_vals jn ms \<equiv> concat (map (\<lambda>m. map (Pair (c_string (fst m))) (opt_list (value_of jn (snd m)))) ms)"


text \<open>
  What is left of a script value after it went through JSON. \<open>readback\<close> is the value in a table
  slot, \<open>readback_elem\<close> the value in an array element, where booleans have become strings.
\<close>

fun readback :: "'f sqobj \<Rightarrow> 'f sqval option"
  and readback_elem :: "'f sqobj \<Rightarrow> 'f sqval option" where
  "readback (SqString s) = Some (VString (c_string s))"
| "readback (SqInteger i) = Some (VInteger i)"
| "readback (SqFloat f) = Some (VFloat f)"
| "readback (SqBool b) = Some (VBool (b \<noteq> 0))"
| "readback (SqTable t) =
     Some (VTable (map_of (rev (concat (map (\<lambda>n. case fst n of
       SqString k \<Rightarrow> map (Pair (c_string k)) (opt_list (readback (snd n))) | _ \<Rightarrow> []) t)))))"
| "readback (SqArray a) = Some (VArray (concat (map (\<lambda>x. opt_list (readback_elem x)) a)))"
| "readback SqNull = None"
| "readback (SqOther n) = None"
| "readback_elem (SqString s) = Some (VString (c_string s))"
| "readback_elem (SqInteger i) = Some (VInteger i)"
| "readback_elem (SqFloat f) = Some (VFloat f)"
| "readback_elem (SqBool b) = Some (VString (if b \<noteq> 0 then ''true'' else ''false''))"
| "readback_elem (SqTable t) =
     Some (VTable (map_of (rev (concat (map (\<lambda>n. case fst n of
       SqString k \<Rightarrow> map (Pair (c_string k)) (opt_list (readback (snd n))) | _ \<Rightarrow> []) t)))))"
| "readback_elem (SqArray a) = Some (VArray (concat (map (\<lambda>x. opt_list (readback_elem x)) a)))"
| "readback_elem SqNull = None"
| "readback_elem (SqOther n) = None"

abbreviation node_vals :: "('f sqobj \<times> 'f sqobj) list \<Rightarrow> (string \<times> 'f sqval) list" where
  "node_vals t \<equiv> concat (map (\<lambda>n. case fst n of
     SqString k \<Rightarrow> map (Pair (c_string k)) (opt_list (readback (snd n))) | _ \<Rightarrow> []) t)"

text \<open>
  The number conversions lose nothing: an \<open>int\<close>, and a finite float, which is also the closest to all doubles within a few units of it.
\<close>

definition exact_numbers :: "('f, 'd) jsonnum \<Rightarrow> bool" where
  "exact_numbers jn \<longleftrightarrow> (\<forall>i. GetInt jn (sint i) = i) \<and> (\<forall>d. near jn d d) \<and>
     (\<forall>f d. is_finite jn (of_float jn f) \<longrightarrow> near jn (of_float jn f) d \<longrightarrow> GetFloat jn d = f)"

text \<open>Documents the writer can write, and what the parser gives for what it wrote.\<close>

fun writable :: "('f, 'd) jsonnum \<Rightarrow> 'd json \<Rightarrow> bool" where
  "writable jn (JInt i) \<longleftrightarrow> - (2 ^ 63) \<le> i \<and> i < 2 ^ 64"
| "writable jn (JDouble d) \<longleftrightarrow> is_finite jn d"
| "writable jn (JArray xs) \<longleftrightarrow> list_all (writable jn) xs"
| "writable jn (JObject ms) \<longleftrightarrow> list_all (\<lambda>m. writable jn (snd m)) ms"
| "writable jn _ \<longleftrightarrow> True"

definition writes_back :: "('f, 'd) jsonnum \<Rightarrow> (string \<Rightarrow> (string \<times> nat) + 'd json) \<Rightarrow> ('d json \<Rightarrow> string) \<Rightarrow> 'd json \<Rightarrow> bool" where
  "writes_back jn Parse Write d \<longleftrightarrow> (writable jn d \<longrightarrow> (\<exists>d'. Parse (c_string (Write d)) = Inr d' \<and> rel_json (near jn) d d'))"

lemma c_string_c_string [simp]: "c_string (c_string s) = c_string s"
  by (rule c_string_id) (auto simp: c_string_def dest: set_takeWhileD)

lemma c_string_bool [simp]: "c_string ''true'' = ''true''" "c_string ''false'' = ''false''"
  by (simp_all add: c_string_def NUL_def)

text \<open>Reading the encoder's output back gives \<open>readback\<close>.\<close>

lemma encode_vals:
  assumes "exact_numbers jn"
  shows "list_all (\<lambda>m. writable jn (snd m)) (EncodeJSONTable jn t obj) \<Longrightarrow>
      member_vals jn (EncodeJSONTable jn t obj) = member_vals jn obj @ node_vals t \<and> list_all (\<lambda>m. writable jn (snd m)) obj"
    and "list_all (writable jn) (EncodeJSONArray jn a arr) \<Longrightarrow>
      elem_vals jn (EncodeJSONArray jn a arr) =
           elem_vals jn arr @ concat (map (\<lambda>x. opt_list (readback_elem x)) a) \<and> list_all (writable jn) arr"
  using assms
  by (induction jn t obj and jn a arr rule: EncodeJSONTable_EncodeJSONArray.induct)
     (auto simp: exact_numbers_def split: sqobj.splits if_splits)

text \<open>The doubles of the encoder's output are floats, so the parser may be inexact.\<close>

definition from_float :: "('f, 'd) jsonnum \<Rightarrow> 'd \<Rightarrow> bool" where
  "from_float jn d \<longleftrightarrow> (\<exists>f. d = of_float jn f)"

lemma from_float_of_float [simp]: "from_float jn (of_float jn f)"
  by (auto simp: from_float_def)

abbreviation from_floats :: "('f, 'd) jsonnum \<Rightarrow> 'd json \<Rightarrow> bool" where
  "from_floats jn \<equiv> pred_json (from_float jn)"

lemma encode_from_floats:
  "from_floats jn (JObject obj) \<Longrightarrow> from_floats jn (JObject (EncodeJSONTable jn t obj))"
  "from_floats jn (JArray arr) \<Longrightarrow> from_floats jn (JArray (EncodeJSONArray jn a arr))"
  by (induction jn t obj and jn a arr rule: EncodeJSONTable_EncodeJSONArray.induct) (auto split: sqobj.splits)

lemma value_of_near:
  assumes "exact_numbers jn"
  shows "rel_json (near jn) d d' \<Longrightarrow> from_floats jn d \<Longrightarrow> writable jn d \<Longrightarrow> value_of jn d' = value_of jn d"
proof (induction d arbitrary: d')
  case (JDouble x)
  then show ?case using assms by (cases d') (auto simp: exact_numbers_def from_float_def)
next
  case (JArray xs)
  then obtain ys where d': "d' = JArray ys" "list_all2 (rel_json (near jn)) xs ys" by (cases d') auto
  have "map (value_of jn) ys = map (value_of jn) xs"
    using d'(2) JArray by (auto simp: list_all2_conv_all_nth list_all_length intro!: nth_equalityI)
  then have "map (\<lambda>x. opt_list (value_of jn x)) ys = map (\<lambda>x. opt_list (value_of jn x)) xs"
    by (metis (mono_tags, lifting) list.map_comp comp_def map_eq_conv)
  then show ?case by (simp add: d'(1))
next
  case (JObject ms)
  then obtain ns where d': "d' = JObject ns" "list_all2 (rel_prod (=) (rel_json (near jn))) ms ns" by (cases d') auto
  have "map (\<lambda>m. map (Pair (c_string (fst m))) (opt_list (value_of jn (snd m)))) ns =
      map (\<lambda>m. map (Pair (c_string (fst m))) (opt_list (value_of jn (snd m)))) ms"
  proof (rule nth_equalityI)
    fix i assume "i < length (map (\<lambda>m. map (Pair (c_string (fst m))) (opt_list (value_of jn (snd m)))) ns)"
    then have i: "i < length ns" "i < length ms" using d'(2) by (simp_all add: list_all2_lengthD)
    then have "rel_prod (=) (rel_json (near jn)) (ms ! i) (ns ! i)" using d'(2) by (simp add: list_all2_conv_all_nth)
    then have e: "fst (ns ! i) = fst (ms ! i)" "rel_json (near jn) (snd (ms ! i)) (snd (ns ! i))" by (auto simp: rel_prod_sel)
    have "ms ! i \<in> set ms" using i by simp
    then have "from_floats jn (snd (ms ! i))" "writable jn (snd (ms ! i))"
      using JObject.prems by (auto simp: list_all_iff pred_prod_beta)
    then have "value_of jn (snd (ns ! i)) = value_of jn (snd (ms ! i))"
      using JObject.IH [of "ms ! i" "snd (ms ! i)"] e(2) \<open>ms ! i \<in> set ms\<close> by (cases "ms ! i") (auto simp: snds.simps)
    then show "map (\<lambda>m. map (Pair (c_string (fst m))) (opt_list (value_of jn (snd m)))) ns ! i =
        map (\<lambda>m. map (Pair (c_string (fst m))) (opt_list (value_of jn (snd m)))) ms ! i" using i e(1) by simp
  qed (use d'(2) in \<open>simp add: list_all2_lengthD\<close>)
  then show ?case by (simp add: d'(1))
qed (case_tac d'; simp)+

section \<open>The VM interface\<close>

text \<open>
  The documented effect of the VM operations on the stack, read through \<open>stk\<close> with the top first.
\<close>

locale squirrel_vm =
  fixes api :: "('vm, 'f) sqapi" and stk :: "'vm \<Rightarrow> 'f sqval list"
  assumes newtable: "stk (newtable api vm) = VTable Map.empty # stk vm"
    and newarray: "stk (newarray api 0 vm) = VArray [] # stk vm"
    and pushstring: "stk (pushstring api s vm) = VString s # stk vm"
    and pushinteger: "stk (pushinteger api i vm) = VInteger i # stk vm"
    and pushfloat: "stk (pushfloat api f vm) = VFloat f # stk vm"
    and pushbool: "stk (pushbool api b vm) = VBool b # stk vm"
    and arrayappend:
      "stk vm = v # VArray vs # r \<Longrightarrow> stk (arrayappend api (-2) vm) = VArray (vs @ [v]) # r"
    and newslot:
      "stk vm = v # VString k # VTable t # r \<Longrightarrow>
         stk (newslot api (-3) False vm) = VTable (t(k \<mapsto> v)) # r"
begin

lemmas push_simps = newtable newarray pushstring pushinteger pushfloat pushbool

text \<open>The loops extend the container on the top of the stack and leave the rest alone.\<close>

lemma decode_loops:
  fixes jn :: "('f, 'd) jsonnum"
  shows "stk vm = VArray vs # r \<Longrightarrow>
      stk (DecodeJsonArrayLoop api jn vm xs) = VArray (vs @ elem_vals jn xs) # r"
    and "stk vm = VTable t # r \<Longrightarrow>
      stk (DecodeJsonTableLoop api jn vm ms) = VTable (t ++ map_of (rev (member_vals jn ms))) # r"
  using squirrel_vm_axioms
proof (induction api jn vm xs and api jn vm ms arbitrary: vs r and t r
       rule: DecodeJsonArrayLoop_DecodeJsonTableLoop.induct)
  case (2 api jn vm itr rest)
  note vm = \<open>squirrel_vm api stk\<close>
  show ?case
    using 2 by (cases itr)
      (auto simp: squirrel_vm.push_simps [OF vm] squirrel_vm.arrayappend [OF vm])
next
  case (4 api jn vm name v rest)
  note vm = \<open>squirrel_vm api stk\<close>
  show ?case
    using 4 by (cases v)
      (auto simp: squirrel_vm.push_simps [OF vm] squirrel_vm.newslot [OF vm])
qed auto

lemma decode_table:
  "DecodeJsonTable api jn vm doc = Some vm' \<Longrightarrow>
     stk vm' = the (value_of jn doc) # stk vm"
  by (auto simp: DecodeJsonTable_def newtable decode_loops(2) split: json.splits)

lemma decode_array:
  "stk (DecodeJsonArray api jn vm xs) = the (value_of jn (JArray xs)) # stk vm"
  by (simp add: DecodeJsonArray_def newarray decode_loops(1))

lemma decode_encode:
  assumes "exact_numbers jn" and w: "writable jn (JObject (EncodeJSONTable jn t []))"
    and d': "rel_json (near jn) (JObject (EncodeJSONTable jn t [])) d'"
  shows "\<exists>vm'. DecodeJsonTable api jn vm d' = Some vm' \<and> stk vm' = the (readback (SqTable t)) # stk vm"
proof -
  obtain ns where ns: "d' = JObject ns" using d' by (cases d') auto
  have "value_of jn d' = value_of jn (JObject (EncodeJSONTable jn t []))"
    by (rule value_of_near [OF assms(1) d' encode_from_floats(1) w]) simp
  moreover have "value_of jn (JObject (EncodeJSONTable jn t [])) = readback (SqTable t)"
    using encode_vals(1) [OF assms(1), of t "[]"] w by simp
  moreover obtain vm' where vm': "DecodeJsonTable api jn vm d' = Some vm'" by (simp add: DecodeJsonTable_def ns)
  ultimately show ?thesis using decode_table [OF vm'] by (simp del: readback.simps)
qed

end

text \<open>The stack machine of the VM's documentation: the state is the stack itself.\<close>

fun stack_append :: "'f sqval list \<Rightarrow> 'f sqval list" where
  "stack_append (v # VArray vs # r) = VArray (vs @ [v]) # r"
| "stack_append s = s"

fun stack_newslot :: "'f sqval list \<Rightarrow> 'f sqval list" where
  "stack_newslot (v # VString k # VTable t # r) = VTable (t(k \<mapsto> v)) # r"
| "stack_newslot s = s"

definition stack_api :: "('f sqval list, 'f) sqapi" where
  "stack_api = \<lparr>newtable = (\<lambda>s. VTable Map.empty # s), newarray = (\<lambda>n s. VArray [] # s),
     pushstring = (\<lambda>x s. VString x # s), pushinteger = (\<lambda>x s. VInteger x # s),
     pushfloat = (\<lambda>x s. VFloat x # s), pushbool = (\<lambda>x s. VBool x # s),
     arrayappend = (\<lambda>_. stack_append), newslot = (\<lambda>_ _. stack_newslot)\<rparr>"

interpretation stack_vm: squirrel_vm stack_api "\<lambda>s. s"
  by unfold_locales (simp_all add: stack_api_def)

text \<open>
  Numbers in the examples: a JSON number is a float in thousandths, of which the parser may miss a few; reading a float rounds.
\<close>

definition milli_numbers :: "(int, int) jsonnum" where
  "milli_numbers = \<lparr>of_float = (\<lambda>f. 1000 * f), GetFloat = (\<lambda>d. (d + 500) div 1000), GetInt = word_of_int,
     is_finite = (\<lambda>_. True), near = (\<lambda>a b. \<bar>a - b\<bar> \<le> 3)\<rparr>"


section \<open>Properties\<close>


lemma sint_64 [simp]: "- 9223372036854775808 \<le> sint (i :: u32)" "sint i < 18446744073709551616"
  using sint_ge [of i] sint_lt [of i] by simp_all










text \<open>
  Whatever table a script passes, if its numbers are finite, decoding what the encoder wrote gives its \<open>readback\<close>: integers,
  floats, strings up to a zero, nested tables and arrays come back; null, empty nodes, nodes without a string key
  and unsupported types are dropped; a boolean comes back as a boolean from a table slot, and as the
  string \<open>true\<close> or \<open>false\<close> from an array element.
\<close>

theorem json_readback:
  assumes "squirrel_vm api stk" and "exact_numbers jn"
    and "writes_back jn Parse Write (JObject (EncodeJSONTable jn t []))" and w: "writable jn (JObject (EncodeJSONTable jn t []))"
  shows "\<exists>vm'. DecodeJSON api jn Parse vm (EncodeJSON jn Write t) fatal = Some (NotNull, vm') \<and>
           stk vm' = the (readback (SqTable t)) # stk vm"
proof -
  obtain d' where d': "Parse (c_string (Write (JObject (EncodeJSONTable jn t [])))) = Inr d'"
      "rel_json (near jn) (JObject (EncodeJSONTable jn t [])) d'" using assms(3) w by (auto simp: writes_back_def)
  from squirrel_vm.decode_encode [OF assms(1,2) w d'(2), of vm] d'(1) show ?thesis
    by (auto simp: DecodeJSON_def EncodeJSON_def simp del: readback.simps)
qed

text \<open>
  \<open>DecodeJSON\<close> never touches the stack below its result: it pushes exactly one value. A parse
  error raises a script error exactly when the caller asked for fatal errors, and otherwise gives an
  empty table; a document that is an object gives its value; a document that parses but is not an
  object violates rapidjson's precondition, the only case without a result.
\<close>

theorem DecodeJSON_result:
  assumes "squirrel_vm api stk"
  shows "case DecodeJSON api jn Parse vm pJson fatal of
      None \<Rightarrow> (\<exists>doc. Parse (c_string pJson) = Inr doc \<and> (\<forall>ms. doc \<noteq> JObject ms))
    | Some (r, vm') \<Rightarrow>
        (case Parse (c_string pJson) of
           Inl (err, off) \<Rightarrow>
             r = (if fatal then RaiseError (json_error_text err off) else NotNull) \<and>
             stk vm' = VTable Map.empty # stk vm
         | Inr doc \<Rightarrow>
             r = NotNull \<and> (\<exists>v. value_of jn doc = Some v \<and> stk vm' = v # stk vm))"
  by (auto simp: DecodeJSON_def DecodeJsonTable_def Let_def squirrel_vm.newtable [OF assms]
      squirrel_vm.decode_loops(2) [OF assms] split: sum.splits option.splits json.splits)

theorem DecodeJSON_result_witness:
  "DecodeJSON stack_api milli_numbers (\<lambda>_. Inl (''Invalid value.'', 3)) [VNull] [] True =
     Some (RaiseError (json_error_text ''Invalid value.'' 3), [VTable Map.empty, VNull])"
  using DecodeJSON_result [OF stack_vm.squirrel_vm_axioms, where jn = milli_numbers and pJson = "[]"
      and Parse = "\<lambda>_. Inl (''Invalid value.'', 3)" and vm = "[VNull]" and fatal = True]
  by (simp split: option.splits) (simp add: DecodeJSON_def Let_def)

end
