(* ===== verification/BitMem.thy ===== *)
theory BitMem
  imports Prelude
begin

text \<open>
  The memory of the bit streams: the byte buffer a stream is given, the little-endian double words
  it is read and written by, and the mask tables of \<open>src/engine/bitbuf.cpp\<close>. An access outside
  the buffer, undefined in the code, is \<open>None\<close>.
\<close>

section \<open>Bits of a buffer\<close>

text \<open>Bit \<open>i\<close> of a buffer is bit \<open>i mod 8\<close> of byte \<open>i div 8\<close>.\<close>

definition buf_bit :: "u8 list \<Rightarrow> nat \<Rightarrow> bool" where
  "buf_bit bs i = bit (bs ! (i div 8)) (i mod 8)"

section \<open>Double words\<close>

text \<open>\<open>LoadLittleDWord\<close> and \<open>StoreLittleDWord\<close> of \<open>include/tier1/bitbuf.h\<close>.\<close>

definition dword_at :: "u8 list \<Rightarrow> nat \<Rightarrow> u32" where
  "dword_at bs k =
     ucast (bs ! k) OR push_bit 8 (ucast (bs ! (k + 1))) OR push_bit 16 (ucast (bs ! (k + 2))) OR
     push_bit 24 (ucast (bs ! (k + 3)))"

definition LoadLittleDWord :: "u8 list \<Rightarrow> nat \<Rightarrow> u32 option" where
  "LoadLittleDWord bs d = (if 4 * d + 4 \<le> length bs then Some (dword_at bs (4 * d)) else None)"

definition StoreLittleDWord :: "u8 list \<Rightarrow> nat \<Rightarrow> u32 \<Rightarrow> u8 list option" where
  "StoreLittleDWord bs d w =
     (if 4 * d + 4 \<le> length bs
      then Some (bs[4 * d := ucast w, 4 * d + 1 := ucast (drop_bit 8 w),
                    4 * d + 2 := ucast (drop_bit 16 w), 4 * d + 3 := ucast (drop_bit 24 w)])
      else None)"

lemma bit_dword_at:
  assumes "j < 32"
  shows "bit (dword_at bs k) j = bit (bs ! (k + j div 8)) (j mod 8)"
proof -
  define m where "m = j mod 8"
  have m: "m < 8" by (simp add: m_def)
  have high: "\<not> bit (b :: u8) n" if "8 \<le> n" for b n
    using that bit_imp_le_length [of b n] by auto
  have j: "j = 8 * (j div 8) + m" by (simp add: m_def)
  have "j div 8 < 4" using assms by (simp add: less_mult_imp_div_less)
  from less_4_cases [OF this] have "bit (dword_at bs k) j = bit (bs ! (k + j div 8)) m"
  proof (elim disjE)
    assume q: "j div 8 = 0"
    with j have "j = m" by simp
    then show ?thesis using m q by (simp add: dword_at_def bit_simps)
  next
    assume q: "j div 8 = 1"
    with j have "j = 8 + m" by simp
    then show ?thesis using m q by (simp add: dword_at_def bit_simps high)
  next
    assume q: "j div 8 = 2"
    with j have "j = 16 + m" by simp
    then show ?thesis using m q by (simp add: dword_at_def bit_simps high)
  next
    assume q: "j div 8 = 3"
    with j have "j = 24 + m" by simp
    then show ?thesis using m q by (simp add: dword_at_def bit_simps high)
  qed
  then show ?thesis by (simp add: m_def)
qed

lemma dword_div_mod:
  "(32 * d + j) div 8 = 4 * d + j div (8::nat)"
  "(32 * d + j) mod 8 = j mod (8::nat)"
proof -
  have e: "32 * d + j = j + 8 * (4 * d)" by simp
  show "(32 * d + j) div 8 = 4 * d + j div (8::nat)" "(32 * d + j) mod 8 = j mod (8::nat)"
    unfolding e div_mult_self2 [OF zero_neq_numeral [symmetric]] mod_mult_self2 by simp_all
qed

lemma bit_LoadLittleDWord:
  assumes "LoadLittleDWord bs d = Some w" and "j < 32"
  shows "bit w j = buf_bit bs (32 * d + j)"
  using assms by (auto simp: LoadLittleDWord_def bit_dword_at buf_bit_def dword_div_mod split: if_splits)

lemma LoadLittleDWord_some:
  "4 * d + 4 \<le> length bs \<Longrightarrow> LoadLittleDWord bs d = Some (dword_at bs (4 * d))"
  by (simp add: LoadLittleDWord_def)

lemma length_StoreLittleDWord:
  "StoreLittleDWord bs d w = Some bs' \<Longrightarrow> length bs' = length bs"
  by (auto simp: StoreLittleDWord_def split: if_splits)

lemma buf_bit_StoreLittleDWord:
  assumes "StoreLittleDWord bs d w = Some bs'"
  shows "buf_bit bs' i = (if i div 32 = d then bit w (i mod 32) else buf_bit bs i)"
proof -
  from assms have len: "4 * d + 4 \<le> length bs"
    and bs': "bs' = bs[4 * d := ucast w, 4 * d + 1 := ucast (drop_bit 8 w),
        4 * d + 2 := ucast (drop_bit 16 w), 4 * d + 3 := ucast (drop_bit 24 w)]"
    by (auto simp: StoreLittleDWord_def split: if_splits)
  define q m where "q = i div 8" and "m = i mod 8"
  have m: "m < 8" and bit_i: "\<And>bs. buf_bit bs i = bit (bs ! q) m"
    by (simp_all add: m_def q_def buf_bit_def)
  have d: "i div 32 = q div 4" and q4: "i mod 32 div 8 = q mod 4" and m8: "i mod 32 mod 8 = m"
    by (simp_all add: q_def m_def div_32_div_8 mod_32_div_8 mod_32_mod_8)
  have r: "i mod 32 = 8 * (q mod 4) + m"
    using mult_div_mod_eq [of 8 "i mod 32"] q4 m8 by simp
  show ?thesis
  proof (cases "q div 4 = d")
    case False
    then have "q \<noteq> 4 * d" "q \<noteq> 4 * d + 1" "q \<noteq> 4 * d + 2" "q \<noteq> 4 * d + 3"
      by auto
    with False show ?thesis by (simp add: bs' bit_i d)
  next
    case True
    then have q: "q = 4 * d + q mod 4" using mult_div_mod_eq [of 4 q] by simp
    have "q mod 4 < 4" by simp
    from less_4_cases [OF this] show ?thesis
    proof (elim disjE)
      assume "q mod 4 = 0"
      with q r have "q = 4 * d" "i mod 32 = m" by simp_all
      then show ?thesis using True m len by (simp add: bs' bit_i d bit_simps)
    next
      assume "q mod 4 = 1"
      with q r have "q = 4 * d + 1" "i mod 32 = 8 + m" by simp_all
      then show ?thesis using True m len by (simp add: bs' bit_i d bit_simps)
    next
      assume "q mod 4 = 2"
      with q r have "q = 4 * d + 2" "i mod 32 = 16 + m" by simp_all
      then show ?thesis using True m len by (simp add: bs' bit_i d bit_simps)
    next
      assume "q mod 4 = 3"
      with q r have "q = 4 * d + 3" "i mod 32 = 24 + m" by simp_all
      then show ?thesis using True m len by (simp add: bs' bit_i d bit_simps)
    qed
  qed
qed

section \<open>Masks\<close>

text \<open>
  \<open>GetBitForBitnum\<close> of \<open>include/tier1/bitvec.h\<close>; the table \<open>g_BitWriteMasks\<close>, whose entry for
  \<open>startbit\<close> and \<open>nBitsLeft\<close> keeps the bits outside that window; and \<open>s_nMaskTable\<close>, whose entry
  \<open>n\<close> keeps the low \<open>n\<close> bits.
\<close>

definition GetBitForBitnum :: "nat \<Rightarrow> u32" where
  "GetBitForBitnum bitNum = push_bit (bitNum mod 32) 1"

definition BitWriteMask :: "nat \<Rightarrow> nat \<Rightarrow> u32" where
  "BitWriteMask startbit nBitsLeft =
     (let endbit = startbit + nBitsLeft; m = GetBitForBitnum startbit - 1 in
      if endbit < 32 then m OR NOT (GetBitForBitnum endbit - 1) else m)"

definition nMaskTable :: "nat \<Rightarrow> u32" where
  "nMaskTable n =
     (if n = 32 then 0xffffffff else if n = 31 then 0x7fffffff else push_bit n 1 - 1)"

lemma GetBitForBitnum_mask: "n < 32 \<Longrightarrow> GetBitForBitnum n - 1 = mask n"
  by (simp add: GetBitForBitnum_def mask_eq_exp_minus_1 push_bit_eq_mult)

lemma bit_nMaskTable: "n \<le> 32 \<Longrightarrow> bit (nMaskTable n) j \<longleftrightarrow> j < n"
proof -
  assume n: "n \<le> 32"
  have "nMaskTable n = mask n"
  proof -
    have "(0xffffffff :: u32) = mask 32" "(0x7fffffff :: u32) = mask 31"
      by (simp_all add: mask_eq_exp_minus_1)
    then show ?thesis
      by (simp add: nMaskTable_def mask_eq_exp_minus_1 push_bit_eq_mult)
  qed
  with n show ?thesis by (auto simp: bit_mask_iff)
qed

lemma bit_BitWriteMask:
  assumes "s < 32" and "j < 32"
  shows "bit (BitWriteMask s n) j \<longleftrightarrow> j < s \<or> s + n \<le> j"
  using assms by (cases "s + n < 32")
    (auto simp: BitWriteMask_def GetBitForBitnum_mask Let_def bit_or_iff bit_not_iff bit_mask_iff)

section \<open>Double words as bytes, and the zig-zag code\<close>

text \<open>The bytes of a double word in memory.\<close>

definition dword_bytes :: "u32 \<Rightarrow> u8 list" where
  "dword_bytes v = [ucast v, ucast (drop_bit 8 v), ucast (drop_bit 16 v), ucast (drop_bit 24 v)]"

text \<open>The functions of the namespace \<open>bitbuf\<close>. The shift of a signed number keeps its sign.\<close>

definition ZigZagEncode32 :: "u32 \<Rightarrow> u32" where
  "ZigZagEncode32 n = push_bit 1 n XOR signed_drop_bit 31 n"

definition ZigZagDecode32 :: "u32 \<Rightarrow> u32" where
  "ZigZagDecode32 n = drop_bit 1 n XOR - (n AND 1)"

definition ZigZagEncode64 :: "u64 \<Rightarrow> u64" where
  "ZigZagEncode64 n = push_bit 1 n XOR signed_drop_bit 63 n"

definition ZigZagDecode64 :: "u64 \<Rightarrow> u64" where
  "ZigZagDecode64 n = drop_bit 1 n XOR - (n AND 1)"

end
