(* ===== verification/BitWrite.thy ===== *)
theory BitWrite
  imports BitMem
begin

text \<open>
  The bit stream writer \<open>CBitWrite\<close> (\<open>bf_write\<close>) of \<open>include/tier1/bitbuf.h\<close> and
  \<open>src/engine/bitbuf.cpp\<close>.

  The state is the record \<open>bf_write\<close>: the caller's buffer as the list of its bytes, the sizes
  \<open>m_nDataBytes\<close> and \<open>m_nDataBits\<close>, the position \<open>m_iCurBit\<close> and the overflow flag. The debug name and
  \<open>m_bAssertOnOverflow\<close> only serve assertions and are left out. Every operation returns the new
  state, or \<open>None\<close> where the code would access memory outside the buffer. Sizes and positions are
  of type \<open>int\<close> in the code, and every sum and product of them wraps around at 32 bits (\<open>int32\<close>), also in
  the range checks. The model is the release build: the range checks under \<open>_DEBUG\<close> are not part of it.
\<close>

section \<open>State\<close>

record bf_write =
  w_pData :: "u8 list"
  w_nDataBytes :: int
  w_nDataBits :: int
  w_iCurBit :: int
  w_bOverflow :: bool

text \<open>The default constructor: \<open>m_nDataBits\<close> is \<open>-1\<close> "so we generate overflow on any operation".\<close>

definition CBitWrite_default :: bf_write where
  "CBitWrite_default =
     \<lparr>w_pData = [], w_nDataBytes = 0, w_nDataBits = -1, w_iCurBit = 0, w_bOverflow = False\<rparr>"

definition StartWriting :: "u8 list \<Rightarrow> int \<Rightarrow> int \<Rightarrow> int \<Rightarrow> bf_write" where
  "StartWriting pData nBytes iStartBit nBits =
     (let nBytes' = nBytes div 4 * 4 in
      \<lparr>w_pData = pData, w_nDataBytes = nBytes',
       w_nDataBits = (if nBits = -1 then int32 (nBytes' * 8) else nBits),
       w_iCurBit = iStartBit, w_bOverflow = False\<rparr>)"

definition Reset :: "bf_write \<Rightarrow> bf_write" where
  "Reset w = w\<lparr>w_iCurBit := 0, w_bOverflow := False\<rparr>"

definition SeekToBit :: "bf_write \<Rightarrow> int \<Rightarrow> bf_write" where
  "SeekToBit w bitPos = w\<lparr>w_iCurBit := bitPos\<rparr>"

definition w_SetOverflowFlag :: "bf_write \<Rightarrow> bf_write" where
  "w_SetOverflowFlag w = w\<lparr>w_bOverflow := True\<rparr>"

definition CheckForOverflow :: "bf_write \<Rightarrow> int \<Rightarrow> bool \<times> bf_write" where
  "CheckForOverflow w nBits =
     (let w' = (if int32 (w_iCurBit w + nBits) > w_nDataBits w then w_SetOverflowFlag w else w) in
      (w_bOverflow w', w'))"

definition GetNumBytesWritten :: "bf_write \<Rightarrow> int" where
  "GetNumBytesWritten w = int32 (w_iCurBit w + 7) div 8"

definition w_GetNumBitsLeft :: "bf_write \<Rightarrow> int" where
  "w_GetNumBitsLeft w = int32 (w_nDataBits w - w_iCurBit w)"

section \<open>Single bits\<close>

text \<open>A byte of the buffer, and the buffer with a byte replaced.\<close>

definition load_byte :: "u8 list \<Rightarrow> int \<Rightarrow> u8 option" where
  "load_byte bs i = (if 0 \<le> i \<and> i < int (length bs) then Some (bs ! nat i) else None)"

definition store_byte :: "u8 list \<Rightarrow> int \<Rightarrow> u8 \<Rightarrow> u8 list option" where
  "store_byte bs i v = (if 0 \<le> i \<and> i < int (length bs) then Some (bs[nat i := v]) else None)"

definition put_bit :: "u8 list \<Rightarrow> int \<Rightarrow> bool \<Rightarrow> u8 list option" where
  "put_bit bs iBit nValue = do {
     b \<leftarrow> load_byte bs (iBit div 8);
     store_byte bs (iBit div 8)
       (if nValue then b OR push_bit (nat (iBit mod 8)) 1
        else b AND NOT (push_bit (nat (iBit mod 8)) 1)) }"

definition WriteOneBitNoCheck :: "bf_write \<Rightarrow> bool \<Rightarrow> bf_write option" where
  "WriteOneBitNoCheck w nValue = do {
     buf \<leftarrow> put_bit (w_pData w) (w_iCurBit w) nValue;
     Some (w\<lparr>w_pData := buf, w_iCurBit := int32 (w_iCurBit w + 1)\<rparr>) }"

definition WriteOneBit :: "bf_write \<Rightarrow> bool \<Rightarrow> bf_write option" where
  "WriteOneBit w nValue =
     (let (over, w') = CheckForOverflow w 1 in
      if \<not> over then WriteOneBitNoCheck w' nValue else Some w')"

definition WriteOneBitAt :: "bf_write \<Rightarrow> int \<Rightarrow> bool \<Rightarrow> bf_write option" where
  "WriteOneBitAt w iBit nValue =
     (if int32 (iBit + 1) > w_nDataBits w then Some (w_SetOverflowFlag w)
      else do {
        buf \<leftarrow> put_bit (w_pData w) iBit nValue;
        Some (w\<lparr>w_pData := buf\<rparr>) })"

section \<open>Integers of a fixed width\<close>

text \<open>
  \<open>WriteUBitLong\<close>. The value is not masked: its bits above \<open>numbits\<close> are or-ed into the double
  words that are written.
\<close>

definition WriteUBitLong :: "bf_write \<Rightarrow> u32 \<Rightarrow> nat \<Rightarrow> bf_write option" where
  "WriteUBitLong w curData numbits =
     (if int32 (w_iCurBit w + int numbits) > w_nDataBits w
      then Some (w_SetOverflowFlag (w\<lparr>w_iCurBit := w_nDataBits w\<rparr>))
      else do {
        let iDWord = nat (w_iCurBit w div 32);
        let iCurBitMasked = nat (w_iCurBit w mod 32);
        dword \<leftarrow> LoadLittleDWord (w_pData w) iDWord;
        let dword = (dword AND BitWriteMask iCurBitMasked numbits) OR push_bit iCurBitMasked curData;
        buf \<leftarrow> StoreLittleDWord (w_pData w) iDWord dword;
        let nBitsWritten = 32 - iCurBitMasked;
        buf \<leftarrow>
          (if nBitsWritten < numbits then do {
             let nBitsLeft = numbits - nBitsWritten;
             let curData = drop_bit nBitsWritten curData;
             dword \<leftarrow> LoadLittleDWord buf (iDWord + 1);
             StoreLittleDWord buf (iDWord + 1) ((dword AND BitWriteMask 0 nBitsLeft) OR curData) }
           else Some buf);
        Some (w\<lparr>w_pData := buf, w_iCurBit := int32 (w_iCurBit w + int numbits)\<rparr>) })"

text \<open>
  \<open>WriteSBitLong\<close>: the low bits first, then the sign bit. A negative value is offset by
  \<open>0x80000000\<close> to be "bit-compatible with regular integer data".
\<close>

definition WriteSBitLong :: "bf_write \<Rightarrow> u32 \<Rightarrow> nat \<Rightarrow> bf_write option" where
  "WriteSBitLong w data numbits =
     (if sint data < 0 then do {
        w \<leftarrow> WriteUBitLong w (0x80000000 + data) (numbits - 1);
        WriteOneBit w True }
      else do {
        w \<leftarrow> WriteUBitLong w data (numbits - 1);
        WriteOneBit w False })"

definition WriteBitLong :: "bf_write \<Rightarrow> u32 \<Rightarrow> nat \<Rightarrow> bool \<Rightarrow> bf_write option" where
  "WriteBitLong w data numbits bSigned =
     (if bSigned then WriteSBitLong w data numbits else WriteUBitLong w data numbits)"

definition WriteChar :: "bf_write \<Rightarrow> u32 \<Rightarrow> bf_write option" where
  "WriteChar w val = WriteSBitLong w val 8"

definition WriteByte :: "bf_write \<Rightarrow> u32 \<Rightarrow> bf_write option" where
  "WriteByte w val = WriteUBitLong w val 8"

definition WriteShort :: "bf_write \<Rightarrow> u32 \<Rightarrow> bf_write option" where
  "WriteShort w val = WriteSBitLong w val 16"

definition WriteWord :: "bf_write \<Rightarrow> u32 \<Rightarrow> bf_write option" where
  "WriteWord w val = WriteUBitLong w val 16"

definition WriteLong :: "bf_write \<Rightarrow> u32 \<Rightarrow> bf_write option" where
  "WriteLong w val = WriteSBitLong w val 32"

text \<open>
  \<open>WriteLongLong\<close> writes the halves of the value in the order the bytes of \<open>0x0100\<close> give: on a
  little-endian machine these are \<open>0\<close> and \<open>1\<close>, so the low half first.
\<close>

definition WriteLongLong :: "bf_write \<Rightarrow> u64 \<Rightarrow> bf_write option" where
  "WriteLongLong w val = do {
     w \<leftarrow> WriteUBitLong w (ucast val) 32;
     WriteUBitLong w (ucast (drop_bit 32 val)) 32 }"

text \<open>
  \<open>WriteUBitVar\<close>: the selector \<open>n + 3\<close> in the low two bits, where \<open>n\<close> is minus the number of the
  bounds \<open>0x10\<close>, \<open>0x100\<close>, \<open>0x1000\<close> the value is below.
\<close>

definition ubitvar_n :: "u32 \<Rightarrow> int" where
  "ubitvar_n data =
     (if data < 0x10 then -1 else 0) + (if data < 0x100 then -1 else 0) +
     (if data < 0x1000 then -1 else 0)"

definition WriteUBitVar :: "bf_write \<Rightarrow> u32 \<Rightarrow> bf_write option" where
  "WriteUBitVar w data = do {
     let n = ubitvar_n data;
     w \<leftarrow> WriteUBitLong w (data * 4 + word_of_int n + 3) (nat (6 + n * 4 + 12));
     (if data \<ge> 0x1000 then WriteUBitLong w (drop_bit 16 data) 16 else Some w) }"

section \<open>Blocks of bits\<close>

text \<open>
  \<open>WriteBits\<close> copies the first \<open>nBits\<close> bits of a byte block. The block is the list of its bytes
  and \<open>addr\<close> the address it starts at, which decides how many bytes are written one by one before
  the copy goes on in double words, or with \<open>memcpy\<close> when the stream is on a byte boundary.
\<close>

fun WriteAlignLoop ::
    "nat \<Rightarrow> bf_write \<Rightarrow> u8 list \<Rightarrow> nat \<Rightarrow> (bf_write \<times> u8 list \<times> nat) option" where
  "WriteAlignLoop addr w pIn nBitsLeft =
     (if addr mod 4 \<noteq> 0 \<and> nBitsLeft \<ge> 8 then
        (case pIn of
           [] \<Rightarrow> None
         | b # rest \<Rightarrow> do {
             w \<leftarrow> WriteUBitLong w (ucast b) 8;
             WriteAlignLoop (addr + 1) w rest (nBitsLeft - 8) })
      else Some (w, pIn, nBitsLeft))"

fun WriteByteLoop :: "bf_write \<Rightarrow> u8 list \<Rightarrow> nat \<Rightarrow> (bf_write \<times> u8 list \<times> nat) option" where
  "WriteByteLoop w pIn nBitsLeft =
     (if nBitsLeft \<ge> 8 then
        (case pIn of
           [] \<Rightarrow> None
         | b # rest \<Rightarrow> do {
             w \<leftarrow> WriteUBitLong w (ucast b) 8;
             WriteByteLoop w rest (nBitsLeft - 8) })
      else Some (w, pIn, nBitsLeft))"

definition memcpy_in :: "bf_write \<Rightarrow> u8 list \<Rightarrow> nat \<Rightarrow> bf_write option" where
  "memcpy_in w pIn numbytes =
     (let at = nat (w_iCurBit w div 8) in
      if numbytes \<le> length pIn \<and> 0 \<le> w_iCurBit w \<and> at + numbytes \<le> length (w_pData w)
      then Some (w\<lparr>w_pData := take at (w_pData w) @ take numbytes pIn @
                             drop (at + numbytes) (w_pData w),
                   w_iCurBit := int32 (w_iCurBit w + int (8 * numbytes))\<rparr>)
      else None)"

text \<open>The double word loop: \<open>outWord\<close> is the word being put together for position \<open>iDWord\<close>.\<close>

fun WriteDWordLoop ::
    "nat \<Rightarrow> bf_write \<Rightarrow> nat \<Rightarrow> u32 \<Rightarrow> u8 list \<Rightarrow> nat \<Rightarrow>
     (bf_write \<times> nat \<times> u32 \<times> u8 list \<times> nat) option" where
  "WriteDWordLoop iBitsRight w iDWord outWord pIn nBitsLeft =
     (let iBitsLeft = 32 - iBitsRight in
      if nBitsLeft \<ge> 32 + iBitsLeft then do {
        curData \<leftarrow> LoadLittleDWord pIn 0;
        buf \<leftarrow> StoreLittleDWord (w_pData w) iDWord (outWord OR push_bit iBitsRight curData);
        WriteDWordLoop iBitsRight (w\<lparr>w_pData := buf, w_iCurBit := int32 (w_iCurBit w + 32)\<rparr>)
          (iDWord + 1) (drop_bit iBitsLeft curData) (drop 4 pIn) (nBitsLeft - 32) }
      else Some (w, iDWord, outWord, pIn, nBitsLeft))"

declare WriteAlignLoop.simps [simp del] WriteByteLoop.simps [simp del] WriteDWordLoop.simps [simp del]

definition WriteDWords :: "bf_write \<Rightarrow> u8 list \<Rightarrow> nat \<Rightarrow> (bf_write \<times> u8 list \<times> nat) option" where
  "WriteDWords w pIn nBitsLeft = do {
     let iBitsRight = nat (w_iCurBit w mod 32);
     let iDWord = nat (w_iCurBit w div 32);
     outWord \<leftarrow> LoadLittleDWord (w_pData w) iDWord;
     let outWord = outWord AND BitWriteMask iBitsRight 32;
     (w, iDWord, outWord, pIn, nBitsLeft) \<leftarrow>
       WriteDWordLoop iBitsRight w iDWord outWord pIn nBitsLeft;
     buf \<leftarrow> StoreLittleDWord (w_pData w) iDWord outWord;
     let w = w\<lparr>w_pData := buf\<rparr>;
     (if nBitsLeft \<ge> 32 then do {
        curData \<leftarrow> LoadLittleDWord pIn 0;
        w \<leftarrow> WriteUBitLong w curData 32;
        Some (w, drop 4 pIn, nBitsLeft - 32) }
      else Some (w, pIn, nBitsLeft)) }"

text \<open>
  A negative number of bits passes the check and all loops, and is then taken as an index into the mask table.
\<close>

definition WriteBits :: "bf_write \<Rightarrow> nat \<Rightarrow> u8 list \<Rightarrow> int \<Rightarrow> (bool \<times> bf_write) option" where
  "WriteBits w addr pIn nBits =
     (if int32 (w_iCurBit w + nBits) > w_nDataBits w then Some (False, w_SetOverflowFlag w)
      else if nBits < 0 then None
      else do {
        (w, pIn, nBitsLeft) \<leftarrow> WriteAlignLoop addr w pIn (nat nBits);
        (w, pIn, nBitsLeft) \<leftarrow>
          (if nBitsLeft \<ge> 32 then
             (if w_iCurBit w mod 8 = 0 then do {
                let numbytes = nBitsLeft div 8;
                w \<leftarrow> memcpy_in w pIn numbytes;
                Some (w, drop numbytes pIn, nBitsLeft - 8 * numbytes) }
              else WriteDWords w pIn nBitsLeft)
           else Some (w, pIn, nBitsLeft));
        (w, pIn, nBitsLeft) \<leftarrow> WriteByteLoop w pIn nBitsLeft;
        w \<leftarrow>
          (if nBitsLeft \<noteq> 0 then
             (case pIn of [] \<Rightarrow> None | b # _ \<Rightarrow> WriteUBitLong w (ucast b) nBitsLeft)
           else Some w);
        Some (\<not> w_bOverflow w, w) })"

definition WriteBytes :: "bf_write \<Rightarrow> nat \<Rightarrow> u8 list \<Rightarrow> int \<Rightarrow> (bool \<times> bf_write) option" where
  "WriteBytes w addr pBuf nBytes = WriteBits w addr pBuf (int32 (8 * nBytes))"

section \<open>Floats\<close>

text \<open>
  A float is its 32-bit pattern. \<open>WriteBitFloat\<close> writes the pattern; \<open>WriteFloat\<close> first passes it
  through \<open>LittleFloat\<close>, which is \<open>DWordSwapC\<close>, a byte swap.
\<close>

definition DWordSwapC :: "u32 \<Rightarrow> u32" where
  "DWordSwapC dw =
     drop_bit 24 dw OR drop_bit 8 (dw AND 0x00FF0000) OR push_bit 8 (dw AND 0x0000FF00) OR
     push_bit 24 (dw AND 0x000000FF)"

definition WriteBitFloat :: "bf_write \<Rightarrow> u32 \<Rightarrow> bf_write option" where
  "WriteBitFloat w val = WriteUBitLong w val 32"

definition WriteFloat :: "bf_write \<Rightarrow> u32 \<Rightarrow> bf_write option" where
  "WriteFloat w val = map_option snd (WriteBits w 0 (dword_bytes (DWordSwapC val)) 32)"

section \<open>Integers of variable width\<close>

text \<open>The slow paths: seven bits a byte, with the high bit set in every byte but the last.\<close>

function VarIntSlow :: "bf_write \<Rightarrow> 'a::len word \<Rightarrow> bf_write option" where
  "VarIntSlow w data =
     (if data > 0x7F then do {
        w \<leftarrow> WriteUBitLong w (ucast ((data AND 0x7F) OR 0x80)) 8;
        VarIntSlow w (drop_bit 7 data) }
      else WriteUBitLong w (ucast (data AND 0x7F)) 8)"
  by pat_completeness auto

termination
proof (relation "measure (\<lambda>(w, data). unat data)")
  fix w x :: bf_write and data :: "'a word"
  assume "0x7F < data"
  then show "((x, drop_bit 7 data), (w, data)) \<in> measure (\<lambda>(w, data). unat data)"
    by (simp only: in_measure prod.case unat_drop_bit_less)
qed simp

declare VarIntSlow.simps [simp del]

text \<open>
  The fast path of \<open>WriteVarInt32\<close>: up to five bytes stored straight into the buffer, the high bit
  of the last one cleared again.
\<close>

definition clear_high :: "u8 list \<Rightarrow> int \<Rightarrow> u8 list option" where
  "clear_high bs i = do { b \<leftarrow> load_byte bs i; store_byte bs i (b AND 0x7F) }"

definition VarInt32Fast :: "bf_write \<Rightarrow> u32 \<Rightarrow> bf_write option" where
  "VarInt32Fast w data = do {
     let target = w_iCurBit w div 8;
     buf \<leftarrow> store_byte (w_pData w) target (ucast (data OR 0x80));
     (buf, size) \<leftarrow>
       (if data \<ge> 2 ^ 7 then do {
          buf \<leftarrow> store_byte buf (target + 1) (ucast (drop_bit 7 data OR 0x80));
          (if data \<ge> 2 ^ 14 then do {
             buf \<leftarrow> store_byte buf (target + 2) (ucast (drop_bit 14 data OR 0x80));
             (if data \<ge> 2 ^ 21 then do {
                buf \<leftarrow> store_byte buf (target + 3) (ucast (drop_bit 21 data OR 0x80));
                (if data \<ge> 2 ^ 28 then do {
                   buf \<leftarrow> store_byte buf (target + 4) (ucast (drop_bit 28 data));
                   Some (buf, 5 * 8) }
                 else do { buf \<leftarrow> clear_high buf (target + 3); Some (buf, 4 * 8) }) }
              else do { buf \<leftarrow> clear_high buf (target + 2); Some (buf, 3 * 8) }) }
           else do { buf \<leftarrow> clear_high buf (target + 1); Some (buf, 2 * 8) }) }
        else do { buf \<leftarrow> clear_high buf target; Some (buf, 1 * 8) });
     Some (w\<lparr>w_pData := buf, w_iCurBit := int32 (w_iCurBit w + size)\<rparr>) }"

definition WriteVarInt32 :: "bf_write \<Rightarrow> u32 \<Rightarrow> bf_write option" where
  "WriteVarInt32 w data =
     (if w_iCurBit w mod 8 = 0 \<and> int32 (w_iCurBit w + 5 * 8) \<le> w_nDataBits w
      then VarInt32Fast w data else VarIntSlow w data)"

text \<open>
  The fast path of \<open>WriteVarInt64\<close>: the value is cut into 28-bit pieces, a search tree gives the
  number of bytes, and the labels \<open>size10\<close> to \<open>size1\<close> store them from the last to the first.
\<close>

definition varint64_size :: "u64 \<Rightarrow> nat" where
  "varint64_size data =
     (let part0 = ucast data :: u32; part1 = ucast (drop_bit 28 data) :: u32;
          part2 = ucast (drop_bit 56 data) :: u32 in
      if part2 = 0 then
        (if part1 = 0 then
           (if part0 < 2 ^ 14 then (if part0 < 2 ^ 7 then 1 else 2)
            else (if part0 < 2 ^ 21 then 3 else 4))
         else
           (if part1 < 2 ^ 14 then (if part1 < 2 ^ 7 then 5 else 6)
            else (if part1 < 2 ^ 21 then 7 else 8)))
      else (if part2 < 2 ^ 7 then 9 else 10))"

definition varint64_byte :: "u64 \<Rightarrow> nat \<Rightarrow> u8" where
  "varint64_byte data k =
     (let part0 = ucast data :: u32; part1 = ucast (drop_bit 28 data) :: u32;
          part2 = ucast (drop_bit 56 data) :: u32 in
      ucast ((if k = 9 then drop_bit 7 part2 else if k = 8 then part2
              else if k = 7 then drop_bit 21 part1 else if k = 6 then drop_bit 14 part1
              else if k = 5 then drop_bit 7 part1 else if k = 4 then part1
              else if k = 3 then drop_bit 21 part0 else if k = 2 then drop_bit 14 part0
              else if k = 1 then drop_bit 7 part0 else part0) OR 0x80))"

fun store_down :: "u8 list \<Rightarrow> int \<Rightarrow> u64 \<Rightarrow> nat \<Rightarrow> u8 list option" where
  "store_down buf target data 0 = Some buf"
| "store_down buf target data (Suc k) = do {
     buf \<leftarrow> store_byte buf (target + int k) (varint64_byte data k);
     store_down buf target data k }"

definition VarInt64Fast :: "bf_write \<Rightarrow> u64 \<Rightarrow> bf_write option" where
  "VarInt64Fast w data = do {
     let target = w_iCurBit w div 8;
     let size = varint64_size data;
     buf \<leftarrow> store_down (w_pData w) target data size;
     buf \<leftarrow> clear_high buf (target + int size - 1);
     Some (w\<lparr>w_pData := buf, w_iCurBit := int32 (w_iCurBit w + int size * 8)\<rparr>) }"

definition WriteVarInt64 :: "bf_write \<Rightarrow> u64 \<Rightarrow> bf_write option" where
  "WriteVarInt64 w data =
     (if w_iCurBit w mod 8 = 0 \<and> int32 (w_iCurBit w + 10 * 8) \<le> w_nDataBits w
      then VarInt64Fast w data else VarIntSlow w data)"

definition WriteSignedVarInt32 :: "bf_write \<Rightarrow> u32 \<Rightarrow> bf_write option" where
  "WriteSignedVarInt32 w data = WriteVarInt32 w (ZigZagEncode32 data)"

definition WriteSignedVarInt64 :: "bf_write \<Rightarrow> u64 \<Rightarrow> bf_write option" where
  "WriteSignedVarInt64 w data = WriteVarInt64 w (ZigZagEncode64 data)"

function ByteSizeVarInt :: "'a::len word \<Rightarrow> nat" where
  "ByteSizeVarInt data = (if data > 0x7F then Suc (ByteSizeVarInt (drop_bit 7 data)) else 1)"
  by pat_completeness auto
termination
proof (relation "measure unat")
  fix data :: "'a word"
  assume "0x7F < data"
  then show "(drop_bit 7 data, data) \<in> measure unat"
    by (simp only: in_measure unat_drop_bit_less)
qed simp

declare ByteSizeVarInt.simps [simp del]

definition ByteSizeSignedVarInt32 :: "u32 \<Rightarrow> nat" where
  "ByteSizeSignedVarInt32 data = ByteSizeVarInt (ZigZagEncode32 data)"

definition ByteSizeSignedVarInt64 :: "u64 \<Rightarrow> nat" where
  "ByteSizeSignedVarInt64 data = ByteSizeVarInt (ZigZagEncode64 data)"

section \<open>Strings\<close>

text \<open>
  A C string is the memory it points to, one element per character, up to and past the terminating
  zero; \<open>None\<close> is the null pointer. \<open>char\<close> is signed and \<open>wchar_t\<close> an unsigned 16-bit unit, so
  the first is sign-extended to the \<open>int\<close> argument and the second is not.
\<close>

fun WriteStringLoop :: "bf_write \<Rightarrow> u8 list \<Rightarrow> bf_write option" where
  "WriteStringLoop w [] = None"
| "WriteStringLoop w (c # pStr) = do {
     w \<leftarrow> WriteChar w (scast c);
     (if c \<noteq> 0 then WriteStringLoop w pStr else Some w) }"

definition WriteString :: "bf_write \<Rightarrow> u8 list option \<Rightarrow> (bool \<times> bf_write) option" where
  "WriteString w pStr = do {
     w \<leftarrow> (case pStr of Some s \<Rightarrow> WriteStringLoop w s | None \<Rightarrow> WriteChar w 0);
     Some (\<not> w_bOverflow w, w) }"

fun WriteWStringLoop :: "bf_write \<Rightarrow> u16 list \<Rightarrow> bf_write option" where
  "WriteWStringLoop w [] = None"
| "WriteWStringLoop w (c # pStr) = do {
     w \<leftarrow> WriteShort w (ucast c);
     (if c \<noteq> 0 then WriteWStringLoop w pStr else Some w) }"

definition WriteWString :: "bf_write \<Rightarrow> u16 list option \<Rightarrow> (bool \<times> bf_write) option" where
  "WriteWString w pStr = do {
     w \<leftarrow> (case pStr of Some s \<Rightarrow> WriteWStringLoop w s | None \<Rightarrow> WriteShort w 0);
     Some (\<not> w_bOverflow w, w) }"

section \<open>The invariant, and what a write does to the bits\<close>

text \<open>
  The position is inside the stream, and the stream inside the buffer, which ends on a double word. The stream is smaller
  than 128 MiB; then no position wraps around.
\<close>

definition wr_inv :: "bf_write \<Rightarrow> bool" where
  "wr_inv w \<longleftrightarrow> 0 \<le> w_iCurBit w \<and> w_iCurBit w \<le> w_nDataBits w \<and>
     w_nDataBits w \<le> 8 * w_nDataBytes w \<and> 4 dvd w_nDataBytes w \<and>
     w_nDataBytes w \<le> int (length (w_pData w)) \<and> w_nDataBits w < 2 ^ 30"

lemma wr_int32:
  assumes "wr_inv w" "0 \<le> n" "n \<le> 2 ^ 30"
  shows "int32 (w_iCurBit w + n) = w_iCurBit w + n"
  using assms by (intro int32_id) (auto simp: wr_inv_def)

text \<open>\<open>n\<close> more bits fit, and no earlier operation overflowed.\<close>

definition room :: "bf_write \<Rightarrow> nat \<Rightarrow> bool" where
  "room w n \<longleftrightarrow> wr_inv w \<and> \<not> w_bOverflow w \<and> w_iCurBit w + int n \<le> w_nDataBits w"

text \<open>
  \<open>emits w bs w'\<close>: from \<open>w\<close> to \<open>w'\<close> the stream has grown by the bits \<open>bs\<close>; everything before them
  is as it was.
\<close>

definition emits :: "bf_write \<Rightarrow> bool list \<Rightarrow> bf_write \<Rightarrow> bool" where
  "emits w bs w' \<longleftrightarrow>
     wr_inv w' \<and> \<not> w_bOverflow w' \<and>
     w_nDataBits w' = w_nDataBits w \<and> w_nDataBytes w' = w_nDataBytes w \<and>
     length (w_pData w') = length (w_pData w) \<and>
     w_iCurBit w' = w_iCurBit w + int (length bs) \<and>
     (\<forall>i < nat (w_iCurBit w). buf_bit (w_pData w') i = buf_bit (w_pData w) i) \<and>
     (\<forall>k < length bs. buf_bit (w_pData w') (nat (w_iCurBit w) + k) = bs ! k)"

definition written_bits :: "bf_write \<Rightarrow> bool list" where
  "written_bits w = map (buf_bit (w_pData w)) [0..<nat (w_iCurBit w)]"

lemma room_mono: "room w n \<Longrightarrow> m \<le> n \<Longrightarrow> room w m"
  by (simp add: room_def)

lemma emits_room: "emits w bs w' \<Longrightarrow> room w (length bs + n) \<Longrightarrow> room w' n"
  by (simp add: emits_def room_def)

lemma emits_nil: "room w n \<Longrightarrow> emits w [] w"
  by (simp add: emits_def room_def)

lemma emits_trans:
  assumes "emits w bs w1" and "emits w1 cs w2" and "0 \<le> w_iCurBit w"
  shows "emits w (bs @ cs) w2"
proof -
  let ?c = "nat (w_iCurBit w)"
  have c1: "nat (w_iCurBit w1) = ?c + length bs"
    using assms by (simp add: emits_def nat_add_distrib)
  have "buf_bit (w_pData w2) (?c + k) = (bs @ cs) ! k" if "k < length (bs @ cs)" for k
  proof (cases "k < length bs")
    case True
    then have "buf_bit (w_pData w2) (?c + k) = buf_bit (w_pData w1) (?c + k)"
      using assms(2) c1 by (simp add: emits_def)
    with True assms(1) show ?thesis by (simp add: emits_def nth_append)
  next
    case False
    then obtain k' where k': "k = length bs + k'" by (metis le_add_diff_inverse not_less)
    with that have "buf_bit (w_pData w2) (nat (w_iCurBit w1) + k') = cs ! k'"
      using assms(2) by (simp add: emits_def)
    with k' c1 show ?thesis by (simp add: nth_append add.assoc)
  qed
  with assms c1 show ?thesis by (auto simp: emits_def)
qed

lemma written_bits_emits:
  assumes "emits w bs w'" and "0 \<le> w_iCurBit w"
  shows "written_bits w' = written_bits w @ bs"
proof (rule nth_equalityI)
  have c: "nat (w_iCurBit w') = nat (w_iCurBit w) + length bs"
    using assms by (simp add: emits_def nat_add_distrib)
  then show "length (written_bits w') = length (written_bits w @ bs)"
    by (simp add: written_bits_def)
  fix i assume "i < length (written_bits w')"
  then have i: "i < nat (w_iCurBit w) + length bs"
    using c by (simp add: written_bits_def)
  show "written_bits w' ! i = (written_bits w @ bs) ! i"
  proof (cases "i < nat (w_iCurBit w)")
    case True
    with assms c show ?thesis by (simp add: written_bits_def emits_def nth_append)
  next
    case False
    then obtain k where k: "i = nat (w_iCurBit w) + k" by (metis le_add_diff_inverse not_less)
    with i assms c show ?thesis by (simp add: written_bits_def emits_def nth_append)
  qed
qed

subsection \<open>One write of at most 32 bits\<close>

lemma StoreLittleDWord_some:
  "4 * d + 4 \<le> length bs \<Longrightarrow> \<exists>bs'. StoreLittleDWord bs d w = Some bs' \<and> length bs' = length bs"
  by (simp add: StoreLittleDWord_def)

lemma bit_masked_dword:
  assumes "s < 32" and "j < 32"
    and "LoadLittleDWord bs q = Some dw"
  shows "bit ((dw AND BitWriteMask s n) OR push_bit s d) j \<longleftrightarrow>
     ((j < s \<or> s + n \<le> j) \<and> buf_bit bs (32 * q + j)) \<or> (s \<le> j \<and> bit d (j - s))"
  using assms by (auto simp: bit_or_iff bit_and_iff bit_push_bit_iff bit_BitWriteMask bit_LoadLittleDWord)

lemma WriteUBitLong_effect:
  assumes inv: "wr_inv w" and n: "0 < n" "n \<le> 32" and fits: "w_iCurBit w + int n \<le> w_nDataBits w"
    and cur: "w_iCurBit w = int c"
  shows "\<exists>buf. WriteUBitLong w d n = Some (w\<lparr>w_pData := buf, w_iCurBit := w_iCurBit w + int n\<rparr>) \<and>
     length buf = length (w_pData w) \<and>
     (\<forall>i. buf_bit buf i =
        (if i < c then buf_bit (w_pData w) i
         else if i < c + n then bit d (i - c)
         else buf_bit (w_pData w) i \<or> (i div 32 \<le> (c + n - 1) div 32 \<and> bit d (i - c))))"
proof -
  define q s where "q = c div 32" and "s = c mod 32"
  let ?b = "w_pData w"
  have s: "s < 32" and c: "c = 32 * q + s" by (simp_all add: q_def s_def)
  have idx: "nat (w_iCurBit w div 32) = q" "nat (w_iCurBit w mod 32) = s"
    by (simp_all add: q_def s_def cur nat_div_distrib nat_mod_distrib)
  obtain m where m: "c + n \<le> 32 * m" "4 * m \<le> length ?b"
  proof -
    from inv obtain z where z: "w_nDataBytes w = 4 * z" by (auto simp: wr_inv_def)
    have "c + n \<le> 32 * nat z" "4 * nat z \<le> length ?b"
      using inv fits cur z by (auto simp: wr_inv_def)
    then show ?thesis by (rule that)
  qed
  have "q < m" using m c n by linarith
  then have q: "4 * q + 4 \<le> length ?b" using m by linarith
  define dw where "dw = dword_at ?b (4 * q)"
  have ld: "LoadLittleDWord ?b q = Some dw" using q by (simp add: dw_def LoadLittleDWord_some)
  from StoreLittleDWord_some [OF q] obtain b1 where
    st: "StoreLittleDWord ?b q ((dw AND BitWriteMask s n) OR push_bit s d) = Some b1"
    and len1: "length b1 = length ?b" by blast
  have b1: "buf_bit b1 i = (if i div 32 = q then
      ((i mod 32 < s \<or> s + n \<le> i mod 32) \<and> buf_bit ?b i) \<or> (s \<le> i mod 32 \<and> bit d (i mod 32 - s))
      else buf_bit ?b i)" for i
  proof -
    have "i div 32 = q \<Longrightarrow> 32 * q + i mod 32 = i" by (rule dword_pos)
    then show ?thesis
      using bit_masked_dword [OF s _ ld, of "i mod 32" n d]
      by (auto simp: buf_bit_StoreLittleDWord [OF st])
  qed
  have pos: "i = 32 * (i div 32) + i mod 32" for i :: nat by simp
  show ?thesis
  proof (cases "32 - s < n")
    case False
    then have last: "(c + n - 1) div 32 = q" using c n s by simp
    have bits: "buf_bit b1 i = (if i < c then buf_bit ?b i else if i < c + n then bit d (i - c)
         else buf_bit ?b i \<or> (i div 32 \<le> q \<and> bit d (i - c)))" for i
    proof (cases "i div 32 = q")
      case True
      then have "i = 32 * q + i mod 32" using pos [of i] by simp
      then have "i < c \<longleftrightarrow> i mod 32 < s" "i < c + n \<longleftrightarrow> i mod 32 < s + n" "i - c = i mod 32 - s"
        using c by linarith+
      with True show ?thesis by (auto simp: b1)
    next
      case other: False
      have "i < c \<or> (c + n \<le> i \<and> \<not> i div 32 \<le> q)"
        using other False c s pos [of i] by linarith
      with other show ?thesis by (auto simp: b1)
    qed
    have "WriteUBitLong w d n = Some (w\<lparr>w_pData := b1, w_iCurBit := w_iCurBit w + int n\<rparr>)"
      using False fits wr_int32 [OF inv, of "int n"] n by (simp add: WriteUBitLong_def idx ld st)
    with len1 show ?thesis
      unfolding last by (intro exI [of _ b1]) (simp only: bits, simp)
  next
    case True
    define k where "k = n - (32 - s)"
    have "q + 1 < m" using m c True by linarith
    then have "4 * (q + 2) \<le> length b1" unfolding len1 using m(2) by (intro le_trans [OF _ m(2)]) simp
    then have q1: "4 * (q + 1) + 4 \<le> length b1" by simp
    define dw1 where "dw1 = dword_at b1 (4 * (q + 1))"
    have ld1: "LoadLittleDWord b1 (q + 1) = Some dw1"
      using q1 by (simp add: dw1_def LoadLittleDWord_some)
    from StoreLittleDWord_some [OF q1] obtain b2 where
      st1: "StoreLittleDWord b1 (q + 1) ((dw1 AND BitWriteMask 0 k) OR drop_bit (32 - s) d) = Some b2"
      and len2: "length b2 = length b1" by blast
    have b2: "buf_bit b2 i = (if i div 32 = q + 1 then
        (k \<le> i mod 32 \<and> buf_bit b1 i) \<or> bit d (i mod 32 + (32 - s)) else buf_bit b1 i)" for i
    proof -
      have "i div 32 = q + 1 \<Longrightarrow> 32 * (q + 1) + i mod 32 = i" by (rule dword_pos)
      then show ?thesis
        using bit_masked_dword [OF _ _ ld1, of 0 "i mod 32" k "drop_bit (32 - s) d"]
        by (auto simp: buf_bit_StoreLittleDWord [OF st1] bit_drop_bit_eq add.commute)
    qed
    have last: "(c + n - 1) div 32 = q + 1"
      using c n s True by (intro div_nat_eqI) auto
    have bits: "buf_bit b2 i = (if i < c then buf_bit ?b i else if i < c + n then bit d (i - c)
         else buf_bit ?b i \<or> (i div 32 \<le> q + 1 \<and> bit d (i - c)))" for i
    proof -
      consider "i div 32 = q" | "i div 32 = q + 1" | "i div 32 < q" | "q + 1 < i div 32"
        by linarith
      then show ?thesis
      proof cases
        case 1
        then have "i = 32 * q + i mod 32" using pos [of i] by simp
        then have "i < c \<longleftrightarrow> i mod 32 < s" "i < c + n" "i - c = i mod 32 - s" "i mod 32 < s + n"
          using c True mod_less_divisor [of 32 i] by linarith+
        with 1 show ?thesis by (auto simp: b1 b2)
      next
        case 2
        then have "i = 32 * q + 32 + i mod 32" using pos [of i] by simp
        then have "\<not> i < c" "i < c + n \<longleftrightarrow> i mod 32 < k" "i - c = i mod 32 + (32 - s)"
          using c s True k_def by linarith+
        with 2 show ?thesis by (auto simp: b1 b2)
      next
        case 3
        then have "i < c" using c pos [of i] mod_less_divisor [of 32 i] by linarith
        with 3 show ?thesis by (simp add: b1 b2)
      next
        case 4
        then have "c + n \<le> i" using c s n pos [of i] by linarith
        with 4 show ?thesis by (simp add: b1 b2)
      qed
    qed
    have "WriteUBitLong w d n = Some (w\<lparr>w_pData := b2, w_iCurBit := w_iCurBit w + int n\<rparr>)"
      using True fits ld1 st1 wr_int32 [OF inv, of "int n"] n by (simp add: WriteUBitLong_def idx ld st k_def [symmetric])
    with len1 len2 show ?thesis
      unfolding last by (intro exI [of _ b2]) (simp only: bits, simp)
  qed
qed

definition ubits :: "nat \<Rightarrow> 'a::len word \<Rightarrow> bool list" where
  "ubits n d = map (bit d) [0..<n]"

lemma length_ubits [simp]: "length (ubits n d) = n"
  by (simp add: ubits_def)

lemma nth_ubits [simp]: "k < n \<Longrightarrow> ubits n d ! k = bit d k"
  by (simp add: ubits_def)

lemma roomD: "room w n \<Longrightarrow> \<exists>c. w_iCurBit w = int c \<and> wr_inv w \<and> \<not> w_bOverflow w \<and>
    int c + int n \<le> w_nDataBits w"
  by (auto simp: room_def wr_inv_def intro: exI [of _ "nat (w_iCurBit w)"])

lemma WriteUBitLong_emits:
  assumes "room w n" and "0 < n" "n \<le> 32"
  shows "\<exists>w'. WriteUBitLong w d n = Some w' \<and> emits w (ubits n d) w'"
proof -
  from roomD [OF assms(1)] obtain c where c: "w_iCurBit w = int c" and inv: "wr_inv w"
    and no: "\<not> w_bOverflow w" and fits: "int c + int n \<le> w_nDataBits w" by blast
  have fits': "w_iCurBit w + int n \<le> w_nDataBits w" using fits c by simp
  from WriteUBitLong_effect [OF inv assms(2,3) fits' c, of d] obtain buf where
    w: "WriteUBitLong w d n = Some (w\<lparr>w_pData := buf, w_iCurBit := w_iCurBit w + int n\<rparr>)"
    and len: "length buf = length (w_pData w)"
    and bits: "\<And>i. buf_bit buf i =
        (if i < c then buf_bit (w_pData w) i
         else if i < c + n then bit d (i - c)
         else buf_bit (w_pData w) i \<or> (i div 32 \<le> (c + n - 1) div 32 \<and> bit d (i - c)))"
    by blast
  have "emits w (ubits n d) (w\<lparr>w_pData := buf, w_iCurBit := w_iCurBit w + int n\<rparr>)"
    using inv no fits c len by (simp add: emits_def wr_inv_def bits)
  with w show ?thesis by blast
qed

text \<open>A write of no bits leaves the written ones alone, where one more bit would fit.\<close>

lemma WriteUBitLong_zero:
  assumes "room w 1"
  shows "\<exists>w'. WriteUBitLong w d 0 = Some w' \<and> emits w [] w'"
proof -
  from roomD [OF assms] obtain c where c: "w_iCurBit w = int c" and inv: "wr_inv w"
    and no: "\<not> w_bOverflow w" and fits: "int c + int 1 \<le> w_nDataBits w" by blast
  define q s where "q = c div 32" and "s = c mod 32"
  have s: "s < 32" and cq: "c = 32 * q + s" by (simp_all add: q_def s_def)
  have idx: "nat (w_iCurBit w div 32) = q" "nat (w_iCurBit w mod 32) = s"
    by (simp_all add: q_def s_def c nat_div_distrib nat_mod_distrib)
  obtain z where z: "w_nDataBytes w = 4 * z" using inv by (auto simp: wr_inv_def)
  have "c + 1 \<le> 32 * nat z" and zl: "4 * nat z \<le> length (w_pData w)"
    using inv fits z by (auto simp: wr_inv_def)
  then have "q < nat z" using cq by linarith
  then have q: "4 * q + 4 \<le> length (w_pData w)" by (intro le_trans [OF _ zl]) simp
  define dw where "dw = dword_at (w_pData w) (4 * q)"
  have ld: "LoadLittleDWord (w_pData w) q = Some dw" using q by (simp add: dw_def LoadLittleDWord_some)
  from StoreLittleDWord_some [OF q] obtain b1 where
    st: "StoreLittleDWord (w_pData w) q ((dw AND BitWriteMask s 0) OR push_bit s d) = Some b1"
    and len1: "length b1 = length (w_pData w)" by blast
  have "buf_bit b1 i = buf_bit (w_pData w) i" if "i < c" for i
  proof (cases "i div 32 = q")
    case True
    then have "32 * q + i mod 32 = i" by (rule dword_pos)
    then have "i mod 32 < s" using that cq by linarith
    with True \<open>32 * q + i mod 32 = i\<close> show ?thesis
      using bit_masked_dword [OF s _ ld, of "i mod 32" 0 d]
      by (simp add: buf_bit_StoreLittleDWord [OF st])
  next
    case False
    then show ?thesis by (simp add: buf_bit_StoreLittleDWord [OF st])
  qed
  then have "emits w [] (w\<lparr>w_pData := b1\<rparr>)"
    using inv no fits c len1 by (simp add: emits_def wr_inv_def)
  moreover have "WriteUBitLong w d 0 = Some (w\<lparr>w_pData := b1\<rparr>)"
    using fits c s wr_int32 [OF inv, of 0] by (simp add: WriteUBitLong_def idx [unfolded c] ld st Let_def)
  ultimately show ?thesis by blast
qed

subsection \<open>One bit\<close>

lemma bit_set_bit_byte:
  "j < 8 \<Longrightarrow> m < 8 \<Longrightarrow>
    bit (if v then (b :: u8) OR push_bit m 1 else b AND NOT (push_bit m 1)) j = (if j = m then v else bit b j)"
  by (auto simp: bit_or_iff bit_and_iff bit_not_iff bit_exp_iff)

lemma put_bit_effect:
  assumes "i < 8 * length bs"
  shows "\<exists>bs'. put_bit bs (int i) v = Some bs' \<and> length bs' = length bs \<and>
     (\<forall>j. buf_bit bs' j = (if j = i then v else buf_bit bs j))"
proof -
  have k: "nat (int i div 8) = i div 8" "nat (int i mod 8) = i mod 8"
    by (simp_all add: nat_div_distrib nat_mod_distrib)
  have len: "i div 8 < length bs" using assms by (simp add: less_mult_imp_div_less mult.commute)
  have lenI: "int i div 8 < int (length bs)" using len by (simp add: zdiv_int [symmetric])
  let ?b = "if v then bs ! (i div 8) OR push_bit (i mod 8) 1
            else bs ! (i div 8) AND NOT (push_bit (i mod 8) 1)"
  have "put_bit bs (int i) v = Some (bs[i div 8 := ?b])"
    using len lenI by (simp add: put_bit_def load_byte_def store_byte_def k)
  moreover have "buf_bit (bs[i div 8 := ?b]) j = (if j = i then v else buf_bit bs j)" for j
  proof (cases "j div 8 = i div 8")
    case True
    then have "j mod 8 = i mod 8 \<longleftrightarrow> j = i" by (metis mult_div_mod_eq)
    moreover have "bit ?b (j mod 8) = (if j mod 8 = i mod 8 then v else bit (bs ! (i div 8)) (j mod 8))"
      by (rule bit_set_bit_byte) simp_all
    ultimately show ?thesis
      using True len by (simp only: buf_bit_def nth_list_update_eq)
  next
    case False
    then show ?thesis by (auto simp: buf_bit_def)
  qed
  ultimately show ?thesis by auto
qed

lemma WriteOneBit_emits:
  assumes "room w 1"
  shows "\<exists>w'. WriteOneBit w v = Some w' \<and> emits w [v] w'"
proof -
  from roomD [OF assms] obtain c where c: "w_iCurBit w = int c" and inv: "wr_inv w"
    and no: "\<not> w_bOverflow w" and fits: "int c + int 1 \<le> w_nDataBits w" by blast
  have "c < 8 * length (w_pData w)" using inv fits by (simp add: wr_inv_def)
  from put_bit_effect [OF this, of v] obtain b where
    b: "put_bit (w_pData w) (int c) v = Some b" "length b = length (w_pData w)"
      "\<And>j. buf_bit b j = (if j = c then v else buf_bit (w_pData w) j)" by blast
  have "WriteOneBit w v = Some (w\<lparr>w_pData := b, w_iCurBit := int c + 1\<rparr>)"
    using c fits no b(1) wr_int32 [OF inv, of 1] by (simp add: WriteOneBit_def CheckForOverflow_def WriteOneBitNoCheck_def)
  moreover have "emits w [v] (w\<lparr>w_pData := b, w_iCurBit := int c + 1\<rparr>)"
    using inv no fits c b(2,3) by (simp add: emits_def wr_inv_def)
  ultimately show ?thesis by blast
qed

subsection \<open>Signed values\<close>

lemma bit_sign_offset: "j < 31 \<Longrightarrow> bit (0x80000000 + d :: u32) j = bit d j"
proof -
  assume j: "j < 31"
  have u: "uint (0x80000000 + d) = take_bit 32 (0x80000000 + uint d)"
    by (simp add: uint_word_ariths take_bit_eq_mod)
  have "bit (0x80000000 + d) j = bit (uint (0x80000000 + d)) j"
    using j by (simp add: bit_uint_iff)
  also have "\<dots> = bit (take_bit 31 (0x80000000 + uint d)) j"
    using j by (simp only: u bit_take_bit_iff) simp
  also have "take_bit 31 (0x80000000 + uint d) = take_bit 31 (uint d)"
    by (simp add: take_bit_eq_mod)
  finally show ?thesis using j by (simp add: bit_take_bit_iff bit_uint_iff)
qed

lemma WriteSBitLong_emits:
  assumes "room w n" and "0 < n" "n \<le> 32"
  shows "\<exists>w'. WriteSBitLong w d n = Some w' \<and> emits w (ubits (n - 1) d @ [sint d < 0]) w'"
proof -
  let ?v = "if sint d < 0 then 0x80000000 + d else d"
  have v: "ubits (n - 1) ?v = ubits (n - 1) d"
    using assms by (auto simp: ubits_def bit_sign_offset)
  have "\<exists>w1. WriteUBitLong w ?v (n - 1) = Some w1 \<and> emits w (ubits (n - 1) ?v) w1"
  proof (cases "n = 1")
    case True
    with WriteUBitLong_zero [of w ?v] assms(1) show ?thesis by (simp add: ubits_def)
  next
    case False
    with assms WriteUBitLong_emits [of w "n - 1" ?v] room_mono [of w n "n - 1"]
    show ?thesis by simp
  qed
  then obtain w1 where w1: "WriteUBitLong w ?v (n - 1) = Some w1" "emits w (ubits (n - 1) d) w1"
    unfolding v by blast
  with assms have "room w1 1" by (intro emits_room [OF w1(2)]) simp
  then obtain w2 where "WriteOneBit w1 (sint d < 0) = Some w2" "emits w1 [sint d < 0] w2"
    using WriteOneBit_emits by blast
  moreover have "0 \<le> w_iCurBit w" using assms(1) by (simp add: room_def wr_inv_def)
  ultimately show ?thesis
    using w1 emits_trans [OF w1(2)] by (auto simp: WriteSBitLong_def split: if_splits)
qed

end
