(* ===== verification/BitRead.thy ===== *)
theory BitRead
  imports BitMem
begin

text \<open>
  The bit stream reader \<open>CBitRead\<close> (\<open>bf_read\<close>) of \<open>include/tier1/bitbuf.h\<close> and
  \<open>src/engine/bitbuf.cpp\<close>.

  The reader keeps the double word it is consuming in \<open>m_nInBufWord\<close>, with \<open>m_nBitsAvail\<close> bits left in
  it, and \<open>m_pDataIn\<close>, where the next one starts. A buffer whose size is not a multiple of four
  begins with a short word of one to three bytes. Pointers are byte offsets from \<open>m_pData\<close>, so
  \<open>m_pBufferEnd\<close> is \<open>r_nDataBytes\<close>; \<open>m_pDataIn\<close> moves past the end once the data is used up. The
  data pointer is not null. Operations return their result and the new state, or \<open>None\<close> where
  memory outside the buffer would be read.
\<close>

section \<open>State\<close>

record bf_read =
  r_pData :: "u8 list"
  r_nDataBytes :: nat
  r_nDataBits :: int
  r_bOverflow :: bool
  r_nInBufWord :: u32
  r_nBitsAvail :: int
  r_pDataIn :: nat

section \<open>Fetching\<close>

definition load_dword_bytes :: "u8 list \<Rightarrow> nat \<Rightarrow> u32 option" where
  "load_dword_bytes bs off = (if off + 4 \<le> length bs then Some (dword_at bs off) else None)"

definition r_SetOverflowFlag :: "bf_read \<Rightarrow> bf_read" where
  "r_SetOverflowFlag r = r\<lparr>r_bOverflow := True\<rparr>"

definition GrabNextDWord :: "bf_read \<Rightarrow> bool \<Rightarrow> bf_read option" where
  "GrabNextDWord r bOverFlowImmediately =
     (if r_pDataIn r = r_nDataBytes r then
        (let r = r\<lparr>r_nBitsAvail := 1, r_nInBufWord := 0, r_pDataIn := r_pDataIn r + 4\<rparr> in
         Some (if bOverFlowImmediately then r_SetOverflowFlag r else r))
      else if r_pDataIn r > r_nDataBytes r then
        (let r = (if \<not> r_bOverflow r then r_SetOverflowFlag r else r) in
         Some (r\<lparr>r_nInBufWord := 0\<rparr>))
      else do {
        dw \<leftarrow> load_dword_bytes (r_pData r) (r_pDataIn r);
        Some (r\<lparr>r_nInBufWord := dw, r_pDataIn := r_pDataIn r + 4\<rparr>) })"

definition FetchNext :: "bf_read \<Rightarrow> bf_read option" where
  "FetchNext r = GrabNextDWord (r\<lparr>r_nBitsAvail := 32\<rparr>) False"

section \<open>Positions\<close>

definition Tell :: "bf_read \<Rightarrow> int" where
  "Tell r =
     (let nCurOfs = (int (r_pDataIn r div 4) - 1) * 32 + (32 - r_nBitsAvail r);
          nAdjust = 8 * int (r_nDataBytes r mod 4) in
      min (nCurOfs + nAdjust) (r_nDataBits r))"

definition r_GetNumBitsLeft :: "bf_read \<Rightarrow> int" where
  "r_GetNumBitsLeft r = r_nDataBits r - Tell r"

definition load_rbyte :: "u8 list \<Rightarrow> nat \<Rightarrow> u8 option" where
  "load_rbyte bs i = (if i < length bs then Some (bs ! i) else None)"

text \<open>
  \<open>Seek\<close>. A position outside the data sets the overflow flag and goes to its end. The first branch
  loads the short word, the second the double word the position is in.
\<close>

definition Seek :: "bf_read \<Rightarrow> int \<Rightarrow> (bool \<times> bf_read) option" where
  "Seek r nPosition =
     (let bad = nPosition < 0 \<or> nPosition > r_nDataBits r;
          r = (if bad then r_SetOverflowFlag r else r);
          nPosition = (if bad then r_nDataBits r else nPosition);
          nHead = r_nDataBytes r mod 4;
          nByteOfs = nPosition div 8 in
      if r_nDataBytes r < 4 \<or> (nHead \<noteq> 0 \<and> nByteOfs < int nHead) then do {
        b0 \<leftarrow> load_rbyte (r_pData r) 0;
        b1 \<leftarrow> (if nHead > 1 then load_rbyte (r_pData r) 1 else Some 0);
        b2 \<leftarrow> (if nHead > 2 then load_rbyte (r_pData r) 2 else Some 0);
        let word = (ucast b0 OR push_bit 8 (ucast b1) OR push_bit 16 (ucast b2) :: u32);
        let pPartial = 1 + (if nHead > 1 then 1 else 0) + (if nHead > 2 then 1 else 0);
        Some (\<not> bad, r\<lparr>r_pDataIn := pPartial,
                     r_nInBufWord := drop_bit (nat (nPosition mod 32)) word,
                     r_nBitsAvail := int (8 * nHead) - nPosition mod 32\<rparr>) }
      else do {
        let nAdjPosition = nPosition - int (8 * nHead);
        let r = r\<lparr>r_pDataIn := nat (nAdjPosition div 32) * 4 + nHead, r_nBitsAvail := 32\<rparr>;
        r \<leftarrow> GrabNextDWord r False;
        Some (\<not> bad, r\<lparr>r_nInBufWord := drop_bit (nat (nAdjPosition mod 32)) (r_nInBufWord r),
                     r_nBitsAvail := min (r_nBitsAvail r) (32 - nAdjPosition mod 32)\<rparr>) })"

definition SeekRelative :: "bf_read \<Rightarrow> int \<Rightarrow> (bool \<times> bf_read) option" where
  "SeekRelative r nOffset = Seek r (Tell r + nOffset)"

definition StartReading :: "u8 list \<Rightarrow> nat \<Rightarrow> int \<Rightarrow> int \<Rightarrow> bf_read option" where
  "StartReading pData nBytes iStartBit nBits =
     map_option snd (Seek
       \<lparr>r_pData = pData, r_nDataBytes = nBytes,
        r_nDataBits = (if nBits = -1 then int nBytes * 8 else nBits),
        r_bOverflow = False, r_nInBufWord = 0, r_nBitsAvail = 0, r_pDataIn = 0\<rparr> iStartBit)"

section \<open>Reading\<close>

definition ReadOneBit :: "bf_read \<Rightarrow> (bool \<times> bf_read) option" where
  "ReadOneBit r = do {
     let nRet = bit (r_nInBufWord r) 0;
     let r = r\<lparr>r_nBitsAvail := r_nBitsAvail r - 1\<rparr>;
     r \<leftarrow> (if r_nBitsAvail r = 0 then FetchNext r
          else Some (r\<lparr>r_nInBufWord := drop_bit 1 (r_nInBufWord r)\<rparr>));
     Some (nRet, r) }"

definition ReadUBitLong :: "bf_read \<Rightarrow> nat \<Rightarrow> (u32 \<times> bf_read) option" where
  "ReadUBitLong r numbits =
     (if r_nBitsAvail r \<ge> int numbits then do {
        let nRet = r_nInBufWord r AND nMaskTable numbits;
        let r = r\<lparr>r_nBitsAvail := r_nBitsAvail r - int numbits\<rparr>;
        r \<leftarrow> (if r_nBitsAvail r \<noteq> 0
             then Some (r\<lparr>r_nInBufWord := drop_bit numbits (r_nInBufWord r)\<rparr>)
             else FetchNext r);
        Some (nRet, r) }
      else do {
        let nRet = r_nInBufWord r;
        let numbits = nat (int numbits - r_nBitsAvail r);
        r \<leftarrow> GrabNextDWord r True;
        (if r_bOverflow r then Some (0, r)
         else
           let nRet = nRet OR push_bit (nat (r_nBitsAvail r)) (r_nInBufWord r AND nMaskTable numbits)
           in Some (nRet, r\<lparr>r_nBitsAvail := 32 - int numbits,
                           r_nInBufWord := drop_bit numbits (r_nInBufWord r)\<rparr>)) })"

definition ReadSBitLong :: "bf_read \<Rightarrow> nat \<Rightarrow> (u32 \<times> bf_read) option" where
  "ReadSBitLong r numbits = do {
     (nRet, r) \<leftarrow> ReadUBitLong r numbits;
     Some (signed_drop_bit (32 - numbits) (push_bit (32 - numbits) nRet), r) }"

definition PeekUBitLong :: "bf_read \<Rightarrow> nat \<Rightarrow> (u32 \<times> bf_read) option" where
  "PeekUBitLong r numbits = do {
     (nRet, r') \<leftarrow> ReadUBitLong r numbits;
     Some (nRet, r'\<lparr>r_nBitsAvail := r_nBitsAvail r, r_nInBufWord := r_nInBufWord r,
                    r_pDataIn := r_pDataIn r\<rparr>) }"

text \<open>
  \<open>ReadUBitVar\<close>: six bits, of which bits 4 and 5 tell how many more bits follow above the low four.
\<close>

definition ReadUBitVar :: "bf_read \<Rightarrow> (u32 \<times> bf_read) option" where
  "ReadUBitVar r = do {
     (ret, r) \<leftarrow> ReadUBitLong r 6;
     let sel = ret AND 48;
     (if sel = 16 then do {
        (x, r) \<leftarrow> ReadUBitLong r 4; Some ((ret AND 15) OR push_bit 4 x, r) }
      else if sel = 32 then do {
        (x, r) \<leftarrow> ReadUBitLong r 8; Some ((ret AND 15) OR push_bit 4 x, r) }
      else if sel = 48 then do {
        (x, r) \<leftarrow> ReadUBitLong r 28; Some ((ret AND 15) OR push_bit 4 x, r) }
      else Some (ret, r)) }"

definition ReadChar :: "bf_read \<Rightarrow> (u32 \<times> bf_read) option" where
  "ReadChar r = ReadSBitLong r 8"

definition ReadByte :: "bf_read \<Rightarrow> (u32 \<times> bf_read) option" where
  "ReadByte r = ReadSBitLong r 8"

definition ReadShort :: "bf_read \<Rightarrow> (u32 \<times> bf_read) option" where
  "ReadShort r = ReadUBitLong r 16"

definition ReadWord :: "bf_read \<Rightarrow> (u32 \<times> bf_read) option" where
  "ReadWord r = ReadUBitLong r 16"

definition ReadLong :: "bf_read \<Rightarrow> (u32 \<times> bf_read) option" where
  "ReadLong r = ReadUBitLong r 32"

definition ReadFloat :: "bf_read \<Rightarrow> (u32 \<times> bf_read) option" where
  "ReadFloat r = ReadUBitLong r 32"

definition ReadBitFloat :: "bf_read \<Rightarrow> (u32 \<times> bf_read) option" where
  "ReadBitFloat r = ReadUBitLong r 32"

definition ReadLongLong :: "bf_read \<Rightarrow> (u64 \<times> bf_read) option" where
  "ReadLongLong r = do {
     (lo, r) \<leftarrow> ReadUBitLong r 32;
     (hi, r) \<leftarrow> ReadUBitLong r 32;
     Some (ucast lo OR push_bit 32 (ucast hi), r) }"

text \<open>
  \<open>ReadVarInt32\<close> and \<open>ReadVarInt64\<close> are one loop over words of different size and limit. \<open>left\<close> is
  the number of bytes that may still be read, \<open>count\<close> those read so far.
\<close>

fun ReadVarIntLoop :: "nat \<Rightarrow> nat \<Rightarrow> 'a::len word \<Rightarrow> bf_read \<Rightarrow> ('a word \<times> bf_read) option" where
  "ReadVarIntLoop 0 count result r = Some (result, r)"
| "ReadVarIntLoop (Suc left) count result r = do {
     (b, r) \<leftarrow> ReadUBitLong r 8;
     let result = result OR push_bit (7 * count) (ucast b AND 0x7F);
     (if b AND 0x80 \<noteq> 0 then ReadVarIntLoop left (count + 1) result r else Some (result, r)) }"

definition ReadVarInt32 :: "bf_read \<Rightarrow> (u32 \<times> bf_read) option" where
  "ReadVarInt32 r = ReadVarIntLoop 5 0 0 r"

definition ReadVarInt64 :: "bf_read \<Rightarrow> (u64 \<times> bf_read) option" where
  "ReadVarInt64 r = ReadVarIntLoop 10 0 0 r"

definition ReadSignedVarInt32 :: "bf_read \<Rightarrow> (u32 \<times> bf_read) option" where
  "ReadSignedVarInt32 r = do { (v, r) \<leftarrow> ReadVarInt32 r; Some (ZigZagDecode32 v, r) }"

definition ReadSignedVarInt64 :: "bf_read \<Rightarrow> (u64 \<times> bf_read) option" where
  "ReadSignedVarInt64 r = do { (v, r) \<leftarrow> ReadVarInt64 r; Some (ZigZagDecode64 v, r) }"

section \<open>Blocks of bits\<close>

text \<open>
  \<open>ReadBits\<close> fills a byte block at address \<open>addr\<close>: bytes up to the next double word of the block,
  double words, bytes, and a last byte with the bits that remain. The result is the list of the
  bytes stored, \<open>(nBits + 7) div 8\<close> of them.
\<close>

fun ReadAlignLoop :: "nat \<Rightarrow> bf_read \<Rightarrow> u8 list \<Rightarrow> nat \<Rightarrow> (bf_read \<times> u8 list \<times> nat) option" where
  "ReadAlignLoop addr r pOut nBitsLeft =
     (if addr mod 4 \<noteq> 0 \<and> nBitsLeft \<ge> 8 then do {
        (b, r) \<leftarrow> ReadUBitLong r 8;
        ReadAlignLoop (addr + 1) r (pOut @ [ucast b]) (nBitsLeft - 8) }
      else Some (r, pOut, nBitsLeft))"

fun ReadDWordLoop :: "bf_read \<Rightarrow> u8 list \<Rightarrow> nat \<Rightarrow> (bf_read \<times> u8 list \<times> nat) option" where
  "ReadDWordLoop r pOut nBitsLeft =
     (if nBitsLeft \<ge> 32 then do {
        (v, r) \<leftarrow> ReadUBitLong r 32;
        ReadDWordLoop r (pOut @ dword_bytes v) (nBitsLeft - 32) }
      else Some (r, pOut, nBitsLeft))"

fun ReadByteLoop :: "bf_read \<Rightarrow> u8 list \<Rightarrow> nat \<Rightarrow> (bf_read \<times> u8 list \<times> nat) option" where
  "ReadByteLoop r pOut nBitsLeft =
     (if nBitsLeft \<ge> 8 then do {
        (b, r) \<leftarrow> ReadUBitLong r 8;
        ReadByteLoop r (pOut @ [ucast b]) (nBitsLeft - 8) }
      else Some (r, pOut, nBitsLeft))"

declare ReadAlignLoop.simps [simp del] ReadDWordLoop.simps [simp del] ReadByteLoop.simps [simp del]

text \<open>A negative number of bits passes all loops and is taken as an index into the mask table.\<close>

definition ReadBits :: "bf_read \<Rightarrow> nat \<Rightarrow> int \<Rightarrow> (u8 list \<times> bf_read) option" where
  "ReadBits r addr nBits = (if nBits < 0 then None else do {
     (r, pOut, nBitsLeft) \<leftarrow> ReadAlignLoop addr r [] (nat nBits);
     (r, pOut, nBitsLeft) \<leftarrow> ReadDWordLoop r pOut nBitsLeft;
     (r, pOut, nBitsLeft) \<leftarrow> ReadByteLoop r pOut nBitsLeft;
     (if nBitsLeft \<noteq> 0 then do {
        (b, r) \<leftarrow> ReadUBitLong r nBitsLeft;
        Some (pOut @ [ucast b], r) }
      else Some (pOut, r)) })"

definition ReadBytes :: "bf_read \<Rightarrow> nat \<Rightarrow> int \<Rightarrow> (bool \<times> u8 list \<times> bf_read) option" where
  "ReadBytes r addr nBytes = do {
     (pOut, r) \<leftarrow> ReadBits r addr (int32 (8 * nBytes));
     Some (\<not> r_bOverflow r, pOut, r) }"

section \<open>Strings\<close>

text \<open>
  The loops of \<open>ReadString\<close> and \<open>ReadWString\<close>: characters are read until a zero, or a newline when
  \<open>bLine\<close> is set. The first \<open>maxLen - 1\<close> are kept and \<open>bTooSmall\<close> records that one was dropped.
  The result is \<open>pStr\<close> up to its terminating zero; its length without it is \<open>*pOutNumChars\<close>.
\<close>

partial_function (option) ReadCharsLoop ::
    "(bf_read \<Rightarrow> (u32 \<times> bf_read) option) \<Rightarrow> nat \<Rightarrow> bool \<Rightarrow> bf_read \<Rightarrow> 'a::len word list \<Rightarrow> bool \<Rightarrow>
     ('a word list \<times> bool \<times> bf_read) option" where
  "ReadCharsLoop get maxLen bLine r pStr bTooSmall = do {
     (c, r) \<leftarrow> get r;
     let val = (ucast c :: 'a word);
     (if val = 0 then Some (pStr, bTooSmall, r)
      else if bLine \<and> val = 10 then Some (pStr, bTooSmall, r)
      else if length pStr < maxLen - 1 then ReadCharsLoop get maxLen bLine r (pStr @ [val]) bTooSmall
      else ReadCharsLoop get maxLen bLine r pStr True) }"

definition ReadString :: "bf_read \<Rightarrow> nat \<Rightarrow> bool \<Rightarrow> (bool \<times> u8 list \<times> bf_read) option" where
  "ReadString r maxLen bLine = do {
     (pStr, bTooSmall, r) \<leftarrow> ReadCharsLoop ReadChar maxLen bLine r [] False;
     Some (\<not> r_bOverflow r \<and> \<not> bTooSmall, pStr @ [0], r) }"

definition ReadWString :: "bf_read \<Rightarrow> nat \<Rightarrow> bool \<Rightarrow> (bool \<times> u16 list \<times> bf_read) option" where
  "ReadWString r maxLen bLine = do {
     (pStr, bTooSmall, r) \<leftarrow> ReadCharsLoop ReadShort maxLen bLine r [] False;
     Some (\<not> r_bOverflow r \<and> \<not> bTooSmall, pStr @ [0], r) }"

text \<open>\<open>ReadAndAllocateString\<close>: the flag it reports, and the string it allocates.\<close>

definition ReadAndAllocateString :: "bf_read \<Rightarrow> (bool \<times> u8 list \<times> bf_read) option" where
  "ReadAndAllocateString r = do {
     (ok, str, r) \<leftarrow> ReadString r 2048 False;
     Some (\<not> ok, str, r) }"

section \<open>The invariant, and what a read sees\<close>

text \<open>
  \<open>rd_at r p\<close>: the reader has consumed the first \<open>p\<close> bits of its data and did not overflow. Either
  \<open>m_nInBufWord\<close> holds the \<open>m_nBitsAvail\<close> bits before \<open>m_pDataIn\<close>, or all the data is consumed and
  the reader is one double word past it, with a single zero bit that reports the overflow when it is
  taken. \<open>rd_dead\<close> is the state after an overflow.
\<close>

definition rd_word :: "u8 list \<Rightarrow> nat \<Rightarrow> nat \<Rightarrow> u32 \<Rightarrow> bool" where
  "rd_word S p avail v \<longleftrightarrow> (\<forall>j. bit v j \<longleftrightarrow> j < avail \<and> buf_bit S (p + j))"

definition rd_at :: "bf_read \<Rightarrow> nat \<Rightarrow> bool" where
  "rd_at r p \<longleftrightarrow> r_nDataBytes r = length (r_pData r) \<and> \<not> r_bOverflow r \<and>
     ((\<exists>avail. r_nBitsAvail r = int avail \<and> 1 \<le> avail \<and> avail \<le> 32 \<and>
         p + avail = 8 * r_pDataIn r \<and> r_pDataIn r \<le> length (r_pData r) \<and>
         4 dvd (length (r_pData r) - r_pDataIn r) \<and>
         rd_word (r_pData r) p avail (r_nInBufWord r))
      \<or> (p = 8 * length (r_pData r) \<and> r_nBitsAvail r = 1 \<and> r_nInBufWord r = 0 \<and>
         r_pDataIn r = length (r_pData r) + 4))"

definition rd_dead :: "bf_read \<Rightarrow> bool" where
  "rd_dead r \<longleftrightarrow> r_bOverflow r \<and> r_nInBufWord r = 0 \<and> r_nDataBytes r < r_pDataIn r"

lemma rd_at_midI:
  assumes "r_nBitsAvail r = int avail" "1 \<le> avail" "avail \<le> 32"
    and "p + avail = 8 * r_pDataIn r" "r_pDataIn r \<le> length (r_pData r)"
    and "4 dvd (length (r_pData r) - r_pDataIn r)" "rd_word (r_pData r) p avail (r_nInBufWord r)"
    and "r_nDataBytes r = length (r_pData r)" "\<not> r_bOverflow r"
  shows "rd_at r p"
  using assms unfolding rd_at_def by blast

text \<open>The parts of the state no read changes.\<close>

definition rd_same :: "bf_read \<Rightarrow> bf_read \<Rightarrow> bool" where
  "rd_same r r' \<longleftrightarrow> r_pData r' = r_pData r \<and> r_nDataBytes r' = r_nDataBytes r \<and>
     r_nDataBits r' = r_nDataBits r"

lemma rd_same_refl [simp]: "rd_same r r"
  by (simp add: rd_same_def)

lemma rd_same_trans: "rd_same r r1 \<Longrightarrow> rd_same r1 r2 \<Longrightarrow> rd_same r r2"
  by (simp add: rd_same_def)

lemma rd_word_drop:
  "rd_word S p avail v \<Longrightarrow> rd_word S (p + n) (avail - n) (drop_bit n v)"
proof -
  have "j < avail - n \<longleftrightarrow> n + j < avail" for j :: nat by linarith
  then show "rd_word S p avail v \<Longrightarrow> rd_word S (p + n) (avail - n) (drop_bit n v)"
    by (simp add: rd_word_def bit_drop_bit_eq add.assoc)
qed

lemma bit_32_less: "bit (v :: u32) j \<Longrightarrow> j < 32"
  using bit_imp_le_length [of v j] by simp

text \<open>The next double word of the data is fetched.\<close>

lemma GrabNextDWord_word:
  assumes "off < r_nDataBytes r" and "r_nDataBytes r = length (r_pData r)"
    and "4 dvd (length (r_pData r) - off)" and "r_pDataIn r = off"
  shows "\<exists>dw. GrabNextDWord r b = Some (r\<lparr>r_nInBufWord := dw, r_pDataIn := off + 4\<rparr>) \<and>
     rd_word (r_pData r) (8 * off) 32 dw \<and> off + 4 \<le> length (r_pData r) \<and>
     4 dvd (length (r_pData r) - (off + 4))"
proof -
  from assms obtain k where k: "length (r_pData r) - off = 4 * k" by (auto elim: dvdE)
  with assms have "1 \<le> k" by (cases k) auto
  with k have len: "off + 4 \<le> length (r_pData r)" by linarith
  have "length (r_pData r) - (off + 4) = 4 * (k - 1)" using k by (simp add: algebra_simps)
  then have dvd: "4 dvd (length (r_pData r) - (off + 4))" by simp
  have "bit (dword_at (r_pData r) off) j \<longleftrightarrow> j < 32 \<and> buf_bit (r_pData r) (8 * off + j)" for j
  proof (cases "j < 32")
    case True
    then show ?thesis by (simp add: bit_dword_at buf_bit_def)
  next
    case False
    then show ?thesis using bit_32_less by blast
  qed
  then have "rd_word (r_pData r) (8 * off) 32 (dword_at (r_pData r) off)"
    by (simp add: rd_word_def)
  with len dvd assms show ?thesis
    by (intro exI [of _ "dword_at (r_pData r) off"]) (simp add: GrabNextDWord_def load_dword_bytes_def)
qed

lemma FetchNext_at:
  assumes "r_nDataBytes r = length (r_pData r)" and "\<not> r_bOverflow r"
    and "off \<le> length (r_pData r)" and "4 dvd (length (r_pData r) - off)" and "r_pDataIn r = off"
  shows "\<exists>r'. FetchNext r = Some r' \<and> rd_at r' (8 * off) \<and> rd_same r r'"
proof (cases "off = length (r_pData r)")
  case True
  with assms show ?thesis
    by (simp add: FetchNext_def GrabNextDWord_def rd_at_def rd_same_def)
next
  case False
  with assms have "off < r_nDataBytes (r\<lparr>r_nBitsAvail := 32\<rparr>)" by simp
  from GrabNextDWord_word [OF this, of False] assms show ?thesis
    by (fastforce simp: FetchNext_def rd_at_def rd_same_def)
qed

text \<open>The read of at most 32 bits that are in the data.\<close>

lemma ReadUBitLong_at:
  assumes at: "rd_at r p" and n: "0 < n" "n \<le> 32" and fits: "p + n \<le> 8 * length (r_pData r)"
  shows "\<exists>v r'. ReadUBitLong r n = Some (v, r') \<and> rd_at r' (p + n) \<and> rd_same r r' \<and>
     rd_word (r_pData r) p n v"
proof -
  from at n fits obtain avail where nb: "r_nDataBytes r = length (r_pData r)" and no: "\<not> r_bOverflow r"
    and av: "r_nBitsAvail r = int avail" "1 \<le> avail" "avail \<le> 32" and pos: "p + avail = 8 * r_pDataIn r"
    and off: "r_pDataIn r \<le> length (r_pData r)" "4 dvd (length (r_pData r) - r_pDataIn r)"
    and w: "rd_word (r_pData r) p avail (r_nInBufWord r)"
    by (auto simp: rd_at_def)
  let ?S = "r_pData r"
  have wj: "bit (r_nInBufWord r) j \<longleftrightarrow> j < avail \<and> buf_bit ?S (p + j)" for j
    using w unfolding rd_word_def by blast
  show ?thesis
  proof (cases "n \<le> avail")
    case True
    let ?v = "r_nInBufWord r AND nMaskTable n"
    have v: "rd_word ?S p n ?v"
      unfolding rd_word_def
    proof
      fix j
      have "j < n \<Longrightarrow> j < avail" using True by simp
      then show "bit ?v j \<longleftrightarrow> j < n \<and> buf_bit ?S (p + j)"
        using wj [of j] n by (auto simp: bit_and_iff bit_nMaskTable)
    qed
    let ?r = "r\<lparr>r_nBitsAvail := r_nBitsAvail r - int n\<rparr>"
    show ?thesis
    proof (cases "n = avail")
      case eq: True
      have "r_nDataBytes ?r = length (r_pData ?r)" "\<not> r_bOverflow ?r" "r_pDataIn r \<le> length (r_pData ?r)"
        "4 dvd (length (r_pData ?r) - r_pDataIn r)" "r_pDataIn ?r = r_pDataIn r"
        using nb no off by simp_all
      from FetchNext_at [OF this] obtain r' where
        r': "FetchNext ?r = Some r'" "rd_at r' (8 * r_pDataIn r)" "rd_same ?r r'" by blast
      have "rd_same r r'" using r'(3) by (simp add: rd_same_def)
      moreover have "ReadUBitLong r n = Some (?v, r')"
        using True eq av r'(1) by (simp add: ReadUBitLong_def)
      ultimately show ?thesis using r'(2) v pos eq by auto
    next
      case neq: False
      let ?r' = "r\<lparr>r_nBitsAvail := r_nBitsAvail r - int n, r_nInBufWord := drop_bit n (r_nInBufWord r)\<rparr>"
      have "ReadUBitLong r n = Some (?v, ?r')"
        using True neq av by (simp add: ReadUBitLong_def)
      moreover have "rd_at ?r' (p + n)"
        using nb no av True neq pos off rd_word_drop [OF w, of n]
        by (simp add: rd_at_def) (intro exI [of _ "avail - n"], auto)
      ultimately show ?thesis using v by (auto simp: rd_same_def)
    qed
  next
    case False
    define k where "k = n - avail"
    have k: "nat (int n - int avail) = k" "1 \<le> k" "k \<le> 31" "n = avail + k"
      using False av n by (auto simp: k_def)
    have lt: "r_pDataIn r < r_nDataBytes r" using fits pos False nb by linarith
    from GrabNextDWord_word [OF lt nb off(2) refl, of True] obtain dw where
      g: "GrabNextDWord r True = Some (r\<lparr>r_nInBufWord := dw, r_pDataIn := r_pDataIn r + 4\<rparr>)"
      and dw: "rd_word ?S (8 * r_pDataIn r) 32 dw" and off': "r_pDataIn r + 4 \<le> length ?S"
        "4 dvd (length ?S - (r_pDataIn r + 4))" by blast
    let ?v = "r_nInBufWord r OR push_bit avail (dw AND nMaskTable k)"
    let ?r' = "r\<lparr>r_nInBufWord := drop_bit k dw, r_pDataIn := r_pDataIn r + 4, r_nBitsAvail := 32 - int k\<rparr>"
    have "ReadUBitLong r n = Some (?v, ?r')"
      using False av no k g by (simp add: ReadUBitLong_def Let_def)
    moreover have "rd_at ?r' (p + n)"
      using nb no pos k off' rd_word_drop [OF dw, of k]
      by (simp add: rd_at_def) (intro exI [of _ "32 - k"], simp add: add.assoc [symmetric])
    moreover have "bit ?v j \<longleftrightarrow> j < n \<and> buf_bit ?S (p + j)" for j
    proof (cases "j < avail")
      case True
      then show ?thesis using wj [of j] k by (simp add: bit_or_iff bit_and_iff bit_push_bit_iff)
    next
      case ge: False
      then have e: "8 * r_pDataIn r + (j - avail) = p + j" using pos by linarith
      have "bit ?v j \<longleftrightarrow> j < 32 \<and> bit dw (j - avail) \<and> j - avail < k"
        using wj [of j] ge k by (auto simp: bit_or_iff bit_push_bit_iff bit_and_iff bit_nMaskTable)
      also have "bit dw (j - avail) \<longleftrightarrow> j - avail < 32 \<and> buf_bit ?S (p + j)"
        using dw e unfolding rd_word_def by metis
      also have "j < 32 \<and> (j - avail < 32 \<and> buf_bit ?S (p + j)) \<and> j - avail < k \<longleftrightarrow>
          j < n \<and> buf_bit ?S (p + j)"
        using ge k n by auto
      finally show ?thesis .
    qed
    ultimately show ?thesis by (auto simp: rd_same_def rd_word_def)
  qed
qed

text \<open>The read that goes past the data: the result is zero, the flag is set, and it stays so.\<close>

lemma ReadUBitLong_past:
  assumes at: "rd_at r p" and n: "0 < n" "n \<le> 32" and past: "8 * length (r_pData r) < p + n"
  shows "\<exists>r'. ReadUBitLong r n = Some (0, r') \<and> rd_dead r' \<and> rd_same r r'"
  using at unfolding rd_at_def
proof (elim conjE disjE exE)
  fix avail
  assume a: "r_nDataBytes r = length (r_pData r)" "\<not> r_bOverflow r" "r_nBitsAvail r = int avail"
    "1 \<le> avail" "p + avail = 8 * r_pDataIn r" "r_pDataIn r \<le> length (r_pData r)"
    "4 dvd (length (r_pData r) - r_pDataIn r)"
  show ?thesis
  proof (cases "r_pDataIn r = length (r_pData r)")
    case True
    have "avail < n" using a(5) True past by linarith
    then have "\<not> int n \<le> r_nBitsAvail r" using a(3) by simp
    then have "ReadUBitLong r n =
      Some (0, r\<lparr>r_nBitsAvail := 1, r_nInBufWord := 0, r_pDataIn := r_pDataIn r + 4, r_bOverflow := True\<rparr>)"
      using a(1) True by (simp add: ReadUBitLong_def GrabNextDWord_def r_SetOverflowFlag_def Let_def)
    then show ?thesis using a(1) True by (simp add: rd_dead_def rd_same_def)
  next
    case False
    then have "1 \<le> length (r_pData r) - r_pDataIn r" using a(6) by linarith
    then have "4 \<le> length (r_pData r) - r_pDataIn r" using a(7) by (intro dvd_imp_le) simp_all
    then show ?thesis using a(5) a(4) past n by linarith
  qed
next
  assume a: "r_nDataBytes r = length (r_pData r)" "\<not> r_bOverflow r" "r_nBitsAvail r = 1"
    "r_nInBufWord r = 0" "r_pDataIn r = length (r_pData r) + 4"
  show ?thesis
  proof (cases "n = 1")
    case True
    with a show ?thesis
      by (simp add: ReadUBitLong_def FetchNext_def GrabNextDWord_def r_SetOverflowFlag_def Let_def
          rd_dead_def rd_same_def)
  next
    case False
    with a n show ?thesis
      by (simp add: ReadUBitLong_def FetchNext_def GrabNextDWord_def r_SetOverflowFlag_def Let_def
          rd_dead_def rd_same_def)
  qed
qed

lemma ReadUBitLong_dead:
  assumes "rd_dead r"
  shows "\<exists>r'. ReadUBitLong r n = Some (0, r') \<and> rd_dead r' \<and> rd_same r r'"
  using assms
  by (auto simp: rd_dead_def rd_same_def ReadUBitLong_def FetchNext_def GrabNextDWord_def Let_def)

text \<open>\<open>Tell\<close> is the position, and \<open>Seek\<close> establishes it.\<close>

lemma Tell_at:
  assumes "rd_at r p"
  shows "Tell r = min (if r_pDataIn r = length (r_pData r) + 4 then int p + 31 else int p) (r_nDataBits r)"
  using assms unfolding rd_at_def
proof (elim conjE disjE exE)
  fix avail
  assume a: "r_nDataBytes r = length (r_pData r)" "r_nBitsAvail r = int avail"
    "p + avail = 8 * r_pDataIn r" "r_pDataIn r \<le> length (r_pData r)"
    "4 dvd (length (r_pData r) - r_pDataIn r)"
  from a(5) obtain k where k: "length (r_pData r) = r_pDataIn r + k * 4"
    using a(4) by (metis dvdE le_add_diff_inverse mult.commute)
  have ip: "int p + int avail = 8 * int (r_pDataIn r)" using a(3) by linarith
  have m: "length (r_pData r) mod 4 = r_pDataIn r mod 4"
    unfolding k by simp
  have "int (r_pDataIn r) = 4 * int (r_pDataIn r div 4) + int (r_pDataIn r mod 4)"
    by (metis mult_div_mod_eq of_nat_add of_nat_mult of_nat_numeral)
  then have "(int (r_pDataIn r div 4) - 1) * 32 + (32 - r_nBitsAvail r) + 8 * int (r_nDataBytes r mod 4) = int p"
    using ip unfolding a(1,2) m by (simp add: algebra_simps)
  then show ?thesis using a(4) by (simp add: Tell_def)
next
  let ?n = "length (r_pData r)"
  assume a: "r_nDataBytes r = ?n" "p = 8 * ?n" "r_nBitsAvail r = 1" "r_pDataIn r = ?n + 4"
  have "int ?n = 4 * int (?n div 4) + int (?n mod 4)"
    by (metis mult_div_mod_eq of_nat_add of_nat_mult of_nat_numeral)
  moreover have "(?n + 4) div 4 = ?n div 4 + 1" by simp
  ultimately have "(int (r_pDataIn r div 4) - 1) * 32 + (32 - r_nBitsAvail r) + 8 * int (r_nDataBytes r mod 4) =
      int p + 31"
    unfolding a by simp
  then show ?thesis using a(4) by (simp add: Tell_def)
qed

lemma rd_word_head:
  assumes "h \<le> length S" "h \<le> 3" "0 < h"
  shows "rd_word S 0 (8 * h) (ucast (S ! 0) OR push_bit 8 (if 1 < h then ucast (S ! 1) else 0) OR
     push_bit 16 (if 2 < h then ucast (S ! 2) else 0) :: u32)" (is "rd_word S 0 _ ?w")
  unfolding rd_word_def
proof
  fix j :: nat
  have high: "\<not> bit (b :: u8) n" if "8 \<le> n" for b n
    using that bit_imp_le_length [of b n] by auto
  define m :: nat where "m = j mod 8"
  have m: "m < 8" and j: "j = 8 * (j div 8) + m" by (simp_all add: m_def)
  have bj: "buf_bit S (0 + j) = bit (S ! (j div 8)) m" by (simp add: buf_bit_def m_def)
  show "bit ?w j \<longleftrightarrow> j < 8 * h \<and> buf_bit S (0 + j)"
  proof (cases "j < 24")
    case True
    then have "j div 8 = 0 \<or> j div 8 = 1 \<or> j div 8 = 2" by linarith
    then show ?thesis
    proof (elim disjE)
      assume q: "j div 8 = 0"
      with j have "j = m" by simp
      then show ?thesis using m assms unfolding bj q by (simp add: bit_simps)
    next
      assume q: "j div 8 = 1"
      with j have "j = 8 + m" by simp
      then show ?thesis using m assms unfolding bj q by (simp add: bit_simps high)
    next
      assume q: "j div 8 = 2"
      with j have "j = 16 + m" by simp
      then show ?thesis using m assms unfolding bj q by (simp add: bit_simps high)
    qed
  next
    case False
    then show ?thesis using assms by (simp add: bit_simps high)
  qed
qed

text \<open>
  \<open>Seek\<close> to a position in the data. Where the buffer has less than one double word, the end is left
  out: there no bit is available and none is fetched.
\<close>

lemma Seek_at:
  assumes nb: "r_nDataBytes r = length (r_pData r)" and no: "\<not> r_bOverflow r" and len: "0 < length (r_pData r)"
    and p: "p \<le> 8 * length (r_pData r)" "int p \<le> r_nDataBits r"
    and short: "length (r_pData r) < 4 \<Longrightarrow> p < 8 * length (r_pData r)"
  shows "\<exists>r'. Seek r (int p) = Some (True, r') \<and> rd_at r' p \<and> rd_same r r'"
proof -
  let ?S = "r_pData r"
  define h where "h = length ?S mod 4"
  have h: "h \<le> 3" "h \<le> length ?S" "4 dvd (length ?S - h)"
    by (simp_all add: h_def dvd_minus_mod)
  have ok: "\<not> (int p < 0 \<or> r_nDataBits r < int p)" using p by simp
  show ?thesis
  proof (cases "length ?S < 4 \<or> (h \<noteq> 0 \<and> int p div 8 < int h)")
    case True
    have ph: "p < 8 * h" and h0: "0 < h"
    proof (atomize (full), cases "length ?S < 4")
      case lt: True
      then show "p < 8 * h \<and> 0 < h" using short len by (simp add: h_def)
    next
      case False
      then show "p < 8 * h \<and> 0 < h" using True by auto
    qed
    with h have p32: "nat (int p mod 32) = p" "int p mod 32 = int p"
      by simp_all
    let ?w = "ucast (?S ! 0) OR push_bit 8 (if 1 < h then ucast (?S ! 1) else 0) OR
       push_bit 16 (if 2 < h then ucast (?S ! 2) else 0) :: u32"
    let ?r' = "r\<lparr>r_pDataIn := h, r_nInBufWord := drop_bit p ?w, r_nBitsAvail := int (8 * h) - int p\<rparr>"
    have pp: "1 + (if h > 1 then 1 else 0) + (if h > 2 then 1 else 0) = h"
      using h h0 by auto
    have "Seek r (int p) = Some (True, ?r')"
      using True ok h h0 len
      by (simp add: Seek_def nb p32 h_def [symmetric] load_rbyte_def pp [simplified] Let_def)
    moreover have "rd_at ?r' p"
    proof (rule rd_at_midI)
      show "rd_word (r_pData ?r') p (8 * h - p) (r_nInBufWord ?r')"
        using rd_word_drop [OF rd_word_head [OF h(2,1) h0], of p] by simp
    qed (use nb no h h0 ph in auto)
    ultimately show ?thesis by (auto simp: rd_same_def)
  next
    case False
    have ph: "8 * h \<le> p" using False by linarith
    define a where "a = p - 8 * h"
    have a: "int p - int (8 * h) = int a" "p = 8 * h + a" using ph by (simp_all add: a_def)
    define off where "off = a div 32 * 4 + h"
    have po: "p = 8 * off + a mod 32" using a(2) by (simp add: off_def)
    obtain k where k: "length ?S = h + 4 * k" using h by (metis dvdE le_add_diff_inverse)
    have "a div 32 \<le> k"
      using p(1) a(2) k by linarith
    then have off: "off \<le> length ?S" "4 dvd (length ?S - off)"
      by (auto simp: off_def k mult.commute diff_mult_distrib2 [symmetric])
    have ids: "nat (int a div 32) = a div 32" "nat (int a mod 32) = a mod 32" "int a mod 32 = int (a mod 32)"
      by (simp_all add: nat_div_distrib nat_mod_distrib zmod_int)
    let ?r1 = "r\<lparr>r_pDataIn := off, r_nBitsAvail := 32\<rparr>"
    have F: "(length ?S < 4 \<or> (h \<noteq> 0 \<and> int p div 8 < int h)) = False" using False by blast
    have sk: "Seek r (int p) = do {
        r \<leftarrow> GrabNextDWord ?r1 False;
        Some (True, r\<lparr>r_nInBufWord := drop_bit (a mod 32) (r_nInBufWord r),
                     r_nBitsAvail := min (r_nBitsAvail r) (32 - int (a mod 32))\<rparr>) }"
      by (simp only: Seek_def Let_def ok if_False nb h_def [symmetric] F a(1) ids off_def simp_thms nat_int)
    show ?thesis
    proof (cases "off = length ?S")
      case True
      then have "a mod 32 = 0" "p = 8 * length ?S" using po p(1) by linarith+
      with True sk nb no show ?thesis
        by (simp add: GrabNextDWord_def rd_at_def rd_same_def)
    next
      case lt: False
      have "off < r_nDataBytes ?r1" "r_nDataBytes ?r1 = length (r_pData ?r1)"
        "4 dvd (length (r_pData ?r1) - off)" "r_pDataIn ?r1 = off"
        using lt off nb by simp_all
      from GrabNextDWord_word [OF this, of False] obtain dw where
        g: "GrabNextDWord ?r1 False = Some (?r1\<lparr>r_nInBufWord := dw, r_pDataIn := off + 4\<rparr>)"
        and dw: "rd_word ?S (8 * off) 32 dw" and o: "off + 4 \<le> length ?S" "4 dvd (length ?S - (off + 4))"
        by auto
      have "a mod 32 < 32" by simp
      then show ?thesis
        using sk g nb no o rd_word_drop [OF dw, of "a mod 32"]
        by (simp add: rd_at_def rd_same_def po [symmetric])
          (intro exI [of _ "32 - a mod 32"], use po in auto)
    qed
  qed
qed

text \<open>Sign extension from \<open>n\<close> bits.\<close>

lemma bit_sign_extend:
  fixes u :: u32
  assumes "0 < n" "n \<le> 32" "j < 32"
  shows "bit (signed_drop_bit (32 - n) (push_bit (32 - n) u)) j = bit u (min j (n - 1))"
proof -
  have "bit (signed_drop_bit (32 - n) (push_bit (32 - n) u)) j =
      bit (push_bit (32 - n) u) (if n \<le> j then 31 else 32 - n + j)"
    using assms by (simp add: bit_signed_drop_bit_iff)
  also have "\<dots> = bit u (min j (n - 1))"
    using assms by (auto simp: bit_push_bit_iff min_def intro: arg_cong [of _ _ "bit u"])
  finally show ?thesis .
qed

end
