(* ===== verification/BitCodec.thy ===== *)
theory BitCodec
  imports BitWrite BitRead
begin

text \<open>
  What the writer and the reader of the bit streams promise each other. A kind of value has a code,
  the list of bits it is on the stream; the locale \<open>bit_codec\<close> states that the write operation
  appends the code and that the read operation gives the value back where it finds the code. Its
  lemmas lift this to sequences of values, and it is interpreted on the operations of \<open>CBitWrite\<close>
  and \<open>CBitRead\<close>.
\<close>

section \<open>Sequences\<close>

primrec put_all :: "(bf_write \<Rightarrow> 'a \<Rightarrow> bf_write option) \<Rightarrow> bf_write \<Rightarrow> 'a list \<Rightarrow> bf_write option" where
  "put_all put w [] = Some w"
| "put_all put w (x # xs) = do { w \<leftarrow> put w x; put_all put w xs }"

primrec get_all ::
    "('s \<Rightarrow> bf_read \<Rightarrow> ('a \<times> bf_read) option) \<Rightarrow> 's list \<Rightarrow> bf_read \<Rightarrow> ('a list \<times> bf_read) option" where
  "get_all get [] r = Some ([], r)"
| "get_all get (s # ss) r = do {
     (x, r) \<leftarrow> get s r;
     (xs, r) \<leftarrow> get_all get ss r;
     Some (x # xs, r) }"

section \<open>What a read finds\<close>

definition sees :: "bf_read \<Rightarrow> nat \<Rightarrow> bool list \<Rightarrow> bool" where
  "sees r p bs \<longleftrightarrow> rd_at r p \<and> p + length bs \<le> 8 * length (r_pData r) \<and>
     (\<forall>k < length bs. buf_bit (r_pData r) (p + k) = bs ! k)"

definition took :: "bf_read \<Rightarrow> nat \<Rightarrow> nat \<Rightarrow> bf_read \<Rightarrow> bool" where
  "took r p n r' \<longleftrightarrow> rd_at r' (p + n) \<and> rd_same r r'"

lemma sees_append1: "sees r p (a @ b) \<Longrightarrow> sees r p a"
  by (auto simp: sees_def nth_append)

lemma sees_append2:
  assumes "sees r p (a @ b)" and "took r p (length a) r'"
  shows "sees r' (p + length a) b"
proof -
  have "buf_bit (r_pData r) (p + length a + k) = b ! k" if "k < length b" for k
    using assms(1) that unfolding sees_def
    by (metis (no_types, lifting) add.assoc add_less_cancel_left length_append nth_append_length_plus)
  then show ?thesis using assms by (simp add: sees_def took_def rd_same_def)
qed

lemma took_trans: "took r p m r1 \<Longrightarrow> took r1 (p + m) n r2 \<Longrightarrow> took r p (m + n) r2"
  by (auto simp: took_def rd_same_def add.assoc)

text \<open>What was written is what a reader at the start of it sees.\<close>

lemma emits_sees:
  assumes "emits w bs w'" and "0 \<le> w_iCurBit w" and "rd_at r (nat (w_iCurBit w))"
    and "r_pData r = w_pData w'"
  shows "sees r (nat (w_iCurBit w)) bs"
proof -
  have "w_iCurBit w + int (length bs) \<le> 8 * int (length (w_pData w'))"
    using assms(1) by (auto simp: emits_def wr_inv_def)
  then show ?thesis using assms by (simp add: sees_def emits_def)
qed

section \<open>The interface\<close>

locale bit_codec =
  fixes put :: "bf_write \<Rightarrow> 'a \<Rightarrow> bf_write option"
    and get :: "'s \<Rightarrow> bf_read \<Rightarrow> ('a \<times> bf_read) option"
    and shape :: "'a \<Rightarrow> 's"
    and code :: "'a \<Rightarrow> bool list"
    and valid :: "'a \<Rightarrow> bool"
  assumes put_emits: "valid x \<Longrightarrow> room w (length (code x)) \<Longrightarrow>
      \<exists>w'. put w x = Some w' \<and> emits w (code x) w'"
    and get_sees: "valid x \<Longrightarrow> sees r p (code x) \<Longrightarrow>
      \<exists>r'. get (shape x) r = Some (x, r') \<and> took r p (length (code x)) r'"
begin

lemma put_all_emits:
  assumes "\<forall>x \<in> set xs. valid x" and "room w (length (concat (map code xs)))"
  shows "\<exists>w'. put_all put w xs = Some w' \<and> emits w (concat (map code xs)) w'"
  using assms
proof (induction xs arbitrary: w)
  case Nil
  then show ?case by (auto intro: emits_nil)
next
  case (Cons x xs)
  then have "room w (length (code x))" by (auto intro: room_mono)
  with Cons.prems obtain w1 where w1: "put w x = Some w1" "emits w (code x) w1"
    using put_emits [of x w] by auto
  have "room w1 (length (concat (map code xs)))"
    using emits_room [OF w1(2)] Cons.prems(2) by simp
  with Cons obtain w2 where w2: "put_all put w1 xs = Some w2" "emits w1 (concat (map code xs)) w2"
    by auto
  have "0 \<le> w_iCurBit w" using Cons.prems(2) by (simp add: room_def wr_inv_def)
  then show ?case using w1 w2 emits_trans [OF w1(2) w2(2)] by auto
qed

lemma get_all_sees:
  assumes "\<forall>x \<in> set xs. valid x" and "sees r p (concat (map code xs))"
  shows "\<exists>r'. get_all get (map shape xs) r = Some (xs, r') \<and> took r p (length (concat (map code xs))) r'"
  using assms
proof (induction xs arbitrary: r p)
  case Nil
  then show ?case by (simp add: sees_def took_def)
next
  case (Cons x xs)
  from Cons.prems(2) have s: "sees r p (code x @ concat (map code xs))" by simp
  from Cons.prems(1) have v: "valid x" "\<forall>x \<in> set xs. valid x" by simp_all
  from get_sees [OF v(1) sees_append1 [OF s]] obtain r1 where
    r1: "get (shape x) r = Some (x, r1)" "took r p (length (code x)) r1" by blast
  from Cons.IH [OF v(2) sees_append2 [OF s r1(2)]] obtain r2 where
    r2: "get_all get (map shape xs) r1 = Some (xs, r2)"
      "took r1 (p + length (code x)) (length (concat (map code xs))) r2" by blast
  have "get_all get (map shape (x # xs)) r = Some (x # xs, r2)" using r1(1) r2(1) by simp
  then show ?case using took_trans [OF r1(2) r2(2)] by auto
qed

lemma round_trip:
  assumes "\<forall>x \<in> set xs. valid x" and "room w (length (concat (map code xs)))"
  shows "\<exists>w'. put_all put w xs = Some w' \<and> emits w (concat (map code xs)) w' \<and>
     (\<forall>r. rd_at r (nat (w_iCurBit w)) \<longrightarrow> r_pData r = w_pData w' \<longrightarrow>
        (\<exists>r'. get_all get (map shape xs) r = Some (xs, r') \<and> rd_at r' (nat (w_iCurBit w'))))"
proof -
  from put_all_emits [OF assms] obtain w' where
    w': "put_all put w xs = Some w'" "emits w (concat (map code xs)) w'" by blast
  have c: "0 \<le> w_iCurBit w" using assms(2) by (simp add: room_def wr_inv_def)
  have c': "nat (w_iCurBit w') = nat (w_iCurBit w) + length (concat (map code xs))"
    using w'(2) c by (simp add: emits_def nat_add_distrib)
  have "\<exists>r'. get_all get (map shape xs) r = Some (xs, r') \<and> rd_at r' (nat (w_iCurBit w'))"
    if "rd_at r (nat (w_iCurBit w))" "r_pData r = w_pData w'" for r
    using get_all_sees [OF assms(1) emits_sees [OF w'(2) c that]] by (auto simp: took_def c')
  with w' show ?thesis by blast
qed

end

section \<open>Integers of a fixed width\<close>

lemma ReadUBitLong_sees:
  assumes "sees r p bs" and "length bs = n" "0 < n" "n \<le> 32"
  shows "\<exists>v r'. ReadUBitLong r n = Some (v, r') \<and> took r p n r' \<and> (\<forall>j. bit v j \<longleftrightarrow> j < n \<and> bs ! j)"
proof -
  from assms have "rd_at r p" "p + n \<le> 8 * length (r_pData r)"
    and bs: "\<And>j. j < n \<Longrightarrow> buf_bit (r_pData r) (p + j) = bs ! j" by (simp_all add: sees_def)
  from ReadUBitLong_at [OF this(1) assms(3,4) this(2)] obtain v r' where
    r: "ReadUBitLong r n = Some (v, r')" "rd_at r' (p + n)" "rd_same r r'"
    and v: "rd_word (r_pData r) p n v" by blast
  have "bit v j \<longleftrightarrow> j < n \<and> bs ! j" for j
    using v bs [of j] by (auto simp: rd_word_def)
  with r show ?thesis by (auto simp: took_def)
qed

lemma bit_less_exp: "unat (d :: 'a::len word) < 2 ^ n \<Longrightarrow> bit d j \<Longrightarrow> j < n"
proof (rule ccontr)
  assume "unat d < 2 ^ n" "bit d j" "\<not> j < n"
  then have "unat d < 2 ^ j" by (meson less_le_trans not_less one_le_numeral power_increasing)
  then have "\<not> bit (unat d) j" by (simp add: bit_iff_odd)
  with \<open>bit d j\<close> show False by (simp add: bit_unsigned_iff)
qed

lemma ReadUBitLong_ubits:
  assumes "sees r p (ubits n d)" and "0 < n" "n \<le> 32" and "unat d < 2 ^ n"
  shows "\<exists>r'. ReadUBitLong r n = Some (d, r') \<and> took r p n r'"
proof -
  from ReadUBitLong_sees [OF assms(1) length_ubits assms(2,3)] obtain v r' where
    r: "ReadUBitLong r n = Some (v, r')" "took r p n r'"
    and v: "\<And>j. bit v j \<longleftrightarrow> j < n \<and> ubits n d ! j" by blast
  have "v = d"
    by (rule bit_word_eqI) (use v bit_less_exp [OF assms(4)] in auto)
  with r show ?thesis by blast
qed

lemma ReadOneBit_eq:
  "1 \<le> r_nBitsAvail r \<Longrightarrow>
    ReadOneBit r = map_option (\<lambda>(v, r). (bit v 0, r)) (ReadUBitLong r 1)"
  by (cases "FetchNext (r\<lparr>r_nBitsAvail := r_nBitsAvail r - 1\<rparr>)")
    (auto simp: ReadOneBit_def ReadUBitLong_def Let_def bit_and_iff bit_nMaskTable)

lemma rd_at_avail: "rd_at r p \<Longrightarrow> 1 \<le> r_nBitsAvail r"
  by (auto simp: rd_at_def)

lemma ReadOneBit_sees:
  assumes "sees r p [b]"
  shows "\<exists>r'. ReadOneBit r = Some (b, r') \<and> took r p 1 r'"
  using ReadUBitLong_sees [OF assms] ReadOneBit_eq [OF rd_at_avail] assms
  by (fastforce simp: sees_def)

lemma bit_int_sign:
  assumes "- (2 ^ m) \<le> k" and "k < (2 ^ m :: int)" and "m \<le> j"
  shows "bit k j \<longleftrightarrow> k < 0"
proof -
  have "(2 ^ m :: int) \<le> 2 ^ j" using assms(3) by (intro power_increasing) simp_all
  with assms have k: "- (2 ^ j) \<le> k" "k < 2 ^ j" by linarith+
  show ?thesis
  proof (cases "k < 0")
    case True
    then have "k div 2 ^ j = -1" using k by (intro int_div_pos_eq [of k _ _ "k + 2 ^ j"]) simp_all
    with True show ?thesis by (simp add: bit_iff_odd)
  next
    case False
    with k show ?thesis by (simp add: bit_iff_odd)
  qed
qed

definition sbits :: "nat \<Rightarrow> u32 \<Rightarrow> bool list" where
  "sbits n d = ubits (n - 1) d @ [sint d < 0]"

lemma length_sbits [simp]: "0 < n \<Longrightarrow> length (sbits n d) = n"
  by (simp add: sbits_def)

lemma ReadSBitLong_sbits:
  assumes "sees r p (sbits n d)" and n: "0 < n" "n \<le> 32"
    and d: "- (2 ^ (n - 1)) \<le> sint d" "sint d < 2 ^ (n - 1)"
  shows "\<exists>r'. ReadSBitLong r n = Some (d, r') \<and> took r p n r'"
proof -
  from ReadUBitLong_sees [OF assms(1) length_sbits [OF n(1)] n] obtain u r' where
    r: "ReadUBitLong r n = Some (u, r')" "took r p n r'"
    and u: "\<And>j. bit u j \<longleftrightarrow> j < n \<and> sbits n d ! j" by blast
  let ?v = "signed_drop_bit (32 - n) (push_bit (32 - n) u)"
  have "?v = d"
  proof (rule bit_word_eqI)
    fix j assume "j < LENGTH(32)"
    then have j: "j < 32" by simp
    have "bit ?v j = bit u (min j (n - 1))" by (rule bit_sign_extend [OF n j])
    also have "\<dots> = sbits n d ! min j (n - 1)" using n by (auto simp: u min_def)
    also have "\<dots> = bit d j"
    proof (cases "j < n - 1")
      case True
      then show ?thesis by (simp add: sbits_def nth_append)
    next
      case False
      then have "bit (sint d) j \<longleftrightarrow> sint d < 0"
        by (intro bit_int_sign [OF d]) linarith
      moreover have "bit (sint d) j = bit d j" using j by (simp add: bit_sint_iff min_def)
      ultimately show ?thesis using False n by (simp add: sbits_def nth_append min_def)
    qed
    finally show "bit ?v j = bit d j" .
  qed
  with r show ?thesis by (simp add: ReadSBitLong_def)
qed

text \<open>Sixty-four bits: the low half first.\<close>

lemma ubits_64: "ubits 64 (d :: u64) = ubits 32 (ucast d :: u32) @ ubits 32 (ucast (drop_bit 32 d) :: u32)"
  by (rule nth_equalityI) (auto simp: nth_append bit_simps)

lemma WriteLongLong_emits:
  assumes "room w 64"
  shows "\<exists>w'. WriteLongLong w d = Some w' \<and> emits w (ubits 64 d) w'"
proof -
  from WriteUBitLong_emits [OF room_mono [OF assms], of 32 "ucast d"] obtain w1 where
    w1: "WriteUBitLong w (ucast d) 32 = Some w1" "emits w (ubits 32 (ucast d :: u32)) w1" by auto
  have "room w1 32" using emits_room [OF w1(2), of 32] assms by simp
  from WriteUBitLong_emits [OF this, of "ucast (drop_bit 32 d)"] obtain w2 where
    w2: "WriteUBitLong w1 (ucast (drop_bit 32 d)) 32 = Some w2"
      "emits w1 (ubits 32 (ucast (drop_bit 32 d) :: u32)) w2" by auto
  have "0 \<le> w_iCurBit w" using assms by (simp add: room_def wr_inv_def)
  then show ?thesis using w1 w2 emits_trans [OF w1(2) w2(2)] by (simp add: WriteLongLong_def ubits_64)
qed

lemma ReadLongLong_ubits:
  assumes "sees r p (ubits 64 d)"
  shows "\<exists>r'. ReadLongLong r = Some (d, r') \<and> took r p 64 r'"
proof -
  have s: "sees r p (ubits 32 (ucast d :: u32) @ ubits 32 (ucast (drop_bit 32 d) :: u32))"
    using assms by (simp add: ubits_64)
  have lt: "unat (v :: u32) < 2 ^ 32" for v using unsigned_less [of v] by simp
  from ReadUBitLong_ubits [OF sees_append1 [OF s] _ _ lt] obtain r1 where
    r1: "ReadUBitLong r 32 = Some (ucast d, r1)" "took r p 32 r1" by auto
  have "took r p (length (ubits 32 (ucast d :: u32))) r1" using r1(2) by simp
  from ReadUBitLong_ubits [OF sees_append2 [OF s this] _ _ lt] obtain r2 where
    r2: "ReadUBitLong r1 32 = Some (ucast (drop_bit 32 d), r2)" "took r1 (p + 32) 32 r2" by auto
  have "ucast (ucast d :: u32) OR push_bit 32 (ucast (ucast (drop_bit 32 d) :: u32)) = d"
    by (rule bit_word_eqI) (auto simp: bit_simps)
  then show ?thesis using r1 r2 took_trans [OF r1(2) r2(2)] by (simp add: ReadLongLong_def)
qed

end
