(* ===== verification/BitVarint.thy ===== *)
theory BitVarint
  imports BitCodec
begin

text \<open>
  The variable-length integers of the bit streams. \<open>varint_bytes\<close> is the encoding: seven bits a
  byte from the low end, the high bit set in every byte but the last. The slow paths append it bit
  by bit, the fast paths of \<open>WriteVarInt32\<close> and \<open>WriteVarInt64\<close> store it straight into the buffer,
  and the readers decode it.
\<close>

section \<open>The encoding\<close>

function varint_bytes :: "'a::len word \<Rightarrow> u8 list" where
  "varint_bytes d =
     (if d > 0x7F then (ucast d OR 0x80) # varint_bytes (drop_bit 7 d) else [ucast d])"
  by pat_completeness auto
termination
proof (relation "measure unat")
  fix d :: "'a word"
  assume "0x7F < d"
  then show "(drop_bit 7 d, d) \<in> measure unat" by (simp only: in_measure unat_drop_bit_less)
qed simp

declare varint_bytes.simps [simp del]

lemma varint_bytes_small: "\<not> 0x7F < d \<Longrightarrow> varint_bytes d = [ucast d]"
  by (simp add: varint_bytes.simps)

lemma varint_bytes_large:
  "0x7F < d \<Longrightarrow> varint_bytes d = (ucast d OR 0x80) # varint_bytes (drop_bit 7 d)"
  by (simp add: varint_bytes.simps)

lemma varint_bytes_nonempty [simp]: "varint_bytes d \<noteq> []"
  by (subst varint_bytes.simps) simp

lemma length_varint_bytes_pos: "0 < length (varint_bytes d)"
  by simp

text \<open>
  \<open>0x7F\<close> as a word is 127 for the widths of the code; the length and the bytes in closed form.
\<close>

lemma unat_7F: "8 \<le> LENGTH('a::len) \<Longrightarrow> unat (0x7F :: 'a word) = 127"
proof -
  assume a: "8 \<le> LENGTH('a)"
  have "(2::nat) ^ 8 \<le> 2 ^ LENGTH('a)" using a by (intro power_increasing) simp_all
  then show ?thesis by (simp add: unsigned_numeral take_bit_eq_mod)
qed

lemma less_7F_iff: "8 \<le> LENGTH('a::len) \<Longrightarrow> (0x7F :: 'a word) < d \<longleftrightarrow> 2 ^ 7 \<le> unat d"
  by (simp only: word_less_nat_alt unat_7F) (auto simp: less_eq_Suc_le)

lemma unat_drop_7: "unat (drop_bit 7 (d :: 'a::len word)) = unat d div 2 ^ 7"
  by (simp only: unat_drop_bit_eq) (simp only: drop_bit_eq_div)

lemma exp_div_7: "2 ^ (7 * k) \<le> (x::nat) div 2 ^ 7 \<longleftrightarrow> 2 ^ (7 * Suc k) \<le> x"
  by (simp add: less_eq_div_iff_mult_less_eq power_add mult.commute)

lemma less_length_varint:
  assumes "8 \<le> LENGTH('a::len)"
  shows "k < length (varint_bytes (d :: 'a word)) \<longleftrightarrow> k = 0 \<or> 2 ^ (7 * k) \<le> unat d"
proof (induction d arbitrary: k rule: varint_bytes.induct)
  case (1 d)
  show ?case
  proof (cases k)
    case (Suc k')
    show ?thesis
    proof (cases "0x7F < d")
      case True
      have "k < length (varint_bytes d) \<longleftrightarrow> k' < length (varint_bytes (drop_bit 7 d))"
        using True Suc by (simp add: varint_bytes_large)
      also have "\<dots> \<longleftrightarrow> k' = 0 \<or> 2 ^ (7 * k') \<le> unat d div 2 ^ 7"
        unfolding 1 [OF True] unat_drop_7 ..
      also have "\<dots> \<longleftrightarrow> 2 ^ (7 * k) \<le> unat d"
        using True assms by (auto simp only: exp_div_7 Suc less_7F_iff mult_0_right mult_Suc_right add_0_right)
      finally show ?thesis using Suc by simp
    next
      case False
      have "(2::nat) ^ 7 \<le> 2 ^ (7 * k)" using Suc by (intro power_increasing) simp_all
      then have "\<not> 2 ^ (7 * k) \<le> unat d" using False assms by (simp only: less_7F_iff)
      with False Suc show ?thesis by (simp add: varint_bytes_small)
    qed
  qed simp
qed

lemma nth_varint:
  assumes "8 \<le> LENGTH('a::len)" and "k < length (varint_bytes (d :: 'a word))"
  shows "varint_bytes d ! k = (if Suc k < length (varint_bytes d)
     then ucast (drop_bit (7 * k) d) OR 0x80 else ucast (drop_bit (7 * k) d))"
  using assms(2)
proof (induction d arbitrary: k rule: varint_bytes.induct)
  case (1 d)
  show ?case
  proof (cases "0x7F < d")
    case True
    show ?thesis
    proof (cases k)
      case 0
      with True show ?thesis by (simp add: varint_bytes_large)
    next
      case (Suc k')
      then have "k' < length (varint_bytes (drop_bit 7 d))"
        using 1(2) True by (simp add: varint_bytes_large)
      from 1(1) [OF True this] show ?thesis
        using True Suc by (simp only: varint_bytes_large) (simp add: add.commute)
    qed
  next
    case False
    with 1(2) show ?thesis by (simp add: varint_bytes_small)
  qed
qed

lemma ByteSizeVarInt_length: "ByteSizeVarInt d = length (varint_bytes d)"
  by (induction d rule: ByteSizeVarInt.induct)
    (subst ByteSizeVarInt.simps, simp add: varint_bytes_small varint_bytes_large)

section \<open>The slow path\<close>

definition byte_bits :: "u8 list \<Rightarrow> bool list" where
  "byte_bits bs = concat (map (ubits 8) bs)"

lemma byte_bits_Nil [simp]: "byte_bits [] = []"
  by (simp add: byte_bits_def)

lemma byte_bits_Cons [simp]: "byte_bits (b # bs) = ubits 8 b @ byte_bits bs"
  by (simp add: byte_bits_def)

lemma byte_bits_append [simp]: "byte_bits (a @ b) = byte_bits a @ byte_bits b"
  by (simp add: byte_bits_def)

lemma length_byte_bits [simp]: "length (byte_bits bs) = 8 * length bs"
  by (induction bs) simp_all

lemma WriteUBitLong_byte_emits:
  assumes "room w (8 + n)"
  shows "\<exists>w'. WriteUBitLong w d 8 = Some w' \<and> emits w (ubits 8 (ucast d :: u8)) w' \<and> room w' n"
proof -
  from WriteUBitLong_emits [OF room_mono [OF assms], of 8 d] obtain w' where
    w': "WriteUBitLong w d 8 = Some w'" "emits w (ubits 8 d) w'" by auto
  have "ubits 8 d = ubits 8 (ucast d :: u8)" by (simp add: ubits_def bit_simps)
  with w' emits_room [OF w'(2), of n] assms show ?thesis by auto
qed

lemma bit_80: "bit (0x80 :: 'a::len word) n \<longleftrightarrow> n = 7 \<and> 7 < LENGTH('a)"
proof -
  have "(0x80 :: 'a word) = 2 ^ 7" by simp
  then show ?thesis by (simp only: bit_exp_iff) auto
qed

lemma bit_7F: "bit (0x7F :: 'a::len word) n \<longleftrightarrow> n < 7 \<and> n < LENGTH('a)"
proof -
  have "(0x7F :: 'a word) = mask 7" by (simp add: mask_eq_exp_minus_1)
  then show ?thesis by (simp only: bit_mask_iff) auto
qed

lemma varint_group:
  assumes "8 \<le> LENGTH('a::len)"
  shows "ucast (ucast (((d :: 'a word) AND 0x7F) OR 0x80) :: u32) = (ucast d OR 0x80 :: u8)"
    and "\<not> 0x7F < d \<Longrightarrow> ucast (ucast (d AND 0x7F) :: u32) = (ucast d :: u8)"
proof -
  show "ucast (ucast ((d AND 0x7F) OR 0x80) :: u32) = (ucast d OR 0x80 :: u8)"
    by (rule bit_word_eqI)
      (simp only: bit_or_iff bit_and_iff bit_unsigned_iff bit_80 bit_7F, use assms in auto)
  assume "\<not> 0x7F < d"
  then have "unat d < 2 ^ 7" using assms by (simp only: less_7F_iff not_le)
  then have "\<And>j. bit d j \<Longrightarrow> j < 7" by (rule bit_less_exp)
  then show "ucast (ucast (d AND 0x7F) :: u32) = (ucast d :: u8)"
    by (intro bit_word_eqI)
      (simp only: bit_and_iff bit_unsigned_iff bit_7F, use assms in auto)
qed

lemma VarIntSlow_emits:
  assumes "8 \<le> LENGTH('a::len)" and "room w (8 * length (varint_bytes (d :: 'a word)))"
  shows "\<exists>w'. VarIntSlow w d = Some w' \<and> emits w (byte_bits (varint_bytes d)) w'"
  using assms(2)
proof (induction w d rule: VarIntSlow.induct)
  case (1 w d)
  have c: "0 \<le> w_iCurBit w" using 1(2) by (simp add: room_def wr_inv_def)
  show ?case
  proof (cases "0x7F < d")
    case True
    have "room w (8 + 8 * length (varint_bytes (drop_bit 7 d)))"
      using 1(2) True by (simp only: varint_bytes_large) simp
    from WriteUBitLong_byte_emits [OF this] obtain w1 where
      w1: "WriteUBitLong w (ucast ((d AND 0x7F) OR 0x80)) 8 = Some w1"
        "emits w (ubits 8 (ucast d OR 0x80 :: u8)) w1"
        "room w1 (8 * length (varint_bytes (drop_bit 7 d)))"
      using varint_group(1) [OF assms(1)] by metis
    from 1(1) [OF True w1(1,3)] obtain w2 where
      w2: "VarIntSlow w1 (drop_bit 7 d) = Some w2" "emits w1 (byte_bits (varint_bytes (drop_bit 7 d))) w2"
      by blast
    then show ?thesis
      using w1(1) w2(1) True emits_trans [OF w1(2) w2(2) c]
      by (subst VarIntSlow.simps) (simp add: varint_bytes_large del: drop_bit_eq_div)
  next
    case False
    have "room w (8 + 0)" using 1(2) False by (simp add: varint_bytes_small)
    from WriteUBitLong_byte_emits [OF this, of "ucast (d AND 0x7F)"] False
    show ?thesis by (subst VarIntSlow.simps) (auto simp: varint_bytes_small varint_group(2) [OF assms(1)])
  qed
qed

section \<open>The fast paths\<close>

text \<open>A buffer with the bytes \<open>bs\<close> stored from byte \<open>t\<close> on.\<close>

fun put_bytes :: "u8 list \<Rightarrow> nat \<Rightarrow> u8 list \<Rightarrow> u8 list" where
  "put_bytes buf t [] = buf"
| "put_bytes buf t (b # bs) = put_bytes (buf[t := b]) (t + 1) bs"

lemma length_put_bytes [simp]: "length (put_bytes buf t bs) = length buf"
  by (induction bs arbitrary: buf t) simp_all

lemma nth_put_bytes:
  "t + length bs \<le> length buf \<Longrightarrow> i < length buf \<Longrightarrow>
    put_bytes buf t bs ! i = (if t \<le> i \<and> i < t + length bs then bs ! (i - t) else buf ! i)"
  by (induction bs arbitrary: buf t) (auto simp: nth_Cons' nth_list_update)

lemma buf_eqI:
  assumes "length a = length b" and "\<And>i. i < 8 * length a \<Longrightarrow> buf_bit a i = buf_bit b i"
  shows "a = b"
proof (rule nth_equalityI [OF assms(1)])
  fix k assume k: "k < length a"
  show "a ! k = b ! k"
  proof (rule bit_word_eqI)
    fix j assume "j < LENGTH(8)"
    then have "j < 8" by simp
    with k assms(2) [of "8 * k + j"] show "bit (a ! k) j = bit (b ! k) j"
      by (simp add: buf_bit_def)
  qed
qed

lemma less_exp_bitI: "(\<And>j. bit d j \<Longrightarrow> j < n) \<Longrightarrow> unat (d :: 'a::len word) < 2 ^ n"
proof -
  assume "\<And>j. bit d j \<Longrightarrow> j < n"
  then have "take_bit n d = d" by (intro bit_word_eqI) (auto simp: bit_take_bit_iff)
  then have "take_bit n (unat d) = unat d" by (metis unsigned_take_bit_eq)
  then show ?thesis by (metis take_bit_nat_less_exp)
qed

text \<open>The write of one byte on a byte boundary changes that byte only.\<close>

lemma WriteUBitLong_aligned:
  assumes "wr_inv w" and "w_iCurBit w = int (8 * t)" and "w_iCurBit w + 8 \<le> w_nDataBits w"
    and d: "unat d < 2 ^ 8"
  shows "WriteUBitLong w d 8 =
     Some (w\<lparr>w_pData := (w_pData w)[t := ucast d], w_iCurBit := int (8 * (t + 1))\<rparr>)"
proof -
  have fits: "w_iCurBit w + int 8 \<le> w_nDataBits w" using assms(3) by simp
  from WriteUBitLong_effect [OF assms(1) _ _ fits assms(2), of d] obtain buf where
    w: "WriteUBitLong w d 8 = Some (w\<lparr>w_pData := buf, w_iCurBit := w_iCurBit w + int 8\<rparr>)"
    and len: "length buf = length (w_pData w)"
    and bits: "\<And>i. buf_bit buf i =
        (if i < 8 * t then buf_bit (w_pData w) i
         else if i < 8 * t + 8 then bit d (i - 8 * t)
         else buf_bit (w_pData w) i \<or> (i div 32 \<le> (8 * t + 8 - 1) div 32 \<and> bit d (i - 8 * t)))"
    by auto
  have t: "t < length (w_pData w)" using assms by (auto simp: wr_inv_def)
  have "buf = (w_pData w)[t := ucast d]"
  proof (rule buf_eqI)
    fix i
    have nb: "\<not> bit d (i - 8 * t)" if "8 * t + 8 \<le> i" using that bit_less_exp [OF d, of "i - 8 * t"] by auto
    consider "i div 8 = t" | "i < 8 * t" | "8 * t + 8 \<le> i" by linarith
    then show "buf_bit buf i = buf_bit ((w_pData w)[t := ucast d]) i"
    proof cases
      case 1
      then have e: "i = 8 * t + i mod 8" by (metis mult_div_mod_eq)
      then have "i - 8 * t = i mod 8" "8 * t \<le> i" "i < 8 * t + 8"
        using mod_less_divisor [of 8 i] by linarith+
      then show ?thesis using 1 t
        by (simp add: bits) (simp add: buf_bit_def bit_unsigned_iff)
    next
      case 2
      then have "i div 8 \<noteq> t" by linarith
      with 2 show ?thesis by (simp add: bits) (simp add: buf_bit_def)
    next
      case 3
      then have "i div 8 \<noteq> t" by linarith
      with 3 nb show ?thesis by (simp add: bits) (simp add: buf_bit_def)
    qed
  qed (simp add: len)
  then show ?thesis using w assms(2) by simp
qed

lemma VarIntSlow_aligned:
  assumes L: "8 \<le> LENGTH('a::len)" and "wr_inv w" and "w_iCurBit w = int (8 * t)"
    and "w_iCurBit w + 8 * int (length (varint_bytes (d :: 'a word))) \<le> w_nDataBits w"
  shows "VarIntSlow w d = Some (w\<lparr>w_pData := put_bytes (w_pData w) t (varint_bytes d),
       w_iCurBit := int (8 * (t + length (varint_bytes d)))\<rparr>)"
  using assms(2-)
proof (induction w d arbitrary: t rule: VarIntSlow.induct)
  case (1 w d)
  show ?case
  proof (cases "0x7F < d")
    case True
    let ?d = "drop_bit 7 d"
    let ?b = "(w_pData w)[t := ucast d OR 0x80]"
    let ?w1 = "w\<lparr>w_pData := ?b, w_iCurBit := int (8 * (t + 1))\<rparr>"
    have fit: "w_iCurBit w + 8 + 8 * int (length (varint_bytes ?d)) \<le> w_nDataBits w"
      using 1(4) True by (simp only: varint_bytes_large) simp
    have lt: "unat (ucast ((d AND 0x7F) OR 0x80) :: u32) < 2 ^ 8"
      by (rule less_exp_bitI)
        (simp only: bit_or_iff bit_and_iff bit_unsigned_iff bit_80 bit_7F, auto)
    have w1: "WriteUBitLong w (ucast ((d AND 0x7F) OR 0x80)) 8 = Some ?w1"
      using WriteUBitLong_aligned [OF 1(2,3) _ lt] fit by (simp only: varint_group(1) [OF L])
    have "wr_inv ?w1" using 1(2,3) fit by (simp add: wr_inv_def)
    from 1(1) [OF True w1 this, of "t + 1"] 1(3) fit True w1 show ?thesis
      by (subst VarIntSlow.simps) (simp add: varint_bytes_large del: drop_bit_eq_div)
  next
    case False
    have fit: "w_iCurBit w + 8 \<le> w_nDataBits w" using 1(4) False by (simp add: varint_bytes_small)
    have "unat (ucast (d AND 0x7F) :: u32) < 2 ^ 8"
      by (rule less_exp_bitI) (simp only: bit_and_iff bit_unsigned_iff bit_7F, auto)
    from WriteUBitLong_aligned [OF 1(2,3) fit this] False show ?thesis
      by (subst VarIntSlow.simps) (simp add: varint_bytes_small varint_group(2) [OF L])
  qed
qed

lemma varint_bytes_map:
  assumes "8 \<le> LENGTH('a::len)" and "length (varint_bytes (d :: 'a word)) = n"
  shows "varint_bytes d = map (\<lambda>k. if Suc k < n then ucast (drop_bit (7 * k) d) OR 0x80
     else ucast (drop_bit (7 * k) d)) [0..<n]"
  using assms by (intro nth_equalityI) (simp_all add: nth_varint)

lemma varint_lengthI:
  assumes "8 \<le> LENGTH('a::len)" and "k = 0 \<or> 2 ^ (7 * k) \<le> unat (d :: 'a word)"
    and "unat d < 2 ^ (7 * Suc k)"
  shows "length (varint_bytes d) = Suc k"
  using less_length_varint [OF assms(1), of k d] less_length_varint [OF assms(1), of "Suc k" d] assms(2,3)
  by (simp only: not_le [symmetric]) auto

lemma bit_last_group:
  assumes "unat (d :: 'a::len word) < 2 ^ (7 * Suc k)"
  shows "((ucast (drop_bit (7 * k) d) OR 0x80) AND 0x7F :: u8) = ucast (drop_bit (7 * k) d)"
proof (rule bit_word_eqI)
  fix j assume "j < LENGTH(8)"
  have "bit (drop_bit (7 * k) d) j \<Longrightarrow> j < 7"
    using bit_less_exp [OF assms, of "7 * k + j"] by (simp only: bit_drop_bit_eq comp_def) simp
  then show "bit ((ucast (drop_bit (7 * k) d) OR 0x80) AND 0x7F :: u8) j = bit (ucast (drop_bit (7 * k) d) :: u8) j"
    by (simp only: bit_or_iff bit_and_iff bit_unsigned_iff bit_80 bit_7F) auto
qed

lemma ucast_or_80:
  fixes d :: "'a::len word"
  assumes "8 \<le> LENGTH('a)"
  shows "(ucast (d OR 0x80) :: u8) = ucast d OR 0x80"
  by (rule bit_word_eqI) (simp only: bit_or_iff bit_unsigned_iff bit_80, use assms in auto)

lemma store_byte_nat:
  "k < length bs \<Longrightarrow> store_byte bs (int k) v = Some (bs[k := v])"
  by (simp add: store_byte_def)

lemma clear_high_nat:
  "k < length bs \<Longrightarrow> clear_high bs (int k) = Some (bs[k := bs ! k AND 0x7F])"
  by (simp add: clear_high_def load_byte_def store_byte_def)

lemma VarInt32Fast_aligned:
  assumes "w_iCurBit w = int (8 * t)" and len: "t + 5 \<le> length (w_pData w)" and small: "t < 2 ^ 27"
  shows "VarInt32Fast w d = Some (w\<lparr>w_pData := put_bytes (w_pData w) t (varint_bytes d),
       w_iCurBit := int (8 * (t + length (varint_bytes d)))\<rparr>)"
proof -
  have t: "w_iCurBit w div 8 = int t" using assms(1) by simp
  have i: "store_byte bs (int t + numeral n) v = Some (bs[t + numeral n := v])"
      "clear_high bs (int t + numeral n) = Some (bs[t + numeral n := bs ! (t + numeral n) AND 0x7F])"
    if "t + numeral n < length bs" for bs n v
    using store_byte_nat [OF that] clear_high_nat [OF that] by simp_all
  have i1: "store_byte bs (int t + 1) v = Some (bs[t + 1 := v])"
      "clear_high bs (int t + 1) = Some (bs[t + 1 := bs ! (t + 1) AND 0x7F])"
    if "t + 1 < length bs" for bs v
    using store_byte_nat [OF that] clear_high_nat [OF that] by (simp_all add: add.commute)
  have e: "t + 3 = Suc (Suc (Suc t))" "t + 4 = Suc (Suc (Suc (Suc t)))" by simp_all
  have up: "[0..<3] = [0, 1, 2::nat]" "[0..<4] = [0, 1, 2, 3::nat]" "[0..<5] = [0, 1, 2, 3, 4::nat]"
    by (simp_all add: upt_rec)
  have L: "8 \<le> LENGTH(32)" by simp
  have "unat d < 2 ^ LENGTH(32)" by (rule unsigned_less)
  then have hi: "unat d < 2 ^ (7 * Suc 4)" by simp
  have or: "ucast (drop_bit k d OR 0x80) = (ucast (drop_bit k d) OR 0x80 :: u8)"
    "ucast (d OR 0x80) = (ucast d OR 0x80 :: u8)" for k
    by (simp_all only: ucast_or_80 [OF L])
  have i32: "int32 (8 * int t + n) = 8 * int t + n" if "0 \<le> n" "n \<le> 40" for n
    using small that by (intro int32_id) simp_all
  note steps = i32 VarInt32Fast_def t [unfolded assms(1)] assms(1) i i1 e up or Let_def word_le_nat_alt store_byte_nat clear_high_nat
  consider (1) "\<not> 2 ^ 7 \<le> unat d" | (2) "2 ^ 7 \<le> unat d" "\<not> 2 ^ 14 \<le> unat d"
    | (3) "2 ^ 14 \<le> unat d" "\<not> 2 ^ 21 \<le> unat d" | (4) "2 ^ 21 \<le> unat d" "\<not> 2 ^ 28 \<le> unat d"
    | (5) "2 ^ 28 \<le> unat d" by blast
  then show ?thesis
  proof cases
    case 1
    then have "length (varint_bytes d) = Suc 0" by (intro varint_lengthI [OF L]) simp_all
    from varint_bytes_map [OF L this] this 1 bit_last_group [of d 0] len show ?thesis
      by (simp add: steps)
  next
    case 2
    then have n: "length (varint_bytes d) = Suc 1" by (intro varint_lengthI [OF L]) simp_all
    have "unat d < 2 ^ (7 * Suc 1)" using 2 by simp
    from varint_bytes_map [OF L n] n 2 bit_last_group [OF this] len show ?thesis
      by (simp add: steps)
  next
    case 3
    then have n: "length (varint_bytes d) = Suc 2" by (intro varint_lengthI [OF L]) simp_all
    have "unat d < 2 ^ (7 * Suc 2)" using 3 by simp
    from varint_bytes_map [OF L n] n 3 bit_last_group [OF this] len show ?thesis
      by (simp add: steps)
  next
    case 4
    then have n: "length (varint_bytes d) = Suc 3" by (intro varint_lengthI [OF L]) simp_all
    have "unat d < 2 ^ (7 * Suc 3)" using 4 by simp
    from varint_bytes_map [OF L n] n 4 bit_last_group [OF this] len show ?thesis
      by (simp add: steps)
  next
    case 5
    then have n: "length (varint_bytes d) = Suc 4" using hi by (intro varint_lengthI [OF L]) simp_all
    from varint_bytes_map [OF L n] n 5 bit_last_group [OF hi] len show ?thesis
      by (simp add: steps)
  qed
qed

text \<open>The pieces \<open>WriteVarInt64\<close> cuts its value into, and the search for the size.\<close>

lemma varint64_size_length: "varint64_size d = length (varint_bytes d)"
proof -
  let ?n = "unat d"
  have L: "8 \<le> LENGTH(64)" by simp
  have "unat d < 2 ^ LENGTH(64)" by (rule unsigned_less)
  then have hi: "?n < 2 ^ 64" by simp
  have p0: "unat (ucast d :: u32) = ?n mod 2 ^ 32"
    and p1: "unat (ucast (drop_bit 28 d) :: u32) = ?n div 2 ^ 28 mod 2 ^ 32"
    and p2: "unat (ucast (drop_bit 56 d) :: u32) = ?n div 2 ^ 56 mod 2 ^ 32"
    by (simp_all only: unsigned_ucast_eq unat_drop_bit_eq)
      (simp_all add: drop_bit_eq_div take_bit_eq_mod)
  have z: "x = 0 \<longleftrightarrow> unat x = 0" for x :: u32 by (simp add: unat_eq_0)
  have lt: "x < 2 ^ 7 \<longleftrightarrow> unat x < 2 ^ 7" "x < 2 ^ 14 \<longleftrightarrow> unat x < 2 ^ 14"
    "x < 2 ^ 21 \<longleftrightarrow> unat x < 2 ^ 21" for x :: u32
    by (simp_all add: word_less_nat_alt)
  have len: "length (varint_bytes d) = Suc k" if "k = 0 \<or> 2 ^ (7 * k) \<le> ?n" "?n < 2 ^ (7 * Suc k)" for k
    by (rule varint_lengthI [OF L that])
  have size: "varint64_size d =
     (if ?n div 2 ^ 56 mod 2 ^ 32 = 0 then
        (if ?n div 2 ^ 28 mod 2 ^ 32 = 0 then
           (if ?n mod 2 ^ 32 < 2 ^ 14 then (if ?n mod 2 ^ 32 < 2 ^ 7 then 1 else 2)
            else (if ?n mod 2 ^ 32 < 2 ^ 21 then 3 else 4))
         else
           (if ?n div 2 ^ 28 mod 2 ^ 32 < 2 ^ 14 then (if ?n div 2 ^ 28 mod 2 ^ 32 < 2 ^ 7 then 5 else 6)
            else (if ?n div 2 ^ 28 mod 2 ^ 32 < 2 ^ 21 then 7 else 8)))
      else (if ?n div 2 ^ 56 mod 2 ^ 32 < 2 ^ 7 then 9 else 10))"
    unfolding varint64_size_def Let_def z lt p0 p1 p2 ..
  have c: "?n div 2 ^ 56 mod 2 ^ 32 = ?n div 2 ^ 56"
    using hi by (intro mod_less) (simp add: div_less_iff_less_mult)
  consider "?n < 2 ^ 28" | "2 ^ 28 \<le> ?n" "?n < 2 ^ 56" | "2 ^ 56 \<le> ?n" by linarith
  then show ?thesis
  proof cases
    case 1
    then have "?n div 2 ^ 56 = 0" "?n div 2 ^ 28 = 0" "?n mod 2 ^ 32 = ?n" by simp_all
    then show ?thesis
      unfolding size c using 1 len [of 0] len [of 1] len [of 2] len [of 3] by auto
  next
    case 2
    then have "?n div 2 ^ 56 = 0" "?n div 2 ^ 28 mod 2 ^ 32 = ?n div 2 ^ 28" "0 < ?n div 2 ^ 28"
      by (simp_all add: div_less_iff_less_mult div_greater_zero_iff)
    moreover have "?n div 2 ^ 28 < 2 ^ k \<longleftrightarrow> ?n < 2 ^ (28 + k)" for k
      by (simp add: div_less_iff_less_mult power_add mult.commute)
    ultimately show ?thesis
      unfolding size c using 2 len [of 4] len [of 5] len [of 6] len [of 7] by auto
  next
    case 3
    then have "0 < ?n div 2 ^ 56" by (simp add: div_greater_zero_iff)
    moreover have "?n div 2 ^ 56 < 2 ^ 7 \<longleftrightarrow> ?n < 2 ^ 63"
      by (simp add: div_less_iff_less_mult)
    ultimately show ?thesis
      unfolding size c using 3 hi len [of 8] len [of 9] by auto
  qed
qed

lemma varint64_byte_eq:
  assumes "k < 10"
  shows "varint64_byte d k = ucast (drop_bit (7 * k) d) OR 0x80"
proof -
  have "k = 0 \<or> k = 1 \<or> k = 2 \<or> k = 3 \<or> k = 4 \<or> k = 5 \<or> k = 6 \<or> k = 7 \<or> k = 8 \<or> k = 9"
    using assms by presburger
  then show ?thesis
    by (elim disjE; simp only: varint64_byte_def Let_def if_True if_False; intro bit_word_eqI;
        simp only: bit_or_iff bit_unsigned_iff bit_drop_bit_eq bit_80 comp_def,
        auto simp: bit_unsigned_iff bit_drop_bit_eq add.commute)
qed

lemma store_down_put_bytes:
  "t + k \<le> length buf \<Longrightarrow>
    store_down buf (int t) d k = Some (put_bytes buf t (map (varint64_byte d) [0..<k]))"
proof (induction k arbitrary: buf)
  case (Suc k)
  let ?b = "buf[t + k := varint64_byte d k]"
  have "store_down buf (int t) d (Suc k) = store_down ?b (int t) d k"
    using Suc.prems by (simp add: store_byte_nat [of "t + k", simplified])
  also have "\<dots> = Some (put_bytes ?b t (map (varint64_byte d) [0..<k]))"
    using Suc by simp
  also have "put_bytes ?b t (map (varint64_byte d) [0..<k]) = put_bytes buf t (map (varint64_byte d) [0..<Suc k])"
    using Suc.prems by (intro nth_equalityI) (auto simp: nth_put_bytes nth_append nth_list_update)
  finally show ?case .
qed simp

lemma VarInt64Fast_aligned:
  assumes "w_iCurBit w = int (8 * t)" and len: "t + 10 \<le> length (w_pData w)" and small: "t < 2 ^ 27"
  shows "VarInt64Fast w d = Some (w\<lparr>w_pData := put_bytes (w_pData w) t (varint_bytes d),
       w_iCurBit := int (8 * (t + length (varint_bytes d)))\<rparr>)"
proof -
  have L: "8 \<le> LENGTH(64)" by simp
  have t: "w_iCurBit w div 8 = int t" using assms(1) by simp
  obtain k where n: "length (varint_bytes d) = Suc k"
    using length_varint_bytes_pos [of d] by (metis gr0_implies_Suc)
  have "unat d < 2 ^ LENGTH(64)" by (rule unsigned_less)
  then have "\<not> 2 ^ (7 * 10) \<le> unat d" by simp
  then have "\<not> 10 < length (varint_bytes d)" unfolding less_length_varint [OF L] by simp
  with n have k: "k < 10" by simp
  have hi: "unat d < 2 ^ (7 * Suc k)"
    using less_length_varint [OF L, of "Suc k" d] n by (simp only: not_le [symmetric]) auto
  let ?b = "put_bytes (w_pData w) t (map (varint64_byte d) [0..<Suc k])"
  have tk: "t + Suc k \<le> length (w_pData w)" using len k by linarith
  have "(int t + int (Suc k) - 1) = int (t + k)" by simp
  moreover have "clear_high ?b (int (t + k)) = Some (?b[t + k := ?b ! (t + k) AND 0x7F])"
    using tk by (intro clear_high_nat) simp
  moreover have "?b[t + k := ?b ! (t + k) AND 0x7F] = put_bytes (w_pData w) t (varint_bytes d)"
  proof (rule nth_equalityI)
    fix i assume i: "i < length (?b[t + k := ?b ! (t + k) AND 0x7F])"
    have b: "?b ! (t + j) = ucast (drop_bit (7 * j) d) OR 0x80" if "j < Suc k" for j
      using that tk k by (simp add: nth_put_bytes varint64_byte_eq del: upt_Suc)
    have v: "put_bytes (w_pData w) t (varint_bytes d) ! (t + j) =
        (if j < k then ucast (drop_bit (7 * j) d) OR 0x80 else ucast (drop_bit (7 * j) d))" if "j < Suc k" for j
      using that tk n by (simp add: nth_put_bytes nth_varint [OF L])
    consider (out) "\<not> (t \<le> i \<and> i < t + Suc k)" | (mid) j where "i = t + j" "j < k" | (last) "i = t + k"
      by (metis add_Suc_right le_add_diff_inverse less_Suc_eq nat_add_left_cancel_less)
    then show "?b[t + k := ?b ! (t + k) AND 0x7F] ! i = put_bytes (w_pData w) t (varint_bytes d) ! i"
    proof cases
      case out
      then show ?thesis using i tk n by (auto simp: nth_put_bytes nth_list_update)
    next
      case mid
      then show ?thesis using b [of j] v [of j] by simp
    next
      case last
      then show ?thesis using i b [of k] v [of k] bit_last_group [OF hi] by simp
    qed
  qed simp
  moreover have "int32 (int (8 * t) + int (Suc k) * 8) = int (8 * (t + Suc k))"
    using small k by (subst int32_id) simp_all
  ultimately show ?thesis
    using store_down_put_bytes [OF tk, of d]
    by (simp add: VarInt64Fast_def t varint64_size_length n assms(1) Let_def del: upt_Suc store_down.simps)
qed

lemma length_varint_32: "length (varint_bytes (d :: u32)) \<le> 5"
proof -
  have "unat d < 2 ^ LENGTH(32)" by (rule unsigned_less)
  then have "\<not> 2 ^ (7 * 5) \<le> unat d" by simp
  then have "\<not> 5 < length (varint_bytes d)" by (subst less_length_varint) simp_all
  then show ?thesis by simp
qed

lemma length_varint_64: "length (varint_bytes (d :: u64)) \<le> 10"
proof -
  have "unat d < 2 ^ LENGTH(64)" by (rule unsigned_less)
  then have "\<not> 2 ^ (7 * 10) \<le> unat d" by simp
  then have "\<not> 10 < length (varint_bytes d)" by (subst less_length_varint) simp_all
  then show ?thesis by simp
qed

lemma aligned_pos:
  assumes "wr_inv w" "w_iCurBit w mod 8 = 0"
  shows "\<exists>t. w_iCurBit w = int (8 * t)"
proof -
  have "w_iCurBit w = 8 * (w_iCurBit w div 8)" using assms(2) mult_div_mod_eq [of 8 "w_iCurBit w"] by simp
  moreover have "0 \<le> w_iCurBit w div 8" using assms(1) by (simp add: wr_inv_def pos_imp_zdiv_nonneg_iff)
  ultimately show ?thesis by (intro exI [of _ "nat (w_iCurBit w div 8)"]) simp
qed

text \<open>The fast paths write what the slow paths write.\<close>

lemma VarInt32_paths:
  assumes inv: "wr_inv w"
  shows "WriteVarInt32 w d = VarIntSlow w d"
proof (cases "w_iCurBit w mod 8 = 0 \<and> int32 (w_iCurBit w + 5 * 8) \<le> w_nDataBits w")
  case True
  with aligned_pos [OF inv] obtain t where t: "w_iCurBit w = int (8 * t)" by blast
  have "w_iCurBit w + 5 * 8 \<le> w_nDataBits w" using True wr_int32 [OF inv, of "5 * 8"] by simp
  then have "t + 5 \<le> length (w_pData w)" "t < 2 ^ 27" using inv t by (simp_all add: wr_inv_def)
  moreover have "w_iCurBit w + 8 * int (length (varint_bytes d)) \<le> w_nDataBits w"
    using \<open>w_iCurBit w + 5 * 8 \<le> _\<close> length_varint_32 [of d] by linarith
  ultimately show ?thesis
    using True t VarInt32Fast_aligned [OF t] VarIntSlow_aligned [OF _ inv t, of d]
    by (simp add: WriteVarInt32_def)
qed (auto simp: WriteVarInt32_def)

lemma VarInt64_paths:
  assumes inv: "wr_inv w"
  shows "WriteVarInt64 w d = VarIntSlow w d"
proof (cases "w_iCurBit w mod 8 = 0 \<and> int32 (w_iCurBit w + 10 * 8) \<le> w_nDataBits w")
  case True
  with aligned_pos [OF inv] obtain t where t: "w_iCurBit w = int (8 * t)" by blast
  have "w_iCurBit w + 10 * 8 \<le> w_nDataBits w" using True wr_int32 [OF inv, of "10 * 8"] by simp
  then have "t + 10 \<le> length (w_pData w)" "t < 2 ^ 27" using inv t by (simp_all add: wr_inv_def)
  moreover have "w_iCurBit w + 8 * int (length (varint_bytes d)) \<le> w_nDataBits w"
    using \<open>w_iCurBit w + 10 * 8 \<le> _\<close> length_varint_64 [of d] by linarith
  ultimately show ?thesis
    using True t VarInt64Fast_aligned [OF t] VarIntSlow_aligned [OF _ inv t, of d]
    by (simp add: WriteVarInt64_def)
qed (auto simp: WriteVarInt64_def)

lemma WriteVarInt32_emits:
  assumes "room w (8 * length (varint_bytes d))"
  shows "\<exists>w'. WriteVarInt32 w d = Some w' \<and> emits w (byte_bits (varint_bytes d)) w'"
proof -
  have "wr_inv w" using assms by (simp add: room_def)
  then show ?thesis using VarIntSlow_emits [OF _ assms] by (simp add: VarInt32_paths)
qed

lemma WriteVarInt64_emits:
  assumes "room w (8 * length (varint_bytes d))"
  shows "\<exists>w'. WriteVarInt64 w d = Some w' \<and> emits w (byte_bits (varint_bytes d)) w'"
proof -
  have "wr_inv w" using assms by (simp add: room_def)
  then show ?thesis using VarIntSlow_emits [OF _ assms] by (simp add: VarInt64_paths)
qed

section \<open>Reading\<close>

lemma ReadUBitLong_byte:
  assumes "sees r p (ubits 8 (b :: u8))"
  shows "\<exists>r'. ReadUBitLong r 8 = Some (ucast b, r') \<and> took r p 8 r'"
proof -
  have "ubits 8 (ucast b :: u32) = ubits 8 b" by (simp add: ubits_def bit_unsigned_iff)
  moreover have "unat (ucast b :: u32) < 2 ^ 8"
    by (rule less_exp_bitI) (auto simp: bit_unsigned_iff dest: bit_imp_le_length)
  ultimately show ?thesis using ReadUBitLong_ubits [of r p 8 "ucast b"] assms by simp
qed

lemma and_80: "(ucast (b :: u8) AND 0x80 :: u32) \<noteq> 0 \<longleftrightarrow> bit b 7"
proof -
  have "(ucast b AND 0x80 :: u32) = (if bit b 7 then 0x80 else 0)"
    by (rule bit_word_eqI) (simp only: bit_and_iff bit_unsigned_iff bit_80 if_distrib [of "\<lambda>w. bit w _"] bit_0_eq, auto)
  then show ?thesis by simp
qed

lemma ReadVarIntLoop_sees:
  assumes L: "8 \<le> LENGTH('a::len)"
  shows "length (varint_bytes (drop_bit (7 * count) (d :: 'a word))) \<le> left \<Longrightarrow>
     sees r p (byte_bits (varint_bytes (drop_bit (7 * count) d))) \<Longrightarrow>
     \<exists>r'. ReadVarIntLoop left count (take_bit (7 * count) d) r = Some (d, r') \<and>
       took r p (8 * length (varint_bytes (drop_bit (7 * count) d))) r'"
proof (induction left arbitrary: count r p)
  case 0
  then show ?case by simp
next
  case (Suc left)
  let ?x = "drop_bit (7 * count) d"
  have next_x: "drop_bit 7 ?x = drop_bit (7 * (count + 1)) d" by (simp add: add.commute)
  have upd: "take_bit (7 * count) d OR push_bit (7 * count) (ucast (ucast b :: u32) AND 0x7F) =
      take_bit (7 * (count + 1)) d" if "\<And>j. j < 7 \<Longrightarrow> bit b j = bit ?x j" for b :: u8
  proof (rule bit_word_eqI)
    fix j assume j: "j < LENGTH('a)"
    have "bit b (j - 7 * count) = bit d j" if "7 * count \<le> j" "j - 7 * count < 7"
      using that \<open>\<And>j. j < 7 \<Longrightarrow> bit b j = bit ?x j\<close> [of "j - 7 * count"] by (simp add: bit_drop_bit_eq)
    then show "bit (take_bit (7 * count) d OR push_bit (7 * count) (ucast (ucast b :: u32) AND 0x7F)) j =
      bit (take_bit (7 * (count + 1)) d) j"
      by (simp only: bit_or_iff bit_and_iff bit_take_bit_iff bit_push_bit_iff bit_unsigned_iff bit_7F)
        (use j L in auto)
  qed
  show ?case
  proof (cases "0x7F < ?x")
    case True
    let ?b = "ucast ?x OR 0x80 :: u8"
    have vb: "varint_bytes ?x = ?b # varint_bytes (drop_bit (7 * (count + 1)) d)"
      using varint_bytes_large [OF True] by (simp only: next_x)
    have s: "sees r p (ubits 8 ?b @ byte_bits (varint_bytes (drop_bit (7 * (count + 1)) d)))"
      using Suc.prems(2) by (simp only: vb byte_bits_Cons)
    from ReadUBitLong_byte [OF sees_append1 [OF s]] obtain r1 where
      r1: "ReadUBitLong r 8 = Some (ucast ?b, r1)" "took r p 8 r1" by blast
    have s1: "sees r1 (p + 8) (byte_bits (varint_bytes (drop_bit (7 * (count + 1)) d)))"
      using sees_append2 [OF s] r1(2) by simp
    have le: "length (varint_bytes (drop_bit (7 * (count + 1)) d)) \<le> left"
      using Suc.prems(1) by (simp only: vb) simp
    from Suc.IH [OF le s1] obtain r2 where
      r2: "ReadVarIntLoop left (count + 1) (take_bit (7 * (count + 1)) d) r1 = Some (d, r2)"
        "took r1 (p + 8) (8 * length (varint_bytes (drop_bit (7 * (count + 1)) d))) r2" by blast
    have bits: "bit ?b j = bit ?x j" if "j < 7" for j
      using that L by (simp only: bit_or_iff bit_unsigned_iff bit_80) auto
    have "bit ?b 7" by (simp only: bit_or_iff bit_80) simp
    then have "ucast ?b AND 0x80 \<noteq> (0 :: u32)" by (simp only: and_80)
    then have "ReadVarIntLoop (Suc left) count (take_bit (7 * count) d) r = Some (d, r2)"
      using r1(1) r2(1) upd [OF bits] by (simp only: ReadVarIntLoop.simps) simp
    moreover have "took r p (8 * length (varint_bytes ?x)) r2"
      using took_trans [OF r1(2) r2(2)] by (simp only: vb) simp
    ultimately show ?thesis by blast
  next
    case False
    let ?b = "ucast ?x :: u8"
    have vb: "varint_bytes ?x = [?b]" by (rule varint_bytes_small [OF False])
    have s: "sees r p (ubits 8 ?b)" using Suc.prems(2) by (simp only: vb byte_bits_Cons byte_bits_Nil append_Nil2)
    from ReadUBitLong_byte [OF s] obtain r1 where
      r1: "ReadUBitLong r 8 = Some (ucast ?b, r1)" "took r p 8 r1" by blast
    have "unat ?x < 2 ^ 7" using False L by (simp only: less_7F_iff not_le)
    then have small: "bit ?x j \<Longrightarrow> j < 7" for j by (rule bit_less_exp)
    have "take_bit (7 * (count + 1)) d = d"
    proof (rule bit_word_eqI)
      fix j
      show "bit (take_bit (7 * (count + 1)) d) j = bit d j"
        using small [of "j - 7 * count"] by (cases "7 * count \<le> j") (auto simp: bit_take_bit_iff bit_drop_bit_eq)
    qed
    moreover have bits: "bit ?b j = bit ?x j" if "j < 7" for j
      using that L by (simp only: bit_unsigned_iff) auto
    moreover have "\<not> bit ?b 7" using small [of 7] by (auto simp only: bit_unsigned_iff)
    then have "ucast ?b AND 0x80 = (0 :: u32)" using and_80 by blast
    ultimately have "ReadVarIntLoop (Suc left) count (take_bit (7 * count) d) r = Some (d, r1)"
      using r1(1) upd [OF bits] by (simp only: ReadVarIntLoop.simps) simp
    then show ?thesis using r1(2) by (simp only: vb) simp
  qed
qed

lemma ReadVarInt32_sees:
  assumes "sees r p (byte_bits (varint_bytes d))"
  shows "\<exists>r'. ReadVarInt32 r = Some (d, r') \<and> took r p (8 * length (varint_bytes d)) r'"
  using ReadVarIntLoop_sees [of 0 d 5 r p] assms length_varint_32 [of d] by (simp add: ReadVarInt32_def)

lemma ReadVarInt64_sees:
  assumes "sees r p (byte_bits (varint_bytes d))"
  shows "\<exists>r'. ReadVarInt64 r = Some (d, r') \<and> took r p (8 * length (varint_bytes d)) r'"
  using ReadVarIntLoop_sees [of 0 d 10 r p] assms length_varint_64 [of d] by (simp add: ReadVarInt64_def)

section \<open>The zig-zag code\<close>

lemma bit_sign_fill:
  "bit (signed_drop_bit (LENGTH('a) - 1) (n :: 'a::len word)) j \<longleftrightarrow> j < LENGTH('a) \<and> bit n (LENGTH('a) - 1)"
  using len_gt_0 [where 'a = 'a] by (cases "j = 0") (auto simp: bit_signed_drop_bit_iff dest: bit_imp_le_length)

lemma zigzag_inverse:
  fixes n :: "'a::len word"
  assumes e: "e = push_bit 1 n XOR signed_drop_bit (LENGTH('a) - 1) n"
  shows "drop_bit 1 e XOR - (e AND 1) = n"
proof -
  let ?s = "bit n (LENGTH('a) - 1)"
  have e_bit: "bit e j \<longleftrightarrow> j < LENGTH('a) \<and> ((1 \<le> j \<and> bit n (j - 1)) \<noteq> ?s)" for j
    unfolding e bit_xor_iff bit_push_bit_iff bit_sign_fill by (auto simp: bit_unsigned_iff)
  have "bit e 0 = ?s" by (simp add: e_bit)
  then have "e AND 1 = (if ?s then 1 else 0)" 
    by (auto simp: and_one_eq bit_0 mod2_eq_if)
  then have m: "- (e AND 1) = (if ?s then - 1 else 0)" by simp
  show ?thesis
  proof (rule bit_word_eqI)
    fix j assume j: "j < LENGTH('a)"
    have "bit (- (e AND 1)) j = ?s" unfolding m using j by simp
    moreover have "bit (drop_bit 1 e) j \<longleftrightarrow> j + 1 < LENGTH('a) \<and> (bit n j \<noteq> ?s)"
      by (simp add: bit_drop_bit_eq e_bit)
    moreover have "j + 1 < LENGTH('a) \<or> j = LENGTH('a) - 1" using j by linarith
    ultimately show "bit (drop_bit 1 e XOR - (e AND 1)) j = bit n j"
      by (auto simp: bit_xor_iff)
  qed
qed

lemma ZigZag32_inverse: "ZigZagDecode32 (ZigZagEncode32 n) = n"
  using zigzag_inverse [of "ZigZagEncode32 n" n] by (simp add: ZigZagDecode32_def ZigZagEncode32_def)

lemma ZigZag64_inverse: "ZigZagDecode64 (ZigZagEncode64 n) = n"
  using zigzag_inverse [of "ZigZagEncode64 n" n] by (simp add: ZigZagDecode64_def ZigZagEncode64_def)

end
