(* ===== verification/BitBlock.thy ===== *)
theory BitBlock
  imports BitVarint
begin

text \<open>
  Blocks of bytes and strings. \<open>WriteBits\<close> copies a block in up to four ways (bytes until the source
  is aligned, \<open>memcpy\<close> when the stream is on a byte, double words shifted into place otherwise, and
  the rest); whatever the way, the stream gains the first bits of the block.
\<close>

section \<open>The bits of a block\<close>

definition block_bits :: "u8 list \<Rightarrow> nat \<Rightarrow> bool list" where
  "block_bits bs n = map (buf_bit bs) [0..<n]"

lemma length_block_bits [simp]: "length (block_bits bs n) = n"
  by (simp add: block_bits_def)

lemma nth_block_bits [simp]: "k < n \<Longrightarrow> block_bits bs n ! k = buf_bit bs k"
  by (simp add: block_bits_def)

lemma block_bits_0 [simp]: "block_bits bs 0 = []"
  by (simp add: block_bits_def)

lemma buf_bit_drop: "k \<le> length bs \<Longrightarrow> buf_bit (drop k bs) i = buf_bit bs (8 * k + i)"
  by (simp add: buf_bit_def)

lemma block_bits_split:
  "k \<le> length bs \<Longrightarrow> block_bits bs (8 * k + n) = block_bits bs (8 * k) @ block_bits (drop k bs) n"
  by (rule nth_equalityI) (auto simp: nth_append buf_bit_drop)

lemma block_bits_ubits:
  "n \<le> 8 \<Longrightarrow> block_bits (b # bs) n = ubits n b"
  by (rule nth_equalityI) (auto simp: buf_bit_def)

lemma block_bits_byte_bits: "block_bits bs (8 * length bs) = byte_bits bs"
proof (induction bs)
  case (Cons b bs)
  have "block_bits (b # bs) (8 * 1 + 8 * length bs) = ubits 8 b @ block_bits bs (8 * length bs)"
    by (subst block_bits_split) (simp_all add: block_bits_ubits)
  with Cons show ?case by simp
qed simp

lemma ubits_ucast: "n \<le> 8 \<Longrightarrow> ubits n (ucast (b :: u8) :: u32) = ubits n b"
  by (simp add: ubits_def bit_unsigned_iff)

section \<open>Copying\<close>

text \<open>A part of the block has been written: \<open>k\<close> bytes of it.\<close>

definition copied :: "bf_write \<Rightarrow> u8 list \<Rightarrow> nat \<Rightarrow> bf_write \<Rightarrow> u8 list \<Rightarrow> nat \<Rightarrow> bool" where
  "copied w pIn n w1 pIn1 n1 \<longleftrightarrow> (\<exists>k. k \<le> length pIn \<and> pIn1 = drop k pIn \<and> 8 * k + n1 = n \<and>
     emits w (block_bits pIn (8 * k)) w1)"

lemma copied_refl: "room w m \<Longrightarrow> copied w pIn n w pIn n"
  by (auto simp: copied_def intro: emits_nil exI [of _ 0])

lemma room_cur: "room w n \<Longrightarrow> 0 \<le> w_iCurBit w"
  by (simp add: room_def wr_inv_def)

lemma copied_trans:
  assumes a: "copied w pIn n w1 pIn1 n1" and b: "copied w1 pIn1 n1 w2 pIn2 n2" and c: "0 \<le> w_iCurBit w"
  shows "copied w pIn n w2 pIn2 n2"
proof -
  from a obtain k where k: "k \<le> length pIn" "pIn1 = drop k pIn" "8 * k + n1 = n"
    "emits w (block_bits pIn (8 * k)) w1" by (auto simp: copied_def)
  from b obtain k' where k': "k' \<le> length pIn1" "pIn2 = drop k' pIn1" "8 * k' + n2 = n1"
    "emits w1 (block_bits pIn1 (8 * k')) w2" by (auto simp: copied_def)
  have "emits w (block_bits pIn (8 * (k + k'))) w2"
    using emits_trans [OF k(4) k'(4) c] block_bits_split [OF k(1), of "8 * k'"] k(2)
    by (simp add: distrib_left)
  with k k' show ?thesis
    by (auto simp: copied_def add.commute intro!: exI [of _ "k + k'"])
qed

lemma copied_room:
  assumes "copied w pIn n w1 pIn1 n1" and "room w n" and "n \<le> 8 * length pIn"
  shows "room w1 n1" and "n1 \<le> 8 * length pIn1" and "n1 \<le> n"
  using assms emits_room by (fastforce simp: copied_def)+

lemma copied_byte:
  assumes "room w n" "8 \<le> n" "n \<le> 8 * length (b # pIn)"
  shows "\<exists>w1. WriteUBitLong w (ucast b) 8 = Some w1 \<and> copied w (b # pIn) n w1 pIn (n - 8)"
proof -
  from WriteUBitLong_emits [OF room_mono [OF assms(1,2)], of "ucast b"] obtain w1 where
    w1: "WriteUBitLong w (ucast b) 8 = Some w1" "emits w (ubits 8 (ucast b :: u32)) w1" by auto
  have "ubits 8 (ucast b :: u32) = block_bits (b # pIn) (8 * 1)"
    by (simp add: ubits_ucast block_bits_ubits)
  with w1 assms(2) show ?thesis by (auto simp: copied_def intro!: exI [of _ 1])
qed

lemma WriteAlignLoop_copied:
  assumes "room w n" "n \<le> 8 * length pIn"
  shows "\<exists>w1 pIn1 n1. WriteAlignLoop addr w pIn n = Some (w1, pIn1, n1) \<and> copied w pIn n w1 pIn1 n1"
  using assms
proof (induction pIn arbitrary: addr w n)
  case Nil
  then show ?case using copied_refl [OF Nil.prems(1)] by (simp add: WriteAlignLoop.simps)
next
  case (Cons b pIn)
  show ?case
  proof (cases "addr mod 4 \<noteq> 0 \<and> 8 \<le> n")
    case False
    then show ?thesis using copied_refl [OF Cons.prems(1)] by (subst WriteAlignLoop.simps) auto
  next
    case True
    from copied_byte [OF Cons.prems(1) _ Cons.prems(2)] True obtain w1 where
      w1: "WriteUBitLong w (ucast b) 8 = Some w1" "copied w (b # pIn) n w1 pIn (n - 8)" by blast
    note r = copied_room [OF w1(2) Cons.prems]
    from Cons.IH [OF r(1,2), of "addr + 1"] obtain w2 pIn2 n2 where
      "WriteAlignLoop (addr + 1) w1 pIn (n - 8) = Some (w2, pIn2, n2)" "copied w1 pIn (n - 8) w2 pIn2 n2" by blast
    then show ?thesis using True w1 copied_trans [OF w1(2) _ room_cur [OF Cons.prems(1)]]
      by (subst WriteAlignLoop.simps) auto
  qed
qed

lemma WriteByteLoop_copied:
  assumes "room w n" "n \<le> 8 * length pIn"
  shows "\<exists>w1 pIn1 n1. WriteByteLoop w pIn n = Some (w1, pIn1, n1) \<and> copied w pIn n w1 pIn1 n1 \<and> n1 < 8"
  using assms
proof (induction pIn arbitrary: w n)
  case Nil
  then show ?case using copied_refl [OF Nil.prems(1)] by (simp add: WriteByteLoop.simps)
next
  case (Cons b pIn)
  show ?case
  proof (cases "8 \<le> n")
    case False
    then show ?thesis using copied_refl [OF Cons.prems(1)] by (subst WriteByteLoop.simps) auto
  next
    case True
    from copied_byte [OF Cons.prems(1) _ Cons.prems(2)] True obtain w1 where
      w1: "WriteUBitLong w (ucast b) 8 = Some w1" "copied w (b # pIn) n w1 pIn (n - 8)" by blast
    note r = copied_room [OF w1(2) Cons.prems]
    from Cons.IH [OF r(1,2)] obtain w2 pIn2 n2 where
      "WriteByteLoop w1 pIn (n - 8) = Some (w2, pIn2, n2)" "copied w1 pIn (n - 8) w2 pIn2 n2" "n2 < 8" by blast
    then show ?thesis using True w1 copied_trans [OF w1(2) _ room_cur [OF Cons.prems(1)]]
      by (subst WriteByteLoop.simps) auto
  qed
qed

text \<open>\<open>memcpy\<close>, on a byte boundary.\<close>

lemma buf_bit_append:
  "buf_bit (xs @ ys) i = (if i div 8 < length xs then buf_bit xs i else buf_bit ys (i - 8 * length xs))"
proof (cases "i div 8 < length xs")
  case False
  then obtain j where j: "i = 8 * length xs + j" by (metis le_add_diff_inverse less_mult_imp_div_less linorder_not_less mult.commute)
  then have "i div 8 = length xs + j div 8" "i mod 8 = j mod 8" by simp_all
  then show ?thesis using j by (simp add: buf_bit_def nth_append)
qed (simp add: buf_bit_def nth_append)

lemma memcpy_in_copied:
  assumes r: "room w n" "n \<le> 8 * length pIn" and al: "w_iCurBit w mod 8 = 0" and k: "k = n div 8"
  shows "\<exists>w1. memcpy_in w pIn k = Some w1 \<and> copied w pIn n w1 (drop k pIn) (n - 8 * k)"
proof -
  from r(1) have inv: "wr_inv w" by (simp add: room_def)
  from aligned_pos [OF inv al] obtain t where t: "w_iCurBit w = int (8 * t)" by blast
  have kn: "8 * k \<le> n" "k \<le> length pIn" using r(2) k by simp_all
  have fits: "int (8 * t) + int n \<le> w_nDataBits w" "8 * t + n \<le> 8 * length (w_pData w)"
    using r(1) t by (auto simp: room_def wr_inv_def)
  then have len: "t + k \<le> length (w_pData w)" using kn by linarith
  let ?b = "take t (w_pData w) @ take k pIn @ drop (t + k) (w_pData w)"
  have m: "memcpy_in w pIn k = Some (w\<lparr>w_pData := ?b, w_iCurBit := int (8 * t) + int (8 * k)\<rparr>)"
    using len kn t wr_int32 [of w "int (8 * k)"] fits inv r(1) by (simp add: memcpy_in_def room_def wr_inv_def)
  have lb: "length ?b = length (w_pData w)" using len kn by simp
  have b1: "buf_bit ?b i = buf_bit (w_pData w) i" if "i < 8 * t" for i
  proof -
    have "i div 8 < t" using that by (simp add: less_mult_imp_div_less mult.commute)
    then show ?thesis using len by (simp add: buf_bit_def nth_append)
  qed
  have b2: "buf_bit ?b (8 * t + i) = buf_bit pIn i" if "i < 8 * k" for i
  proof -
    have "i div 8 < k" using that by (simp add: less_mult_imp_div_less mult.commute)
    then show ?thesis using len kn by (simp add: buf_bit_def nth_append)
  qed
  have "emits w (block_bits pIn (8 * k)) (w\<lparr>w_pData := ?b, w_iCurBit := int (8 * t) + int (8 * k)\<rparr>)"
    using inv r(1) t kn fits lb b1 b2 by (simp add: emits_def wr_inv_def room_def nat_mult_distrib)
  with m kn show ?thesis by (auto simp: copied_def intro!: exI [of _ k])
qed

text \<open>
  The double word loop. \<open>pending w0 bs w d out s\<close>: storing \<open>out\<close> as double word \<open>d\<close> would make \<open>w\<close> the
  stream \<open>w0\<close> grown by \<open>bs\<close>, with the position at bit \<open>s\<close> of that double word.
\<close>

definition pending :: "bf_write \<Rightarrow> bool list \<Rightarrow> bf_write \<Rightarrow> nat \<Rightarrow> u32 \<Rightarrow> nat \<Rightarrow> bool" where
  "pending w0 bs w d out s \<longleftrightarrow> w_iCurBit w = int (32 * d + s) \<and> (\<forall>j. s \<le> j \<longrightarrow> \<not> bit out j) \<and>
     (\<exists>buf. StoreLittleDWord (w_pData w) d out = Some buf \<and> emits w0 bs (w\<lparr>w_pData := buf\<rparr>))"

lemma dword_fits:
  assumes "wr_inv w" "int x \<le> w_nDataBits w" "32 * q < x"
  shows "4 * q + 4 \<le> length (w_pData w)"
proof -
  from assms(1) obtain z where z: "w_nDataBytes w = 4 * z" by (auto simp: wr_inv_def)
  have "x \<le> 32 * nat z" "4 * nat z \<le> length (w_pData w)"
    using assms z by (auto simp: wr_inv_def)
  then have "q < nat z" using assms(3) by linarith
  then have "4 * q + 4 \<le> 4 * nat z" by simp
  then show ?thesis using \<open>4 * nat z \<le> length (w_pData w)\<close> by (rule le_trans)
qed

lemma mod_32_cases:
  fixes i s d :: nat
  assumes "0 < s" "s < 32" "32 * d + s \<le> i" "i < 32 * d + s + 32"
  obtains j where "i = 32 * d + j" "s \<le> j" "j < 32" "i div 32 = d" "i mod 32 = j" "i - (32 * d + s) = j - s"
  | j where "i = 32 * (d + 1) + j" "j < s" "i div 32 = d + 1" "i mod 32 = j" "i - (32 * d + s) = j + (32 - s)"
proof (cases "i < 32 * (d + 1)")
  case True
  define j where "j = i - 32 * d"
  have "i = 32 * d + j" "j < 32" using True assms by (simp_all add: j_def)
  with assms that(1) [of j] show ?thesis by simp
next
  case False
  define j where "j = i - 32 * (d + 1)"
  have "i = 32 * (d + 1) + j" "j < s" using False assms by (simp_all add: j_def)
  moreover have "(32 * q + j) div 32 = q" "(32 * q + j) mod 32 = j" for q
    using \<open>j < s\<close> assms(2) by simp_all
  moreover have "32 * (d + 1) + j - (32 * d + s) = j + (32 - s)" using assms(2) by simp
  ultimately show ?thesis using that(2) [of j] by metis
qed

lemma pending_step:
  assumes p: "pending w0 bs w d out s" and s: "0 < s" "s < 32"
    and fits: "w_iCurBit w + 32 + int m \<le> w_nDataBits w" "0 < m"
    and cd: "LoadLittleDWord pIn 0 = Some cd" and c: "0 \<le> w_iCurBit w0"
  shows "\<exists>buf. StoreLittleDWord (w_pData w) d (out OR push_bit s cd) = Some buf \<and>
     pending w0 (bs @ block_bits pIn 32) (w\<lparr>w_pData := buf, w_iCurBit := int32 (w_iCurBit w + 32)\<rparr>) (d + 1)
       (drop_bit (32 - s) cd) s"
proof -
  from p obtain buf where cur: "w_iCurBit w = int (32 * d + s)" and out: "\<And>j. s \<le> j \<Longrightarrow> \<not> bit out j"
    and st: "StoreLittleDWord (w_pData w) d out = Some buf" and em: "emits w0 bs (w\<lparr>w_pData := buf\<rparr>)"
    by (auto simp: pending_def)
  have inv: "wr_inv (w\<lparr>w_pData := buf\<rparr>)" and no: "\<not> w_bOverflow w" using em by (simp_all add: emits_def)
  have lb: "length buf = length (w_pData w)" by (rule length_StoreLittleDWord [OF st])
  have inv': "wr_inv w" using inv lb by (simp add: wr_inv_def)
  have "4 * d + 4 \<le> length (w_pData w)"
    by (rule dword_fits [OF inv', of "32 * d + s + 32"]) (use fits cur s in auto)
  from StoreLittleDWord_some [OF this] obtain b1 where
    s1: "StoreLittleDWord (w_pData w) d (out OR push_bit s cd) = Some b1" "length b1 = length (w_pData w)" by blast
  have "4 * (d + 1) + 4 \<le> length b1" unfolding s1(2)
    by (rule dword_fits [OF inv', of "32 * d + s + 32 + m"]) (use fits cur s in auto)
  from StoreLittleDWord_some [OF this] obtain b2 where
    s2: "StoreLittleDWord b1 (d + 1) (drop_bit (32 - s) cd) = Some b2" "length b2 = length b1" by blast
  have bit_cd: "bit cd j = buf_bit pIn j" if "j < 32" for j
    using bit_LoadLittleDWord [OF cd that] by simp
  note bb = buf_bit_StoreLittleDWord [OF st] buf_bit_StoreLittleDWord [OF s1(1)]
    buf_bit_StoreLittleDWord [OF s2(1)]
  have old: "buf_bit b2 i = buf_bit buf i" if "i < 32 * d + s" for i
  proof -
    have "i div 32 \<noteq> d + 1" using that s by linarith
    moreover have "i mod 32 < s" if "i div 32 = d"
      using dword_pos [OF that] \<open>i < 32 * d + s\<close> by linarith
    ultimately show ?thesis by (auto simp: bb bit_or_iff bit_push_bit_iff)
  qed
  have new: "buf_bit b2 (32 * d + s + k) = buf_bit pIn k" if k: "k < 32" for k
  proof (rule mod_32_cases [of s d "32 * d + s + k"])
    fix j assume j: "s \<le> j" "j < 32" "(32 * d + s + k) div 32 = d" "(32 * d + s + k) mod 32 = j"
      "32 * d + s + k - (32 * d + s) = j - s"
    then show ?thesis using bit_cd [of "j - s"] out [of j] by (simp add: bb bit_or_iff bit_push_bit_iff)
  next
    fix j assume j: "j < s" "(32 * d + s + k) div 32 = d + 1" "(32 * d + s + k) mod 32 = j"
      "32 * d + s + k - (32 * d + s) = j + (32 - s)"
    then show ?thesis using bit_cd [of "j + (32 - s)"] s by (simp add: bb bit_drop_bit_eq add.commute)
  qed (use s k in auto)
  let ?w1 = "w\<lparr>w_pData := b1, w_iCurBit := w_iCurBit w + 32\<rparr>"
  have i32: "int32 (w_iCurBit w + 32) = w_iCurBit w + 32" by (rule wr_int32 [OF inv']) simp_all
  have n: "nat (int (32 * d + s)) = 32 * d + s" by (rule nat_int)
  have "emits (w\<lparr>w_pData := buf\<rparr>) (block_bits pIn 32) (?w1\<lparr>w_pData := b2\<rparr>)"
    using inv' no fits lb s1(2) s2(2) old new
    by (simp add: emits_def wr_inv_def cur n del: of_nat_add of_nat_mult)
  then have "emits w0 (bs @ block_bits pIn 32) (?w1\<lparr>w_pData := b2\<rparr>)"
    by (rule emits_trans [OF em _ c])
  moreover have "\<not> bit (drop_bit (32 - s) cd) j" if "s \<le> j" for j
    using that s bit_32_less [of cd "32 - s + j"] by (auto simp: bit_drop_bit_eq)
  ultimately show ?thesis unfolding i32 using s1 s2 cur
    by (intro exI [of _ b1]) (auto simp: pending_def)
qed

lemma pending_limits:
  "pending w0 bs w d out s \<Longrightarrow> w_nDataBits w = w_nDataBits w0 \<and> w_iCurBit w = w_iCurBit w0 + int (length bs)"
  by (auto simp: pending_def emits_def)

lemma WriteDWordLoop_pending:
  assumes "0 < s" "s < 32" and "0 \<le> w_iCurBit w0"
  shows "pending w0 bs w d out s \<Longrightarrow> w_iCurBit w + int n \<le> w_nDataBits w \<Longrightarrow> n \<le> 8 * length pIn \<Longrightarrow>
     \<exists>w1 d1 out1 k. WriteDWordLoop s w d out pIn n = Some (w1, d1, out1, drop (4 * k) pIn, n - 32 * k) \<and>
       32 * k \<le> n \<and> pending w0 (bs @ block_bits pIn (32 * k)) w1 d1 out1 s"
proof (induction n arbitrary: bs w d out pIn rule: less_induct)
  case (less n)
  show ?case
  proof (cases "32 + (32 - s) \<le> n")
    case False
    then have "WriteDWordLoop s w d out pIn n = Some (w, d, out, pIn, n)"
      by (subst WriteDWordLoop.simps) simp
    with less.prems(1) show ?thesis by (auto intro!: exI [of _ 0])
  next
    case True
    then have len: "4 \<le> length pIn" using less.prems(3) assms(2) by linarith
    then obtain cd where cd: "LoadLittleDWord pIn 0 = Some cd" by (simp add: LoadLittleDWord_def)
    have fits: "w_iCurBit w + 32 + int (n - 32) \<le> w_nDataBits w" "0 < n - 32"
      using True less.prems(2) assms by auto
    from pending_step [OF less.prems(1) assms(1,2) fits cd assms(3)] obtain buf where
      st: "StoreLittleDWord (w_pData w) d (out OR push_bit s cd) = Some buf"
      and p: "pending w0 (bs @ block_bits pIn 32) (w\<lparr>w_pData := buf, w_iCurBit := int32 (w_iCurBit w + 32)\<rparr>) (d + 1)
         (drop_bit (32 - s) cd) s" by blast
    let ?w = "w\<lparr>w_pData := buf, w_iCurBit := int32 (w_iCurBit w + 32)\<rparr>"
    have i32: "int32 (w_iCurBit w + 32) = w_iCurBit w + 32"
      using less.prems(1) by (intro int32_id) (auto simp: pending_def emits_def wr_inv_def)
    have "n - 32 < n" using True by linarith
    moreover have "w_iCurBit ?w + int (n - 32) \<le> w_nDataBits ?w" using fits i32 by simp
    moreover have "n - 32 \<le> 8 * length (drop 4 pIn)" using less.prems(3) by simp
    ultimately obtain w1 d1 out1 k where
      k: "WriteDWordLoop s ?w (d + 1) (drop_bit (32 - s) cd) (drop 4 pIn) (n - 32) =
          Some (w1, d1, out1, drop (4 * k) (drop 4 pIn), n - 32 - 32 * k)" "32 * k \<le> n - 32"
        "pending w0 ((bs @ block_bits pIn 32) @ block_bits (drop 4 pIn) (32 * k)) w1 d1 out1 s"
      using less.IH [OF _ p, of "n - 32" "drop 4 pIn"] by blast
    have "block_bits pIn (32 * Suc k) = block_bits pIn 32 @ block_bits (drop 4 pIn) (32 * k)"
      using block_bits_split [of 4 pIn "32 * k"] len by simp
    moreover have "WriteDWordLoop s w d out pIn n = Some (w1, d1, out1, drop (4 * Suc k) pIn, n - 32 * Suc k)"
      using True cd st k(1) by (subst WriteDWordLoop.simps) (simp add: Let_def algebra_simps)
    ultimately show ?thesis using k(2,3) True by (intro exI [of _ w1] exI [of _ d1] exI [of _ out1] exI [of _ "Suc k"]) simp
  qed
qed

lemma WriteDWords_copied:
  assumes r: "room w n" "n \<le> 8 * length pIn" "32 \<le> n" and un: "w_iCurBit w mod 8 \<noteq> 0"
  shows "\<exists>w1 pIn1 n1. WriteDWords w pIn n = Some (w1, pIn1, n1) \<and> copied w pIn n w1 pIn1 n1"
proof -
  from roomD [OF r(1)] obtain c where c: "w_iCurBit w = int c" and inv: "wr_inv w"
    and no: "\<not> w_bOverflow w" and fits: "int c + int n \<le> w_nDataBits w" by blast
  define d s where "d = c div 32" and "s = c mod 32"
  have cs: "c = 32 * d + s" and s32: "s < 32" by (simp_all add: d_def s_def)
  have "int c mod 8 \<noteq> 0" using un c by simp
  then have "c mod 8 \<noteq> 0" by (intro notI) (auto simp: mod_eq_0_iff_dvd)
  then have "s mod 8 \<noteq> 0" by (simp add: s_def mod_32_mod_8)
  then have s0: "0 < s" by (cases s) auto
  have idx: "nat (w_iCurBit w div 32) = d" "nat (w_iCurBit w mod 32) = s"
    by (simp_all add: d_def s_def c nat_div_distrib nat_mod_distrib)
  have q: "4 * d + 4 \<le> length (w_pData w)"
    by (rule dword_fits [OF inv, of "c + n"]) (use fits cs r(3) in auto)
  define dw where "dw = dword_at (w_pData w) (4 * d)"
  have ld: "LoadLittleDWord (w_pData w) d = Some dw" using q by (simp add: dw_def LoadLittleDWord_some)
  let ?out = "dw AND BitWriteMask s 32"
  have out: "bit ?out j \<longleftrightarrow> j < s \<and> buf_bit (w_pData w) (32 * d + j)" for j
  proof (cases "j < 32")
    case True
    then show ?thesis using s32 by (auto simp: bit_and_iff bit_BitWriteMask bit_LoadLittleDWord [OF ld])
  next
    case False
    then show ?thesis using s32 bit_32_less [of ?out j] by auto
  qed
  from StoreLittleDWord_some [OF q, of ?out] obtain b where
    st: "StoreLittleDWord (w_pData w) d ?out = Some b" "length b = length (w_pData w)" by blast
  have "buf_bit b i = buf_bit (w_pData w) i" if "i < c" for i
  proof (cases "i div 32 = d")
    case True
    from dword_pos [OF this] that have "i mod 32 < s" "32 * d + i mod 32 = i" using cs by linarith+
    with True out [of "i mod 32"] show ?thesis by (simp add: buf_bit_StoreLittleDWord [OF st(1)])
  qed (simp add: buf_bit_StoreLittleDWord [OF st(1)])
  then have "emits w [] (w\<lparr>w_pData := b\<rparr>)"
    using inv no st(2) c by (simp add: emits_def wr_inv_def)
  then have p0: "pending w [] w d ?out s"
    using st(1) out c cs by (simp add: pending_def)
  have c0: "0 \<le> w_iCurBit w" using c by simp
  have f0: "w_iCurBit w + int n \<le> w_nDataBits w" using fits c by simp
  from WriteDWordLoop_pending [OF s0 s32 c0 p0 f0 r(2)] obtain w1 d1 out1 k where
    lp: "WriteDWordLoop s w d ?out pIn n = Some (w1, d1, out1, drop (4 * k) pIn, n - 32 * k)"
    and k: "32 * k \<le> n" and p1: "pending w ([] @ block_bits pIn (32 * k)) w1 d1 out1 s" by blast
  from p1 obtain b1 where b1: "StoreLittleDWord (w_pData w1) d1 out1 = Some b1"
    "emits w (block_bits pIn (32 * k)) (w1\<lparr>w_pData := b1\<rparr>)" by (auto simp: pending_def)
  let ?w1 = "w1\<lparr>w_pData := b1\<rparr>"
  have ck: "copied w pIn n ?w1 (drop (4 * k) pIn) (n - 32 * k)"
    using b1(2) k r(2) by (auto simp: copied_def intro!: exI [of _ "4 * k"])
  note r1 = copied_room [OF ck r(1,2)]
  have run: "WriteDWords w pIn n =
      (if 32 \<le> n - 32 * k then do {
         curData \<leftarrow> LoadLittleDWord (drop (4 * k) pIn) 0;
         w \<leftarrow> WriteUBitLong ?w1 curData 32;
         Some (w, drop 4 (drop (4 * k) pIn), n - 32 * k - 32) }
       else Some (?w1, drop (4 * k) pIn, n - 32 * k))"
    by (simp add: WriteDWords_def idx ld lp b1(1) Let_def del: drop_drop)
  show ?thesis
  proof (cases "32 \<le> n - 32 * k")
    case False
    then show ?thesis using run ck by auto
  next
    case True
    let ?p = "drop (4 * k) pIn" and ?n = "n - 32 * k"
    have len: "4 \<le> length ?p" using True r1(2) by linarith
    then obtain cd where cd: "LoadLittleDWord ?p 0 = Some cd" by (simp add: LoadLittleDWord_def)
    from WriteUBitLong_emits [OF room_mono [OF r1(1) True], of cd] obtain w2 where
      w2: "WriteUBitLong ?w1 cd 32 = Some w2" "emits ?w1 (ubits 32 cd) w2" by auto
    have "ubits 32 cd = block_bits ?p (8 * 4)"
      by (rule nth_equalityI) (simp_all add: bit_LoadLittleDWord [OF cd])
    then have "copied ?w1 ?p ?n w2 (drop 4 ?p) (?n - 32)"
      using w2(2) True len by (auto simp: copied_def intro!: exI [of _ 4])
    from copied_trans [OF ck this c0] show ?thesis using run True cd w2(1) by auto
  qed
qed

lemma WriteBits_emits:
  assumes r: "room w n" "n \<le> 8 * length pIn"
  shows "\<exists>w'. WriteBits w addr pIn (int n) = Some (True, w') \<and> emits w (block_bits pIn n) w'"
proof -
  have c: "0 \<le> w_iCurBit w" by (rule room_cur [OF r(1)])
  from WriteAlignLoop_copied [OF r, of addr] obtain w1 p1 n1 where
    a: "WriteAlignLoop addr w pIn n = Some (w1, p1, n1)" "copied w pIn n w1 p1 n1" by blast
  note r1 = copied_room [OF a(2) r]
  let ?mid = "if 32 \<le> n1 then
             (if w_iCurBit w1 mod 8 = 0 then do {
                let numbytes = n1 div 8;
                w \<leftarrow> memcpy_in w1 p1 numbytes;
                Some (w, drop numbytes p1, n1 - 8 * numbytes) }
              else WriteDWords w1 p1 n1)
           else Some (w1, p1, n1)"
  have "\<exists>w2 p2 n2. ?mid = Some (w2, p2, n2) \<and> copied w1 p1 n1 w2 p2 n2"
  proof (cases "32 \<le> n1")
    case False
    then show ?thesis using copied_refl [OF r1(1)] by auto
  next
    case big: True
    show ?thesis
    proof (cases "w_iCurBit w1 mod 8 = 0")
      case True
      from memcpy_in_copied [OF r1(1,2) True refl] show ?thesis using big True by (auto simp: Let_def)
    next
      case False
      from WriteDWords_copied [OF r1(1,2) big False] show ?thesis using big False by auto
    qed
  qed
  then obtain w2 p2 n2 where m: "?mid = Some (w2, p2, n2)" "copied w1 p1 n1 w2 p2 n2" by blast
  note r2 = copied_room [OF m(2) r1(1,2)]
  from WriteByteLoop_copied [OF r2(1,2)] obtain w3 p3 n3 where
    b: "WriteByteLoop w2 p2 n2 = Some (w3, p3, n3)" "copied w2 p2 n2 w3 p3 n3" "n3 < 8" by blast
  note r3 = copied_room [OF b(2) r2(1,2)]
  from copied_trans [OF copied_trans [OF a(2) m(2) c] b(2) c] obtain k where
    k: "k \<le> length pIn" "p3 = drop k pIn" "8 * k + n3 = n" "emits w (block_bits pIn (8 * k)) w3"
    by (auto simp: copied_def)
  have "int32 (w_iCurBit w + int n) = w_iCurBit w + int n"
    using r(1) by (intro int32_id) (auto simp: room_def wr_inv_def)
  then have fit: "\<not> w_nDataBits w < int32 (w_iCurBit w + int n)" using r(1) by (simp add: room_def)
  have run: "WriteBits w addr pIn (int n) =
      (do { w \<leftarrow> (if n3 \<noteq> 0 then (case p3 of [] \<Rightarrow> None | b # _ \<Rightarrow> WriteUBitLong w3 (ucast b) n3) else Some w3);
            Some (\<not> w_bOverflow w, w) })"
    using fit a(1) m(1) b(1) by (simp add: WriteBits_def del: fun_upd_apply)
  show ?thesis
  proof (cases "n3 = 0")
    case True
    then show ?thesis using run k by (auto simp: emits_def)
  next
    case False
    with r3(2) obtain x xs where p3: "p3 = x # xs" by (cases p3) auto
    from WriteUBitLong_emits [OF r3(1), of "ucast x"] False b(3) obtain w4 where
      w4: "WriteUBitLong w3 (ucast x) n3 = Some w4" "emits w3 (ubits n3 (ucast x :: u32)) w4" by auto
    have "block_bits pIn n = block_bits pIn (8 * k) @ ubits n3 (ucast x :: u32)"
      using block_bits_split [OF k(1), of n3] k(3) b(3) unfolding k(2) [symmetric] p3
      by (simp add: block_bits_ubits ubits_ucast)
    with emits_trans [OF k(4) w4(2) c] have "emits w (block_bits pIn n) w4" by simp
    then show ?thesis using run False p3 w4(1) by (auto simp: emits_def)
  qed
qed

section \<open>Reading blocks\<close>

lemma byte_bits_take_drop: "byte_bits bs = byte_bits (take k bs) @ byte_bits (drop k bs)"
  by (metis append_take_drop_id byte_bits_append)

lemma sees_drop:
  assumes "sees r p (byte_bits bs)" "k \<le> length bs" "took r p (8 * k) r1"
  shows "sees r1 (p + 8 * k) (byte_bits (drop k bs))"
  using sees_append2 [of r p "byte_bits (take k bs)" "byte_bits (drop k bs)" r1] assms
  by (simp add: byte_bits_take_drop [symmetric])

lemma ucast_byte: "(ucast (ucast (b :: u8) :: u32) :: u8) = b"
  by (rule bit_word_eqI) (simp add: bit_unsigned_iff)

lemma ReadAlignLoop_sees:
  assumes "sees r p (byte_bits bs)"
  shows "\<exists>r1 k. ReadAlignLoop addr r acc (8 * length bs) = Some (r1, acc @ take k bs, 8 * length (drop k bs)) \<and>
     k \<le> length bs \<and> took r p (8 * k) r1"
  using assms
proof (induction bs arbitrary: addr r p acc)
  case Nil
  then show ?case by (subst ReadAlignLoop.simps) (auto simp: took_def sees_def)
next
  case (Cons b bs)
  show ?case
  proof (cases "addr mod 4 = 0")
    case True
    then show ?thesis using Cons.prems
      by (subst ReadAlignLoop.simps) (auto simp: took_def sees_def intro!: exI [of _ 0])
  next
    case False
    have s: "sees r p (ubits 8 b @ byte_bits bs)" using Cons.prems by simp
    from ReadUBitLong_byte [OF sees_append1 [OF s]] obtain r1 where
      r1: "ReadUBitLong r 8 = Some (ucast b, r1)" "took r p 8 r1" by blast
    have "sees r1 (p + 8) (byte_bits bs)" using sees_append2 [OF s] r1(2) by simp
    from Cons.IH [OF this, of "addr + 1" "acc @ [b]"] obtain r2 k where
      k: "ReadAlignLoop (addr + 1) r1 (acc @ [b]) (8 * length bs) = Some (r2, (acc @ [b]) @ take k bs, 8 * length (drop k bs))"
      "k \<le> length bs" "took r1 (p + 8) (8 * k) r2" by blast
    have "(ucast (ucast b :: u32) :: u8) = b" by (rule ucast_byte)
    then have "ReadAlignLoop addr r acc (8 * length (b # bs)) =
        Some (r2, acc @ take (Suc k) (b # bs), 8 * (length (b # bs) - Suc k))"
      using False r1(1) k(1) by (subst ReadAlignLoop.simps) simp
    moreover have "took r p (8 * Suc k) r2" using took_trans [OF r1(2) k(3)] by simp
    ultimately show ?thesis using k(2) by (intro exI [of _ r2] exI [of _ "Suc k"]) simp
  qed
qed

lemma ReadByteLoop_sees:
  assumes "sees r p (byte_bits bs)"
  shows "\<exists>r1. ReadByteLoop r acc (8 * length bs) = Some (r1, acc @ bs, 0) \<and> took r p (8 * length bs) r1"
  using assms
proof (induction bs arbitrary: r p acc)
  case Nil
  then show ?case by (subst ReadByteLoop.simps) (auto simp: took_def sees_def)
next
  case (Cons b bs)
  have s: "sees r p (ubits 8 b @ byte_bits bs)" using Cons.prems by simp
  from ReadUBitLong_byte [OF sees_append1 [OF s]] obtain r1 where
    r1: "ReadUBitLong r 8 = Some (ucast b, r1)" "took r p 8 r1" by blast
  have "sees r1 (p + 8) (byte_bits bs)" using sees_append2 [OF s] r1(2) by simp
  from Cons.IH [OF this, of "acc @ [b]"] obtain r2 where
    k: "ReadByteLoop r1 (acc @ [b]) (8 * length bs) = Some (r2, (acc @ [b]) @ bs, 0)"
    "took r1 (p + 8) (8 * length bs) r2" by blast
  have "(ucast (ucast b :: u32) :: u8) = b" by (rule ucast_byte)
  then show ?case using r1(1) k(1) took_trans [OF r1(2) k(2)]
    by (subst ReadByteLoop.simps) (auto simp: algebra_simps)
qed

lemma dword_bytes_bits:
  assumes v: "\<And>j. bit v j \<longleftrightarrow> j < 32 \<and> byte_bits [b0, b1, b2, b3] ! j"
  shows "dword_bytes v = [b0, b1, b2, b3]"
proof -
  have "bit v (8 * q + m) = bit ([b0, b1, b2, b3] ! q) m" if "q < 4" "m < 8" for q m
    using that less_4_cases [OF that(1)] by (auto simp: v nth_append)
  from this [of 0] this [of 1] this [of 2] this [of 3] show ?thesis
    by (auto simp: dword_bytes_def bit_simps intro!: bit_word_eqI)
qed

lemma ReadDWordLoop_sees:
  assumes "sees r p (byte_bits bs)"
  shows "\<exists>r1 k. ReadDWordLoop r acc (8 * length bs) = Some (r1, acc @ take k bs, 8 * length (drop k bs)) \<and>
     k \<le> length bs \<and> took r p (8 * k) r1"
  using assms
proof (induction bs arbitrary: r p acc rule: length_induct)
  case (1 bs)
  show ?case
  proof (cases "4 \<le> length bs")
    case False
    then have "ReadDWordLoop r acc (8 * length bs) = Some (r, acc, 8 * length bs)"
      by (subst ReadDWordLoop.simps) simp
    then show ?thesis using 1(2) by (auto simp: took_def sees_def intro!: exI [of _ 0])
  next
    case True
    then obtain b0 b1 b2 b3 cs where bs: "bs = b0 # b1 # b2 # b3 # cs"
      by (auto simp: numeral_eq_Suc Suc_le_length_iff)
    let ?q = "[b0, b1, b2, b3]"
    have s: "sees r p (byte_bits ?q @ byte_bits cs)" using 1(2) by (simp add: bs)
    from ReadUBitLong_sees [OF sees_append1 [OF s], of 32] obtain v r1 where
      r1: "ReadUBitLong r 32 = Some (v, r1)" "took r p 32 r1"
      and v: "\<And>j. bit v j \<longleftrightarrow> j < 32 \<and> byte_bits ?q ! j" by auto
    have "sees r1 (p + 32) (byte_bits cs)" using sees_append2 [OF s] r1(2) by simp
    moreover have "length cs < length bs" by (simp add: bs)
    ultimately obtain r2 k where
      k: "ReadDWordLoop r1 (acc @ ?q) (8 * length cs) = Some (r2, (acc @ ?q) @ take k cs, 8 * length (drop k cs))"
      "k \<le> length cs" "took r1 (p + 32) (8 * k) r2" using 1(1) by blast
    have "ReadDWordLoop r acc (8 * length bs) = Some (r2, acc @ ?q @ take k cs, 8 * length (drop k cs))"
      using r1(1) k(1) dword_bytes_bits [OF v] unfolding bs by (subst ReadDWordLoop.simps) simp
    moreover have "took r p (8 * (k + 4)) r2" using took_trans [OF r1(2) k(3)] by (simp add: add.commute)
    moreover have "take (k + 4) bs = ?q @ take k cs" "drop (k + 4) bs = drop k cs" "k + 4 \<le> length bs"
      using k(2) by (simp_all add: bs numeral_eq_Suc)
    ultimately show ?thesis by (metis append_assoc)
  qed
qed

lemma ReadBits_sees:
  assumes "sees r p (byte_bits bs)"
  shows "\<exists>r'. ReadBits r addr (int (8 * length bs)) = Some (bs, r') \<and> took r p (8 * length bs) r'"
proof -
  from ReadAlignLoop_sees [OF assms, of addr "[]"] obtain r1 k where
    a: "ReadAlignLoop addr r [] (8 * length bs) = Some (r1, take k bs, 8 * length (drop k bs))"
      "k \<le> length bs" "took r p (8 * k) r1" unfolding append_Nil by blast
  from ReadDWordLoop_sees [OF sees_drop [OF assms a(2,3)], of "take k bs"] obtain r2 k2 where
    b: "ReadDWordLoop r1 (take k bs) (8 * length (drop k bs)) =
        Some (r2, take k bs @ take k2 (drop k bs), 8 * length (drop k2 (drop k bs)))"
      "k2 \<le> length (drop k bs)" "took r1 (p + 8 * k) (8 * k2) r2" by blast
  from ReadByteLoop_sees [OF sees_drop [OF sees_drop [OF assms a(2,3)] b(2,3)],
      of "take k bs @ take k2 (drop k bs)"] obtain r3 where
    c: "ReadByteLoop r2 (take k bs @ take k2 (drop k bs)) (8 * length (drop k2 (drop k bs))) = Some (r3, bs, 0)"
      "took r2 (p + 8 * k + 8 * k2) (8 * length (drop k2 (drop k bs))) r3"
    by (auto simp only: append_assoc append_take_drop_id)
  have "took r p (8 * k + (8 * k2 + 8 * length (drop k2 (drop k bs)))) r3"
    using took_trans [OF a(3) took_trans [OF b(3) c(2)]] .
  moreover have "8 * k + (8 * k2 + 8 * length (drop k2 (drop k bs))) = 8 * length bs"
    using a(2) b(2) by simp
  moreover have "nat (int (8 * length bs)) = 8 * length bs" by (rule nat_int)
  ultimately show ?thesis using a(1) b(1) c(1) by (simp add: ReadBits_def del: length_drop drop_drop of_nat_mult)
qed

section \<open>Strings\<close>

lemma sint_scast_neg: "sint (scast (c :: u8) :: u32) < 0 \<longleftrightarrow> bit c 7"
proof -
  have "sint (scast c :: u32) < 0 \<longleftrightarrow> bit (scast c :: u32) 31"
    using bit_last_iff [of "scast c :: u32"] by simp
  also have "\<dots> \<longleftrightarrow> bit c 7" by (simp add: bit_signed_iff min_def)
  finally show ?thesis .
qed

lemma sbits_char: "sbits 8 (scast (c :: u8)) = ubits 8 c"
proof (rule nth_equalityI)
  fix i assume "i < length (sbits 8 (scast c :: u32))"
  then consider "i < 7" | "i = 7" by fastforce
  then show "sbits 8 (scast c :: u32) ! i = ubits 8 c ! i"
    by cases (simp_all add: sbits_def nth_append sint_scast_neg bit_signed_iff min_def)
qed simp

lemma WriteChar_emits:
  assumes "room w (8 + n)"
  shows "\<exists>w'. WriteChar w (scast (c :: u8)) = Some w' \<and> emits w (ubits 8 c) w' \<and> room w' n"
proof -
  from WriteSBitLong_emits [OF room_mono [OF assms], of 8 "scast c"] obtain w' where
    w': "WriteSBitLong w (scast c) 8 = Some w'" "emits w (sbits 8 (scast c)) w'" by (auto simp: sbits_def)
  have e: "emits w (ubits 8 c) w'" using w'(2) unfolding sbits_char .
  have "room w' n" by (rule emits_room [OF e]) (use assms in simp)
  with w'(1) e show ?thesis by (auto simp: WriteChar_def)
qed

lemma WriteStringLoop_emits:
  assumes "0 \<notin> set s" and "room w (8 * (length s + 1))"
  shows "\<exists>w'. WriteStringLoop w (s @ 0 # rest) = Some w' \<and> emits w (byte_bits (s @ [0])) w'"
  using assms
proof (induction s arbitrary: w)
  case Nil
  with WriteChar_emits [of w 0 0] show ?case by auto
next
  case (Cons c s)
  have "room w (8 + 8 * (length s + 1))" using Cons.prems(2) by simp
  from WriteChar_emits [OF this, of c] obtain w1 where
    w1: "WriteChar w (scast c) = Some w1" "emits w (ubits 8 c) w1" "room w1 (8 * (length s + 1))" by auto
  from Cons.IH [OF _ w1(3)] Cons.prems(1) obtain w2 where
    w2: "WriteStringLoop w1 (s @ 0 # rest) = Some w2" "emits w1 (byte_bits (s @ [0])) w2" by auto
  then show ?case
    using w1(1) Cons.prems emits_trans [OF w1(2) w2(2) room_cur [OF Cons.prems(2)]] by auto
qed

lemma WriteString_emits:
  assumes "0 \<notin> set s" and "room w (8 * (length s + 1))"
  shows "\<exists>w'. WriteString w (Some (s @ 0 # rest)) = Some (True, w') \<and> emits w (byte_bits (s @ [0])) w'"
  using WriteStringLoop_emits [OF assms, of rest] by (auto simp: WriteString_def emits_def)

lemma ReadChar_sees:
  assumes "sees r p (ubits 8 (c :: u8))"
  shows "\<exists>v r'. ReadChar r = Some (v, r') \<and> ucast v = c \<and> took r p 8 r'"
proof -
  have "sees r p (sbits 8 (scast c :: u32))" using assms by (simp only: sbits_char)
  moreover have "- (2 ^ 7) \<le> sint c" "sint c < 2 ^ 7" using sint_ge [of c] sint_lt [of c] by simp_all
  then have "- (2 ^ (8 - 1)) \<le> sint (scast c :: u32)" "sint (scast c :: u32) < 2 ^ (8 - 1)"
    by (simp_all add: signed_scast_eq signed_take_bit_int_eq_self)
  ultimately obtain r' where "ReadSBitLong r 8 = Some (scast c, r')" "took r p 8 r'"
    using ReadSBitLong_sbits [of r p 8 "scast c"] by auto
  moreover have "(ucast (scast c :: u32) :: u8) = c"
  proof (rule bit_word_eqI)
    fix n assume "n < LENGTH(8)"
    then consider "n < 7" | "n = 7" by fastforce
    then show "bit (ucast (scast c :: u32) :: u8) n = bit c n"
      by cases (simp_all add: bit_unsigned_iff bit_signed_iff min_def)
  qed
  ultimately show ?thesis by (auto simp: ReadChar_def)
qed

text \<open>Where a string ends: at a zero, and in line mode at a newline.\<close>

definition str_end :: "bool \<Rightarrow> 'a::len word \<Rightarrow> bool" where
  "str_end bLine c \<longleftrightarrow> c = 0 \<or> (bLine \<and> c = 10)"

lemma ReadCharsLoop_sees:
  assumes "\<forall>c \<in> set s. \<not> str_end bLine c" and "str_end bLine t"
    and "sees r p (byte_bits (s @ [t]))" and "length acc \<le> maxLen - 1"
  shows "\<exists>r'. ReadCharsLoop ReadChar maxLen bLine r acc small =
       Some (acc @ take (maxLen - 1 - length acc) s, small \<or> maxLen - 1 - length acc < length s, r') \<and>
     took r p (8 * (length s + 1)) r'"
  using assms
proof (induction s arbitrary: r p acc small)
  case Nil
  from ReadChar_sees [of r p t] Nil obtain v r' where
    v: "ReadChar r = Some (v, r')" "ucast v = t" "took r p 8 r'" by auto
  then show ?case using Nil.prems(2)
    by (subst ReadCharsLoop.simps) (auto simp: str_end_def Let_def)
next
  case (Cons c s)
  have s: "sees r p (ubits 8 c @ byte_bits (s @ [t]))" using Cons.prems(3) by simp
  from ReadChar_sees [OF sees_append1 [OF s]] obtain v r1 where
    v: "ReadChar r = Some (v, r1)" "ucast v = c" "took r p 8 r1" by blast
  have s1: "sees r1 (p + 8) (byte_bits (s @ [t]))" using sees_append2 [OF s] v(3) by simp
  have e: "c \<noteq> 0" "\<not> (bLine \<and> c = 10)" "\<forall>c \<in> set s. \<not> str_end bLine c"
    using Cons.prems(1) by (auto simp: str_end_def)
  show ?case
  proof (cases "length acc < maxLen - 1")
    case True
    then have "length (acc @ [c]) \<le> maxLen - 1" by simp
    from Cons.IH [OF e(3) Cons.prems(2) s1 this, of small] obtain r2 where
      r2: "ReadCharsLoop ReadChar maxLen bLine r1 (acc @ [c]) small =
         Some ((acc @ [c]) @ take (maxLen - 1 - length (acc @ [c])) s,
           small \<or> maxLen - 1 - length (acc @ [c]) < length s, r2)"
      "took r1 (p + 8) (8 * (length s + 1)) r2" by blast
    have "maxLen - 1 - length acc = Suc (maxLen - 1 - length (acc @ [c]))" using True by simp
    then show ?thesis using v e r2 True took_trans [OF v(3) r2(2)]
      by (subst ReadCharsLoop.simps) (auto simp: Let_def)
  next
    case False
    then have "maxLen - 1 - length acc = 0" by simp
    with Cons.IH [OF e(3) Cons.prems(2) s1 Cons.prems(4), of True] obtain r2 where
      r2: "ReadCharsLoop ReadChar maxLen bLine r1 acc True = Some (acc, True, r2)"
      "took r1 (p + 8) (8 * (length s + 1)) r2" by auto
    then show ?thesis using v e False took_trans [OF v(3) r2(2)]
      by (subst ReadCharsLoop.simps) (auto simp: Let_def)
  qed
qed

lemma ReadString_sees:
  assumes "\<forall>c \<in> set s. \<not> str_end bLine c" and "str_end bLine t" and "sees r p (byte_bits (s @ [t]))"
  shows "\<exists>r'. ReadString r maxLen bLine = Some (length s \<le> maxLen - 1, take (maxLen - 1) s @ [0], r') \<and>
     took r p (8 * (length s + 1)) r'"
  using ReadCharsLoop_sees [OF assms, of "[]" maxLen False]
  by (auto simp: ReadString_def took_def rd_at_def not_less)

subsection \<open>The read loop ends\<close>

lemma ReadSBitLong_dead:
  assumes "rd_dead r"
  shows "\<exists>r'. ReadSBitLong r n = Some (0, r') \<and> rd_dead r' \<and> rd_same r r'"
  using ReadUBitLong_dead [OF assms, of n] by (auto simp: ReadSBitLong_def)

lemma ReadCharsLoop_dead:
  assumes "rd_dead r"
  shows "\<exists>r'. ReadCharsLoop ReadChar maxLen bLine r acc small = Some (acc, small, r') \<and> rd_dead r'"
  using ReadSBitLong_dead [OF assms, of 8]
  by (subst ReadCharsLoop.simps) (auto simp: ReadChar_def Let_def)

lemma ReadCharsLoop_ends:
  assumes "rd_at r p" and "p \<le> 8 * length (r_pData r)" and "length acc \<le> maxLen - 1"
  shows "\<exists>s small' r'. ReadCharsLoop ReadChar maxLen bLine r acc small = Some (s, small', r') \<and>
     length s \<le> maxLen - 1 \<and> (rd_dead r' \<or> (\<exists>q. rd_at r' q))"
  using assms
proof (induction "8 * length (r_pData r) - p" arbitrary: r p acc small rule: less_induct)
  case less
  show ?case
  proof (cases "p + 8 \<le> 8 * length (r_pData r)")
    case True
    from ReadUBitLong_at [OF less.prems(1) _ _ True] obtain u r1 where
      r1: "ReadUBitLong r 8 = Some (u, r1)" "rd_at r1 (p + 8)" "rd_same r r1" by auto
    let ?v = "signed_drop_bit 24 (push_bit 24 u)"
    have c: "ReadChar r = Some (?v, r1)" using r1(1) by (simp add: ReadChar_def ReadSBitLong_def)
    have S: "r_pData r1 = r_pData r" using r1(3) by (simp add: rd_same_def)
    have "8 * length (r_pData r1) - (p + 8) < 8 * length (r_pData r) - p" using True S by simp
    note IH = less.hyps [OF this r1(2)]
    have le: "p + 8 \<le> 8 * length (r_pData r1)" using True S by simp
    show ?thesis
    proof (cases "length acc < maxLen - 1")
      case True
      then show ?thesis
        using c less.prems(3) r1(2) IH [OF le, of "acc @ [ucast ?v]" small]
        by (subst ReadCharsLoop.simps) (auto simp: Let_def)
    next
      case False
      then show ?thesis
        using c less.prems(3) r1(2) IH [OF le, of acc True]
        by (subst ReadCharsLoop.simps) (auto simp: Let_def)
    qed
  next
    case False
    from ReadUBitLong_past [OF less.prems(1), of 8] False obtain r1 where
      r1: "ReadUBitLong r 8 = Some (0, r1)" "rd_dead r1" by auto
    then have "ReadChar r = Some (0, r1)" by (simp add: ReadChar_def ReadSBitLong_def)
    then show ?thesis using r1(2) less.prems(3)
      by (subst ReadCharsLoop.simps) (auto simp: Let_def)
  qed
qed

end
