(* ===== verification/BitMessage.thy ===== *)
theory BitMessage
  imports BitBlock
begin

text \<open>
  Messages: sequences of fields written to a bit stream and read back, and the properties of the
  streams as a whole. A \<open>field\<close> is a value with the operation that writes it; its \<open>field_type\<close> is
  what the reader has to know, the operation and its arguments. The codec interface is interpreted
  on them here.
\<close>

section \<open>Copying from one stream to another\<close>

text \<open>\<open>WriteBitsFromBuffer\<close>: 32 bits at a time, then the rest, which may be none.\<close>

fun WriteBitsFromBuffer :: "bf_write \<Rightarrow> bf_read \<Rightarrow> nat \<Rightarrow> (bool \<times> bf_write \<times> bf_read) option" where
  "WriteBitsFromBuffer w r nBits =
     (if nBits > 32 then do {
        (v, r) \<leftarrow> ReadUBitLong r 32;
        w \<leftarrow> WriteUBitLong w v 32;
        WriteBitsFromBuffer w r (nBits - 32) }
      else do {
        (v, r) \<leftarrow> ReadUBitLong r nBits;
        w \<leftarrow> WriteUBitLong w v nBits;
        Some (\<not> w_bOverflow w \<and> \<not> r_bOverflow r, w, r) })"

declare WriteBitsFromBuffer.simps [simp del]

text \<open>The bits the reader is about to read.\<close>

definition bits_from :: "bf_read \<Rightarrow> nat \<Rightarrow> nat \<Rightarrow> bool list" where
  "bits_from r p n = map (\<lambda>k. buf_bit (r_pData r) (p + k)) [0..<n]"

lemma bits_from_split: "bits_from r p (m + n) = bits_from r p m @ bits_from r (p + m) n"
  by (rule nth_equalityI) (auto simp: bits_from_def nth_append)

lemma bits_from_same: "rd_same r r' \<Longrightarrow> bits_from r' p n = bits_from r p n"
  by (simp add: bits_from_def rd_same_def)

lemma read_write_step:
  assumes at: "rd_at r p" and n: "0 < n" "n \<le> 32" and fits: "p + n \<le> 8 * length (r_pData r)"
    and room: "room w (n + m)"
  shows "\<exists>v r' w'. ReadUBitLong r n = Some (v, r') \<and> WriteUBitLong w v n = Some w' \<and>
     rd_at r' (p + n) \<and> rd_same r r' \<and> emits w (bits_from r p n) w' \<and> room w' m"
proof -
  from ReadUBitLong_at [OF at n fits] obtain v r' where
    r: "ReadUBitLong r n = Some (v, r')" "rd_at r' (p + n)" "rd_same r r'" "rd_word (r_pData r) p n v" by blast
  from WriteUBitLong_emits [OF room_mono [OF room] n, of v] obtain w' where
    w: "WriteUBitLong w v n = Some w'" "emits w (ubits n v) w'" by auto
  have "ubits n v = bits_from r p n"
    using r(4) by (simp add: ubits_def bits_from_def rd_word_def)
  moreover have "room w' m" by (rule emits_room [OF w(2)]) (use room in simp)
  ultimately show ?thesis using r(1,2,3) w by auto
qed

lemma WriteBitsFromBuffer_emits:
  "rd_at r p \<Longrightarrow> p + n \<le> 8 * length (r_pData r) \<Longrightarrow> room w n \<Longrightarrow> 0 < n \<Longrightarrow>
    \<exists>w' r'. WriteBitsFromBuffer w r n = Some (True, w', r') \<and> emits w (bits_from r p n) w' \<and>
      rd_at r' (p + n) \<and> rd_same r r'"
proof (induction n arbitrary: w r p rule: less_induct)
  case (less n)
  show ?case
  proof (cases "32 < n")
    case False
    have "room w (n + 0)" using less.prems(3) by simp
    from read_write_step [OF less.prems(1,4) _ less.prems(2) this] False show ?thesis
      by (subst WriteBitsFromBuffer.simps) (auto simp: emits_def rd_at_def)
  next
    case True
    have fits: "p + 32 \<le> 8 * length (r_pData r)" using True less.prems(2) by simp
    have "room w (32 + (n - 32))" using True less.prems(3) by simp
    from read_write_step [OF less.prems(1) _ _ fits this] obtain v r1 w1 where
      s: "ReadUBitLong r 32 = Some (v, r1)" "WriteUBitLong w v 32 = Some w1" "rd_at r1 (p + 32)"
        "rd_same r r1" "emits w (bits_from r p 32) w1" "room w1 (n - 32)" by auto
    have "p + 32 + (n - 32) \<le> 8 * length (r_pData r1)"
      using True less.prems(2) s(4) by (simp add: rd_same_def)
    from less.IH [OF _ s(3) this s(6)] True obtain w2 r2 where
      t: "WriteBitsFromBuffer w1 r1 (n - 32) = Some (True, w2, r2)" "emits w1 (bits_from r1 (p + 32) (n - 32)) w2"
        "rd_at r2 (p + 32 + (n - 32))" "rd_same r1 r2" by auto
    have "bits_from r p n = bits_from r p 32 @ bits_from r1 (p + 32) (n - 32)"
      using bits_from_split [of r p 32 "n - 32"] bits_from_same [OF s(4)] True by simp
    moreover have "emits w (bits_from r p 32 @ bits_from r1 (p + 32) (n - 32)) w2"
      by (rule emits_trans [OF s(5) t(2) room_cur [OF less.prems(3)]])
    ultimately show ?thesis using True s(1,2) t(1,3) rd_same_trans [OF s(4) t(4)]
      by (subst WriteBitsFromBuffer.simps) auto
  qed
qed

section \<open>Fields\<close>

datatype field =
  FBit bool
| FUBits nat u32
| FSBits nat u32
| FLongLong u64
| FVar32 u32
| FVar64 u64
| FSVar32 u32
| FSVar64 u64
| FBytes nat nat "u8 list"
| FString nat "u8 list"

datatype field_type =
  TBit | TUBits nat | TSBits nat | TLongLong | TVar32 | TVar64 | TSVar32 | TSVar64 | TBytes nat nat | TString nat

fun put_field :: "bf_write \<Rightarrow> field \<Rightarrow> bf_write option" where
  "put_field w (FBit b) = WriteOneBit w b"
| "put_field w (FUBits n v) = WriteUBitLong w v n"
| "put_field w (FSBits n v) = WriteSBitLong w v n"
| "put_field w (FLongLong v) = WriteLongLong w v"
| "put_field w (FVar32 v) = WriteVarInt32 w v"
| "put_field w (FVar64 v) = WriteVarInt64 w v"
| "put_field w (FSVar32 v) = WriteSignedVarInt32 w v"
| "put_field w (FSVar64 v) = WriteSignedVarInt64 w v"
| "put_field w (FBytes src dst bs) = map_option snd (WriteBytes w src bs (int (length bs)))"
| "put_field w (FString maxLen s) = map_option snd (WriteString w (Some (s @ [0])))"

fun get_field :: "field_type \<Rightarrow> bf_read \<Rightarrow> (field \<times> bf_read) option" where
  "get_field TBit r = map_option (map_prod FBit id) (ReadOneBit r)"
| "get_field (TUBits n) r = map_option (map_prod (FUBits n) id) (ReadUBitLong r n)"
| "get_field (TSBits n) r = map_option (map_prod (FSBits n) id) (ReadSBitLong r n)"
| "get_field TLongLong r = map_option (map_prod FLongLong id) (ReadLongLong r)"
| "get_field TVar32 r = map_option (map_prod FVar32 id) (ReadVarInt32 r)"
| "get_field TVar64 r = map_option (map_prod FVar64 id) (ReadVarInt64 r)"
| "get_field TSVar32 r = map_option (map_prod FSVar32 id) (ReadSignedVarInt32 r)"
| "get_field TSVar64 r = map_option (map_prod FSVar64 id) (ReadSignedVarInt64 r)"
| "get_field (TBytes dst n) r = map_option (\<lambda>(ok, bs, r). (FBytes 0 dst bs, r)) (ReadBytes r dst (int n))"
| "get_field (TString maxLen) r =
     map_option (\<lambda>(ok, s, r). (FString maxLen (butlast s), r)) (ReadString r maxLen False)"

fun field_type_of :: "field \<Rightarrow> field_type" where
  "field_type_of (FBit b) = TBit"
| "field_type_of (FUBits n v) = TUBits n"
| "field_type_of (FSBits n v) = TSBits n"
| "field_type_of (FLongLong v) = TLongLong"
| "field_type_of (FVar32 v) = TVar32"
| "field_type_of (FVar64 v) = TVar64"
| "field_type_of (FSVar32 v) = TSVar32"
| "field_type_of (FSVar64 v) = TSVar64"
| "field_type_of (FBytes src dst bs) = TBytes dst (length bs)"
| "field_type_of (FString maxLen s) = TString maxLen"

text \<open>The bits of a field.\<close>

fun field_bits :: "field \<Rightarrow> bool list" where
  "field_bits (FBit b) = [b]"
| "field_bits (FUBits n v) = ubits n v"
| "field_bits (FSBits n v) = sbits n v"
| "field_bits (FLongLong v) = ubits 64 v"
| "field_bits (FVar32 v) = byte_bits (varint_bytes v)"
| "field_bits (FVar64 v) = byte_bits (varint_bytes v)"
| "field_bits (FSVar32 v) = byte_bits (varint_bytes (ZigZagEncode32 v))"
| "field_bits (FSVar64 v) = byte_bits (varint_bytes (ZigZagEncode64 v))"
| "field_bits (FBytes src dst bs) = byte_bits bs"
| "field_bits (FString maxLen s) = byte_bits (s @ [0])"

text \<open>
  The values an operation can carry: an unsigned value below \<open>2 ^ n\<close>, a signed one that fits in \<open>n\<close>
  bits, a block whose size in bits is an \<open>int\<close>, a string without zero that the reader's buffer can hold. The address of the source block is
  not part of the message; reading gives it as 0.
\<close>

fun field_ok :: "field \<Rightarrow> bool" where
  "field_ok (FUBits n v) \<longleftrightarrow> 0 < n \<and> n \<le> 32 \<and> unat v < 2 ^ n"
| "field_ok (FSBits n v) \<longleftrightarrow> 0 < n \<and> n \<le> 32 \<and> - (2 ^ (n - 1)) \<le> sint v \<and> sint v < 2 ^ (n - 1)"
| "field_ok (FBytes src dst bs) \<longleftrightarrow> src = 0 \<and> length bs < 2 ^ 28"
| "field_ok (FString maxLen s) \<longleftrightarrow> 0 \<notin> set s \<and> length s < maxLen"
| "field_ok f \<longleftrightarrow> True"

lemma put_field_emits:
  assumes "field_ok f" and "room w (length (field_bits f))"
  shows "\<exists>w'. put_field w f = Some w' \<and> emits w (field_bits f) w'"
proof (cases f)
  case (FBit b)
  with assms WriteOneBit_emits show ?thesis by simp
next
  case (FUBits n v)
  with assms WriteUBitLong_emits show ?thesis by simp
next
  case (FSBits n v)
  with assms WriteSBitLong_emits show ?thesis by (simp add: sbits_def)
next
  case (FLongLong v)
  with assms WriteLongLong_emits show ?thesis by simp
next
  case (FVar32 v)
  with assms WriteVarInt32_emits show ?thesis by simp
next
  case (FVar64 v)
  with assms WriteVarInt64_emits show ?thesis by simp
next
  case (FSVar32 v)
  with assms WriteVarInt32_emits show ?thesis by (simp add: WriteSignedVarInt32_def)
next
  case (FSVar64 v)
  with assms WriteVarInt64_emits show ?thesis by (simp add: WriteSignedVarInt64_def)
next
  case (FBytes src dst bs)
  then have "int32 (8 * int (length bs)) = int (8 * length bs)" using assms(1) by (subst int32_id) auto
  with FBytes assms WriteBits_emits [of w "8 * length bs" bs src] show ?thesis
    by (auto simp: WriteBytes_def block_bits_byte_bits)
next
  case (FString maxLen s)
  with assms WriteString_emits [of s w "[]"] show ?thesis by (auto simp: add.commute)
qed

lemma get_field_sees:
  assumes "field_ok f" and "sees r p (field_bits f)"
  shows "\<exists>r'. get_field (field_type_of f) r = Some (f, r') \<and> took r p (length (field_bits f)) r'"
proof (cases f)
  case (FBit b)
  with assms ReadOneBit_sees show ?thesis by fastforce
next
  case (FUBits n v)
  with assms ReadUBitLong_ubits show ?thesis by fastforce
next
  case (FSBits n v)
  with assms ReadSBitLong_sbits show ?thesis by fastforce
next
  case (FLongLong v)
  with assms ReadLongLong_ubits show ?thesis by fastforce
next
  case (FVar32 v)
  with assms ReadVarInt32_sees show ?thesis by fastforce
next
  case (FVar64 v)
  with assms ReadVarInt64_sees show ?thesis by fastforce
next
  case (FSVar32 v)
  with assms ReadVarInt32_sees [of r p "ZigZagEncode32 v"] show ?thesis
    by (auto simp: ReadSignedVarInt32_def ZigZag32_inverse)
next
  case (FSVar64 v)
  with assms ReadVarInt64_sees [of r p "ZigZagEncode64 v"] show ?thesis
    by (auto simp: ReadSignedVarInt64_def ZigZag64_inverse)
next
  case (FBytes src dst bs)
  then have "int32 (8 * int (length bs)) = int (8 * length bs)" using assms(1) by (subst int32_id) auto
  with FBytes assms ReadBits_sees [of r p bs dst] show ?thesis by (auto simp: ReadBytes_def)
next
  case (FString maxLen s)
  with assms have s: "\<forall>c \<in> set s. \<not> str_end False c" "str_end False (0 :: u8)" "sees r p (byte_bits (s @ [0]))"
    by (auto simp: str_end_def)
  have "take (maxLen - 1) s = s" using FString assms by auto
  with ReadString_sees [OF s, of maxLen] obtain ok r' where
    "ReadString r maxLen False = Some (ok, s @ [0], r')" "took r p (8 * (length s + 1)) r'" by auto
  then show ?thesis using FString by (intro exI [of _ r']) (simp add: add.commute)
qed

interpretation msg: bit_codec put_field get_field field_type_of field_bits field_ok
proof unfold_locales
  show "\<exists>w'. put_field w x = Some w' \<and> emits w (field_bits x) w'"
    if "field_ok x" "room w (length (field_bits x))" for x w
    using that by (rule put_field_emits)
  show "\<exists>r'. get_field (field_type_of x) r = Some (x, r') \<and> took r p (length (field_bits x)) r'"
    if "field_ok x" "sees r p (field_bits x)" for x r p
    using that by (rule get_field_sees)
qed

section \<open>Safety of the writer\<close>

text \<open>
  \<open>wrote w bs w'\<close>: the writer stays in its invariant and keeps its sizes and an earlier overflow;
  unless it has overflowed now, the bits \<open>bs\<close> have been appended.
\<close>

definition wrote :: "bf_write \<Rightarrow> bool list \<Rightarrow> bf_write \<Rightarrow> bool" where
  "wrote w bs w' \<longleftrightarrow> wr_inv w' \<and> w_nDataBits w' = w_nDataBits w \<and>
     length (w_pData w') = length (w_pData w) \<and> (w_bOverflow w \<longrightarrow> w_bOverflow w') \<and>
     (\<not> w_bOverflow w' \<longrightarrow> emits w bs w')"

lemma wrote_emits: "emits w bs w' \<Longrightarrow> \<not> w_bOverflow w \<Longrightarrow> wrote w bs w'"
  by (simp add: wrote_def emits_def)

lemma wrote_trans: "wr_inv w \<Longrightarrow> wrote w a w1 \<Longrightarrow> wrote w1 b w2 \<Longrightarrow> wrote w (a @ b) w2"
  unfolding wrote_def by (auto intro: emits_trans simp: wr_inv_def)

definition flagged :: "bf_write \<Rightarrow> bf_write" where
  "flagged w = w\<lparr>w_bOverflow := True\<rparr>"

lemma flagged_simps [simp]:
  "w_pData (flagged w) = w_pData w" "w_iCurBit (flagged w) = w_iCurBit w"
  "w_nDataBits (flagged w) = w_nDataBits w" "w_nDataBytes (flagged w) = w_nDataBytes w"
  "w_bOverflow (flagged w)" "wr_inv (flagged w) = wr_inv w"
  by (simp_all add: flagged_def wr_inv_def)

lemma flagged_same: "w_bOverflow w \<Longrightarrow> flagged (w\<lparr>w_bOverflow := False\<rparr>) = w"
  by (cases w) (simp add: flagged_def)

text \<open>An overflow that already happened does not change what these operations do.\<close>

lemma WriteUBitLong_flagged:
  "WriteUBitLong (flagged w) d n = map_option flagged (WriteUBitLong w d n)"
  by (auto simp: WriteUBitLong_def flagged_def w_SetOverflowFlag_def Let_def bind_eq_Some_conv
      split: option.splits Option.bind_splits)

lemma WriteUBitLong_wrote:
  assumes "wr_inv w" and n: "0 < n" "n \<le> 32"
  shows "\<exists>w'. WriteUBitLong w d n = Some w' \<and> wrote w (ubits n d) w'"
proof (cases "w_iCurBit w + int n > w_nDataBits w")
  case True
  then have "WriteUBitLong w d n = Some (w_SetOverflowFlag (w\<lparr>w_iCurBit := w_nDataBits w\<rparr>))"
    using wr_int32 [OF assms(1), of "int n"] n by (simp add: WriteUBitLong_def)
  then show ?thesis using assms by (auto simp: wrote_def w_SetOverflowFlag_def wr_inv_def)
next
  case False
  let ?w = "w\<lparr>w_bOverflow := False\<rparr>"
  have r: "room ?w n" using False assms by (simp add: room_def wr_inv_def)
  from WriteUBitLong_emits [OF r n, of d] obtain w' where
    w': "WriteUBitLong ?w d n = Some w'" "emits ?w (ubits n d) w'" by blast
  show ?thesis
  proof (cases "w_bOverflow w")
    case True
    have "WriteUBitLong w d n = Some (flagged w')"
      using WriteUBitLong_flagged [of ?w d n] w'(1) by (simp add: flagged_same [OF True])
    then show ?thesis using w'(2) by (auto simp: wrote_def emits_def)
  next
    case False
    then have "?w = w" by simp
    with w' False show ?thesis by (metis wrote_emits)
  qed
qed

lemma WriteOneBit_wrote:
  assumes "wr_inv w"
  shows "\<exists>w'. WriteOneBit w b = Some w' \<and> wrote w [b] w'"
proof (cases "w_bOverflow w \<or> w_iCurBit w + 1 > w_nDataBits w")
  case True
  then show ?thesis using assms wr_int32 [OF assms, of 1]
    by (auto simp: WriteOneBit_def CheckForOverflow_def w_SetOverflowFlag_def wrote_def wr_inv_def)
next
  case False
  then have "room w 1" using assms by (simp add: room_def)
  with WriteOneBit_emits False show ?thesis by (metis wrote_emits)
qed

lemma WriteSBitLong_wrote:
  assumes inv: "wr_inv w" and n: "2 \<le> n" "n \<le> 32"
  shows "\<exists>w'. WriteSBitLong w d n = Some w' \<and> wrote w (sbits n d) w'"
proof -
  let ?v = "if sint d < 0 then 0x80000000 + d else d"
  have v: "ubits (n - 1) ?v = ubits (n - 1) d"
    using n by (auto simp: ubits_def bit_sign_offset)
  have "0 < n - 1" "n - 1 \<le> 32" using n by simp_all
  from WriteUBitLong_wrote [OF inv this, of ?v] obtain w1 where
    w1: "WriteUBitLong w ?v (n - 1) = Some w1" "wrote w (ubits (n - 1) d) w1" unfolding v by blast
  then have "wr_inv w1" by (simp add: wrote_def)
  from WriteOneBit_wrote [OF this] obtain w2 where
    "WriteOneBit w1 (sint d < 0) = Some w2" "wrote w1 [sint d < 0] w2" by blast
  with w1 wrote_trans [OF inv w1(2)] show ?thesis
    by (auto simp: WriteSBitLong_def sbits_def split: if_splits)
qed

lemma wrote_byte:
  assumes "wr_inv w"
  shows "\<exists>w'. WriteUBitLong w d 8 = Some w' \<and> wrote w (ubits 8 (ucast d :: u8)) w' \<and> wr_inv w'"
proof -
  have "ubits 8 d = ubits 8 (ucast d :: u8)" by (simp add: ubits_def bit_unsigned_iff)
  with WriteUBitLong_wrote [OF assms, of 8 d] show ?thesis by (auto simp: wrote_def)
qed

lemma VarIntSlow_wrote:
  assumes L: "8 \<le> LENGTH('a::len)" and "wr_inv w"
  shows "\<exists>w'. VarIntSlow w (d :: 'a word) = Some w' \<and> wrote w (byte_bits (varint_bytes d)) w'"
  using assms(2)
proof (induction w d rule: VarIntSlow.induct)
  case (1 w d)
  show ?case
  proof (cases "0x7F < d")
    case True
    from wrote_byte [OF 1(2), of "ucast ((d AND 0x7F) OR 0x80)"] obtain w1 where
      w1: "WriteUBitLong w (ucast ((d AND 0x7F) OR 0x80)) 8 = Some w1"
        "wrote w (ubits 8 (ucast d OR 0x80 :: u8)) w1" "wr_inv w1"
      unfolding varint_group(1) [OF L] by blast
    from 1(1) [OF True w1(1,3)] obtain w2 where
      w2: "VarIntSlow w1 (drop_bit 7 d) = Some w2" "wrote w1 (byte_bits (varint_bytes (drop_bit 7 d))) w2" by blast
    from wrote_trans [OF 1(2) w1(2) w2(2)] w1(1) w2(1) True show ?thesis
      by (subst VarIntSlow.simps) (simp add: varint_bytes_large del: drop_bit_eq_div)
  next
    case False
    from wrote_byte [OF 1(2), of "ucast (d AND 0x7F)"] False show ?thesis
      by (subst VarIntSlow.simps) (auto simp: varint_bytes_small varint_group(2) [OF L])
  qed
qed

lemma WriteStringLoop_wrote:
  "wr_inv w \<Longrightarrow> 0 \<notin> set s \<Longrightarrow>
    \<exists>w'. WriteStringLoop w (s @ 0 # rest) = Some w' \<and> wrote w (byte_bits (s @ [0])) w'"
proof (induction s arbitrary: w)
  case Nil
  from WriteSBitLong_wrote [OF Nil(1), of 8 "scast (0 :: u8)"] show ?case
    by (auto simp: WriteChar_def sbits_char [of 0, simplified])
next
  case (Cons c s)
  from WriteSBitLong_wrote [OF Cons.prems(1), of 8 "scast c"] obtain w1 where
    w1: "WriteChar w (scast c) = Some w1" "wrote w (ubits 8 c) w1"
    unfolding WriteChar_def sbits_char by auto
  then have "wr_inv w1" by (simp add: wrote_def)
  from Cons.IH [OF this] Cons.prems obtain w2 where
    "WriteStringLoop w1 (s @ 0 # rest) = Some w2" "wrote w1 (byte_bits (s @ [0])) w2" by auto
  with w1 wrote_trans [OF Cons.prems(1) w1(2)] Cons.prems show ?case by auto
qed

lemma WriteAlignLoop_flagged:
  "WriteAlignLoop addr (flagged w) pIn n = map_option (map_prod flagged (\<lambda>a. a)) (WriteAlignLoop addr w pIn n)"
proof (induction pIn arbitrary: addr w n)
  case Nil
  show ?case by (subst (1 2) WriteAlignLoop.simps) simp
next
  case (Cons b pIn)
  show ?case
    by (subst (1 2) WriteAlignLoop.simps)
      (cases "WriteUBitLong w (ucast b) 8"; simp add: WriteUBitLong_flagged Cons)
qed

lemma WriteByteLoop_flagged:
  "WriteByteLoop (flagged w) pIn n = map_option (map_prod flagged (\<lambda>a. a)) (WriteByteLoop w pIn n)"
proof (induction pIn arbitrary: w n)
  case Nil
  show ?case by (subst (1 2) WriteByteLoop.simps) simp
next
  case (Cons b pIn)
  show ?case
    by (subst (1 2) WriteByteLoop.simps)
      (cases "WriteUBitLong w (ucast b) 8"; simp add: WriteUBitLong_flagged Cons)
qed

lemma WriteDWordLoop_flagged:
  "WriteDWordLoop s (flagged w) d out pIn n =
     map_option (map_prod flagged (\<lambda>a. a)) (WriteDWordLoop s w d out pIn n)"
proof (induction n arbitrary: w d out pIn rule: less_induct)
  case (less n)
  have upd: "(flagged w)\<lparr>w_pData := b, w_iCurBit := c\<rparr> = flagged (w\<lparr>w_pData := b, w_iCurBit := c\<rparr>)" for b c
    by (simp add: flagged_def)
  show ?case
  proof (cases "32 + (32 - s) \<le> n")
    case False
    then show ?thesis by (subst (1 2) WriteDWordLoop.simps) simp
  next
    case True
    show ?thesis
    proof (cases "LoadLittleDWord pIn 0")
      case (Some cd)
      show ?thesis using True Some less [of "n - 32"]
        by (subst (1 2) WriteDWordLoop.simps)
          (cases "StoreLittleDWord (w_pData w) d (out OR push_bit s cd)"; simp add: upd Let_def)
    qed (use True in \<open>subst (1 2) WriteDWordLoop.simps, simp\<close>)
  qed
qed

lemma flagged_pData: "(flagged w)\<lparr>w_pData := b\<rparr> = flagged (w\<lparr>w_pData := b\<rparr>)"
  by (simp add: flagged_def)

lemma WriteDWords_flagged:
  "WriteDWords (flagged w) pIn n = map_option (map_prod flagged (\<lambda>a. a)) (WriteDWords w pIn n)"
  by (auto simp: WriteDWords_def WriteDWordLoop_flagged WriteUBitLong_flagged flagged_pData Let_def
      split: option.splits Option.bind_splits)

lemma memcpy_in_flagged: "memcpy_in (flagged w) pIn k = map_option flagged (memcpy_in w pIn k)"
  by (simp add: memcpy_in_def flagged_def Let_def)

lemma WriteBits_flagged:
  "map_option snd (WriteBits (flagged w) addr pIn n) = map_option (flagged \<circ> snd) (WriteBits w addr pIn n)"
proof (cases "int32 (w_iCurBit w + n) > w_nDataBits w \<or> n < 0")
  case True
  then show ?thesis by (auto simp: WriteBits_def w_SetOverflowFlag_def flagged_def)
next
  case fits: False
  show ?thesis
  proof (cases "WriteAlignLoop addr w pIn (nat n)")
    case None
    then show ?thesis using fits by (simp add: WriteBits_def WriteAlignLoop_flagged)
  next
    case (Some a)
    obtain w1 p1 n1 where a: "a = (w1, p1, n1)" by (cases a)
    define mid where "mid w = (if 32 \<le> n1 then
             (if w_iCurBit w mod 8 = 0 then do {
                let numbytes = n1 div 8;
                w \<leftarrow> memcpy_in w p1 numbytes;
                Some (w, drop numbytes p1, n1 - 8 * numbytes) }
              else WriteDWords w p1 n1)
           else Some (w, p1, n1))" for w
    define last where "last w b m = (do {
        w \<leftarrow> (if m \<noteq> 0 then (case b of [] \<Rightarrow> None | b # _ \<Rightarrow> WriteUBitLong w (ucast b) m) else Some w);
        Some (\<not> w_bOverflow w, w) })" for w and b :: "u8 list" and m
    have midf: "mid (flagged w1) = map_option (map_prod flagged (\<lambda>a. a)) (mid w1)"
      by (cases "memcpy_in w1 p1 (n1 div 8)")
        (auto simp: mid_def memcpy_in_flagged WriteDWords_flagged Let_def)
    have lastf: "map_option snd (last (flagged w) b m) = map_option (flagged \<circ> snd) (last w b m)" for w b m
    proof (cases "\<exists>x xs. b = x # xs \<and> m \<noteq> 0")
      case True
      then obtain x xs where "b = x # xs" "m \<noteq> 0" by blast
      then show ?thesis
        by (cases "WriteUBitLong w (ucast x) m") (simp_all add: last_def WriteUBitLong_flagged)
    next
      case False
      then show ?thesis by (cases b) (auto simp: last_def)
    qed
    have unfold: "WriteBits v addr pIn n = do {
        (w, p, m) \<leftarrow> mid v1; (w, p, m) \<leftarrow> WriteByteLoop w p m; last w p m }"
      if "WriteAlignLoop addr v pIn (nat n) = Some (v1, p1, n1)" "\<not> int32 (w_iCurBit v + n) > w_nDataBits v" "\<not> n < 0" for v v1
      using that by (simp only: WriteBits_def if_False mid_def last_def Option.bind.bind_lunit prod.case)
    have 1: "WriteAlignLoop addr (flagged w) pIn (nat n) = Some (flagged w1, p1, n1)"
      using Some a by (simp add: WriteAlignLoop_flagged)
    have 2: "WriteAlignLoop addr w pIn (nat n) = Some (w1, p1, n1)" using Some a by simp
    show ?thesis
    proof (cases "mid w1")
      case None
      then show ?thesis using unfold [OF 1] unfold [OF 2] fits midf by simp
    next
      case (Some b)
      then show ?thesis using unfold [OF 1] unfold [OF 2] fits midf
        by (cases b; cases "WriteByteLoop (fst b) (fst (snd b)) (snd (snd b))")
          (auto simp: WriteByteLoop_flagged lastf)
    qed
  qed
qed

lemma WriteBits_wrote:
  assumes inv: "wr_inv w" and "n \<le> 8 * length pIn" and n: "n \<le> 2 ^ 30"
  shows "\<exists>ok w'. WriteBits w addr pIn (int n) = Some (ok, w') \<and> wrote w (block_bits pIn n) w'"
proof (cases "w_iCurBit w + int n > w_nDataBits w")
  case True
  then show ?thesis using assms wr_int32 [OF inv, of "int n"]
    by (auto simp: WriteBits_def w_SetOverflowFlag_def wrote_def wr_inv_def)
next
  case False
  let ?w = "w\<lparr>w_bOverflow := False\<rparr>"
  have r: "room ?w n" using False inv by (simp add: room_def wr_inv_def)
  from WriteBits_emits [OF r assms(2), of addr] obtain w' where
    w': "WriteBits ?w addr pIn (int n) = Some (True, w')" "emits ?w (block_bits pIn n) w'" by blast
  show ?thesis
  proof (cases "w_bOverflow w")
    case True
    have "map_option snd (WriteBits w addr pIn (int n)) = Some (flagged w')"
      using WriteBits_flagged [of ?w addr pIn "int n"] w'(1) by (simp add: flagged_same [OF True])
    then show ?thesis using w'(2) by (auto simp: wrote_def emits_def)
  next
    case False
    then have "?w = w" by simp
    with w' False show ?thesis by (metis wrote_emits)
  qed
qed

text \<open>
  A signed field of one bit is left out: it writes no bits before its sign. Blocks are smaller than 128 MiB, so that the range check does not
  wrap around.
\<close>

fun field_safe :: "field \<Rightarrow> bool" where
  "field_safe (FUBits n v) \<longleftrightarrow> 0 < n \<and> n \<le> 32"
| "field_safe (FSBits n v) \<longleftrightarrow> 2 \<le> n \<and> n \<le> 32"
| "field_safe (FBytes src dst bs) \<longleftrightarrow> length bs < 2 ^ 27"
| "field_safe (FString maxLen s) \<longleftrightarrow> 0 \<notin> set s"
| "field_safe f \<longleftrightarrow> True"

lemma put_field_wrote:
  assumes "wr_inv w" and "field_safe f"
  shows "\<exists>w'. put_field w f = Some w' \<and> wrote w (field_bits f) w'"
proof (cases f)
  case (FLongLong v)
  from WriteUBitLong_wrote [OF assms(1), of 32 "ucast v"] obtain w1 where
    w1: "WriteUBitLong w (ucast v) 32 = Some w1" "wrote w (ubits 32 (ucast v :: u32)) w1" by auto
  then have "wr_inv w1" by (simp add: wrote_def)
  from WriteUBitLong_wrote [OF this, of 32 "ucast (drop_bit 32 v)"] obtain w2 where
    "WriteUBitLong w1 (ucast (drop_bit 32 v)) 32 = Some w2"
    "wrote w1 (ubits 32 (ucast (drop_bit 32 v) :: u32)) w2" by auto
  with w1 wrote_trans [OF assms(1) w1(2)] FLongLong show ?thesis
    by (auto simp: WriteLongLong_def ubits_64)
next
  case (FBytes src dst bs)
  then have "int32 (8 * int (length bs)) = int (8 * length bs)" "8 * length bs \<le> 2 ^ 30"
    using assms(2) by (subst int32_id, auto)
  with FBytes WriteBits_wrote [OF assms(1), of "8 * length bs" bs src] show ?thesis
    by (auto simp: WriteBytes_def block_bits_byte_bits)
next
  case (FString maxLen s)
  with WriteStringLoop_wrote [OF assms(1), of s "[]"] assms(2) show ?thesis
    by (auto simp: WriteString_def)
qed (use assms WriteOneBit_wrote WriteUBitLong_wrote WriteSBitLong_wrote
    VarIntSlow_wrote [where 'a = 32, simplified] VarIntSlow_wrote [where 'a = 64, simplified] in
  \<open>auto simp: VarInt32_paths VarInt64_paths WriteSignedVarInt32_def WriteSignedVarInt64_def\<close>)
section \<open>Safety of the reader\<close>

text \<open>A state the reader can be in, and what every read keeps of it.\<close>

definition rd_ok :: "bf_read \<Rightarrow> bool" where
  "rd_ok r \<longleftrightarrow> (\<exists>p \<le> 8 * length (r_pData r). rd_at r p) \<or> rd_dead r"

definition read_ok :: "bf_read \<Rightarrow> bf_read \<Rightarrow> bool" where
  "read_ok r r' \<longleftrightarrow> rd_ok r' \<and> (r_bOverflow r \<longrightarrow> r_bOverflow r')"

lemma read_ok_trans: "read_ok r r1 \<Longrightarrow> read_ok r1 r2 \<Longrightarrow> read_ok r r2"
  by (simp add: read_ok_def)

lemma rd_ok_dead: "rd_ok r \<Longrightarrow> r_bOverflow r \<longleftrightarrow> rd_dead r"
  by (auto simp: rd_ok_def rd_at_def rd_dead_def)

lemma ReadUBitLong_ok:
  assumes "rd_ok r" and n: "0 < n" "n \<le> 32"
  shows "\<exists>v r'. ReadUBitLong r n = Some (v, r') \<and> read_ok r r' \<and> (r_bOverflow r' \<longrightarrow> v = 0)"
  using assms(1) unfolding rd_ok_def
proof (elim disjE exE conjE)
  fix p assume p: "p \<le> 8 * length (r_pData r)" and at: "rd_at r p"
  show ?thesis
  proof (cases "p + n \<le> 8 * length (r_pData r)")
    case True
    from ReadUBitLong_at [OF at n True] obtain v r' where
      "ReadUBitLong r n = Some (v, r')" "rd_at r' (p + n)" "rd_same r r'" by blast
    with True at show ?thesis by (auto simp: read_ok_def rd_ok_def rd_same_def rd_at_def [of r p] rd_at_def [of r'])
  next
    case False
    from ReadUBitLong_past [OF at n] False show ?thesis
      by (auto simp: read_ok_def rd_ok_def rd_dead_def)
  qed
next
  assume "rd_dead r"
  from ReadUBitLong_dead [OF this, of n] obtain r' where "ReadUBitLong r n = Some (0, r')" "rd_dead r'" by blast
  then show ?thesis by (auto simp: read_ok_def rd_ok_def rd_dead_def)
qed

lemma ReadOneBit_dead: "rd_dead r \<Longrightarrow> \<exists>r'. ReadOneBit r = Some (False, r') \<and> rd_dead r'"
  by (auto simp: rd_dead_def ReadOneBit_def FetchNext_def GrabNextDWord_def Let_def)

lemma ReadOneBit_ok:
  assumes "rd_ok r"
  shows "\<exists>v r'. ReadOneBit r = Some (v, r') \<and> read_ok r r'"
proof (cases "rd_dead r")
  case True
  from ReadOneBit_dead [OF this] show ?thesis by (auto simp: read_ok_def rd_ok_def rd_dead_def)
next
  case False
  with assms obtain p where "rd_at r p" by (auto simp: rd_ok_def)
  from ReadOneBit_eq [OF rd_at_avail [OF this]] ReadUBitLong_ok [OF assms, of 1] show ?thesis by auto
qed

lemma ReadSBitLong_ok:
  assumes "rd_ok r" and "0 < n" "n \<le> 32"
  shows "\<exists>v r'. ReadSBitLong r n = Some (v, r') \<and> read_ok r r'"
  using ReadUBitLong_ok [OF assms] by (auto simp: ReadSBitLong_def)

lemma ReadVarIntLoop_ok:
  "rd_ok r \<Longrightarrow> \<exists>v r'. ReadVarIntLoop left count result r = Some (v, r') \<and> read_ok r r'"
proof (induction left arbitrary: count result r)
  case 0
  then show ?case by (simp add: read_ok_def)
next
  case (Suc left)
  from ReadUBitLong_ok [OF Suc.prems, of 8] obtain b r1 where
    b: "ReadUBitLong r 8 = Some (b, r1)" "read_ok r r1" by auto
  then have "rd_ok r1" by (simp add: read_ok_def)
  from Suc.IH [OF this, of "count + 1" "result OR push_bit (7 * count) (ucast b AND 0x7F)"] b
  show ?case by (auto simp: Let_def intro: read_ok_trans simp del: push_bit_and)
qed

lemma ReadAlignLoop_ok:
  "rd_ok r \<Longrightarrow> \<exists>r' out m. ReadAlignLoop addr r acc n = Some (r', out, m) \<and> read_ok r r' \<and>
     8 * length out + m = 8 * length acc + n"
proof (induction n arbitrary: addr r acc rule: less_induct)
  case (less n)
  show ?case
  proof (cases "addr mod 4 \<noteq> 0 \<and> 8 \<le> n")
    case False
    then show ?thesis using less.prems by (subst ReadAlignLoop.simps) (auto simp: read_ok_def)
  next
    case True
    from ReadUBitLong_ok [OF less.prems, of 8] obtain b r1 where
      b: "ReadUBitLong r 8 = Some (b, r1)" "read_ok r r1" by auto
    then have "rd_ok r1" by (simp add: read_ok_def)
    from less.IH [OF _ this, of "n - 8" "addr + 1" "acc @ [ucast b]"] True obtain r2 out m where
      "ReadAlignLoop (addr + 1) r1 (acc @ [ucast b]) (n - 8) = Some (r2, out, m)" "read_ok r1 r2"
      "8 * length out + m = 8 * length (acc @ [ucast b]) + (n - 8)" by auto
    with b True show ?thesis
      by (subst ReadAlignLoop.simps) (auto intro: read_ok_trans)
  qed
qed

lemma ReadDWordLoop_ok:
  "rd_ok r \<Longrightarrow> \<exists>r' out m. ReadDWordLoop r acc n = Some (r', out, m) \<and> read_ok r r' \<and>
     8 * length out + m = 8 * length acc + n"
proof (induction n arbitrary: r acc rule: less_induct)
  case (less n)
  show ?case
  proof (cases "32 \<le> n")
    case False
    then show ?thesis using less.prems by (subst ReadDWordLoop.simps) (auto simp: read_ok_def)
  next
    case True
    from ReadUBitLong_ok [OF less.prems, of 32] obtain b r1 where
      b: "ReadUBitLong r 32 = Some (b, r1)" "read_ok r r1" by auto
    then have "rd_ok r1" by (simp add: read_ok_def)
    from less.IH [OF _ this, of "n - 32" "acc @ dword_bytes b"] True b show ?thesis
      by (subst ReadDWordLoop.simps) (auto simp: dword_bytes_def intro: read_ok_trans)
  qed
qed

lemma ReadByteLoop_ok:
  "rd_ok r \<Longrightarrow> \<exists>r' out m. ReadByteLoop r acc n = Some (r', out, m) \<and> read_ok r r' \<and> m < 8 \<and>
     8 * length out + m = 8 * length acc + n"
proof (induction n arbitrary: r acc rule: less_induct)
  case (less n)
  show ?case
  proof (cases "8 \<le> n")
    case False
    then show ?thesis using less.prems by (subst ReadByteLoop.simps) (auto simp: read_ok_def)
  next
    case True
    from ReadUBitLong_ok [OF less.prems, of 8] obtain b r1 where
      b: "ReadUBitLong r 8 = Some (b, r1)" "read_ok r r1" by auto
    then have "rd_ok r1" by (simp add: read_ok_def)
    from less.IH [OF _ this, of "n - 8" "acc @ [ucast b]"] True b show ?thesis
      by (subst ReadByteLoop.simps) (auto intro: read_ok_trans)
  qed
qed

lemma ReadBits_ok:
  assumes "rd_ok r"
  shows "\<exists>out r'. ReadBits r addr (int n) = Some (out, r') \<and> read_ok r r' \<and> length out = (n + 7) div 8"
proof -
  from ReadAlignLoop_ok [OF assms, of addr "[]" n] obtain r1 o1 m1 where
    a: "ReadAlignLoop addr r [] n = Some (r1, o1, m1)" "read_ok r r1" "8 * length o1 + m1 = n" by auto
  then have "rd_ok r1" by (simp add: read_ok_def)
  from ReadDWordLoop_ok [OF this, of o1 m1] obtain r2 o2 m2 where
    b: "ReadDWordLoop r1 o1 m1 = Some (r2, o2, m2)" "read_ok r1 r2" "8 * length o2 + m2 = n" using a(3) by auto
  then have "rd_ok r2" by (simp add: read_ok_def)
  from ReadByteLoop_ok [OF this, of o2 m2] obtain r3 o3 m3 where
    c: "ReadByteLoop r2 o2 m2 = Some (r3, o3, m3)" "read_ok r2 r3" "m3 < 8" "8 * length o3 + m3 = n" using b(3) by auto
  then have "rd_ok r3" by (simp add: read_ok_def)
  note d = ReadUBitLong_ok [OF this, of m3]
  have ok: "read_ok r r3" by (rule read_ok_trans [OF a(2) read_ok_trans [OF b(2) c(2)]])
  show ?thesis
  proof (cases "m3 = 0")
    case True
    then show ?thesis using a(1) b(1) c(1,4) ok by (auto simp: ReadBits_def)
  next
    case False
    with d c(3) obtain v r4 where "ReadUBitLong r3 m3 = Some (v, r4)" "read_ok r3 r4" by auto
    moreover have "length (o3 @ [ucast v]) = (n + 7) div 8" for v :: u32 using c(3,4) False by simp
    ultimately show ?thesis using a(1) b(1) c(1) False read_ok_trans [OF ok]
      by (auto simp: ReadBits_def)
  qed
qed

lemma ReadString_ok:
  assumes "rd_ok r" and "0 < maxLen"
  shows "\<exists>ok s r'. ReadString r maxLen bLine = Some (ok, s @ [0], r') \<and> length s < maxLen \<and> read_ok r r'"
proof (cases "rd_dead r")
  case True
  from ReadCharsLoop_dead [OF this, of maxLen bLine "[] :: u8 list" False] obtain r' where
    "ReadCharsLoop ReadChar maxLen bLine r [] False = Some ([] :: u8 list, False, r')" "rd_dead r'" by blast
  with assms(2) show ?thesis
    by (intro exI [of _ False] exI [of _ "[]"] exI [of _ r'])
      (simp add: ReadString_def read_ok_def rd_ok_def rd_dead_def)
next
  case False
  with assms obtain p where p: "rd_at r p" "p \<le> 8 * length (r_pData r)" by (auto simp: rd_ok_def)
  from ReadCharsLoop_ends [OF p, of "[] :: u8 list" maxLen bLine False] obtain s :: "u8 list" and small r' where
    s: "ReadCharsLoop ReadChar maxLen bLine r [] False = Some (s, small, r')" "length s \<le> maxLen - 1"
    "rd_dead r' \<or> (\<exists>q. rd_at r' q)" by auto
  have "q \<le> 8 * length (r_pData r')" if "rd_at r' q" for q
    using that unfolding rd_at_def by auto
  then have "read_ok r r'" using s(3) p(1) by (auto simp: read_ok_def rd_ok_def rd_at_def)
  with s(1,2) assms(2) show ?thesis
    by (intro exI [of _ "\<not> r_bOverflow r' \<and> \<not> small"] exI [of _ s] exI [of _ r'])
      (simp add: ReadString_def)
qed

fun type_safe :: "field_type \<Rightarrow> bool" where
  "type_safe (TUBits n) \<longleftrightarrow> 0 < n \<and> n \<le> 32"
| "type_safe (TSBits n) \<longleftrightarrow> 0 < n \<and> n \<le> 32"
| "type_safe (TBytes dst n) \<longleftrightarrow> n < 2 ^ 28"
| "type_safe (TString maxLen) \<longleftrightarrow> 0 < maxLen"
| "type_safe t \<longleftrightarrow> True"

text \<open>The field has the type that was read; a string fits into the buffer of the caller.\<close>

fun field_fits :: "field_type \<Rightarrow> field \<Rightarrow> bool" where
  "field_fits t (FString maxLen s) \<longleftrightarrow> t = TString maxLen \<and> length s < maxLen"
| "field_fits t f \<longleftrightarrow> field_type_of f = t"

lemma get_field_ok:
  assumes "rd_ok r" and "type_safe t"
  shows "\<exists>f r'. get_field t r = Some (f, r') \<and> read_ok r r' \<and> field_fits t f"
proof (cases t)
  case TBit
  from ReadOneBit_ok [OF assms(1)] obtain v r' where "ReadOneBit r = Some (v, r')" "read_ok r r'" by blast
  with TBit show ?thesis by simp
next
  case (TUBits n)
  with ReadUBitLong_ok [OF assms(1), of n] assms(2) obtain v r' where
    "ReadUBitLong r n = Some (v, r')" "read_ok r r'" by auto
  with TUBits show ?thesis by simp
next
  case (TSBits n)
  with ReadSBitLong_ok [OF assms(1), of n] assms(2) obtain v r' where
    "ReadSBitLong r n = Some (v, r')" "read_ok r r'" by auto
  with TSBits show ?thesis by simp
next
  case TLongLong
  from ReadUBitLong_ok [OF assms(1), of 32] obtain v r1 where
    v: "ReadUBitLong r 32 = Some (v, r1)" "read_ok r r1" by auto
  then have "rd_ok r1" by (simp add: read_ok_def)
  from ReadUBitLong_ok [OF this, of 32] obtain v' r2 where
    "ReadUBitLong r1 32 = Some (v', r2)" "read_ok r1 r2" by auto
  with v TLongLong show ?thesis by (simp add: ReadLongLong_def) (blast intro: read_ok_trans)
next
  case (TBytes dst n)
  from ReadBits_ok [OF assms(1), of dst "8 * n"] obtain out r' where
    "ReadBits r dst (int (8 * n)) = Some (out, r')" "read_ok r r'" "length out = n" by auto
  moreover have "int32 (8 * int n) = int (8 * n)" using TBytes assms(2) by (subst int32_id) auto
  ultimately show ?thesis using TBytes by (simp add: ReadBytes_def)
next
  case (TString maxLen)
  with ReadString_ok [OF assms(1), of maxLen False] assms(2) obtain ok s r' where
    "ReadString r maxLen False = Some (ok, s @ [0], r')" "read_ok r r'" "length s < maxLen" by auto
  with TString show ?thesis by simp
next
  case TVar32
  from ReadVarIntLoop_ok [OF assms(1), of 5 0 "0 :: u32"] obtain v r' where
    "ReadVarInt32 r = Some (v, r')" "read_ok r r'" by (auto simp: ReadVarInt32_def)
  with TVar32 show ?thesis by simp
next
  case TSVar32
  from ReadVarIntLoop_ok [OF assms(1), of 5 0 "0 :: u32"] obtain v r' where
    "ReadVarInt32 r = Some (v, r')" "read_ok r r'" by (auto simp: ReadVarInt32_def)
  with TSVar32 show ?thesis by (simp add: ReadSignedVarInt32_def)
next
  case TVar64
  from ReadVarIntLoop_ok [OF assms(1), of 10 0 "0 :: u64"] obtain v r' where
    "ReadVarInt64 r = Some (v, r')" "read_ok r r'" by (auto simp: ReadVarInt64_def)
  with TVar64 show ?thesis by simp
next
  case TSVar64
  from ReadVarIntLoop_ok [OF assms(1), of 10 0 "0 :: u64"] obtain v r' where
    "ReadVarInt64 r = Some (v, r')" "read_ok r r'" by (auto simp: ReadVarInt64_def)
  with TSVar64 show ?thesis by (simp add: ReadSignedVarInt64_def)
qed

end
