(* ===== verification/BitSpec.thy ===== *)
theory BitSpec
  imports BitMessage
begin

text \<open>
  The properties of the bit streams: what a message written is when it is read, safety of the writer
  and of the reader, the exact effect of the integer writes, the equivalences behind the optimised
  paths, and where the two sides do not fit together.
\<close>

lemma emits_written:
  "emits w bs w' \<Longrightarrow> 0 \<le> w_iCurBit w \<Longrightarrow> written_bits w' = written_bits w @ bs"
  by (rule written_bits_emits)

lemma Tell_position:
  assumes "rd_at r p" "r_nDataBits r = 8 * int (length (r_pData r))"
  shows "Tell r = int p"
proof (cases "r_pDataIn r = length (r_pData r) + 4")
  case True
  with assms(1) have "p = 8 * length (r_pData r)" by (auto simp: rd_at_def)
  with True assms show ?thesis by (simp add: Tell_at)
next
  case False
  have "p \<le> 8 * length (r_pData r)" using assms(1) unfolding rd_at_def by auto
  with False assms show ?thesis by (simp add: Tell_at)
qed

lemma StartReading_at:
  assumes "0 < length S" "p \<le> 8 * length S" "length S < 4 \<Longrightarrow> p < 8 * length S"
  shows "\<exists>r. StartReading S (length S) (int p) (-1) = Some r \<and> rd_at r p \<and> r_pData r = S \<and>
    r_nDataBits r = 8 * int (length S)"
proof -
  let ?r = "\<lparr>r_pData = S, r_nDataBytes = length S, r_nDataBits = int (length S) * 8,
    r_bOverflow = False, r_nInBufWord = 0, r_nBitsAvail = 0, r_pDataIn = 0\<rparr>"
  from Seek_at [of ?r p] assms obtain r where
    "Seek ?r (int p) = Some (True, r)" "rd_at r p" "rd_same ?r r" by auto
  then show ?thesis by (auto simp: StartReading_def rd_same_def)
qed

lemma room_nonempty:
  assumes "room w n" "0 < n" "p = nat (w_iCurBit w)"
  shows "4 \<le> length (w_pData w)" "p \<le> 8 * length (w_pData w)"
proof -
  from assms(1) have inv: "wr_inv w" and f: "w_iCurBit w + int n \<le> w_nDataBits w" by (simp_all add: room_def)
  have "int (nat (w_iCurBit w) + n) \<le> w_nDataBits w" using f inv by (simp add: wr_inv_def)
  from dword_fits [OF inv this, of 0] assms(2) show "4 \<le> length (w_pData w)" by simp
  show "p \<le> 8 * length (w_pData w)" using inv f assms(3) by (simp add: wr_inv_def nat_le_iff)
qed

section \<open>Messages\<close>

text \<open>
  C2: every message survives the trip. A sequence of fields (bits, unsigned and signed integers of
  up to 32 bits, 64-bit integers, the four kinds of variable-length integers, byte blocks and
  strings) that fits a stream below 128 MiB is written without overflow, and a reader opened on the buffer at the bit the
  message starts at reads the same fields, ending where the writer ended.
\<close>

lemma message_round_trip:
  assumes "\<forall>f \<in> set fs. field_ok f" and "room w (length (concat (map field_bits fs)))"
    and "concat (map field_bits fs) \<noteq> []"
  shows "\<exists>w' r r'. put_all put_field w fs = Some w' \<and> \<not> w_bOverflow w' \<and>
     StartReading (w_pData w') (length (w_pData w')) (w_iCurBit w) (-1) = Some r \<and>
     get_all get_field (map field_type_of fs) r = Some (fs, r') \<and> Tell r' = w_iCurBit w'"
proof -
  from msg.round_trip [OF assms(1,2)] obtain w' where
    w': "put_all put_field w fs = Some w'" "emits w (concat (map field_bits fs)) w'"
    and rt: "\<And>r. rd_at r (nat (w_iCurBit w)) \<Longrightarrow> r_pData r = w_pData w' \<Longrightarrow>
      \<exists>r'. get_all get_field (map field_type_of fs) r = Some (fs, r') \<and> rd_at r' (nat (w_iCurBit w'))"
    by blast
  let ?p = "nat (w_iCurBit w)"
  have len: "length (w_pData w') = length (w_pData w)" and c: "int ?p = w_iCurBit w" "0 \<le> w_iCurBit w'"
    using w'(2) room_cur [OF assms(2)] by (simp_all add: emits_def wr_inv_def)
  have "0 < length (concat (map field_bits fs))" using assms(3) by blast
  note ne = room_nonempty [OF assms(2) this refl]
  from StartReading_at [of "w_pData w'" ?p] ne len obtain r where
    r: "StartReading (w_pData w') (length (w_pData w')) (int ?p) (-1) = Some r" "rd_at r ?p"
      "r_pData r = w_pData w'" "r_nDataBits r = 8 * int (length (w_pData w'))" by fastforce
  from rt [OF r(2,3)] obtain r' where
    r': "get_all get_field (map field_type_of fs) r = Some (fs, r')" "rd_at r' (nat (w_iCurBit w'))" by blast
  from emits_sees [OF w'(2) room_cur [OF assms(2)] r(2,3)]
  have "sees r ?p (concat (map field_bits fs))" .
  from msg.get_all_sees [OF assms(1) this] r'(1) have "rd_same r r'" by (auto simp: took_def)
  then have "Tell r' = w_iCurBit w'"
    using Tell_position [OF r'(2)] r c(2) by (simp add: rd_same_def)
  with w' r(1) r'(1) c(1) show ?thesis by (auto simp: emits_def)
qed

lemma message_round_trip_witness:
  "\<exists>w' r r'. put_all put_field (StartWriting (replicate 16 0xFF) 16 3 (-1))
       [FBit True, FUBits 5 19, FSBits 7 (-3), FSVar32 (-70000), FString 8 [72, 105]] = Some w' \<and>
     \<not> w_bOverflow w' \<and>
     StartReading (w_pData w') (length (w_pData w')) 3 (-1) = Some r \<and>
     get_all get_field [TBit, TUBits 5, TSBits 7, TSVar32, TString 8] r =
       Some ([FBit True, FUBits 5 19, FSBits 7 (-3), FSVar32 (-70000), FString 8 [72, 105]], r') \<and>
     Tell r' = w_iCurBit w'"
proof -
  let ?fs = "[FBit True, FUBits 5 19, FSBits 7 (-3), FSVar32 (-70000), FString 8 [72, 105]]"
  let ?w = "StartWriting (replicate 16 0xFF) 16 3 (-1)"
  have "\<forall>f \<in> set ?fs. field_ok f" by simp
  moreover have "length (varint_bytes (ZigZagEncode32 (-70000))) \<le> 5" by (rule length_varint_32)
  then have "room ?w (length (concat (map field_bits ?fs)))"
    by (simp add: room_def wr_inv_def StartWriting_def)
  moreover have "concat (map field_bits ?fs) \<noteq> []" by simp
  ultimately show ?thesis
    using message_round_trip [of ?fs ?w] by (simp add: StartWriting_def)
qed



text \<open>
  C4: the reader never reads outside its buffer and always returns, whatever the bytes are: a
  sequence of field reads gives a value of the right type for each field, a block has the bytes that were asked for, strings end within the length the caller
  gave, and a reported overflow is never withdrawn. The size of a block in bits must be an \<open>int\<close>.
\<close>

lemma reader_safe:
  assumes "rd_ok r" and "\<forall>t \<in> set ts. type_safe t"
  shows "\<exists>fs r'. get_all get_field ts r = Some (fs, r') \<and> list_all2 field_fits ts fs \<and> rd_ok r' \<and>
     (r_bOverflow r \<longrightarrow> r_bOverflow r')"
  using assms
proof (induction ts arbitrary: r)
  case (Cons t ts)
  from get_field_ok [OF Cons.prems(1)] Cons.prems(2) obtain f r1 where
    f: "get_field t r = Some (f, r1)" "read_ok r r1" "field_fits t f" by fastforce
  then have "rd_ok r1" by (simp add: read_ok_def)
  from Cons.IH [OF this] Cons.prems(2) f show ?case by (fastforce simp: read_ok_def)
qed simp

lemma reader_safe_witness:
  "\<exists>r. StartReading [1, 2, 3, 4, 5, 6] 6 0 (-1) = Some r \<and>
    (\<exists>fs r'. get_all get_field [TUBits 30, TVar64, TString 4, TBytes 1 9] r = Some (fs, r') \<and> rd_ok r')"
proof -
  let ?S = "[1, 2, 3, 4, 5, 6] :: u8 list"
  let ?ts = "[TUBits 30, TVar64, TString 4, TBytes 1 9]"
  from StartReading_at [of ?S 0] obtain r where
    r: "StartReading ?S (length ?S) (int 0) (-1) = Some r" "rd_at r 0" by auto
  then have "rd_ok r" by (auto simp: rd_ok_def)
  moreover have "\<forall>t \<in> set ?ts. type_safe t" by simp
  ultimately obtain fs r' where "get_all get_field ?ts r = Some (fs, r')" "rd_ok r'"
    using reader_safe by blast
  moreover have "length ?S = 6" "int 0 = 0" by simp_all
  ultimately show ?thesis using r(1) by metis
qed

text \<open>
  A block of \<open>2 ^ 28\<close> bytes has a negative number of bits. It passes the range check of any stream, also of a full one, and the number is then taken as
  an index into a mask table; the reader does the same.
\<close>

lemma large_block_unchecked:
  assumes "wr_inv w"
  shows "WriteBytes w addr pIn (2 ^ 28) = None" "ReadBytes r addr (2 ^ 28) = None"
proof -
  have b: "int32 (8 * 2 ^ 28) = - (2 ^ 31)" by (simp add: int32_def)
  moreover have "int32 (w_iCurBit w - 2 ^ 31) = w_iCurBit w - 2 ^ 31"
    using assms by (intro int32_id) (auto simp: wr_inv_def)
  ultimately show "WriteBytes w addr pIn (2 ^ 28) = None"
    using assms by (simp add: WriteBytes_def WriteBits_def wr_inv_def)
  show "ReadBytes r addr (2 ^ 28) = None" by (simp only: ReadBytes_def ReadBits_def b) simp
qed

section \<open>Integers\<close>

text \<open>
  the exact effect of \<open>WriteUBitLong\<close> on the buffer. A write that fits moves the position by
  \<open>numbits\<close>, puts the low \<open>numbits\<close> bits of the value there and leaves every bit before them alone. The
  value is not masked: its higher bits are or-ed into what follows, up to the end of the last double
  word the write touches; nothing beyond it changes, and a value below \<open>2 ^ numbits\<close> leaves all of it
  as it was.
\<close>

lemma WriteUBitLong_exact:
  assumes "wr_inv w" and "0 < n" "n \<le> 32" and "w_iCurBit w + int n \<le> w_nDataBits w"
    and "w_iCurBit w = int c"
  shows "\<exists>buf. WriteUBitLong w d n = Some (w\<lparr>w_pData := buf, w_iCurBit := int (c + n)\<rparr>) \<and>
     length buf = length (w_pData w) \<and>
     (\<forall>i. buf_bit buf i =
        (if i < c then buf_bit (w_pData w) i
         else if i < c + n then bit d (i - c)
         else buf_bit (w_pData w) i \<or> (i div 32 \<le> (c + n - 1) div 32 \<and> bit d (i - c)))) \<and>
     (unat d < 2 ^ n \<longrightarrow> (\<forall>i. c + n \<le> i \<longrightarrow> buf_bit buf i = buf_bit (w_pData w) i))"
proof -
  from WriteUBitLong_effect [OF assms, of d] obtain buf where
    b: "WriteUBitLong w d n = Some (w\<lparr>w_pData := buf, w_iCurBit := w_iCurBit w + int n\<rparr>)"
      "length buf = length (w_pData w)"
      "\<And>i. buf_bit buf i = (if i < c then buf_bit (w_pData w) i
         else if i < c + n then bit d (i - c)
         else buf_bit (w_pData w) i \<or> (i div 32 \<le> (c + n - 1) div 32 \<and> bit d (i - c)))" by blast
  have f: "buf_bit buf i = buf_bit (w_pData w) i" if "unat d < 2 ^ n" "c + n \<le> i" for i
    using bit_less_exp [OF that(1), of "i - c"] that(2) by (auto simp: b(3))
  have c1: "WriteUBitLong w d n = Some (w\<lparr>w_pData := buf, w_iCurBit := int (c + n)\<rparr>)"
    using b(1) assms(5) by simp
  show ?thesis
    by (intro exI [of _ buf] conjI allI impI) (fact c1, fact b(2), fact b(3), erule (1) f)
qed

lemma WriteUBitLong_exact_witness:
  "\<exists>buf. WriteUBitLong (StartWriting [0xFF, 0xFF, 0xFF, 0xFF] 4 3 (-1)) 5 6 =
     Some ((StartWriting [0xFF, 0xFF, 0xFF, 0xFF] 4 3 (-1))\<lparr>w_pData := buf, w_iCurBit := 9\<rparr>) \<and>
   length buf = 4 \<and> \<not> buf_bit buf 4 \<and> buf_bit buf 9"
proof -
  let ?w = "StartWriting [0xFF, 0xFF, 0xFF, 0xFF] 4 3 (-1)"
  have "wr_inv ?w" "w_iCurBit ?w + int 6 \<le> w_nDataBits ?w" "w_iCurBit ?w = int 3"
    by (simp_all add: wr_inv_def StartWriting_def)
  from WriteUBitLong_exact [OF this(1) _ _ this(2,3), of 5] obtain buf where
    b: "WriteUBitLong ?w 5 6 = Some (?w\<lparr>w_pData := buf, w_iCurBit := int (3 + 6)\<rparr>)"
      "length buf = length (w_pData ?w)"
      "\<And>i. buf_bit buf i = (if i < 3 then buf_bit (w_pData ?w) i
         else if i < 3 + 6 then bit (5 :: u32) (i - 3)
         else buf_bit (w_pData ?w) i \<or> (i div 32 \<le> (3 + 6 - 1) div 32 \<and> bit (5 :: u32) (i - 3)))" by auto
  have "\<not> bit (5 :: u32) 1" by (simp add: bit_iff_odd)
  then have "\<not> buf_bit buf 4" unfolding b(3) by simp
  moreover have "buf_bit (w_pData ?w) 9" by (simp add: StartWriting_def buf_bit_def bit_iff_odd)
  then have "buf_bit buf 9" unfolding b(3) by simp
  ultimately show ?thesis using b(1,2) by (intro exI [of _ buf]) (simp add: StartWriting_def)
qed

text \<open>
  C5: the fast paths of \<open>WriteVarInt32\<close> and \<open>WriteVarInt64\<close>, which store bytes straight into the
  buffer, give exactly the state the slow paths give, for every value and every position, so the
  choice of path cannot be observed.
\<close>

lemma VarInt_fast_eq_slow:
  assumes "wr_inv w"
  shows "WriteVarInt32 w d = VarIntSlow w d \<and> WriteVarInt64 w e = VarIntSlow w e"
  using VarInt32_paths [OF assms] VarInt64_paths [OF assms] by simp

lemma VarInt_fast_eq_slow_witness:
  "WriteVarInt32 (StartWriting (replicate 12 0) 12 8 (-1)) 300 =
     VarIntSlow (StartWriting (replicate 12 0) 12 8 (-1)) (300 :: u32) \<and>
   WriteVarInt64 (StartWriting (replicate 12 0) 12 8 (-1)) 70000000000 =
     VarIntSlow (StartWriting (replicate 12 0) 12 8 (-1)) (70000000000 :: u64)"
proof -
  have "wr_inv (StartWriting (replicate 12 0) 12 8 (-1))" by (simp add: wr_inv_def StartWriting_def)
  then show ?thesis by (rule VarInt_fast_eq_slow)
qed

text \<open>
  \<open>ByteSizeVarInt32\<close> and its companions predict the size of what is written: a variable-length
  integer that fits moves the position by eight bits for each byte of that size. The size is at
  most five bytes for 32 bits and ten for 64, and more than \<open>k\<close> bytes are used exactly for the
  values that do not fit in \<open>7 * k\<close> bits.
\<close>

lemma varint_size:
  fixes d :: u32 and e :: u64
  assumes "room w (8 * ByteSizeVarInt d)" and "room v (8 * ByteSizeVarInt e)"
  shows "\<exists>w' v'. WriteVarInt32 w d = Some w' \<and> WriteVarInt64 v e = Some v' \<and>
     w_iCurBit w' = w_iCurBit w + 8 * int (ByteSizeVarInt d) \<and>
     w_iCurBit v' = w_iCurBit v + 8 * int (ByteSizeVarInt e) \<and>
     \<not> w_bOverflow w' \<and> \<not> w_bOverflow v' \<and>
     ByteSizeVarInt d \<le> 5 \<and> ByteSizeVarInt e \<le> 10 \<and>
     (\<forall>k > 0. k < ByteSizeVarInt d \<longleftrightarrow> 2 ^ (7 * k) \<le> unat d) \<and>
     (\<forall>k > 0. k < ByteSizeVarInt e \<longleftrightarrow> 2 ^ (7 * k) \<le> unat e)"
proof -
  from WriteVarInt32_emits [OF assms(1) [unfolded ByteSizeVarInt_length]] obtain w' where
    w': "WriteVarInt32 w d = Some w'" "emits w (byte_bits (varint_bytes d)) w'" by blast
  from WriteVarInt64_emits [OF assms(2) [unfolded ByteSizeVarInt_length]] obtain v' where
    v': "WriteVarInt64 v e = Some v'" "emits v (byte_bits (varint_bytes e)) v'" by blast
  show ?thesis using w' v' length_varint_32 [of d] length_varint_64 [of e]
    by (auto simp: ByteSizeVarInt_length emits_def less_length_varint)
qed

lemma varint_size_witness:
  "\<exists>w'. WriteVarInt32 (StartWriting (replicate 12 0) 12 1 (-1)) 300 = Some w' \<and> w_iCurBit w' = 17"
proof -
  let ?w = "StartWriting (replicate 12 0) 12 1 (-1)"
  have s: "ByteSizeVarInt (300 :: u32) = 2" "ByteSizeVarInt (300 :: u64) = 2"
    by (simp_all add: ByteSizeVarInt.simps)
  have "room ?w (8 * ByteSizeVarInt (300 :: u32))" "room ?w (8 * ByteSizeVarInt (300 :: u64))"
    unfolding s by (simp_all add: room_def wr_inv_def StartWriting_def)
  from varint_size [OF this] show ?thesis unfolding s by (auto simp: StartWriting_def)
qed

section \<open>Blocks and strings\<close>

text \<open>
  C6: \<open>WriteBits\<close> copies the bits of its source in order, whichever of its paths runs. Where the
  copy fits and nothing has overflowed, it reports success and the stream grows by exactly the first
  \<open>nBits\<close> bits of the block, for every alignment of the source address, every position of the stream
  and every length; the position moves by \<open>nBits\<close>.
\<close>

lemma WriteBits_copies:
  assumes "room w n" and "n \<le> 8 * length pIn"
  shows "\<exists>w'. WriteBits w addr pIn (int n) = Some (True, w') \<and>
     written_bits w' = written_bits w @ map (buf_bit pIn) [0..<n] \<and> w_iCurBit w' = w_iCurBit w + int n"
proof -
  from WriteBits_emits [OF assms, of addr] obtain w' where
    w': "WriteBits w addr pIn (int n) = Some (True, w')" "emits w (block_bits pIn n) w'" by blast
  have "w_iCurBit w' = w_iCurBit w + int n" using w'(2) by (simp add: emits_def)
  with w' emits_written [OF w'(2) room_cur [OF assms(1)]] show ?thesis by (simp add: block_bits_def)
qed

lemma WriteBits_copies_witness:
  "\<exists>w'. WriteBits (StartWriting (replicate 32 0) 32 3 (-1)) 1 [1, 2, 3, 4, 5, 6, 7, 8, 9, 10, 11, 12, 13] 99 =
     Some (True, w') \<and> w_iCurBit w' = 102"
proof -
  have "room (StartWriting (replicate 32 0) 32 3 (-1)) 99"
    by (simp add: room_def wr_inv_def StartWriting_def)
  moreover have "99 \<le> 8 * length ([1, 2, 3, 4, 5, 6, 7, 8, 9, 10, 11, 12, 13] :: u8 list)" by simp
  ultimately show ?thesis using WriteBits_copies [where addr = 1] by (fastforce simp: StartWriting_def)
qed

text \<open>
  \<open>ReadString\<close> on a stream that holds a string keeps its first \<open>maxLen - 1\<close> characters, always
  terminated, consumes the string to its end, and reports whether all of it was kept. The string
  ends at a zero, or in line mode at the first newline or zero.
\<close>

lemma ReadString_reads:
  assumes "rd_at r p" and "p + 8 * length (s @ [t]) \<le> 8 * length (r_pData r)"
    and "\<forall>k < 8 * length (s @ [t]). buf_bit (r_pData r) (p + k) = byte_bits (s @ [t]) ! k"
    and "\<forall>c \<in> set s. c \<noteq> 0 \<and> \<not> (bLine \<and> c = 10)" and "t = 0 \<or> (bLine \<and> t = 10)"
  shows "\<exists>r'. ReadString r maxLen bLine = Some (length s \<le> maxLen - 1, take (maxLen - 1) s @ [0], r') \<and>
     rd_at r' (p + 8 * length (s @ [t]))"
proof -
  have "sees r p (byte_bits (s @ [t]))" using assms(1,2,3) unfolding sees_def length_byte_bits by blast
  moreover have "\<forall>c \<in> set s. \<not> str_end bLine c" "str_end bLine t"
    using assms(4,5) by (auto simp: str_end_def)
  ultimately obtain r' where "ReadString r maxLen bLine = Some (length s \<le> maxLen - 1, take (maxLen - 1) s @ [0], r')"
    "took r p (8 * (length s + 1)) r'" using ReadString_sees by blast
  then show ?thesis by (auto simp: took_def)
qed

lemma ReadString_reads_witness:
  "\<exists>r r'. StartReading [65, 66, 67, 0] 4 0 (-1) = Some r \<and> ReadString r 3 False = Some (False, [65, 66, 0], r')"
proof -
  let ?S = "[65, 66, 67, 0] :: u8 list"
  from StartReading_at [of ?S 0] obtain r where
    r: "StartReading ?S (length ?S) (int 0) (-1) = Some r" "rd_at r 0" "r_pData r = ?S" by auto
  have "byte_bits ([65, 66, 67] @ [0]) = block_bits ?S (8 * length ?S)"
    by (simp only: block_bits_byte_bits append.simps)
  then have "\<forall>k < 8 * length ?S. buf_bit ?S k = byte_bits ([65, 66, 67] @ [0]) ! k"
    by (metis nth_block_bits)
  then have "\<exists>r'. ReadString r 3 False =
      Some (length [65, 66, 67 :: u8] \<le> 3 - 1, take (3 - 1) [65, 66, 67] @ [0], r') \<and>
      rd_at r' (0 + 8 * length ([65, 66, 67] @ [0 :: u8]))"
    using r(2,3) by (intro ReadString_reads) simp_all
  then obtain r' where "ReadString r 3 False = Some (False, [65, 66, 0], r')" by auto
  moreover have "length ?S = 4" "int 0 = 0" by simp_all
  ultimately show ?thesis using r(1) by metis
qed

text \<open>
  \<open>WriteBitsFromBuffer\<close> moves bits from a reader to a writer: where the source has them and they
  fit, the stream grows by exactly the \<open>nBits\<close> bits that follow the reader's position, and the reader
  stands after them.
\<close>

lemma WriteBitsFromBuffer_moves:
  assumes "rd_at r p" and "p + n \<le> 8 * length (r_pData r)" and "room w n" and "0 < n"
  shows "\<exists>w' r'. WriteBitsFromBuffer w r n = Some (True, w', r') \<and>
     written_bits w' = written_bits w @ map (\<lambda>k. buf_bit (r_pData r) (p + k)) [0..<n] \<and> rd_at r' (p + n)"
  using WriteBitsFromBuffer_emits [OF assms] emits_written [OF _ room_cur [OF assms(3)]]
  by (auto simp: bits_from_def)

lemma WriteBitsFromBuffer_moves_witness:
  "\<exists>r w' r'. StartReading [1, 2, 3, 4, 5] 5 7 (-1) = Some r \<and>
     WriteBitsFromBuffer (StartWriting (replicate 8 0) 8 5 (-1)) r 33 = Some (True, w', r') \<and> rd_at r' 40"
proof -
  let ?S = "[1, 2, 3, 4, 5] :: u8 list"
  from StartReading_at [of ?S 7] obtain r where
    r: "StartReading ?S (length ?S) (int 7) (-1) = Some r" "rd_at r 7" "r_pData r = ?S" by auto
  have room: "room (StartWriting (replicate 8 0) 8 5 (-1)) 33"
    by (simp add: room_def wr_inv_def StartWriting_def)
  from WriteBitsFromBuffer_moves [OF r(2) _ room] r(3) obtain w' r' where
    "WriteBitsFromBuffer (StartWriting (replicate 8 0) 8 5 (-1)) r 33 = Some (True, w', r')" "rd_at r' 40" by auto
  moreover have "length ?S = 5" "int 7 = 7" by simp_all
  ultimately show ?thesis using r(1) by metis
qed

section \<open>Positions and overflow of the reader\<close>

text \<open>
  \<open>Seek\<close> goes where it is told. For a buffer of any size, also one that does not end on a double
  word, a seek to a bit of the data followed by a read of up to 32 bits that are in the data returns
  exactly those bits of the buffer, and \<open>Tell\<close> reports the position before and after.
\<close>

lemma Seek_then_read:
  assumes "rd_at r q" and "r_nDataBits r = 8 * int (length (r_pData r))"
    and n: "0 < n" "n \<le> 32" and fits: "p + n \<le> 8 * length (r_pData r)"
  shows "\<exists>r1 v r2. Seek r (int p) = Some (True, r1) \<and> Tell r1 = int p \<and>
     ReadUBitLong r1 n = Some (v, r2) \<and> Tell r2 = int (p + n) \<and>
     (\<forall>j. bit v j \<longleftrightarrow> j < n \<and> buf_bit (r_pData r) (p + j))"
proof -
  have r: "r_nDataBytes r = length (r_pData r)" "\<not> r_bOverflow r" using assms(1) by (simp_all add: rd_at_def)
  have p: "p < 8 * length (r_pData r)" using n fits by linarith
  from Seek_at [OF r, of p] p assms(2) obtain r1 where
    s: "Seek r (int p) = Some (True, r1)" "rd_at r1 p" "rd_same r r1" by fastforce
  have fits1: "p + n \<le> 8 * length (r_pData r1)" using fits s(3) by (simp add: rd_same_def)
  from ReadUBitLong_at [OF s(2) n fits1] obtain v r2 where
    v: "ReadUBitLong r1 n = Some (v, r2)" "rd_at r2 (p + n)" "rd_same r1 r2" "rd_word (r_pData r1) p n v" by blast
  have "r_nDataBits r1 = 8 * int (length (r_pData r1))" "r_nDataBits r2 = 8 * int (length (r_pData r2))"
    using s(3) v(3) assms(2) by (simp_all add: rd_same_def)
  with s v Tell_position [OF s(2)] Tell_position [OF v(2)] show ?thesis
    by (auto simp: rd_word_def rd_same_def)
qed

lemma Seek_then_read_witness:
  "\<exists>r r1 v r2. StartReading [1, 2, 3, 4, 0xF5] 5 0 (-1) = Some r \<and> Seek r 7 = Some (True, r1) \<and>
     ReadUBitLong r1 30 = Some (v, r2) \<and> Tell r2 = 37"
proof -
  let ?S = "[1, 2, 3, 4, 0xF5] :: u8 list"
  from StartReading_at [of ?S 0] obtain r where
    r: "StartReading ?S (length ?S) (int 0) (-1) = Some r" "rd_at r 0" "r_pData r = ?S"
      "r_nDataBits r = 8 * int (length ?S)" by auto
  from Seek_then_read [OF r(2), of 30 7] r(3,4) obtain r1 v r2 where
    "Seek r (int 7) = Some (True, r1)" "ReadUBitLong r1 30 = Some (v, r2)" "Tell r2 = 37" by auto
  moreover have "length ?S = 5" "int 0 = 0" "int 7 = 7" by simp_all
  ultimately show ?thesis using r(1) by metis
qed

text \<open>
  a read past the data returns zero and sets the overflow flag, and from then on every read
  returns zero with the flag still set.
\<close>

lemma read_past_end:
  assumes "rd_at r p" and "0 < n" "n \<le> 32" and "8 * length (r_pData r) < p + n"
  shows "\<exists>r'. ReadUBitLong r n = Some (0, r') \<and> r_bOverflow r' \<and>
     (\<forall>ns. \<exists>r''. get_all (\<lambda>n r. ReadUBitLong r n) ns r' = Some (map (\<lambda>_. 0) ns, r'') \<and> r_bOverflow r'')"
proof -
  from ReadUBitLong_past [OF assms] obtain r' where
    r': "ReadUBitLong r n = Some (0, r')" "rd_dead r'" by blast
  have "\<exists>r''. get_all (\<lambda>n r. ReadUBitLong r n) ns x = Some (map (\<lambda>_. 0) ns, r'') \<and> r_bOverflow r''"
    if "rd_dead x" for ns x
    using that
  proof (induction ns arbitrary: x)
    case (Cons m ns)
    from ReadUBitLong_dead [OF Cons.prems, of m] obtain y where "ReadUBitLong x m = Some (0, y)" "rd_dead y" by blast
    with Cons.IH [of y] show ?case by auto
  qed (simp add: rd_dead_def)
  with r' show ?thesis by (auto simp: rd_dead_def)
qed

lemma read_past_end_witness:
  "\<exists>r r'. StartReading [0xFF] 1 0 (-1) = Some r \<and> ReadUBitLong r 9 = Some (0, r') \<and> r_bOverflow r'"
proof -
  let ?S = "[0xFF] :: u8 list"
  from StartReading_at [of ?S 0] obtain r where
    r: "StartReading ?S (length ?S) (int 0) (-1) = Some r" "rd_at r 0" "r_pData r = ?S" by auto
  from read_past_end [OF r(2), of 9] r(3) obtain r' where
    "ReadUBitLong r 9 = Some (0, r')" "r_bOverflow r'" by auto
  moreover have "length ?S = 1" "int 0 = 0" by simp_all
  ultimately show ?thesis using r(1) by metis
qed

section \<open>Where writer and reader differ\<close>

lemma buf_bit_dword_bytes: "j < 32 \<Longrightarrow> buf_bit (dword_bytes v) j = bit v j"
proof -
  assume j: "j < 32"
  define m where "m = j mod 8"
  have m: "m < 8" and e: "j = 8 * (j div 8) + m" by (simp_all add: m_def)
  have q: "j div 8 < 4" using j by (simp add: less_mult_imp_div_less)
  have "bit (dword_bytes v ! (j div 8)) m = bit v (8 * (j div 8) + m)"
    using less_4_cases [OF q] m
    by (elim disjE) (simp_all add: dword_bytes_def bit_unsigned_iff bit_drop_bit_eq)
  then show ?thesis using e by (simp add: buf_bit_def m_def)
qed

lemma bit_DWordSwapC:
  assumes "q < 4" "m < 8"
  shows "bit (DWordSwapC v) (8 * q + m) = bit v (8 * (3 - q) + m)"
proof -
  have masks: "(0x00FF0000 :: u32) = push_bit 16 (mask 8)" "(0x0000FF00 :: u32) = push_bit 8 (mask 8)"
    "(0x000000FF :: u32) = mask 8"
    by (simp_all add: mask_eq_exp_minus_1 push_bit_eq_mult)
  have b: "bit (DWordSwapC v) j \<longleftrightarrow> j < 32 \<and>
      (bit v (24 + j) \<or> (8 \<le> j \<and> j < 16 \<and> bit v (8 + j)) \<or>
       (16 \<le> j \<and> j < 24 \<and> bit v (j - 8)) \<or> (24 \<le> j \<and> bit v (j - 24)))" for j
    unfolding DWordSwapC_def masks bit_or_iff bit_and_iff bit_push_bit_iff bit_drop_bit_eq comp_def bit_mask_iff
    using bit_32_less [of v "24 + j"] bit_32_less [of v "8 + j"] by (auto simp: le_diff_conv2)
  have nb: "\<not> bit v k" if "32 \<le> k" for k using bit_32_less [of v k] that by auto
  show ?thesis using less_4_cases [OF assms(1)] assms(2)
    by (elim disjE) (auto simp: b nb)
qed

lemma DWordSwapC_inverse: "DWordSwapC (DWordSwapC v) = v"
proof (rule bit_word_eqI)
  fix j assume "j < LENGTH(32)"
  then have j: "j div 8 < 4" "j mod 8 < 8" by (simp_all add: less_mult_imp_div_less)
  then have "3 - j div 8 < 4" "3 - (3 - j div 8) = j div 8" by linarith+
  with bit_DWordSwapC [OF j, of "DWordSwapC v"] bit_DWordSwapC [OF _ j(2), of "3 - j div 8" v]
  show "bit (DWordSwapC (DWordSwapC v)) j = bit v j" by simp
qed

lemma emits_open:
  assumes "room w n" "emits w bs w'" "length bs = n" "0 < n"
  shows "\<exists>r. StartReading (w_pData w') (length (w_pData w')) (w_iCurBit w) (-1) = Some r \<and>
     sees r (nat (w_iCurBit w)) bs"
proof -
  let ?p = "nat (w_iCurBit w)"
  note ne = room_nonempty [OF assms(1,4) refl]
  have len: "length (w_pData w') = length (w_pData w)" and c: "int ?p = w_iCurBit w"
    using assms(2) room_cur [OF assms(1)] by (simp_all add: emits_def)
  from StartReading_at [of "w_pData w'" ?p] ne len obtain r where
    "StartReading (w_pData w') (length (w_pData w')) (int ?p) (-1) = Some r" "rd_at r ?p" "r_pData r = w_pData w'"
    by fastforce
  with emits_sees [OF assms(2) room_cur [OF assms(1)]] c show ?thesis by auto
qed

lemma WriteFloat_emits:
  assumes "room w 32"
  shows "\<exists>w'. WriteFloat w v = Some w' \<and> emits w (ubits 32 (DWordSwapC v)) w'"
proof -
  have "32 \<le> 8 * length (dword_bytes (DWordSwapC v))" by (simp add: dword_bytes_def)
  from WriteBits_emits [OF assms this, of 0] obtain w' where
    w': "WriteBits w 0 (dword_bytes (DWordSwapC v)) 32 = Some (True, w')"
      "emits w (block_bits (dword_bytes (DWordSwapC v)) 32) w'" by auto
  have "block_bits (dword_bytes (DWordSwapC v)) 32 = ubits 32 (DWordSwapC v)"
    by (rule nth_equalityI) (simp_all add: buf_bit_dword_bytes)
  with w' show ?thesis by (simp add: WriteFloat_def)
qed

lemma ReadUBitLong_32:
  assumes "sees r p (ubits 32 (v :: u32))"
  shows "\<exists>r'. ReadUBitLong r 32 = Some (v, r') \<and> took r p 32 r'"
proof -
  have "unat v < 2 ^ LENGTH(32)" by (rule unsigned_less)
  then show ?thesis using ReadUBitLong_ubits [OF assms] by simp
qed

text \<open>
  \<open>WriteFloat\<close> and \<open>ReadFloat\<close> do not agree on the byte order. What \<open>ReadFloat\<close> returns for a
  float written by \<open>WriteFloat\<close> is its pattern with the four bytes reversed; reversing is its own
  inverse, and \<open>WriteBitFloat\<close> with \<open>ReadBitFloat\<close> keeps the pattern.
\<close>

lemma float_reversed:
  assumes "room w 32"
  shows "(\<exists>w' r r'. WriteFloat w v = Some w' \<and>
       StartReading (w_pData w') (length (w_pData w')) (w_iCurBit w) (-1) = Some r \<and>
       ReadFloat r = Some (DWordSwapC v, r')) \<and>
     DWordSwapC (DWordSwapC v) = v \<and>
     (\<exists>w' r r'. WriteBitFloat w v = Some w' \<and>
       StartReading (w_pData w') (length (w_pData w')) (w_iCurBit w) (-1) = Some r \<and>
       ReadBitFloat r = Some (v, r'))"
proof -
  from WriteFloat_emits [OF assms, of v] obtain w1 where
    w1: "WriteFloat w v = Some w1" "emits w (ubits 32 (DWordSwapC v)) w1" by blast
  from WriteUBitLong_emits [OF assms, of v] obtain w2 where
    w2: "WriteBitFloat w v = Some w2" "emits w (ubits 32 v) w2" by (auto simp: WriteBitFloat_def)
  from emits_open [OF assms w1(2)] obtain r1 where
    r1: "StartReading (w_pData w1) (length (w_pData w1)) (w_iCurBit w) (-1) = Some r1"
      "sees r1 (nat (w_iCurBit w)) (ubits 32 (DWordSwapC v))" by auto
  from emits_open [OF assms w2(2)] obtain r2 where
    r2: "StartReading (w_pData w2) (length (w_pData w2)) (w_iCurBit w) (-1) = Some r2"
      "sees r2 (nat (w_iCurBit w)) (ubits 32 v)" by auto
  show ?thesis
    using w1(1) w2(1) r1(1) r2(1) ReadUBitLong_32 [OF r1(2)] ReadUBitLong_32 [OF r2(2)] DWordSwapC_inverse
    by (auto simp: ReadFloat_def ReadBitFloat_def)
qed

lemma float_reversed_witness:
  "\<exists>w' r r'. WriteFloat (StartWriting [0, 0, 0, 0] 4 0 (-1)) 0x3F800000 = Some w' \<and>
     StartReading (w_pData w') (length (w_pData w')) 0 (-1) = Some r \<and> ReadFloat r = Some (0x0000803F, r')"
proof -
  have "room (StartWriting [0, 0, 0, 0] 4 0 (-1)) 32"
    by (simp add: room_def wr_inv_def StartWriting_def)
  moreover have "DWordSwapC 0x3F800000 = 0x0000803F" by (simp add: DWordSwapC_def)
  ultimately show ?thesis
    using float_reversed [where w = "StartWriting [0, 0, 0, 0] 4 0 (-1)" and v = "0x3F800000"] by (simp add: StartWriting_def)
qed

text \<open>
  \<open>WriteUBitVar\<close> and \<open>ReadUBitVar\<close> do not agree on the format. The writer puts the selector below 
  the value, the reader looks for it above the low four bits: a value below four comes back
  multiplied by four.
\<close>

lemma UBitVar_mismatch:
  assumes "room w 6" and v: "unat v < 4"
  shows "\<exists>w' r r'. WriteUBitVar w v = Some w' \<and>
     StartReading (w_pData w') (length (w_pData w')) (w_iCurBit w) (-1) = Some r \<and>
     ReadUBitVar r = Some (4 * v, r')"
proof -
  have "v < 0x10" "v < 0x100" "v < 0x1000" using v by (simp_all add: word_less_nat_alt)
  then have n: "ubitvar_n v = -3" "\<not> 0x1000 \<le> v" by (simp_all add: ubitvar_n_def)
  have small: "unat (4 * v) = 4 * unat v" using v by (simp add: unat_word_ariths)
  from WriteUBitLong_emits [OF assms(1), of "4 * v"] obtain w' where
    w': "WriteUBitLong w (4 * v) 6 = Some w'" "emits w (ubits 6 (4 * v)) w'" by auto
  have wv: "WriteUBitVar w v = Some w'" using w'(1) by (simp add: WriteUBitVar_def n Let_def mult.commute)
  from emits_open [OF assms(1) w'(2)] obtain r where
    r: "StartReading (w_pData w') (length (w_pData w')) (w_iCurBit w) (-1) = Some r"
      "sees r (nat (w_iCurBit w)) (ubits 6 (4 * v))" by auto
  have "unat (4 * v) < 2 ^ 6" using small v by simp
  from ReadUBitLong_ubits [OF r(2) _ _ this] obtain r' where
    r': "ReadUBitLong r 6 = Some (4 * v, r')" by auto
  have "unat (4 * v) < 2 ^ 4" using small v by simp
  then have hi: "\<not> bit (4 * v) j" if "4 \<le> j" for j using bit_less_exp [of "4 * v" 4 j] that by auto
  have a: "(4 * v) AND push_bit 4 (mask 2) = 0"
    by (intro bit_word_eqI) (auto simp: bit_and_iff bit_push_bit_iff bit_mask_iff hi)
  have "push_bit 4 (mask 2) = (48 :: u32)" by (simp add: mask_eq_exp_minus_1 push_bit_eq_mult)
  with a have "(4 * v) AND 48 = 0" by simp
  with r' have "ReadUBitVar r = Some (4 * v, r')" by (simp add: ReadUBitVar_def Let_def)
  then show ?thesis using r(1) wv by blast
qed

lemma UBitVar_mismatch_witness:
  "\<exists>w' r r'. WriteUBitVar (StartWriting [0, 0, 0, 0] 4 0 (-1)) 3 = Some w' \<and>
     StartReading (w_pData w') (length (w_pData w')) 0 (-1) = Some r \<and> ReadUBitVar r = Some (12, r')"
proof -
  have "room (StartWriting [0, 0, 0, 0] 4 0 (-1)) 6"
    by (simp add: room_def wr_inv_def StartWriting_def)
  then show ?thesis
    using UBitVar_mismatch [where w = "StartWriting [0, 0, 0, 0] 4 0 (-1)" and v = 3] by (simp add: StartWriting_def)
qed

text \<open>
  a write of no bits to a stream that is exactly full reads and writes the double word past its end:
  \<open>WriteBitsFromBuffer\<close> with no bits, and \<open>WriteSBitLong\<close> of one bit, do it.
\<close>

lemma zero_bits_past_end:
  assumes "wr_inv w" and "w_iCurBit w = int (8 * length (w_pData w))"
  shows "WriteUBitLong w d 0 = None"
proof -
  have "w_nDataBits w = int (8 * length (w_pData w))" using assms by (simp add: wr_inv_def)
  moreover have "length (w_pData w) < 4 * nat (w_iCurBit w div 32) + 4"
    unfolding assms(2) by (simp add: nat_div_distrib)
  ultimately show ?thesis using assms(2) wr_int32 [OF assms(1), of 0]
    by (simp add: WriteUBitLong_def LoadLittleDWord_def Let_def)
qed

lemma zero_bits_past_end_witness:
  "WriteUBitLong (StartWriting [1, 2, 3, 4] 4 32 (-1)) 0 0 = None"
  by (rule zero_bits_past_end) (simp_all add: wr_inv_def StartWriting_def)

end
