(* ===== verification/DataTable.thy ===== *)
theory DataTable
  imports CppStd BitMem
begin

text \<open>
  The datatable functions of \<open>src/vscript/scripts/scriptdatatables.cpp\<close>: reading a table from a CSV
  file, the cache of the tables read, the cell and row functions scripts call, and the dump of a
  packed table to CSV.

  The parser works in place. A table keeps the buffer with the text of the file, in which the ends of
  the cells are overwritten by zeros, and pointers to the starts of the cells, here offsets into it.
\<close>

section \<open>Reading CSV\<close>

record CSVData =
  m_pDataBuf :: string
  columns :: "nat list"
  dataPointers :: "nat list list"

text \<open>The variables of the parse loop.\<close>

record csvparse =
  cp_buf :: string
  bHasColumns :: bool
  bInQuotes :: bool
  vCurrentRow :: "nat list"
  pElemStart :: nat
  pElemEnd :: "nat option"
  cp_columns :: "nat list"
  cp_rows :: "nat list list"

text \<open>The end of a cell at position \<open>i\<close>: terminate the cell, keep its start, and go on behind \<open>i\<close>.\<close>

definition end_elem :: "nat \<Rightarrow> csvparse \<Rightarrow> csvparse" where
  "end_elem i s =
     s\<lparr>cp_buf := (case pElemEnd s of Some e \<Rightarrow> (cp_buf s)[e := NUL] | None \<Rightarrow> (cp_buf s)[i := NUL]),
       vCurrentRow := vCurrentRow s @ [pElemStart s],
       pElemStart := i + 1, pElemEnd := None\<rparr>"

definition end_row :: "csvparse \<Rightarrow> csvparse" where
  "end_row s =
     (if \<not> bHasColumns s
      then s\<lparr>bHasColumns := True, cp_columns := vCurrentRow s, vCurrentRow := []\<rparr>
      else s\<lparr>cp_rows := cp_rows s @ [vCurrentRow s], vCurrentRow := []\<rparr>)"

definition csv_step :: "csvparse \<Rightarrow> nat \<Rightarrow> string + csvparse" where
  "csv_step s i =
     (let c = cp_buf s ! i in
      if c = CR \<and> i + 1 < length (cp_buf s) \<and> cp_buf s ! (i + 1) = LF then
        Inr (if pElemEnd s = None then s\<lparr>pElemEnd := Some i\<rparr> else s)
      else if c = LF then
        (if bInQuotes s then Inl (''Unexpected '' @ CHR 0x5C # ''n in string'')
         else Inr (end_row (end_elem i s)))
      else if c = CHR 0x22 then
        (if \<not> bInQuotes s then
           (if \<not> bHasColumns s then Inl (''Unexpected '' @ CHR 0x22 # '' in column name'')
            else Inr (s\<lparr>bInQuotes := True, pElemStart := i + 1\<rparr>))
         else Inr (s\<lparr>pElemEnd := Some i, bInQuotes := False\<rparr>))
      else if bInQuotes s then Inr s
      else if c = CHR '','' then Inr (end_elem i s)
      else Inr s)"

primrec csv_loop :: "csvparse \<Rightarrow> nat list \<Rightarrow> string + csvparse" where
  "csv_loop s [] = Inr s"
| "csv_loop s (i # is) = (case csv_step s i of Inl e \<Rightarrow> Inl e | Inr s' \<Rightarrow> csv_loop s' is)"

definition csv_init :: "string \<Rightarrow> csvparse" where
  "csv_init txt =
     \<lparr>cp_buf = txt, bHasColumns = False, bInQuotes = False, vCurrentRow = [], pElemStart = 0,
      pElemEnd = None, cp_columns = [], cp_rows = []\<rparr>"

definition parse_csv :: "string \<Rightarrow> string + CSVData" where
  "parse_csv sTableCSV =
     (let txt = (if last sTableCSV \<noteq> LF then sTableCSV @ [LF] else sTableCSV) in
      case csv_loop (csv_init txt) [0..<length txt] of
        Inl e \<Rightarrow> Inl e
      | Inr s \<Rightarrow> Inr \<lparr>m_pDataBuf = cp_buf s, columns = cp_columns s, dataPointers = cp_rows s\<rparr>)"

section \<open>Finding a table\<close>

text \<open>
  \<open>GetDataTable\<close>. The environment is the console variable, whether the asset is in a loaded pak,
  whether the file exists and its contents; the state is \<open>CSVCache\<close>.
\<close>

record dt_env =
  prefer_from_disk :: bool
  FindAssetByName :: "string \<Rightarrow> bool"
  FileExists :: "string \<Rightarrow> bool"
  ReadVPKFile :: "string \<Rightarrow> string"

datatype dt_result = RaiseError string | Original | UserData string

definition disk_path :: "string \<Rightarrow> string" where
  "disk_path pAssetName =
     (if path_extension pAssetName = ''.rpak''
      then path_append ''scripts'' (path_append (path_dir pAssetName) (path_stem pAssetName @ ''.csv''))
      else path_append ''scripts'' pAssetName)"

definition quoted :: "string \<Rightarrow> string" where
  "quoted s = CHR 0x22 # s @ [CHR 0x22]"

definition GetDataTable ::
    "dt_env \<Rightarrow> (string \<Rightarrow> CSVData option) \<Rightarrow> string \<Rightarrow> dt_result \<times> (string \<Rightarrow> CSVData option)" where
  "GetDataTable env CSVCache pAssetName =
     (if take 10 pAssetName \<noteq> ''datatable/'' then
        (RaiseError (''Asset '' @ quoted pAssetName @ '' doesn't start with '' @ quoted ''datatable/''), CSVCache)
      else if \<not> prefer_from_disk env \<and> FindAssetByName env pAssetName then (Original, CSVCache)
      else if CSVCache pAssetName \<noteq> None then (UserData pAssetName, CSVCache)
      else if FileExists env (disk_path pAssetName) then
        (let sTableCSV = ReadVPKFile env (disk_path pAssetName) in
         if sTableCSV = [] then
           (RaiseError (''Datatable '' @ quoted pAssetName @ '' is empty''), CSVCache)
         else
           (case parse_csv sTableCSV of
              Inl e \<Rightarrow> (RaiseError e, CSVCache)
            | Inr csv \<Rightarrow> (UserData pAssetName, CSVCache(pAssetName \<mapsto> csv))))
      else if prefer_from_disk env \<and> FindAssetByName env pAssetName then (Original, CSVCache)
      else (RaiseError (''Datatable '' @ pAssetName @ '' not found''), CSVCache))"

section \<open>Cells\<close>

text \<open>
  What a script function returns: an error it raises, the value it pushes, or what the game's own
  function of that name does. Scripts pass user data, whose type says whether it is one of these
  tables or one of the game's.
\<close>

datatype userdata = CUSTOM CSVData | NATIVE

datatype 'f sq_value = SqString string | SqAsset string | SqInt int | SqFloat 'f | SqBool bool
  | SqVector 'f 'f 'f

datatype 'f sq_ret = SqError string | SqPush "'f sq_value" | SqOriginal

fun with_custom :: "userdata \<Rightarrow> (CSVData \<Rightarrow> 'f sq_ret outcome) \<Rightarrow> 'f sq_ret outcome" where
  "with_custom (CUSTOM csv) f = f csv"
| "with_custom NATIVE f = Ret SqOriginal"

definition range_error :: "CSVData \<Rightarrow> int \<Rightarrow> int \<Rightarrow> string" where
  "range_error csv nRow nCol =
     ''row '' @ show_int nRow @ '' and col '' @ show_int nCol @ '' are outside of range row '' @
     show_nat (length (dataPointers csv)) @ '' and col '' @ show_nat (length (columns csv))"

text \<open>The check the six cell functions share, and the pointer to the cell.\<close>

definition GetCell :: "CSVData \<Rightarrow> int \<Rightarrow> int \<Rightarrow> string + nat" where
  "GetCell csv nRow nCol =
     (if as_size nRow \<ge> int (length (dataPointers csv)) \<or>
         as_size nCol \<ge> int (length (dataPointers csv ! nat nRow))
      then Inl (range_error csv nRow nCol)
      else Inr (dataPointers csv ! nat nRow ! nat nCol))"

definition GetDataTableString :: "userdata \<Rightarrow> int \<Rightarrow> int \<Rightarrow> 'f sq_ret outcome" where
  "GetDataTableString ud nRow nCol =
     with_custom ud (\<lambda>csv.
       (case GetCell csv nRow nCol of
          Inl e \<Rightarrow> Ret (SqError e)
        | Inr p \<Rightarrow> obind (cstr (m_pDataBuf csv) p) (\<lambda>s. Ret (SqPush (SqString s)))))"

definition GetDataTableAsset :: "userdata \<Rightarrow> int \<Rightarrow> int \<Rightarrow> 'f sq_ret outcome" where
  "GetDataTableAsset ud nRow nCol =
     with_custom ud (\<lambda>csv.
       (case GetCell csv nRow nCol of
          Inl e \<Rightarrow> Ret (SqError e)
        | Inr p \<Rightarrow> obind (cstr (m_pDataBuf csv) p) (\<lambda>s. Ret (SqPush (SqAsset s)))))"

definition GetDataTableInt :: "userdata \<Rightarrow> int \<Rightarrow> int \<Rightarrow> 'f sq_ret outcome" where
  "GetDataTableInt ud nRow nCol =
     with_custom ud (\<lambda>csv.
       (case GetCell csv nRow nCol of
          Inl e \<Rightarrow> Ret (SqError e)
        | Inr p \<Rightarrow> obind (cstr (m_pDataBuf csv) p) (\<lambda>s. obind (stoi s) (\<lambda>n. Ret (SqPush (SqInt n))))))"

definition GetDataTableFloat :: "(string \<Rightarrow> 'f outcome) \<Rightarrow> userdata \<Rightarrow> int \<Rightarrow> int \<Rightarrow> 'f sq_ret outcome" where
  "GetDataTableFloat stof ud nRow nCol =
     with_custom ud (\<lambda>csv.
       (case GetCell csv nRow nCol of
          Inl e \<Rightarrow> Ret (SqError e)
        | Inr p \<Rightarrow> obind (cstr (m_pDataBuf csv) p) (\<lambda>s. obind (stof s) (\<lambda>x. Ret (SqPush (SqFloat x))))))"

definition GetDataTableBool :: "userdata \<Rightarrow> int \<Rightarrow> int \<Rightarrow> 'f sq_ret outcome" where
  "GetDataTableBool ud nRow nCol =
     with_custom ud (\<lambda>csv.
       (case GetCell csv nRow nCol of
          Inl e \<Rightarrow> Ret (SqError e)
        | Inr p \<Rightarrow> obind (cstr (m_pDataBuf csv) p)
            (\<lambda>s. obind (stoi s) (\<lambda>n. Ret (SqPush (SqBool (n \<noteq> 0)))))))"

text \<open>
  \<open>StringToVector\<close> of \<open>include/mathlib/vector.h\<close> works on the string itself: the brackets become
  zeros, then each of the three numbers is cut off by a zero. \<open>next_sep\<close> is one of its search loops,
  which starts at a given index whether or not the string reaches that far.
\<close>

definition cut_brackets :: "string \<Rightarrow> nat \<Rightarrow> string outcome" where
  "cut_brackets buf p =
     obind (cstr buf p) (\<lambda>s.
       Ret (take p buf @ map (\<lambda>c. if c = CHR ''<'' \<or> c = CHR ''>'' then NUL else c) s @
            drop (p + length s) buf))"

definition next_sep :: "string \<Rightarrow> nat \<Rightarrow> nat outcome" where
  "next_sep buf k =
     (let t = takeWhile (\<lambda>c. c \<noteq> NUL \<and> c \<noteq> CHR '','') (drop k buf) in
      if k + length t < length buf then Ret (k + length t) else Undefined)"

definition read_float :: "(string \<Rightarrow> 'f outcome) \<Rightarrow> string \<Rightarrow> nat \<Rightarrow> ('f \<times> string \<times> nat) outcome" where
  "read_float stof buf startOfFloat =
     obind (next_sep buf startOfFloat) (\<lambda>currentIndex.
       let buf = buf[currentIndex := NUL] in
       obind (cstr buf startOfFloat) (\<lambda>s. obind (stof s) (\<lambda>x. Ret (x, buf, currentIndex + 1))))"

definition StringToVector :: "(string \<Rightarrow> 'f outcome) \<Rightarrow> string \<Rightarrow> nat \<Rightarrow> (('f \<times> 'f \<times> 'f) \<times> string) outcome" where
  "StringToVector stof buf pString =
     obind (cut_brackets buf pString) (\<lambda>buf.
       obind (read_float stof buf (pString + 1)) (\<lambda>(x, buf, i).
         obind (read_float stof buf i) (\<lambda>(y, buf, i).
           obind (read_float stof buf i) (\<lambda>(z, buf, i). Ret ((x, y, z), buf)))))"

definition GetDataTableVector ::
    "(string \<Rightarrow> 'f outcome) \<Rightarrow> userdata \<Rightarrow> int \<Rightarrow> int \<Rightarrow> ('f sq_ret \<times> userdata) outcome" where
  "GetDataTableVector stof ud nRow nCol =
     (case ud of
        NATIVE \<Rightarrow> Ret (SqOriginal, ud)
      | CUSTOM csv \<Rightarrow>
       (case GetCell csv nRow nCol of
          Inl e \<Rightarrow> Ret (SqError e, ud)
        | Inr p \<Rightarrow> obind (StringToVector stof (m_pDataBuf csv) p)
            (\<lambda>((x, y, z), buf). Ret (SqPush (SqVector x y z), CUSTOM (csv\<lparr>m_pDataBuf := buf\<rparr>)))))"

section \<open>Rows\<close>

text \<open>
  The functions that look for a row compare the cells of one column in order. The column is not
  checked: where a row is too short, memory outside it is read.
\<close>

primrec scan_rows ::
    "string \<Rightarrow> int \<Rightarrow> (string \<Rightarrow> bool outcome) \<Rightarrow> nat list list \<Rightarrow> int \<Rightarrow> int outcome" where
  "scan_rows buf nCol test [] i = Ret (-1)"
| "scan_rows buf nCol test (row # rows) i =
     (if as_size nCol < int (length row) then
        obind (cstr buf (row ! nat nCol)) (\<lambda>s.
          obind (test s) (\<lambda>b. if b then Ret i else scan_rows buf nCol test rows (i + 1)))
      else Undefined)"

definition push_row :: "int outcome \<Rightarrow> 'f sq_ret outcome" where
  "push_row r = obind r (\<lambda>i. Ret (SqPush (SqInt i)))"

definition GetDataTableRowMatchingStringValue :: "userdata \<Rightarrow> int \<Rightarrow> string \<Rightarrow> 'f sq_ret outcome" where
  "GetDataTableRowMatchingStringValue ud nCol pStringVal =
     with_custom ud (\<lambda>csv.
       push_row (scan_rows (m_pDataBuf csv) nCol (\<lambda>s. Ret (s = pStringVal)) (dataPointers csv) 0))"

definition GetDataTableRowMatchingAssetValue :: "userdata \<Rightarrow> int \<Rightarrow> string \<Rightarrow> 'f sq_ret outcome" where
  "GetDataTableRowMatchingAssetValue ud nCol pStringVal =
     with_custom ud (\<lambda>csv.
       push_row (scan_rows (m_pDataBuf csv) nCol (\<lambda>s. Ret (s = pStringVal)) (dataPointers csv) 0))"

definition GetDataTableRowMatchingIntValue :: "userdata \<Rightarrow> int \<Rightarrow> int \<Rightarrow> 'f sq_ret outcome" where
  "GetDataTableRowMatchingIntValue ud nCol nIntVal =
     with_custom ud (\<lambda>csv.
       push_row (scan_rows (m_pDataBuf csv) nCol (\<lambda>s. obind (stoi s) (\<lambda>n. Ret (nIntVal = n))) (dataPointers csv) 0))"

text \<open>The comparison functions of floats are arguments.\<close>

definition GetDataTableRowMatchingFloatValue ::
    "(string \<Rightarrow> 'f outcome) \<Rightarrow> ('f \<Rightarrow> 'f \<Rightarrow> bool) \<Rightarrow> userdata \<Rightarrow> int \<Rightarrow> 'f \<Rightarrow> 'f sq_ret outcome" where
  "GetDataTableRowMatchingFloatValue stof feq ud nCol flFloatVal =
     with_custom ud (\<lambda>csv.
       push_row (scan_rows (m_pDataBuf csv) nCol (\<lambda>s. obind (stof s) (\<lambda>x. Ret (feq flFloatVal x))) (dataPointers csv) 0))"

text \<open>The first of these two pushes 1 whatever row it found.\<close>

definition GetDataTableRowGreaterThanOrEqualToIntValue :: "userdata \<Rightarrow> int \<Rightarrow> int \<Rightarrow> 'f sq_ret outcome" where
  "GetDataTableRowGreaterThanOrEqualToIntValue ud nCol nIntVal =
     with_custom ud (\<lambda>csv.
       obind (scan_rows (m_pDataBuf csv) nCol (\<lambda>s. obind (stoi s) (\<lambda>n. Ret (nIntVal \<ge> n))) (dataPointers csv) 0)
         (\<lambda>i. Ret (SqPush (SqInt (if i = -1 then -1 else 1)))))"

definition GetDataTableRowLessThanOrEqualToIntValue :: "userdata \<Rightarrow> int \<Rightarrow> int \<Rightarrow> 'f sq_ret outcome" where
  "GetDataTableRowLessThanOrEqualToIntValue ud nCol nIntVal =
     with_custom ud (\<lambda>csv.
       push_row (scan_rows (m_pDataBuf csv) nCol (\<lambda>s. obind (stoi s) (\<lambda>n. Ret (nIntVal \<le> n))) (dataPointers csv) 0))"

definition GetDataTableRowGreaterThanOrEqualToFloatValue ::
    "(string \<Rightarrow> 'f outcome) \<Rightarrow> ('f \<Rightarrow> 'f \<Rightarrow> bool) \<Rightarrow> userdata \<Rightarrow> int \<Rightarrow> 'f \<Rightarrow> 'f sq_ret outcome" where
  "GetDataTableRowGreaterThanOrEqualToFloatValue stof fle ud nCol flFloatVal =
     with_custom ud (\<lambda>csv.
       push_row (scan_rows (m_pDataBuf csv) nCol (\<lambda>s. obind (stof s) (\<lambda>x. Ret (fle x flFloatVal))) (dataPointers csv) 0))"

definition GetDataTableRowLessThanOrEqualToFloatValue ::
    "(string \<Rightarrow> 'f outcome) \<Rightarrow> ('f \<Rightarrow> 'f \<Rightarrow> bool) \<Rightarrow> userdata \<Rightarrow> int \<Rightarrow> 'f \<Rightarrow> 'f sq_ret outcome" where
  "GetDataTableRowLessThanOrEqualToFloatValue stof fle ud nCol flFloatVal =
     with_custom ud (\<lambda>csv.
       push_row (scan_rows (m_pDataBuf csv) nCol (\<lambda>s. obind (stof s) (\<lambda>x. Ret (fle flFloatVal x))) (dataPointers csv) 0))"

text \<open>Comparing vectors rewrites the cells on the way, so the buffer is passed along.\<close>

primrec scan_vector_rows ::
    "(string \<Rightarrow> 'f outcome) \<Rightarrow> ('f \<times> 'f \<times> 'f \<Rightarrow> bool) \<Rightarrow> int \<Rightarrow> nat list list \<Rightarrow> int \<Rightarrow> string \<Rightarrow>
     (int \<times> string) outcome" where
  "scan_vector_rows stof test nCol [] i buf = Ret (-1, buf)"
| "scan_vector_rows stof test nCol (row # rows) i buf =
     (if as_size nCol < int (length row) then
        obind (StringToVector stof buf (row ! nat nCol)) (\<lambda>(v, buf).
          if test v then Ret (i, buf) else scan_vector_rows stof test nCol rows (i + 1) buf)
      else Undefined)"

definition GetDataTableRowMatchingVectorValue ::
    "(string \<Rightarrow> 'f outcome) \<Rightarrow> ('f \<Rightarrow> 'f \<Rightarrow> bool) \<Rightarrow> userdata \<Rightarrow> int \<Rightarrow> 'f \<times> 'f \<times> 'f \<Rightarrow>
     ('f sq_ret \<times> userdata) outcome" where
  "GetDataTableRowMatchingVectorValue stof feq ud nCol vVectorVal =
     (case ud of
        NATIVE \<Rightarrow> Ret (SqOriginal, ud)
      | CUSTOM csv \<Rightarrow>
       obind (scan_vector_rows stof
           (\<lambda>(x, y, z). case vVectorVal of (a, b, c) \<Rightarrow> feq x a \<and> feq y b \<and> feq z c)
           nCol (dataPointers csv) 0 (m_pDataBuf csv))
         (\<lambda>(i, buf). Ret (SqPush (SqInt i), CUSTOM (csv\<lparr>m_pDataBuf := buf\<rparr>))))"

primrec find_column :: "string \<Rightarrow> string \<Rightarrow> nat list \<Rightarrow> int \<Rightarrow> int outcome" where
  "find_column buf pColumnName [] i = Ret (-1)"
| "find_column buf pColumnName (p # ps) i =
     obind (cstr buf p) (\<lambda>s. if s = pColumnName then Ret i else find_column buf pColumnName ps (i + 1))"

definition GetDataTableColumnByName :: "userdata \<Rightarrow> string \<Rightarrow> 'f sq_ret outcome" where
  "GetDataTableColumnByName ud pColumnName =
     with_custom ud (\<lambda>csv.
       push_row (find_column (m_pDataBuf csv) pColumnName (columns csv) 0))"

definition GetDatatableRowCount :: "userdata \<Rightarrow> 'f sq_ret outcome" where
  "GetDatatableRowCount ud =
     with_custom ud (\<lambda>csv.
       Ret (SqPush (SqInt (int (length (dataPointers csv))))))"

section \<open>Dumping\<close>

text \<open>
  A packed table: its columns, and the memory its rows are in, each \<open>rowInfo\<close> bytes long. Strings are
  pointers into memory outside it, which \<open>deref\<close> gives. Floats are 32-bit patterns; how they are
  printed by \<open>std::to_string\<close> and by \<open>fmt\<close> are arguments.
\<close>

datatype DatatableType = DT_BOOL | DT_INT | DT_FLOAT | DT_VECTOR | DT_STRING | DT_ASSET | DT_UNK_STRING

record ColumnInfo =
  col_name :: string
  col_type :: DatatableType
  col_offset :: nat

record Datatable =
  columnInfo :: "ColumnInfo list"
  numRows :: nat
  dt_data :: "u8 list"
  rowInfo :: nat

record dump_env =
  deref :: "u64 \<Rightarrow> string"
  to_string_float :: "u32 \<Rightarrow> string"
  fmt_float :: "u32 \<Rightarrow> string"

definition load32 :: "u8 list \<Rightarrow> nat \<Rightarrow> u32 outcome" where
  "load32 mem at = (if at + 4 \<le> length mem then Ret (dword_at mem at) else Undefined)"

definition load64 :: "u8 list \<Rightarrow> nat \<Rightarrow> u64 outcome" where
  "load64 mem at = obind (load32 mem at) (\<lambda>lo. obind (load32 mem (at + 4)) (\<lambda>hi.
     Ret (ucast lo OR push_bit 32 (ucast hi))))"

definition cell_text :: "dump_env \<Rightarrow> Datatable \<Rightarrow> ColumnInfo \<Rightarrow> nat \<Rightarrow> string outcome" where
  "cell_text env t column row =
     (let at = col_offset column + row * rowInfo t; mem = dt_data t in
      case col_type column of
        DT_BOOL \<Rightarrow> (if at < length mem then Ret (if mem ! at \<noteq> 0 then ''1'' else ''0'') else Undefined)
      | DT_INT \<Rightarrow> obind (load32 mem at) (\<lambda>v. Ret (show_int (sint v)))
      | DT_FLOAT \<Rightarrow> obind (load32 mem at) (\<lambda>v. Ret (to_string_float env v))
      | DT_VECTOR \<Rightarrow> obind (load32 mem at) (\<lambda>x. obind (load32 mem (at + 4)) (\<lambda>y. obind (load32 mem (at + 8)) (\<lambda>z.
          Ret (''<'' @ fmt_float env x @ '','' @ fmt_float env y @ '','' @ fmt_float env z @ ''>''))))
      | DT_STRING \<Rightarrow> obind (load64 mem at) (\<lambda>p. Ret (quoted (deref env p)))
      | DT_ASSET \<Rightarrow> obind (load64 mem at) (\<lambda>p. Ret (quoted (deref env p)))
      | DT_UNK_STRING \<Rightarrow> obind (load64 mem at) (\<lambda>p. Ret (quoted (deref env p))))"

primrec join_cells :: "bool \<Rightarrow> (string outcome) list \<Rightarrow> string outcome" where
  "join_cells bShouldComma [] = Ret []"
| "join_cells bShouldComma (c # cs) =
     obind c (\<lambda>s. obind (join_cells True cs) (\<lambda>t. Ret ((if bShouldComma then '','' else []) @ s @ t)))"

primrec dump_rows :: "dump_env \<Rightarrow> Datatable \<Rightarrow> nat list \<Rightarrow> string outcome" where
  "dump_rows env t [] = Ret []"
| "dump_rows env t (row # rows) =
     obind (join_cells False (map (\<lambda>column. cell_text env t column row) (columnInfo t))) (\<lambda>s.
       obind (dump_rows env t rows) (\<lambda>rest. Ret ([LF] @ s @ rest)))"

definition DataTableToString :: "dump_env \<Rightarrow> Datatable \<Rightarrow> string outcome" where
  "DataTableToString env t =
     obind (join_cells False (map (\<lambda>c. Ret (col_name c)) (columnInfo t))) (\<lambda>s.
       obind (dump_rows env t [0..<numRows t]) (\<lambda>rest. Ret (s @ rest)))"

text \<open>
  \<open>DumpDatatable\<close> writes the text to a file named after the table, in text mode; the files written are the state.
\<close>

definition DumpDatatable ::
    "dump_env \<Rightarrow> (string \<Rightarrow> Datatable option) \<Rightarrow> string \<Rightarrow> string \<Rightarrow> (string \<Rightarrow> string option) \<Rightarrow>
     (string \<Rightarrow> string option) outcome" where
  "DumpDatatable env findAsset g_pModName pDatatablePath files =
     (case findAsset pDatatablePath of
        None \<Rightarrow> Ret files
      | Some t \<Rightarrow>
          obind (DataTableToString env t) (\<lambda>s.
            Ret (files(g_pModName @ ''/scripts/datatable/'' @ path_stem pDatatablePath @ ''.csv'' \<mapsto> to_crlf s))))"

definition ConCommand_dump_datatable ::
    "dump_env \<Rightarrow> (string \<Rightarrow> Datatable option) \<Rightarrow> string \<Rightarrow> string list \<Rightarrow> (string \<Rightarrow> string option) \<Rightarrow>
     (string \<Rightarrow> string option) outcome" where
  "ConCommand_dump_datatable env findAsset g_pModName args files =
     (if length args < 2 then Ret files else DumpDatatable env findAsset g_pModName (args ! 1) files)"

text \<open>The tables \<open>dump_datatables\<close> dumps, all \<open>datatable/<name>.rpak\<close>.\<close>

definition VANILLA_DATATABLE_PATHS :: "string list" where
  "VANILLA_DATATABLE_PATHS = map (\<lambda>n. ''datatable/'' @ n @ ''.rpak'')
    [''burn_meter_rewards'', ''burn_meter_store'', ''calling_cards'', ''callsign_icons'',
     ''camo_skins'', ''default_pilot_loadouts'', ''default_titan_loadouts'',
     ''faction_leaders'', ''fd_awards'', ''features_mp'', ''non_loadout_weapons'',
     ''pilot_abilities'', ''pilot_executions'', ''pilot_passives'', ''pilot_properties'',
     ''pilot_weapons'', ''pilot_weapon_features'', ''pilot_weapon_mods'',
     ''pilot_weapon_mods_common'', ''playlist_items'', ''titans_mp'', ''titan_abilities'',
     ''titan_executions'', ''titan_fd_upgrades'', ''titan_nose_art'', ''titan_passives'',
     ''titan_primary_mods'', ''titan_primary_mods_common'', ''titan_primary_weapons'',
     ''titan_properties'', ''titan_skins'', ''titan_voices'', ''unlocks_faction_level'',
     ''unlocks_fd_titan_level'', ''unlocks_player_level'', ''unlocks_random'',
     ''unlocks_titan_level'', ''unlocks_weapon_level_pilot'', ''weapon_skins'',
     ''xp_per_faction_level'', ''xp_per_fd_titan_level'', ''xp_per_player_level'',
     ''xp_per_titan_level'', ''xp_per_weapon_level'', ''faction_leaders_dropship_anims'',
     ''score_events'', ''startpoints'', ''sp_levels'', ''community_entries'',
     ''spotlight_images'', ''death_hints_mp'', ''flightpath_assets'', ''earn_meter_mp'',
     ''battle_chatter_voices'', ''battle_chatter'', ''titan_os_conversations'',
     ''faction_dialogue'', ''grunt_chatter_mp'', ''spectre_chatter_mp'', ''pain_death_sounds'',
     ''caller_ids_mp'']"

definition ConCommand_dump_datatables ::
    "dump_env \<Rightarrow> (string \<Rightarrow> Datatable option) \<Rightarrow> string \<Rightarrow> (string \<Rightarrow> string option) \<Rightarrow>
     (string \<Rightarrow> string option) outcome" where
  "ConCommand_dump_datatables env findAsset g_pModName files =
     foldl (\<lambda>r path. obind r (DumpDatatable env findAsset g_pModName path)) (Ret files)
       VANILLA_DATATABLE_PATHS"

end
