(* ===== verification/DataTableParse.thy ===== *)
theory DataTableParse
  imports DataTable
begin

text \<open>
  The CSV parser: on any text it keeps its pointers inside the buffer and on terminated strings, and
  on the text of a table, with plain or quoted cells and either kind of line end, it finds the cells
  of the table.
\<close>

section \<open>Pointers stay valid\<close>

definition terminated :: "string \<Rightarrow> nat \<Rightarrow> bool" where
  "terminated buf p \<longleftrightarrow> NUL \<in> set (drop p buf)"

lemma terminated_iff: "terminated buf p \<longleftrightarrow> (\<exists>q. p \<le> q \<and> q < length buf \<and> buf ! q = NUL)"
proof
  assume "terminated buf p"
  then obtain k where "k < length (drop p buf)" "drop p buf ! k = NUL"
    by (auto simp: terminated_def in_set_conv_nth)
  then show "\<exists>q. p \<le> q \<and> q < length buf \<and> buf ! q = NUL"
    by (intro exI [of _ "p + k"]) auto
next
  assume "\<exists>q. p \<le> q \<and> q < length buf \<and> buf ! q = NUL"
  then obtain q where "p \<le> q" "q < length buf" "buf ! q = NUL" by blast
  then have "drop p buf ! (q - p) = NUL" "q - p < length (drop p buf)" by auto
  then show "terminated buf p" unfolding terminated_def by (metis nth_mem)
qed

lemma terminated_cstr: "terminated buf p \<longleftrightarrow> (\<exists>s. cstr buf p = Ret s)"
  by (simp add: terminated_def cstr_def)

lemma terminated_update: "terminated buf p \<Longrightarrow> terminated (buf[i := NUL]) p"
  unfolding terminated_iff by (metis length_list_update nth_list_update_eq nth_list_update_neq)

lemma terminated_at: "p \<le> q \<Longrightarrow> q < length buf \<Longrightarrow> terminated (buf[q := NUL]) p"
  unfolding terminated_iff by auto

definition stored :: "csvparse \<Rightarrow> nat set" where
  "stored s = set (vCurrentRow s) \<union> set (cp_columns s) \<union> (\<Union>r \<in> set (cp_rows s). set r)"

definition csv_inv :: "nat \<Rightarrow> nat \<Rightarrow> csvparse \<Rightarrow> bool" where
  "csv_inv n i s \<longleftrightarrow> length (cp_buf s) = n \<and> pElemStart s \<le> i \<and>
     (\<forall>e. pElemEnd s = Some e \<longrightarrow> e < i \<and> (\<not> bInQuotes s \<longrightarrow> pElemStart s \<le> e)) \<and>
     (\<forall>p \<in> stored s. terminated (cp_buf s) p)"

lemma end_elem_inv:
  assumes "csv_inv n i s" "i < n" "\<not> bInQuotes s"
  shows "csv_inv n (Suc i) (end_elem i s)"
proof -
  obtain q where q: "pElemStart s \<le> q" "q < length (cp_buf s)"
    "cp_buf (end_elem i s) = (cp_buf s)[q := NUL]"
  proof (cases "pElemEnd s")
    case None
    then show ?thesis using assms that [of i] by (simp add: csv_inv_def end_elem_def)
  next
    case (Some e)
    then show ?thesis using assms that [of e] by (simp add: csv_inv_def end_elem_def)
  qed
  have "stored (end_elem i s) = insert (pElemStart s) (stored s)"
    by (auto simp: stored_def end_elem_def)
  moreover have "\<forall>p \<in> stored s. terminated ((cp_buf s)[q := NUL]) p"
    using assms(1) terminated_update by (simp add: csv_inv_def)
  ultimately show ?thesis
    using assms(1) q terminated_at [OF q(1,2)] by (simp add: csv_inv_def) (simp add: end_elem_def)
qed

lemma end_row_inv: "csv_inv n i s \<Longrightarrow> csv_inv n i (end_row s)"
  by (auto simp: csv_inv_def end_row_def stored_def)

lemma csv_step_cases:
  assumes "csv_step s i = Inr s'"
  obtains (cr) "s' = s\<lparr>pElemEnd := Some i\<rparr>"
  | (same) "s' = s"
  | (row) "s' = end_row (end_elem i s)" "\<not> bInQuotes s"
  | (open_quote) "s' = s\<lparr>bInQuotes := True, pElemStart := i + 1\<rparr>"
  | (close_quote) "s' = s\<lparr>pElemEnd := Some i, bInQuotes := False\<rparr>"
  | (cell) "s' = end_elem i s" "\<not> bInQuotes s"
  using assms unfolding csv_step_def Let_def by (simp split: if_splits)

lemma csv_step_inv:
  assumes "csv_inv n i s" "i < n" "csv_step s i = Inr s'"
  shows "csv_inv n (Suc i) s'"
  using assms(3)
proof (cases rule: csv_step_cases)
  case row
  then show ?thesis using end_row_inv [OF end_elem_inv [OF assms(1,2)]] by simp
next
  case cell
  then show ?thesis using end_elem_inv [OF assms(1,2)] by simp
qed (use assms(1) in \<open>auto simp: csv_inv_def stored_def less_Suc_eq\<close>)

lemma csv_loop_inv:
  "csv_loop s [i..<n] = Inr s' \<Longrightarrow> i \<le> n \<Longrightarrow> csv_inv n i s \<Longrightarrow> csv_inv n n s'"
proof (induction "n - i" arbitrary: i s)
  case 0
  then show ?case by simp
next
  case (Suc k)
  then have "i < n" by simp
  then have e: "[i..<n] = i # [Suc i..<n]" by (rule upt_conv_Cons)
  with Suc.prems(1) obtain s1 where s1: "csv_step s i = Inr s1" "csv_loop s1 [Suc i..<n] = Inr s'"
    by (auto split: sum.splits)
  show ?case
    using Suc.hyps(1) [of "Suc i" s1] Suc.hyps(2) s1(2) \<open>i < n\<close> csv_step_inv [OF Suc.prems(3) \<open>i < n\<close> s1(1)]
    by simp
qed

definition table_ok :: "CSVData \<Rightarrow> bool" where
  "table_ok csv \<longleftrightarrow> (\<forall>p \<in> set (columns csv) \<union> (\<Union>r \<in> set (dataPointers csv). set r).
     terminated (m_pDataBuf csv) p)"

lemma parse_csv_ok: "parse_csv txt = Inr csv \<Longrightarrow> table_ok csv"
proof -
  assume a: "parse_csv txt = Inr csv"
  let ?t = "if last txt \<noteq> LF then txt @ [LF] else txt"
  from a obtain s where s: "csv_loop (csv_init ?t) [0..<length ?t] = Inr s"
    and csv: "csv = \<lparr>m_pDataBuf = cp_buf s, columns = cp_columns s, dataPointers = cp_rows s\<rparr>"
    by (simp only: parse_csv_def Let_def) (auto split: sum.splits)
  have "csv_inv (length ?t) 0 (csv_init ?t)" by (simp add: csv_inv_def csv_init_def stored_def)
  from csv_loop_inv [OF s _ this] have "csv_inv (length ?t) (length ?t) s" by simp
  then show ?thesis by (simp add: csv csv_inv_def table_ok_def stored_def)
qed

section \<open>The text of a table\<close>

datatype csv_cell = Plain string | Quoted string

fun cell_src :: "csv_cell \<Rightarrow> string" where
  "cell_src (Plain s) = s"
| "cell_src (Quoted s) = quoted s"

fun cell_val :: "csv_cell \<Rightarrow> string" where
  "cell_val (Plain s) = s"
| "cell_val (Quoted s) = s"

fun cell_wf :: "bool \<Rightarrow> csv_cell \<Rightarrow> bool" where
  "cell_wf hdr (Plain s) \<longleftrightarrow> (\<forall>c \<in> set s. c \<notin> {CHR '','', CHR 0x22, LF, CR, NUL})"
| "cell_wf hdr (Quoted s) \<longleftrightarrow> \<not> hdr \<and> (\<forall>c \<in> set s. c \<notin> {CHR 0x22, LF, NUL})"

fun row_src :: "csv_cell list \<Rightarrow> string" where
  "row_src [] = []"
| "row_src [c] = cell_src c"
| "row_src (c # cs) = cell_src c @ CHR '','' # row_src cs"

definition line_src :: "csv_cell list \<times> bool \<Rightarrow> string" where
  "line_src l = row_src (fst l) @ (if snd l then [CR, LF] else [LF])"

definition line_wf :: "bool \<Rightarrow> csv_cell list \<times> bool \<Rightarrow> bool" where
  "line_wf hdr l \<longleftrightarrow> fst l \<noteq> [] \<and> (\<forall>c \<in> set (fst l). cell_wf hdr c)"

text \<open>\<open>holds buf lim p v\<close>: the string at \<open>p\<close> is \<open>v\<close>, and it ends before position \<open>lim\<close>.\<close>

definition holds :: "string \<Rightarrow> nat \<Rightarrow> nat \<Rightarrow> string \<Rightarrow> bool" where
  "holds buf lim p v \<longleftrightarrow> p + length v < lim \<and> lim \<le> length buf \<and>
     take (length v + 1) (drop p buf) = v @ [NUL] \<and> NUL \<notin> set v"

lemma holds_cstr: "holds buf lim p v \<Longrightarrow> cstr buf p = Ret v"
  by (auto simp: holds_def intro: cstr_at)

lemma holds_prefix:
  assumes "holds buf lim p v" "take lim buf' = take lim buf" "lim \<le> lim'" "lim' \<le> length buf'"
  shows "holds buf' lim' p v"
proof -
  have e: "take (length v + 1) (drop p b) = take (length v + 1) (drop p (take lim b))" for b :: string
    using assms(1) by (auto simp: holds_def drop_take min_def)
  have "take (length v + 1) (drop p buf') = take (length v + 1) (drop p buf)"
    unfolding e [of buf] e [of buf'] assms(2) ..
  then show ?thesis using assms by (simp add: holds_def)
qed

text \<open>The state between two cells: \<open>P\<close> has been consumed, and the cells found so far are these.\<close>

definition between :: "csvparse \<Rightarrow> string \<Rightarrow> string \<Rightarrow> csv_cell list \<Rightarrow> csv_cell list list \<Rightarrow> csv_cell list \<Rightarrow> bool" where
  "between s P rest cols rows row \<longleftrightarrow>
     cp_buf s = P @ rest \<and> pElemStart s = length P \<and> pElemEnd s = None \<and> \<not> bInQuotes s \<and>
     (let H = (\<lambda>p c. holds (cp_buf s) (length P) p (cell_val c)) in
      list_all2 H (cp_columns s) cols \<and> list_all2 (list_all2 H) (cp_rows s) rows \<and>
      list_all2 H (vCurrentRow s) row)"

lemma csv_loop_skip:
  "(\<And>k. i \<le> k \<Longrightarrow> k < j \<Longrightarrow> csv_step s k = Inr s) \<Longrightarrow> i \<le> j \<Longrightarrow> csv_loop s ([i..<j] @ is) = csv_loop s is"
proof (induction "j - i" arbitrary: i)
  case (Suc n)
  then have "i < j" by simp
  then have "[i..<j] = i # [Suc i..<j]" by (rule upt_conv_Cons)
  with Suc show ?case by simp
qed simp

lemma step_plain:
  "cp_buf s ! k \<notin> {CHR '','', CHR 0x22, LF, CR} \<Longrightarrow> csv_step s k = Inr s"
  by (simp add: csv_step_def Let_def)

lemma step_quoted:
  "bInQuotes s \<Longrightarrow> cp_buf s ! k \<notin> {CHR 0x22, LF} \<Longrightarrow> cp_buf s ! (k + 1) \<noteq> LF \<Longrightarrow> csv_step s k = Inr s"
  by (auto simp: csv_step_def Let_def)

lemma special_chars [simp]: "LF \<noteq> CR" "CR \<noteq> LF" "CHR 0x22 \<noteq> CR" "CHR 0x22 \<noteq> LF" "CHR '','' \<noteq> CR" "CHR '','' \<noteq> LF"
  "CR \<noteq> CHR 0x22" "LF \<noteq> CHR 0x22" "CR \<noteq> CHR '',''" "LF \<noteq> CHR '',''" "NUL \<noteq> LF" "LF \<noteq> NUL"
  by (simp_all add: LF_def CR_def NUL_def)

text \<open>A cell is scanned: what is left to do is to end it.\<close>

fun scanned :: "csv_cell \<Rightarrow> nat \<Rightarrow> csvparse \<Rightarrow> csvparse" where
  "scanned (Plain t) n s = s"
| "scanned (Quoted t) n s = s\<lparr>pElemStart := n + 1, pElemEnd := Some (n + 1 + length t), bInQuotes := False\<rparr>"

lemma scan_cell:
  assumes buf: "cp_buf s = P @ cell_src c @ rest" and wf: "cell_wf (\<not> bHasColumns s) c"
    and st: "\<not> bInQuotes s" "rest \<noteq> []"
  shows "csv_loop s ([length P..<length P + length (cell_src c)] @ is) = csv_loop (scanned c (length P) s) is"
proof (cases c)
  case (Plain t)
  have "csv_step s k = Inr s" if "length P \<le> k" "k < length P + length t" for k
  proof (rule step_plain)
    have "k - length P < length t" using that by linarith
    then have "cp_buf s ! k = t ! (k - length P)" using that Plain by (simp add: buf nth_append)
    moreover have "t ! (k - length P) \<in> set t" using \<open>k - length P < length t\<close> by simp
    ultimately show "cp_buf s ! k \<notin> {CHR '','', CHR 0x22, LF, CR}" using wf Plain by auto
  qed
  then show ?thesis using Plain by (simp add: csv_loop_skip)
next
  case (Quoted t)
  let ?n = "length P"
  let ?s1 = "s\<lparr>bInQuotes := True, pElemStart := ?n + 1\<rparr>"
  have b: "cp_buf s = P @ CHR 0x22 # t @ CHR 0x22 # rest" using buf Quoted by (simp add: quoted_def)
  have at: "cp_buf s ! ?n = CHR 0x22" "cp_buf s ! (?n + 1 + length t) = CHR 0x22"
    by (simp_all add: b nth_append)
  have mid: "cp_buf s ! (?n + 1 + k) = t ! k" if "k < length t" for k
    using that by (simp add: b nth_append)
  have open_q: "csv_step s ?n = Inr ?s1"
    using at(1) st wf Quoted by (simp add: csv_step_def)
  have "csv_step ?s1 k = Inr ?s1" if "?n + 1 \<le> k" "k < ?n + 1 + length t" for k
  proof (rule step_quoted)
    define j where "j = k - (?n + 1)"
    have j: "k = ?n + 1 + j" "j < length t" using that by (simp_all add: j_def)
    then have "t ! j \<in> set t" by simp
    then show "cp_buf ?s1 ! k \<notin> {CHR 0x22, LF}" using mid [OF j(2)] j(1) wf Quoted by auto
    show "cp_buf ?s1 ! (k + 1) \<noteq> LF"
    proof (cases "j + 1 < length t")
      case True
      then have "t ! (j + 1) \<in> set t" by simp
      then show ?thesis using mid [OF True] j(1) wf Quoted by (auto simp: add.assoc)
    next
      case False
      then have "k + 1 = ?n + 1 + length t" using j by simp
      then show ?thesis using at(2) by simp
    qed
  qed simp
  from csv_loop_skip [of "?n + 1" "?n + 1 + length t", OF this]
  have skip: "csv_loop ?s1 ([?n + 1..<?n + 1 + length t] @ js) = csv_loop ?s1 js" for js by simp
  have close_q: "csv_step ?s1 (?n + 1 + length t) = Inr (scanned c ?n s)"
    using at(2) Quoted by (simp add: csv_step_def)
  have "[?n..<?n + length (cell_src c)] = ?n # [?n + 1..<?n + 1 + length t] @ [?n + 1 + length t]"
    using Quoted by (simp add: quoted_def upt_rec [of ?n] del: upt_Suc) (simp add: upt_Suc_append)
  then show ?thesis using open_q skip close_q by simp
qed

definition mark_end :: "nat \<Rightarrow> csvparse \<Rightarrow> csvparse" where
  "mark_end i s = (if pElemEnd s = None then s\<lparr>pElemEnd := Some i\<rparr> else s)"

text \<open>The separators and what is done at them.\<close>

definition finish_cell :: "csv_cell \<Rightarrow> nat \<Rightarrow> string \<Rightarrow> csvparse \<Rightarrow> csvparse" where
  "finish_cell c n X s =
     (let i = n + length (cell_src c); a = scanned c n s in
      end_elem (i + length X - 1) (if X = [CR, LF] then mark_end i a else a))"

lemma finish_cell_buf:
  assumes "cp_buf s = P @ cell_src c @ X @ rest" "pElemEnd s = None" "X \<in> {['',''!0], [LF], [CR, LF]}" and st: "pElemStart s = length P"
  shows "\<exists>P'. cp_buf (finish_cell c (length P) X s) = P' @ rest \<and>
     length P' = length P + length (cell_src c) + length X \<and> take (length P) P' = P \<and>
     pElemStart (finish_cell c (length P) X s) = length P' \<and> pElemEnd (finish_cell c (length P) X s) = None \<and>
     (\<exists>p. vCurrentRow (finish_cell c (length P) X s) = vCurrentRow s @ [p] \<and>
        (NUL \<notin> set (cell_val c) \<longrightarrow> holds (P' @ rest) (length P') p (cell_val c)))"
proof (cases c)
  case (Plain t)
  obtain x xs where X: "X = x # xs" using assms(3) by (cases X) auto
  have "cp_buf (finish_cell c (length P) X s) = (P @ t @ X @ rest)[length P + length t := NUL]"
    using assms Plain by (auto simp: finish_cell_def mark_end_def end_elem_def Let_def)
  also have "\<dots> = (P @ t @ NUL # xs) @ rest" by (simp add: X list_update_append)
  finally have b: "cp_buf (finish_cell c (length P) X s) = (P @ t @ NUL # xs) @ rest" .
  moreover have "vCurrentRow (finish_cell c (length P) X s) = vCurrentRow s @ [length P]"
    using assms Plain by (auto simp: finish_cell_def mark_end_def end_elem_def Let_def)
  moreover have "pElemStart (finish_cell c (length P) X s) = length P + length t + length X"
    "pElemEnd (finish_cell c (length P) X s) = None"
    using Plain X by (auto simp: finish_cell_def end_elem_def Let_def)
  ultimately show ?thesis using Plain X
    by (intro exI [of _ "P @ t @ NUL # xs"]) (auto simp: holds_def)
next
  case (Quoted t)
  have "cp_buf (finish_cell c (length P) X s) = (P @ CHR 0x22 # t @ CHR 0x22 # X @ rest)[length P + 1 + length t := NUL]"
    using assms Quoted by (auto simp: finish_cell_def mark_end_def end_elem_def Let_def quoted_def)
  also have "\<dots> = (P @ CHR 0x22 # t @ NUL # X) @ rest" by (simp add: list_update_append)
  finally have b: "cp_buf (finish_cell c (length P) X s) = (P @ CHR 0x22 # t @ NUL # X) @ rest" .
  moreover have "vCurrentRow (finish_cell c (length P) X s) = vCurrentRow s @ [length P + 1]"
    using assms Quoted by (auto simp: finish_cell_def mark_end_def end_elem_def Let_def)
  moreover have "pElemStart (finish_cell c (length P) X s) = length P + (length t + 2) + length X"
    "pElemEnd (finish_cell c (length P) X s) = None"
    using Quoted assms(3) by (auto simp: finish_cell_def end_elem_def Let_def quoted_def)
  ultimately show ?thesis using Quoted
    by (intro exI [of _ "P @ CHR 0x22 # t @ NUL # X"]) (auto simp: holds_def quoted_def)
qed

lemma cell_wf_NUL: "cell_wf h c \<Longrightarrow> NUL \<notin> set (cell_val c)"
  by (cases c) auto

lemma finish_cell_between:
  assumes "between s P (cell_src c @ X @ rest) cols rows row" "cell_wf h c"
    and "X \<in> {['',''!0], [LF], [CR, LF]}"
  shows "\<exists>P'. length P' = length P + length (cell_src c) + length X \<and>
     between (finish_cell c (length P) X s) P' rest cols rows (row @ [c]) \<and>
     bHasColumns (finish_cell c (length P) X s) = bHasColumns s"
proof -
  have s: "cp_buf s = P @ cell_src c @ X @ rest" "pElemEnd s = None" "pElemStart s = length P" "\<not> bInQuotes s"
    using assms(1) by (simp_all add: between_def Let_def)
  from finish_cell_buf [OF s(1,2) assms(3) s(3)] obtain P' p where
    f: "cp_buf (finish_cell c (length P) X s) = P' @ rest"
      "length P' = length P + length (cell_src c) + length X" "take (length P) P' = P"
      "pElemStart (finish_cell c (length P) X s) = length P'" "pElemEnd (finish_cell c (length P) X s) = None"
      "vCurrentRow (finish_cell c (length P) X s) = vCurrentRow s @ [p]"
      "holds (P' @ rest) (length P') p (cell_val c)"
    using cell_wf_NUL [OF assms(2)] by blast
  let ?f = "finish_cell c (length P) X s"
  have same: "cp_columns ?f = cp_columns s" "cp_rows ?f = cp_rows s" "bHasColumns ?f = bHasColumns s" "\<not> bInQuotes ?f"
    using s(4) by (cases c; simp add: finish_cell_def mark_end_def end_elem_def Let_def)+
  have "take (length P) (P' @ rest) = take (length P) (cp_buf s)" using f(2,3) s(1) by simp
  then have H: "holds (P' @ rest) (length P') q v" if "holds (cp_buf s) (length P) q v" for q v
    using holds_prefix [OF that] f(2) by simp
  have "list_all2 (\<lambda>p c. holds (P' @ rest) (length P') p (cell_val c)) (cp_columns s) cols"
    "list_all2 (list_all2 (\<lambda>p c. holds (P' @ rest) (length P') p (cell_val c))) (cp_rows s) rows"
    "list_all2 (\<lambda>p c. holds (P' @ rest) (length P') p (cell_val c)) (vCurrentRow s) row"
    using assms(1) H unfolding between_def Let_def
    by (auto elim!: list_all2_mono)
  then show ?thesis using f same
    by (intro exI [of _ P']) (simp add: between_def Let_def list_all2_appendI)
qed

text \<open>The steps over a separator.\<close>

lemma scanned_buf [simp]: "cp_buf (scanned c n s) = cp_buf s" "bInQuotes s \<or> \<not> bInQuotes (scanned c n s)"
  by (cases c; simp)+

lemma scan_comma:
  assumes "between s P (cell_src c @ CHR '','' # rest) cols rows row" "cell_wf (\<not> bHasColumns s) c"
  shows "csv_loop s ([length P..<length P + length (cell_src c) + 1] @ is) =
     csv_loop (finish_cell c (length P) [CHR '','']  s) is"
proof -
  let ?i = "length P + length (cell_src c)"
  have s: "cp_buf s = P @ cell_src c @ CHR '','' # rest" "\<not> bInQuotes s" using assms(1) by (simp_all add: between_def)
  have "[length P..<?i + 1] @ is = [length P..<?i] @ ?i # is" by simp
  moreover have "cp_buf s ! ?i = CHR '',''" by (simp add: s(1) nth_append)
  moreover have "\<not> bInQuotes (scanned c (length P) s)" using s(2) by (cases c) simp_all
  ultimately show ?thesis using scan_cell [OF s(1) assms(2) s(2), of "?i # is"]
    by (simp add: csv_step_def finish_cell_def Let_def)
qed

lemma scan_eol:
  assumes "between s P (cell_src c @ (if crlf then [CR, LF] else [LF]) @ rest) cols rows row"
    and "cell_wf (\<not> bHasColumns s) c" and X: "X = (if crlf then [CR, LF] else [LF])"
  shows "csv_loop s ([length P..<length P + length (cell_src c) + length X] @ is) =
     csv_loop (end_row (finish_cell c (length P) X s)) is"
proof -
  let ?i = "length P + length (cell_src c)" and ?a = "scanned c (length P) s"
  have s: "cp_buf s = P @ cell_src c @ X @ rest" "\<not> bInQuotes s" using assms(1) X by (simp_all add: between_def)
  have q: "\<not> bInQuotes ?a" using s(2) by (cases c) simp_all
  have scan: "csv_loop s ([length P..<?i] @ js) = csv_loop ?a js" for js
    using scan_cell [OF s(1) assms(2) s(2), of js] X by simp
  show ?thesis
  proof (cases crlf)
    case True
    have e: "[length P..<?i + length X] @ is = [length P..<?i] @ ?i # (?i + 1) # is" using True X by simp
    have b: "cp_buf s ! ?i = CR" "cp_buf s ! (?i + 1) = LF" "?i + 1 < length (cp_buf s)"
      using True X by (simp_all add: s(1) nth_append)
    have "csv_step ?a ?i = Inr (mark_end ?i ?a)" using b by (simp add: csv_step_def mark_end_def)
    moreover have "csv_step (mark_end ?i ?a) (?i + 1) = Inr (end_row (finish_cell c (length P) X s))"
      using b q True X by (simp add: csv_step_def mark_end_def finish_cell_def Let_def)
    ultimately show ?thesis unfolding e scan by simp
  next
    case False
    have e: "[length P..<?i + length X] @ is = [length P..<?i] @ ?i # is" using False X by simp
    have b: "cp_buf s ! ?i = LF" using False X by (simp add: s(1) nth_append)
    have "csv_step ?a ?i = Inr (end_row (finish_cell c (length P) X s))"
      using b q False X by (simp add: csv_step_def finish_cell_def Let_def)
    then show ?thesis unfolding e scan by simp
  qed
qed

section \<open>Rows and tables\<close>

lemma end_row_between:
  assumes "between s P rest cols rows row"
  shows "between (end_row s) P rest (if bHasColumns s then cols else row)
     (if bHasColumns s then rows @ [row] else rows) []" "bHasColumns (end_row s)"
  using assms by (auto simp: between_def end_row_def Let_def intro: list_all2_appendI)

definition eol :: "bool \<Rightarrow> string" where
  "eol crlf = (if crlf then [CR, LF] else [LF])"

lemma upt_split: "c = c' \<Longrightarrow> b = b' \<Longrightarrow> a \<le> b \<Longrightarrow> b \<le> c \<Longrightarrow> [a..<c] = [a..<b] @ [b'..<c']"
  using upt_add_eq_append [of a b "c - b"] by simp

lemma eol_sep: "eol crlf \<in> {['',''!0], [LF], [CR, LF]}"
  by (simp add: eol_def)

lemma row_src_Cons: "cs \<noteq> [] \<Longrightarrow> row_src (c # cs) = cell_src c @ CHR '','' # row_src cs"
  by (cases cs) auto

lemma scan_row:
  assumes "between s P (row_src cs @ eol crlf @ rest) cols rows row"
    and "\<forall>c \<in> set cs. cell_wf (\<not> bHasColumns s) c" "cs \<noteq> []"
  shows "\<exists>s' P'. (\<forall>is. csv_loop s ([length P..<length P + length (row_src cs @ eol crlf)] @ is) = csv_loop s' is) \<and>
     length P' = length P + length (row_src cs @ eol crlf) \<and> bHasColumns s' \<and>
     between s' P' rest (if bHasColumns s then cols else row @ cs)
       (if bHasColumns s then rows @ [row @ cs] else rows) []"
  using assms
proof (induction cs arbitrary: s P row)
  case (Cons c cs)
  show ?case
  proof (cases "cs = []")
    case True
    with Cons.prems have b: "between s P (cell_src c @ eol crlf @ rest) cols rows row"
      and wf: "cell_wf (\<not> bHasColumns s) c" by simp_all
    obtain P' where P': "length P' = length P + length (cell_src c) + length (eol crlf)"
      "between (finish_cell c (length P) (eol crlf) s) P' rest cols rows (row @ [c])"
      "bHasColumns (finish_cell c (length P) (eol crlf) s) = bHasColumns s"
      using finish_cell_between [OF b wf, OF eol_sep] by blast
    show ?thesis
      using scan_eol [OF b [unfolded eol_def] wf eol_def [of crlf]] P'(1,3) end_row_between [OF P'(2)] True
      by (intro exI [of _ "end_row (finish_cell c (length P) (eol crlf) s)"] exI [of _ P'])
         (cases "bHasColumns s"; simp add: add.assoc)
  next
    case False
    let ?rest = "row_src cs @ eol crlf @ rest"
    have b: "between s P (cell_src c @ CHR '','' # ?rest) cols rows row"
      and wf: "cell_wf (\<not> bHasColumns s) c"
      using Cons.prems False by (simp_all add: row_src_Cons)
    let ?f = "finish_cell c (length P) [CHR '',''] s"
    obtain P1 where P1: "length P1 = length P + length (cell_src c) + 1"
      "between ?f P1 ?rest cols rows (row @ [c])" "bHasColumns ?f = bHasColumns s"
      using finish_cell_between [of s P c "[CHR '','']" ?rest cols rows row, OF _ wf] b by auto
    obtain s' P' where s': "\<And>is. csv_loop ?f ([length P1..<length P1 + length (row_src cs @ eol crlf)] @ is) = csv_loop s' is"
      "length P' = length P1 + length (row_src cs @ eol crlf)" "bHasColumns s'"
      "between s' P' rest (if bHasColumns s then cols else row @ c # cs)
         (if bHasColumns s then rows @ [row @ c # cs] else rows) []"
      using Cons.IH [OF P1(2)] Cons.prems(2) False P1(3) by auto
    have "[length P..<length P + length (row_src (c # cs) @ eol crlf)] =
      [length P..<length P + length (cell_src c) + 1] @ [length P1..<length P1 + length (row_src cs @ eol crlf)]"
      by (rule upt_split) (simp_all add: P1(1) row_src_Cons False)
    then have "csv_loop s ([length P..<length P + length (row_src (c # cs) @ eol crlf)] @ is) = csv_loop s' is" for "is"
      using scan_comma [OF b wf] s'(1) by simp
    then show ?thesis using s'(2-4) P1(1) False
      by (intro exI [of _ s'] exI [of _ P']) (simp add: row_src_Cons)
  qed
qed simp


lemma scan_lines:
  assumes "between s P (concat (map line_src ls) @ rest) cols rows []" "bHasColumns s"
    and "\<forall>l \<in> set ls. line_wf False l"
  shows "\<exists>s' P'. (\<forall>is. csv_loop s ([length P..<length P + length (concat (map line_src ls))] @ is) = csv_loop s' is) \<and>
     between s' P' rest cols (rows @ map fst ls) []"
  using assms
proof (induction ls arbitrary: s P rows)
  case (Cons l ls)
  obtain cs crlf where l: "l = (cs, crlf)" by (cases l)
  have src: "line_src l = row_src cs @ eol crlf" by (simp add: l line_src_def eol_def)
  have "between s P (row_src cs @ eol crlf @ concat (map line_src ls) @ rest) cols rows []"
    using Cons.prems(1) by (simp add: src)
  moreover have "\<forall>c \<in> set cs. cell_wf (\<not> bHasColumns s) c" "cs \<noteq> []"
    using Cons.prems(2,3) by (simp_all add: l line_wf_def)
  ultimately obtain s1 P1 where s1:
    "\<And>is. csv_loop s ([length P..<length P + length (line_src l)] @ is) = csv_loop s1 is"
    "length P1 = length P + length (line_src l)" "bHasColumns s1"
    "between s1 P1 (concat (map line_src ls) @ rest) cols (rows @ [cs]) []"
    using scan_row [of s P cs crlf _ cols rows "[]"] Cons.prems(2) src by fastforce
  obtain s' P' where s':
    "\<And>is. csv_loop s1 ([length P1..<length P1 + length (concat (map line_src ls))] @ is) = csv_loop s' is"
    "between s' P' rest cols ((rows @ [cs]) @ map fst ls) []"
    using Cons.IH [OF s1(4) s1(3)] Cons.prems(3) by auto
  have "[length P..<length P + length (concat (map line_src (l # ls)))] =
    [length P..<length P + length (line_src l)] @ [length P1..<length P1 + length (concat (map line_src ls))]"
    by (rule upt_split) (simp_all add: s1(2))
  then have "csv_loop s ([length P..<length P + length (concat (map line_src (l # ls)))] @ is) = csv_loop s' is" for "is"
    using s1(1) s'(1) by simp
  then show ?case using s'(2) l by (intro exI [of _ s'] exI [of _ P']) simp
qed auto

text \<open>What it is for a table to have the cells of a text.\<close>

definition table_of :: "CSVData \<Rightarrow> csv_cell list \<Rightarrow> csv_cell list list \<Rightarrow> bool" where
  "table_of csv hdr rows \<longleftrightarrow>
     (let V = (\<lambda>p c. cstr (m_pDataBuf csv) p = Ret (cell_val c)) in
      list_all2 V (columns csv) hdr \<and> list_all2 (list_all2 V) (dataPointers csv) rows)"

lemma parse_lines:
  assumes "line_wf True hdr" "\<forall>l \<in> set ls. line_wf False l"
    and src: "t = concat (map line_src (hdr # ls))"
  shows "\<exists>s. csv_loop (csv_init t) [0..<length t] = Inr s \<and>
     table_of \<lparr>m_pDataBuf = cp_buf s, columns = cp_columns s, dataPointers = cp_rows s\<rparr> (fst hdr) (map fst ls)"
proof -
  obtain cs crlf where h: "hdr = (cs, crlf)" by (cases hdr)
  let ?rest = "concat (map line_src ls)"
  have t: "t = row_src cs @ eol crlf @ ?rest" by (simp add: src h line_src_def eol_def)
  have "between (csv_init t) [] (row_src cs @ eol crlf @ ?rest) [] [] []"
    by (simp add: between_def csv_init_def t)
  moreover have "\<forall>c \<in> set cs. cell_wf (\<not> bHasColumns (csv_init t)) c" "cs \<noteq> []"
    using assms(1) by (simp_all add: h line_wf_def csv_init_def)
  ultimately obtain s1 P1 where s1:
    "\<And>is. csv_loop (csv_init t) ([0..<length (row_src cs @ eol crlf)] @ is) = csv_loop s1 is"
    "length P1 = length (row_src cs @ eol crlf)" "bHasColumns s1" "between s1 P1 ?rest cs [] []"
    using scan_row [of "csv_init t" "[]" cs crlf ?rest "[]" "[]" "[]"] by (auto simp: csv_init_def)
  obtain s' P' where s':
    "\<And>is. csv_loop s1 ([length P1..<length P1 + length ?rest] @ is) = csv_loop s' is"
    "between s' P' [] cs (map fst ls) []"
    using scan_lines [of s1 P1 ls "[]" cs "[]"] s1(3,4) assms(2) by auto
  have "[0..<length t] = [0..<length (row_src cs @ eol crlf)] @ [length P1..<length P1 + length ?rest] @ []"
    unfolding append_Nil2 by (rule upt_split) (simp_all add: s1(2) t)
  then have "csv_loop (csv_init t) [0..<length t] = Inr s'"
    using s1(1) s'(1) by (simp only: csv_loop.simps)
  moreover have "table_of \<lparr>m_pDataBuf = cp_buf s', columns = cp_columns s', dataPointers = cp_rows s'\<rparr> cs (map fst ls)"
    using s'(2) unfolding between_def table_of_def Let_def
    by (auto elim!: list_all2_mono dest: holds_cstr)
  ultimately show ?thesis by (simp add: h)
qed

lemma parse_table:
  assumes "line_wf True hdr" "\<forall>l \<in> set ls. line_wf False l"
    and src: "t = concat (map line_src (hdr # ls)) \<or>
      last t \<noteq> LF \<and> t @ [LF] = concat (map line_src (hdr # ls))"
  shows "\<exists>csv. parse_csv t = Inr csv \<and> table_of csv (fst hdr) (map fst ls)"
proof -
  let ?t = "if last t \<noteq> LF then t @ [LF] else t"
  have "last (line_src l) = LF" "line_src l \<noteq> []" for l by (simp_all add: line_src_def)
  then have "last (concat (map line_src (hdr # ls))) = LF"
    by (induction ls arbitrary: hdr) auto
  then have "?t = concat (map line_src (hdr # ls))" using src by auto
  from parse_lines [OF assms(1,2) this] show ?thesis
    by (auto simp: parse_csv_def Let_def)
qed

end
