(* ===== verification/DataTableRows.thy ===== *)
theory DataTableRows
  imports DataTable
begin

text \<open>
  Looking for a row: the functions that do share a contract. The test reads a cell and says whether
  its value is wanted; the row found is the first that is.
\<close>

definition first_row :: "(string \<Rightarrow> bool) \<Rightarrow> string list \<Rightarrow> int" where
  "first_row wanted vs =
     (let k = length (takeWhile (\<lambda>v. \<not> wanted v) vs) in if k = length vs then -1 else int k)"

lemma first_row_Nil [simp]: "first_row wanted [] = -1"
  by (simp add: first_row_def)

lemma first_row_Cons [simp]:
  "first_row wanted (v # vs) =
     (if wanted v then 0 else if first_row wanted vs = -1 then -1 else first_row wanted vs + 1)"
  by (simp add: first_row_def Let_def)

lemma first_row_ge: "-1 \<le> first_row wanted vs"
  by (simp add: first_row_def Let_def)

lemma first_row_found:
  assumes "k < length vs" "wanted (vs ! k)" "\<forall>j < k. \<not> wanted (vs ! j)"
  shows "first_row wanted vs = int k"
  using assms
proof (induction vs arbitrary: k)
  case (Cons v vs)
  show ?case
  proof (cases k)
    case 0
    with Cons.prems show ?thesis by simp
  next
    case (Suc m)
    then have "\<not> wanted v" using Cons.prems(3) by auto
    moreover have "\<forall>j < m. \<not> wanted (vs ! j)"
      using Cons.prems(3) Suc by (auto dest: spec [of _ "Suc _"])
    then have "first_row wanted vs = int m"
      using Cons.IH [of m] Cons.prems(1,2) Suc by auto
    ultimately show ?thesis using Suc by simp
  qed
qed simp

lemma first_row_none: "first_row wanted vs = -1 \<longleftrightarrow> (\<forall>v \<in> set vs. \<not> wanted v)"
proof (induction vs)
  case (Cons v vs)
  show ?case using Cons.IH first_row_ge [of wanted vs] by simp
qed simp

text \<open>The texts of the cells of a column.\<close>

definition column_cells :: "CSVData \<Rightarrow> int \<Rightarrow> string list \<Rightarrow> bool" where
  "column_cells csv nCol vs \<longleftrightarrow>
     list_all2 (\<lambda>row v. as_size nCol < int (length row) \<and> cstr (m_pDataBuf csv) (row ! nat nCol) = Ret v)
       (dataPointers csv) vs"

locale row_test =
  fixes test :: "string \<Rightarrow> bool outcome" and readable wanted :: "string \<Rightarrow> bool"
  assumes test_reads: "readable s \<Longrightarrow> test s = Ret (wanted s)"
begin

lemma scan_rows_first:
  assumes "list_all2 (\<lambda>row v. as_size nCol < int (length row) \<and> cstr buf (row ! nat nCol) = Ret v) rows vs"
    and "\<forall>v \<in> set vs. readable v"
  shows "scan_rows buf nCol test rows i =
     Ret (if first_row wanted vs = -1 then -1 else i + first_row wanted vs)"
  using assms
proof (induction arbitrary: i rule: list_all2_induct)
  case (Cons row rows v vs)
  have "first_row wanted vs + 1 \<noteq> -1" using first_row_ge [of wanted vs] by linarith
  with Cons show ?case by (simp add: test_reads)
qed simp

lemma push_first:
  assumes "column_cells csv nCol vs" "\<forall>v \<in> set vs. readable v"
  shows "push_row (scan_rows (m_pDataBuf csv) nCol test (dataPointers csv) 0) =
     Ret (SqPush (SqInt (first_row wanted vs)))"
  using scan_rows_first [OF assms(1) [unfolded column_cells_def] assms(2), of 0] by (simp add: push_row_def)

end

text \<open>The tests of the code.\<close>

interpretation same_text: row_test "\<lambda>s. Ret (s = v)" "\<lambda>s. True" "\<lambda>s. s = v" for v
  by unfold_locales simp

interpretation same_int: row_test "\<lambda>s. obind (stoi s) (\<lambda>n. Ret (v = n))" "\<lambda>s. \<exists>n. stoi s = Ret n"
    "\<lambda>s. \<exists>n. stoi s = Ret n \<and> v = n" for v
  by unfold_locales auto

interpretation int_up_to: row_test "\<lambda>s. obind (stoi s) (\<lambda>n. Ret (v \<ge> n))" "\<lambda>s. \<exists>n. stoi s = Ret n"
    "\<lambda>s. \<exists>n. stoi s = Ret n \<and> v \<ge> n" for v
  by unfold_locales auto

interpretation int_from: row_test "\<lambda>s. obind (stoi s) (\<lambda>n. Ret (v \<le> n))" "\<lambda>s. \<exists>n. stoi s = Ret n"
    "\<lambda>s. \<exists>n. stoi s = Ret n \<and> v \<le> n" for v
  by unfold_locales auto

interpretation same_float: row_test "\<lambda>s. obind (stof s) (\<lambda>x. Ret (r v x))" "\<lambda>s. \<exists>x. stof s = Ret x"
    "\<lambda>s. \<exists>x. stof s = Ret x \<and> r v x" for stof :: "string \<Rightarrow> 'f outcome" and r v
  by unfold_locales auto

interpretation float_up_to: row_test "\<lambda>s. obind (stof s) (\<lambda>x. Ret (r x v))" "\<lambda>s. \<exists>x. stof s = Ret x"
    "\<lambda>s. \<exists>x. stof s = Ret x \<and> r x v" for stof :: "string \<Rightarrow> 'f outcome" and r v
  by unfold_locales auto

lemma ge_int_scan:
  assumes "column_cells csv nCol vs" "\<forall>v \<in> set vs. \<exists>n. stoi v = Ret n"
  shows "GetDataTableRowGreaterThanOrEqualToIntValue (CUSTOM csv) nCol v =
     Ret (SqPush (SqInt (if \<exists>s \<in> set vs. \<exists>n. stoi s = Ret n \<and> n \<le> v then 1 else -1)))"
proof -
  have "scan_rows (m_pDataBuf csv) nCol (\<lambda>s. obind (stoi s) (\<lambda>n. Ret (v \<ge> n))) (dataPointers csv) 0 =
      Ret (first_row (\<lambda>s. \<exists>n. stoi s = Ret n \<and> v \<ge> n) vs)"
    using int_up_to.scan_rows_first [OF assms(1) [unfolded column_cells_def] assms(2), of v 0] by simp
  then show ?thesis
    using first_row_none [of "\<lambda>s. \<exists>n. stoi s = Ret n \<and> v \<ge> n" vs]
    by (auto simp: GetDataTableRowGreaterThanOrEqualToIntValue_def)
qed

section \<open>The cells of a table that was read\<close>

lemma find_column_first:
  "list_all2 (\<lambda>p v. cstr buf p = Ret v) ps vs \<Longrightarrow>
   find_column buf name ps i = Ret (if first_row (\<lambda>v. v = name) vs = -1 then -1 else i + first_row (\<lambda>v. v = name) vs)"
proof (induction arbitrary: i rule: list_all2_induct)
  case (Cons p ps v vs)
  have "first_row (\<lambda>v. v = name) vs + 1 \<noteq> -1" using first_row_ge [of _ vs] by (smt (verit))
  with Cons show ?case by simp
qed simp

end
