(* ===== verification/DataTableDump.thy ===== *)
theory DataTableDump
  imports DataTableParse DataTableRows
begin

text \<open>
  Reading back what was dumped: a packed table without vectors is written as the text of a table, so
  the cells the parser finds in it are the packed values. Also what the vector reader does to a cell.
\<close>

section \<open>Cells of a table that was read\<close>

lemma as_size_nat [simp]: "as_size (int n) = int n"
  by (simp add: as_size_def)

lemma GetCell_table:
  assumes "list_all2 (list_all2 V) (dataPointers csv) rows" "i < length rows" "j < length (rows ! i)"
  shows "\<exists>p. GetCell csv (int i) (int j) = Inr p \<and> V p (rows ! i ! j)"
proof -
  have "i < length (dataPointers csv)" "list_all2 V (dataPointers csv ! i) (rows ! i)"
    using assms by (simp_all add: list_all2_conv_all_nth)
  then show ?thesis using assms(3) by (simp add: GetCell_def list_all2_conv_all_nth)
qed

lemma table_cell:
  assumes "table_of csv hdr rows" "i < length rows" "j < length (rows ! i)"
  obtains p where "GetCell csv (int i) (int j) = Inr p" "cstr (m_pDataBuf csv) p = Ret (cell_val (rows ! i ! j))"
  using GetCell_table [of _ csv rows i j] assms unfolding table_of_def Let_def by fast

lemma table_cell_gets:
  assumes "table_of csv hdr rows" "i < length rows" "j < length (rows ! i)" "cell_val (rows ! i ! j) = s"
  shows "GetDataTableString (CUSTOM csv) (int i) (int j) = Ret (SqPush (SqString s))"
    "GetDataTableAsset (CUSTOM csv) (int i) (int j) = Ret (SqPush (SqAsset s))"
    "GetDataTableInt (CUSTOM csv) (int i) (int j) = obind (stoi s) (\<lambda>n. Ret (SqPush (SqInt n)))"
    "GetDataTableBool (CUSTOM csv) (int i) (int j) = obind (stoi s) (\<lambda>n. Ret (SqPush (SqBool (n \<noteq> 0))))"
    "GetDataTableFloat stof (CUSTOM csv) (int i) (int j) = obind (stof s) (\<lambda>x. Ret (SqPush (SqFloat x)))"
  by (rule table_cell [OF assms(1-3)];
      simp add: assms(4) GetDataTableString_def GetDataTableAsset_def GetDataTableInt_def GetDataTableBool_def
        GetDataTableFloat_def)+

lemma table_column:
  assumes "table_of csv hdr rows"
  shows "GetDataTableColumnByName (CUSTOM csv) name =
     Ret (SqPush (SqInt (first_row (\<lambda>v. v = name) (map cell_val hdr))))"
proof -
  have "list_all2 (\<lambda>p v. cstr (m_pDataBuf csv) p = Ret v) (columns csv) (map cell_val hdr)"
    using assms by (simp add: table_of_def Let_def list_all2_map2)
  from find_column_first [OF this, of name 0] show ?thesis
    by (simp add: GetDataTableColumnByName_def push_row_def)
qed

lemma table_length:
  "table_of csv hdr rows \<Longrightarrow> length (dataPointers csv) = length rows \<and> length (columns csv) = length hdr"
  by (auto simp: table_of_def Let_def dest: list_all2_lengthD)

section \<open>What is dumped\<close>

text \<open>The values of a packed table as cells.\<close>

definition packed_cell :: "dump_env \<Rightarrow> Datatable \<Rightarrow> ColumnInfo \<Rightarrow> nat \<Rightarrow> csv_cell" where
  "packed_cell env t column row =
     (let at = col_offset column + row * rowInfo t; mem = dt_data t in
      case col_type column of
        DT_BOOL \<Rightarrow> Plain (if mem ! at \<noteq> 0 then ''1'' else ''0'')
      | DT_INT \<Rightarrow> Plain (show_int (sint (dword_at mem at)))
      | DT_FLOAT \<Rightarrow> Plain (to_string_float env (dword_at mem at))
      | DT_VECTOR \<Rightarrow> Plain []
      | _ \<Rightarrow> Quoted (deref env (ucast (dword_at mem at) OR push_bit 32 (ucast (dword_at mem (at + 4))))))"

fun type_size :: "DatatableType \<Rightarrow> nat" where
  "type_size DT_BOOL = 1"
| "type_size DT_INT = 4"
| "type_size DT_FLOAT = 4"
| "type_size DT_VECTOR = 12"
| "type_size _ = 8"

definition packed_ok :: "dump_env \<Rightarrow> Datatable \<Rightarrow> bool" where
  "packed_ok env t \<longleftrightarrow> columnInfo t \<noteq> [] \<and>
     (\<forall>c \<in> set (columnInfo t). col_type c \<noteq> DT_VECTOR \<and> col_name c \<noteq> [] \<and> cell_wf True (Plain (col_name c)) \<and>
        (\<forall>row < numRows t. col_offset c + row * rowInfo t + type_size (col_type c) \<le> length (dt_data t) \<and>
           cell_wf False (packed_cell env t c row) \<and> cell_src (packed_cell env t c row) \<noteq> []))"

lemma cell_text_packed:
  assumes "packed_ok env t" "c \<in> set (columnInfo t)" "row < numRows t"
  shows "cell_text env t c row = Ret (cell_src (packed_cell env t c row))"
proof -
  have "col_type c \<noteq> DT_VECTOR" "col_offset c + row * rowInfo t + type_size (col_type c) \<le> length (dt_data t)"
    using assms by (auto simp: packed_ok_def)
  then show ?thesis
    by (cases "col_type c") (auto simp: cell_text_def packed_cell_def Let_def load32_def load64_def)
qed

lemma join_cells_row:
  assumes "\<forall>x \<in> set xs. f x = Ret (cell_src (g x))" "xs \<noteq> []"
  shows "join_cells b (map f xs) = Ret ((if b then '','' else []) @ row_src (map g xs))"
  using assms
proof (induction xs arbitrary: b)
  case (Cons x xs)
  then show ?case by (cases "xs = []") (auto simp: row_src_Cons)
qed simp

definition packed_row :: "dump_env \<Rightarrow> Datatable \<Rightarrow> nat \<Rightarrow> csv_cell list" where
  "packed_row env t row = map (\<lambda>c. packed_cell env t c row) (columnInfo t)"

lemma dump_rows_text:
  assumes "packed_ok env t" "\<forall>r \<in> set rs. r < numRows t"
  shows "\<exists>s. dump_rows env t rs = Ret s \<and>
     s @ [LF] = LF # concat (map (\<lambda>r. line_src (packed_row env t r, False)) rs)"
  using assms(2)
proof (induction rs)
  case (Cons r rs)
  then obtain s where s: "dump_rows env t rs = Ret s"
    "s @ [LF] = LF # concat (map (\<lambda>r. line_src (packed_row env t r, False)) rs)" by auto
  have "columnInfo t \<noteq> []" using assms(1) by (simp add: packed_ok_def)
  then have "join_cells False (map (\<lambda>c. cell_text env t c r) (columnInfo t)) = Ret (row_src (packed_row env t r))"
    using join_cells_row [of "columnInfo t" "\<lambda>c. cell_text env t c r" "\<lambda>c. packed_cell env t c r" False]
      cell_text_packed [OF assms(1), of _ r] Cons.prems by (simp add: packed_row_def)
  then show ?case using s by (simp add: line_src_def)
qed simp

lemma row_src_last: "cs \<noteq> [] \<Longrightarrow> cell_src (last cs) \<noteq> [] \<Longrightarrow> last (row_src cs) = last (cell_src (last cs)) \<and> row_src cs \<noteq> []"
  by (induction cs rule: row_src.induct) auto

lemma cell_src_last: "cell_wf h c \<Longrightarrow> cell_src c \<noteq> [] \<Longrightarrow> last (cell_src c) \<noteq> LF"
  by (cases c) (auto simp: quoted_def)

definition packed_lines :: "dump_env \<Rightarrow> Datatable \<Rightarrow> (csv_cell list \<times> bool) list" where
  "packed_lines env t = (map (\<lambda>c. Plain (col_name c)) (columnInfo t), False) #
     map (\<lambda>r. (packed_row env t r, False)) [0..<numRows t]"

lemma packed_lines_wf:
  assumes "packed_ok env t" "l \<in> set (packed_lines env t)"
  shows "fst l \<noteq> []" "\<And>c. c \<in> set (fst l) \<Longrightarrow> (\<exists>h. cell_wf h c) \<and> cell_src c \<noteq> []"
proof -
  have ne: "columnInfo t \<noteq> []" and
    nm: "\<And>c. c \<in> set (columnInfo t) \<Longrightarrow> col_name c \<noteq> [] \<and> cell_wf True (Plain (col_name c))" and
    pk: "\<And>c r. c \<in> set (columnInfo t) \<Longrightarrow> r < numRows t \<Longrightarrow>
      cell_wf False (packed_cell env t c r) \<and> cell_src (packed_cell env t c r) \<noteq> []"
    using assms(1) unfolding packed_ok_def by blast+
  from assms(2) consider "l = (map (\<lambda>c. Plain (col_name c)) (columnInfo t), False)"
    | r where "l = (packed_row env t r, False)" "r < numRows t"
    by (auto simp: packed_lines_def)
  then have "fst l \<noteq> [] \<and> (\<forall>c \<in> set (fst l). (\<exists>h. cell_wf h c) \<and> cell_src c \<noteq> [])"
  proof cases
    case 1
    have "(\<exists>h. cell_wf h (Plain (col_name c))) \<and> cell_src (Plain (col_name c)) \<noteq> []"
      if "c \<in> set (columnInfo t)" for c using nm [OF that] by (metis cell_src.simps(1))
    then show ?thesis unfolding 1 using ne by (simp only: fst_conv set_map ball_simps) blast
  next
    case 2
    have "(\<exists>h. cell_wf h (packed_cell env t c r)) \<and> cell_src (packed_cell env t c r) \<noteq> []"
      if "c \<in> set (columnInfo t)" for c using pk [OF that 2(2)] by blast
    then show ?thesis unfolding 2(1) packed_row_def using ne by (simp only: fst_conv set_map ball_simps) blast
  qed
  then show "fst l \<noteq> []" "\<And>c. c \<in> set (fst l) \<Longrightarrow> (\<exists>h. cell_wf h c) \<and> cell_src c \<noteq> []" by blast+
qed

lemma dump_text:
  assumes "packed_ok env t"
  shows "\<exists>s. DataTableToString env t = Ret s \<and> last s \<noteq> LF \<and>
     s @ [LF] = concat (map line_src (packed_lines env t))"
proof -
  have ne: "columnInfo t \<noteq> []" using assms by (simp add: packed_ok_def)
  then have h: "join_cells False (map (\<lambda>c. Ret (col_name c)) (columnInfo t)) =
      Ret (row_src (map (\<lambda>c. Plain (col_name c)) (columnInfo t)))"
    using join_cells_row [of "columnInfo t" "\<lambda>c. Ret (col_name c)" "\<lambda>c. Plain (col_name c)" False] by simp
  obtain r where r: "dump_rows env t [0..<numRows t] = Ret r"
    "r @ [LF] = LF # concat (map (\<lambda>r. line_src (packed_row env t r, False)) [0..<numRows t])"
    using dump_rows_text [OF assms, of "[0..<numRows t]"] by auto
  let ?s = "row_src (map (\<lambda>c. Plain (col_name c)) (columnInfo t)) @ r"
  have s: "DataTableToString env t = Ret ?s" by (simp add: DataTableToString_def h r(1))
  have e: "?s @ [LF] = concat (map line_src (packed_lines env t))"
    by (simp add: packed_lines_def r(2) line_src_def comp_def)
  let ?l = "last (packed_lines env t)"
  have l: "?l \<in> set (packed_lines env t)" "snd ?l = False"
    by (auto simp: packed_lines_def last_map)
  have "?s @ [LF] = concat (map line_src (butlast (packed_lines env t))) @ line_src ?l"
    unfolding e by (subst append_butlast_last_id [symmetric]) (simp_all add: packed_lines_def)
  also have "line_src ?l = row_src (fst ?l) @ [LF]" using l(2) by (simp add: line_src_def)
  finally have s2: "?s = concat (map line_src (butlast (packed_lines env t))) @ row_src (fst ?l)" by simp
  have "fst ?l \<noteq> []" "last (fst ?l) \<in> set (fst ?l)" using packed_lines_wf(1) [OF assms l(1)] by auto
  moreover obtain hh where "cell_wf hh (last (fst ?l))" "cell_src (last (fst ?l)) \<noteq> []"
    using packed_lines_wf(2) [OF assms l(1)] calculation(2) by blast
  ultimately have "row_src (fst ?l) \<noteq> []" "last (row_src (fst ?l)) \<noteq> LF"
    using row_src_last cell_src_last by metis+
  then have "last ?s \<noteq> LF" unfolding s2 by simp
  then show ?thesis using s e by blast
qed

lemma dump_parses:
  assumes "packed_ok env t"
  shows "\<exists>s csv. DataTableToString env t = Ret s \<and> parse_csv s = Inr csv \<and>
     table_of csv (map (\<lambda>c. Plain (col_name c)) (columnInfo t)) (map (packed_row env t) [0..<numRows t])"
proof -
  obtain s where s: "DataTableToString env t = Ret s" "last s \<noteq> LF"
    "s @ [LF] = concat (map line_src (packed_lines env t))" using dump_text [OF assms] by auto
  let ?h = "(map (\<lambda>c. Plain (col_name c)) (columnInfo t), False)"
  let ?ls = "map (\<lambda>r. (packed_row env t r, False)) [0..<numRows t]"
  have "line_wf True ?h" "\<forall>l \<in> set ?ls. line_wf False l"
    using assms by (auto simp: packed_ok_def line_wf_def packed_row_def)
  from parse_table [OF this, of s] s(2,3) obtain csv where "parse_csv s = Inr csv"
    "table_of csv (fst ?h) (map fst ?ls)" unfolding packed_lines_def by blast
  then show ?thesis using s(1) by (auto simp: comp_def)
qed

section \<open>Vectors\<close>

text \<open>The parts of the text of a vector.\<close>

definition vec_part :: "string \<Rightarrow> bool" where
  "vec_part s \<longleftrightarrow> (\<forall>c \<in> set s. c \<notin> {NUL, CHR '','', CHR ''<'', CHR ''>''})"

lemma next_sep_at:
  assumes "length P = k" "vec_part a" "x = NUL \<or> x = CHR '',''"
  shows "next_sep (P @ a @ x # r) k = Ret (k + length a)"
proof -
  have "takeWhile (\<lambda>c. c \<noteq> NUL \<and> c \<noteq> CHR '','') (a @ x # r) = a"
    using assms(2,3) by (subst takeWhile_append2) (auto simp: vec_part_def)
  then show ?thesis using assms(1) by (simp add: next_sep_def)
qed

lemma cstr_append: "length P = k \<Longrightarrow> NUL \<notin> set a \<Longrightarrow> cstr (P @ a @ NUL # r) k = Ret a"
  by (rule cstr_at) simp_all

lemma read_float_at:
  assumes "length P = k" "vec_part a" "x = NUL \<or> x = CHR '',''"
  shows "read_float stof (P @ a @ x # r) k =
     obind (stof a) (\<lambda>v. Ret (v, P @ a @ NUL # r, k + length a + 1))"
proof -
  have "(P @ a @ x # r)[k + length a := NUL] = P @ a @ NUL # r"
    using assms(1) by (simp add: list_update_append)
  moreover have "NUL \<notin> set a" using assms(2) by (auto simp: vec_part_def)
  ultimately show ?thesis
    using next_sep_at [OF assms] cstr_append [OF assms(1)] by (simp add: read_float_def Let_def)
qed

text \<open>The three reads, whether the separators are still commas or have become zeros.\<close>

lemma read_parts:
  assumes "vec_part a" "vec_part b" "vec_part c" "x = NUL \<or> x = CHR '',''" "y = NUL \<or> y = CHR '',''"
    and "length P = k" "stof a = Ret u" "stof b = Ret v" "stof c = Ret w"
  shows "obind (read_float stof (P @ NUL # a @ x # b @ y # c @ NUL # r) (k + 1)) (\<lambda>(x, buf, i).
       obind (read_float stof buf i) (\<lambda>(y, buf, i).
         obind (read_float stof buf i) (\<lambda>(z, buf, i). Ret ((x, y, z), buf)))) =
     Ret ((u, v, w), P @ NUL # a @ NUL # b @ NUL # c @ NUL # r)"
  using assms
    read_float_at [of "P @ [NUL]" "k + 1" a x stof "b @ y # c @ NUL # r"]
    read_float_at [of "P @ NUL # a @ [NUL]" "k + 1 + length a + 1" b y stof "c @ NUL # r"]
    read_float_at [of "P @ NUL # a @ NUL # b @ [NUL]" "k + 1 + length a + 1 + length b + 1" c NUL stof r]
  by simp

lemma cut_brackets_vector:
  assumes "vec_part a" "vec_part b" "vec_part c" "length P = k"
  shows "cut_brackets (P @ ''<'' @ a @ '','' @ b @ '','' @ c @ ''>'' @ NUL # r) k =
     Ret (P @ NUL # a @ CHR '','' # b @ CHR '','' # c @ NUL # NUL # r)"
proof -
  define v where "v = ''<'' @ a @ '','' @ b @ '','' @ c @ ''>''"
  have "NUL \<notin> set v" using assms(1-3) by (auto simp: v_def vec_part_def NUL_def)
  then have "cstr (P @ v @ NUL # r) k = Ret v" by (rule cstr_append [OF assms(4)])
  then have "cut_brackets (P @ v @ NUL # r) k =
      Ret (P @ map (\<lambda>c. if c = CHR ''<'' \<or> c = CHR ''>'' then NUL else c) v @ NUL # r)"
    using assms(4) by (simp add: cut_brackets_def)
  moreover have "map (\<lambda>c. if c = CHR ''<'' \<or> c = CHR ''>'' then NUL else c) s = s" if "vec_part s" for s
    using that by (intro map_idI) (auto simp: vec_part_def)
  ultimately show ?thesis using assms(1-3) by (simp add: v_def)
qed

lemma StringToVector_text:
  assumes "vec_part a" "vec_part b" "vec_part c" "length P = k" "stof a = Ret u" "stof b = Ret v" "stof c = Ret w"
  shows "StringToVector stof (P @ ''<'' @ a @ '','' @ b @ '','' @ c @ ''>'' @ NUL # r) k =
     Ret ((u, v, w), P @ NUL # a @ NUL # b @ NUL # c @ NUL # NUL # r)"
  unfolding StringToVector_def cut_brackets_vector [OF assms(1-4)] obind.simps
  by (rule read_parts) (use assms in auto)

lemma StringToVector_again:
  assumes "vec_part a" "vec_part b" "vec_part c" "length P = k" "stof a = Ret u" "stof b = Ret v" "stof c = Ret w"
  shows "StringToVector stof (P @ NUL # a @ NUL # b @ NUL # c @ NUL # r) k =
     Ret ((u, v, w), P @ NUL # a @ NUL # b @ NUL # c @ NUL # r)"
proof -
  have "cstr (P @ [] @ NUL # a @ NUL # b @ NUL # c @ NUL # r) k = Ret []"
    by (rule cstr_append) (simp_all add: assms(4))
  then have "cut_brackets (P @ NUL # a @ NUL # b @ NUL # c @ NUL # r) k = Ret (P @ NUL # a @ NUL # b @ NUL # c @ NUL # r)"
    using assms(4) by (simp add: cut_brackets_def)
  then show ?thesis unfolding StringToVector_def obind.simps
    using read_parts [of a b c NUL NUL P k stof u v w r] assms by simp
qed

end
