(* ===== verification/DataTableSpec.thy ===== *)
theory DataTableSpec
  imports DataTableDump
begin

text \<open>What the datatable functions guarantee to scripts.\<close>

section \<open>Reading files\<close>

text \<open>
  C7: A file that is the text of a table, with plain cells, quoted cells holding commas, either kind
  of line end and with or without a final one, becomes a table with those cells: \<open>GetDataTable\<close> caches
  it, every cell read as a string or an asset is the text of that cell, without its quotes, columns
  are found under their names and the number of rows is that of the lines after the first.
\<close>

theorem csv_table_read:
  assumes "take 10 name = ''datatable/''" "prefer_from_disk env" "cache name = None"
    and "FileExists env (disk_path name)" "ReadVPKFile env (disk_path name) = file" "file \<noteq> []"
    and "line_wf True hdr" "\<forall>l \<in> set lines. line_wf False l"
    and "file = concat (map line_src (hdr # lines)) \<or>
      last file \<noteq> LF \<and> file @ [LF] = concat (map line_src (hdr # lines))"
  shows "\<exists>csv. GetDataTable env cache name = (UserData name, cache(name \<mapsto> csv)) \<and>
     (\<forall>i j. i < length lines \<and> j < length (fst (lines ! i)) \<longrightarrow>
        GetDataTableString (CUSTOM csv) (int i) (int j) =
          (Ret (SqPush (SqString (cell_val (fst (lines ! i) ! j)))) :: 'f sq_ret outcome) \<and>
        GetDataTableAsset (CUSTOM csv) (int i) (int j) =
          (Ret (SqPush (SqAsset (cell_val (fst (lines ! i) ! j)))) :: 'f sq_ret outcome)) \<and>
     (\<forall>col. GetDataTableColumnByName (CUSTOM csv) col =
        (Ret (SqPush (SqInt (first_row (\<lambda>v. v = col) (map cell_val (fst hdr))))) :: 'f sq_ret outcome)) \<and>
     GetDatatableRowCount (CUSTOM csv) = (Ret (SqPush (SqInt (int (length lines)))) :: 'f sq_ret outcome)"
proof -
  obtain csv where csv: "parse_csv file = Inr csv" "table_of csv (fst hdr) (map fst lines)"
    using parse_table [OF assms(7,8,9)] by blast
  have "GetDataTable env cache name = (UserData name, cache(name \<mapsto> csv))"
    using assms(1-6) csv(1) by (simp add: GetDataTable_def)
  moreover have "GetDatatableRowCount (CUSTOM csv) = (Ret (SqPush (SqInt (int (length lines)))) :: 'f sq_ret outcome)"
    using table_length [OF csv(2)] by (simp add: GetDatatableRowCount_def)
  ultimately show ?thesis
    by (intro exI [of _ csv])
       (simp add: table_cell_gets(1,2) [OF csv(2), OF _ _ refl] table_column [OF csv(2)])
qed

definition demo_env :: "string \<Rightarrow> dt_env" where
  "demo_env file = \<lparr>prefer_from_disk = True, FindAssetByName = (\<lambda>n. False), FileExists = (\<lambda>n. True),
     ReadVPKFile = (\<lambda>n. file)\<rparr>"

definition demo_file :: string where
  "demo_file = ''id,v'' @ [CR, LF] @ ''1,'' @ quoted ''a,b''"

lemma csv_table_read_witness:
  "\<exists>csv. GetDataTable (demo_env demo_file) Map.empty ''datatable/t.rpak'' =
      (UserData ''datatable/t.rpak'', [''datatable/t.rpak'' \<mapsto> csv]) \<and>
     GetDataTableString (CUSTOM csv) 0 1 = (Ret (SqPush (SqString ''a,b'')) :: nat sq_ret outcome)"
proof -
  let ?h = "([Plain ''id'', Plain ''v''], True)" and ?l = "([Plain ''1'', Quoted ''a,b''], False)"
  have h: "take 10 ''datatable/t.rpak'' = ''datatable/''" "prefer_from_disk (demo_env demo_file)"
    "Map.empty ''datatable/t.rpak'' = None" "FileExists (demo_env demo_file) (disk_path ''datatable/t.rpak'')"
    "ReadVPKFile (demo_env demo_file) (disk_path ''datatable/t.rpak'') = demo_file" "demo_file \<noteq> []"
    "line_wf True ?h" "\<forall>l \<in> set [?l]. line_wf False l"
    by (simp_all add: demo_env_def demo_file_def line_wf_def CR_def LF_def NUL_def)
  have d: "demo_file = concat (map line_src [?h, ?l]) \<or>
      last demo_file \<noteq> LF \<and> demo_file @ [LF] = concat (map line_src [?h, ?l])"
    by (simp add: demo_file_def line_src_def quoted_def LF_def CR_def)
  obtain csv where "GetDataTable (demo_env demo_file) Map.empty ''datatable/t.rpak'' =
      (UserData ''datatable/t.rpak'', [''datatable/t.rpak'' \<mapsto> csv])"
    and c: "\<forall>i j. i < length [?l] \<and> j < length (fst ([?l] ! i)) \<longrightarrow>
        GetDataTableString (CUSTOM csv) (int i) (int j) =
          (Ret (SqPush (SqString (cell_val (fst ([?l] ! i) ! j)))) :: nat sq_ret outcome) \<and>
        GetDataTableAsset (CUSTOM csv) (int i) (int j) =
          (Ret (SqPush (SqAsset (cell_val (fst ([?l] ! i) ! j)))) :: nat sq_ret outcome)"
    using csv_table_read [OF h(1,2,3,4,5,6,7,8) d] by blast
  then show ?thesis using spec [OF spec [OF c, of 0], of 1] by auto
qed

definition cache_ok :: "(string \<Rightarrow> CSVData option) \<Rightarrow> bool" where
  "cache_ok cache \<longleftrightarrow> (\<forall>csv \<in> ran cache. table_ok csv)"

lemma GetDataTable_cache_ok:
  "cache_ok cache \<Longrightarrow> cache_ok (snd (GetDataTable env cache name))"
  by (auto simp: GetDataTable_def cache_ok_def ran_def parse_csv_ok Let_def split: sum.splits)

lemma table_ok_cell:
  assumes "table_ok csv" "GetCell csv r c = Inr p" "- (2 ^ 31) \<le> r" "- (2 ^ 31) \<le> c"
    and "length (dataPointers csv) < 2 ^ 31" "\<forall>row \<in> set (dataPointers csv). length row < 2 ^ 31"
  shows "\<exists>s. cstr (m_pDataBuf csv) p = Ret s"
proof -
  have r: "0 \<le> r" "nat r < length (dataPointers csv)" and p: "p = dataPointers csv ! nat r ! nat c"
    and c: "as_size c < int (length (dataPointers csv ! nat r))"
    using assms(2,3,5) by (auto simp: GetCell_def as_size_def split: if_splits)
  have row: "dataPointers csv ! nat r \<in> set (dataPointers csv)" using r(2) by simp
  then have "length (dataPointers csv ! nat r) < 2 ^ 31" using assms(6) by blast
  then have "nat c < length (dataPointers csv ! nat r)"
    using c assms(4) by (auto simp: as_size_def split: if_splits)
  then have "p \<in> set (dataPointers csv ! nat r)" using p by simp
  then have "terminated (m_pDataBuf csv) p" using assms(1) row unfolding table_ok_def by blast
  then show ?thesis by (simp add: terminated_cstr)
qed

lemma GetCell_range:
  assumes "- (2 ^ 31) \<le> r" "- (2 ^ 31) \<le> c"
    and "length (dataPointers csv) < 2 ^ 31" "\<forall>row \<in> set (dataPointers csv). length row < 2 ^ 31"
  shows "(\<exists>p. GetCell csv r c = Inr p) \<longleftrightarrow>
     0 \<le> r \<and> nat r < length (dataPointers csv) \<and> 0 \<le> c \<and> nat c < length (dataPointers csv ! nat r)"
proof (cases "0 \<le> r \<and> nat r < length (dataPointers csv)")
  case True
  then have "dataPointers csv ! nat r \<in> set (dataPointers csv)" by simp
  then have "length (dataPointers csv ! nat r) < 2 ^ 31" using assms(4) by blast
  then show ?thesis using True assms(2) by (auto simp: GetCell_def as_size_def)
next
  case False
  then show ?thesis using assms(1,3) by (auto simp: GetCell_def as_size_def)
qed

text \<open>
  Whatever a file holds, no cell read leaves its buffer. A table in the cache stays readable and
  \<open>GetDataTable\<close> adds only readable tables; in a readable table with fewer than \<open>2 ^ 31\<close> rows and
  columns, a read at any row and column either raises the range error or returns a string, and it
  raises the error exactly when the row or the column, which may be negative, is outside the table.
\<close>

theorem cell_reads_safe:
  assumes "cache_ok cache" "snd (GetDataTable env cache name) n = Some csv"
    and "- (2 ^ 31) \<le> r" "- (2 ^ 31) \<le> c"
    and "length (dataPointers csv) < 2 ^ 31" "\<forall>row \<in> set (dataPointers csv). length row < 2 ^ 31"
  shows "cache_ok (snd (GetDataTable env cache name)) \<and>
     (if 0 \<le> r \<and> nat r < length (dataPointers csv) \<and> 0 \<le> c \<and> nat c < length (dataPointers csv ! nat r)
      then \<exists>s. GetDataTableString (CUSTOM csv) r c = (Ret (SqPush (SqString s)) :: 'f sq_ret outcome)
      else GetDataTableString (CUSTOM csv) r c = (Ret (SqError (range_error csv r c)) :: 'f sq_ret outcome))"
proof -
  have ok: "cache_ok (snd (GetDataTable env cache name))" using GetDataTable_cache_ok [OF assms(1)] .
  then have t: "table_ok csv" using assms(2) by (auto simp: cache_ok_def ran_def)
  show ?thesis
  proof (cases "GetCell csv r c")
    case (Inl e)
    then have "e = range_error csv r c" by (auto simp: GetCell_def split: if_splits)
    then show ?thesis using ok Inl GetCell_range [OF assms(3-6)] by (auto simp: GetDataTableString_def)
  next
    case (Inr p)
    from table_ok_cell [OF t this assms(3-6)] Inr ok GetCell_range [OF assms(3-6)]
    show ?thesis by (auto simp: GetDataTableString_def)
  qed
qed

definition demo_csv :: CSVData where
  "demo_csv = \<lparr>m_pDataBuf = ''a'' @ [NUL] @ ''7'' @ [NUL] @ ''9'' @ [NUL], columns = [0], dataPointers = [[2], [4]]\<rparr>"

lemma cell_reads_safe_witness:
  "\<exists>s. GetDataTableString (CUSTOM demo_csv) 1 0 = Ret (SqPush (SqString s) :: nat sq_ret)"
proof -
  have "table_ok demo_csv" by (simp add: table_ok_def demo_csv_def terminated_def NUL_def)
  then have "cache_ok [''x'' \<mapsto> demo_csv]" by (simp add: cache_ok_def)
  moreover have "snd (GetDataTable (demo_env []) [''x'' \<mapsto> demo_csv] ''y'') ''x'' = Some demo_csv"
    by (simp add: GetDataTable_def)
  ultimately show ?thesis
    using cell_reads_safe [of "[''x'' \<mapsto> demo_csv]" "demo_env []" "''y''" "''x''" demo_csv 1 0, where 'f = nat]
    by (simp add: demo_csv_def)
qed

text \<open>
  The cache. A name that does not start with \<open>datatable/\<close> is refused; otherwise, when disk tables
  are preferred or no pak has the table, a table in the cache is returned as it is, and a call that
  raises an error or runs the game's function leaves the cache as it was. When the call returns a
  table, the next call returns the same one and changes nothing.
\<close>

theorem GetDataTable_cache:
  assumes "GetDataTable env cache name = (r, cache')"
  shows "(if take 10 name \<noteq> ''datatable/'' then \<exists>e. r = RaiseError e
      else if \<not> prefer_from_disk env \<and> FindAssetByName env name then r = Original
      else cache name \<noteq> None \<longrightarrow> r = UserData name) \<and>
     (cache' = cache \<or> cache name = None \<and> r = UserData name \<and> (\<exists>csv. cache' = cache(name \<mapsto> csv))) \<and>
     (\<forall>n. r = UserData n \<longrightarrow> n = name \<and> cache' name \<noteq> None \<and>
        GetDataTable env cache' name = (UserData name, cache'))"
  using assms by (auto simp: GetDataTable_def Let_def split: if_splits sum.splits)

lemma GetDataTable_cache_witness:
  "GetDataTable (demo_env []) [''datatable/x'' \<mapsto> demo_csv] ''datatable/x'' =
     (UserData ''datatable/x'', [''datatable/x'' \<mapsto> demo_csv])"
proof -
  have "GetDataTable (demo_env []) [''datatable/x'' \<mapsto> demo_csv] ''datatable/x'' =
     (UserData ''datatable/x'', [''datatable/x'' \<mapsto> demo_csv])"
    by (simp add: GetDataTable_def demo_env_def)
  from GetDataTable_cache [OF this] show ?thesis by simp
qed

section \<open>Reading back a dump\<close>





section \<open>Looking for rows\<close>

text \<open>
  The row functions return the first row whose cell in the column is wanted, and -1 when there is
  none: the cell equals the string or the asset, its number equals the integer or the float, is at
  least the integer or the float for the functions called \<open>LessThanOrEqual\<close>, is at most the float for
  \<open>GreaterThanOrEqualToFloat\<close>. Every row is long enough for the column, and numbers can be read.
\<close>

theorem row_functions_find_first:
  assumes "column_cells csv nCol vs"
  shows "GetDataTableRowMatchingStringValue (CUSTOM csv) nCol str =
       (Ret (SqPush (SqInt (first_row (\<lambda>s. s = str) vs))) :: 'f sq_ret outcome) \<and>
     GetDataTableRowMatchingAssetValue (CUSTOM csv) nCol str =
       (Ret (SqPush (SqInt (first_row (\<lambda>s. s = str) vs))) :: 'f sq_ret outcome) \<and>
     ((\<forall>s \<in> set vs. \<exists>n. stoi s = Ret n) \<longrightarrow>
       GetDataTableRowMatchingIntValue (CUSTOM csv) nCol i =
         (Ret (SqPush (SqInt (first_row (\<lambda>s. \<exists>n. stoi s = Ret n \<and> i = n) vs))) :: 'f sq_ret outcome) \<and>
       GetDataTableRowLessThanOrEqualToIntValue (CUSTOM csv) nCol i =
         (Ret (SqPush (SqInt (first_row (\<lambda>s. \<exists>n. stoi s = Ret n \<and> i \<le> n) vs))) :: 'f sq_ret outcome)) \<and>
     ((\<forall>s \<in> set vs. \<exists>x. stof s = Ret x) \<longrightarrow>
       GetDataTableRowMatchingFloatValue stof feq (CUSTOM csv) nCol x =
         (Ret (SqPush (SqInt (first_row (\<lambda>s. \<exists>y. stof s = Ret y \<and> feq x y) vs))) :: 'f sq_ret outcome) \<and>
       GetDataTableRowLessThanOrEqualToFloatValue stof fle (CUSTOM csv) nCol x =
         (Ret (SqPush (SqInt (first_row (\<lambda>s. \<exists>y. stof s = Ret y \<and> fle x y) vs))) :: 'f sq_ret outcome) \<and>
       GetDataTableRowGreaterThanOrEqualToFloatValue stof fle (CUSTOM csv) nCol x =
         (Ret (SqPush (SqInt (first_row (\<lambda>s. \<exists>y. stof s = Ret y \<and> fle y x) vs))) :: 'f sq_ret outcome))"
  unfolding GetDataTableRowMatchingStringValue_def GetDataTableRowMatchingAssetValue_def
    GetDataTableRowMatchingIntValue_def GetDataTableRowLessThanOrEqualToIntValue_def
    GetDataTableRowMatchingFloatValue_def GetDataTableRowLessThanOrEqualToFloatValue_def
    GetDataTableRowGreaterThanOrEqualToFloatValue_def with_custom.simps
  by (intro conjI impI same_text.push_first same_int.push_first int_from.push_first
      same_float.push_first float_up_to.push_first assms) simp_all

lemma demo_column: "column_cells demo_csv 0 [''7'', ''9'']"
  by (simp add: column_cells_def demo_csv_def as_size_def cstr_def NUL_def)

lemma demo_stoi: "stoi ''7'' = Ret 7" "stoi ''9'' = Ret 9"
  by (simp_all add: stoi_def num_prefix_def is_space_def is_digit_def digits_val_def)

lemma row_functions_find_first_witness:
  "GetDataTableRowMatchingStringValue (CUSTOM demo_csv) 0 ''9'' = (Ret (SqPush (SqInt 1)) :: nat sq_ret outcome) \<and>
   GetDataTableRowLessThanOrEqualToIntValue (CUSTOM demo_csv) 0 8 = (Ret (SqPush (SqInt 1)) :: nat sq_ret outcome) \<and>
   GetDataTableRowMatchingIntValue (CUSTOM demo_csv) 0 8 = (Ret (SqPush (SqInt (-1))) :: nat sq_ret outcome)"
  using row_functions_find_first [OF demo_column, of "''9''", where 'f = nat] 
    row_functions_find_first [OF demo_column, where i = 8 and 'f = nat]
  by (simp add: demo_stoi)

text \<open>
  \<open>GetDataTableRowGreaterThanOrEqualToIntValue\<close> does not return the row: it returns 1 when some
  row of the column holds a number that is at most the given one, whichever row that is, and -1 when
  there is none.
\<close>

theorem ge_int_pushes_one:
  assumes "column_cells csv nCol vs" "\<forall>s \<in> set vs. \<exists>n. stoi s = Ret n"
  shows "GetDataTableRowGreaterThanOrEqualToIntValue (CUSTOM csv) nCol i =
     (Ret (SqPush (SqInt (if first_row (\<lambda>s. \<exists>n. stoi s = Ret n \<and> n \<le> i) vs = -1 then -1 else 1))) :: 'f sq_ret outcome)"
proof (cases "first_row (\<lambda>s. \<exists>n. stoi s = Ret n \<and> n \<le> i) vs = -1")
  case True
  then have "\<not> (\<exists>s \<in> set vs. \<exists>n. stoi s = Ret n \<and> n \<le> i)" unfolding first_row_none by blast
  with True ge_int_scan [OF assms, of i] show ?thesis by simp
next
  case False
  then have "\<exists>s \<in> set vs. \<exists>n. stoi s = Ret n \<and> n \<le> i" unfolding first_row_none by blast
  with False ge_int_scan [OF assms, of i] show ?thesis by simp
qed

lemma ge_int_pushes_one_witness:
  "GetDataTableRowGreaterThanOrEqualToIntValue (CUSTOM demo_csv) 0 7 = (Ret (SqPush (SqInt 1)) :: nat sq_ret outcome) \<and>
   first_row (\<lambda>s. \<exists>n. stoi s = Ret n \<and> n \<le> 7) [''7'', ''9''] = 0"
proof -
  have "\<forall>s \<in> set [''7'', ''9'']. \<exists>n. stoi s = Ret n" by (simp add: demo_stoi)
  from ge_int_pushes_one [OF demo_column this, of 7] show ?thesis by (simp add: demo_stoi)
qed

section \<open>Reading vectors\<close>

text \<open>
  Reading a cell of the form \<open><a,b,c>\<close> as a vector gives the three numbers, and cuts the cell up in the
  table: reading the same cell as a vector again gives the same numbers and changes nothing more, but
  read as a string or an asset it is now empty.
\<close>

theorem vector_read_cuts:
  assumes "GetCell csv r c = Inr p"
    and "m_pDataBuf csv = before @ ''<'' @ a @ '','' @ b @ '','' @ d @ ''>'' @ NUL # after" "length before = p"
    and "vec_part a" "vec_part b" "vec_part d" "stof a = Ret x" "stof b = Ret y" "stof d = Ret z"
  shows "\<exists>csv'. GetDataTableVector stof (CUSTOM csv) r c = Ret (SqPush (SqVector x y z), CUSTOM csv') \<and>
     GetDataTableVector stof (CUSTOM csv') r c = Ret (SqPush (SqVector x y z), CUSTOM csv') \<and>
     GetDataTableString (CUSTOM csv') r c = (Ret (SqPush (SqString [])) :: 'g sq_ret outcome) \<and>
     GetDataTableAsset (CUSTOM csv') r c = (Ret (SqPush (SqAsset [])) :: 'g sq_ret outcome)"
proof -
  let ?b = "before @ NUL # a @ NUL # b @ NUL # d @ NUL # NUL # after"
  let ?csv = "csv\<lparr>m_pDataBuf := ?b\<rparr>"
  have cell: "GetCell ?csv r c = Inr p" using assms(1) by (simp add: GetCell_def range_error_def split: if_splits)
  have "cstr ?b p = Ret []" using cstr_append [OF assms(3), of "[]"] by simp
  then show ?thesis
    using StringToVector_text [OF assms(4-6,3,7-9)] StringToVector_again [OF assms(4-6,3,7-9)] cell assms(1,2)
    by (intro exI [of _ ?csv]) (simp add: GetDataTableVector_def GetDataTableString_def GetDataTableAsset_def)
qed

lemma vector_read_cuts_witness:
  "\<exists>ud. GetDataTableVector (\<lambda>s. Ret (length s))
       (CUSTOM \<lparr>m_pDataBuf = ''<1,22,333>'' @ [NUL], columns = [], dataPointers = [[0]]\<rparr>) 0 0 =
     Ret (SqPush (SqVector 1 2 3), ud) \<and>
     GetDataTableString ud 0 0 = (Ret (SqPush (SqString [])) :: nat sq_ret outcome)"
proof -
  let ?csv = "\<lparr>m_pDataBuf = ''<1,22,333>'' @ [NUL], columns = [], dataPointers = [[0]]\<rparr>"
  have "GetCell ?csv 0 0 = Inr 0" by (simp add: GetCell_def as_size_def)
  moreover have "m_pDataBuf ?csv = [] @ ''<'' @ ''1'' @ '','' @ ''22'' @ '','' @ ''333'' @ ''>'' @ NUL # []" by simp
  ultimately show ?thesis
    using vector_read_cuts [of ?csv 0 0 0 "[]" "''1''" "''22''" "''333''" "[]", where stof = "\<lambda>s. Ret (length s)" and x = 1 and y = 2 and z = 3 and 'g = nat]
    by (auto simp: vec_part_def NUL_def)
qed

end
