(* ===== verification/FakeIp.thy ===== *)
theory FakeIp
  imports CppStd
begin

text \<open>
  The fake IP layer of \<open>src/eos/fake_ip_layer.cpp\<close>: peers known by product user ids get IPv6 addresses
  made of these ids, so that the engine's socket code can send to them; packets received from peers are
  queued with the side, client or server, they are for.

  The EOS SDK is not part of the repository: what its calls return is an argument of the definitions.
\<close>

section \<open>Packet routes\<close>

text \<open>The enumeration, where \<open>None\<close> is \<open>NoRoute\<close>, and its bitwise operators.\<close>

datatype PacketRoute = NoRoute | Client | Server | All

fun route_bits :: "PacketRoute \<Rightarrow> u8" where
  "route_bits NoRoute = 0"
| "route_bits Client = 1"
| "route_bits Server = 2"
| "route_bits All = 3"

definition route_cast :: "u8 \<Rightarrow> PacketRoute" where
  "route_cast b = (if b = 0 then NoRoute else if b = 1 then Client else if b = 2 then Server else All)"

definition route_or :: "PacketRoute \<Rightarrow> PacketRoute \<Rightarrow> PacketRoute" where
  "route_or lhs rhs = route_cast (route_bits lhs OR route_bits rhs)"

definition route_and :: "PacketRoute \<Rightarrow> PacketRoute \<Rightarrow> PacketRoute" where
  "route_and lhs rhs = route_cast (route_bits lhs AND route_bits rhs)"

definition AnyRoute :: "PacketRoute \<Rightarrow> bool" where
  "AnyRoute route \<longleftrightarrow> route_bits route \<noteq> 0"

definition NormalizeRoute :: "PacketRoute \<Rightarrow> PacketRoute" where
  "NormalizeRoute route = (if route = NoRoute then All else route)"

definition CombineRoutes :: "PacketRoute \<Rightarrow> PacketRoute \<Rightarrow> PacketRoute" where
  "CombineRoutes lhs rhs = NormalizeRoute (route_cast (route_bits lhs OR route_bits rhs))"

section \<open>Product user ids\<close>

definition kFakeIPv6Prefix :: u16 where "kFakeIPv6Prefix = 0x3FFE"
definition kProductBytes :: nat where "kProductBytes = 16"

definition HexCharToValue :: "char \<Rightarrow> u8 option" where
  "HexCharToValue c =
     (let n = (of_char c :: nat) in
      if 48 \<le> n \<and> n \<le> 57 then Some (of_nat (n - 48))
      else let m = (of_char (tolower c) :: nat) in
        if 97 \<le> m \<and> m \<le> 102 then Some (of_nat (10 + m - 97)) else None)"

definition normalized_text :: "string \<Rightarrow> string" where
  "normalized_text productId =
     map tolower (filter (\<lambda>c. \<not> (c = CHR ''-'' \<or> c = CHR ''{'' \<or> c = CHR ''}'')) productId)"

definition ProductIdToBytes :: "string \<Rightarrow> u8 list option" where
  "ProductIdToBytes productId =
     (let normalized = normalized_text productId in
      if length normalized < kProductBytes * 2 then None
      else those (map (\<lambda>i.
        case HexCharToValue (normalized ! (i * 2)) of None \<Rightarrow> None
        | Some hi \<Rightarrow> (case HexCharToValue (normalized ! (i * 2 + 1)) of None \<Rightarrow> None
          | Some lo \<Rightarrow> Some (push_bit 4 hi OR lo))) [0..<kProductBytes]))"

definition kHex :: string where "kHex = ''0123456789abcdef''"

definition BytesToProductIdString :: "u8 list \<Rightarrow> string" where
  "BytesToProductIdString bytes =
     concat (map (\<lambda>b. [kHex ! unat (drop_bit 4 b AND 0xF), kHex ! unat (b AND 0xF)]) bytes)"

definition NormalizeProductId :: "string \<Rightarrow> string option" where
  "NormalizeProductId productId = map_option BytesToProductIdString (ProductIdToBytes productId)"

section \<open>Endpoints\<close>

text \<open>An address is its 16 bytes; \<open>Word[0]\<close> is the first two, the lower one first.\<close>

record FakeEndpoint =
  address :: "u8 list"
  port :: u16

definition no_endpoint :: FakeEndpoint where
  "no_endpoint = \<lparr>address = replicate 16 0, port = 0\<rparr>"

definition htons :: "u16 \<Rightarrow> u16" where
  "htons w = push_bit 8 w OR drop_bit 8 w"

definition ntohs :: "u16 \<Rightarrow> u16" where
  "ntohs w = htons w"

definition word0 :: "u8 list \<Rightarrow> u16" where
  "word0 a = ucast (a ! 0) OR push_bit 8 (ucast (a ! 1))"

definition set_word0 :: "u8 list \<Rightarrow> u16 \<Rightarrow> u8 list" where
  "set_word0 a w = a[0 := ucast w, 1 := ucast (drop_bit 8 w)]"

definition IsValid :: "FakeEndpoint \<Rightarrow> bool" where
  "IsValid ep \<longleftrightarrow> ntohs (word0 (address ep)) = 0x3FFE"

text \<open>What the layer reads of the engine and of the SDK.\<close>

definition ss_dead :: int where "ss_dead = 0"
definition ss_active :: int where "ss_active = 2"

record eos_env =
  ProductUserId_ToString :: "u64 \<Rightarrow> string option"
  ProductUserId_FromString :: "string \<Rightarrow> u64"
  SOCKETNAME_SIZE :: nat
  clientport :: int
  hostport :: int
  IsDedicatedServer :: bool
  g_pServerState :: "int option"
  InetNtop :: "u8 list \<Rightarrow> string option"

definition EncodeProductId :: "eos_env \<Rightarrow> string \<Rightarrow> FakeEndpoint option" where
  "EncodeProductId env productId =
     (case ProductIdToBytes productId of
        None \<Rightarrow> None
      | Some bytes \<Rightarrow>
          let addr = set_word0 (replicate 16 0) (htons kFakeIPv6Prefix);
              addr = take 2 addr @ take 14 (drop 2 bytes);
              hostPort = (word_of_int (clientport env) :: u16);
              ss_state = (if IsDedicatedServer env then ss_active
                          else case g_pServerState env of Some s \<Rightarrow> s | None \<Rightarrow> ss_dead);
              hostPort = (if \<not> ss_state > ss_dead then word_of_int (hostport env) else hostPort);
              hostPort = (if hostPort = 0 then push_bit 8 (ucast (bytes ! 14)) OR ucast (bytes ! 15) else hostPort)
          in Some \<lparr>address = addr, port = hostPort\<rparr>)"

definition DecodeProductId :: "FakeEndpoint \<Rightarrow> string option" where
  "DecodeProductId ep =
     (if ntohs (word0 (address ep)) \<noteq> kFakeIPv6Prefix then None
      else Some (BytesToProductIdString ([0x00, 0x02] @ take 14 (drop 2 (address ep)))))"

section \<open>The layer\<close>

record PeerBinding =
  remoteUser :: u64
  SocketName :: string
  channel :: u8
  endpoint :: FakeEndpoint
  productUserId :: string
  route :: PacketRoute

record PendingPacket =
  sender :: FakeEndpoint
  payload :: "u8 list"
  pk_route :: PacketRoute

text \<open>Handles of the SDK are numbers, 0 the null handle. The last field is the console variable.\<close>

record FakeIpLayer =
  m_p2pHandle :: u64
  m_localUser :: u64
  m_peerBindings :: "string \<Rightarrow> PeerBinding option"
  m_packets :: "PendingPacket list"
  m_localEndpoint :: FakeEndpoint
  eos_current_endpoint :: string

definition GetProductIdString :: "eos_env \<Rightarrow> u64 \<Rightarrow> string option" where
  "GetProductIdString env user = (if user = 0 then None else ProductUserId_ToString env user)"

definition snprintf_name :: "eos_env \<Rightarrow> string \<Rightarrow> string" where
  "snprintf_name env s = take (SOCKETNAME_SIZE env - 1) s"

definition RegisterPeer ::
    "eos_env \<Rightarrow> u64 \<Rightarrow> string option \<Rightarrow> u8 \<Rightarrow> FakeIpLayer \<Rightarrow> FakeEndpoint \<times> FakeIpLayer" where
  "RegisterPeer env user socketName chan l =
     (if m_p2pHandle l = 0 \<or> user = 0 \<or> socketName = None then (no_endpoint, l)
      else case GetProductIdString env user of
        None \<Rightarrow> (no_endpoint, l)
      | Some productIdRaw \<Rightarrow> (case NormalizeProductId productIdRaw of
          None \<Rightarrow> (no_endpoint, l)
        | Some normalizedId \<Rightarrow> (case EncodeProductId env normalizedId of
            None \<Rightarrow> (no_endpoint, l)
          | Some ep \<Rightarrow>
              let binding = \<lparr>remoteUser = user, SocketName = snprintf_name env (the socketName), channel = chan,
                    endpoint = ep, productUserId = normalizedId, route = Server\<rparr>
              in (ep, l\<lparr>m_peerBindings := (m_peerBindings l)(normalizedId \<mapsto> binding)\<rparr>))))"

text \<open>A packet handed to the SDK. \<open>SendPacket\<close> says whether the SDK accepts it.\<close>

record SendOptions =
  so_LocalUserId :: u64
  so_RemoteUserId :: u64
  so_SocketName :: string
  so_Channel :: u8
  so_Data :: "u8 list"
  so_DataLengthBytes :: u32

definition send_with :: "(SendOptions \<Rightarrow> bool) \<Rightarrow> u64 \<Rightarrow> PeerBinding \<Rightarrow> u8 list \<Rightarrow> bool \<times> SendOptions option" where
  "send_with SendPacket localUser binding data =
     (let opts = \<lparr>so_LocalUserId = localUser, so_RemoteUserId = remoteUser binding, so_SocketName = SocketName binding,
            so_Channel = channel binding, so_Data = data, so_DataLengthBytes = of_nat (length data)\<rparr>
      in (SendPacket opts, Some opts))"

definition SendToPeer ::
    "eos_env \<Rightarrow> (SendOptions \<Rightarrow> bool) \<Rightarrow> FakeEndpoint \<Rightarrow> u8 list option \<Rightarrow> PacketRoute \<Rightarrow> FakeIpLayer \<Rightarrow>
     (bool \<times> SendOptions option) \<times> FakeIpLayer" where
  "SendToPeer env SendPacket ep data rt l =
     (if m_p2pHandle l = 0 \<or> m_localUser l = 0 \<or> data = None \<or> data = Some [] then ((False, None), l)
      else
        let normalizedRoute = NormalizeRoute rt in
        case DecodeProductId ep of
          None \<Rightarrow> ((False, None), l)
        | Some productId \<Rightarrow>
            (case m_peerBindings l productId of
               None \<Rightarrow>
                 let remoteUserHandle = ProductUserId_FromString env productId in
                 if remoteUserHandle = 0 then ((False, None), l)
                 else
                   let binding = \<lparr>remoteUser = remoteUserHandle, SocketName = snprintf_name env ''ion'', channel = 0,
                         endpoint = ep, productUserId = productId, route = normalizedRoute\<rparr>
                   in (send_with SendPacket (m_localUser l) binding (the data),
                       l\<lparr>m_peerBindings := (m_peerBindings l)(productId \<mapsto> binding)\<rparr>)
             | Some b \<Rightarrow>
                 let binding = b\<lparr>route := CombineRoutes (route b) normalizedRoute\<rparr>
                 in (send_with SendPacket (m_localUser l) binding (the data),
                     l\<lparr>m_peerBindings := (m_peerBindings l)(productId \<mapsto> binding)\<rparr>)))"

definition ResolveEndpoint ::
    "eos_env \<Rightarrow> u64 \<Rightarrow> FakeIpLayer \<Rightarrow> (FakeEndpoint \<times> PacketRoute) option" where
  "ResolveEndpoint env user l =
     (case GetProductIdString env user of
        None \<Rightarrow> None
      | Some productIdRaw \<Rightarrow> (case NormalizeProductId productIdRaw of
          None \<Rightarrow> None
        | Some normalizedId \<Rightarrow> (case m_peerBindings l normalizedId of
            Some b \<Rightarrow> Some (endpoint b, NormalizeRoute (route b))
          | None \<Rightarrow> (case EncodeProductId env normalizedId of
              None \<Rightarrow> None
            | Some ep \<Rightarrow> Some (ep, All)))))"

text \<open>
  One round of \<open>PumpIncoming\<close>: what the SDK answers to the size request, and to the receive request.
  \<open>Received\<close> carries the sender, the buffer after the call and the size written.
\<close>

datatype pump_event = InvalidAuth | NoPacket | ReceiveFailed | Received u64 "u8 list" nat

definition vec_resize :: "nat \<Rightarrow> u8 list \<Rightarrow> u8 list" where
  "vec_resize n xs = take n xs @ replicate (n - length xs) 0"

definition receive_packet :: "eos_env \<Rightarrow> u64 \<Rightarrow> u8 list \<Rightarrow> nat \<Rightarrow> FakeIpLayer \<Rightarrow> FakeIpLayer" where
  "receive_packet env user buf outSize l =
     (case ResolveEndpoint env user l of
        None \<Rightarrow> l
      | Some (ep, packetRoute) \<Rightarrow>
          l\<lparr>m_packets := m_packets l @
             [\<lparr>sender = ep, payload = vec_resize outSize buf, pk_route = NormalizeRoute packetRoute\<rparr>]\<rparr>)"

text \<open>The loop; the result says whether a new login is requested.\<close>

primrec PumpLoop :: "eos_env \<Rightarrow> pump_event list \<Rightarrow> FakeIpLayer \<Rightarrow> FakeIpLayer \<times> bool" where
  "PumpLoop env [] l = (l, False)"
| "PumpLoop env (e # es) l =
     (case e of
        InvalidAuth \<Rightarrow> (l, True)
      | NoPacket \<Rightarrow> (l, False)
      | ReceiveFailed \<Rightarrow> (l, False)
      | Received user buf outSize \<Rightarrow> PumpLoop env es (receive_packet env user buf outSize l))"

definition PumpIncoming :: "eos_env \<Rightarrow> pump_event list \<Rightarrow> FakeIpLayer \<Rightarrow> FakeIpLayer \<times> bool" where
  "PumpIncoming env es l =
     (if m_p2pHandle l = 0 \<or> m_localUser l = 0 then (l, False) else PumpLoop env es l)"

text \<open>\<open>PopPacket\<close> takes the first packet whose route meets the desired one.\<close>

definition wants :: "PacketRoute \<Rightarrow> PendingPacket \<Rightarrow> bool" where
  "wants desired p \<longleftrightarrow> AnyRoute (route_and (NormalizeRoute (pk_route p)) desired)"

primrec take_first :: "('a \<Rightarrow> bool) \<Rightarrow> 'a list \<Rightarrow> ('a \<times> 'a list) option" where
  "take_first P [] = None"
| "take_first P (p # ps) =
     (if P p then Some (p, ps)
      else case take_first P ps of None \<Rightarrow> None | Some (q, qs) \<Rightarrow> Some (q, p # qs))"

definition PopPacket :: "PacketRoute \<Rightarrow> FakeIpLayer \<Rightarrow> PendingPacket option \<times> FakeIpLayer" where
  "PopPacket desiredRoute l =
     (case take_first (wants (NormalizeRoute desiredRoute)) (m_packets l) of
        None \<Rightarrow> (None, l)
      | Some (p, ps) \<Rightarrow> (Some p, l\<lparr>m_packets := ps\<rparr>))"

definition UpdateLocalEndpoint :: "eos_env \<Rightarrow> FakeIpLayer \<Rightarrow> FakeIpLayer" where
  "UpdateLocalEndpoint env l =
     (if m_localUser l = 0 then l
      else case GetProductIdString env (m_localUser l) of
        None \<Rightarrow> l
      | Some productIdRaw \<Rightarrow> (case NormalizeProductId productIdRaw of
          None \<Rightarrow> l
        | Some normalizedId \<Rightarrow> (case EncodeProductId env normalizedId of
            None \<Rightarrow> l
          | Some ep \<Rightarrow>
              let l = l\<lparr>m_localEndpoint := ep\<rparr> in
              (case InetNtop env (address ep) of
                 None \<Rightarrow> l
               | Some buffer \<Rightarrow>
                   l\<lparr>eos_current_endpoint := ''['' @ buffer @ '']:'' @ show_nat (unat (port ep))\<rparr>))))"

definition new_FakeIpLayer :: "eos_env \<Rightarrow> u64 \<Rightarrow> u64 \<Rightarrow> string \<Rightarrow> FakeIpLayer" where
  "new_FakeIpLayer env p2pHandle localUser cvar =
     UpdateLocalEndpoint env \<lparr>m_p2pHandle = p2pHandle, m_localUser = localUser, m_peerBindings = Map.empty,
       m_packets = [], m_localEndpoint = no_endpoint, eos_current_endpoint = cvar\<rparr>"

definition SetLocalUser :: "eos_env \<Rightarrow> u64 \<Rightarrow> FakeIpLayer \<Rightarrow> FakeIpLayer" where
  "SetLocalUser env localUser l = UpdateLocalEndpoint env (l\<lparr>m_localUser := localUser\<rparr>)"

definition Clear :: "FakeIpLayer \<Rightarrow> FakeIpLayer" where
  "Clear l = l\<lparr>m_peerBindings := Map.empty, m_packets := []\<rparr>"

definition IsServerNetContext :: "eos_env \<Rightarrow> bool" where
  "IsServerNetContext env \<longleftrightarrow>
     IsDedicatedServer env \<or> (case g_pServerState env of Some s \<Rightarrow> s > ss_dead | None \<Rightarrow> False)"

definition GetPretendRemotePort :: "eos_env \<Rightarrow> u16" where
  "GetPretendRemotePort env =
     (let clientPort = word_of_int (clientport env); hostPort = word_of_int (hostport env) in
      if IsServerNetContext env then (if clientPort \<noteq> 0 then clientPort else hostPort)
      else (if hostPort \<noteq> 0 then hostPort else clientPort))"

end
