(* ===== verification/EosNetwork.thy ===== *)
theory EosNetwork
  imports FakeIp
begin

text \<open>
  The socket hooks of \<open>src/eos/eos_network.cpp\<close>: \<open>sendto\<close> and \<open>recvfrom\<close> of the engine are replaced,
  so that packets for fake addresses go through the fake IP layer and its packets come out as if they
  had been received by the socket.
\<close>

section \<open>Socket addresses\<close>

text \<open>The ports and the IPv4 address are as they are in memory, in network order.\<close>

datatype sockaddr = sockaddr_in (sin_port: u16) (sin_addr: u32)
  | sockaddr_in6 (sin6_port: u16) (sin6_addr: "u8 list")
  | sockaddr_other

definition sizeof_sockaddr_in :: int where "sizeof_sockaddr_in = 16"
definition sizeof_sockaddr_in6 :: int where "sizeof_sockaddr_in6 = 28"

definition ExtractFakeEndpoint :: "sockaddr option \<Rightarrow> FakeEndpoint option" where
  "ExtractFakeEndpoint addr =
     (case addr of
        Some (sockaddr_in6 p a) \<Rightarrow>
          if ntohs (word0 a) \<noteq> 0x3FFE then None else Some \<lparr>address = a, port = ntohs p\<rparr>
      | _ \<Rightarrow> None)"

text \<open>
  The caller passes two pointers, which may be null, and the room there is. The result is what is
  written: the address, if any, and the length.
\<close>

definition WriteSockaddrForFakeEndpoint ::
    "eos_env \<Rightarrow> FakeEndpoint \<Rightarrow> bool \<Rightarrow> int option \<Rightarrow> sockaddr option \<times> int option" where
  "WriteSockaddrForFakeEndpoint env ep outAddress outLength =
     (case outLength of
        None \<Rightarrow> (None, None)
      | Some inLen \<Rightarrow>
          if \<not> outAddress then (None, outLength)
          else
            let pretendPort = GetPretendRemotePort env;
                pretendPort = (if pretendPort = 0 then port ep else pretendPort)
            in if inLen \<ge> sizeof_sockaddr_in6
               then (Some (sockaddr_in6 (htons pretendPort) (address ep)), Some sizeof_sockaddr_in6)
               else if inLen \<ge> sizeof_sockaddr_in
               then (Some (sockaddr_in (htons pretendPort) 0), Some sizeof_sockaddr_in)
               else (None, outLength))"

section \<open>The routes of sockets\<close>

text \<open>\<open>getsockname\<close> is an argument; \<open>None\<close> is its error.\<close>

definition GetLocalSocketPort :: "(u64 \<Rightarrow> sockaddr option) \<Rightarrow> u64 \<Rightarrow> u16" where
  "GetLocalSocketPort getsockname s =
     (case getsockname s of
        Some (sockaddr_in p a) \<Rightarrow> ntohs p
      | Some (sockaddr_in6 p a) \<Rightarrow> ntohs p
      | _ \<Rightarrow> 0)"

definition ClassifySocketRoute :: "eos_env \<Rightarrow> u16 \<Rightarrow> PacketRoute" where
  "ClassifySocketRoute env p =
     (if p = 0 then NoRoute
      else if p = word_of_int (clientport env) then Client
      else if p = word_of_int (hostport env) then Server
      else NoRoute)"

record net_state =
  g_socketRoutes :: "u64 \<Rightarrow> PacketRoute option"
  g_fakeIpRecvSockets :: "u64 \<Rightarrow> bool option"
  g_realSendTo :: u64
  g_realRecvFrom :: u64
  g_realCloseSocket :: u64
  g_hooksInstalled :: bool
  fakeIpLayer :: "FakeIpLayer option"

definition DetermineSocketRoute ::
    "eos_env \<Rightarrow> (u64 \<Rightarrow> sockaddr option) \<Rightarrow> u64 \<Rightarrow> net_state \<Rightarrow> PacketRoute \<times> net_state" where
  "DetermineSocketRoute env getsockname s n =
     (case g_socketRoutes n s of
        Some r \<Rightarrow> (r, n)
      | None \<Rightarrow>
          let r = ClassifySocketRoute env (GetLocalSocketPort getsockname s)
          in (r, n\<lparr>g_socketRoutes := (g_socketRoutes n)(s \<mapsto> r)\<rparr>))"

section \<open>The hooks\<close>

text \<open>What a hook does: call the function it replaced, fail with an error code, or report a length.\<close>

datatype wsa_error = WSA_UNCHANGED | WSAENOTCONN | WSAECONNABORTED

datatype send_result = RealSendTo | SendError wsa_error | Sent int "SendOptions option"

definition HookedSendTo ::
    "eos_env \<Rightarrow> (u64 \<Rightarrow> sockaddr option) \<Rightarrow> (SendOptions \<Rightarrow> bool) \<Rightarrow> u64 \<Rightarrow> u8 list option \<Rightarrow> int \<Rightarrow>
     sockaddr option \<Rightarrow> net_state \<Rightarrow> send_result \<times> net_state" where
  "HookedSendTo env getsockname SendPacket s buffer len destAddr n =
     (case ExtractFakeEndpoint destAddr of
        None \<Rightarrow> (if g_realSendTo n \<noteq> 0 then RealSendTo else SendError WSA_UNCHANGED, n)
      | Some ep \<Rightarrow>
          if buffer = None \<or> len \<le> 0
          then (if g_realSendTo n \<noteq> 0 then RealSendTo else SendError WSA_UNCHANGED, n)
          else case fakeIpLayer n of
            None \<Rightarrow> (SendError WSAENOTCONN, n)
          | Some l \<Rightarrow>
              let (r, n) = DetermineSocketRoute env getsockname s n;
                  ((ok, opts), l) = SendToPeer env SendPacket ep (Some (take (nat len) (the buffer))) r l;
                  n = n\<lparr>fakeIpLayer := Some l\<rparr>
              in (if \<not> ok then SendError WSAECONNABORTED else Sent len opts, n))"

text \<open>
  The result of a receive: the bytes put in the buffer, the length reported, and what is written
  through the two address pointers. Only the engine's own receive function, known by its return
  address, is served.
\<close>

datatype recv_result = RealRecvFrom | RecvError
  | Delivered (rr_data: "u8 list") (rr_length: int) (rr_from: "sockaddr option \<times> int option")

definition HookedRecvFrom ::
    "eos_env \<Rightarrow> (u64 \<Rightarrow> sockaddr option) \<Rightarrow> u64 \<Rightarrow> u64 \<Rightarrow> bool \<Rightarrow> int \<Rightarrow> bool \<Rightarrow> int option \<Rightarrow> net_state \<Rightarrow>
     recv_result \<times> net_state" where
  "HookedRecvFrom env getsockname returnOffset s buffer len from fromLen n =
     (let fallback = (if g_realRecvFrom n \<noteq> 0 then RealRecvFrom else RecvError) in
      if returnOffset \<noteq> 0x21B5DB then (fallback, n)
      else case fakeIpLayer n of
        None \<Rightarrow> (fallback, n)
      | Some l \<Rightarrow>
          let (desiredRoute, n) = DetermineSocketRoute env getsockname s n in
          (case PopPacket desiredRoute l of
             (None, l) \<Rightarrow> (fallback, n\<lparr>fakeIpLayer := Some l\<rparr>)
           | (Some packet, l) \<Rightarrow>
               let copyLength = min (if len < 0 then len + 2 ^ 64 else len) (int (length (payload packet)))
               in (Delivered (if buffer \<and> copyLength > 0 then take (nat copyLength) (payload packet) else [])
                     copyLength
                     (if from \<and> fromLen \<noteq> None then WriteSockaddrForFakeEndpoint env (sender packet) from fromLen
                      else (None, fromLen)),
                   n\<lparr>fakeIpLayer := Some l\<rparr>)))"

text \<open>\<open>HookedCloseSocket\<close>: whether the function it replaced is called.\<close>

definition HookedCloseSocket :: "u64 \<Rightarrow> net_state \<Rightarrow> bool \<times> net_state" where
  "HookedCloseSocket s n =
     (g_realCloseSocket n \<noteq> 0,
      n\<lparr>g_socketRoutes := (g_socketRoutes n)(s := None),
        g_fakeIpRecvSockets := (g_fakeIpRecvSockets n)(s := None)\<rparr>)"

section \<open>Installing them\<close>

text \<open>\<open>HookImportByOrdinal\<close> returns the function replaced, by ordinal, or null.\<close>

definition InstallSocketHooks :: "(nat \<Rightarrow> u64) \<Rightarrow> net_state \<Rightarrow> bool \<times> net_state" where
  "InstallSocketHooks HookImport n =
     (if g_hooksInstalled n then (True, n)
      else
        let origSend = HookImport 20; origRecv = HookImport 17; origClose = HookImport 3 in
        if origSend = 0 \<or> origRecv = 0 \<or> origClose = 0 then (False, n)
        else (True, n\<lparr>g_realSendTo := origSend, g_realRecvFrom := origRecv, g_realCloseSocket := origClose,
                g_hooksInstalled := True\<rparr>))"

definition RemoveSocketHooks :: "net_state \<Rightarrow> net_state" where
  "RemoveSocketHooks n =
     (if \<not> g_hooksInstalled n then n
      else n\<lparr>g_realSendTo := 0, g_realRecvFrom := 0, g_realCloseSocket := 0, g_hooksInstalled := False\<rparr>)"

definition RegisterPeerByString ::
    "eos_env \<Rightarrow> bool \<Rightarrow> string option \<Rightarrow> string option \<Rightarrow> u8 \<Rightarrow> net_state \<Rightarrow> FakeEndpoint option \<times> net_state" where
  "RegisterPeerByString env IsReady remoteProductUserId socketName chan n =
     (if \<not> IsReady \<or> remoteProductUserId = None \<or> socketName = None then (None, n)
      else case fakeIpLayer n of
        None \<Rightarrow> (None, n)
      | Some l \<Rightarrow>
          let user = ProductUserId_FromString env (the remoteProductUserId) in
          if user = 0 then (None, n)
          else
            let (ep, l) = RegisterPeer env user socketName chan l;
                n = n\<lparr>fakeIpLayer := Some l\<rparr>
            in (if \<not> IsValid ep then None else Some ep, n))"

end
