(* ===== verification/FakeIpLemmas.thy ===== *)
theory FakeIpLemmas
  imports FakeIp
begin

text \<open>
  The facts about the fake IP layer its properties share: product ids and their bytes, the order of
  routes, the queue of packets, and the invariant every operation keeps.
\<close>

section \<open>Product ids\<close>

lemma those_map_Some: "those (map f xs) = Some ys \<longleftrightarrow> list_all2 (\<lambda>x y. f x = Some y) xs ys"
proof (induction xs arbitrary: ys)
  case (Cons x xs)
  then show ?case by (cases ys) (auto split: option.splits)
qed auto

lemma HexChar_kHex: "n < 16 \<Longrightarrow> HexCharToValue (kHex ! n) = Some (of_nat n)"
proof -
  have "\<forall>n \<in> set [0..<16]. HexCharToValue (kHex ! n) = Some (of_nat n)" by code_simp
  then show "n < 16 \<Longrightarrow> HexCharToValue (kHex ! n) = Some (of_nat n)" by simp
qed

lemma kHex_digit: "k < 10 \<Longrightarrow> kHex ! k = char_of (48 + k)"
proof -
  have "\<forall>k \<in> set [0..<10]. kHex ! k = char_of (48 + k)" by code_simp
  then show "k < 10 \<Longrightarrow> kHex ! k = char_of (48 + k)" by simp
qed

lemma kHex_letter: "10 \<le> k \<Longrightarrow> k < 16 \<Longrightarrow> kHex ! k = char_of (87 + k)"
proof -
  have "\<forall>k \<in> set [10..<16]. kHex ! k = char_of (87 + k)" by code_simp
  moreover assume "10 \<le> k" "k < 16"
  then have "k \<in> set [10..<16]" by (simp del: upt_conv_Cons) presburger
  ultimately show "kHex ! k = char_of (87 + k)" by blast
qed

lemma unat_of_nat_u8: "n < 256 \<Longrightarrow> unat (of_nat n :: u8) = n"
  by (simp add: unsigned_of_nat take_bit_nat_eq_self)

lemma HexChar_lower:
  assumes "HexCharToValue c = Some v"
  shows "unat v < 16" "kHex ! unat v = tolower c"
proof -
  let ?n = "of_char c :: nat" and ?m = "of_char (tolower c) :: nat"
  have "unat v < 16 \<and> kHex ! unat v = tolower c"
  proof (cases "48 \<le> ?n \<and> ?n \<le> 57")
    case True
    then have v: "v = of_nat (?n - 48)" using assms by (simp add: HexCharToValue_def)
    have "?n - 48 < 10" using True by auto
    moreover have "unat v = ?n - 48" unfolding v using True by (intro unat_of_nat_u8) auto
    moreover have "tolower c = c" using True by (simp add: tolower_def)
    ultimately show ?thesis using True kHex_digit [of "?n - 48"] by simp
  next
    case False
    then have m: "97 \<le> ?m" "?m \<le> 102" and v: "v = of_nat (10 + ?m - 97)"
      using assms by (auto simp: HexCharToValue_def Let_def split: if_splits)
    have "unat v = 10 + ?m - 97" unfolding v using m by (intro unat_of_nat_u8) auto
    moreover have "kHex ! (10 + ?m - 97) = char_of (87 + (10 + ?m - 97))" using m by (intro kHex_letter) auto
    moreover have "87 + (10 + ?m - 97) = ?m" using m by simp
    ultimately show ?thesis using m by simp
  qed
  then show "unat v < 16" "kHex ! unat v = tolower c" by simp_all
qed

lemma kHex_plain: "n < 16 \<Longrightarrow> tolower (kHex ! n) = kHex ! n \<and> kHex ! n \<notin> {CHR ''-'', CHR ''{'', CHR ''}''}"
proof -
  have "\<forall>n \<in> set [0..<16]. tolower (kHex ! n) = kHex ! n \<and> kHex ! n \<notin> {CHR ''-'', CHR ''{'', CHR ''}''}"
    by code_simp
  then show "n < 16 \<Longrightarrow> tolower (kHex ! n) = kHex ! n \<and> kHex ! n \<notin> {CHR ''-'', CHR ''{'', CHR ''}''}" by simp
qed

lemma tolower_twice [simp]: "tolower (tolower c) = tolower c"
  by (simp add: tolower_def)

text \<open>The two digits of a byte.\<close>

definition byte_hex :: "u8 \<Rightarrow> string" where
  "byte_hex b = [kHex ! unat (drop_bit 4 b AND 0xF), kHex ! unat (b AND 0xF)]"

lemma nibble_mask: "(0xF :: u8) = mask 4"
  by (simp add: mask_numeral)

lemma nibble_take: "x AND 0xF = take_bit 4 (x :: u8)"
  by (simp only: nibble_mask take_bit_eq_mask)

lemma nibble_mod: "unat (x AND 0xF :: u8) = unat x mod 16"
proof -
  have "unat (take_bit 4 x) = take_bit 4 (unat x)" by (rule unsigned_take_bit_eq)
  then show ?thesis unfolding nibble_take by (simp only: take_bit_eq_mod) simp
qed

lemma nibble_less: "unat (x AND 0xF :: u8) < 16"
  by (simp add: nibble_mod)

lemma nibbles: "push_bit 4 (drop_bit 4 b AND 0xF) OR (b AND 0xF) = (b :: u8)"
  unfolding nibble_take by (rule bit_eqI) (auto simp: bit_simps)

definition hex_pair :: "char \<Rightarrow> char \<Rightarrow> u8 option" where
  "hex_pair a b = (case HexCharToValue a of None \<Rightarrow> None | Some hi \<Rightarrow>
     (case HexCharToValue b of None \<Rightarrow> None | Some lo \<Rightarrow> Some (push_bit 4 hi OR lo)))"

lemma hex_pair_byte_hex: "hex_pair (byte_hex b ! 0) (byte_hex b ! Suc 0) = Some b"
proof -
  have "HexCharToValue (byte_hex b ! 0) = Some (drop_bit 4 b AND 0xF)"
    "HexCharToValue (byte_hex b ! Suc 0) = Some (b AND 0xF)"
    using HexChar_kHex [OF nibble_less] by (simp_all add: byte_hex_def)
  then show ?thesis using nibbles [of b] by (simp only: hex_pair_def option.case)
qed

lemma nibble_join:
  assumes "unat hi < 16" "unat lo < 16"
  shows "drop_bit 4 (push_bit 4 hi OR lo :: u8) AND 0xF = hi" "(push_bit 4 hi OR lo :: u8) AND 0xF = lo"
proof -
  have t: "take_bit 4 x = x" if "unat x < 16" for x :: u8
    unfolding word_unat_eq_iff nibble_take [symmetric] nibble_mod using that by simp
  have low: "bit (take_bit 4 x) n \<longrightarrow> n < 4" for x :: u8 and n by (simp add: bit_take_bit_iff)
  have b: "bit hi n \<longrightarrow> n < 4" "bit lo n \<longrightarrow> n < 4" for n
    using low [of hi n] low [of lo n] by (simp_all only: t [OF assms(1)] t [OF assms(2)])
  have lo: "bit lo (4 + n) \<longleftrightarrow> False" for n using b(2) [of "4 + n"] by auto
  show "drop_bit 4 (push_bit 4 hi OR lo) AND 0xF = hi"
    unfolding nibble_take
    by (rule bit_eqI) (use b(1) in \<open>auto simp: bit_take_bit_iff bit_drop_bit_eq bit_or_iff bit_push_bit_iff lo\<close>)
  show "(push_bit 4 hi OR lo) AND 0xF = lo"
    unfolding nibble_take
    by (rule bit_eqI) (use b(2) in \<open>auto simp: bit_take_bit_iff bit_or_iff bit_push_bit_iff\<close>)
qed

lemma byte_hex_hex_pair:
  assumes "hex_pair a b = Some v"
  shows "byte_hex v = [tolower a, tolower b]"
proof -
  from assms obtain hi lo where h: "HexCharToValue a = Some hi" "HexCharToValue b = Some lo"
    and v: "v = push_bit 4 hi OR lo" by (auto simp: hex_pair_def split: option.splits)
  from HexChar_lower [OF h(1)] HexChar_lower [OF h(2)] show ?thesis
    unfolding v byte_hex_def using nibble_join by (simp only: nibble_join)
qed

lemma BytesToProductIdString_eq: "BytesToProductIdString bs = concat (map byte_hex bs)"
  unfolding BytesToProductIdString_def byte_hex_def ..

lemma concat_pairs_nth:
  "i < length bs \<Longrightarrow> concat (map byte_hex bs) ! (i * 2) = byte_hex (bs ! i) ! 0 \<and>
     concat (map byte_hex bs) ! Suc (i * 2) = byte_hex (bs ! i) ! Suc 0"
proof (induction bs arbitrary: i)
  case (Cons b bs)
  then show ?case by (cases i) (simp_all add: byte_hex_def)
qed simp

lemma length_id: "length (BytesToProductIdString bs) = 2 * length bs"
  by (induction bs) (simp_all add: BytesToProductIdString_eq byte_hex_def)

lemma id_text_plain: "normalized_text (BytesToProductIdString bs) = BytesToProductIdString bs"
proof (induction bs)
  case (Cons b bs)
  have n: "unat (drop_bit 4 b AND 0xF) < 16" "unat (b AND 0xF) < 16" by (rule nibble_less)+
  show ?case using kHex_plain [OF n(1)] kHex_plain [OF n(2)] Cons.IH
    by (simp add: normalized_text_def BytesToProductIdString_eq byte_hex_def)
qed (simp add: normalized_text_def BytesToProductIdString_def)

lemma ProductIdToBytes_Some:
  "ProductIdToBytes s = Some bs \<longleftrightarrow> 32 \<le> length (normalized_text s) \<and> length bs = 16 \<and>
     (\<forall>i < 16. hex_pair (normalized_text s ! (i * 2)) (normalized_text s ! Suc (i * 2)) = Some (bs ! i))"
proof -
  have "ProductIdToBytes s = (if length (normalized_text s) < 32 then None
      else those (map (\<lambda>i. hex_pair (normalized_text s ! (i * 2)) (normalized_text s ! Suc (i * 2))) [0..<16]))"
    unfolding ProductIdToBytes_def kProductBytes_def Let_def hex_pair_def Suc_eq_plus1 by simp
  then show ?thesis by (auto simp: those_map_Some list_all2_conv_all_nth)
qed

lemma ProductIdToBytes_string: "length bs = 16 \<Longrightarrow> ProductIdToBytes (BytesToProductIdString bs) = Some bs"
  unfolding ProductIdToBytes_Some id_text_plain length_id
  by (simp add: BytesToProductIdString_eq concat_pairs_nth hex_pair_byte_hex)

lemma concat_pairs:
  "length t = 2 * length bs \<Longrightarrow> \<forall>i < length bs. byte_hex (bs ! i) = [t ! (i * 2), t ! Suc (i * 2)] \<Longrightarrow>
   concat (map byte_hex bs) = t"
proof (induction bs arbitrary: t)
  case (Cons b bs)
  from Cons.prems(1) obtain x y u where t: "t = x # y # u" by (auto simp: length_Suc_conv)
  have "concat (map byte_hex bs) = u"
  proof (rule Cons.IH)
    show "length u = 2 * length bs" using Cons.prems(1) t by simp
    show "\<forall>i < length bs. byte_hex (bs ! i) = [u ! (i * 2), u ! Suc (i * 2)]"
      using Cons.prems(2) t by (auto dest: spec [of _ "Suc _"])
  qed
  moreover have "byte_hex b = [x, y]" using Cons.prems(2) t by (auto dest: spec [of _ "0::nat"])
  ultimately show ?case using t by simp
qed simp

lemma BytesToProductIdString_bytes:
  assumes "ProductIdToBytes s = Some bs"
  shows "BytesToProductIdString bs = map tolower (take 32 (normalized_text s))"
  unfolding BytesToProductIdString_eq
proof (rule concat_pairs)
  from assms have l: "32 \<le> length (normalized_text s)" "length bs = 16"
    and p: "\<And>i. i < 16 \<Longrightarrow> hex_pair (normalized_text s ! (i * 2)) (normalized_text s ! Suc (i * 2)) = Some (bs ! i)"
    by (auto simp: ProductIdToBytes_Some)
  let ?t = "map tolower (take 32 (normalized_text s))"
  show "length ?t = 2 * length bs" using l by simp
  show "\<forall>i < length bs. byte_hex (bs ! i) = [?t ! (i * 2), ?t ! Suc (i * 2)]"
  proof (intro allI impI)
    fix i assume "i < length bs"
    then have "i < 16" using l(2) by simp
    then have "i * 2 < 32" "Suc (i * 2) < 32" by linarith+
    then show "byte_hex (bs ! i) = [?t ! (i * 2), ?t ! Suc (i * 2)]"
      using byte_hex_hex_pair [OF p [OF \<open>i < 16\<close>]] l(1) by simp
  qed
qed

lemma normalized_lower [simp]: "map tolower (take k (normalized_text s)) = take k (normalized_text s)"
  by (simp add: normalized_text_def take_map comp_def)

lemma NormalizeProductId_text: "NormalizeProductId s = Some n \<Longrightarrow> n = take 32 (normalized_text s)"
  by (auto simp: NormalizeProductId_def BytesToProductIdString_bytes)

lemma NormalizeProductId_bytes:
  "NormalizeProductId s = Some n \<longleftrightarrow> (\<exists>bs. ProductIdToBytes s = Some bs \<and> n = BytesToProductIdString bs \<and> length bs = 16)"
  by (auto simp: NormalizeProductId_def ProductIdToBytes_Some)

lemma NormalizeProductId_again: "NormalizeProductId s = Some n \<Longrightarrow> NormalizeProductId n = Some n"
  by (auto simp: NormalizeProductId_bytes ProductIdToBytes_string)

end
