(* ===== verification/FakeIpState.thy ===== *)
theory FakeIpState
  imports FakeIpLemmas EosNetwork
begin

text \<open>
  The order of packet routes, the queue as an interface between the socket hooks and the layer, and
  the invariant of the layer with the steps that reach its states.
\<close>

section \<open>Routes are a lattice\<close>

text \<open>The bitwise operators are join and meet of the order in which a route is below those it is part of.\<close>

instantiation PacketRoute :: bounded_lattice
begin

definition sup_PacketRoute :: "PacketRoute \<Rightarrow> PacketRoute \<Rightarrow> PacketRoute" where
  "sup_PacketRoute = route_or"

definition inf_PacketRoute :: "PacketRoute \<Rightarrow> PacketRoute \<Rightarrow> PacketRoute" where
  "inf_PacketRoute = route_and"

definition bot_PacketRoute :: PacketRoute where "bot_PacketRoute = NoRoute"

definition top_PacketRoute :: PacketRoute where "top_PacketRoute = All"

definition less_eq_PacketRoute :: "PacketRoute \<Rightarrow> PacketRoute \<Rightarrow> bool" where
  "less_eq_PacketRoute r s \<longleftrightarrow> route_and r s = r"

definition less_PacketRoute :: "PacketRoute \<Rightarrow> PacketRoute \<Rightarrow> bool" where
  "less_PacketRoute r s \<longleftrightarrow> route_and r s = r \<and> r \<noteq> s"

lemma route_and_table:
  "route_and r s = (if r = All then s else if s = All then r else if r = s then r else NoRoute)"
  by (cases r; cases s; simp add: route_and_def route_cast_def)

lemma route_or_table:
  "route_or r s = (if r = NoRoute then s else if s = NoRoute then r else if r = s then r else All)"
  by (cases r; cases s; simp add: route_or_def route_cast_def)

instance
proof
  fix x y z :: PacketRoute
  show "(x < y) = (x \<le> y \<and> \<not> y \<le> x)" "x \<le> x" "x \<le> y \<Longrightarrow> y \<le> x \<Longrightarrow> x = y"
    "inf x y \<le> x" "inf x y \<le> y" "x \<le> sup x y" "y \<le> sup x y" "bot \<le> x" "x \<le> top"
    by (cases x; cases y; simp add: less_eq_PacketRoute_def less_PacketRoute_def sup_PacketRoute_def
        inf_PacketRoute_def bot_PacketRoute_def top_PacketRoute_def route_and_table route_or_table)+
  show "x \<le> y \<Longrightarrow> y \<le> z \<Longrightarrow> x \<le> z" "x \<le> y \<Longrightarrow> x \<le> z \<Longrightarrow> x \<le> inf y z" "y \<le> x \<Longrightarrow> z \<le> x \<Longrightarrow> sup y z \<le> x"
    by (cases x; cases y; cases z; simp add: less_eq_PacketRoute_def sup_PacketRoute_def
        inf_PacketRoute_def route_and_table route_or_table)+
qed

end

lemma NormalizeRoute_not_none [simp]: "NormalizeRoute r \<noteq> NoRoute"
  by (simp add: NormalizeRoute_def)

lemma NormalizeRoute_id [simp]: "r \<noteq> NoRoute \<Longrightarrow> NormalizeRoute r = r"
  by (simp add: NormalizeRoute_def)

lemma CombineRoutes_sup: "CombineRoutes r s = NormalizeRoute (sup r s)"
  by (simp add: CombineRoutes_def sup_PacketRoute_def route_or_def)

lemma CombineRoutes_join: "r \<noteq> NoRoute \<Longrightarrow> CombineRoutes r s = sup r s"
  by (cases r; cases s; simp add: CombineRoutes_sup NormalizeRoute_def sup_PacketRoute_def route_or_table)

lemma CombineRoutes_not_none [simp]: "CombineRoutes r s \<noteq> NoRoute"
  by (simp add: CombineRoutes_def)

lemma wants_inf: "pk_route p \<noteq> NoRoute \<Longrightarrow> wants d p \<longleftrightarrow> inf (pk_route p) d \<noteq> bot"
  by (cases "pk_route p"; cases d)
     (simp_all add: wants_def AnyRoute_def inf_PacketRoute_def bot_PacketRoute_def route_and_table NormalizeRoute_def)

lemma wants_All: "wants All p"
  by (cases "pk_route p") (simp_all add: wants_def AnyRoute_def NormalizeRoute_def route_and_table)

section \<open>The queue\<close>

text \<open>
  What the receive hook relies on: an operation that takes an element out of a queue takes the first
  that is wanted, and leaves the others in their order.
\<close>

primrec pop_many :: "('l \<Rightarrow> 'p option \<times> 'l) \<Rightarrow> nat \<Rightarrow> 'l \<Rightarrow> 'p list \<times> 'l" where
  "pop_many pop 0 l = ([], l)"
| "pop_many pop (Suc n) l =
     (case pop l of (None, l') \<Rightarrow> ([], l')
      | (Some p, l') \<Rightarrow> (let (ps, l'') = pop_many pop n l' in (p # ps, l'')))"

locale selective_queue =
  fixes pop :: "'l \<Rightarrow> 'p option \<times> 'l" and queue :: "'l \<Rightarrow> 'p list" and wanted :: "'p \<Rightarrow> bool"
  assumes pop_none: "pop l = (None, l') \<Longrightarrow> queue l' = queue l \<and> filter wanted (queue l) = []"
    and pop_some: "pop l = (Some p, l') \<Longrightarrow>
      \<exists>us vs. queue l = us @ p # vs \<and> queue l' = us @ vs \<and> wanted p \<and> (\<forall>u \<in> set us. \<not> wanted u)"
begin

lemma pop_head: "pop l = (Some p, l') \<Longrightarrow> filter wanted (queue l) = p # filter wanted (queue l')"
  by (drule pop_some) (auto simp: filter_empty_conv)

lemma pop_others: "pop l = (x, l') \<Longrightarrow> filter (\<lambda>p. \<not> wanted p) (queue l') = filter (\<lambda>p. \<not> wanted p) (queue l)"
  by (cases x) (auto dest: pop_none pop_some)

lemma pop_never_stuck: "fst (pop l) = None \<longleftrightarrow> (\<forall>p \<in> set (queue l). \<not> wanted p)"
proof (cases "pop l")
  case (Pair x l')
  then show ?thesis by (cases x) (auto dest: pop_none pop_some simp: filter_empty_conv)
qed

lemma pop_many_takes:
  "pop_many pop n l = (ps, l') \<Longrightarrow>
   ps = take n (filter wanted (queue l)) \<and> filter wanted (queue l') = drop n (filter wanted (queue l)) \<and>
   filter (\<lambda>p. \<not> wanted p) (queue l') = filter (\<lambda>p. \<not> wanted p) (queue l)"
proof (induction n arbitrary: l ps l')
  case (Suc n)
  obtain x l1 where pop: "pop l = (x, l1)" by (cases "pop l")
  show ?case
  proof (cases x)
    case None
    then have "ps = []" "l' = l1" using Suc.prems pop by simp_all
    then show ?thesis using pop_none [of l l1] pop None by simp
  next
    case (Some p)
    obtain qs l2 where r: "pop_many pop n l1 = (qs, l2)" by (cases "pop_many pop n l1")
    then have "ps = p # qs" "l' = l2" using Suc.prems pop Some by simp_all
    then show ?thesis using Suc.IH [OF r] pop_head [of l p l1] pop_others [OF pop] pop Some by simp
  qed
qed simp

end

lemma take_first_None: "take_first P ps = None \<longleftrightarrow> (\<forall>p \<in> set ps. \<not> P p)"
  by (induction ps) (auto split: option.splits)

lemma take_first_Some:
  "take_first P ps = Some (p, qs) \<Longrightarrow> \<exists>us vs. ps = us @ p # vs \<and> qs = us @ vs \<and> P p \<and> (\<forall>u \<in> set us. \<not> P u)"
proof (induction ps arbitrary: qs)
  case (Cons x xs)
  show ?case
  proof (cases "P x")
    case True
    then show ?thesis using Cons.prems by (intro exI [of _ "[]"] exI [of _ xs]) simp
  next
    case False
    then obtain rs where r: "take_first P xs = Some (p, rs)" "qs = x # rs"
      using Cons.prems by (auto split: option.splits)
    from Cons.IH [OF r(1)] obtain us vs where "xs = us @ p # vs" "rs = us @ vs" "P p" "\<forall>u \<in> set us. \<not> P u"
      by blast
    then show ?thesis using False r(2) by (intro exI [of _ "x # us"] exI [of _ vs]) simp
  qed
qed simp

interpretation packets: selective_queue "PopPacket r" m_packets "wants (NormalizeRoute r)" for r
proof
  fix l l'
  assume "PopPacket r l = (None, l')"
  then show "m_packets l' = m_packets l \<and> filter (wants (NormalizeRoute r)) (m_packets l) = []"
    by (auto simp: PopPacket_def take_first_None filter_empty_conv split: option.splits)
next
  fix l l' p
  assume "PopPacket r l = (Some p, l')"
  then obtain ps where "take_first (wants (NormalizeRoute r)) (m_packets l) = Some (p, ps)" "l' = l\<lparr>m_packets := ps\<rparr>"
    by (auto simp: PopPacket_def split: option.splits)
  then show "\<exists>us vs. m_packets l = us @ p # vs \<and> m_packets l' = us @ vs \<and> wants (NormalizeRoute r) p \<and>
      (\<forall>u \<in> set us. \<not> wants (NormalizeRoute r) u)"
    using take_first_Some by fastforce
qed

section \<open>Addresses of product ids\<close>

lemma prefix_bytes: "take 2 (set_word0 (replicate 16 0) (htons kFakeIPv6Prefix)) = [0x3F, 0xFE]"
  by code_simp

lemma prefix_word: "word0 (0x3F # 0xFE # xs) = 0xFE3F"
  by (simp add: word0_def)

lemma ntohs_prefix [simp]: "ntohs 0xFE3F = 0x3FFE"
  by code_simp

lemma EncodeProductId_bytes:
  assumes "ProductIdToBytes s = Some bs"
  shows "\<exists>p. EncodeProductId env s = Some \<lparr>address = 0x3F # 0xFE # drop 2 bs, port = p\<rparr>"
proof -
  have "length bs = 16" using assms by (simp add: ProductIdToBytes_Some)
  then have "take 14 (drop 2 bs) = drop 2 bs" by simp
  then show ?thesis using assms unfolding EncodeProductId_def Let_def
    by (simp only: option.case prefix_bytes) simp
qed

lemma DecodeProductId_address:
  "address ep = 0x3F # 0xFE # xs \<Longrightarrow> length xs = 14 \<Longrightarrow>
   DecodeProductId ep = Some (BytesToProductIdString (0x00 # 0x02 # xs)) \<and> IsValid ep"
  by (simp add: DecodeProductId_def IsValid_def prefix_word kFakeIPv6Prefix_def)

lemma hex_0002: "take 4 (BytesToProductIdString bs) = ''0002'' \<Longrightarrow> length bs = 16 \<Longrightarrow> take 2 bs = [0x00, 0x02]"
proof -
  assume t: "take 4 (BytesToProductIdString bs) = ''0002''" and l: "length bs = 16"
  obtain a b cs where bs: "bs = a # b # cs" using l by (auto simp: length_Suc_conv numeral_eq_Suc)
  from t have "byte_hex a = byte_hex 0" "byte_hex b = byte_hex 2"
    by (simp_all add: bs BytesToProductIdString_eq byte_hex_def kHex_def)
  then have "hex_pair (byte_hex a ! 0) (byte_hex a ! Suc 0) = hex_pair (byte_hex 0 ! 0) (byte_hex 0 ! Suc 0)"
    "hex_pair (byte_hex b ! 0) (byte_hex b ! Suc 0) = hex_pair (byte_hex 2 ! 0) (byte_hex 2 ! Suc 0)" by simp_all
  then have "a = 0" "b = 2" unfolding hex_pair_byte_hex by simp_all
  then show ?thesis by (simp add: bs)
qed

text \<open>The address of an id that starts with the fixed prefix decodes to that id.\<close>

lemma Encode_Decode:
  assumes "NormalizeProductId s = Some n" "take 4 n = ''0002''"
  shows "\<exists>ep. EncodeProductId env n = Some ep \<and> DecodeProductId ep = Some n \<and> IsValid ep \<and> length (address ep) = 16"
proof -
  obtain bs where bs: "n = BytesToProductIdString bs" "length bs = 16"
    using assms(1) by (auto simp: NormalizeProductId_bytes)
  then have "ProductIdToBytes n = Some bs" by (simp add: ProductIdToBytes_string)
  from EncodeProductId_bytes [OF this, of env] obtain p where
    e: "EncodeProductId env n = Some \<lparr>address = 0x3F # 0xFE # drop 2 bs, port = p\<rparr>" by blast
  have "take 2 bs = [0x00, 0x02]" using hex_0002 assms(2) bs by simp
  then have "bs = 0x00 # 0x02 # drop 2 bs" by (metis append_Cons append_Nil append_take_drop_id)
  then show ?thesis using e bs DecodeProductId_address [of "\<lparr>address = 0x3F # 0xFE # drop 2 bs, port = p\<rparr>" "drop 2 bs"]
    by (auto simp del: length_drop) (simp_all)
qed

lemma Decode_normalized:
  assumes "DecodeProductId ep = Some n" "length (address ep) = 16"
  shows "NormalizeProductId n = Some n" "take 4 n = ''0002''" "IsValid ep"
proof -
  from assms have n: "n = BytesToProductIdString ([0, 2] @ drop 2 (address ep))" and v: "IsValid ep"
    by (auto simp: DecodeProductId_def IsValid_def kFakeIPv6Prefix_def split: if_splits)
  show "NormalizeProductId n = Some n"
    using assms(2) by (auto simp: n NormalizeProductId_bytes ProductIdToBytes_string)
  show "take 4 n = ''0002''"
    by (simp add: n BytesToProductIdString_eq byte_hex_def kHex_def)
  show "IsValid ep" by (rule v)
qed

section \<open>The invariant\<close>

definition product_id :: "eos_env \<Rightarrow> u64 \<Rightarrow> string option" where
  "product_id env user = Option.bind (GetProductIdString env user) NormalizeProductId"

text \<open>
  What the SDK promises: product user ids start with the bytes 0x00, 0x02, and a handle made from the
  text of an id has this id.
\<close>

definition sdk_ok :: "eos_env \<Rightarrow> bool" where
  "sdk_ok env \<longleftrightarrow>
     (\<forall>user n. product_id env user = Some n \<longrightarrow> take 4 n = ''0002'') \<and>
     (\<forall>n. NormalizeProductId n = Some n \<and> ProductUserId_FromString env n \<noteq> 0 \<longrightarrow>
        product_id env (ProductUserId_FromString env n) = Some n)"

definition same_sdk :: "eos_env \<Rightarrow> eos_env \<Rightarrow> bool" where
  "same_sdk env env' \<longleftrightarrow> ProductUserId_ToString env' = ProductUserId_ToString env \<and>
     ProductUserId_FromString env' = ProductUserId_FromString env \<and> SOCKETNAME_SIZE env' = SOCKETNAME_SIZE env"

lemma same_sdk_product_id: "same_sdk env env' \<Longrightarrow> product_id env' = product_id env"
  by (simp add: same_sdk_def product_id_def GetProductIdString_def fun_eq_iff)

definition good_endpoint :: "FakeEndpoint \<Rightarrow> string \<Rightarrow> bool" where
  "good_endpoint ep n \<longleftrightarrow> DecodeProductId ep = Some n \<and> length (address ep) = 16"

definition binding_ok :: "eos_env \<Rightarrow> string \<Rightarrow> PeerBinding \<Rightarrow> bool" where
  "binding_ok env n b \<longleftrightarrow> productUserId b = n \<and> product_id env (remoteUser b) = Some n \<and>
     good_endpoint (endpoint b) n \<and> route b \<noteq> NoRoute \<and> length (SocketName b) \<le> SOCKETNAME_SIZE env - 1"

definition packet_ok :: "PendingPacket \<Rightarrow> bool" where
  "packet_ok p \<longleftrightarrow> pk_route p \<noteq> NoRoute \<and> (\<exists>n. good_endpoint (sender p) n)"

definition layer_ok :: "eos_env \<Rightarrow> FakeIpLayer \<Rightarrow> bool" where
  "layer_ok env l \<longleftrightarrow> (\<forall>n b. m_peerBindings l n = Some b \<longrightarrow> binding_ok env n b) \<and> (\<forall>p \<in> set (m_packets l). packet_ok p)"

lemma product_id_cases:
  "product_id env user = Some n \<longleftrightarrow> (\<exists>raw. GetProductIdString env user = Some raw \<and> NormalizeProductId raw = Some n)"
  by (auto simp: product_id_def split: Option.bind_splits)

lemma sdk_encode:
  assumes "sdk_ok env" "product_id env user = Some n"
  obtains ep where "EncodeProductId env' n = Some ep" "good_endpoint ep n"
proof -
  from assms have t: "take 4 n = ''0002''" unfolding sdk_ok_def by blast
  from assms(2) obtain raw where "NormalizeProductId raw = Some n" by (auto simp: product_id_cases)
  from Encode_Decode [OF this t, of env'] show ?thesis using that by (auto simp: good_endpoint_def)
qed

lemma RegisterPeer_eq:
  "RegisterPeer env' user socketName chan l =
     (if m_p2pHandle l = 0 \<or> user = 0 \<or> socketName = None then (no_endpoint, l)
      else case Option.bind (product_id env' user) (\<lambda>n. map_option (Pair n) (EncodeProductId env' n)) of
        None \<Rightarrow> (no_endpoint, l)
      | Some (n, ep) \<Rightarrow> (ep, l\<lparr>m_peerBindings := (m_peerBindings l)(n \<mapsto>
          \<lparr>remoteUser = user, SocketName = snprintf_name env' (the socketName), channel = chan,
           endpoint = ep, productUserId = n, route = Server\<rparr>)\<rparr>))"
proof (cases "GetProductIdString env' user")
  case None
  then show ?thesis by (simp add: RegisterPeer_def product_id_def)
next
  case (Some raw)
  note raw = this
  show ?thesis
  proof (cases "NormalizeProductId raw")
    case None
    then show ?thesis using raw by (simp add: RegisterPeer_def product_id_def)
  next
    case (Some n)
    then show ?thesis using raw
      by (cases "EncodeProductId env' n") (simp_all add: RegisterPeer_def product_id_def)
  qed
qed

lemma RegisterPeer_ok:
  assumes "sdk_ok env" "same_sdk env env'" "layer_ok env l"
  shows "layer_ok env (snd (RegisterPeer env' user socketName chan l))"
proof (cases "product_id env user")
  case None
  then show ?thesis using assms(3) by (simp add: RegisterPeer_eq same_sdk_product_id [OF assms(2)])
next
  case (Some n)
  from sdk_encode [OF assms(1) this, of env'] obtain ep where "EncodeProductId env' n = Some ep" "good_endpoint ep n" .
  then show ?thesis using assms(2,3) Some
    by (auto simp: RegisterPeer_eq same_sdk_product_id [OF assms(2)] layer_ok_def binding_ok_def snprintf_name_def same_sdk_def)
qed

lemma SendToPeer_ok:
  assumes "sdk_ok env" "same_sdk env env'" "layer_ok env l" "length (address ep) = 16"
  shows "layer_ok env (snd (SendToPeer env' SendPacket ep data r l))"
proof (cases "DecodeProductId ep")
  case None
  then show ?thesis using assms(3) by (simp add: SendToPeer_def Let_def)
next
  case (Some n)
  have fs: "ProductUserId_FromString env' = ProductUserId_FromString env" "SOCKETNAME_SIZE env' = SOCKETNAME_SIZE env"
    using assms(2) by (simp_all add: same_sdk_def)
  have "NormalizeProductId n = Some n" using Decode_normalized [OF Some assms(4)] by simp
  then have "ProductUserId_FromString env n \<noteq> 0 \<Longrightarrow> product_id env (ProductUserId_FromString env n) = Some n"
    using assms(1) unfolding sdk_ok_def by blast
  then show ?thesis using assms(3,4) Some
    by (auto simp: SendToPeer_def Let_def layer_ok_def binding_ok_def good_endpoint_def snprintf_name_def fs
        split: option.splits)
qed

lemma ResolveEndpoint_ok:
  assumes "sdk_ok env" "same_sdk env env'" "layer_ok env l" "ResolveEndpoint env' user l = Some (ep, r)"
  shows "r \<noteq> NoRoute" "\<exists>n. product_id env user = Some n \<and> good_endpoint ep n"
proof -
  from assms(4) obtain raw n where n: "GetProductIdString env' user = Some raw" "NormalizeProductId raw = Some n"
    by (auto simp: ResolveEndpoint_def split: option.splits)
  then have "product_id env' user = Some n" by (auto simp: product_id_cases)
  then have id: "product_id env user = Some n" by (simp add: same_sdk_product_id [OF assms(2)])
  from sdk_encode [OF assms(1) this, of env'] obtain ep' where "EncodeProductId env' n = Some ep'" "good_endpoint ep' n" .
  then have "r \<noteq> NoRoute \<and> good_endpoint ep n" using assms(3,4) n
    by (auto simp: ResolveEndpoint_def layer_ok_def binding_ok_def split: option.splits)
  with id show "r \<noteq> NoRoute" "\<exists>n. product_id env user = Some n \<and> good_endpoint ep n" by simp_all
qed

lemma receive_packet_ok:
  "sdk_ok env \<Longrightarrow> same_sdk env env' \<Longrightarrow> layer_ok env l \<Longrightarrow> layer_ok env (receive_packet env' user buf n l)"
  by (auto simp: receive_packet_def layer_ok_def packet_ok_def dest: ResolveEndpoint_ok split: option.splits)

lemma PumpLoop_ok:
  "sdk_ok env \<Longrightarrow> same_sdk env env' \<Longrightarrow> layer_ok env l \<Longrightarrow> layer_ok env (fst (PumpLoop env' es l))"
  by (induction es arbitrary: l) (auto simp: receive_packet_ok split: pump_event.splits)

lemma PumpIncoming_ok:
  "sdk_ok env \<Longrightarrow> same_sdk env env' \<Longrightarrow> layer_ok env l \<Longrightarrow> layer_ok env (fst (PumpIncoming env' es l))"
  by (simp add: PumpIncoming_def PumpLoop_ok)

lemma PopPacket_ok:
  assumes "layer_ok env l"
  shows "layer_ok env (snd (PopPacket r l))"
proof (cases "PopPacket r l")
  case (Pair x l')
  have "m_peerBindings l' = m_peerBindings l" using Pair by (auto simp: PopPacket_def split: option.splits)
  moreover have "set (m_packets l') \<subseteq> set (m_packets l)"
    using Pair packets.pop_none [of r l l'] packets.pop_some [of r l _ l'] by (cases x) fastforce+
  ultimately show ?thesis using assms Pair by (auto simp: layer_ok_def)
qed

lemma UpdateLocalEndpoint_same [simp]:
  "m_peerBindings (UpdateLocalEndpoint env l) = m_peerBindings l" "m_packets (UpdateLocalEndpoint env l) = m_packets l"
  "m_p2pHandle (UpdateLocalEndpoint env l) = m_p2pHandle l" "m_localUser (UpdateLocalEndpoint env l) = m_localUser l"
  by (simp_all add: UpdateLocalEndpoint_def Let_def split: option.split)

text \<open>The states of the layer: what the engine's variables are may differ at each step.\<close>

inductive layer_state :: "eos_env \<Rightarrow> FakeIpLayer \<Rightarrow> bool" for env where
  created: "same_sdk env env' \<Longrightarrow> layer_state env (new_FakeIpLayer env' p2p user cvar)"
| register: "layer_state env l \<Longrightarrow> same_sdk env env' \<Longrightarrow> layer_state env (snd (RegisterPeer env' user name chan l))"
| send: "layer_state env l \<Longrightarrow> same_sdk env env' \<Longrightarrow> length (address ep) = 16 \<Longrightarrow>
    layer_state env (snd (SendToPeer env' SendPacket ep data r l))"
| pump: "layer_state env l \<Longrightarrow> same_sdk env env' \<Longrightarrow> layer_state env (fst (PumpIncoming env' es l))"
| pop: "layer_state env l \<Longrightarrow> layer_state env (snd (PopPacket r l))"
| set_user: "layer_state env l \<Longrightarrow> same_sdk env env' \<Longrightarrow> layer_state env (SetLocalUser env' user l)"
| clear: "layer_state env l \<Longrightarrow> layer_state env (Clear l)"

lemma layer_state_ok: "layer_state env l \<Longrightarrow> sdk_ok env \<Longrightarrow> layer_ok env l"
proof (induction rule: layer_state.induct)
  case (created env' p2p user cvar)
  then show ?case by (simp add: new_FakeIpLayer_def layer_ok_def)
next
  case (set_user l env' user)
  then show ?case by (simp add: SetLocalUser_def layer_ok_def)
next
  case (clear l)
  then show ?case by (simp add: Clear_def layer_ok_def)
qed (simp_all add: RegisterPeer_ok SendToPeer_ok PumpIncoming_ok PopPacket_ok)

end
