(* ===== verification/FakeIpSpec.thy ===== *)
theory FakeIpSpec
  imports FakeIpState
begin

text \<open>
  What the fake IP layer and the socket hooks guarantee: addresses stand for product ids, the queue
  keeps the order, the tables stay consistent, and an answer goes back to the peer it answers.
\<close>

section \<open>Addresses\<close>

text \<open>
  A product id is normalised to its first 32 hexadecimal digits in lower case, without dashes and
  braces; normalising again changes nothing. Its address is a fake address, and decoding the address
  gives the id back with its first two bytes replaced by 0x00, 0x02, so it gives back exactly the ids
  that start with these bytes.
\<close>

theorem product_id_address:
  assumes "NormalizeProductId s = Some n"
  shows "n = take 32 (normalized_text s) \<and> length n = 32 \<and> NormalizeProductId n = Some n \<and>
     (\<exists>ep. EncodeProductId env s = Some ep \<and> EncodeProductId env n = Some ep \<and> IsValid ep \<and>
        DecodeProductId ep = Some (''0002'' @ drop 4 n) \<and>
        (DecodeProductId ep = Some n \<longleftrightarrow> take 4 n = ''0002''))"
proof -
  from assms obtain bs where bs: "ProductIdToBytes s = Some bs" "n = BytesToProductIdString bs" "length bs = 16"
    by (auto simp: NormalizeProductId_bytes)
  then have nb: "ProductIdToBytes n = Some bs" by (simp add: ProductIdToBytes_string)
  obtain p where ep: "EncodeProductId env s = Some \<lparr>address = 0x3F # 0xFE # drop 2 bs, port = p\<rparr>"
    using EncodeProductId_bytes [OF bs(1)] by blast
  have same: "EncodeProductId env n = EncodeProductId env s"
    by (simp add: EncodeProductId_def bs(1) nb)
  let ?ep = "\<lparr>address = 0x3F # 0xFE # drop 2 bs, port = p\<rparr>"
  have d: "DecodeProductId ?ep = Some (BytesToProductIdString (0x00 # 0x02 # drop 2 bs))" "IsValid ?ep"
    using DecodeProductId_address [of ?ep "drop 2 bs"] bs(3) by simp_all
  obtain a b cs where abc: "bs = a # b # cs" using bs(3) by (auto simp: length_Suc_conv numeral_eq_Suc)
  then have dn: "BytesToProductIdString (0x00 # 0x02 # drop 2 bs) = ''0002'' @ drop 4 n"
    by (simp add: bs(2) BytesToProductIdString_eq byte_hex_def kHex_def)
  have len: "length n = 32" using bs by (simp add: length_id)
  have "''0002'' @ drop 4 n = n \<longleftrightarrow> take 4 n = ''0002''"
    by (metis append_take_drop_id append_same_eq)
  then show ?thesis
    using NormalizeProductId_text [OF assms] NormalizeProductId_again [OF assms] len ep same d dn by auto
qed

lemma product_id_address_witness:
  "NormalizeProductId ''{0002-ABCDEF-0123456789-ABCDEF-012345}'' = Some ''0002abcdef0123456789abcdef012345''"
proof -
  have "NormalizeProductId ''{0002-ABCDEF-0123456789-ABCDEF-012345}'' = Some ''0002abcdef0123456789abcdef012345''"
    by code_simp
  from product_id_address [OF this] show ?thesis using \<open>_ = _\<close> by blast
qed

section \<open>The queue\<close>

text \<open>
  C9: Taking packets out for a route delivers the packets that meet it in the order they came in, as
  many as are asked for and there are, and leaves the others in their order. Nothing is taken only
  when no queued packet meets the route, and for the route \<open>All\<close> when the queue is empty.
\<close>

theorem PopPacket_in_order:
  assumes "pop_many (PopPacket r) k l = (ps, l')"
  shows "let meets = wants (NormalizeRoute r) in
     ps = take k (filter meets (m_packets l)) \<and>
     filter meets (m_packets l') = drop k (filter meets (m_packets l)) \<and>
     filter (\<lambda>p. \<not> meets p) (m_packets l') = filter (\<lambda>p. \<not> meets p) (m_packets l) \<and>
     (fst (PopPacket r l) = None \<longleftrightarrow> (\<forall>p \<in> set (m_packets l). \<not> meets p)) \<and>
     (fst (PopPacket All l) = None \<longleftrightarrow> m_packets l = [])"
proof -
  have "fst (PopPacket All l) = None \<longleftrightarrow> m_packets l = []"
    using packets.pop_never_stuck [of All l] wants_All by (cases "m_packets l") auto
  then show ?thesis
    using packets.pop_many_takes [OF assms] packets.pop_never_stuck [of r l] by (simp add: Let_def)
qed

definition demo_packet :: "u8 \<Rightarrow> PacketRoute \<Rightarrow> PendingPacket" where
  "demo_packet b r = \<lparr>sender = no_endpoint, payload = [b], pk_route = r\<rparr>"

definition demo_layer :: FakeIpLayer where
  "demo_layer = \<lparr>m_p2pHandle = 1, m_localUser = 2, m_peerBindings = Map.empty,
     m_packets = [demo_packet 1 Server, demo_packet 2 Client, demo_packet 3 All],
     m_localEndpoint = no_endpoint, eos_current_endpoint = []\<rparr>"

lemma PopPacket_in_order_witness:
  "fst (pop_many (PopPacket Client) 5 demo_layer) = [demo_packet 2 Client, demo_packet 3 All]"
proof -
  obtain ps l' where p: "pop_many (PopPacket Client) 5 demo_layer = (ps, l')"
    by (cases "pop_many (PopPacket Client) 5 demo_layer")
  from PopPacket_in_order [OF p] have "ps = take 5 (filter (wants (NormalizeRoute Client)) (m_packets demo_layer))"
    by (simp add: Let_def)
  then show ?thesis unfolding p
    by (simp add: demo_layer_def demo_packet_def wants_def AnyRoute_def NormalizeRoute_def route_and_table)
qed

section \<open>The tables\<close>

text \<open>
  C10: In every state the layer reaches, whatever the engine's variables are at each step, each peer is
  stored under its own normalised product id; the handle packets to it are sent to has that id; its
  address decodes to it; its route is never empty and its socket name fits; and each queued packet has
  a route and a sender address that decodes to a normalised product id.
\<close>

theorem layer_tables_consistent:
  assumes "layer_state env l" "sdk_ok env"
  shows "(\<forall>n b. m_peerBindings l n = Some b \<longrightarrow>
       productUserId b = n \<and> NormalizeProductId n = Some n \<and> product_id env (remoteUser b) = Some n \<and>
       IsValid (endpoint b) \<and> DecodeProductId (endpoint b) = Some n \<and> route b \<noteq> NoRoute \<and>
       length (SocketName b) \<le> SOCKETNAME_SIZE env - 1) \<and>
     (\<forall>p \<in> set (m_packets l). pk_route p \<noteq> NoRoute \<and> IsValid (sender p) \<and>
       (\<exists>n. DecodeProductId (sender p) = Some n \<and> NormalizeProductId n = Some n))"
proof -
  have "layer_ok env l" using layer_state_ok [OF assms] .
  then show ?thesis unfolding layer_ok_def binding_ok_def packet_ok_def good_endpoint_def
    using Decode_normalized by blast
qed

text \<open>An SDK with one peer.\<close>

definition demo_id :: string where "demo_id = ''0002abcdef0123456789abcdef012345''"

definition demo_eos :: eos_env where
  "demo_eos = \<lparr>ProductUserId_ToString = (\<lambda>u. if u = 7 then Some demo_id else None),
     ProductUserId_FromString = (\<lambda>s. if s = demo_id then 7 else 0), SOCKETNAME_SIZE = 33,
     clientport = 37005, hostport = 37015, IsDedicatedServer = False, g_pServerState = None,
     InetNtop = (\<lambda>a. None)\<rparr>"

lemma demo_id_normal: "NormalizeProductId demo_id = Some demo_id"
  by code_simp

lemma demo_product_id: "product_id demo_eos u = (if u = 7 then Some demo_id else None)"
  by (simp add: product_id_def GetProductIdString_def demo_eos_def demo_id_normal)

lemma demo_sdk: "sdk_ok demo_eos"
  unfolding sdk_ok_def demo_product_id by (auto simp: demo_eos_def demo_id_def split: if_splits)

lemma layer_tables_consistent_witness:
  "\<exists>l b. layer_state demo_eos l \<and> m_peerBindings l demo_id = Some b \<and> route b = Server \<and>
     DecodeProductId (endpoint b) = Some demo_id"
proof -
  have s: "same_sdk demo_eos demo_eos" by (simp add: same_sdk_def)
  let ?l0 = "new_FakeIpLayer demo_eos 1 0 []"
  let ?l = "snd (RegisterPeer demo_eos 7 (Some ''ion'') 0 ?l0)"
  have st: "layer_state demo_eos ?l" by (intro layer_state.register layer_state.created s)
  obtain ep where "EncodeProductId demo_eos demo_id = Some ep"
    using sdk_encode [OF demo_sdk, of 7 demo_id demo_eos] by (auto simp: demo_product_id)
  then have b: "\<exists>b. m_peerBindings ?l demo_id = Some b \<and> route b = Server"
    by (simp add: RegisterPeer_eq demo_product_id new_FakeIpLayer_def UpdateLocalEndpoint_def)
  then obtain b where b: "m_peerBindings ?l demo_id = Some b" "route b = Server" by blast
  from layer_tables_consistent [OF st demo_sdk] b(1) have "DecodeProductId (endpoint b) = Some demo_id" by blast
  with st b show ?thesis by blast
qed

section \<open>Answers\<close>

lemma ntohs_htons [simp]: "ntohs (htons w) = w"
  unfolding ntohs_def htons_def by (rule bit_word_eqI) (auto simp: bit_simps)

lemma Resolve_product_id:
  assumes "sdk_ok env" "layer_ok env l" "product_id env user = Some n"
  obtains ep where "ResolveEndpoint env user l =
      Some (ep, case m_peerBindings l n of None \<Rightarrow> All | Some b \<Rightarrow> NormalizeRoute (route b))" "good_endpoint ep n"
proof -
  from assms(3) obtain raw where raw: "GetProductIdString env user = Some raw" "NormalizeProductId raw = Some n"
    by (auto simp: product_id_cases)
  from sdk_encode [OF assms(1,3), of env] obtain ep where ep: "EncodeProductId env n = Some ep" "good_endpoint ep n" .
  show ?thesis
  proof (cases "m_peerBindings l n")
    case None
    then show ?thesis using that [of ep] raw ep by (simp add: ResolveEndpoint_def)
  next
    case (Some b)
    then have "good_endpoint (endpoint b) n" using assms(2) by (auto simp: layer_ok_def binding_ok_def)
    then show ?thesis using that [of "endpoint b"] raw Some by (simp add: ResolveEndpoint_def)
  qed
qed

lemma Extract_written:
  assumes "good_endpoint ep n"
  shows "\<exists>p. WriteSockaddrForFakeEndpoint env ep True (Some sizeof_sockaddr_in6) =
      (Some (sockaddr_in6 (htons p) (address ep)), Some sizeof_sockaddr_in6) \<and>
     ExtractFakeEndpoint (Some (sockaddr_in6 (htons p) (address ep))) = Some \<lparr>address = address ep, port = p\<rparr>"
proof -
  have "IsValid ep" using assms Decode_normalized by (auto simp: good_endpoint_def)
  then show ?thesis
    by (auto simp: WriteSockaddrForFakeEndpoint_def ExtractFakeEndpoint_def IsValid_def Let_def)
qed

lemma SendToPeer_sends:
  assumes "sdk_ok env" "layer_ok env l" "DecodeProductId ep = Some n" "NormalizeProductId n = Some n"
    and "m_p2pHandle l \<noteq> 0" "m_localUser l \<noteq> 0" "data \<noteq> []"
    and "ProductUserId_FromString env n \<noteq> 0" "\<forall>opts. SendPacket opts"
  shows "\<exists>opts l'. SendToPeer env SendPacket ep (Some data) r l = ((True, Some opts), l') \<and>
     product_id env (so_RemoteUserId opts) = Some n \<and> so_Data opts = data"
proof (cases "m_peerBindings l n")
  case None
  have "product_id env (ProductUserId_FromString env n) = Some n"
    using assms(1,4,8) unfolding sdk_ok_def by blast
  then show ?thesis using assms(3,5-9) None by (simp add: SendToPeer_def send_with_def Let_def)
next
  case (Some b)
  then have "product_id env (remoteUser b) = Some n" using assms(2) by (auto simp: layer_ok_def binding_ok_def)
  then show ?thesis using assms(3,5-9) Some by (simp add: SendToPeer_def send_with_def Let_def)
qed

text \<open>
  C11: An answer goes back to the peer it answers. When a packet from a user arrives while the queue is
  empty, and the socket's route meets the routes the peer is known under, the engine's receive function
  gets the bytes of that packet that fit and an IPv6 address; whatever the engine then sends to that
  address, from any socket, is handed to the SDK for a handle with the product id of that user.
\<close>

theorem reply_reaches_sender:
  assumes "sdk_ok env" "layer_state env l" "m_p2pHandle l \<noteq> 0" "m_localUser l \<noteq> 0" "m_packets l = []"
    and "product_id env user = Some n" "ProductUserId_FromString env n \<noteq> 0" "\<forall>opts. SendPacket opts"
    and "fakeIpLayer net = Some (fst (PumpIncoming env [Received user buf outSize] l))"
    and "case m_peerBindings l n of None \<Rightarrow> True
      | Some b \<Rightarrow> AnyRoute (route_and (NormalizeRoute (route b)) (NormalizeRoute (fst (DetermineSocketRoute env getsockname s net))))"
    and "0 < len" "reply \<noteq> []"
  shows "\<exists>from net' opts net''.
     HookedRecvFrom env getsockname 0x21B5DB s True len True (Some sizeof_sockaddr_in6) net =
       (Delivered (take (nat len) (vec_resize outSize buf)) (min len (int outSize)) (Some from, Some sizeof_sockaddr_in6), net') \<and>
     HookedSendTo env getsockname SendPacket s' (Some reply) (int (length reply)) (Some from) net' =
       (Sent (int (length reply)) (Some opts), net'') \<and>
     product_id env (so_RemoteUserId opts) = Some n \<and> so_Data opts = reply"
proof -
  have ok: "layer_ok env l" using layer_state_ok assms(1,2) by blast
  define known where "known = (case m_peerBindings l n of None \<Rightarrow> All | Some b \<Rightarrow> NormalizeRoute (route b))"
  obtain ep where res: "ResolveEndpoint env user l = Some (ep, known)" and good: "good_endpoint ep n"
    using Resolve_product_id [OF assms(1) ok assms(6)] unfolding known_def by blast
  let ?p = "\<lparr>sender = ep, payload = vec_resize outSize buf, pk_route = NormalizeRoute known\<rparr>"
  have pumped: "fst (PumpIncoming env [Received user buf outSize] l) = l\<lparr>m_packets := [?p]\<rparr>"
    using assms(3-5) res by (simp add: PumpIncoming_def receive_packet_def)
  obtain r net1 where r: "DetermineSocketRoute env getsockname s net = (r, net1)" by fastforce
  have "wants (NormalizeRoute r) ?p"
    using assms(10) r wants_All [of "\<lparr>sender = ep, payload = [], pk_route = NormalizeRoute r\<rparr>"]
    by (cases "m_peerBindings l n"; cases r)
       (auto simp: wants_def known_def NormalizeRoute_def route_and_table AnyRoute_def split: if_splits)
  then have pop: "PopPacket r (l\<lparr>m_packets := [?p]\<rparr>) = (Some ?p, l\<lparr>m_packets := []\<rparr>)"
    by (simp add: PopPacket_def)
  obtain p where written: "WriteSockaddrForFakeEndpoint env ep True (Some sizeof_sockaddr_in6) =
      (Some (sockaddr_in6 (htons p) (address ep)), Some sizeof_sockaddr_in6)"
    "ExtractFakeEndpoint (Some (sockaddr_in6 (htons p) (address ep))) = Some \<lparr>address = address ep, port = p\<rparr>"
    using Extract_written [OF good] by blast
  let ?net' = "net1\<lparr>fakeIpLayer := Some (l\<lparr>m_packets := []\<rparr>)\<rparr>"
  have sz: "length (vec_resize outSize buf) = outSize" by (simp add: vec_resize_def)
  have recv: "HookedRecvFrom env getsockname 0x21B5DB s True len True (Some sizeof_sockaddr_in6) net =
       (Delivered (take (nat len) (vec_resize outSize buf)) (min len (int outSize))
          (Some (sockaddr_in6 (htons p) (address ep)), Some sizeof_sockaddr_in6), ?net')"
    using assms(9,11) pumped r pop written(1) sz by (auto simp: HookedRecvFrom_def Let_def min_def)
  have decode: "DecodeProductId \<lparr>address = address ep, port = p\<rparr> = Some n"
    using good by (auto simp: good_endpoint_def DecodeProductId_def split: if_splits)
  have norm: "NormalizeProductId n = Some n"
    using good Decode_normalized(1) [of ep n] by (simp add: good_endpoint_def)
  have ok': "layer_ok env (l\<lparr>m_packets := []\<rparr>)" using ok by (simp add: layer_ok_def)
  obtain r2 net2 where r2: "DetermineSocketRoute env getsockname s' ?net' = (r2, net2)" by fastforce
  obtain opts l' where "SendToPeer env SendPacket \<lparr>address = address ep, port = p\<rparr> (Some reply) r2 (l\<lparr>m_packets := []\<rparr>) =
      ((True, Some opts), l')" "product_id env (so_RemoteUserId opts) = Some n" "so_Data opts = reply"
    using SendToPeer_sends [OF assms(1) ok' decode norm _ _ assms(12,7,8), of r2] assms(3,4) by auto
  then have "HookedSendTo env getsockname SendPacket s' (Some reply) (int (length reply))
       (Some (sockaddr_in6 (htons p) (address ep))) ?net' =
     (Sent (int (length reply)) (Some opts), net2\<lparr>fakeIpLayer := Some l'\<rparr>) \<and>
     product_id env (so_RemoteUserId opts) = Some n \<and> so_Data opts = reply"
    using assms(12) written(2) r2 by (simp add: HookedSendTo_def)
  then show ?thesis using recv by blast
qed

lemma reply_reaches_sender_witness:
  "\<exists>net from net' opts net''.
     HookedRecvFrom demo_eos (\<lambda>s. None) 0x21B5DB 5 True 10 True (Some sizeof_sockaddr_in6) net =
       (Delivered [1, 2] 2 (Some from, Some sizeof_sockaddr_in6), net') \<and>
     HookedSendTo demo_eos (\<lambda>s. None) (\<lambda>opts. True) 5 (Some [9]) 1 (Some from) net' = (Sent 1 (Some opts), net'') \<and>
     product_id demo_eos (so_RemoteUserId opts) = Some demo_id \<and> so_Data opts = [9]"
proof -
  let ?l = "SetLocalUser demo_eos 3 (new_FakeIpLayer demo_eos 1 0 [])"
  let ?net = "\<lparr>g_socketRoutes = Map.empty, g_fakeIpRecvSockets = Map.empty, g_realSendTo = 1, g_realRecvFrom = 1,
    g_realCloseSocket = 1, g_hooksInstalled = True,
    fakeIpLayer = Some (fst (PumpIncoming demo_eos [Received 7 [1, 2] 2] ?l))\<rparr>"
  have "same_sdk demo_eos demo_eos" by (simp add: same_sdk_def)
  then have st: "layer_state demo_eos ?l" by (intro layer_state.set_user layer_state.created)
  have l: "m_p2pHandle ?l \<noteq> 0" "m_localUser ?l \<noteq> 0" "m_packets ?l = []" "m_peerBindings ?l demo_id = None"
    by (simp_all add: SetLocalUser_def new_FakeIpLayer_def)
  have u: "product_id demo_eos 7 = Some demo_id" "ProductUserId_FromString demo_eos demo_id \<noteq> 0"
    by (simp_all add: demo_product_id) (simp add: demo_eos_def)
  have "\<exists>from net' opts net''.
     HookedRecvFrom demo_eos (\<lambda>s. None) 0x21B5DB 5 True 10 True (Some sizeof_sockaddr_in6) ?net =
       (Delivered (take (nat 10) (vec_resize 2 [1, 2])) (min 10 (int 2)) (Some from, Some sizeof_sockaddr_in6), net') \<and>
     HookedSendTo demo_eos (\<lambda>s. None) (\<lambda>opts. True) 5 (Some [9]) (int (length [9 :: u8])) (Some from) net' =
       (Sent (int (length [9 :: u8])) (Some opts), net'') \<and>
     product_id demo_eos (so_RemoteUserId opts) = Some demo_id \<and> so_Data opts = [9]"
    by (rule reply_reaches_sender [OF demo_sdk st l(1,2,3) u]) (simp_all add: l(4))
  then show ?thesis by (simp add: vec_resize_def) blast
qed

section \<open>Sockets\<close>

text \<open>
  A socket keeps the route it was given first. Whatever the port variables become and whatever
  other sockets do, asking again gives the same answer and changes nothing, until the socket is closed;
  then the next question classifies it afresh.
\<close>

theorem socket_route_kept:
  assumes "DetermineSocketRoute env getsockname s net = (r, net')"
  shows "DetermineSocketRoute env2 getsockname2 s net' = (r, net') \<and>
     (s' \<noteq> s \<longrightarrow> fst (DetermineSocketRoute env2 getsockname2 s (snd (DetermineSocketRoute env2 getsockname2 s' net'))) = r \<and>
        fst (DetermineSocketRoute env2 getsockname2 s (snd (HookedCloseSocket s' net'))) = r) \<and>
     fst (DetermineSocketRoute env2 getsockname2 s (snd (HookedCloseSocket s net'))) =
       ClassifySocketRoute env2 (GetLocalSocketPort getsockname2 s)"
proof -
  have "g_socketRoutes net' s = Some r"
    using assms by (auto simp: DetermineSocketRoute_def Let_def split: option.splits)
  then show ?thesis
    by (auto simp: DetermineSocketRoute_def HookedCloseSocket_def Let_def split: option.split)
qed

lemma socket_route_kept_witness:
  "\<exists>net'. DetermineSocketRoute demo_eos (\<lambda>s. Some (sockaddr_in (htons 37015) 0)) 5
     \<lparr>g_socketRoutes = Map.empty, g_fakeIpRecvSockets = Map.empty, g_realSendTo = 1, g_realRecvFrom = 1,
      g_realCloseSocket = 1, g_hooksInstalled = True, fakeIpLayer = None\<rparr> = (Server, net') \<and>
   DetermineSocketRoute demo_eos (\<lambda>s. None) 5 net' = (Server, net')"
proof -
  obtain net' where d: "DetermineSocketRoute demo_eos (\<lambda>s. Some (sockaddr_in (htons 37015) 0)) 5
     \<lparr>g_socketRoutes = Map.empty, g_fakeIpRecvSockets = Map.empty, g_realSendTo = 1, g_realRecvFrom = 1,
      g_realCloseSocket = 1, g_hooksInstalled = True, fakeIpLayer = None\<rparr> = (Server, net')"
    by (simp add: DetermineSocketRoute_def GetLocalSocketPort_def ClassifySocketRoute_def demo_eos_def)
  with socket_route_kept [OF d] show ?thesis by blast
qed

end
