(* ===== verification/BanSystem.thy ===== *)
theory BanSystem
  imports CppStd
begin

text \<open>
  The ban list of \<open>src/server/auth/bansystem.cpp\<close>: a list of user ids in memory and the text file
  \<open>banlist.txt\<close>. The file is read in text mode and written in binary mode.
\<close>

section \<open>The file\<close>

text \<open>\<open>std::getline\<close> in a loop gives the lines; the last one needs no line feed.\<close>

function getlines :: "string \<Rightarrow> string list" where
  "getlines [] = []"
| "getlines (c # s) =
     (let line = takeWhile (\<lambda>c. c \<noteq> LF) (c # s); rest = dropWhile (\<lambda>c. c \<noteq> LF) (c # s)
      in line # getlines (tl rest))"
  by pat_completeness auto

termination
proof (relation "measure length")
  fix c s line rest
  assume "rest = dropWhile (\<lambda>c. c \<noteq> LF) (c # s)"
  then have "length rest \<le> length (c # s)" by (simp only: length_dropWhile_le)
  then show "(tl rest, c # s) \<in> measure length" by (cases rest) auto
qed simp

definition BANLIST_COMMENT_CHAR :: char where "BANLIST_COMMENT_CHAR = CHR ''#''"

definition erase_blanks :: "string \<Rightarrow> string" where
  "erase_blanks line = filter (\<lambda>c. c \<noteq> CHR '' '') (filter (\<lambda>c. c \<noteq> CHR 0x09) line)"

text \<open>\<open>line.substr(0, line.find(BANLIST_COMMENT_CHAR))\<close>.\<close>

definition before_comment :: "string \<Rightarrow> string" where
  "before_comment line = takeWhile (\<lambda>c. c \<noteq> BANLIST_COMMENT_CHAR) line"

section \<open>The ban system\<close>

text \<open>The file is \<open>None\<close> when it cannot be opened for reading.\<close>

record ban_state =
  m_vBannedUids :: "u64 list"
  banlist_txt :: "string option"

definition open_line :: "string \<Rightarrow> u64 list" where
  "open_line line =
     (if line = [] \<or> hd line = BANLIST_COMMENT_CHAR then []
      else if erase_blanks line = [] then []
      else [strtoull (before_comment (erase_blanks line))])"

definition OpenBanlist :: "ban_state \<Rightarrow> ban_state" where
  "OpenBanlist st =
     (case banlist_txt st of
        None \<Rightarrow> st
      | Some f \<Rightarrow> st\<lparr>m_vBannedUids := m_vBannedUids st @ concat (map open_line (getlines (text_mode f)))\<rparr>)"

definition ReloadBanlist :: "ban_state \<Rightarrow> ban_state" where
  "ReloadBanlist st =
     (case banlist_txt st of
        None \<Rightarrow> st
      | Some f \<Rightarrow> st\<lparr>m_vBannedUids := map strtoull (getlines (text_mode f))\<rparr>)"

definition ClearBanlist :: "ban_state \<Rightarrow> ban_state" where
  "ClearBanlist st = st\<lparr>m_vBannedUids := [], banlist_txt := Some []\<rparr>"

text \<open>\<open>content.back()\<close> of an empty string is undefined.\<close>

definition BanUID :: "u64 \<Rightarrow> ban_state \<Rightarrow> ban_state outcome" where
  "BanUID uid st =
     (let content = (case banlist_txt st of None \<Rightarrow> [] | Some f \<Rightarrow> text_mode f);
          file = (case banlist_txt st of None \<Rightarrow> [] | Some f \<Rightarrow> f)
      in if content = [] then Undefined
         else
           let file = (if last content \<noteq> LF then file @ [LF] else file)
           in Ret (st\<lparr>m_vBannedUids := m_vBannedUids st @ [uid],
                banlist_txt := Some (file @ show_nat (unat uid) @ [LF])\<rparr>))"

record tm =
  tm_year :: int
  tm_mon :: int
  tm_mday :: int
  tm_hour :: int
  tm_min :: int

definition setw2 :: "int \<Rightarrow> string" where
  "setw2 n = (let s = show_int n in replicate (2 - length s) (CHR ''0'') @ s)"

definition unban_comment :: "tm \<Rightarrow> string" where
  "unban_comment now =
     '' # unban date: '' @ show_int (tm_year now + 1900) @ ''-'' @ setw2 (tm_mon now + 1) @ ''-'' @
     setw2 (tm_mday now) @ '' '' @ setw2 (tm_hour now) @ '':'' @ setw2 (tm_min now)"

text \<open>What a line of the file becomes; \<open>line.front()\<close> of an empty line is undefined.\<close>

definition unban_line :: "tm \<Rightarrow> u64 \<Rightarrow> string \<Rightarrow> string outcome" where
  "unban_line now uid line =
     (if line = [] then Undefined
      else if hd line = BANLIST_COMMENT_CHAR \<or> erase_blanks line = [] then Ret line
      else if show_nat (unat uid) = erase_blanks (before_comment line)
      then Ret (''# '' @ line @ unban_comment now)
      else Ret line)"

primrec unban_lines :: "tm \<Rightarrow> u64 \<Rightarrow> string list \<Rightarrow> string list outcome" where
  "unban_lines now uid [] = Ret []"
| "unban_lines now uid (line # lines) =
     obind (unban_line now uid line) (\<lambda>l. obind (unban_lines now uid lines) (\<lambda>ls. Ret (l # ls)))"

definition UnbanUID :: "tm \<Rightarrow> u64 \<Rightarrow> ban_state \<Rightarrow> ban_state outcome" where
  "UnbanUID now uid st =
     (if uid \<notin> set (m_vBannedUids st) then Ret st
      else
        let banlistText = (case banlist_txt st of None \<Rightarrow> Ret []
              | Some f \<Rightarrow> unban_lines now uid (getlines (text_mode f)))
        in obind banlistText (\<lambda>ls.
             Ret (st\<lparr>m_vBannedUids := remove1 uid (m_vBannedUids st),
                 banlist_txt := Some (concat (map (\<lambda>l. l @ [LF]) ls))\<rparr>)))"

text \<open>Whether a user may join, given whether the server is dedicated and the local player's id.\<close>

definition IsUIDAllowed :: "bool \<Rightarrow> string \<Rightarrow> u64 \<Rightarrow> ban_state \<Rightarrow> bool \<times> ban_state" where
  "IsUIDAllowed IsDedicatedServer g_pLocalPlayerUserID uid st =
     (if \<not> IsDedicatedServer \<and> strtoull g_pLocalPlayerUserID = uid then (True, st)
      else let st = ReloadBanlist st in (uid \<notin> set (m_vBannedUids st), st))"

section \<open>The console commands\<close>

record ban_player =
  m_szClientName :: string
  m_szPlatformID :: string

text \<open>The result says which player is disconnected.\<close>

primrec ban_first :: "string \<Rightarrow> ban_player list \<Rightarrow> nat \<Rightarrow> ban_state \<Rightarrow> (nat option \<times> ban_state) outcome" where
  "ban_first arg [] i st = Ret (None, st)"
| "ban_first arg (player # players) i st =
     (if m_szClientName player = arg \<or> m_szPlatformID player = arg
      then obind (BanUID (strtoull (m_szPlatformID player)) st) (\<lambda>st. Ret (Some i, st))
      else ban_first arg players (i + 1) st)"

definition ConCommand_ban :: "string list \<Rightarrow> ban_player list \<Rightarrow> ban_state \<Rightarrow> (nat option \<times> ban_state) outcome" where
  "ConCommand_ban args g_pClientArray st =
     (if length args < 2 then Ret (None, st) else ban_first (args ! 1) g_pClientArray 0 st)"

definition ConCommand_unban :: "tm \<Rightarrow> string list \<Rightarrow> ban_state \<Rightarrow> ban_state outcome" where
  "ConCommand_unban now args st = (if length args < 2 then Ret st else UnbanUID now (strtoull (args ! 1)) st)"

definition ConCommand_clearbanlist :: "ban_state \<Rightarrow> ban_state" where
  "ConCommand_clearbanlist st = ClearBanlist st"

end
