(* ===== verification/BanSpec.thy ===== *)
theory BanSpec
  imports BanSystem
begin

text \<open>
  The ban list against what it is meant to be, a set of user ids, and where the file's format and the
  functions that read it do not agree.
\<close>

section \<open>Lines\<close>

datatype ban_line = Comment string | Blank string | Entry string u64 string "string option"

fun ban_text :: "ban_line \<Rightarrow> string" where
  "ban_text (Comment c) = BANLIST_COMMENT_CHAR # c"
| "ban_text (Blank w) = w"
| "ban_text (Entry a u b c) =
     a @ show_nat (unat u) @ b @ (case c of None \<Rightarrow> [] | Some t \<Rightarrow> BANLIST_COMMENT_CHAR # t)"

definition blank :: "char \<Rightarrow> bool" where
  "blank c \<longleftrightarrow> c = CHR '' '' \<or> c = CHR 0x09"

definition plain_char :: "char \<Rightarrow> bool" where
  "plain_char c \<longleftrightarrow> c \<noteq> LF \<and> c \<noteq> CR \<and> c \<noteq> CHR 0x1A"

abbreviation blanks :: "string \<Rightarrow> bool" where
  "blanks s \<equiv> list_all blank s"

abbreviation plain :: "string \<Rightarrow> bool" where
  "plain s \<equiv> list_all plain_char s"

lemma blank_char:
  assumes "blank c"
  shows "plain_char c" "is_space c" "\<not> is_digit c" "c \<noteq> BANLIST_COMMENT_CHAR"
proof -
  have "plain_char c \<and> is_space c \<and> \<not> is_digit c \<and> c \<noteq> BANLIST_COMMENT_CHAR"
    using assms unfolding blank_def
    by (elim disjE) (simp_all add: plain_char_def is_space_def is_digit_def BANLIST_COMMENT_CHAR_def LF_def CR_def)
  then show "plain_char c" "is_space c" "\<not> is_digit c" "c \<noteq> BANLIST_COMMENT_CHAR" by simp_all
qed

lemma comment_char: "plain_char BANLIST_COMMENT_CHAR" "\<not> is_digit BANLIST_COMMENT_CHAR" "\<not> is_space BANLIST_COMMENT_CHAR"
    "\<not> blank BANLIST_COMMENT_CHAR"
  by (simp_all add: plain_char_def is_digit_def is_space_def blank_def BANLIST_COMMENT_CHAR_def LF_def CR_def)

lemma digit_char:
  assumes "is_digit c"
  shows "plain_char c" "\<not> blank c" "c \<noteq> BANLIST_COMMENT_CHAR"
  using assms blank_char(3) comment_char(2)
  by (auto simp: plain_char_def LF_def CR_def is_digit_def)

fun ban_line_ok :: "ban_line \<Rightarrow> bool" where
  "ban_line_ok (Comment c) \<longleftrightarrow> plain c"
| "ban_line_ok (Blank w) \<longleftrightarrow> w \<noteq> [] \<and> blanks w"
| "ban_line_ok (Entry a u b c) \<longleftrightarrow> blanks a \<and> blanks b \<and> (case c of None \<Rightarrow> True | Some t \<Rightarrow> plain t)"

definition file_text :: "string list \<Rightarrow> string" where
  "file_text ls = concat (map (\<lambda>l. l @ [LF]) ls)"

lemma getlines_line: "LF \<notin> set l \<Longrightarrow> getlines (l @ LF # r) = l # getlines r"
proof -
  assume l: "LF \<notin> set l"
  have t: "takeWhile (\<lambda>c. c \<noteq> LF) (l @ LF # r) = l" "dropWhile (\<lambda>c. c \<noteq> LF) (l @ LF # r) = LF # r"
    using l by (induction l) auto
  obtain c s where cs: "l @ LF # r = c # s" by (cases "l @ LF # r") auto
  then show ?thesis using t by (simp add: Let_def)
qed

lemma getlines_file: "\<forall>l \<in> set ls. LF \<notin> set l \<Longrightarrow> getlines (file_text ls) = ls"
  by (induction ls) (simp_all add: file_text_def getlines_line)

lemma show_nat_list: "list_all is_digit (show_nat n)"
  using show_nat_digits [of n] by (simp add: list_all_iff)

lemma digits_plain: "list_all is_digit s \<Longrightarrow> plain s"
  by (simp add: list_all_iff digit_char)

lemma blanks_plain: "blanks s \<Longrightarrow> plain s"
  by (simp add: list_all_iff blank_char)

lemma ban_text_plain: "ban_line_ok l \<Longrightarrow> plain (ban_text l)"
  by (cases l) (auto simp: blanks_plain digits_plain show_nat_list comment_char split: option.splits)

lemma plain_none: "plain s \<longleftrightarrow> LF \<notin> set s \<and> CR \<notin> set s \<and> CHR 0x1A \<notin> set s"
  by (auto simp: list_all_iff plain_char_def)

lemma file_text_chars: "plain t \<Longrightarrow> c \<notin> set t \<Longrightarrow> c \<noteq> LF \<Longrightarrow> c \<notin> set (t @ [LF])"
  by simp

lemma read_lines:
  assumes "\<forall>l \<in> set ls. ban_line_ok l"
  shows "getlines (text_mode (file_text (map ban_text ls))) = map ban_text ls"
    "text_mode (file_text (map ban_text ls)) = file_text (map ban_text ls)"
proof -
  have p: "LF \<notin> set t \<and> CR \<notin> set t \<and> CHR 0x1A \<notin> set t" if "t \<in> set (map ban_text ls)" for t
    using that assms ban_text_plain plain_none by auto
  have "CR \<noteq> LF" "CHR 0x1A \<noteq> LF" by (simp_all add: LF_def CR_def)
  then have c: "CR \<notin> set (file_text (map ban_text ls))" "CHR 0x1A \<notin> set (file_text (map ban_text ls))"
    using p unfolding file_text_def by auto
  then show e: "text_mode (file_text (map ban_text ls)) = file_text (map ban_text ls)" by (rule text_mode_id)
  have "\<forall>t \<in> set (map ban_text ls). LF \<notin> set t" using p by blast
  then show "getlines (text_mode (file_text (map ban_text ls))) = map ban_text ls" unfolding e by (rule getlines_file)
qed

section \<open>Numbers in lines\<close>

lemma blanks_space: "blanks a \<Longrightarrow> dropWhile is_space (a @ s) = dropWhile is_space s"
  by (induction a) (auto simp: blank_char)

lemma erase_blanks_filter: "erase_blanks s = filter (\<lambda>c. \<not> blank c) s"
  by (simp add: erase_blanks_def blank_def conj_commute)

lemma erase_blanks_blank: "blanks a \<Longrightarrow> erase_blanks a = []"
  by (simp add: erase_blanks_filter filter_empty_conv list_all_iff)

lemma erase_blanks_append [simp]: "erase_blanks (s @ t) = erase_blanks s @ erase_blanks t"
  by (simp add: erase_blanks_def)

lemma erase_blanks_Nil [simp]: "erase_blanks [] = []"
  by (simp add: erase_blanks_def)

lemma erase_blanks_comment [simp]: "erase_blanks (BANLIST_COMMENT_CHAR # t) = BANLIST_COMMENT_CHAR # erase_blanks t"
  by (simp add: erase_blanks_filter comment_char)

lemma erase_blanks_digits: "erase_blanks (show_nat n) = show_nat n"
  using show_nat_list [of n] by (auto simp: erase_blanks_filter filter_id_conv list_all_iff digit_char)

lemma before_comment_digits:
  "list_all is_digit s \<Longrightarrow> r = [] \<or> hd r = BANLIST_COMMENT_CHAR \<Longrightarrow> before_comment (s @ r) = s"
  unfolding before_comment_def
  by (subst takeWhile_append2) (cases r; auto simp: list_all_iff digit_char)+

lemma strtoull_digits:
  assumes "blanks a" "case r of [] \<Rightarrow> True | c # s \<Rightarrow> \<not> is_digit c"
  shows "strtoull (a @ show_nat (unat (u :: u64)) @ r) = u"
proof -
  obtain d ds where d: "show_nat (unat u) = d # ds" by (cases "show_nat (unat u)") auto
  then have digits: "is_digit d" "\<forall>x \<in> set (d # ds). is_digit x" using show_nat_digits [of "unat u"] by auto
  have "takeWhile is_digit ((d # ds) @ r) = d # ds"
    using digits(2) assms(2) by (subst takeWhile_append2) (auto split: list.splits)
  then have "num_prefix (a @ show_nat (unat u) @ r) = (False, show_nat (unat u))"
    using is_digit_not_special [OF digits(1)] digits(1)
    unfolding num_prefix_def blanks_space [OF assms(1)] d by (simp add: Let_def)
  moreover have "unat u < 2 ^ 64" using unsigned_less [of u, where ?'a = nat] by simp
  ultimately show ?thesis by (simp add: strtoull_def digits_val_show_nat)
qed

lemma strtoull_none: "num_prefix s = (n, []) \<Longrightarrow> strtoull s = 0"
  by (simp add: strtoull_def digits_val_def)

fun line_uids :: "ban_line \<Rightarrow> u64 list" where
  "line_uids (Entry a u b c) = [u]"
| "line_uids _ = []"

definition entries :: "ban_line list \<Rightarrow> u64 list" where
  "entries ls = concat (map line_uids ls)"

abbreviation comment_text :: "string option \<Rightarrow> string" where
  "comment_text c \<equiv> (case c of None \<Rightarrow> [] | Some t \<Rightarrow> BANLIST_COMMENT_CHAR # t)"

lemma strtoull_line:
  assumes "ban_line_ok l"
  shows "strtoull (ban_text l) = (case l of Entry a u b c \<Rightarrow> u | _ \<Rightarrow> 0)"
proof (cases l)
  case (Comment c)
  have "num_prefix (BANLIST_COMMENT_CHAR # c) = (False, [])"
    using comment_char by (simp add: num_prefix_def Let_def BANLIST_COMMENT_CHAR_def)
  then have "strtoull (BANLIST_COMMENT_CHAR # c) = 0" by (rule strtoull_none)
  then show ?thesis using Comment by simp
next
  case (Blank w)
  then have "dropWhile is_space w = []" using assms blanks_space [of w "[]"] by simp
  then have "num_prefix w = (False, [])" by (simp only: num_prefix_def Let_def list.case)
  then have "strtoull w = 0" by (rule strtoull_none)
  then show ?thesis using Blank by simp
next
  case (Entry a u b c)
  have "case b @ comment_text c of [] \<Rightarrow> True | c # s \<Rightarrow> \<not> is_digit c"
    using assms Entry by (cases b) (auto simp: comment_char blank_char split: option.splits)
  then show ?thesis using assms Entry by (simp add: strtoull_digits)
qed

lemma entry_parts:
  assumes "ban_line_ok (Entry a u b c)"
  shows "ban_text (Entry a u b c) \<noteq> []" "hd (ban_text (Entry a u b c)) \<noteq> BANLIST_COMMENT_CHAR"
    "erase_blanks (ban_text (Entry a u b c)) = show_nat (unat u) @ erase_blanks (comment_text c)"
proof -
  obtain d ds where d: "show_nat (unat u) = d # ds" by (cases "show_nat (unat u)") auto
  then have "is_digit d" using show_nat_list [of "unat u"] by simp
  then show "ban_text (Entry a u b c) \<noteq> []" "hd (ban_text (Entry a u b c)) \<noteq> BANLIST_COMMENT_CHAR"
    using assms d digit_char(3) blank_char(4) by (cases a; auto)+
  show "erase_blanks (ban_text (Entry a u b c)) = show_nat (unat u) @ erase_blanks (comment_text c)"
    using assms by (simp add: erase_blanks_blank erase_blanks_digits)
qed

lemma open_line_text:
  assumes "ban_line_ok l"
  shows "open_line (ban_text l) = line_uids l"
proof (cases l)
  case (Entry a u b c)
  note e = entry_parts [OF assms [unfolded Entry]]
  have "before_comment (show_nat (unat u) @ erase_blanks (comment_text c)) = show_nat (unat u)"
    by (rule before_comment_digits) (auto simp: show_nat_list split: option.splits)
  moreover have "strtoull (show_nat (unat u)) = u"
    using strtoull_digits [of "[]" "[]" u] by simp
  moreover have "show_nat (unat u) @ erase_blanks (comment_text c) \<noteq> []" by simp
  ultimately show ?thesis using e(1,2) unfolding open_line_def Entry e(3) by (simp del: ban_text.simps)
qed (use assms in \<open>auto simp: open_line_def erase_blanks_blank\<close>)




section \<open>The ban list as a set\<close>






lemma entries_append [simp]: "entries (ls @ ms) = entries ls @ entries ms"
  by (simp add: entries_def)


lemma show_nat_inj: "show_nat m = show_nat n \<Longrightarrow> m = n"
  by (metis digits_val_show_nat)

fun unban_ban_line :: "tm \<Rightarrow> u64 \<Rightarrow> ban_line \<Rightarrow> ban_line" where
  "unban_ban_line now u (Entry a v b c) =
     (if v = u then Comment ('' '' @ ban_text (Entry a v b c) @ unban_comment now) else Entry a v b c)"
| "unban_ban_line now u l = l"

lemma show_int_plain: "plain (show_int i)"
proof -
  have "plain_char (CHR ''-'')" by (simp add: plain_char_def LF_def CR_def)
  then show ?thesis using digits_plain [OF show_nat_list] by (simp add: show_int_def)
qed

lemma unban_comment_plain: "plain (unban_comment now)"
proof -
  have "plain (replicate k (CHR ''0''))" for k
    by (simp add: list_all_iff plain_char_def LF_def CR_def)
  then have "plain (setw2 n)" for n
    using show_int_plain [of n] by (simp add: setw2_def Let_def)
  then show ?thesis using show_int_plain
    by (simp add: unban_comment_def) (simp add: plain_char_def LF_def CR_def)
qed

lemma unban_line_text:
  assumes "ban_line_ok l"
  shows "unban_line now u (ban_text l) = Ret (ban_text (unban_ban_line now u l)) \<and> ban_line_ok (unban_ban_line now u l)"
proof (cases l)
  case (Entry a v b c)
  note e = entry_parts [OF assms [unfolded Entry]]
  have "ban_text (Entry a v b c) = (a @ show_nat (unat v) @ b) @ comment_text c" by simp
  also have "before_comment \<dots> = a @ show_nat (unat v) @ b"
  proof -
    have "blank x \<or> is_digit x" if "x \<in> set (a @ show_nat (unat v) @ b)" for x
      using that assms Entry show_nat_list [of "unat v"] by (auto simp: list_all_iff)
    then have "x \<noteq> BANLIST_COMMENT_CHAR" if "x \<in> set (a @ show_nat (unat v) @ b)" for x
      using that digit_char(3) blank_char(4) by blast
    then show ?thesis unfolding before_comment_def
      by (subst takeWhile_append2) (auto split: option.splits)
  qed
  finally have "erase_blanks (before_comment (ban_text (Entry a v b c))) = show_nat (unat v)"
    using assms Entry by (simp add: erase_blanks_blank erase_blanks_digits)
  moreover have "show_nat (unat u) = show_nat (unat v) \<longleftrightarrow> v = u"
    using show_nat_inj by (metis word_unat_eq_iff)
  moreover have "erase_blanks (ban_text (Entry a v b c)) \<noteq> []" unfolding e(3) by simp
  moreover have "plain ('' '' @ ban_text (Entry a v b c) @ unban_comment now)"
    using ban_text_plain [OF assms [unfolded Entry]] unban_comment_plain
    by (simp add: plain_char_def LF_def CR_def del: ban_text.simps)
  ultimately show ?thesis using e(1,2) assms unfolding Entry unban_line_def
    by (auto simp del: ban_text.simps(3)) (simp_all add: BANLIST_COMMENT_CHAR_def)
qed (use assms in \<open>auto simp: unban_line_def erase_blanks_blank\<close>)




lemma reloaded:
  assumes "\<forall>l \<in> set ls. ban_line_ok l" "banlist_txt st = Some (file_text (map ban_text ls))"
  shows "m_vBannedUids (ReloadBanlist st) = map (\<lambda>l. case l of Entry a u b c \<Rightarrow> u | _ \<Rightarrow> 0) ls"
  using assms strtoull_line by (simp add: ReloadBanlist_def read_lines(1) [OF assms(1)])





section \<open>Properties\<close>

lemma opened_lines_comp: "\<forall>l \<in> set ls. ban_line_ok l \<Longrightarrow> concat (map (open_line \<circ> ban_text) ls) = concat (map line_uids ls)"
  by (rule arg_cong [where f = concat]) (simp add: open_line_text)



text \<open>
  Reloading does not read the file the way opening does. Opening skips comments and blank lines;
  reloading, which is done whenever somebody joins, takes every line as a number, so each comment and
  each blank line bans the user id 0.
\<close>

theorem reload_bans_comments:
  assumes "\<forall>l \<in> set ls. ban_line_ok l" "banlist_txt st = Some (file_text (map ban_text ls))"
  shows "m_vBannedUids (OpenBanlist (st\<lparr>m_vBannedUids := []\<rparr>)) = entries ls \<and>
     m_vBannedUids (ReloadBanlist st) = map (\<lambda>l. case l of Entry a u b c \<Rightarrow> u | _ \<Rightarrow> 0) ls \<and>
     (entries ls = m_vBannedUids (ReloadBanlist st) \<longleftrightarrow> (\<forall>l \<in> set ls. line_uids l \<noteq> []))"
proof -
  have "m_vBannedUids (OpenBanlist (st\<lparr>m_vBannedUids := []\<rparr>)) = entries ls"
    using opened_lines_comp [OF assms(1)] assms(2)
    by (simp add: OpenBanlist_def read_lines(1) [OF assms(1)] entries_def)
  moreover have "entries ls = map (\<lambda>l. case l of Entry a u b c \<Rightarrow> u | _ \<Rightarrow> 0) ls \<longleftrightarrow> (\<forall>l \<in> set ls. line_uids l \<noteq> [])"
  proof
    have "length (entries ms) + length (filter (\<lambda>l. line_uids l = []) ms) = length ms" for ms
    proof (induction ms)
      case (Cons m ms)
      then show ?case by (cases m) (simp_all add: entries_def)
    qed (simp add: entries_def)
    then have e: "length (entries ls) + length (filter (\<lambda>l. line_uids l = []) ls) = length ls" .
    assume "entries ls = map (\<lambda>l. case l of Entry a u b c \<Rightarrow> u | _ \<Rightarrow> 0) ls"
    then have "length (entries ls) = length ls" by (metis length_map)
    with e show "\<forall>l \<in> set ls. line_uids l \<noteq> []" by (simp add: filter_empty_conv)
  next
    assume "\<forall>l \<in> set ls. line_uids l \<noteq> []"
    then show "entries ls = map (\<lambda>l. case l of Entry a u b c \<Rightarrow> u | _ \<Rightarrow> 0) ls"
    proof (induction ls)
      case (Cons l ls)
      then show ?case by (cases l) (simp_all add: entries_def)
    qed (simp add: entries_def)
  qed
  ultimately show ?thesis using reloaded [OF assms] by simp
qed

lemma reload_bans_comments_witness:
  "m_vBannedUids (ReloadBanlist \<lparr>m_vBannedUids = [], banlist_txt = Some (file_text [''#a''])\<rparr>) = [0]"
proof -
  have ok: "\<forall>l \<in> set [Comment ''a'']. ban_line_ok l" by (simp add: plain_char_def LF_def CR_def)
  have t: "map ban_text [Comment ''a''] = [''#a'']" by (simp add: BANLIST_COMMENT_CHAR_def)
  show ?thesis
    using reload_bans_comments [OF ok, of "\<lparr>m_vBannedUids = [], banlist_txt = Some (file_text [''#a''])\<rparr>"]
    unfolding t by simp
qed

text \<open>
  Where the functions read the end of an empty string: banning when there is no ban list file or
  an empty one, in particular after the list was cleared, and unbanning a banned id when some line of
  the file is empty, if the lines before it are in good form.
\<close>

theorem ban_needs_text:
  "(banlist_txt st = None \<or> banlist_txt st = Some [] \<longrightarrow> BanUID u st = Undefined) \<and>
   BanUID u (ConCommand_clearbanlist st) = Undefined \<and>
   ((\<forall>l \<in> set ls. ban_line_ok l) \<and> u \<in> set (m_vBannedUids st) \<and>
      banlist_txt st = Some (file_text (map ban_text ls) @ LF # rest) \<longrightarrow> UnbanUID now u st = Undefined)"
proof (intro conjI impI)
  show "banlist_txt st = None \<or> banlist_txt st = Some [] \<Longrightarrow> BanUID u st = Undefined"
    by (auto simp: BanUID_def text_mode_def)
  show "BanUID u (ConCommand_clearbanlist st) = Undefined"
    by (simp add: BanUID_def ConCommand_clearbanlist_def ClearBanlist_def text_mode_def)
  assume a: "(\<forall>l \<in> set ls. ban_line_ok l) \<and> u \<in> set (m_vBannedUids st) \<and>
    banlist_txt st = Some (file_text (map ban_text ls) @ LF # rest)"
  let ?f = "file_text (map ban_text ls)"
  have p: "LF \<notin> set t \<and> CR \<notin> set t \<and> CHR 0x1A \<notin> set t" if "t \<in> set (map ban_text ls)" for t
    using that a ban_text_plain plain_none by auto
  have n: "CR \<noteq> LF" "CHR 0x1A \<noteq> LF" by (simp_all add: LF_def CR_def)
  then have c: "CR \<notin> set (?f @ [LF])" "CHR 0x1A \<notin> set (?f @ [LF])"
    using p unfolding file_text_def by auto
  have "drop_cr (s @ r) = s @ drop_cr r" if "CR \<notin> set s" for s r using that by (induction s) auto
  then have "text_mode ((?f @ [LF]) @ rest) = (?f @ [LF]) @ text_mode rest"
    unfolding text_mode_def using c by (subst takeWhile_append2) auto
  then have tm: "text_mode (?f @ LF # rest) = ?f @ LF # text_mode rest" by simp
  have "getlines (file_text ts @ LF # r) = ts @ [] # getlines r" if "\<forall>t \<in> set ts. LF \<notin> set t" for ts r
    using that getlines_line [of "[]" r] by (induction ts) (simp_all add: file_text_def getlines_line del: getlines.simps)
  then have gl: "getlines (text_mode (?f @ LF # rest)) = map ban_text ls @ [] # getlines (text_mode rest)"
    unfolding tm using p by blast
  have "unban_lines now u (map ban_text ms @ [] # ts) = Undefined" if "\<forall>l \<in> set ms. ban_line_ok l" for ms ts
    using that by (induction ms) (simp_all add: unban_line_text, simp add: unban_line_def)
  then show "UnbanUID now u st = Undefined" using a gl by (simp add: UnbanUID_def)
qed

lemma ban_needs_text_witness:
  "BanUID 5 \<lparr>m_vBannedUids = [], banlist_txt = None\<rparr> = Undefined"
  using ban_needs_text [of "\<lparr>m_vBannedUids = [], banlist_txt = None\<rparr>" 5 "[]"] by simp

end
