(* ===== verification/FileTree.thy ===== *)
theory FileTree
  imports CppStd "HOL-Library.AList"
begin

text \<open>
  Paths and a file system, as the components that work on files use them.

  A path is the list of its elements: the root name first, which may be empty, and an empty second
  element if the path has a root directory. The file system is a tree without links, which looks names
  up as they are spelled; relative elements are resolved as text.
\<close>

section \<open>Paths\<close>

fun split_seps :: "string \<Rightarrow> string list" where
  "split_seps [] = [[]]"
| "split_seps (c # s) =
     (if is_sep c then [] # split_seps s
      else case split_seps s of [] \<Rightarrow> [[c]] | w # ws \<Rightarrow> (c # w) # ws)"

definition is_letter :: "char \<Rightarrow> bool" where
  "is_letter c \<longleftrightarrow> 97 \<le> (of_char c OR 0x20 :: nat) \<and> (of_char c OR 0x20 :: nat) \<le> 122"

text \<open>The root name of a path: a drive, a device prefix or a server.\<close>

definition split_drive :: "string \<Rightarrow> string \<times> string" where
  "split_drive p =
     (let n = length p in
      if 2 \<le> n \<and> is_letter (p ! 0) \<and> p ! 1 = CHR '':'' then (take 2 p, drop 2 p)
      else if p = [] \<or> \<not> is_sep (p ! 0) then ([], p)
      else if 4 \<le> n \<and> is_sep (p ! 3) \<and> (n = 4 \<or> \<not> is_sep (p ! 4)) \<and>
        (is_sep (p ! 1) \<and> p ! 2 \<in> {CHR ''?'', CHR ''.''} \<or> p ! 1 = CHR ''?'' \<and> p ! 2 = CHR ''?'')
        then (take 3 p, drop 3 p)
      else if 3 \<le> n \<and> is_sep (p ! 1) \<and> \<not> is_sep (p ! 2)
        then (take 2 p @ takeWhile (\<lambda>c. \<not> is_sep c) (drop 2 p), dropWhile (\<lambda>c. \<not> is_sep c) (drop 2 p))
      else ([], p))"

text \<open>\<open>dir / param\<close>: a path with a root replaces all or part of the directory.\<close>

definition path_join :: "string list \<Rightarrow> string \<Rightarrow> string list" where
  "path_join dir param =
     (case split_drive param of (drive, rel) \<Rightarrow>
        if drive \<noteq> [] \<and> (drive \<noteq> hd dir \<or> rel \<noteq> [] \<and> is_sep (hd rel)) then drive # split_seps rel
        else if rel \<noteq> [] \<and> is_sep (hd rel) then hd dir # split_seps rel
        else dir @ split_seps rel)"

definition canonical_step :: "string list \<Rightarrow> string \<Rightarrow> string list" where
  "canonical_step acc c =
     (if c = [] \<or> c = ''.'' then acc
      else if c = ''..'' then (if length acc \<le> 1 then acc else butlast acc)
      else acc @ [c])"

text \<open>
  \<open>cwd\<close> gives the current directory of each drive, with \<open>[]\<close> for the current drive.
\<close>

definition absolute_path :: "(string \<Rightarrow> string list) \<Rightarrow> string list \<Rightarrow> string list" where
  "absolute_path cwd p =
     (case p of [] \<Rightarrow> cwd []
      | d # cs \<Rightarrow> if cs \<noteq> [] \<and> hd cs = [] then (if d = [] then hd (cwd []) else d) # cs else cwd d @ cs)"

definition canonical :: "(string \<Rightarrow> string list) \<Rightarrow> string list \<Rightarrow> string list" where
  "canonical cwd p = (case absolute_path cwd p of [] \<Rightarrow> [] | d # cs \<Rightarrow> foldl canonical_step [d] cs)"

section \<open>The file system\<close>

datatype fnode = File string | Dir "(string \<times> fnode) list"

fun lookup :: "fnode \<Rightarrow> string list \<Rightarrow> fnode option" where
  "lookup n [] = Some n"
| "lookup (File s) (x # xs) = None"
| "lookup (Dir es) (x # xs) = (case map_of es x of None \<Rightarrow> None | Some n \<Rightarrow> lookup n xs)"

text \<open>Opening a file for writing fails when its directory is missing or the name is a directory's.\<close>

fun write_file :: "fnode \<Rightarrow> string list \<Rightarrow> string \<Rightarrow> fnode option" where
  "write_file n [] c = None"
| "write_file (File s) (x # xs) c = None"
| "write_file (Dir es) [x] c =
     (case map_of es x of Some (Dir ds) \<Rightarrow> None | _ \<Rightarrow> Some (Dir (AList.update x (File c) es)))"
| "write_file (Dir es) (x # y # ys) c =
     (case map_of es x of None \<Rightarrow> None
      | Some n \<Rightarrow> map_option (\<lambda>n'. Dir (AList.update x n' es)) (write_file n (y # ys) c))"

text \<open>\<open>fs::remove\<close>: what is not there is no error, a directory that is not empty is.\<close>

fun remove_file :: "fnode \<Rightarrow> string list \<Rightarrow> fnode option" where
  "remove_file n [] = None"
| "remove_file (File s) (x # xs) = Some (File s)"
| "remove_file (Dir es) [x] =
     (case map_of es x of Some (Dir (d # ds)) \<Rightarrow> None | _ \<Rightarrow> Some (Dir (AList.delete x es)))"
| "remove_file (Dir es) (x # y # ys) =
     (case map_of es x of None \<Rightarrow> Some (Dir es)
      | Some n \<Rightarrow> map_option (\<lambda>n'. Dir (AList.update x n' es)) (remove_file n (y # ys)))"

fun create_directories :: "fnode \<Rightarrow> string list \<Rightarrow> fnode option" where
  "create_directories (File s) p = None"
| "create_directories (Dir es) [] = Some (Dir es)"
| "create_directories (Dir es) (x # xs) =
     map_option (\<lambda>n'. Dir (AList.update x n' es))
       (create_directories (case map_of es x of None \<Rightarrow> Dir [] | Some n \<Rightarrow> n) xs)"

section \<open>Canonical paths\<close>

lemma foldl_canonical_nonempty: "acc \<noteq> [] \<Longrightarrow> foldl canonical_step acc cs \<noteq> []"
proof (induction cs arbitrary: acc)
  case (Cons c cs)
  have "canonical_step acc c \<noteq> []"
    using Cons.prems by (cases acc rule: rev_cases) (auto simp: canonical_step_def)
  then show ?case by (simp add: Cons.IH)
qed simp

text \<open>The current directories are absolute paths.\<close>

definition cwd_ok :: "(string \<Rightarrow> string list) \<Rightarrow> bool" where
  "cwd_ok cwd \<longleftrightarrow> (\<forall>d. cwd d \<noteq> [] \<and> hd (cwd d) \<noteq> [])"

lemma absolute_path_ok: "cwd_ok cwd \<Longrightarrow> absolute_path cwd p \<noteq> [] \<and> hd (absolute_path cwd p) \<noteq> []"
  by (auto simp: absolute_path_def cwd_ok_def split: list.split)

lemma canonical_nonempty: "cwd_ok cwd \<Longrightarrow> canonical cwd p \<noteq> []"
  using absolute_path_ok [of cwd p]
  by (cases "absolute_path cwd p") (simp_all add: canonical_def foldl_canonical_nonempty)

lemma canonical_snoc:
  assumes "cwd_ok cwd" "p \<noteq> []" "c \<notin> {[], ''.'', ''..''}"
  shows "canonical cwd (p @ [c]) = canonical cwd p @ [c]"
proof -
  have "absolute_path cwd (p @ [c]) = absolute_path cwd p @ [c]"
    using assms(2,3) by (cases p) (auto simp: absolute_path_def hd_append)
  then show ?thesis
    using absolute_path_ok [OF assms(1), of p] assms(3)
    by (cases "absolute_path cwd p") (simp_all add: canonical_def canonical_step_def)
qed

lemma split_seps_nonempty [simp]: "split_seps s \<noteq> []"
  by (induction s) (auto split: list.splits)

definition inside :: "string list \<Rightarrow> string list \<Rightarrow> bool" where
  "inside dir p \<longleftrightarrow> take (length dir) p = dir"

section \<open>The tree\<close>

definition file_at :: "fnode \<Rightarrow> string list \<Rightarrow> string option" where
  "file_at root p = (case lookup root p of Some (File c) \<Rightarrow> Some c | _ \<Rightarrow> None)"

lemma file_at_simps [simp]:
  "file_at (Dir es) [] = None"
  "file_at (File s) (x # xs) = None"
  "file_at (Dir es) (x # xs) = (case map_of es x of None \<Rightarrow> None | Some n \<Rightarrow> file_at n xs)"
  by (simp_all add: file_at_def split: option.split)

lemma file_at_File: "file_at (File c) q = (if q = [] then Some c else None)"
  by (cases q) (simp_all add: file_at_def)

lemma file_at_write: "write_file r p c = Some r' \<Longrightarrow> file_at r' q = (if q = p then Some c else file_at r q)"
proof (induction r p c arbitrary: r' q rule: write_file.induct)
  case (3 es x c)
  then have r': "r' = Dir (AList.update x (File c) es)" "\<And>ds. map_of es x \<noteq> Some (Dir ds)"
    by (auto split: option.splits fnode.splits)
  show ?case
  proof (cases q)
    case (Cons y ys)
    then show ?thesis using r'
      by (cases "map_of es x"; cases "the (map_of es x)"; cases ys)
         (auto simp: update_conv' file_at_File split: option.splits)
  qed (simp add: r')
next
  case (4 es x y ys c)
  then obtain n n' where n: "map_of es x = Some n" "write_file n (y # ys) c = Some n'"
    "r' = Dir (AList.update x n' es)" by (auto split: option.splits)
  show ?case
  proof (cases q)
    case (Cons z zs)
    then show ?thesis using 4(1) [OF n(1,2)] n by (auto simp: update_conv')
  qed (simp add: n)
qed simp_all

lemma file_at_remove: "remove_file r p = Some r' \<Longrightarrow> file_at r' q = (if q = p then None else file_at r q)"
proof (induction r p arbitrary: r' q rule: remove_file.induct)
  case (2 s x xs)
  then show ?case by (auto simp: file_at_File)
next
  case (3 es x)
  then have r': "r' = Dir (AList.delete x es)" "\<And>d ds. map_of es x \<noteq> Some (Dir (d # ds))"
    by (auto split: option.splits fnode.splits list.splits)
  show ?case
  proof (cases q)
    case (Cons y ys)
    show ?thesis
    proof (cases "y = x")
      case True
      have "file_at n (z # zs) = None" if "map_of es x = Some n" for n z zs
      proof (cases n)
        case (Dir ds)
        then have "ds = []" using r'(2) that by (cases ds) auto
        then show ?thesis using Dir by simp
      qed simp
      then show ?thesis using Cons r'(1) True by (cases ys) (auto simp: delete_conv' split: option.splits)
    next
      case False
      then show ?thesis using Cons r'(1) by (auto simp: delete_conv')
    qed
  qed (simp add: r')
next
  case (4 es x y ys)
  show ?case
  proof (cases "map_of es x")
    case None
    then show ?thesis using 4 by (cases q) auto
  next
    case (Some n)
    then obtain n' where n': "remove_file n (y # ys) = Some n'" "r' = Dir (AList.update x n' es)" using 4 by auto
    show ?thesis
    proof (cases q)
      case (Cons z zs)
      then show ?thesis using 4(1) [OF Some n'(1)] n'(2) Some by (auto simp: update_conv')
    qed (simp add: n')
  qed
qed simp_all

lemma file_at_create: "create_directories r p = Some r' \<Longrightarrow> file_at r' q = file_at r q"
proof (induction r p arbitrary: r' q rule: create_directories.induct)
  case (3 es x xs)
  let ?n = "case map_of es x of None \<Rightarrow> Dir [] | Some n \<Rightarrow> n"
  from 3 obtain n' where n': "create_directories ?n xs = Some n'" "r' = Dir (AList.update x n' es)" by auto
  have "file_at (Dir []) zs = None" for zs by (cases zs) simp_all
  then show ?case
    using 3(1) [OF n'(1)] n'(2) by (cases q) (auto simp: update_conv' split: option.splits)
qed simp_all

section \<open>Trees without duplicates\<close>

fun tree_ok :: "fnode \<Rightarrow> bool" where
  "tree_ok (File s) \<longleftrightarrow> True"
| "tree_ok (Dir es) \<longleftrightarrow> distinct (map fst es) \<and> [] \<notin> fst ` set es \<and> (\<forall>e \<in> set es. tree_ok (snd e))"

lemma set_update: "set (AList.update k v es) \<subseteq> insert (k, v) (set es)"
  by (induction es) auto

lemma tree_ok_update: "tree_ok (Dir es) \<Longrightarrow> tree_ok n \<Longrightarrow> [] \<noteq> x \<Longrightarrow> tree_ok (Dir (AList.update x n es))"
  using set_update [of x n es] by (auto simp: distinct_update)

lemma tree_ok_child: "tree_ok (Dir es) \<Longrightarrow> map_of es x = Some n \<Longrightarrow> tree_ok n"
  by (auto dest!: map_of_SomeD)

lemma set_delete: "set (AList.delete k es) \<subseteq> set es"
  by (induction es) auto

lemma tree_ok_delete: "tree_ok (Dir es) \<Longrightarrow> tree_ok (Dir (AList.delete x es))"
  using set_delete [of x es] by (auto simp: distinct_delete)

lemma tree_ok_write: "write_file r p c = Some r' \<Longrightarrow> tree_ok r \<Longrightarrow> [] \<notin> set p \<Longrightarrow> tree_ok r'"
proof (induction r p c arbitrary: r' rule: write_file.induct)
  case (3 es x c)
  then show ?case using tree_ok_update [of es "File c" x] by (auto split: option.splits fnode.splits)
next
  case (4 es x y ys c)
  then obtain n n' where n: "map_of es x = Some n" "write_file n (y # ys) c = Some n'"
    "r' = Dir (AList.update x n' es)" by (auto split: option.splits)
  then show ?case using 4(1) [OF n(1,2) tree_ok_child [OF 4(3) n(1)]] tree_ok_update [OF 4(3), of n' x] 4(4) n(3) by simp
qed simp_all

lemma tree_ok_remove: "remove_file r p = Some r' \<Longrightarrow> tree_ok r \<Longrightarrow> [] \<notin> set p \<Longrightarrow> tree_ok r'"
proof (induction r p arbitrary: r' rule: remove_file.induct)
  case (3 es x)
  then show ?case using tree_ok_delete [of es x] by (auto split: option.splits fnode.splits list.splits)
next
  case (4 es x y ys)
  show ?case
  proof (cases "map_of es x")
    case None
    then show ?thesis using 4 by simp
  next
    case (Some n)
    then obtain n' where n: "remove_file n (y # ys) = Some n'" "r' = Dir (AList.update x n' es)" using 4 by auto
    then show ?thesis using 4(1) [OF Some n(1) tree_ok_child [OF 4(3) Some]] tree_ok_update [OF 4(3), of n' x] 4(4) n(2) by simp
  qed
qed simp_all

lemma tree_ok_create: "create_directories r p = Some r' \<Longrightarrow> tree_ok r \<Longrightarrow> [] \<notin> set p \<Longrightarrow> tree_ok r'"
proof (induction r p arbitrary: r' rule: create_directories.induct)
  case (3 es x xs)
  let ?n = "case map_of es x of None \<Rightarrow> Dir [] | Some n \<Rightarrow> n"
  from 3 obtain n' where n': "create_directories ?n xs = Some n'" "r' = Dir (AList.update x n' es)" by auto
  have "tree_ok ?n" using tree_ok_child [OF 3(3)] by (auto split: option.splits)
  then show ?case using 3(1) [OF n'(1)] tree_ok_update [OF 3(3), of n' x] 3(4) n'(2) by simp
qed simp_all

lemma canonical_no_empty: "cwd_ok cwd \<Longrightarrow> [] \<notin> set (canonical cwd p)"
proof -
  have "[] \<notin> set (foldl canonical_step acc cs)" if "[] \<notin> set acc" for acc cs
    using that
  proof (induction cs arbitrary: acc)
    case (Cons c cs)
    have "[] \<notin> set (canonical_step acc c)" using Cons.prems by (auto simp: canonical_step_def dest: in_set_butlastD)
    then show ?case using Cons.IH by simp
  qed simp
  then show "cwd_ok cwd \<Longrightarrow> [] \<notin> set (canonical cwd p)"
    using absolute_path_ok [of cwd p] by (cases "absolute_path cwd p") (simp_all add: canonical_def)
qed

lemma lookup_write:
  "write_file r (p @ [x]) c = Some r' \<Longrightarrow> lookup r p = Some (Dir es) \<Longrightarrow> lookup r' p = Some (Dir (AList.update x (File c) es))"
proof (induction p arbitrary: r r')
  case Nil
  then show ?case by (auto split: option.splits fnode.splits)
next
  case (Cons y ys)
  obtain fs where r: "r = Dir fs" using Cons.prems(2) by (cases r) auto
  obtain n where n: "map_of fs y = Some n" "lookup n ys = Some (Dir es)"
    using Cons.prems(2) r by (auto split: option.splits)
  obtain z zs where z: "ys @ [x] = z # zs" by (cases ys) auto
  obtain n' where n': "write_file n (ys @ [x]) c = Some n'" "r' = Dir (AList.update y n' fs)"
    using Cons.prems(1) r n(1) unfolding append_Cons z by auto
  show ?case using Cons.IH [OF n'(1) n(2)] n'(2) by (simp add: update_conv')
qed

lemma lookup_tree_ok: "lookup r p = Some n \<Longrightarrow> tree_ok r \<Longrightarrow> tree_ok n"
proof (induction r p rule: lookup.induct)
  case (3 es x xs)
  then show ?case using tree_ok_child by (auto split: option.splits)
qed simp_all

lemma lookup_create: "create_directories r p = Some r' \<Longrightarrow> \<exists>es. lookup r' p = Some (Dir es)"
proof (induction r p arbitrary: r' rule: create_directories.induct)
  case (3 es x xs)
  let ?n = "case map_of es x of None \<Rightarrow> Dir [] | Some n \<Rightarrow> n"
  from 3 obtain n' where n': "create_directories ?n xs = Some n'" "r' = Dir (AList.update x n' es)" by auto
  with 3(1) [OF n'(1)] show ?case by (simp add: update_conv')
qed simp_all

lemma write_file_exists:
  "lookup r p = Some (Dir es) \<Longrightarrow> \<forall>ds. map_of es x \<noteq> Some (Dir ds) \<Longrightarrow> \<exists>r'. write_file r (p @ [x]) c = Some r'"
proof (induction p arbitrary: r)
  case Nil
  then show ?case by (auto split: option.split fnode.split)
next
  case (Cons y ys)
  obtain fs where r: "r = Dir fs" using Cons.prems(1) by (cases r) auto
  obtain n where n: "map_of fs y = Some n" "lookup n ys = Some (Dir es)"
    using Cons.prems(1) r by (auto split: option.splits)
  obtain r' where r': "write_file n (ys @ [x]) c = Some r'" using Cons.IH [OF n(2) Cons.prems(2)] by auto
  obtain z zs where z: "ys @ [x] = z # zs" by (cases ys) auto
  show ?case using r' n(1) unfolding r append_Cons z by simp
qed

lemma file_at_lookup: "file_at r p = Some c \<Longrightarrow> lookup r p = Some (File c)"
  by (auto simp: file_at_def split: option.splits fnode.splits)

lemma lookup_snoc: "lookup r p = Some (Dir es) \<Longrightarrow> lookup r (p @ [x]) = map_of es x"
  by (induction r p rule: lookup.induct) (auto split: option.splits)

lemma split_seps_simple: "\<forall>c \<in> set f. \<not> is_sep c \<Longrightarrow> split_seps f = [f]"
  by (induction f) auto

section \<open>Directories\<close>

definition dir_at :: "fnode \<Rightarrow> string list \<Rightarrow> bool" where
  "dir_at root p \<longleftrightarrow> (case lookup root p of Some (Dir es) \<Rightarrow> True | _ \<Rightarrow> False)"

lemma dir_at_simps [simp]:
  "dir_at (Dir es) []"
  "\<not> dir_at (File s) p"
  "dir_at (Dir es) (x # xs) = (case map_of es x of None \<Rightarrow> False | Some n \<Rightarrow> dir_at n xs)"
  by (simp_all add: dir_at_def split: option.split) (cases p; simp)

lemma dir_not_file: "dir_at r p \<Longrightarrow> file_at r p = None"
  by (auto simp: dir_at_def file_at_def split: option.splits fnode.splits)

lemma dir_at_parent: "dir_at r (p @ q) \<Longrightarrow> dir_at r p"
proof (induction p arbitrary: r)
  case Nil
  then show ?case by (cases r) simp_all
next
  case (Cons x p)
  then show ?case by (cases r) (auto split: option.splits)
qed

lemma file_at_parent: "file_at r (p @ x # q) = Some c \<Longrightarrow> dir_at r p"
proof (induction p arbitrary: r)
  case Nil
  then show ?case by (cases r) simp_all
next
  case (Cons y p)
  then show ?case by (cases r) (auto split: option.splits)
qed

lemma create_possible:
  "(\<And>a b. p = a @ b \<Longrightarrow> file_at r a = None) \<Longrightarrow> \<exists>r'. create_directories r p = Some r'"
proof (induction r p rule: create_directories.induct)
  case (1 s p)
  from 1 [of "[]" p] show ?case by (simp add: file_at_File)
next
  case (3 es x xs)
  let ?n = "case map_of es x of None \<Rightarrow> Dir [] | Some n \<Rightarrow> n"
  have "file_at ?n a = None" if "xs = a @ b" for a b
  proof (cases "map_of es x")
    case None
    then show ?thesis by (cases a) simp_all
  next
    case (Some n)
    then show ?thesis using 3(2) [of "x # a" b] that by simp
  qed
  then obtain n' where "create_directories ?n xs = Some n'" using 3(1) by blast
  then show ?case by simp
qed simp

lemma dir_at_create:
  "create_directories r p = Some r' \<Longrightarrow> dir_at r' q \<longleftrightarrow> dir_at r q \<or> (\<exists>b. p = q @ b)"
proof (induction r p arbitrary: r' q rule: create_directories.induct)
  case (3 es x xs)
  let ?n = "case map_of es x of None \<Rightarrow> Dir [] | Some n \<Rightarrow> n"
  from 3 obtain n' where n': "create_directories ?n xs = Some n'" "r' = Dir (AList.update x n' es)" by auto
  show ?case
  proof (cases q)
    case (Cons y ys)
    have "dir_at (Dir []) ys \<longleftrightarrow> ys = []" by (cases ys) simp_all
    then show ?thesis using 3(1) [OF n'(1), of ys] n'(2) Cons
      by (cases "map_of es x") (auto simp: update_conv')
  qed (simp add: n')
qed auto

lemma dir_at_write: "write_file r p c = Some r' \<Longrightarrow> dir_at r' q \<longleftrightarrow> dir_at r q"
proof (induction r p c arbitrary: r' q rule: write_file.induct)
  case (3 es x c)
  then have r': "r' = Dir (AList.update x (File c) es)" "\<And>ds. map_of es x \<noteq> Some (Dir ds)"
    by (auto split: option.splits fnode.splits)
  show ?case
  proof (cases q)
    case (Cons y ys)
    have "\<not> dir_at n ys" if "map_of es x = Some n" for n using r'(2) that by (cases n) auto
    then show ?thesis using r'(1) Cons by (auto simp: update_conv' split: option.splits)
  qed (simp add: r')
next
  case (4 es x y ys c)
  then obtain n n' where n: "map_of es x = Some n" "write_file n (y # ys) c = Some n'"
    "r' = Dir (AList.update x n' es)" by (auto split: option.splits)
  show ?case
  proof (cases q)
    case (Cons z zs)
    then show ?thesis using 4(1) [OF n(1,2)] n by (auto simp: update_conv')
  qed (simp add: n)
qed simp_all

lemma write_possible:
  assumes "dir_at r p" "\<not> dir_at r (p @ [x])"
  shows "\<exists>r'. write_file r (p @ [x]) c = Some r'"
proof -
  obtain es where es: "lookup r p = Some (Dir es)" using assms(1) by (auto simp: dir_at_def split: option.splits fnode.splits)
  have "\<forall>ds. map_of es x \<noteq> Some (Dir ds)" using assms(2) lookup_snoc [OF es, of x] by (auto simp: dir_at_def)
  then show ?thesis by (rule write_file_exists [OF es])
qed

end
