(* ===== verification/SaveFiles.thy ===== *)
theory SaveFiles
  imports FileTree ScriptJson
begin

text \<open>
  The save files of mods, \<open>src/modsystem/modsavefiles.cpp\<close>: script functions that check a path and
  the room there is, and queue work for threads that write, read and delete files.
\<close>

section \<open>Sizes\<close>

text \<open>
  The environment: what \<open>fs::file_size\<close> gives for a directory, which is implementation-defined (it
  throws, or gives some number), the folder of the saves, the limit, whether resolving a path fails,
  and the current directories.
\<close>

record save_env =
  dir_file_size :: "nat option"
  savePath :: "string list"
  MAX_FOLDER_SIZE :: int
  canonical_throws :: "string list \<Rightarrow> bool"
  cwd :: "string \<Rightarrow> string list"

fun GetSizeOfFolderContentsMinusFile :: "save_env \<Rightarrow> string \<Rightarrow> (string \<times> fnode) list \<Rightarrow> nat" where
  "GetSizeOfFolderContentsMinusFile env file [] = 0"
| "GetSizeOfFolderContentsMinusFile env file ((n, File s) # es) =
     (if n = file then 0 else length s) + GetSizeOfFolderContentsMinusFile env file es"
| "GetSizeOfFolderContentsMinusFile env file ((n, Dir ds) # es) =
     (if n = file then 0
      else case dir_file_size env of Some k \<Rightarrow> k | None \<Rightarrow> GetSizeOfFolderContentsMinusFile env [] ds) +
     GetSizeOfFolderContentsMinusFile env file es"

fun GetSizeOfFolder :: "save_env \<Rightarrow> (string \<times> fnode) list \<Rightarrow> nat" where
  "GetSizeOfFolder env [] = 0"
| "GetSizeOfFolder env ((n, File s) # es) = length s + GetSizeOfFolder env es"
| "GetSizeOfFolder env ((n, Dir ds) # es) =
     (case dir_file_size env of Some k \<Rightarrow> k | None \<Rightarrow> GetSizeOfFolderContentsMinusFile env [] ds) +
     GetSizeOfFolder env es"

text \<open>The limit, an \<open>int\<close>, is compared as an unsigned 64-bit number.\<close>

definition over_limit :: "save_env \<Rightarrow> nat \<Rightarrow> bool" where
  "over_limit env n \<longleftrightarrow> int n > as_size (MAX_FOLDER_SIZE env)"

section \<open>The work of the threads\<close>

datatype save_job =
    SaveJob "string list" string
  | LoadJob "string list" int
  | DeleteJob "string list"

text \<open>The last field holds the calls made back to scripts: the handle, whether it worked, the text.\<close>

record save_state =
  fs_root :: fnode
  pending :: "save_job list"
  m_iLastRequestHandle :: int
  NSHandleLoadResult :: "(int \<times> bool \<times> string) list"

definition whitelist :: "string list" where
  "whitelist = [''.txt'', ''.json'']"

definition extension :: "string list \<Rightarrow> string" where
  "extension file = (if file = [] then [] else path_extension (last file))"

definition write_thread :: "save_env \<Rightarrow> string list \<Rightarrow> string \<Rightarrow> save_state \<Rightarrow> save_state" where
  "write_thread env file contents st =
     (if extension file = [] then st
      else if extension file \<notin> set whitelist then st
      else case lookup (fs_root st) (canonical (cwd env) (butlast file)) of
        Some (Dir es) \<Rightarrow>
          (if over_limit env (GetSizeOfFolderContentsMinusFile env (last file) es + length contents) then st
           else case write_file (fs_root st) (canonical (cwd env) file) (to_crlf contents) of
             None \<Rightarrow> st
           | Some r \<Rightarrow> st\<lparr>fs_root := r\<rparr>)
      | _ \<Rightarrow> st)"

definition read_thread :: "save_env \<Rightarrow> string list \<Rightarrow> int \<Rightarrow> save_state \<Rightarrow> save_state" where
  "read_thread env file handle st =
     (case lookup (fs_root st) (canonical (cwd env) file) of
        Some (File c) \<Rightarrow> st\<lparr>NSHandleLoadResult := NSHandleLoadResult st @ [(handle, True, text_mode c)]\<rparr>
      | _ \<Rightarrow> st\<lparr>NSHandleLoadResult := NSHandleLoadResult st @ [(handle, False, [])]\<rparr>)"

definition delete_thread :: "save_env \<Rightarrow> string list \<Rightarrow> save_state \<Rightarrow> save_state" where
  "delete_thread env file st =
     (case remove_file (fs_root st) (canonical (cwd env) file) of None \<Rightarrow> st | Some r \<Rightarrow> st\<lparr>fs_root := r\<rparr>)"

fun run_job :: "save_env \<Rightarrow> save_job \<Rightarrow> save_state \<Rightarrow> save_state" where
  "run_job env (SaveJob file contents) st = write_thread env file contents st"
| "run_job env (LoadJob file handle) st = read_thread env file handle st"
| "run_job env (DeleteJob file) st = delete_thread env file st"

definition SaveFileAsync :: "string list \<Rightarrow> string \<Rightarrow> save_state \<Rightarrow> save_state" where
  "SaveFileAsync file contents st = st\<lparr>pending := pending st @ [SaveJob file contents]\<rparr>"

definition LoadFileAsync :: "string list \<Rightarrow> save_state \<Rightarrow> int \<times> save_state" where
  "LoadFileAsync file st =
     (let handle = int32 (m_iLastRequestHandle st + 1)
      in (handle, st\<lparr>m_iLastRequestHandle := handle, pending := pending st @ [LoadJob file handle]\<rparr>))"

definition DeleteFileAsync :: "string list \<Rightarrow> save_state \<Rightarrow> save_state" where
  "DeleteFileAsync file st = st\<lparr>pending := pending st @ [DeleteJob file]\<rparr>"

section \<open>Checks\<close>

definition ContainsInvalidChars :: "string \<Rightarrow> bool" where
  "ContainsInvalidChars str \<longleftrightarrow> (\<exists>c \<in> set str. c = NUL)"

text \<open>\<open>std::search\<close>: where the pattern occurs first, or the end.\<close>

fun std_search :: "string list \<Rightarrow> string list \<Rightarrow> nat" where
  "std_search [] pat = 0"
| "std_search (x # xs) pat = (if take (length pat) (x # xs) = pat then 0 else 1 + std_search xs pat)"

definition IsPathSafe :: "save_env \<Rightarrow> string \<Rightarrow> string list \<Rightarrow> bool" where
  "IsPathSafe env param dir \<longleftrightarrow>
     (if canonical_throws env dir \<or> canonical_throws env (path_join dir param) then False
      else std_search (canonical (cwd env) (path_join dir param)) (canonical (cwd env) dir) = 0 \<and>
        \<not> (\<exists>c \<in> set param. (of_char c :: nat) > 127))"

section \<open>Script functions\<close>

text \<open>What the engine knows of the calling mod, and what a function returns.\<close>

record save_mod =
  m_ModDirectory :: string
  mod_Name :: string

datatype save_ret = Raised string | RetNull | RetVoid | RetInt int | RetBool bool | RetArray "string list"

definition mod_dir :: "save_env \<Rightarrow> save_mod \<Rightarrow> string list" where
  "mod_dir env caller = savePath env @ [path_filename (m_ModDirectory caller)]"

definition no_mod_error :: string where
  "no_mod_error = ''Has to be called from a mod function!''"

definition name_error :: "string \<Rightarrow> string" where
  "name_error fileName = ''File name invalid ('' @ fileName @
     '')! Make sure it does not contain any non-ASCII character, and results in a path inside your mod's save folder.''"

definition content_error :: string where
  "content_error = ''File contents may not contain NUL/'' @ CHR 0x5C # ''0 characters! Make sure your strings are valid!''"

definition limit_error :: "save_mod \<Rightarrow> string" where
  "limit_error caller = ''The mod '' @ mod_Name caller @ '' has reached the maximum folder size.'' @ [LF, LF] @
     ''Ask the mod developer to optimize their data usage,or increase the maximum folder size using the -maxfoldersize launch parameter.''"

text \<open>The part \<open>NSSaveFile\<close> and \<open>NSSaveJSONFile\<close> share. \<open>create_directories\<close> may throw.\<close>

definition save_checked :: "save_env \<Rightarrow> save_mod \<Rightarrow> string \<Rightarrow> string \<Rightarrow> save_state \<Rightarrow> (save_ret \<times> save_state) outcome" where
  "save_checked env caller fileName content st =
     (let dir = mod_dir env caller in
      if ContainsInvalidChars content then Ret (Raised content_error, st)
      else case create_directories (fs_root st) (canonical (cwd env) dir) of
        None \<Rightarrow> Throw filesystem_error
      | Some root \<Rightarrow>
          let st = st\<lparr>fs_root := root\<rparr> in
          (case lookup root (canonical (cwd env) dir) of
             Some (Dir es) \<Rightarrow>
               if over_limit env (GetSizeOfFolderContentsMinusFile env fileName es + length content)
               then Ret (Raised (limit_error caller), st)
               else Ret (RetNull, SaveFileAsync (path_join dir fileName) content st)
           | _ \<Rightarrow> Throw filesystem_error))"

definition NSSaveFile :: "save_env \<Rightarrow> save_mod option \<Rightarrow> string \<Rightarrow> string \<Rightarrow> save_state \<Rightarrow> (save_ret \<times> save_state) outcome" where
  "NSSaveFile env caller fileName content st =
     (case caller of
        None \<Rightarrow> Ret (Raised no_mod_error, st)
      | Some m \<Rightarrow>
          if \<not> IsPathSafe env fileName (mod_dir env m) then Ret (Raised (name_error fileName), st)
          else save_checked env m fileName content st)"

text \<open>\<open>NSSaveJSONFile\<close> encodes a table first; \<open>Write\<close> is the writer of rapidjson.\<close>

definition NSSaveJSONFile ::
    "('f, 'd) jsonnum \<Rightarrow> ('d json \<Rightarrow> string) \<Rightarrow> save_env \<Rightarrow> save_mod option \<Rightarrow> string \<Rightarrow> ('f sqobj \<times> 'f sqobj) list \<Rightarrow>
     save_state \<Rightarrow> (save_ret \<times> save_state) outcome" where
  "NSSaveJSONFile jn Write env caller fileName table st =
     (case caller of
        None \<Rightarrow> Ret (Raised no_mod_error, st)
      | Some m \<Rightarrow>
          if \<not> IsPathSafe env fileName (mod_dir env m) then Ret (Raised (name_error fileName), st)
          else save_checked env m fileName (takeWhile (\<lambda>c. c \<noteq> NUL) (EncodeJSON jn Write table)) st)"

definition NS_InternalLoadFile :: "save_env \<Rightarrow> save_mod option \<Rightarrow> string \<Rightarrow> save_state \<Rightarrow> (save_ret \<times> save_state) outcome" where
  "NS_InternalLoadFile env caller fileName st =
     (case caller of
        None \<Rightarrow> Ret (Raised no_mod_error, st)
      | Some m \<Rightarrow>
          if \<not> IsPathSafe env fileName (mod_dir env m) then Ret (Raised (name_error fileName), st)
          else let (handle, st) = LoadFileAsync (path_join (mod_dir env m) fileName) st in Ret (RetInt handle, st))"

text \<open>The functions below do not ask whether there is a calling mod.\<close>

definition NSDoesFileExist :: "save_env \<Rightarrow> save_mod option \<Rightarrow> string \<Rightarrow> save_state \<Rightarrow> (save_ret \<times> save_state) outcome" where
  "NSDoesFileExist env caller fileName st =
     (case caller of
        None \<Rightarrow> Undefined
      | Some m \<Rightarrow>
          if \<not> IsPathSafe env fileName (mod_dir env m) then Ret (Raised (name_error fileName), st)
          else Ret (RetBool (lookup (fs_root st) (canonical (cwd env) (path_join (mod_dir env m) fileName)) \<noteq> None), st))"

text \<open>\<open>what\<close> is the text of the exception.\<close>

definition NSGetFileSize :: "save_env \<Rightarrow> string \<Rightarrow> save_mod option \<Rightarrow> string \<Rightarrow> save_state \<Rightarrow> (save_ret \<times> save_state) outcome" where
  "NSGetFileSize env what caller fileName st =
     (case caller of
        None \<Rightarrow> Undefined
      | Some m \<Rightarrow>
          if \<not> IsPathSafe env fileName (mod_dir env m) then Ret (Raised (name_error fileName), st)
          else
            let to_int = (\<lambda>n. sint (of_nat (n div 1024) :: u32)) in
            (case lookup (fs_root st) (canonical (cwd env) (path_join (mod_dir env m) fileName)) of
               Some (File c) \<Rightarrow> Ret (RetInt (to_int (length c)), st)
             | Some (Dir es) \<Rightarrow> (case dir_file_size env of Some k \<Rightarrow> Ret (RetInt (to_int k), st) | None \<Rightarrow> Ret (Raised what, st))
             | None \<Rightarrow> Ret (Raised what, st)))"

definition NSDeleteFile :: "save_env \<Rightarrow> save_mod option \<Rightarrow> string \<Rightarrow> save_state \<Rightarrow> (save_ret \<times> save_state) outcome" where
  "NSDeleteFile env caller fileName st =
     (case caller of
        None \<Rightarrow> Undefined
      | Some m \<Rightarrow>
          if \<not> IsPathSafe env fileName (mod_dir env m) then Ret (Raised (name_error fileName), st)
          else Ret (RetVoid, DeleteFileAsync (path_join (mod_dir env m) fileName) st))"

definition folder_arg :: "string list \<Rightarrow> string \<Rightarrow> string list" where
  "folder_arg dir pathStr = (if pathStr \<noteq> [] then path_join dir pathStr else dir)"

definition NS_InternalGetAllFiles :: "save_env \<Rightarrow> string \<Rightarrow> save_mod option \<Rightarrow> string \<Rightarrow> save_state \<Rightarrow> (save_ret \<times> save_state) outcome" where
  "NS_InternalGetAllFiles env what caller pathStr st =
     (case caller of
        None \<Rightarrow> Undefined
      | Some m \<Rightarrow>
          if \<not> IsPathSafe env pathStr (mod_dir env m) then Ret (Raised (name_error pathStr), st)
          else (case lookup (fs_root st) (canonical (cwd env) (folder_arg (mod_dir env m) pathStr)) of
                  Some (Dir es) \<Rightarrow> Ret (RetArray (map fst es), st)
                | _ \<Rightarrow> Ret (Raised what, st)))"

definition NSIsFolder :: "save_env \<Rightarrow> save_mod option \<Rightarrow> string \<Rightarrow> save_state \<Rightarrow> (save_ret \<times> save_state) outcome" where
  "NSIsFolder env caller pathStr st =
     (case caller of
        None \<Rightarrow> Undefined
      | Some m \<Rightarrow>
          if \<not> IsPathSafe env pathStr (mod_dir env m) then Ret (Raised (name_error pathStr), st)
          else Ret (RetBool (case lookup (fs_root st) (canonical (cwd env) (folder_arg (mod_dir env m) pathStr)) of
                  Some (Dir es) \<Rightarrow> True | _ \<Rightarrow> False), st))"

text \<open>The difference is taken in unsigned 64-bit arithmetic.\<close>

definition NSGetTotalSpaceRemaining :: "save_env \<Rightarrow> save_mod option \<Rightarrow> save_state \<Rightarrow> (save_ret \<times> save_state) outcome" where
  "NSGetTotalSpaceRemaining env caller st =
     (case caller of
        None \<Rightarrow> Undefined
      | Some m \<Rightarrow>
          (case lookup (fs_root st) (canonical (cwd env) (mod_dir env m)) of
             Some (Dir es) \<Rightarrow>
               let room = (word_of_int (MAX_FOLDER_SIZE env) - of_nat (GetSizeOfFolder env es) :: u64) div 1024
               in Ret (RetInt (sint (ucast room :: u32)), st)
           | _ \<Rightarrow> Throw filesystem_error))"

definition GetMaxSaveFolderSize :: "save_env \<Rightarrow> int" where
  "GetMaxSaveFolderSize env = MAX_FOLDER_SIZE env"

section \<open>Steps\<close>

text \<open>
  A script of one of \<open>mods\<close> calls a function, or one of the waiting threads takes the mutex and does
  its work; which one does is not determined. A call that throws or is undefined is not a step. The functions
  left out do not change the state, and saving JSON is saving its text.
\<close>

datatype save_call =
    CallSave string string
  | CallLoad string
  | CallDelete string

fun do_call :: "save_env \<Rightarrow> save_mod option \<Rightarrow> save_call \<Rightarrow> save_state \<Rightarrow> (save_ret \<times> save_state) outcome" where
  "do_call env caller (CallSave fileName content) st = NSSaveFile env caller fileName content st"
| "do_call env caller (CallLoad fileName) st = NS_InternalLoadFile env caller fileName st"
| "do_call env caller (CallDelete fileName) st = NSDeleteFile env caller fileName st"

inductive save_step :: "save_env \<Rightarrow> save_mod list \<Rightarrow> save_state \<Rightarrow> save_state \<Rightarrow> bool" for env mods where
  call: "do_call env (Some caller) c st = Ret (r, st') \<Longrightarrow> caller \<in> set mods \<Longrightarrow> save_step env mods st st'"
| thread: "pending st = before @ job # after \<Longrightarrow>
    save_step env mods st (run_job env job (st\<lparr>pending := before @ after\<rparr>))"

inductive_cases save_stepE: "save_step env mods st st'"

end
