(* ===== verification/SaveFilesSpec.thy ===== *)
theory SaveFilesSpec
  imports SaveFiles
begin

text \<open>
  What the save files of mods guarantee, whatever order the threads run in: files outside the save
  folder are not touched, only text and JSON files are written, folders stay near their limit, and
  what is saved is loaded again.
\<close>

lemma std_search_0: "std_search xs pat = 0 \<Longrightarrow> xs \<noteq> [] \<Longrightarrow> take (length pat) xs = pat"
  by (cases xs) (simp_all split: if_splits)

lemma safe_inside:
  assumes "cwd_ok (cwd env)" "IsPathSafe env param dir"
  shows "inside (canonical (cwd env) dir) (canonical (cwd env) (path_join dir param))"
  using assms(2) std_search_0 canonical_nonempty [OF assms(1)]
  by (auto simp: IsPathSafe_def inside_def split: if_splits)

section \<open>Sizes of folders\<close>

lemma sizes_agree: "[] \<notin> fst ` set es \<Longrightarrow> GetSizeOfFolder env es = GetSizeOfFolderContentsMinusFile env [] es"
  by (induction env es rule: GetSizeOfFolder.induct) auto

lemma minus_absent: "x \<notin> fst ` set es \<Longrightarrow> GetSizeOfFolderContentsMinusFile env x es = GetSizeOfFolder env es"
  by (induction env es rule: GetSizeOfFolder.induct) auto

text \<open>Writing a file adds its size to that of the others.\<close>

lemma size_after_write:
  "distinct (map fst es) \<Longrightarrow>
   GetSizeOfFolder env (AList.update x (File c) es) = GetSizeOfFolderContentsMinusFile env x es + length c"
proof (induction env es rule: GetSizeOfFolder.induct)
  case (2 env n s es)
  then show ?case using minus_absent [of x es env] by auto
next
  case (3 env n ds es)
  then show ?case using minus_absent [of x es env] by (auto split: option.splits)
qed simp

section \<open>What a step keeps\<close>

lemma whitelisted_name:
  assumes "extension file \<in> set whitelist"
  shows "file = butlast file @ [last file]" "last file \<notin> {[], ''.'', ''..''}"
proof -
  have ne: "extension file \<noteq> []" using assms by (auto simp: whitelist_def)
  then show "file = butlast file @ [last file]" by (auto simp: extension_def split: if_splits)
  have none: "path_extension [] = []" "path_extension ''.'' = []" "path_extension ''..'' = []"
    by (simp_all add: path_extension_def path_filename_def is_sep_def)
  show "last file \<notin> {[], ''.'', ''..''}"
  proof
    assume "last file \<in> {[], ''.'', ''..''}"
    then have "path_extension (last file) = []" using none by (elim insertE) simp_all
    then show False using ne by (simp add: extension_def split: if_splits)
  qed
qed

lemma canonical_file:
  assumes "extension file \<in> set whitelist" "butlast file \<noteq> []" "cwd_ok (cwd env)"
  shows "canonical (cwd env) file = canonical (cwd env) (butlast file) @ [last file]"
  using whitelisted_name [OF assms(1)] canonical_snoc [OF assms(3,2)] by metis

text \<open>The paths of the work waiting, and what can have happened to the files.\<close>

fun job_path :: "save_job \<Rightarrow> string list" where
  "job_path (SaveJob file contents) = file"
| "job_path (LoadJob file handle) = file"
| "job_path (DeleteJob file) = file"

definition in_folder :: "save_env \<Rightarrow> save_mod list \<Rightarrow> string list \<Rightarrow> bool" where
  "in_folder env mods p \<longleftrightarrow> (\<exists>m \<in> set mods. inside (canonical (cwd env) (mod_dir env m)) p)"

definition job_ok :: "save_env \<Rightarrow> save_mod list \<Rightarrow> save_job \<Rightarrow> bool" where
  "job_ok env mods job \<longleftrightarrow> in_folder env mods (canonical (cwd env) (job_path job)) \<and> 2 \<le> length (job_path job)"

definition files_kept :: "save_env \<Rightarrow> save_mod list \<Rightarrow> fnode \<Rightarrow> fnode \<Rightarrow> bool" where
  "files_kept env mods root root' \<longleftrightarrow>
     (\<forall>q. \<not> in_folder env mods q \<longrightarrow> file_at root' q = file_at root q) \<and>
     (\<forall>q c. extension q \<notin> set whitelist \<and> file_at root' q = Some c \<longrightarrow> file_at root q = Some c)"

lemma files_kept_refl [simp]: "files_kept env mods root root"
  by (simp add: files_kept_def)

lemma files_kept_trans: "files_kept env mods r1 r2 \<Longrightarrow> files_kept env mods r2 r3 \<Longrightarrow> files_kept env mods r1 r3"
  unfolding files_kept_def by metis

lemma files_kept_same: "(\<And>q. file_at r' q = file_at r q) \<Longrightarrow> files_kept env mods r r'"
  by (simp add: files_kept_def)

lemma write_thread_kept:
  assumes "cwd_ok (cwd env)" "job_ok env mods (SaveJob file contents)" "tree_ok (fs_root st)"
  shows "files_kept env mods (fs_root st) (fs_root (write_thread env file contents st)) \<and>
     tree_ok (fs_root (write_thread env file contents st))"
proof (cases "fs_root (write_thread env file contents st) = fs_root st")
  case True
  then show ?thesis using assms(3) by simp
next
  case False
  then obtain r where r: "extension file \<in> set whitelist" "write_file (fs_root st) (canonical (cwd env) file) (to_crlf contents) = Some r"
    "fs_root (write_thread env file contents st) = r"
    by (auto simp: write_thread_def split: if_splits option.splits fnode.splits)
  have two: "2 \<le> length file" and ins: "in_folder env mods (canonical (cwd env) file)"
    using assms(2) by (simp_all add: job_ok_def)
  then have "butlast file \<noteq> []" by (cases "file" rule: rev_cases) auto
  from canonical_file [OF r(1) this assms(1)] have "extension (canonical (cwd env) file) = extension file"
    using two by (auto simp: extension_def)
  then have "extension (canonical (cwd env) file) \<in> set whitelist" using r(1) by simp
  then have "files_kept env mods (fs_root st) r"
    using file_at_write [OF r(2)] ins by (auto simp: files_kept_def split: if_splits)
  then show ?thesis using r(3) tree_ok_write [OF r(2) assms(3) canonical_no_empty [OF assms(1)]] by simp
qed

lemma delete_thread_kept:
  assumes "cwd_ok (cwd env)" "job_ok env mods (DeleteJob file)" "tree_ok (fs_root st)"
  shows "files_kept env mods (fs_root st) (fs_root (delete_thread env file st)) \<and> tree_ok (fs_root (delete_thread env file st))"
proof (cases "remove_file (fs_root st) (canonical (cwd env) file)")
  case None
  then show ?thesis using assms(3) by (simp add: delete_thread_def)
next
  case (Some r)
  have "in_folder env mods (canonical (cwd env) file)" using assms(2) by (simp add: job_ok_def)
  then show ?thesis
    using file_at_remove [OF Some] tree_ok_remove [OF Some assms(3) canonical_no_empty [OF assms(1)]] Some
    by (auto simp: delete_thread_def files_kept_def split: if_splits)
qed

lemma run_job_kept:
  assumes "cwd_ok (cwd env)" "job_ok env mods job" "tree_ok (fs_root st)"
  shows "files_kept env mods (fs_root st) (fs_root (run_job env job st)) \<and> tree_ok (fs_root (run_job env job st))"
proof (cases job)
  case (LoadJob path h)
  then have "fs_root (run_job env job st) = fs_root st"
    by (simp add: read_thread_def split: option.split fnode.split)
  then show ?thesis using assms(3) by simp
qed (use assms write_thread_kept delete_thread_kept in auto)

lemma run_job_pending [simp]: "pending (run_job env job st) = pending st"
  by (cases job) (auto simp: write_thread_def read_thread_def delete_thread_def split: option.splits fnode.splits)

lemma path_join_ok: "savePath env \<noteq> [] \<Longrightarrow> 2 \<le> length (path_join (mod_dir env m) p)"
proof -
  assume s: "savePath env \<noteq> []"
  have len: "Suc 0 \<le> length (split_seps r)" for r using split_seps_nonempty [of r] by (cases "split_seps r") auto
  then have "Suc 0 \<le> n + length (split_seps r)" for n r by (rule trans_le_add2)
  with len show ?thesis using s by (cases "split_drive p") (auto simp: path_join_def mod_dir_def)
qed

definition save_inv :: "save_env \<Rightarrow> save_mod list \<Rightarrow> fnode \<Rightarrow> save_state \<Rightarrow> bool" where
  "save_inv env mods root0 st \<longleftrightarrow> files_kept env mods root0 (fs_root st) \<and> tree_ok (fs_root st) \<and> (\<forall>job \<in> set (pending st). job_ok env mods job)"

lemma call_inv:
  assumes "cwd_ok (cwd env)" "savePath env \<noteq> []" "m \<in> set mods" "save_inv env mods root0 st"
    and "do_call env (Some m) c st = Ret (r, st')"
  shows "save_inv env mods root0 st'"
proof -
  have job: "job_ok env mods job" if "IsPathSafe env f (mod_dir env m)" "job_path job = path_join (mod_dir env m) f" for f job
    using safe_inside [OF assms(1) that(1)] path_join_ok [OF assms(2)] that(2) assms(3)
    by (auto simp: job_ok_def in_folder_def)
  show ?thesis
  proof (cases c)
    case (CallSave f content)
    show ?thesis
    proof (cases "IsPathSafe env f (mod_dir env m) \<and> \<not> ContainsInvalidChars content")
      case True
      then obtain root where root: "create_directories (fs_root st) (canonical (cwd env) (mod_dir env m)) = Some root"
        using assms(5) CallSave by (auto simp: NSSaveFile_def save_checked_def Let_def split: option.splits)
      have "[] \<notin> set (canonical (cwd env) (mod_dir env m))" by (rule canonical_no_empty [OF assms(1)])
      then have t: "tree_ok root" "files_kept env mods root0 root"
        using tree_ok_create [OF root] file_at_create [OF root] files_kept_same files_kept_trans assms(4)
        unfolding save_inv_def by blast+
      moreover have "fs_root st' = root" "set (pending st') \<subseteq> insert (SaveJob (path_join (mod_dir env m) f) content) (set (pending st))"
        using assms(5) CallSave True root
        by (auto simp: NSSaveFile_def save_checked_def SaveFileAsync_def Let_def split: option.splits fnode.splits if_splits)
      ultimately show ?thesis
        using assms(4) job [of f "SaveJob (path_join (mod_dir env m) f) content"] True unfolding save_inv_def by auto
    next
      case False
      then have "st' = st" using assms(5) CallSave by (auto simp: NSSaveFile_def save_checked_def Let_def split: if_splits)
      then show ?thesis using assms(4) by simp
    qed
  next
    case (CallLoad f)
    then have "st' = st \<or> IsPathSafe env f (mod_dir env m) \<and> fs_root st' = fs_root st \<and>
        (\<exists>h. pending st' = pending st @ [LoadJob (path_join (mod_dir env m) f) h])"
      using assms(5) by (auto simp: NS_InternalLoadFile_def LoadFileAsync_def Let_def split: if_splits)
    then show ?thesis using assms(4) job [of f] by (auto simp: save_inv_def)
  next
    case (CallDelete f)
    then have "st' = st \<or> IsPathSafe env f (mod_dir env m) \<and> fs_root st' = fs_root st \<and>
        pending st' = pending st @ [DeleteJob (path_join (mod_dir env m) f)]"
      using assms(5) by (auto simp: NSDeleteFile_def DeleteFileAsync_def split: if_splits)
    then show ?thesis using assms(4) job [of f] by (auto simp: save_inv_def)
  qed
qed

lemma thread_inv:
  assumes "cwd_ok (cwd env)" "save_inv env mods root0 st" "pending st = before @ job # after"
  shows "save_inv env mods root0 (run_job env job (st\<lparr>pending := before @ after\<rparr>))"
proof -
  have j: "job_ok env mods job" using assms by (auto simp: save_inv_def)
  have t: "tree_ok (fs_root (st\<lparr>pending := before @ after\<rparr>))" using assms(2) by (simp add: save_inv_def)
  show ?thesis using run_job_kept [OF assms(1) j t] assms files_kept_trans unfolding save_inv_def by auto
qed

lemma save_reach_inv:
  assumes "(save_step env mods)\<^sup>*\<^sup>* st0 st" "cwd_ok (cwd env)" "savePath env \<noteq> []" "save_inv env mods root0 st0"
  shows "save_inv env mods root0 st"
  using assms(1)
proof (induction rule: rtranclp_induct)
  case (step st st')
  from step.hyps(2) step.IH show ?case
    by (elim save_stepE) (blast intro: call_inv [OF assms(2,3)] thread_inv [OF assms(2)])+
qed (rule assms(4))

section \<open>Properties\<close>

text \<open>
  C13: Whatever the scripts of some mods ask and in whatever order the threads run, starting with no
  work waiting: the files outside the save folders of these mods keep their contents, and a file
  whose extension is not that of text or JSON is never created or changed, only deleted.
\<close>

theorem saves_confined:
  assumes "(save_step env mods)\<^sup>*\<^sup>* st0 st" "cwd_ok (cwd env)" "savePath env \<noteq> []"
    and "pending st0 = []" "tree_ok (fs_root st0)"
  shows "(\<not> in_folder env mods q \<longrightarrow> file_at (fs_root st) q = file_at (fs_root st0) q) \<and>
    (extension q \<notin> set whitelist \<and> file_at (fs_root st) q = Some c \<longrightarrow> file_at (fs_root st0) q = Some c)"
proof -
  have "save_inv env mods (fs_root st0) st0" using assms(4,5) by (simp add: save_inv_def)
  from save_reach_inv [OF assms(1-3) this] have "files_kept env mods (fs_root st0) (fs_root st)"
    by (simp add: save_inv_def)
  then show ?thesis unfolding files_kept_def by blast
qed

definition ex_env :: save_env where
  "ex_env = \<lparr>dir_file_size = None, savePath = [[], ''saves''], MAX_FOLDER_SIZE = 100,
     canonical_throws = (\<lambda>p. False), cwd = (\<lambda>d. [if d = [] then ''C:'' else d])\<rparr>"

definition ex_mod :: save_mod where
  "ex_mod = \<lparr>m_ModDirectory = ''mods/m'', mod_Name = ''M''\<rparr>"

definition ex_state :: save_state where
  "ex_state = \<lparr>fs_root = Dir [(''C:'', Dir [(''x.txt'', File ''keep'')])], pending = [],
     m_iLastRequestHandle = 0, NSHandleLoadResult = []\<rparr>"

definition ex_saved :: save_state where
  "ex_saved = \<lparr>fs_root = Dir [(''C:'', Dir [(''x.txt'', File ''keep''), (''saves'', Dir [(''m'', Dir [])])])],
     pending = [SaveJob [[], ''saves'', ''m'', ''a.txt''] ''hi''], m_iLastRequestHandle = 0, NSHandleLoadResult = []\<rparr>"

lemma ex_env_ok: "cwd_ok (cwd ex_env)" "savePath ex_env \<noteq> []"
  by (simp_all add: cwd_ok_def ex_env_def)

lemma ex_call: "do_call ex_env (Some ex_mod) (CallSave ''a.txt'' ''hi'') ex_state = Ret (RetNull, ex_saved)"
  by code_simp

lemma saves_confined_witness:
  "file_at (fs_root (run_job ex_env (SaveJob [[], ''saves'', ''m'', ''a.txt''] ''hi'') (ex_saved\<lparr>pending := []\<rparr>))) [''C:'', ''x.txt''] =
     file_at (fs_root ex_state) [''C:'', ''x.txt'']"
proof -
  let ?job = "SaveJob [[], ''saves'', ''m'', ''a.txt''] ''hi''"
  have "save_step ex_env [ex_mod] ex_state ex_saved" using save_step.call [OF ex_call] by simp
  moreover have "save_step ex_env [ex_mod] ex_saved (run_job ex_env ?job (ex_saved\<lparr>pending := [] @ []\<rparr>))"
    by (rule save_step.thread) (simp add: ex_saved_def)
  ultimately have "(save_step ex_env [ex_mod])\<^sup>*\<^sup>* ex_state (run_job ex_env ?job (ex_saved\<lparr>pending := []\<rparr>))" by auto
  note run = this
  have "pending ex_state = []" "tree_ok (fs_root ex_state)" by (simp_all add: ex_state_def)
  moreover have "\<not> in_folder ex_env [ex_mod] [''C:'', ''x.txt'']"
    by code_simp
  ultimately show ?thesis using saves_confined [OF run ex_env_ok] by blast
qed

text \<open>
  C14: When a thread writes a file, the folder it is in holds afterwards at most the limit and one
  byte for each line feed of the text: the limit is checked on the text, which grows when it is written.
\<close>

theorem save_quota:
  assumes "cwd_ok (cwd env)" "tree_ok (fs_root st)" "butlast path \<noteq> []"
    and "fs_root (write_thread env path contents st) \<noteq> fs_root st"
  shows "\<exists>es. lookup (fs_root (write_thread env path contents st)) (canonical (cwd env) (butlast path)) = Some (Dir es) \<and>
    int (GetSizeOfFolder env es) \<le> as_size (MAX_FOLDER_SIZE env) + int (length (filter (\<lambda>c. c = LF) contents))"
proof -
  obtain es r where r: "extension path \<in> set whitelist" "lookup (fs_root st) (canonical (cwd env) (butlast path)) = Some (Dir es)"
    "\<not> over_limit env (GetSizeOfFolderContentsMinusFile env (last path) es + length contents)"
    "write_file (fs_root st) (canonical (cwd env) path) (to_crlf contents) = Some r"
    "fs_root (write_thread env path contents st) = r"
    using assms(4) by (auto simp: write_thread_def split: if_splits option.splits fnode.splits)
  have "lookup r (canonical (cwd env) (butlast path)) = Some (Dir (AList.update (last path) (File (to_crlf contents)) es))"
    using lookup_write [OF _ r(2)] r(4) canonical_file [OF r(1) assms(3,1)] by simp
  moreover have "distinct (map fst es)" using lookup_tree_ok [OF r(2) assms(2)] by simp
  moreover have "int (GetSizeOfFolderContentsMinusFile env (last path) es) + int (length contents) \<le> as_size (MAX_FOLDER_SIZE env)"
    using r(3) by (simp add: over_limit_def)
  ultimately show ?thesis using r(5) by (simp add: size_after_write length_to_crlf)
qed

lemma save_quota_witness:
  "\<exists>es. lookup (fs_root (write_thread ex_env [[], ''saves'', ''m'', ''a.txt''] ''hi'' ex_saved)) [''C:'', ''saves'', ''m''] = Some (Dir es) \<and>
    GetSizeOfFolder ex_env es \<le> 100"
proof -
  let ?p = "[[], ''saves'', ''m'', ''a.txt'']"
  have "fs_root (write_thread ex_env ?p ''hi'' ex_saved) =
      Dir [(''C:'', Dir [(''x.txt'', File ''keep''), (''saves'', Dir [(''m'', Dir [(''a.txt'', File ''hi'')])])])]"
    by code_simp
  then have "fs_root (write_thread ex_env ?p ''hi'' ex_saved) \<noteq> fs_root ex_saved" by (simp add: ex_saved_def)
  moreover have "tree_ok (fs_root ex_saved)" by (simp add: ex_saved_def)
  ultimately show ?thesis
    using save_quota [of ex_env ex_saved ?p "''hi''"] ex_env_ok
    by (simp add: canonical_def absolute_path_def canonical_step_def ex_env_def as_size_def LF_def)
qed

text \<open>File names without directories.\<close>

definition simple_name :: "string \<Rightarrow> bool" where
  "simple_name f \<longleftrightarrow> f \<noteq> [] \<and> (\<forall>c \<in> set f. \<not> is_sep c \<and> c \<noteq> CHR '':'' \<and> (of_char c :: nat) \<le> 127)"

lemma path_join_simple:
  assumes "simple_name f"
  shows "path_join dir f = dir @ [f]"
proof -
  have "f ! 1 \<noteq> CHR '':''" if "2 \<le> length f" using assms that nth_mem [of 1 f] by (auto simp: simple_name_def)
  moreover have "\<not> is_sep (f ! 0)" using assms nth_mem [of 0 f] by (auto simp: simple_name_def)
  ultimately have "split_drive f = ([], f)" by (auto simp: split_drive_def Let_def)
  moreover have "\<not> is_sep (hd f)" using assms by (simp add: simple_name_def)
  moreover have "split_seps f = [f]" using assms by (simp add: simple_name_def split_seps_simple)
  ultimately show ?thesis by (simp add: path_join_def)
qed

text \<open>What a call that queued a file to be saved has checked.\<close>

lemma NSSaveFile_null:
  assumes "NSSaveFile env (Some m) f content st = Ret (RetNull, st1)"
  shows "IsPathSafe env f (mod_dir env m) \<and> \<not> ContainsInvalidChars content \<and>
    (\<exists>root es. create_directories (fs_root st) (canonical (cwd env) (mod_dir env m)) = Some root \<and> lookup root (canonical (cwd env) (mod_dir env m)) = Some (Dir es) \<and>
       \<not> over_limit env (GetSizeOfFolderContentsMinusFile env f es + length content) \<and>
       st1 = SaveFileAsync (path_join (mod_dir env m) f) content (st\<lparr>fs_root := root\<rparr>))"
  using assms(1)
  by (auto simp: NSSaveFile_def save_checked_def Let_def split: if_splits option.splits fnode.splits)

text \<open>
  C15: What a mod saves is what it loads: when \<open>NSSaveFile\<close> accepts a text without control-Z under a
  plain name with a whitelisted extension that is not a directory's name, then its thread writes it,
  and loading that name afterwards calls back with the handle returned, success, and the text.
\<close>

theorem save_then_load:
  assumes "cwd_ok (cwd env)" "savePath env \<noteq> []" "simple_name f" "path_extension f \<in> set whitelist" "CHR 0x1A \<notin> set content"
    and "NSSaveFile env (Some m) f content st = Ret (RetNull, st1)" "pending st = []"
    and "\<forall>ds. lookup (fs_root st1) (canonical (cwd env) (mod_dir env m @ [f])) \<noteq> Some (Dir ds)"
  shows "\<exists>save load h st3.
    pending st1 = [save] \<and>
    NS_InternalLoadFile env (Some m) f (run_job env save (st1\<lparr>pending := []\<rparr>)) = Ret (RetInt h, st3) \<and>
    pending st3 = [load] \<and>
    NSHandleLoadResult (run_job env load (st3\<lparr>pending := []\<rparr>)) = NSHandleLoadResult st @ [(h, True, content)]"
proof -
  let ?dir = "mod_dir env m" and ?p = "mod_dir env m @ [f]"
  obtain root es where safe: "IsPathSafe env f ?dir"
    and r: "lookup root (canonical (cwd env) ?dir) = Some (Dir es)" "\<not> over_limit env (GetSizeOfFolderContentsMinusFile env f es + length content)"
      "st1 = SaveFileAsync ?p content (st\<lparr>fs_root := root\<rparr>)"
    using NSSaveFile_null [OF assms(6)] path_join_simple [OF assms(3)] by auto
  have ext: "extension ?p \<in> set whitelist" using assms(4) by (simp add: extension_def)
  have ne: "extension ?p \<noteq> []" using ext by (auto simp: whitelist_def)
  have "?dir \<noteq> []" by (simp add: mod_dir_def)
  then have can: "canonical (cwd env) ?p = canonical (cwd env) ?dir @ [f]" using canonical_file [OF ext _ assms(1)] by simp
  have "\<forall>ds. map_of es f \<noteq> Some (Dir ds)" using assms(8) can r(3) lookup_snoc [OF r(1), of f] by (simp add: SaveFileAsync_def)
  with write_file_exists [OF r(1)] can obtain root' where w: "write_file root (canonical (cwd env) ?p) (to_crlf content) = Some root'" by metis
  let ?st2 = "run_job env (SaveJob ?p content) (st\<lparr>fs_root := root, pending := []\<rparr>)"
  have st2: "?st2 = st\<lparr>fs_root := root', pending := []\<rparr>"
    using ext ne r w by (simp add: write_thread_def SaveFileAsync_def)
  have "lookup root' (canonical (cwd env) ?p) = Some (File (to_crlf content))" using file_at_lookup file_at_write [OF w, of "canonical (cwd env) ?p"] by simp
  then have "NSHandleLoadResult (run_job env (LoadJob ?p h) (st\<lparr>fs_root := root', m_iLastRequestHandle := h, pending := []\<rparr>)) =
      NSHandleLoadResult st @ [(h, True, content)]" for h
    using text_mode_to_crlf [OF assms(5)] by (simp add: read_thread_def)
  then show ?thesis
    using safe r(3) assms(7) path_join_simple [OF assms(3), of ?dir]
    by - (rule exI [of _ "SaveJob ?p content"], rule exI [of _ "LoadJob ?p (int32 (m_iLastRequestHandle st + 1))"],
      rule exI [of _ "int32 (m_iLastRequestHandle st + 1)"],
      simp add: SaveFileAsync_def NS_InternalLoadFile_def LoadFileAsync_def Let_def st2 del: run_job.simps)
qed

lemma save_then_load_witness:
  "\<exists>save load h st3.
    pending ex_saved = [save] \<and>
    NS_InternalLoadFile ex_env (Some ex_mod) ''a.txt'' (run_job ex_env save (ex_saved\<lparr>pending := []\<rparr>)) = Ret (RetInt h, st3) \<and>
    pending st3 = [load] \<and>
    NSHandleLoadResult (run_job ex_env load (st3\<lparr>pending := []\<rparr>)) = [(h, True, ''hi'')]"
proof -
  have "NSSaveFile ex_env (Some ex_mod) ''a.txt'' ''hi'' ex_state = Ret (RetNull, ex_saved)" using ex_call by simp
  moreover have "simple_name ''a.txt''" "path_extension ''a.txt'' \<in> set whitelist" by code_simp+
  moreover have "lookup (fs_root ex_saved) (canonical (cwd ex_env) (mod_dir ex_env ex_mod @ [''a.txt''])) = None" by code_simp
  ultimately show ?thesis
    using save_then_load [OF ex_env_ok, of "''a.txt''" "''hi''" ex_mod ex_state ex_saved]
    by (simp add: ex_state_def del: run_job.simps)
qed

text \<open>
  \<open>NSGetTotalSpaceRemaining\<close> gives the room there is in kilobytes, rounded down: the unsigned
  arithmetic and the conversion to \<open>int\<close> give the right number, also a negative one, for folders of
  less than a terabyte.
\<close>

lemma s32_of_u64_div:
  assumes "\<bar>d\<bar> < 2 ^ 41"
  shows "sint (ucast (word_of_int d div 1024 :: u64) :: u32) = d div 1024"
proof -
  let ?w = "word_of_int d :: u64"
  have u: "uint (?w div 1024) = d mod 2 ^ 64 div 1024" by (simp add: uint_div_distrib uint_word_of_int)
  have "d mod 2 ^ 64 = d + (if d < 0 then 2 ^ 64 else 0)"
  proof (cases "0 \<le> d")
    case False
    then have "(d + 2 ^ 64) mod 2 ^ 64 = d + 2 ^ 64" using assms by (intro mod_pos_pos_trivial) auto
    then show ?thesis using False by simp
  qed (use assms in \<open>simp add: mod_pos_pos_trivial\<close>)
  then have "uint (?w div 1024) = d div 1024 + (if d < 0 then 2 ^ 54 else 0)"
    using div_mult_self1 [of 1024 d "2 ^ 54"] unfolding u by simp
  then have "(ucast (?w div 1024) :: u32) = word_of_int (d div 1024 + (if d < 0 then 2 ^ 54 else 0))"
    by (metis word_of_int_uint of_int_uint)
  also have "\<dots> = word_of_int (d div 1024)" by (simp add: word_of_int_eq_iff take_bit_eq_mod)
  finally have "sint (ucast (?w div 1024) :: u32) = signed_take_bit 31 (d div 1024)" by (simp add: sint_sbintrunc')
  then show ?thesis using assms by (simp add: signed_take_bit_int_eq_self)
qed

theorem space_remaining:
  assumes "lookup (fs_root st) (canonical (cwd env) (mod_dir env m)) = Some (Dir es)"
    and "GetSizeOfFolder env es < 2 ^ 40" "\<bar>MAX_FOLDER_SIZE env\<bar> \<le> 2 ^ 31"
  shows "NSGetTotalSpaceRemaining env (Some m) st = Ret (RetInt ((MAX_FOLDER_SIZE env - int (GetSizeOfFolder env es)) div 1024), st)"
proof -
  have "\<bar>MAX_FOLDER_SIZE env - int (GetSizeOfFolder env es)\<bar> < 2 ^ 41" using assms(2,3) by simp
  from s32_of_u64_div [OF this] show ?thesis
    using assms(1) by (simp add: NSGetTotalSpaceRemaining_def Let_def)
qed

lemma space_remaining_witness:
  "NSGetTotalSpaceRemaining (ex_env\<lparr>MAX_FOLDER_SIZE := -1024\<rparr>) (Some ex_mod) ex_saved = Ret (RetInt (-1), ex_saved)"
proof -
  have "lookup (fs_root ex_saved) (canonical (cwd (ex_env\<lparr>MAX_FOLDER_SIZE := -1024\<rparr>)) (mod_dir (ex_env\<lparr>MAX_FOLDER_SIZE := -1024\<rparr>) ex_mod)) = Some (Dir [])"
    by (simp add: mod_dir_def ex_env_def ex_mod_def ex_saved_def canonical_def absolute_path_def canonical_step_def path_filename_def is_sep_def)
  from space_remaining [OF this] show ?thesis by simp
qed

lemma NSSaveJSONFile_as_text:
  "NSSaveJSONFile jn Write env caller f table st =
     NSSaveFile env caller f (takeWhile (\<lambda>c. c \<noteq> NUL) (EncodeJSON jn Write table)) st"
  by (simp add: NSSaveJSONFile_def NSSaveFile_def split: option.split)

end
