(* ===== verification/ModArchive.thy ===== *)
theory ModArchive
  imports FileTree
begin

text \<open>
  The archives of mods, \<open>src/modsystem/modinstaller.cpp\<close>: the check of the entries of a downloaded ZIP
  file (\<open>InspectArchive\<close>) and their extraction to a staging directory (\<open>ExtractArchive\<close>).

  The ZIP library is a parameter: an archive is what its functions return. The result of a failed
  extraction is its error; what it leaves below the staging directory is not kept, because the caller
  removes that directory.
\<close>

section \<open>Names\<close>

definition is_ascii :: "char \<Rightarrow> bool" where
  "is_ascii c \<longleftrightarrow> (of_char c :: nat) < 128"

definition lower_char :: "char \<Rightarrow> char" where
  "lower_char c = (if 65 \<le> (of_char c :: nat) \<and> (of_char c :: nat) \<le> 90 then char_of (of_char c + 32 :: nat) else c)"

definition LowerAscii :: "string \<Rightarrow> string" where
  "LowerAscii value = map lower_char value"

definition iscntrl :: "char \<Rightarrow> bool" where
  "iscntrl c \<longleftrightarrow> (of_char c :: nat) < 32 \<or> (of_char c :: nat) = 127"

definition SanitizeFolderComponent :: "string \<Rightarrow> string" where
  "SanitizeFolderComponent value =
     (let value = map (\<lambda>c. if c \<in> {CHR '' '', CHR 0x5C, CHR ''/'', CHR '':'', CHR ''*'', CHR ''?'', CHR 0x22, CHR ''<'', CHR ''>'', CHR ''|''} \<or>
                              iscntrl c then CHR ''_'' else c) value;
          value = rev (dropWhile (\<lambda>c. c = CHR '' '' \<or> c = CHR ''.'') (rev value));
          value = (if value = [] then ''Unknown'' else value)
      in if length value > 80 then take 80 value else value)"

definition IsReservedWindowsName :: "string \<Rightarrow> bool" where
  "IsReservedWindowsName component =
     (let base = LowerAscii (takeWhile (\<lambda>c. c \<noteq> CHR ''.'') component) in
      base \<in> {''con'', ''prn'', ''aux'', ''nul''} \<or>
      length base = 4 \<and> (take 3 base = ''com'' \<or> take 3 base = ''lpt'') \<and>
      (of_char (base ! 3) :: nat) \<in> {49..57})"

text \<open>The elements of a text between slashes.\<close>

fun split_slash :: "string \<Rightarrow> string list" where
  "split_slash [] = [[]]"
| "split_slash (c # s) =
     (if c = CHR ''/'' then [] # split_slash s
      else case split_slash s of [] \<Rightarrow> [[c]] | w # ws \<Rightarrow> (c # w) # ws)"

definition bad_component :: "string \<Rightarrow> bool" where
  "bad_component c \<longleftrightarrow> c = [] \<or> c = ''.'' \<or> c = ''..'' \<or> length c > 255 \<or> last c = CHR '' '' \<or> last c = CHR ''.'' \<or>
     IsReservedWindowsName c"

definition bad_char :: "char \<Rightarrow> bool" where
  "bad_char c \<longleftrightarrow> (of_char c :: nat) < 0x20 \<or> c \<in> {CHR ''<'', CHR ''>'', CHR 0x22, CHR ''|'', CHR ''?'', CHR ''*''}"

definition unsafe_component_error :: "string \<Rightarrow> string" where
  "unsafe_component_error raw = ''Archive contains an unsafe path component: '' @ raw"

definition invalid_path_error :: "string \<Rightarrow> string" where
  "invalid_path_error raw = ''Archive contains an invalid Windows path: '' @ raw"

text \<open>The loop over the components; a final slash would be followed by no component.\<close>

fun check_components :: "string \<Rightarrow> string list \<Rightarrow> string option" where
  "check_components raw [] = None"
| "check_components raw (c # cs) =
     (if bad_component c then Some (unsafe_component_error raw)
      else if \<exists>x \<in> set c. bad_char x then Some (invalid_path_error raw)
      else check_components raw cs)"

definition NormalizeArchivePath :: "string \<Rightarrow> string + string \<times> bool" where
  "NormalizeArchivePath rawName =
     (if rawName = [] \<or> length rawName > 1024 \<or> NUL \<in> set rawName
      then Inl ''Archive contains an empty, overlong, or NUL-containing path''
      else
        let normalized = map (\<lambda>c. if c = CHR 0x5C then CHR ''/'' else c) rawName;
            directory = (last normalized = CHR ''/'');
            normalized = rev (dropWhile (\<lambda>c. c = CHR ''/'') (rev normalized))
        in
          if normalized = [] \<or> hd normalized = CHR ''/'' \<or> CHR '':'' \<in> set normalized
          then Inl (''Archive contains an unsafe absolute or ADS path: '' @ rawName)
          else case check_components rawName (split_slash normalized) of
            Some e \<Rightarrow> Inl e
          | None \<Rightarrow> Inr (normalized, directory))"

definition starts_with :: "string \<Rightarrow> string \<Rightarrow> bool" where
  "starts_with s p \<longleftrightarrow> take (length p) s = p"

definition IsSupportedManifestPath :: "string \<Rightarrow> bool" where
  "IsSupportedManifestPath relativePath =
     (if relativePath = ''mod.json'' then True
      else if \<not> starts_with relativePath ''mods/'' then False
      else
        let r = drop 5 relativePath; name = takeWhile (\<lambda>c. c \<noteq> CHR ''/'') r
        in CHR ''/'' \<in> set r \<and> name \<noteq> [] \<and> drop (length name + 1) r = ''mod.json'')"

section \<open>Archives\<close>

text \<open>
  An entry as the library gives it: whether each of the two calls for its data succeeds, whether it
  can be opened, the blocks read from it, whether reading ends without an error, and whether closing
  it, which checks its CRC, succeeds.
\<close>

record zip_entry =
  info_ok :: bool
  name_ok :: bool
  zip_name :: string
  flag :: u32
  external_fa :: u32
  compressed_size :: u64
  uncompressed_size :: u64
  open_ok :: bool
  blocks :: "string list"
  reads_to_end :: bool
  close_ok :: bool

text \<open>\<open>number_entry\<close> is \<open>None\<close> if the global data of the archive cannot be read.\<close>

record zip_archive =
  number_entry :: "u64 option"
  zip_entries :: "zip_entry list"

record ArchiveEntry =
  archiveName :: string
  relativePath :: string
  compressedSize :: u64
  uncompressedSize :: u64
  is_directory :: bool

definition MAX_EXPANDED_BYTES :: u64 where "MAX_EXPANDED_BYTES = 8 * 1024 * 1024 * 1024"
definition MAX_ENTRY_BYTES :: u64 where "MAX_ENTRY_BYTES = 2 * 1024 * 1024 * 1024"
definition MAX_ARCHIVE_ENTRIES :: u64 where "MAX_ARCHIVE_ENTRIES = 20000"
definition FILE_ATTRIBUTE_DIRECTORY :: u32 where "FILE_ATTRIBUTE_DIRECTORY = 0x10"

section \<open>Texts of paths\<close>

text \<open>
  The text of a path is its UTF-8 form. \<open>utf8_chars\<close> cuts a text into its characters: a byte and the
  continuation bytes behind it.
\<close>

definition is_cont :: "char \<Rightarrow> bool" where
  "is_cont c \<longleftrightarrow> 128 \<le> (of_char c :: nat) \<and> (of_char c :: nat) < 192"

function utf8_chars :: "string \<Rightarrow> string list" where
  "utf8_chars [] = []"
| "utf8_chars (c # s) =
     (if is_ascii c then [c] # utf8_chars s else (c # takeWhile is_cont s) # utf8_chars (dropWhile is_cont s))"
  by pat_completeness auto
termination
  by (relation "measure length") (auto simp: less_Suc_eq_le length_dropWhile_le)

fun utf8_char :: "nat list \<Rightarrow> bool" where
  "utf8_char [a] = (a < 0x80)"
| "utf8_char [a, b] = (0xC2 \<le> a \<and> a \<le> 0xDF \<and> 0x80 \<le> b \<and> b \<le> 0xBF)"
| "utf8_char [a, b, c] =
     (0xE0 \<le> a \<and> a \<le> 0xEF \<and> (if a = 0xE0 then 0xA0 else 0x80) \<le> b \<and> b \<le> (if a = 0xED then 0x9F else 0xBF) \<and>
      0x80 \<le> c \<and> c \<le> 0xBF)"
| "utf8_char [a, b, c, d] =
     (0xF0 \<le> a \<and> a \<le> 0xF4 \<and> (if a = 0xF0 then 0x90 else 0x80) \<le> b \<and> b \<le> (if a = 0xF4 then 0x8F else 0xBF) \<and>
      0x80 \<le> c \<and> c \<le> 0xBF \<and> 0x80 \<le> d \<and> d \<le> 0xBF)"
| "utf8_char bs = False"

definition utf8_valid :: "string \<Rightarrow> bool" where
  "utf8_valid s = list_all (\<lambda>ch. utf8_char (map of_char ch)) (utf8_chars s)"

text \<open>
  \<open>generic_string\<close> converts to the code page of the process, one character after the other. ASCII is part
  of every code page; \<open>char_bytes\<close> gives the bytes that another character has there, and \<open>None\<close> if the
  code page lacks it.
\<close>

record text_env =
  char_bytes :: "string \<Rightarrow> string option"

definition narrow_char :: "text_env \<Rightarrow> string \<Rightarrow> string option" where
  "narrow_char env ch = (if list_all is_ascii ch then Some ch else char_bytes env ch)"

fun narrow_chars :: "text_env \<Rightarrow> string list \<Rightarrow> string option" where
  "narrow_chars env [] = Some []"
| "narrow_chars env (ch # chs) =
     (case narrow_char env ch of None \<Rightarrow> None | Some bs \<Rightarrow> map_option (\<lambda>r. bs @ r) (narrow_chars env chs))"

definition narrow :: "text_env \<Rightarrow> string \<Rightarrow> string option" where
  "narrow env s = narrow_chars env (utf8_chars s)"

text \<open>Both throw where they cannot convert.\<close>

definition u8path :: "string \<Rightarrow> string outcome" where
  "u8path s = (if utf8_valid s then Ret s else Throw system_error)"

definition generic_string :: "text_env \<Rightarrow> string \<Rightarrow> string outcome" where
  "generic_string env p = (case narrow env p of Some s \<Rightarrow> Ret s | None \<Rightarrow> Throw system_error)"

fun ContainsSupportedManifest :: "text_env \<Rightarrow> ArchiveEntry list \<Rightarrow> string \<Rightarrow> bool outcome" where
  "ContainsSupportedManifest env [] pre = Ret False"
| "ContainsSupportedManifest env (e # es) pre =
     (if is_directory e then ContainsSupportedManifest env es pre
      else obind (generic_string env (relativePath e)) (\<lambda>path.
        if starts_with path pre \<and> IsSupportedManifestPath (drop (length pre) path) then Ret True
        else ContainsSupportedManifest env es pre))"

section \<open>Inspection\<close>

text \<open>The body of the first loop of \<open>InspectArchive\<close>, up to the step to the next file.\<close>

definition inspect_entry :: "zip_entry \<Rightarrow> u64 \<Rightarrow> (string + ArchiveEntry \<times> u64) outcome" where
  "inspect_entry f totalExpanded =
     (if \<not> info_ok f \<or> zip_name f = [] \<or> length (zip_name f) > 1024
      then Ret (Inl ''Archive contains unreadable entry metadata'')
      else if \<not> name_ok f then Ret (Inl ''Archive entry name could not be read'')
      else if NUL \<in> set (zip_name f) \<or> flag f AND 1 \<noteq> 0
      then Ret (Inl ''Encrypted or NUL-containing archive entries are not supported'')
      else if drop_bit 16 (external_fa f) AND 0xF000 = 0xA000 then Ret (Inl ''Archive symlinks are not allowed'')
      else if uncompressed_size f > MAX_ENTRY_BYTES \<or> totalExpanded > MAX_EXPANDED_BYTES - uncompressed_size f
      then Ret (Inl ''Archive expanded size exceeds the safety limit'')
      else case NormalizeArchivePath (zip_name f) of
        Inl e \<Rightarrow> Ret (Inl e)
      | Inr (normalized, directory) \<Rightarrow>
          obind (u8path normalized) (\<lambda>path.
            Ret (Inr (\<lparr>archiveName = zip_name f, relativePath = path, compressedSize = compressed_size f,
              uncompressedSize = uncompressed_size f,
              is_directory = (directory \<or> external_fa f AND FILE_ATTRIBUTE_DIRECTORY \<noteq> 0)\<rparr>,
              totalExpanded + uncompressed_size f))))"

text \<open>\<open>n\<close> entries are left to be read, and the cursor is at the first of the list.\<close>

fun inspect_entries :: "nat \<Rightarrow> zip_entry list \<Rightarrow> u64 \<Rightarrow> (string + ArchiveEntry list) outcome" where
  "inspect_entries 0 fs expanded = Ret (Inr [])"
| "inspect_entries (Suc n) [] expanded = Ret (Inl ''Archive directory ended unexpectedly'')"
| "inspect_entries (Suc n) (f # fs) expanded =
     ebind (inspect_entry f expanded) (\<lambda>(entry, expanded').
       ebind (inspect_entries n fs expanded') (\<lambda>entries. Ret (Inr (entry # entries))))"

text \<open>Whether every entry is the root of the package or below it.\<close>

fun all_in_root :: "text_env \<Rightarrow> string \<Rightarrow> ArchiveEntry list \<Rightarrow> bool outcome" where
  "all_in_root env first [] = Ret True"
| "all_in_root env first (e # es) =
     obind (generic_string env (relativePath e)) (\<lambda>path.
       if path \<noteq> first \<and> \<not> starts_with path (first @ ''/'') then Ret False else all_in_root env first es)"

definition root_prefix :: "text_env \<Rightarrow> ArchiveEntry list \<Rightarrow> (string + string) outcome" where
  "root_prefix env entries =
     obind (ContainsSupportedManifest env entries []) (\<lambda>found.
       if found then Ret (Inr [])
       else obind (generic_string env (relativePath (hd entries))) (\<lambda>firstPath.
         let firstComponent = takeWhile (\<lambda>c. c \<noteq> CHR ''/'') firstPath in
         if firstComponent = [] then Ret (Inl ''Archive does not contain a supported mod layout'')
         else obind (all_in_root env firstComponent entries) (\<lambda>inside.
           if \<not> inside then Ret (Inl ''Archive has files outside its package root'')
           else obind (ContainsSupportedManifest env entries (firstComponent @ ''/'')) (\<lambda>found.
             if \<not> found then Ret (Inl ''Archive does not contain root mod.json or mods/<name>/mod.json'')
             else Ret (Inr (firstComponent @ ''/''))))))"

text \<open>
  The loop that strips the prefix and collects the paths; \<open>occupied\<close> and \<open>files\<close> are the two sets,
  and \<open>None\<close> as a path means that the entry is not entered in them.
\<close>

definition strip_entry :: "text_env \<Rightarrow> string \<Rightarrow> ArchiveEntry \<Rightarrow> (string + ArchiveEntry \<times> string option) outcome" where
  "strip_entry env pre entry =
     obind (generic_string env (relativePath entry)) (\<lambda>path.
       if pre = [] then Ret (Inr (entry, if path = [] then None else Some path))
       else if path = butlast pre then
         (if \<not> is_directory entry then Ret (Inl ''Archive package root is a file'')
          else Ret (Inr (entry\<lparr>relativePath := []\<rparr>, None)))
       else
         let path = drop (length pre) path in
         obind (u8path path) (\<lambda>p. Ret (Inr (entry\<lparr>relativePath := p\<rparr>, if path = [] then None else Some path))))"

fun strip_entries :: "text_env \<Rightarrow> string \<Rightarrow> string list \<Rightarrow> string list \<Rightarrow> ArchiveEntry list \<Rightarrow>
    (string + ArchiveEntry list \<times> string list \<times> string list) outcome" where
  "strip_entries env pre occupied files [] = Ret (Inr ([], occupied, files))"
| "strip_entries env pre occupied files (e # es) =
     ebind (strip_entry env pre e) (\<lambda>(entry, pathOpt).
         if (case pathOpt of None \<Rightarrow> False | Some path \<Rightarrow> LowerAscii path \<in> set occupied)
         then Ret (Inl (''Archive contains duplicate path '' @ [CHR 0x27] @ the pathOpt @ [CHR 0x27]))
         else
           let occupied' = (case pathOpt of None \<Rightarrow> occupied | Some path \<Rightarrow> LowerAscii path # occupied);
               files' = (case pathOpt of None \<Rightarrow> files | Some path \<Rightarrow> if is_directory entry then files else LowerAscii path # files)
           in ebind (strip_entries env pre occupied' files' es) (\<lambda>(entries, sets). Ret (Inr (entry # entries, sets))))"

text \<open>What stands before each slash of a path.\<close>

definition parent_texts :: "string \<Rightarrow> string list" where
  "parent_texts path = [take i path. i \<leftarrow> [0..<length path], path ! i = CHR ''/'']"

definition path_collision :: "string list \<Rightarrow> string list \<Rightarrow> bool" where
  "path_collision occupied files \<longleftrightarrow> (\<exists>path \<in> set occupied. \<exists>parent \<in> set (parent_texts path). parent \<in> set files)"

definition InspectArchive :: "text_env \<Rightarrow> zip_archive option \<Rightarrow> (string + ArchiveEntry list) outcome" where
  "InspectArchive env archive =
     (case archive of
        None \<Rightarrow> Ret (Inl ''Downloaded file is not a readable ZIP archive'')
      | Some z \<Rightarrow>
          (case number_entry z of
             None \<Rightarrow> Ret (Inl ''Archive has an invalid or excessive entry count'')
           | Some n \<Rightarrow>
               if n = 0 \<or> n > MAX_ARCHIVE_ENTRIES \<or> zip_entries z = []
               then Ret (Inl ''Archive has an invalid or excessive entry count'')
               else ebind (inspect_entries (unat n) (zip_entries z) 0) (\<lambda>entries.
                 ebind (root_prefix env entries) (\<lambda>pre.
                   ebind (strip_entries env pre [] [] entries) (\<lambda>(entries, occupied, files).
                     if path_collision occupied files then Ret (Inl ''Archive contains a file/directory path collision'')
                     else Ret (Inr entries))))))"

section \<open>Extraction\<close>

text \<open>
  The environment of an extraction: when it is cancelled, when a block cannot be written and when a
  file cannot be closed, by the number of questions asked so far whether it is cancelled, the message of
  an error of the file system, the text of a path, and the current directories.
\<close>

record extract_env =
  cancelled_at :: "nat \<Rightarrow> bool"
  write_fails_at :: "nat \<Rightarrow> bool"
  close_fails_at :: "nat \<Rightarrow> bool"
  ec_message :: string
  path_string :: "string list \<Rightarrow> string"
  extract_cwd :: "string \<Rightarrow> string list"

record extract_state =
  staged :: fnode
  polls :: nat
  extractedBytes :: u64
  progress_reports :: "(u64 \<times> u64) list"

definition next_poll :: "extract_state \<Rightarrow> extract_state" where
  "next_poll st = st\<lparr>polls := polls st + 1\<rparr>"

definition cancel_error :: string where
  "cancel_error = ''Installation cancelled while staging''"

text \<open>The loop that copies an entry: an error if there is one, and what was written.\<close>

fun copy_blocks :: "extract_env \<Rightarrow> u64 \<Rightarrow> bool \<Rightarrow> string list \<Rightarrow> string \<Rightarrow> extract_state \<Rightarrow> string option \<times> string \<times> extract_state" where
  "copy_blocks env totalBytes ends [] written st =
     (if cancelled_at env (polls st) then (Some cancel_error, written, next_poll st)
      else if ends then (None, written, next_poll st)
      else (Some ''Archive decompression failed'', written, next_poll st))"
| "copy_blocks env totalBytes ends (b # bs) written st =
     (if cancelled_at env (polls st) then (Some cancel_error, written, next_poll st)
      else if b = [] then (None, written, next_poll st)
      else if write_fails_at env (polls st) then (Some ''Failed writing staged archive content'', written, next_poll st)
      else
        let n = extractedBytes st + of_nat (length b);
            st = (next_poll st)\<lparr>extractedBytes := n, progress_reports := progress_reports st @ [(n, totalBytes)]\<rparr>
        in copy_blocks env totalBytes ends bs (written @ b) st)"

definition validation_error :: string where
  "validation_error = ''Archive CRC, size, or staged file flush validation failed''"

definition extract_file :: "extract_env \<Rightarrow> u64 \<Rightarrow> string list \<Rightarrow> zip_entry \<Rightarrow> ArchiveEntry \<Rightarrow> extract_state \<Rightarrow> string + extract_state" where
  "extract_file env totalBytes destination z entry st =
     (case create_directories (staged st) (canonical (extract_cwd env) (butlast destination)) of
        None \<Rightarrow> Inl ''Failed opening archive entry for staging''
      | Some r1 \<Rightarrow>
          if \<not> open_ok z then Inl ''Failed opening archive entry for staging''
          else (case write_file r1 (canonical (extract_cwd env) destination) [] of
            None \<Rightarrow> Inl (''Failed creating staged file '' @ CHR 0x27 # path_string env destination @ [CHR 0x27])
          | Some r2 \<Rightarrow>
              (case copy_blocks env totalBytes (reads_to_end z) (blocks z) [] (st\<lparr>staged := r2\<rparr>) of (err, written, st) \<Rightarrow>
                (case err of
                   Some e \<Rightarrow> Inl e
                 | None \<Rightarrow>
                     if close_fails_at env (polls st) \<or> \<not> close_ok z \<or> of_nat (length written) \<noteq> uncompressedSize entry
                     then Inl validation_error
                     else (case write_file (staged st) (canonical (extract_cwd env) destination) written of
                       None \<Rightarrow> Inl validation_error
                     | Some r3 \<Rightarrow> Inr (st\<lparr>staged := r3\<rparr>))))))"

text \<open>Going to the next file fails at the last one and stays there.\<close>

definition go_next :: "zip_entry list \<Rightarrow> zip_entry list" where
  "go_next zs = (if length zs \<le> 1 then zs else tl zs)"

fun extract_entries :: "extract_env \<Rightarrow> string list \<Rightarrow> u64 \<Rightarrow> zip_entry list \<Rightarrow> ArchiveEntry list \<Rightarrow> extract_state \<Rightarrow>
    string + extract_state" where
  "extract_entries env stagingRoot totalBytes zs [] st = Inr st"
| "extract_entries env stagingRoot totalBytes zs (entry # es) st =
     (if cancelled_at env (polls st) then Inl cancel_error
      else
        let st = next_poll st in
        if relativePath entry = [] then
          extract_entries env stagingRoot totalBytes (if es = [] then zs else go_next zs) es st
        else
          let destination = path_join stagingRoot (relativePath entry);
              r = (if is_directory entry
                   then (case create_directories (staged st) (canonical (extract_cwd env) destination) of
                     None \<Rightarrow> Inl (''Failed creating staged directory: '' @ ec_message env)
                   | Some root \<Rightarrow> Inr (st\<lparr>staged := root\<rparr>))
                   else extract_file env totalBytes destination (hd zs) entry st)
          in (case r of
                Inl e \<Rightarrow> Inl e
              | Inr st \<Rightarrow>
                  if es \<noteq> [] \<and> length zs \<le> 1 then Inl ''Archive directory ended unexpectedly during staging''
                  else extract_entries env stagingRoot totalBytes (go_next zs) es st))"

definition ExtractArchive :: "extract_env \<Rightarrow> zip_archive option \<Rightarrow> string list \<Rightarrow> ArchiveEntry list \<Rightarrow> fnode \<Rightarrow> string + extract_state" where
  "ExtractArchive env archive stagingRoot entries root =
     (case create_directories root (canonical (extract_cwd env) stagingRoot) of
        None \<Rightarrow> Inl (''Failed creating staging directory: '' @ ec_message env)
      | Some root \<Rightarrow>
          (case archive of
             None \<Rightarrow> Inl ''Failed reopening validated archive''
           | Some z \<Rightarrow>
               if zip_entries z = [] then Inl ''Failed reopening validated archive''
               else extract_entries env stagingRoot (\<Sum>e\<leftarrow>entries. uncompressedSize e) (zip_entries z) entries
                 \<lparr>staged = root, polls = 0, extractedBytes = 0, progress_reports = []\<rparr>))"

end
