(* ===== verification/ModArchiveSpec.thy ===== *)
theory ModArchiveSpec
  imports ModArchive
begin

text \<open>
  What the inspection of an archive guarantees, and that its extraction writes exactly the files of
  the archive below the staging directory.
\<close>

section \<open>Paths of an archive\<close>

lemma split_slash_nonempty [simp]: "split_slash s \<noteq> []"
  by (induction s) (auto split: list.splits)

lemma split_slash_plain: "CHR ''/'' \<notin> set s \<Longrightarrow> split_slash s = [s]"
  by (induction s) auto

lemma split_slash_append: "split_slash (a @ CHR ''/'' # b) = split_slash a @ split_slash b"
proof (induction a)
  case (Cons c a)
  show ?case
  proof (cases "split_slash a")
    case (Cons w ws)
    then show ?thesis using Cons.IH by simp
  qed simp
qed simp

lemma split_slash_chars: "w \<in> set (split_slash s) \<Longrightarrow> c \<in> set w \<Longrightarrow> c \<in> set s \<and> c \<noteq> CHR ''/''"
proof (induction s arbitrary: w)
  case (Cons x s)
  show ?case
  proof (cases "split_slash s")
    case (Cons v vs)
    then show ?thesis using Cons.prems Cons.IH [of v] Cons.IH [of w] by (auto split: if_splits)
  qed simp
qed simp

definition proper_component :: "string \<Rightarrow> bool" where
  "proper_component c \<longleftrightarrow> c \<notin> {[], ''.'', ''..''} \<and> last c \<noteq> CHR '' '' \<and> last c \<noteq> CHR ''.'' \<and> \<not> IsReservedWindowsName c \<and>
     \<not> (\<exists>x \<in> set c. bad_char x \<or> is_sep x \<or> x = CHR '':'')"

definition safe_path :: "string \<Rightarrow> bool" where
  "safe_path p \<longleftrightarrow> list_all proper_component (split_slash p)"

lemma safe_path_nonempty: "safe_path p \<Longrightarrow> p \<noteq> []"
  by (auto simp: safe_path_def proper_component_def)

lemma check_components_ok:
  "check_components raw cs = None \<Longrightarrow> c \<in> set cs \<Longrightarrow> \<not> bad_component c \<and> (\<forall>x \<in> set c. \<not> bad_char x)"
  by (induction cs) (auto split: if_splits)

lemma NormalizeArchivePath_safe:
  assumes "NormalizeArchivePath raw = Inr (n, d)"
  shows "safe_path n"
proof -
  let ?n = "map (\<lambda>c. if c = CHR 0x5C then CHR ''/'' else c) raw"
  have n: "n = rev (dropWhile (\<lambda>c. c = CHR ''/'') (rev ?n))" "CHR '':'' \<notin> set n" "check_components raw (split_slash n) = None"
    using assms by (auto simp: NormalizeArchivePath_def Let_def split: if_splits option.splits)
  have "set n \<subseteq> set ?n" unfolding n(1) using set_dropWhileD by force
  then have bs: "CHR 0x5C \<notin> set n" by auto
  have "proper_component c" if "c \<in> set (split_slash n)" for c
  proof -
    have "\<not> is_sep x \<and> x \<noteq> CHR '':''" if "x \<in> set c" for x
      using split_slash_chars [OF \<open>c \<in> set (split_slash n)\<close> that] n(2) bs by (auto simp: is_sep_def)
    then show ?thesis
      using check_components_ok [OF n(3) that] by (auto simp: proper_component_def bad_component_def)
  qed
  then show ?thesis by (simp add: safe_path_def list_all_iff)
qed

section \<open>Texts in the code page of the process\<close>

text \<open>The text with every run of characters beyond ASCII replaced by one mark.\<close>

fun skeleton :: "string \<Rightarrow> string" where
  "skeleton [] = []"
| "skeleton (c # s) =
     (if is_ascii c then c # skeleton s
      else if s \<noteq> [] \<and> \<not> is_ascii (hd s) then skeleton s
      else CHR 0x80 # skeleton s)"

lemma mark_not_ascii [simp]: "\<not> is_ascii (CHR 0x80)"
  by (simp add: is_ascii_def)

lemma slash_ascii [simp]: "is_ascii (CHR ''/'')" "is_ascii (CHR ''.'')"
  by (simp_all add: is_ascii_def)

lemma skeleton_nil [simp]: "skeleton s = [] \<longleftrightarrow> s = []"
proof (induction s)
  case (Cons c s)
  then show ?case by (cases s) auto
qed simp

lemma skeleton_set: "is_ascii x \<Longrightarrow> x \<in> set (skeleton s) \<longleftrightarrow> x \<in> set s"
  by (induction s) auto

lemma skeleton_marks: "\<not> is_ascii c \<Longrightarrow> CHR 0x80 \<in> set (skeleton (c # s))"
proof (induction s arbitrary: c)
  case (Cons d s)
  then show ?case by (cases "is_ascii d") simp_all
qed simp

lemma skeleton_id: "\<forall>x \<in> set (skeleton s). is_ascii x \<Longrightarrow> skeleton s = s"
proof (induction s)
  case (Cons c s)
  then have c: "is_ascii c" using skeleton_marks [of c s] mark_not_ascii by blast
  have "skeleton s = s" by (rule Cons.IH) (use Cons.prems c in simp)
  with c show ?case by simp
qed simp

lemma skeleton_ascii: "\<forall>x \<in> set t. is_ascii x \<Longrightarrow> skeleton s = t \<longleftrightarrow> s = t"
proof
  assume t: "\<forall>x \<in> set t. is_ascii x"
  show "skeleton s = t \<Longrightarrow> s = t" using skeleton_id [of s] t by simp
  have "skeleton t = t" using t by (induction t) auto
  then show "s = t \<Longrightarrow> skeleton s = t" by simp
qed

lemma skeleton_last:
  assumes "is_ascii x"
  shows "s \<noteq> [] \<Longrightarrow> last (skeleton s) = x \<longleftrightarrow> last s = x"
proof (induction s)
  case (Cons c s)
  show ?case
  proof (cases s)
    case Nil
    then show ?thesis using assms by auto
  next
    case (Cons d t)
    have ne: "skeleton s \<noteq> []" "s \<noteq> []" using Cons by (simp_all del: skeleton.simps)
    have "last (skeleton (c # s)) = last (skeleton s)" using ne by (simp only: skeleton.simps) (simp add: ne)
    then show ?thesis using Cons.IH ne(2) by simp
  qed
qed simp

lemma skeleton_append: "is_ascii c \<Longrightarrow> skeleton (a @ c # b) = skeleton a @ c # skeleton b"
proof (induction a)
  case (Cons d a)
  then show ?case by (cases a) auto
qed simp

lemma skeleton_split_eq:
  "split_slash (skeleton s) = map skeleton (split_slash s)"
proof (induction "length s" arbitrary: s rule: less_induct)
  case less
  show ?case
  proof (cases "CHR ''/'' \<in> set s")
    case True
    then obtain a b where ab: "s = a @ CHR ''/'' # b" "CHR ''/'' \<notin> set a" by (metis split_list_first)
    have "CHR ''/'' \<notin> set (skeleton a)" using ab(2) by (simp add: skeleton_set)
    then show ?thesis
      using less [of b] ab by (simp add: skeleton_append split_slash_append split_slash_plain)
  next
    case False
    then have "CHR ''/'' \<notin> set (skeleton s)" by (simp add: skeleton_set)
    with False show ?thesis by (simp add: split_slash_plain)
  qed
qed

lemma skeleton_takeWhile: "takeWhile (\<lambda>c. c \<noteq> CHR ''.'') (skeleton s) = skeleton (takeWhile (\<lambda>c. c \<noteq> CHR ''.'') s)"
proof (cases "CHR ''.'' \<in> set s")
  case True
  then obtain a b where ab: "s = a @ CHR ''.'' # b" "CHR ''.'' \<notin> set a" by (metis split_list_first)
  have "CHR ''.'' \<notin> set (skeleton a)" using ab(2) by (simp add: skeleton_set)
  then have "takeWhile (\<lambda>c. c \<noteq> CHR ''.'') (skeleton a) = skeleton a" "takeWhile (\<lambda>c. c \<noteq> CHR ''.'') a = a"
    using ab(2) by (auto intro: takeWhile_all)
  then show ?thesis
    using ab(2) \<open>CHR ''.'' \<notin> set (skeleton a)\<close> unfolding ab(1) skeleton_append [OF slash_ascii(2)]
    by (subst (1 2) takeWhile_append2) auto
next
  case False
  then have "CHR ''.'' \<notin> set (skeleton s)" by (simp add: skeleton_set)
  then have tw: "takeWhile (\<lambda>c. c \<noteq> CHR ''.'') (skeleton s) = skeleton s" "takeWhile (\<lambda>c. c \<noteq> CHR ''.'') s = s"
    using False by (auto intro!: takeWhile_all)
  show ?thesis unfolding tw ..
qed

lemma is_ascii_lower [simp]: "is_ascii (lower_char c) \<longleftrightarrow> is_ascii c"
  by (auto simp: is_ascii_def lower_char_def)

lemma ascii_LowerAscii: "\<forall>x \<in> set (LowerAscii b). is_ascii x \<Longrightarrow> \<forall>x \<in> set b. is_ascii x"
  by (simp add: LowerAscii_def)

lemma reserved_ascii:
  assumes "IsReservedWindowsName c"
  shows "\<forall>x \<in> set (takeWhile (\<lambda>c. c \<noteq> CHR ''.'') c). is_ascii x"
proof (rule ascii_LowerAscii)
  let ?b = "LowerAscii (takeWhile (\<lambda>c. c \<noteq> CHR ''.'') c)"
  have cases: "?b \<in> {''con'', ''prn'', ''aux'', ''nul''} \<or>
      length ?b = 4 \<and> (take 3 ?b = ''com'' \<or> take 3 ?b = ''lpt'') \<and> (of_char (?b ! 3) :: nat) \<in> {49..57}"
    using assms by (simp add: IsReservedWindowsName_def Let_def)
  have four: "xs = take 3 xs @ [xs ! 3]" if "length xs = 4" for xs :: string
    using that by (cases xs rule: rev_cases) (auto simp: nth_append)
  have letters: "list_all is_ascii t" if "t \<in> {''con'', ''prn'', ''aux'', ''nul'', ''com'', ''lpt''}" for t
    using that by (auto simp: is_ascii_def)
  from cases show "\<forall>x \<in> set ?b. is_ascii x"
  proof
    assume "?b \<in> {''con'', ''prn'', ''aux'', ''nul''}"
    then show ?thesis using letters [of ?b] by (auto simp: list_all_iff)
  next
    assume b: "length ?b = 4 \<and> (take 3 ?b = ''com'' \<or> take 3 ?b = ''lpt'') \<and> (of_char (?b ! 3) :: nat) \<in> {49..57}"
    then have "list_all is_ascii (take 3 ?b)" using letters [of "take 3 ?b"] by auto
    moreover have "is_ascii (?b ! 3)" using b by (auto simp: is_ascii_def)
    ultimately have "list_all is_ascii (take 3 ?b @ [?b ! 3])" by simp
    then show ?thesis using four b by (simp add: list_all_iff)
  qed
qed

lemma skeleton_reserved: "IsReservedWindowsName (skeleton c) \<longleftrightarrow> IsReservedWindowsName c"
proof -
  let ?t = "\<lambda>s. takeWhile (\<lambda>c. c \<noteq> CHR ''.'') s"
  have eq: "IsReservedWindowsName (skeleton c) = IsReservedWindowsName c" if "skeleton (?t c) = ?t c"
    unfolding IsReservedWindowsName_def skeleton_takeWhile that ..
  have "skeleton (?t c) = ?t c" if "IsReservedWindowsName c"
    using reserved_ascii [OF that] skeleton_ascii [of "?t c" "?t c"] by simp
  moreover have "skeleton (?t c) = ?t c" if "IsReservedWindowsName (skeleton c)"
    using reserved_ascii [OF that] skeleton_id unfolding skeleton_takeWhile by blast
  ultimately show ?thesis using eq by blast
qed

lemma skeleton_bex: "(\<And>x. P x \<Longrightarrow> is_ascii x) \<Longrightarrow> (\<exists>x \<in> set (skeleton c). P x) \<longleftrightarrow> (\<exists>x \<in> set c. P x)"
  using skeleton_set by blast

lemma proper_component_skeleton: "proper_component (skeleton c) \<longleftrightarrow> proper_component c"
proof (cases "c = []")
  case False
  have a: "is_ascii x" if "bad_char x \<or> is_sep x \<or> x = CHR '':''" for x
    using that by (auto simp: bad_char_def is_sep_def is_ascii_def)
  have "(\<exists>x \<in> set (skeleton c). bad_char x \<or> is_sep x \<or> x = CHR '':'') \<longleftrightarrow>
      (\<exists>x \<in> set c. bad_char x \<or> is_sep x \<or> x = CHR '':'')"
    by (rule skeleton_bex) (rule a)
  moreover have "skeleton c = t \<longleftrightarrow> c = t" if "t \<in> {''.'', ''..''}" for t
    using that by (intro skeleton_ascii) auto
  moreover have "last (skeleton c) = x \<longleftrightarrow> last c = x" if "x \<in> {CHR '' '', CHR ''.''}" for x
    using that False by (intro skeleton_last) (auto simp: is_ascii_def)
  ultimately show ?thesis unfolding proper_component_def skeleton_reserved by simp
qed simp

lemma safe_path_skeleton: "safe_path (skeleton p) \<longleftrightarrow> safe_path p"
  by (simp add: safe_path_def skeleton_split_eq list_all_iff proper_component_skeleton)

text \<open>
  A name is clean if all bytes that its characters beyond ASCII have in the code page are beyond ASCII
  too. With UTF-8 and with the code pages of one byte for a character, every name is. In the others
  the second byte of a character can be an ASCII character, even a backslash.
\<close>

definition clean_char :: "text_env \<Rightarrow> string \<Rightarrow> bool" where
  "clean_char env ch \<longleftrightarrow> list_all is_ascii ch \<or>
     (case char_bytes env ch of None \<Rightarrow> True | Some bs \<Rightarrow> bs \<noteq> [] \<and> list_all (\<lambda>c. \<not> is_ascii c) bs)"

definition clean :: "text_env \<Rightarrow> string \<Rightarrow> bool" where
  "clean env s = list_all (clean_char env) (utf8_chars s)"

definition names_clean :: "text_env \<Rightarrow> zip_archive option \<Rightarrow> bool" where
  "names_clean env archive \<longleftrightarrow>
     (case archive of None \<Rightarrow> True | Some z \<Rightarrow> list_all (\<lambda>f. clean env (zip_name f)) (zip_entries z))"

lemma cont_not_ascii: "is_cont c \<Longrightarrow> \<not> is_ascii c"
  by (simp add: is_cont_def is_ascii_def)

lemma utf8_chars_append: "is_ascii x \<Longrightarrow> utf8_chars (a @ x # b) = utf8_chars a @ [x] # utf8_chars b"
proof (induction a rule: utf8_chars.induct)
  case (2 c s)
  have "\<not> is_cont x" using 2(3) cont_not_ascii by blast
  then have "takeWhile is_cont (s @ x # b) = takeWhile is_cont s" "dropWhile is_cont (s @ x # b) = dropWhile is_cont s @ x # b"
    by (induction s) auto
  then show ?case using 2 by simp
qed simp

lemma narrow_chars_append:
  "narrow_chars env (xs @ ys) =
    (case narrow_chars env xs of None \<Rightarrow> None | Some a \<Rightarrow> map_option (\<lambda>b. a @ b) (narrow_chars env ys))"
  by (induction xs) (auto simp: map_option_case split: option.split)

lemma narrow_slash:
  "narrow env (a @ CHR ''/'' # b) =
     (case narrow env a of None \<Rightarrow> None | Some x \<Rightarrow> map_option (\<lambda>y. x @ CHR ''/'' # y) (narrow env b))"
  by (simp add: narrow_def utf8_chars_append narrow_chars_append narrow_char_def option.map_comp o_def split: option.split)

lemma clean_slash [simp]: "clean env (a @ CHR ''/'' # b) \<longleftrightarrow> clean env a \<and> clean env b"
  by (simp add: clean_def utf8_chars_append clean_char_def)

lemma skeleton_hd: "s \<noteq> [] \<Longrightarrow> is_ascii (hd (skeleton s)) \<longleftrightarrow> is_ascii (hd s)"
proof (induction s)
  case (Cons c s)
  then show ?case by (cases s) auto
qed simp

lemma skeleton_marked:
  assumes "bs \<noteq> []" "list_all (\<lambda>c. \<not> is_ascii c) bs"
  shows "skeleton (bs @ t) =
    (if skeleton t \<noteq> [] \<and> \<not> is_ascii (hd (skeleton t)) then skeleton t else CHR 0x80 # skeleton t)"
  using assms
proof (induction bs)
  case (Cons c bs)
  show ?case
  proof (cases "bs = []")
    case True
    then show ?thesis using Cons.prems skeleton_hd [of t] by auto
  next
    case False
    then have "hd (bs @ t) = hd bs" "\<not> is_ascii (hd bs)" using Cons.prems by (cases bs; simp)+
    then show ?thesis using Cons False by simp
  qed
qed simp

lemma narrow_skeleton: "clean env p \<Longrightarrow> narrow env p = Some s \<Longrightarrow> skeleton s = skeleton p"
proof (induction p arbitrary: s rule: utf8_chars.induct)
  case (2 c p)
  show ?case
  proof (cases "is_ascii c")
    case True
    then obtain s' where "narrow env p = Some s'" "s = c # s'"
      using 2(4) by (auto simp: narrow_def narrow_char_def)
    with 2(1) [OF True] 2(3) True show ?thesis by (simp add: clean_def)
  next
    case False
    let ?ch = "c # takeWhile is_cont p"
    obtain bs s' where r: "char_bytes env ?ch = Some bs" "narrow env (dropWhile is_cont p) = Some s'" "s = bs @ s'"
      using 2(4) False by (auto simp: narrow_def narrow_char_def split: option.splits)
    have bs: "bs \<noteq> []" "list_all (\<lambda>c. \<not> is_ascii c) bs"
      using 2(3) False r(1) by (auto simp: clean_def clean_char_def)
    have "list_all (\<lambda>c. \<not> is_ascii c) ?ch" using False cont_not_ascii set_takeWhileD [of _ is_cont p] by (auto simp: list_all_iff)
    from skeleton_marked [OF _ this, of "dropWhile is_cont p"]
    have "skeleton (c # p) = skeleton (bs @ dropWhile is_cont p)"
      unfolding skeleton_marked [OF bs] append_Cons takeWhile_dropWhile_id by blast
    moreover have "skeleton s' = skeleton (dropWhile is_cont p)" using 2(2) [OF False _ r(2)] 2(3) False by (simp add: clean_def)
    ultimately show ?thesis unfolding r(3) skeleton_marked [OF bs] by simp
  qed
qed (simp add: narrow_def)

lemma narrow_nonempty: "clean env p \<Longrightarrow> narrow env p = Some [] \<Longrightarrow> p = []"
  using narrow_skeleton [of env p "[]"] skeleton_nil [of p] by simp

lemma narrow_no_slash: "clean env p \<Longrightarrow> narrow env p = Some s \<Longrightarrow> CHR ''/'' \<in> set s \<longleftrightarrow> CHR ''/'' \<in> set p"
  using narrow_skeleton [of env p s] skeleton_set [OF slash_ascii(1)] by metis

lemma LowerAscii_append [simp]: "LowerAscii (a @ b) = LowerAscii a @ LowerAscii b"
  by (simp add: LowerAscii_def)

lemma LowerAscii_twice: "LowerAscii (LowerAscii a) = LowerAscii a"
  by (induction a) (auto simp: LowerAscii_def lower_char_def)

lemma LowerAscii_slash [simp]: "LowerAscii (CHR ''/'' # b) = CHR ''/'' # LowerAscii b"
  by (simp add: LowerAscii_def lower_char_def)

lemma lower_beyond: "\<not> is_ascii c \<Longrightarrow> lower_char c = c"
  by (simp add: is_ascii_def lower_char_def)

lemma cont_lower [simp]: "is_cont (lower_char c) \<longleftrightarrow> is_cont c"
  by (cases "is_ascii c") (auto simp: lower_beyond cont_not_ascii dest: cont_not_ascii)

lemma lower_conts: "LowerAscii (takeWhile is_cont s) = takeWhile is_cont s"
  by (induction s) (auto simp: LowerAscii_def lower_beyond cont_not_ascii)

lemma utf8_chars_lower: "utf8_chars (LowerAscii s) = map LowerAscii (utf8_chars s)"
proof (induction s rule: utf8_chars.induct)
  case (2 c s)
  have "takeWhile is_cont (LowerAscii s) = takeWhile is_cont s" "dropWhile is_cont (LowerAscii s) = LowerAscii (dropWhile is_cont s)"
    by (induction s) (auto simp: LowerAscii_def lower_beyond cont_not_ascii)
  then show ?case using 2 lower_conts [of s] by (auto simp: LowerAscii_def [of "c # _"] lower_beyond) (simp_all add: LowerAscii_def)
qed (simp add: LowerAscii_def)

lemma narrow_char_lower:
  "ch \<in> set (utf8_chars p) \<Longrightarrow> map_option LowerAscii (narrow_char env (LowerAscii ch)) = map_option LowerAscii (narrow_char env ch)"
proof (induction p rule: utf8_chars.induct)
  case (2 c s)
  have "LowerAscii (c # takeWhile is_cont s) = c # takeWhile is_cont s" if "\<not> is_ascii c"
    using that lower_conts [of s] by (simp add: LowerAscii_def lower_beyond)
  moreover have "LowerAscii [c] = [lower_char c]" "lower_char (lower_char c) = lower_char c"
    using LowerAscii_twice [of "[c]"] by (simp_all add: LowerAscii_def)
  ultimately show ?case using 2 by (auto simp: narrow_char_def LowerAscii_def split: if_splits)
qed simp

lemma narrow_chars_lower:
  assumes "\<And>ch. ch \<in> set chs \<Longrightarrow> map_option LowerAscii (narrow_char env (LowerAscii ch)) = map_option LowerAscii (narrow_char env ch)"
  shows "map_option LowerAscii (narrow_chars env (map LowerAscii chs)) = map_option LowerAscii (narrow_chars env chs)"
  using assms
proof (induction chs)
  case (Cons ch chs)
  have "map_option LowerAscii (narrow_char env (LowerAscii ch)) = map_option LowerAscii (narrow_char env ch)"
    "map_option LowerAscii (narrow_chars env (map LowerAscii chs)) = map_option LowerAscii (narrow_chars env chs)"
    using Cons by simp_all
  then show ?case by (auto simp: map_option_case split: option.splits)
qed simp

lemma narrow_of_lower: "map_option LowerAscii (narrow env (LowerAscii p)) = map_option LowerAscii (narrow env p)"
  unfolding narrow_def utf8_chars_lower by (rule narrow_chars_lower) (rule narrow_char_lower)

lemma narrow_lower:
  assumes "narrow env p = Some s" "narrow env q = Some t" "LowerAscii p = LowerAscii q"
  shows "LowerAscii s = LowerAscii t"
  using narrow_of_lower [of env p] narrow_of_lower [of env q] assms by simp

text \<open>The names of an inspected archive are its names with slashes.\<close>

lemma clean_char_ascii: "list_all is_ascii ch \<Longrightarrow> clean_char env ch"
  by (simp add: clean_char_def)

lemma clean_slashes: "clean env (map (\<lambda>c. if c = CHR 0x5C then CHR ''/'' else c) s) \<longleftrightarrow> clean env s"
proof (induction s rule: utf8_chars.induct)
  case (2 c s)
  let ?f = "\<lambda>c. if c = CHR 0x5C then CHR ''/'' else c"
  have f: "is_ascii (?f c) \<longleftrightarrow> is_ascii c" "is_cont (?f c) \<longleftrightarrow> is_cont c" "is_cont c \<Longrightarrow> ?f c = c" for c
    by (auto simp: is_ascii_def is_cont_def)
  have "takeWhile is_cont (map ?f s) = takeWhile is_cont s" "dropWhile is_cont (map ?f s) = map ?f (dropWhile is_cont s)"
    by (induction s) (use f in auto)
  moreover have "?f c = c" if "\<not> is_ascii c" using that by (auto simp: is_ascii_def)
  ultimately show ?case using 2 f(1) [of c] by (auto simp: clean_def clean_char_ascii)
qed (simp add: clean_def)

lemma clean_trim: "clean env s \<Longrightarrow> clean env (rev (dropWhile (\<lambda>c. c = CHR ''/'') (rev s)))"
proof (induction s rule: rev_induct)
  case (snoc x s)
  then show ?case using clean_slash [of env s "[]"] by auto
qed simp

lemma clean_normalized: "clean env raw \<Longrightarrow> NormalizeArchivePath raw = Inr (n, d) \<Longrightarrow> clean env n"
  using clean_trim [OF clean_slashes [THEN iffD2]]
  by (auto simp: NormalizeArchivePath_def Let_def split: if_splits option.splits)

lemma slash_unique:
  "a @ CHR ''/'' # b = x @ CHR ''/'' # y \<Longrightarrow> CHR ''/'' \<notin> set a \<Longrightarrow> CHR ''/'' \<notin> set x \<Longrightarrow> a = x \<and> b = y"
proof -
  assume eq: "a @ CHR ''/'' # b = x @ CHR ''/'' # y" and a: "CHR ''/'' \<notin> set a" and x: "CHR ''/'' \<notin> set x"
  have "takeWhile (\<lambda>c. c \<noteq> CHR ''/'') (a @ CHR ''/'' # b) = a" using a by (subst takeWhile_append2) auto
  moreover have "takeWhile (\<lambda>c. c \<noteq> CHR ''/'') (x @ CHR ''/'' # y) = x" using x by (subst takeWhile_append2) auto
  ultimately have "a = x" using eq by simp
  then show ?thesis using eq by simp
qed

lemma stripped_safe:
  assumes "clean env p" "safe_path p" "narrow env p = Some (a @ CHR ''/'' # b)" "CHR ''/'' \<notin> set a"
  shows "safe_path b"
proof -
  have "CHR ''/'' \<in> set p" using narrow_no_slash [OF assms(1,3)] by simp
  then obtain x y where p: "p = x @ CHR ''/'' # y" "CHR ''/'' \<notin> set x" by (metis split_list_first)
  then obtain x' y' where n: "narrow env x = Some x'" "narrow env y = Some y'" "a @ CHR ''/'' # b = x' @ CHR ''/'' # y'"
    using assms(3) by (auto simp: narrow_slash split: option.splits)
  have c: "clean env x" "clean env y" using assms(1) p(1) by simp_all
  have "CHR ''/'' \<notin> set x'" using narrow_no_slash [OF c(1) n(1)] p(2) by simp
  then have "b = y'" using slash_unique [OF n(3) assms(4)] by blast
  then have "skeleton b = skeleton y" using narrow_skeleton [OF c(2) n(2)] by simp
  moreover have "safe_path y" using assms(2) by (simp add: p(1) safe_path_def split_slash_append)
  ultimately show ?thesis using safe_path_skeleton by metis
qed

section \<open>Inspection\<close>

definition entry_ok :: "ArchiveEntry \<Rightarrow> bool" where
  "entry_ok e \<longleftrightarrow> safe_path (relativePath e) \<and> unat (uncompressedSize e) \<le> 2 ^ 31"

lemma inspect_entry_ok:
  assumes "inspect_entry f expanded = Ret (Inr (e, expanded'))" "unat expanded \<le> 2 ^ 33"
  shows "entry_ok e \<and> (\<exists>d. NormalizeArchivePath (zip_name f) = Inr (relativePath e, d)) \<and> uncompressedSize e = uncompressed_size f \<and>
    unat expanded' = unat expanded + unat (uncompressedSize e) \<and> unat expanded' \<le> 2 ^ 33"
proof -
  let ?n = "uncompressed_size f"
  obtain n d where n: "NormalizeArchivePath (zip_name f) = Inr (n, d)" "relativePath e = n" "uncompressedSize e = ?n" "expanded' = expanded + ?n"
    and le: "\<not> ?n > MAX_ENTRY_BYTES" "\<not> expanded > MAX_EXPANDED_BYTES - ?n"
    using assms(1) by (auto simp: inspect_entry_def u8path_def obind_Ret split: if_splits sum.splits prod.splits)
  have m: "unat MAX_ENTRY_BYTES = 2 ^ 31" "unat MAX_EXPANDED_BYTES = 2 ^ 33"
    by (simp_all add: MAX_ENTRY_BYTES_def MAX_EXPANDED_BYTES_def)
  have n31: "unat ?n \<le> 2 ^ 31" using le(1) m(1) by (simp add: word_less_nat_alt)
  then have "?n \<le> MAX_EXPANDED_BYTES" using m(2) by (simp add: word_le_nat_alt)
  then have "unat (MAX_EXPANDED_BYTES - ?n) = 2 ^ 33 - unat ?n" using m(2) by (simp add: unat_sub)
  then have b: "unat expanded + unat ?n \<le> 2 ^ 33" using le(2) n31 by (simp add: word_less_nat_alt)
  then have "unat (expanded + ?n) = unat expanded + unat ?n" by (simp add: unat_add_lem [THEN iffD1])
  then show ?thesis using n n31 b NormalizeArchivePath_safe [OF n(1)] by (simp add: entry_ok_def)
qed

lemma inspect_entries_ok:
  "inspect_entries n fs expanded = Ret (Inr es) \<Longrightarrow> unat expanded \<le> 2 ^ 33 \<Longrightarrow>
   n \<le> length fs \<and> list_all2 (\<lambda>f e. uncompressedSize e = uncompressed_size f) (take n fs) es \<and>
   (\<forall>e \<in> set es. entry_ok e \<and> (\<exists>f \<in> set fs. \<exists>d. NormalizeArchivePath (zip_name f) = Inr (relativePath e, d))) \<and> unat expanded + (\<Sum>e\<leftarrow>es. unat (uncompressedSize e)) \<le> 2 ^ 33"
proof (induction n fs expanded arbitrary: es rule: inspect_entries.induct)
  case (3 n f fs expanded)
  obtain e expanded' es' where r: "inspect_entry f expanded = Ret (Inr (e, expanded'))"
    "inspect_entries n fs expanded' = Ret (Inr es')" "es = e # es'"
    using 3(2) by (auto simp: ebind_Inr)
  from inspect_entry_ok [OF r(1) 3(3)] have e: "entry_ok e" "uncompressedSize e = uncompressed_size f"
    "\<exists>d. NormalizeArchivePath (zip_name f) = Inr (relativePath e, d)" "unat expanded' = unat expanded + unat (uncompressedSize e)" "unat expanded' \<le> 2 ^ 33" by auto
  from 3(1) [OF r(2) e(5)] show ?case using e r(3) by auto
qed simp_all

text \<open>The paths entered in the sets, and the entry each belongs to.\<close>

definition keys :: "(ArchiveEntry \<times> string option) list \<Rightarrow> string list" where
  "keys rs = concat (map (\<lambda>(e, k). case k of None \<Rightarrow> [] | Some p \<Rightarrow> [LowerAscii p]) rs)"

lemma keys_simps [simp]:
  "keys [] = []"
  "keys ((e, None) # rs) = keys rs"
  "keys ((e, Some p) # rs) = LowerAscii p # keys rs"
  by (simp_all add: keys_def)

lemma keys_member: "k \<in> set (keys rs) \<longleftrightarrow> (\<exists>e p. (e, Some p) \<in> set rs \<and> k = LowerAscii p)"
  by (auto simp: keys_def split: option.splits)

lemma strip_entries_ok:
  "strip_entries env pre occupied files es = Ret (Inr (es', occupied', files')) \<Longrightarrow> distinct occupied \<Longrightarrow>
   \<exists>rs. es' = map fst rs \<and> list_all2 (\<lambda>e r. strip_entry env pre e = Ret (Inr r)) es rs \<and>
     set occupied' = set occupied \<union> set (keys rs) \<and> distinct (keys rs) \<and> set occupied \<inter> set (keys rs) = {} \<and>
     set files' = set files \<union> {LowerAscii p | e p. (e, Some p) \<in> set rs \<and> \<not> is_directory e}"
proof (induction es arbitrary: occupied files es')
  case (Cons e es)
  obtain entry k es1 where r: "strip_entry env pre e = Ret (Inr (entry, k))"
    "\<not> (\<exists>p. k = Some p \<and> LowerAscii p \<in> set occupied)"
    "strip_entries env pre (case k of None \<Rightarrow> occupied | Some p \<Rightarrow> LowerAscii p # occupied)
       (case k of None \<Rightarrow> files | Some p \<Rightarrow> if is_directory entry then files else LowerAscii p # files) es = Ret (Inr (es1, occupied', files'))"
    "es' = entry # es1"
    using Cons.prems(1) by (auto simp: ebind_Inr Let_def split: if_splits option.splits)
  have d: "distinct (case k of None \<Rightarrow> occupied | Some p \<Rightarrow> LowerAscii p # occupied)"
    using Cons.prems(2) r(2) by (auto split: option.split)
  obtain rs where rs: "es1 = map fst rs" "list_all2 (\<lambda>e r. strip_entry env pre e = Ret (Inr r)) es rs"
    "set occupied' = set (case k of None \<Rightarrow> occupied | Some p \<Rightarrow> LowerAscii p # occupied) \<union> set (keys rs)" "distinct (keys rs)"
    "set (case k of None \<Rightarrow> occupied | Some p \<Rightarrow> LowerAscii p # occupied) \<inter> set (keys rs) = {}"
    "set files' = set (case k of None \<Rightarrow> files | Some p \<Rightarrow> if is_directory entry then files else LowerAscii p # files) \<union>
       {LowerAscii p | e p. (e, Some p) \<in> set rs \<and> \<not> is_directory e}"
    using Cons.IH [OF r(3) d] by blast
  show ?case
    using rs r(1,2,4) by (intro exI [of _ "(entry, k) # rs"]) (cases k; auto)
qed simp

lemma strip_entry_kept:
  "strip_entry env pre e = Ret (Inr (e', k)) \<Longrightarrow>
   uncompressedSize e' = uncompressedSize e \<and> is_directory e' = is_directory e \<and> archiveName e' = archiveName e"
  by (auto simp: strip_entry_def obind_Ret Let_def split: if_splits)

text \<open>What is entered for an entry, and that its new path is safe.\<close>

definition key_of :: "text_env \<Rightarrow> string \<Rightarrow> string \<Rightarrow> string" where
  "key_of env pre p = (if pre = [] then the (narrow env p) else p)"

lemma strip_entry_ok:
  assumes "clean env (relativePath e)" "strip_entry env pre e = Ret (Inr (e', k))" "safe_path (relativePath e)"
    and "pre = [] \<or> (\<exists>a. pre = a @ ''/'' \<and> CHR ''/'' \<notin> set a \<and>
           (\<forall>s. narrow env (relativePath e) = Some s \<longrightarrow> s = a \<or> starts_with s (a @ ''/'')))"
  shows "(relativePath e' = [] \<and> is_directory e' \<and> k = None) \<or>
    (safe_path (relativePath e') \<and> (pre = [] \<longrightarrow> narrow env (relativePath e') \<noteq> None) \<and> k = Some (key_of env pre (relativePath e')))"
proof -
  obtain s where s: "narrow env (relativePath e) = Some s"
    using assms(2) by (auto simp: strip_entry_def obind_Ret generic_string_def split: option.splits)
  show ?thesis
  proof (cases "pre = []")
    case True
    have "s \<noteq> []" using narrow_nonempty [OF assms(1)] s safe_path_nonempty [OF assms(3)] by blast
    then have "e' = e" "k = Some s" using assms(2) s True by (simp_all add: strip_entry_def generic_string_def)
    then show ?thesis using assms(3) s True by (simp add: key_of_def)
  next
    case False
    then obtain a where a: "pre = a @ ''/''" "CHR ''/'' \<notin> set a" "s = a \<or> starts_with s (a @ ''/'')" using assms(4) s by auto
    show ?thesis
    proof (cases "s = a")
      case True
      then show ?thesis using assms(2) s a(1) by (auto simp: strip_entry_def generic_string_def split: if_splits)
    next
      case False
      let ?b = "drop (length pre) s"
      have sb: "s = a @ CHR ''/'' # ?b"
        using a(1,3) False append_take_drop_id [of "length pre" s] by (simp add: starts_with_def)
      have k: "e' = e\<lparr>relativePath := ?b\<rparr>" "k = (if ?b = [] then None else Some ?b)"
        using assms(2) s a(1) False by (auto simp: strip_entry_def generic_string_def u8path_def obind_Ret Let_def split: if_splits)
      have b: "safe_path ?b" using stripped_safe [OF assms(1,3) _ a(2)] s sb by simp
      from safe_path_nonempty [OF this] show ?thesis using b k \<open>pre \<noteq> []\<close> by (simp add: key_of_def)
    qed
  qed
qed

lemma all_in_root_ok:
  "all_in_root env a es = Ret True \<Longrightarrow> e \<in> set es \<Longrightarrow> narrow env (relativePath e) = Some s \<Longrightarrow> s = a \<or> starts_with s (a @ ''/'')"
  by (induction es) (auto simp: obind_Ret generic_string_def split: if_splits)

lemma root_prefix_ok:
  assumes "root_prefix env es = Ret (Inr pre)"
  shows "pre = [] \<or> (\<exists>a. pre = a @ ''/'' \<and> CHR ''/'' \<notin> set a \<and>
    (\<forall>e \<in> set es. \<forall>s. narrow env (relativePath e) = Some s \<longrightarrow> s = a \<or> starts_with s (a @ ''/'')))"
proof (cases "pre = []")
  case False
  obtain t where "pre = takeWhile (\<lambda>c. c \<noteq> CHR ''/'') t @ ''/''" "all_in_root env (takeWhile (\<lambda>c. c \<noteq> CHR ''/'') t) es = Ret True"
    using assms False by (auto simp: root_prefix_def obind_Ret Let_def split: if_splits)
  moreover have "CHR ''/'' \<notin> set (takeWhile (\<lambda>c. c \<noteq> CHR ''/'') t)" using set_takeWhileD by fastforce
  ultimately show ?thesis using all_in_root_ok by blast
qed simp

lemma list_all2_set2: "list_all2 P xs ys \<Longrightarrow> y \<in> set ys \<Longrightarrow> \<exists>x \<in> set xs. P x y"
  by (induction rule: list_all2_induct) auto

lemma parent_text: "q \<in> set (parent_texts (q @ CHR ''/'' # r))"
  by (auto simp: parent_texts_def intro!: bexI [of _ "length q"])

lemma keys_of:
  assumes "\<forall>(e, k) \<in> set rs. relativePath e = [] \<and> k = None \<or> relativePath e \<noteq> [] \<and> k = Some (f (relativePath e))"
  shows "keys rs = map (\<lambda>e. LowerAscii (f (relativePath e))) (filter (\<lambda>e. relativePath e \<noteq> []) (map fst rs))"
  using assms by (induction rs) auto

lemma distinct_map_coarser:
  assumes "distinct (map f xs)" "\<And>x y. x \<in> set xs \<Longrightarrow> y \<in> set xs \<Longrightarrow> g x = g y \<Longrightarrow> f x = f y"
  shows "distinct (map g xs)"
  using assms unfolding distinct_map inj_on_def by metis

text \<open>What is known of the entries of an archive that was accepted, and of the keys entered for them.\<close>

lemma InspectArchive_parts:
  assumes "names_clean env archive" "InspectArchive env archive = Ret (Inr es)"
  obtains z pre where "archive = Some z" "length es \<le> length (zip_entries z)" "es \<noteq> []" "length es \<le> 20000"
    "list_all2 (\<lambda>f e. uncompressedSize e = uncompressed_size f) (take (length es) (zip_entries z)) es"
    "(\<Sum>e\<leftarrow>es. unat (uncompressedSize e)) \<le> 2 ^ 33"
    "\<forall>e \<in> set es. unat (uncompressedSize e) \<le> 2 ^ 31 \<and>
      (relativePath e = [] \<and> is_directory e \<or> safe_path (relativePath e) \<and> (pre = [] \<longrightarrow> narrow env (relativePath e) \<noteq> None))"
    "distinct (map (\<lambda>e. LowerAscii (key_of env pre (relativePath e))) (filter (\<lambda>e. relativePath e \<noteq> []) es))"
    "\<And>e f r. e \<in> set es \<Longrightarrow> f \<in> set es \<Longrightarrow> relativePath e \<noteq> [] \<Longrightarrow> relativePath f \<noteq> [] \<Longrightarrow> \<not> is_directory f \<Longrightarrow>
       LowerAscii (key_of env pre (relativePath e)) \<noteq> LowerAscii (key_of env pre (relativePath f)) @ CHR ''/'' # r"
proof -
  obtain z n es0 pre occ files where z: "archive = Some z" "n \<noteq> 0" "\<not> n > MAX_ARCHIVE_ENTRIES"
    "inspect_entries (unat n) (zip_entries z) 0 = Ret (Inr es0)" "root_prefix env es0 = Ret (Inr pre)"
    "strip_entries env pre [] [] es0 = Ret (Inr (es, occ, files))" "\<not> path_collision occ files"
    using assms(2) by (auto simp: InspectArchive_def ebind_Inr split: option.splits if_splits)
  have i: "unat n \<le> length (zip_entries z)" "list_all2 (\<lambda>f e. uncompressedSize e = uncompressed_size f) (take (unat n) (zip_entries z)) es0"
    "\<forall>e \<in> set es0. entry_ok e \<and> (\<exists>f \<in> set (zip_entries z). \<exists>d. NormalizeArchivePath (zip_name f) = Inr (relativePath e, d))" "(\<Sum>e\<leftarrow>es0. unat (uncompressedSize e)) \<le> 2 ^ 33"
    using inspect_entries_ok [OF z(4)] by simp_all
  obtain rs where rs: "es = map fst rs" "list_all2 (\<lambda>e r. strip_entry env pre e = Ret (Inr r)) es0 rs"
    "set occ = set (keys rs)" "distinct (keys rs)" "set files = {LowerAscii p | e p. (e, Some p) \<in> set rs \<and> \<not> is_directory e}"
    using strip_entries_ok [OF z(6)] by auto
  have len: "length es = unat n" using rs(1,2) i(1,2) by (auto dest!: list_all2_lengthD)
  have n: "unat n \<noteq> 0" "unat n \<le> 20000" using z(2,3) by (simp_all add: unat_eq_zero MAX_ARCHIVE_ENTRIES_def word_less_nat_alt)
  have sizes: "map uncompressedSize es = map uncompressedSize es0"
    using rs(2) unfolding rs(1) by (induction rule: list_all2_induct) (auto simp: strip_entry_kept)
  have u: "map (\<lambda>e. unat (uncompressedSize e)) xs = map unat (map uncompressedSize xs)" for xs :: "ArchiveEntry list"
    by simp
  have each: "unat (uncompressedSize e) \<le> 2 ^ 31 \<and>
      (relativePath e = [] \<and> is_directory e \<and> k = None \<or>
       safe_path (relativePath e) \<and> (pre = [] \<longrightarrow> narrow env (relativePath e) \<noteq> None) \<and> k = Some (key_of env pre (relativePath e)))"
    if ek: "(e, k) \<in> set rs" for e k
  proof -
    obtain e0 where e0: "e0 \<in> set es0" "strip_entry env pre e0 = Ret (Inr (e, k))"
      using list_all2_set2 [OF rs(2) ek] by blast
    have ok: "safe_path (relativePath e0)" "unat (uncompressedSize e0) \<le> 2 ^ 31" using i(3) e0(1) by (simp_all add: entry_ok_def)
    have "clean env (relativePath e0)"
      using i(3) e0(1) assms(1) z(1) clean_normalized by (fastforce simp: names_clean_def list_all_iff)
    from strip_entry_ok [OF this e0(2) ok(1)] show ?thesis
      using root_prefix_ok [OF z(5)] e0(1) ok(2) strip_entry_kept [OF e0(2)] by auto
  qed
  have ks: "keys rs = map (\<lambda>e. LowerAscii (key_of env pre (relativePath e))) (filter (\<lambda>e. relativePath e \<noteq> []) es)"
    unfolding rs(1) by (rule keys_of) (use each safe_path_nonempty in blast)
  show ?thesis
  proof (rule that [of z pre])
    show "(\<Sum>e\<leftarrow>es. unat (uncompressedSize e)) \<le> 2 ^ 33"
      using i(4) unfolding u sizes .
    show "list_all2 (\<lambda>f e. uncompressedSize e = uncompressed_size f) (take (length es) (zip_entries z)) es"
      using i(2) sizes len list_all2_map2 [of "\<lambda>f x. x = uncompressed_size f" "take (unat n) (zip_entries z)" uncompressedSize]
      by metis
    show "\<forall>e \<in> set es. unat (uncompressedSize e) \<le> 2 ^ 31 \<and>
        (relativePath e = [] \<and> is_directory e \<or> safe_path (relativePath e) \<and> (pre = [] \<longrightarrow> narrow env (relativePath e) \<noteq> None))"
      using each unfolding rs(1) by fastforce
    show "distinct (map (\<lambda>e. LowerAscii (key_of env pre (relativePath e))) (filter (\<lambda>e. relativePath e \<noteq> []) es))"
      using rs(4) ks by simp
  next
    fix e f r assume *: "e \<in> set es" "f \<in> set es" "relativePath e \<noteq> []" "relativePath f \<noteq> []" "\<not> is_directory f"
    obtain k where "(f, k) \<in> set rs" using *(2) rs(1) by auto
    then have "LowerAscii (key_of env pre (relativePath f)) \<in> set files" using each *(4,5) rs(5) by blast
    moreover have "LowerAscii (key_of env pre (relativePath e)) \<in> set occ" using *(1,3) rs(3) ks by auto
    ultimately show "LowerAscii (key_of env pre (relativePath e)) \<noteq> LowerAscii (key_of env pre (relativePath f)) @ CHR ''/'' # r"
      using z(7) parent_text unfolding path_collision_def by metis
  qed (use z len n i in auto)
qed

lemma key_lower:
  assumes "pre = [] \<longrightarrow> narrow env p \<noteq> None" "pre = [] \<longrightarrow> narrow env q \<noteq> None" "LowerAscii p = LowerAscii q"
  shows "LowerAscii (key_of env pre p) = LowerAscii (key_of env pre q)"
  using assms narrow_lower by (auto simp: key_of_def)

lemma key_below:
  assumes "pre = [] \<longrightarrow> narrow env p \<noteq> None" "pre = [] \<longrightarrow> narrow env q \<noteq> None"
    and "LowerAscii p = LowerAscii q @ CHR ''/'' # r"
  shows "\<exists>r'. LowerAscii (key_of env pre p) = LowerAscii (key_of env pre q) @ CHR ''/'' # r'"
proof (cases "pre = []")
  case True
  then obtain s t where st: "narrow env p = Some s" "narrow env q = Some t" using assms(1,2) by auto
  obtain s' t' where l: "narrow env (LowerAscii p) = Some s'" "LowerAscii s' = LowerAscii s"
    "narrow env (LowerAscii q) = Some t'" "LowerAscii t' = LowerAscii t"
    using narrow_of_lower [of env p] narrow_of_lower [of env q] st by auto
  have "narrow env (LowerAscii q @ CHR ''/'' # r) =
      (case narrow env (LowerAscii q) of None \<Rightarrow> None | Some x \<Rightarrow> map_option (\<lambda>y. x @ CHR ''/'' # y) (narrow env r))"
    by (rule narrow_slash)
  then obtain y where "s' = t' @ CHR ''/'' # y" using l(1,3) assms(3) by (auto split: option.splits)
  then have "LowerAscii s = LowerAscii t @ CHR ''/'' # LowerAscii y" using l(2,4) by simp
  then show ?thesis using st True by (simp add: key_of_def)
qed (use assms(3) in \<open>simp add: key_of_def\<close>)

lemma inspected_archive_facts:
  assumes "names_clean env archive" "InspectArchive env archive = Ret (Inr es)"
  shows "es \<noteq> [] \<and> length es \<le> 20000 \<and> (\<Sum>e\<leftarrow>es. unat (uncompressedSize e)) \<le> 8 * 2 ^ 30 \<and>
    (\<forall>e \<in> set es. unat (uncompressedSize e) \<le> 2 * 2 ^ 30 \<and>
       (relativePath e = [] \<and> is_directory e \<or> safe_path (relativePath e))) \<and>
    distinct (map (\<lambda>e. LowerAscii (relativePath e)) (filter (\<lambda>e. relativePath e \<noteq> []) es)) \<and>
    (\<forall>e \<in> set es. \<forall>f \<in> set es. \<not> is_directory f \<longrightarrow>
       \<not> starts_with (LowerAscii (relativePath e)) (LowerAscii (relativePath f) @ ''/''))"
proof (rule InspectArchive_parts [OF assms])
  fix z pre
  assume a: "es \<noteq> []" "length es \<le> 20000" "(\<Sum>e\<leftarrow>es. unat (uncompressedSize e)) \<le> 2 ^ 33"
    and e: "\<forall>e \<in> set es. unat (uncompressedSize e) \<le> 2 ^ 31 \<and>
      (relativePath e = [] \<and> is_directory e \<or> safe_path (relativePath e) \<and> (pre = [] \<longrightarrow> narrow env (relativePath e) \<noteq> None))"
    and d: "distinct (map (\<lambda>e. LowerAscii (key_of env pre (relativePath e))) (filter (\<lambda>e. relativePath e \<noteq> []) es))"
    and c: "\<And>e f r. e \<in> set es \<Longrightarrow> f \<in> set es \<Longrightarrow> relativePath e \<noteq> [] \<Longrightarrow> relativePath f \<noteq> [] \<Longrightarrow> \<not> is_directory f \<Longrightarrow>
       LowerAscii (key_of env pre (relativePath e)) \<noteq> LowerAscii (key_of env pre (relativePath f)) @ CHR ''/'' # r"
  have dis: "distinct (map (\<lambda>e. LowerAscii (relativePath e)) (filter (\<lambda>e. relativePath e \<noteq> []) es))"
  proof (rule distinct_map_coarser [OF d])
    fix x y assume xy: "x \<in> set (filter (\<lambda>e. relativePath e \<noteq> []) es)" "y \<in> set (filter (\<lambda>e. relativePath e \<noteq> []) es)"
      and eq: "LowerAscii (relativePath x) = LowerAscii (relativePath y)"
    have "pre = [] \<longrightarrow> narrow env (relativePath x) \<noteq> None" "pre = [] \<longrightarrow> narrow env (relativePath y) \<noteq> None"
      using xy e by simp_all blast+
    then show "LowerAscii (key_of env pre (relativePath x)) = LowerAscii (key_of env pre (relativePath y))"
      using key_lower [OF _ _ eq] by blast
  qed
  have "\<not> starts_with (LowerAscii (relativePath x)) (LowerAscii (relativePath f) @ ''/'')"
    if x: "x \<in> set es" "f \<in> set es" "\<not> is_directory f" for x f
  proof
    assume s: "starts_with (LowerAscii (relativePath x)) (LowerAscii (relativePath f) @ ''/'')"
    let ?q = "LowerAscii (relativePath f) @ ''/''"
    have "LowerAscii (relativePath x) = ?q @ drop (length ?q) (LowerAscii (relativePath x))"
      using s append_take_drop_id [of "length ?q" "LowerAscii (relativePath x)"] unfolding starts_with_def by simp
    then obtain r where r: "LowerAscii (relativePath x) = LowerAscii (relativePath f) @ CHR ''/'' # r" by auto
    then have "relativePath x \<noteq> []" by (auto simp: LowerAscii_def)
    moreover have "relativePath f \<noteq> []" using e x(2,3) safe_path_nonempty by blast
    ultimately show False using key_below [OF _ _ r, of pre] e x c [OF x(1,2)] by blast
  qed
  then show ?thesis using a e dis by auto
qed

text \<open>
  C16: An archive that \<open>InspectArchive\<close> accepts, and whose names are clean in the code page of the
  process, which all are unless a character takes several bytes there with ASCII among them, has at most 20,000 entries of at most two gigabytes
  each and eight together. The path of each is empty, for the directory that is the root of the
  package, or a relative path without empty, dot, reserved or invalid elements. No two paths are
  equal up to the case of ASCII letters, and none is below the path of a file.
\<close>

theorem inspected_archive_safe:
  assumes "names_clean env archive" "InspectArchive env archive = Ret (Inr es)"
  shows "es \<noteq> [] \<and> length es \<le> 20000 \<and> (\<Sum>e\<leftarrow>es. unat (uncompressedSize e)) \<le> 8 * 2 ^ 30 \<and>
    (\<forall>e \<in> set es. unat (uncompressedSize e) \<le> 2 * 2 ^ 30 \<and>
       (relativePath e = [] \<and> is_directory e \<or> safe_path (relativePath e))) \<and>
    distinct (map (\<lambda>e. LowerAscii (relativePath e)) (filter (\<lambda>e. relativePath e \<noteq> []) es)) \<and>
    (\<forall>e \<in> set es. \<forall>f \<in> set es. \<not> is_directory f \<longrightarrow>
       \<not> starts_with (LowerAscii (relativePath e)) (LowerAscii (relativePath f) @ ''/''))"
  by (rule inspected_archive_facts [OF assms])

text \<open>The code page of Latin-1, where each of these characters is one byte.\<close>

definition ex_text :: text_env where
  "ex_text = \<lparr>char_bytes = (\<lambda>ch. case ch of
     [a, b] \<Rightarrow> if a = CHR 0xC2 then Some [b] else if a = CHR 0xC3 then Some [char_of ((of_char b :: nat) + 64)] else None
   | _ \<Rightarrow> None)\<rparr>"

definition ex_file :: "string \<Rightarrow> string \<Rightarrow> zip_entry" where
  "ex_file n c = \<lparr>info_ok = True, name_ok = True, zip_name = n, flag = 0, external_fa = 0, compressed_size = 1,
     uncompressed_size = of_nat (length c), open_ok = True, blocks = (if c = [] then [] else [c]), reads_to_end = True, close_ok = True\<rparr>"

definition ex_zip :: zip_archive where
  "ex_zip = \<lparr>number_entry = Some 3, zip_entries = [ex_file ''m/'' [], ex_file ''m/mod.json'' ''{}'', ex_file ''m/A/b'' ''x'']\<rparr>"

definition ex_entries :: "ArchiveEntry list" where
  "ex_entries =
     [\<lparr>archiveName = ''m/'', relativePath = [], compressedSize = 1, uncompressedSize = 0, is_directory = True\<rparr>,
      \<lparr>archiveName = ''m/mod.json'', relativePath = ''mod.json'', compressedSize = 1, uncompressedSize = 2, is_directory = False\<rparr>,
      \<lparr>archiveName = ''m/A/b'', relativePath = ''A/b'', compressedSize = 1, uncompressedSize = 1, is_directory = False\<rparr>]"

lemma ex_inspect: "InspectArchive ex_text (Some ex_zip) = Ret (Inr ex_entries)"
  by code_simp

lemma ex_clean: "names_clean ex_text (Some ex_zip)"
  by code_simp

text \<open>A name that becomes another text in the code page.\<close>

definition latin_zip :: zip_archive where
  "latin_zip = \<lparr>number_entry = Some 2, zip_entries = [ex_file ''mod.json'' ''{}'', ex_file [CHR 0xC3, CHR 0xA9] ''x'']\<rparr>"

lemma inspected_archive_safe_witness:
  "narrow ex_text [CHR 0xC3, CHR 0xA9] = Some [CHR 0xE9] \<and>
   (\<exists>es. InspectArchive ex_text (Some latin_zip) = Ret (Inr es) \<and> length es = 2 \<and> safe_path (relativePath (es ! 1)))"
proof -
  have i: "case InspectArchive ex_text (Some latin_zip) of
      Ret (Inr es) \<Rightarrow> length es = 2 \<and> \<not> is_directory (es ! 1) | _ \<Rightarrow> False" by code_simp
  then obtain es where es: "InspectArchive ex_text (Some latin_zip) = Ret (Inr es)" "length es = 2" "\<not> is_directory (es ! 1)"
    by (auto split: outcome.splits sum.splits)
  have "names_clean ex_text (Some latin_zip)" "narrow ex_text [CHR 0xC3, CHR 0xA9] = Some [CHR 0xE9]" by code_simp+
  then show ?thesis using inspected_archive_safe [OF _ es(1)] es nth_mem [of 1 es] by auto
qed

text \<open>
  All names are clean if the characters beyond ASCII have no ASCII bytes, and so they are in UTF-8.
\<close>

lemma all_names_clean:
  assumes "\<And>ch bs. char_bytes env ch = Some bs \<Longrightarrow> bs \<noteq> [] \<and> list_all (\<lambda>c. \<not> is_ascii c) bs"
  shows "names_clean env archive"
  using assms by (auto simp: names_clean_def clean_def clean_char_def list_all_iff split: option.split)

lemma utf8_char_bytes: "ch \<in> set (utf8_chars s) \<Longrightarrow> ch \<noteq> [] \<and> (list_all is_ascii ch \<or> list_all (\<lambda>c. \<not> is_ascii c) ch)"
proof (induction s rule: utf8_chars.induct)
  case (2 c s)
  have "list_all (\<lambda>c. \<not> is_ascii c) (takeWhile is_cont s)"
    using cont_not_ascii set_takeWhileD [of _ is_cont s] by (auto simp: list_all_iff)
  then show ?case using 2 by (auto split: if_splits)
qed simp

lemma utf8_names_clean: "names_clean \<lparr>char_bytes = Some\<rparr> archive"
  using utf8_char_bytes by (auto simp: names_clean_def clean_def clean_char_def list_all_iff split: option.split)

text \<open>
  With a code page of two bytes the check can be evaded: the bytes of two characters of code page 932
  are, read as UTF-8, another character and a backslash, so that an accepted entry is placed in a
  directory of its own, here as a file with the name of a device.
\<close>

definition sjis_text :: text_env where
  "sjis_text = \<lparr>char_bytes = (\<lambda>ch.
     if ch = [CHR 0xE7, CHR 0xB8, CHR 0xBA] then Some [CHR 0xE3, CHR 0x81]
     else if ch = [CHR 0xE3, CHR 0x82, CHR 0xBD] then Some [CHR 0x83, CHR 0x5C] else None)\<rparr>"

definition sjis_zip :: zip_archive where
  "sjis_zip = \<lparr>number_entry = Some 2, zip_entries = [ex_file ''m/mod.json'' ''{}'',
     ex_file (''m/'' @ [CHR 0xE7, CHR 0xB8, CHR 0xBA, CHR 0xE3, CHR 0x82, CHR 0xBD] @ ''con'') ''x'']\<rparr>"

lemma double_byte_name:
  "case InspectArchive sjis_text (Some sjis_zip) of
     Ret (Inr es) \<Rightarrow> list_ex (\<lambda>e. \<not> safe_path (relativePath e) \<and>
       path_join [[]] (relativePath e) = [[], [CHR 0xE3, CHR 0x81, CHR 0x83], ''con'']) es
   | _ \<Rightarrow> False"
  by code_simp

end
