(* ===== verification/ModExtractSpec.thy ===== *)
theory ModExtractSpec
  imports ModArchiveSpec
begin

text \<open>
  The extraction of an archive that was inspected: it writes the files of the archive and nothing
  else, and only errors of the archive or the disk, or a cancellation, stop it.
\<close>

section \<open>Destinations\<close>

lemma split_seps_slash: "CHR 0x5C \<notin> set p \<Longrightarrow> split_seps p = split_slash p"
  by (induction p) (auto simp: is_sep_def split: list.splits)

lemma in_split_slash: "c \<in> set p \<Longrightarrow> c \<noteq> CHR ''/'' \<Longrightarrow> \<exists>w \<in> set (split_slash p). c \<in> set w"
proof (induction p)
  case (Cons x p)
  show ?case
  proof (cases "split_slash p")
    case (Cons v vs)
    then show ?thesis using Cons.prems Cons.IH by auto
  qed simp
qed simp

lemma safe_path_char:
  assumes "safe_path p" "c \<in> set p"
  shows "c \<noteq> CHR 0x5C \<and> c \<noteq> CHR '':''"
proof (cases "c = CHR ''/''")
  case False
  then obtain w where "w \<in> set (split_slash p)" "c \<in> set w" using in_split_slash assms(2) by blast
  then show ?thesis using assms(1) by (auto simp: safe_path_def list_all_iff proper_component_def is_sep_def)
qed simp

lemma hd_split_slash: "p \<noteq> [] \<Longrightarrow> hd p = CHR ''/'' \<Longrightarrow> hd (split_slash p) = []"
  by (cases p) simp_all

lemma path_join_safe:
  assumes "safe_path p"
  shows "path_join dir p = dir @ split_slash p"
proof -
  have ne: "p \<noteq> []" by (rule safe_path_nonempty [OF assms])
  have "hd (split_slash p) \<noteq> []"
    using assms by (cases "split_slash p") (auto simp: safe_path_def proper_component_def)
  then have "hd p \<noteq> CHR ''/''" using hd_split_slash ne by blast
  moreover have "hd p \<noteq> CHR 0x5C" using safe_path_char [OF assms] ne by simp
  ultimately have hd: "\<not> is_sep (hd p)" by (simp add: is_sep_def)
  have "p ! 1 \<noteq> CHR '':''" if "2 \<le> length p" using safe_path_char [OF assms, of "p ! 1"] that by simp
  moreover have "\<not> is_sep (p ! 0)" using hd ne by (simp add: hd_conv_nth)
  ultimately have "split_drive p = ([], p)" by (auto simp: split_drive_def Let_def)
  moreover have "split_seps p = split_slash p" using split_seps_slash safe_path_char [OF assms] by blast
  ultimately show ?thesis using hd by (simp add: path_join_def)
qed

lemma canonical_append:
  assumes "cwd_ok cwd" "p \<noteq> []" "list_all proper_component cs"
  shows "canonical cwd (p @ cs) = canonical cwd p @ cs"
  using assms(3)
proof (induction cs rule: rev_induct)
  case (snoc c cs)
  then have "c \<notin> {[], ''.'', ''..''}" by (simp add: proper_component_def)
  then have "canonical cwd ((p @ cs) @ [c]) = canonical cwd (p @ cs) @ [c]" using assms(2) by (intro canonical_snoc [OF assms(1)]) auto
  then show ?case using snoc by simp
qed simp

lemma destination:
  assumes "cwd_ok cwd" "dir \<noteq> []" "safe_path p"
  shows "canonical cwd (path_join dir p) = canonical cwd dir @ split_slash p"
    and "canonical cwd (butlast (path_join dir p)) = canonical cwd dir @ butlast (split_slash p)"
proof -
  have "list_all proper_component (split_slash p)" using assms(3) by (simp add: safe_path_def)
  moreover from this have "list_all proper_component (butlast (split_slash p))"
    by (auto simp: list_all_iff dest: in_set_butlastD)
  moreover have "butlast (dir @ split_slash p) = dir @ butlast (split_slash p)" by (simp add: butlast_append)
  ultimately show "canonical cwd (path_join dir p) = canonical cwd dir @ split_slash p"
    and "canonical cwd (butlast (path_join dir p)) = canonical cwd dir @ butlast (split_slash p)"
    using canonical_append [OF assms(1,2)] path_join_safe [OF assms(3)] by simp_all
qed

section \<open>One entry\<close>

text \<open>What reading an entry gives.\<close>

definition zip_content :: "zip_entry \<Rightarrow> string" where
  "zip_content z = concat (takeWhile (\<lambda>b. b \<noteq> []) (blocks z))"

lemma copy_blocks_content:
  "copy_blocks env tot ends bs written st = (None, w, st') \<Longrightarrow>
   w = written @ concat (takeWhile (\<lambda>b. b \<noteq> []) bs) \<and> staged st' = staged st"
  by (induction env tot ends bs written st rule: copy_blocks.induct) (auto simp: next_poll_def Let_def split: if_splits)

lemma extract_file_content:
  assumes "extract_file env tot dest z e st = Inr st'"
  shows "file_at (staged st') q = (if q = canonical (extract_cwd env) dest then Some (zip_content z) else file_at (staged st) q)"
    and "of_nat (length (zip_content z)) = uncompressedSize e"
proof -
  let ?c = "canonical (extract_cwd env)"
  obtain r1 r2 w st1 r3 where r: "create_directories (staged st) (?c (butlast dest)) = Some r1" "write_file r1 (?c dest) [] = Some r2"
    "copy_blocks env tot (reads_to_end z) (blocks z) [] (st\<lparr>staged := r2\<rparr>) = (None, w, st1)"
    "of_nat (length w) = uncompressedSize e" "write_file (staged st1) (?c dest) w = Some r3" "st' = st1\<lparr>staged := r3\<rparr>"
    using assms by (auto simp: extract_file_def split: option.splits if_splits prod.splits)
  have w: "w = zip_content z" "staged st1 = r2" using copy_blocks_content [OF r(3)] by (simp_all add: zip_content_def)
  show "of_nat (length (zip_content z)) = uncompressedSize e" using r(4) w(1) by simp
  show "file_at (staged st') q = (if q = ?c dest then Some (zip_content z) else file_at (staged st) q)"
    using file_at_write [OF r(5), of q] file_at_write [OF r(2), of q] file_at_create [OF r(1), of q] r(6) w by simp
qed

section \<open>All entries\<close>

text \<open>The files of an archive and where they go.\<close>

fun placed :: "string list \<Rightarrow> zip_entry list \<Rightarrow> ArchiveEntry list \<Rightarrow> (string list \<times> string) list" where
  "placed root [] es = []"
| "placed root (z # zs) [] = []"
| "placed root (z # zs) (e # es) =
     (if is_directory e then placed root zs es
      else (root @ split_slash (relativePath e), zip_content z) # placed root zs es)"

lemma placed_Nil [simp]: "placed root zs [] = []"
  by (cases zs) simp_all

definition entry_placed :: "ArchiveEntry \<Rightarrow> bool" where
  "entry_placed e \<longleftrightarrow> relativePath e = [] \<and> is_directory e \<or> safe_path (relativePath e)"

lemma extract_next:
  "length (e # es) \<le> length (z # zs) \<Longrightarrow>
   extract_entries env root tot (if es = [] then z # zs else go_next (z # zs)) es st = extract_entries env root tot zs es st \<and>
   extract_entries env root tot (go_next (z # zs)) es st = extract_entries env root tot zs es st"
  by (cases es; cases zs) (auto simp: go_next_def)

lemma extract_entries_files:
  assumes "cwd_ok (extract_cwd env)" "root \<noteq> []"
  shows "extract_entries env root tot zs es st = Inr st' \<Longrightarrow> length es \<le> length zs \<Longrightarrow> \<forall>e \<in> set es. entry_placed e \<Longrightarrow>
    file_at (staged st') q =
      (case map_of (rev (placed (canonical (extract_cwd env) root) zs es)) q of Some c \<Rightarrow> Some c | None \<Rightarrow> file_at (staged st) q) \<and>
    list_all2 (\<lambda>z e. is_directory e \<or> of_nat (length (zip_content z)) = uncompressedSize e) (take (length es) zs) es"
proof (induction es arbitrary: zs st)
  case (Cons e es)
  let ?c = "canonical (extract_cwd env)"
  obtain z zs' where zs: "zs = z # zs'" using Cons.prems(2) by (cases zs) auto
  have len: "length es \<le> length zs'" and pl: "\<forall>e \<in> set es. entry_placed e" using Cons.prems(2,3) zs by auto
  have nx: "extract_entries env root tot (if es = [] then zs else go_next zs) es s = extract_entries env root tot zs' es s"
    "extract_entries env root tot (go_next zs) es s = extract_entries env root tot zs' es s" for s
    using extract_next [of e es z zs'] Cons.prems(2) zs by auto
  show ?case
  proof (cases "relativePath e = []")
    case True
    then have d: "is_directory e" using Cons.prems(3) safe_path_nonempty by (auto simp: entry_placed_def)
    have "extract_entries env root tot zs' es (next_poll st) = Inr st'"
      using Cons.prems(1) True nx(1) by (simp split: if_splits)
    from Cons.IH [OF this len pl] show ?thesis using d zs by (simp add: next_poll_def split: option.split)
  next
    case False
    then have safe: "safe_path (relativePath e)" using Cons.prems(3) by (auto simp: entry_placed_def)
    let ?dest = "path_join root (relativePath e)"
    note dest = destination [OF assms safe]
    show ?thesis
    proof (cases "is_directory e")
      case True
      then obtain r where r: "create_directories (staged (next_poll st)) (?c ?dest) = Some r"
        "extract_entries env root tot zs' es ((next_poll st)\<lparr>staged := r\<rparr>) = Inr st'"
        using Cons.prems(1) False nx(2) by (auto simp: Let_def split: if_splits option.splits)
      from Cons.IH [OF r(2) len pl] show ?thesis
        using True zs file_at_create [OF r(1), of q] by (simp add: next_poll_def split: option.split)
    next
      case plain: False
      then obtain st1 where st1: "extract_file env tot ?dest z e (next_poll st) = Inr st1"
        "extract_entries env root tot zs' es st1 = Inr st'"
        using Cons.prems(1) False nx(2) zs by (auto simp: Let_def split: if_splits sum.splits)
      from Cons.IH [OF st1(2) len pl] show ?thesis
        using plain zs extract_file_content [OF st1(1)] dest(1)
        by (auto simp: next_poll_def map_add_def split: option.splits)
    qed
  qed
qed simp

section \<open>Paths that go together\<close>

fun join_slash :: "string list \<Rightarrow> string" where
  "join_slash [] = []"
| "join_slash [w] = w"
| "join_slash (w # v # ws) = w @ CHR ''/'' # join_slash (v # ws)"

lemma join_split: "join_slash (split_slash p) = p"
proof (induction p)
  case (Cons c p)
  obtain w ws where w: "split_slash p = w # ws" using split_slash_nonempty by (metis list.exhaust)
  then have "join_slash ([] # w # ws) = CHR ''/'' # p" "join_slash ((c # w) # ws) = c # p"
    using Cons.IH by (simp, cases ws) auto
  then show ?case using w by simp
qed simp

lemma split_slash_inj: "split_slash p = split_slash q \<Longrightarrow> p = q"
  by (metis join_split)

lemma join_append: "a \<noteq> [] \<Longrightarrow> b \<noteq> [] \<Longrightarrow> join_slash (a @ b) = join_slash a @ CHR ''/'' # join_slash b"
  by (induction a rule: join_slash.induct) (auto simp: neq_Nil_conv)

lemma split_below: "split_slash p = split_slash q @ b \<Longrightarrow> b \<noteq> [] \<Longrightarrow> \<exists>r. p = q @ CHR ''/'' # r"
  using join_append [of "split_slash q" b] by (metis join_split split_slash_nonempty)

definition compatible :: "ArchiveEntry list \<Rightarrow> bool" where
  "compatible es \<longleftrightarrow> distinct (map relativePath (filter (\<lambda>e. relativePath e \<noteq> []) es)) \<and>
     (\<forall>e \<in> set es. \<forall>f \<in> set es. \<not> is_directory f \<longrightarrow> (\<forall>r. relativePath e \<noteq> relativePath f @ CHR ''/'' # r))"

lemma inspected_compatible:
  assumes "names_clean env archive" "InspectArchive env archive = Ret (Inr es)"
  shows "compatible es" "\<forall>e \<in> set es. entry_placed e"
proof -
  note facts = inspected_archive_facts [OF assms]
  show "\<forall>e \<in> set es. entry_placed e" using facts by (auto simp: entry_placed_def)
  have "distinct (map (\<lambda>e. LowerAscii (relativePath e)) (filter (\<lambda>e. relativePath e \<noteq> []) es))" using facts by simp
  then have "distinct (map relativePath (filter (\<lambda>e. relativePath e \<noteq> []) es))" by (rule distinct_map_coarser) simp
  moreover have "relativePath e \<noteq> relativePath f @ CHR ''/'' # r" if "e \<in> set es" "f \<in> set es" "\<not> is_directory f" for e f r
  proof
    assume "relativePath e = relativePath f @ CHR ''/'' # r"
    then have "starts_with (LowerAscii (relativePath e)) (LowerAscii (relativePath f) @ ''/'')" by (simp add: starts_with_def)
    then show False using facts that by blast
  qed
  ultimately show "compatible es" unfolding compatible_def by blast
qed

lemma placed_names:
  "fst ` set (placed root zs es) \<subseteq> {root @ split_slash (relativePath e) | e. e \<in> set es \<and> \<not> is_directory e}"
  by (induction root zs es rule: placed.induct) auto

lemma placed_distinct:
  "distinct (map relativePath (filter (\<lambda>e. relativePath e \<noteq> []) es)) \<Longrightarrow> \<forall>e \<in> set es. entry_placed e \<Longrightarrow>
   distinct (map fst (placed root zs es))"
proof (induction root zs es rule: placed.induct)
  case (3 root z zs e es)
  show ?case
  proof (cases "is_directory e")
    case True
    then show ?thesis using 3 by (simp split: if_splits)
  next
    case False
    then have ne: "relativePath e \<noteq> []" using 3(4) safe_path_nonempty by (auto simp: entry_placed_def)
    have "root @ split_slash (relativePath e) \<noteq> root @ split_slash (relativePath f)" if "f \<in> set es" for f
      using 3(3) ne that split_slash_inj [of "relativePath e" "relativePath f"] by auto
    then have "root @ split_slash (relativePath e) \<notin> fst ` set (placed root zs es)"
      using placed_names [of root zs es] by blast
    then show ?thesis using 3 False ne by simp
  qed
qed simp_all

text \<open>
  C17: When the extraction of an inspected archive with clean names succeeds, every file of the archive is at its path
  below the staging directory with the content that was read, of the declared length, no file is
  overwritten by another, and all other files are as they were.
\<close>

theorem extraction_exact:
  assumes "names_clean tenv (Some z)" "InspectArchive tenv (Some z) = Ret (Inr es)"
    and "cwd_ok (extract_cwd env)" "stagingRoot \<noteq> []" "ExtractArchive env (Some z) stagingRoot es root = Inr st"
  shows "let files = placed (canonical (extract_cwd env) stagingRoot) (zip_entries z) es in
    distinct (map fst files) \<and>
    (\<forall>q. file_at (staged st) q = (case map_of files q of Some c \<Rightarrow> Some c | None \<Rightarrow> file_at root q)) \<and>
    list_all2 (\<lambda>f e. is_directory e \<or> of_nat (length (zip_content f)) = uncompressedSize e) (take (length es) (zip_entries z)) es"
proof -
  let ?files = "placed (canonical (extract_cwd env) stagingRoot) (zip_entries z) es"
  obtain r where r: "create_directories root (canonical (extract_cwd env) stagingRoot) = Some r"
    "extract_entries env stagingRoot (\<Sum>e\<leftarrow>es. uncompressedSize e) (zip_entries z) es
       \<lparr>staged = r, polls = 0, extractedBytes = 0, progress_reports = []\<rparr> = Inr st"
    using assms(5) by (auto simp: ExtractArchive_def split: option.splits if_splits)
  have len: "length es \<le> length (zip_entries z)" by (rule InspectArchive_parts [OF assms(1,2)]) simp
  note c = inspected_compatible [OF assms(1,2)]
  have d: "distinct (map fst ?files)" using placed_distinct c unfolding compatible_def by blast
  note ex = extract_entries_files [OF assms(3,4) r(2) len c(2)]
  have "file_at (staged st) q = (case map_of ?files q of Some c \<Rightarrow> Some c | None \<Rightarrow> file_at root q)" for q
    using ex [of q] map_of_rev_distinct [OF d] file_at_create [OF r(1), of q] by (simp split: option.split)
  then show ?thesis using d ex [of "[]"] by (simp add: Let_def)
qed

section \<open>Extraction succeeds\<close>

definition nothing_fails :: "extract_env \<Rightarrow> bool" where
  "nothing_fails env \<longleftrightarrow> (\<forall>n. \<not> cancelled_at env n \<and> \<not> write_fails_at env n \<and> \<not> close_fails_at env n)"

definition entry_fine :: "zip_entry \<Rightarrow> ArchiveEntry \<Rightarrow> bool" where
  "entry_fine z e \<longleftrightarrow> is_directory e \<or>
     open_ok z \<and> reads_to_end z \<and> close_ok z \<and> of_nat (length (zip_content z)) = uncompressedSize e"

lemma copy_blocks_succeeds:
  "nothing_fails env \<Longrightarrow> \<exists>st'. copy_blocks env tot True bs written st = (None, written @ concat (takeWhile (\<lambda>b. b \<noteq> []) bs), st')"
proof (induction bs arbitrary: written st)
  case (Cons b bs)
  from Cons.IH [OF Cons.prems, of "written @ b"] show ?case using Cons.prems by (simp add: nothing_fails_def Let_def)
qed (simp add: nothing_fails_def)

lemma extract_file_succeeds:
  assumes "nothing_fails env" "entry_fine z e" "\<not> is_directory e"
    and dest: "canonical (extract_cwd env) (butlast dest) = p" "canonical (extract_cwd env) dest = p @ [x]"
    and cr: "create_directories (staged st) p = Some r" and nd: "\<not> dir_at r (p @ [x])"
  shows "\<exists>st'. extract_file env tot dest z e st = Inr st'"
proof -
  have "dir_at r p" using dir_at_create [OF cr, of p] by simp
  then obtain r2 where r2: "write_file r (p @ [x]) [] = Some r2" using write_possible nd by blast
  obtain st1 where c: "copy_blocks env tot True (blocks z) [] (st\<lparr>staged := r2\<rparr>) = (None, zip_content z, st1)"
    using copy_blocks_succeeds [OF assms(1), of tot "blocks z" "[]"] by (auto simp: zip_content_def)
  have "dir_at r2 p" "\<not> dir_at r2 (p @ [x])" using dir_at_write [OF r2] \<open>dir_at r p\<close> nd by simp_all
  then obtain r3 where "write_file r2 (p @ [x]) (zip_content z) = Some r3" using write_possible by blast
  moreover have "staged st1 = r2" using copy_blocks_content [OF c] by simp
  ultimately show ?thesis
    using assms(1-3) dest cr r2 c by (simp add: extract_file_def entry_fine_def nothing_fails_def)
qed

text \<open>What is in the staging directory \<open>s\<close> after some entries.\<close>

definition staged_from :: "string list \<Rightarrow> ArchiveEntry list \<Rightarrow> fnode \<Rightarrow> bool" where
  "staged_from s es r \<longleftrightarrow> dir_at r s \<and>
     (\<forall>cs. cs \<noteq> [] \<and> dir_at r (s @ cs) \<longrightarrow> (\<exists>f \<in> set es. relativePath f \<noteq> [] \<and>
        (\<exists>b. split_slash (relativePath f) = cs @ b \<and> (is_directory f \<or> b \<noteq> [])))) \<and>
     (\<forall>cs. file_at r (s @ cs) \<noteq> None \<longrightarrow> (\<exists>f \<in> set es. \<not> is_directory f \<and> split_slash (relativePath f) = cs))"

lemma compatible_entry:
  assumes "compatible (es @ e # rest)" "f \<in> set es" "relativePath e \<noteq> []"
  shows "relativePath f \<noteq> relativePath e"
proof
  assume eq: "relativePath f = relativePath e"
  have "relativePath e \<notin> relativePath ` {x \<in> set es. relativePath x \<noteq> []}" using assms(1,3) by (simp add: compatible_def)
  moreover have "f \<in> {x \<in> set es. relativePath x \<noteq> []}" using assms(2,3) eq by simp
  ultimately show False using eq by (metis image_eqI)
qed

lemma parents_free:
  assumes "staged_from s es r" "compatible (es @ e # rest)" "relativePath e \<noteq> []" "split_slash (relativePath e) = p @ p'"
    and "s @ p = a @ b"
  shows "file_at r a = None"
proof (cases "\<exists>c. s = a @ c")
  case True
  then show ?thesis using assms(1) dir_at_parent dir_not_file unfolding staged_from_def by metis
next
  case False
  then obtain cs where cs: "a = s @ cs" "p = cs @ b" using assms(5) by (auto simp: append_eq_append_conv2)
  show ?thesis
  proof (rule ccontr)
    assume "file_at r a \<noteq> None"
    then obtain f where f: "f \<in> set es" "\<not> is_directory f" "split_slash (relativePath f) = cs"
      using assms(1) cs(1) unfolding staged_from_def by blast
    then have eq: "split_slash (relativePath e) = split_slash (relativePath f) @ (b @ p')" using assms(4) cs(2) by simp
    show False
    proof (cases "b @ p' = []")
      case True
      then have "relativePath e = relativePath f" using eq split_slash_inj by simp
      then show False using compatible_entry [OF assms(2) f(1) assms(3)] by simp
    next
      case False
      then obtain u where "relativePath e = relativePath f @ CHR ''/'' # u" using split_below [OF eq] by blast
      moreover have "f \<in> set (es @ e # rest)" "e \<in> set (es @ e # rest)" using f(1) by simp_all
      ultimately show False using assms(2) f(2) unfolding compatible_def by blast
    qed
  qed
qed

lemma staged_from_dir:
  assumes "staged_from s es r" "create_directories r (s @ split_slash (relativePath e)) = Some r'"
    and "is_directory e" "relativePath e \<noteq> []"
  shows "staged_from s (es @ [e]) r'"
  unfolding staged_from_def
proof (intro conjI allI impI)
  show "dir_at r' s" using assms(1) dir_at_create [OF assms(2)] by (simp add: staged_from_def)
next
  fix cs assume "cs \<noteq> [] \<and> dir_at r' (s @ cs)"
  then show "\<exists>f \<in> set (es @ [e]). relativePath f \<noteq> [] \<and> (\<exists>b. split_slash (relativePath f) = cs @ b \<and> (is_directory f \<or> b \<noteq> []))"
    using assms dir_at_create [OF assms(2), of "s @ cs"] unfolding staged_from_def by auto
next
  fix cs assume "file_at r' (s @ cs) \<noteq> None"
  then show "\<exists>f \<in> set (es @ [e]). \<not> is_directory f \<and> split_slash (relativePath f) = cs"
    using assms(1) file_at_create [OF assms(2), of "s @ cs"] unfolding staged_from_def by auto
qed

lemma staged_from_file:
  assumes "staged_from s es r" "extract_file env tot dest z e st = Inr st'" "staged st = r"
    and "\<not> is_directory e" "relativePath e \<noteq> []"
    and dest: "canonical (extract_cwd env) (butlast dest) = s @ butlast (split_slash (relativePath e))"
      "canonical (extract_cwd env) dest = s @ split_slash (relativePath e)"
  shows "staged_from s (es @ [e]) (staged st')"
proof -
  obtain r1 r2 w st1 r3 where x: "create_directories r (s @ butlast (split_slash (relativePath e))) = Some r1"
    "write_file r1 (s @ split_slash (relativePath e)) [] = Some r2"
    "copy_blocks env tot (reads_to_end z) (blocks z) [] (st\<lparr>staged := r2\<rparr>) = (None, w, st1)"
    "write_file (staged st1) (s @ split_slash (relativePath e)) w = Some r3" "staged st' = r3"
    using assms(2,3) dest by (auto simp: extract_file_def split: option.splits if_splits prod.splits)
  have st1: "staged st1 = r2" using copy_blocks_content [OF x(3)] by simp
  have dirs: "dir_at (staged st') q \<longleftrightarrow> dir_at r q \<or> (\<exists>b. s @ butlast (split_slash (relativePath e)) = q @ b)" for q
    using dir_at_create [OF x(1)] dir_at_write [OF x(2)] dir_at_write [OF x(4)] x(5) st1 by simp
  have files: "file_at (staged st') q \<noteq> None \<longleftrightarrow> q = s @ split_slash (relativePath e) \<or> file_at r q \<noteq> None" for q
    using extract_file_content(1) [OF assms(2), of q] dest(2) assms(3) by simp
  have last: "split_slash (relativePath e) = butlast (split_slash (relativePath e)) @ [last (split_slash (relativePath e))]" by simp
  show ?thesis
    unfolding staged_from_def
  proof (intro conjI allI impI)
    show "dir_at (staged st') s" using assms(1) dirs by (simp add: staged_from_def)
  next
    fix cs assume c: "cs \<noteq> [] \<and> dir_at (staged st') (s @ cs)"
    show "\<exists>f \<in> set (es @ [e]). relativePath f \<noteq> [] \<and> (\<exists>b. split_slash (relativePath f) = cs @ b \<and> (is_directory f \<or> b \<noteq> []))"
    proof (cases "dir_at r (s @ cs)")
      case True
      then show ?thesis using assms(1) c unfolding staged_from_def by auto
    next
      case False
      then obtain b where "butlast (split_slash (relativePath e)) = cs @ b" using c dirs [of "s @ cs"] by auto
      then have "split_slash (relativePath e) = cs @ (b @ [last (split_slash (relativePath e))])" using last by simp
      then show ?thesis using assms(5) by (intro bexI [of _ e]) auto
    qed
  next
    fix cs assume "file_at (staged st') (s @ cs) \<noteq> None"
    then show "\<exists>f \<in> set (es @ [e]). \<not> is_directory f \<and> split_slash (relativePath f) = cs"
      using assms(1,4) files [of "s @ cs"] unfolding staged_from_def by auto
  qed
qed

lemma staged_from_skip: "staged_from s es r \<Longrightarrow> staged_from s (es @ [e]) r"
  unfolding staged_from_def by auto

lemma extract_entries_succeeds:
  assumes "cwd_ok (extract_cwd env)" "root \<noteq> []" "nothing_fails env"
  shows "compatible (ds @ es) \<Longrightarrow> \<forall>e \<in> set es. entry_placed e \<Longrightarrow>
    staged_from (canonical (extract_cwd env) root) ds (staged st) \<Longrightarrow> length es \<le> length zs \<Longrightarrow>
    list_all2 entry_fine (take (length es) zs) es \<Longrightarrow> \<exists>st'. extract_entries env root tot zs es st = Inr st'"
proof (induction es arbitrary: ds zs st)
  case (Cons e es)
  let ?s = "canonical (extract_cwd env) root"
  obtain z zs' where zs: "zs = z # zs'" using Cons.prems(4) by (cases zs) auto
  have fine: "entry_fine z e" and comp: "compatible ((ds @ [e]) @ es)" using Cons.prems(1,5) zs by simp_all
  have nx: "extract_entries env root tot (if es = [] then zs else go_next zs) es s = extract_entries env root tot zs' es s"
    "extract_entries env root tot (go_next zs) es s = extract_entries env root tot zs' es s" for s
    using extract_next [of e es z zs'] Cons.prems(4) zs by auto
  have more: "\<not> (es \<noteq> [] \<and> length zs \<le> 1)" using Cons.prems(4) zs by (cases es) auto
  have go: "\<exists>st'. extract_entries env root tot zs' es s = Inr st'" if "staged_from ?s (ds @ [e]) (staged s)" for s
    using Cons.IH [OF comp _ that, of zs'] Cons.prems(2,4,5) zs by simp
  have can: "\<not> cancelled_at env n" for n using assms(3) by (simp add: nothing_fails_def)
  have st: "staged (next_poll st) = staged st" by (simp add: next_poll_def)
  show ?case
  proof (cases "relativePath e = []")
    case True
    then show ?thesis using go [of "next_poll st"] nx(1) can st staged_from_skip [OF Cons.prems(3)] by simp
  next
    case False
    then have safe: "safe_path (relativePath e)" using Cons.prems(2) by (auto simp: entry_placed_def)
    let ?dest = "path_join root (relativePath e)" and ?cs = "split_slash (relativePath e)"
    note dest = destination [OF assms(1,2) safe]
    have free: "file_at (staged st) a = None" if "?s @ p = a @ b" "?cs = p @ p'" for a b p p'
      using parents_free [OF Cons.prems(3) Cons.prems(1) False] that by blast
    show ?thesis
    proof (cases "is_directory e")
      case True
      obtain r where r: "create_directories (staged st) (?s @ ?cs) = Some r"
        using create_possible [of "?s @ ?cs" "staged st"] free [of ?cs _ _ "[]"] by auto
      from go [of "(next_poll st)\<lparr>staged := r\<rparr>"] staged_from_dir [OF Cons.prems(3) r True False] show ?thesis
        using True False r can st nx(2) more dest(1) by (simp add: Let_def)
    next
      case plain: False
      have last: "?cs = butlast ?cs @ [last ?cs]" by simp
      obtain r where r: "create_directories (staged st) (?s @ butlast ?cs) = Some r"
        using create_possible [of "?s @ butlast ?cs" "staged st"] free [OF _ last] by blast
      have nb: "butlast ?cs \<noteq> ?cs @ b" for b
      proof
        assume "butlast ?cs = ?cs @ b"
        then have "length (butlast ?cs) = length (?cs @ b)" by (rule arg_cong)
        moreover have "0 < length ?cs" by simp
        ultimately show False by (simp del: length_greater_0_conv)
      qed
      have nd: "\<not> dir_at r ((?s @ butlast ?cs) @ [last ?cs])"
      proof
        assume "dir_at r ((?s @ butlast ?cs) @ [last ?cs])"
        then have "dir_at (staged st) (?s @ ?cs)" using dir_at_create [OF r, of "?s @ ?cs"] nb last by auto
        then obtain f b where f: "f \<in> set ds" "split_slash (relativePath f) = ?cs @ b" "is_directory f \<or> b \<noteq> []"
          using Cons.prems(3) unfolding staged_from_def by (metis split_slash_nonempty)
        show False
        proof (cases "b = []")
          case True
          then have "relativePath f = relativePath e" using f(2) split_slash_inj by simp
          then show False using compatible_entry [OF Cons.prems(1) f(1) False] by simp
        next
          case ne: False
          then obtain u where "relativePath f = relativePath e @ CHR ''/'' # u" using split_below [OF f(2)] by blast
          moreover have "f \<in> set (ds @ e # es)" "e \<in> set (ds @ e # es)" using f(1) by simp_all
          ultimately show False using Cons.prems(1) plain unfolding compatible_def by blast
        qed
      qed
      obtain st1 where st1: "extract_file env tot ?dest z e (next_poll st) = Inr st1"
        using extract_file_succeeds [OF assms(3) fine plain dest(2) _ _ nd, of "next_poll st" tot] dest(1) last r st by auto
      from go [of st1] staged_from_file [OF Cons.prems(3) st1 st plain False dest(2,1)] show ?thesis
        using plain False can nx(2) more st1 zs by (simp add: Let_def)
    qed
  qed
qed simp

lemma lookup_append: "lookup r (p @ q) = (case lookup r p of None \<Rightarrow> None | Some n \<Rightarrow> lookup n q)"
  by (induction r p rule: lookup.induct) (auto split: option.split)

text \<open>
  C18: The extraction of an inspected archive with clean names into an empty directory succeeds unless it is cancelled,
  the disk fails, or a file of the archive cannot be read whole: no two entries get in each other's
  way.
\<close>

theorem extraction_succeeds:
  assumes "names_clean tenv (Some z)" "InspectArchive tenv (Some z) = Ret (Inr es)"
    and "cwd_ok (extract_cwd env)" "stagingRoot \<noteq> []" "nothing_fails env"
    and "create_directories root (canonical (extract_cwd env) stagingRoot) = Some r"
    and "lookup r (canonical (extract_cwd env) stagingRoot) = Some (Dir [])"
    and "list_all2 entry_fine (take (length es) (zip_entries z)) es"
  shows "\<exists>st. ExtractArchive env (Some z) stagingRoot es root = Inr st"
proof -
  let ?s = "canonical (extract_cwd env) stagingRoot"
  have len: "length es \<le> length (zip_entries z)" "es \<noteq> []" by (rule InspectArchive_parts [OF assms(1,2)], simp)+
  have l: "lookup r (?s @ cs) = (if cs = [] then Some (Dir []) else None)" for cs
    using assms(7) by (cases cs) (simp_all add: lookup_append)
  have "staged_from ?s [] r" using l [of "[]"] l by (simp add: staged_from_def dir_at_def file_at_def)
  from extract_entries_succeeds [OF assms(3-5), of "[]" es] inspected_compatible [OF assms(1,2)] this len(1) assms(8)
  have "\<exists>st'. extract_entries env stagingRoot (\<Sum>e\<leftarrow>es. uncompressedSize e) (zip_entries z) es
      \<lparr>staged = r, polls = 0, extractedBytes = 0, progress_reports = []\<rparr> = Inr st'" by simp
  then show ?thesis using assms(6) len by (auto simp: ExtractArchive_def)
qed

definition ex_disk :: extract_env where
  "ex_disk = \<lparr>cancelled_at = (\<lambda>n. False), write_fails_at = (\<lambda>n. False), close_fails_at = (\<lambda>n. False),
     ec_message = [], path_string = concat, extract_cwd = (\<lambda>d. [''C:''])\<rparr>"

lemma ex_disk_ok: "cwd_ok (extract_cwd ex_disk)" "nothing_fails ex_disk"
  by (simp_all add: cwd_ok_def nothing_fails_def ex_disk_def)

lemma extraction_exact_witness:
  "\<exists>st. ExtractArchive ex_disk (Some ex_zip) [[], ''s''] ex_entries (Dir [(''C:'', Dir [])]) = Inr st \<and>
     file_at (staged st) [''C:'', ''s'', ''mod.json''] = Some ''{}'' \<and> file_at (staged st) [''C:'', ''s'', ''A'', ''b''] = Some ''x''"
proof -
  let ?ex = "ExtractArchive ex_disk (Some ex_zip) [[], ''s''] ex_entries (Dir [(''C:'', Dir [])])"
  have "isl ?ex = False" by code_simp
  then obtain st where st: "?ex = Inr st" by (cases ?ex) auto
  have p: "placed (canonical (extract_cwd ex_disk) [[], ''s'']) (zip_entries ex_zip) ex_entries =
      [([''C:'', ''s'', ''mod.json''], ''{}''), ([''C:'', ''s'', ''A'', ''b''], ''x'')]" by code_simp
  have "[[], ''s''] \<noteq> []" by simp
  from extraction_exact [OF ex_clean ex_inspect ex_disk_ok(1) this st] show ?thesis
    unfolding p using st by (simp add: Let_def)
qed

lemma extraction_succeeds_witness:
  "\<exists>st. ExtractArchive ex_disk (Some ex_zip) [[], ''s''] ex_entries (Dir [(''C:'', Dir [])]) = Inr st"
proof -
  have "create_directories (Dir [(''C:'', Dir [])]) (canonical (extract_cwd ex_disk) [[], ''s'']) = Some (Dir [(''C:'', Dir [(''s'', Dir [])])])"
    "lookup (Dir [(''C:'', Dir [(''s'', Dir [])])]) (canonical (extract_cwd ex_disk) [[], ''s'']) = Some (Dir [])"
    "list_all2 entry_fine (take (length ex_entries) (zip_entries ex_zip)) ex_entries"
    by code_simp+
  moreover have "[[], ''s''] \<noteq> []" by simp
  ultimately show ?thesis using extraction_succeeds [OF ex_clean ex_inspect ex_disk_ok(1) _ ex_disk_ok(2)] by blast
qed

end
