(* ===== verification/ModPlatform.thy ===== *)
theory ModPlatform
  imports ModArchive
begin

text \<open>
  What the installer knows of mods: the data of ModWorkshop and Thunderstore
  (\<open>src/modsystem/platform/modworkshop.h\<close>, \<open>src/modsystem/platform/thunderstore.cpp\<close>), the inventory of
  installed packages (\<open>src/modsystem/modworkshop_inventory.h\<close>), and the plan of a package to install
  (\<open>src/modsystem/modinstaller.h\<close>).
\<close>

section \<open>ModWorkshop\<close>

datatype ModSource = Unmanaged | Remote | ModWorkshop | Thunderstore | Unknown

record ModWorkshopContainedMod =
  cm_name :: string
  cm_version :: string

record ModWorkshopPackageState =
  ps_schema :: int
  ps_modId :: u64
  ps_selectedFileId :: u64
  ps_downloadSize :: u64
  ps_selectedFileVersion :: string
  ps_selectedFileUpdatedAt :: string
  ps_remoteModUpdatedAt :: string
  ps_sha256 :: string
  ps_installedAt :: string
  ps_containedMods :: "ModWorkshopContainedMod list"

record ModWorkshopThumbnail =
  th_id :: u64
  th_file :: string
  th_updatedAt :: string
  hasThumbnail :: bool

record ModWorkshopSelectedFile =
  sf_id :: u64
  sf_name :: string
  sf_file :: string
  sf_type :: string
  sf_version :: string
  sf_updatedAt :: string
  sf_downloadUrl :: string
  sf_size :: u64

record ModWorkshopDependency =
  dep_name :: string
  dep_url :: string
  dep_modId :: "u64 option"
  dep_offsite :: bool
  dep_optional :: bool

text \<open>Of the details of a mod, the fields the installer reads.\<close>

record ModWorkshopDetails =
  det_name :: string
  det_author :: string
  det_version :: string
  det_updatedAt :: string
  det_thumbnail :: "ModWorkshopThumbnail option"
  hasDownload :: bool
  approved :: bool
  suspended :: bool
  disableModManagers :: bool
  selectedFile :: "ModWorkshopSelectedFile option"
  dependencies :: "ModWorkshopDependency list"

text \<open>Of a package in the inventory, the fields the installer reads.\<close>

record ModWorkshopTrackedPackage =
  packageRoot :: string
  tp_modId :: u64
  installedState :: "ModWorkshopPackageState option"
  tp_containedMods :: "ModWorkshopContainedMod list"

definition FindPackage :: "ModWorkshopTrackedPackage list \<Rightarrow> u64 \<Rightarrow> ModWorkshopTrackedPackage option" where
  "FindPackage packages modId = find (\<lambda>p. tp_modId p = modId) packages"

definition IsSafeStorageFile :: "string \<Rightarrow> bool" where
  "IsSafeStorageFile f \<longleftrightarrow>
     \<not> (f = [] \<or> length f > 255) \<and> (\<forall>c \<in> set f. isalnum c \<or> c = CHR ''.'' \<or> c = CHR ''_'' \<or> c = CHR ''-'')"

definition BuildThumbnailUrl :: "ModWorkshopThumbnail \<Rightarrow> string" where
  "BuildThumbnailUrl thumbnail =
     (if \<not> IsSafeStorageFile (th_file thumbnail) then []
      else ''https://storage.modworkshop.net/mods/images/'' @
        (if hasThumbnail thumbnail then ''thumbnail_'' else []) @ th_file thumbnail)"

section \<open>Icons\<close>

definition MOD_ICON_FILENAMES :: "string list" where
  "MOD_ICON_FILENAMES = [''icon.webp'', ''icon.png'', ''icon.jpg'', ''icon.jpeg'']"

definition find_last_of :: "(char \<Rightarrow> bool) \<Rightarrow> string \<Rightarrow> nat option" where
  "find_last_of P s = (if \<exists>c \<in> set s. P c then Some (length (dropWhile (\<lambda>c. \<not> P c) (rev s)) - 1) else None)"

definition without_query :: "string \<Rightarrow> string" where
  "without_query url = takeWhile (\<lambda>c. \<not> (c = CHR ''?'' \<or> c = CHR ''#'')) url"

definition IconFilenameForPath :: "string \<Rightarrow> string" where
  "IconFilenameForPath path =
     (let path = without_query path in
      case find_last_of (\<lambda>c. c = CHR ''.'') path of
        None \<Rightarrow> []
      | Some extension \<Rightarrow>
          if \<exists>separator \<in> set_option (find_last_of is_sep path). extension < separator then []
          else
            let filename = map tolower (''icon'' @ drop extension path)
            in if filename \<in> set MOD_ICON_FILENAMES then filename else [])"

section \<open>Thunderstore\<close>

definition IsSafePackageComponent :: "string \<Rightarrow> bool" where
  "IsSafePackageComponent value \<longleftrightarrow>
     value \<noteq> [] \<and> length value \<le> 128 \<and> (\<forall>c \<in> set value. isalnum c \<or> c = CHR ''_'' \<or> c = CHR ''-'' \<or> c = CHR ''.'')"

definition IsSafeDependencyString :: "string \<Rightarrow> bool" where
  "IsSafeDependencyString value \<longleftrightarrow>
     value \<noteq> [] \<and> length value \<le> 240 \<and> CHR ''-'' \<in> set value \<and>
     (\<forall>c \<in> set value. isalnum c \<or> c = CHR ''_'' \<or> c = CHR ''-'' \<or> c = CHR ''.'')"

text \<open>The text after the first occurrence of the marker.\<close>

fun after_marker :: "string \<Rightarrow> string \<Rightarrow> string option" where
  "after_marker marker [] = (if marker = [] then Some [] else None)"
| "after_marker marker (c # s) =
     (if starts_with (c # s) marker then Some (drop (length marker) (c # s)) else after_marker marker s)"

definition PACKAGE_MARKER :: string where "PACKAGE_MARKER = ''thunderstore.io/package/''"

definition ParsePackageUrl :: "string \<Rightarrow> (string \<times> string) option" where
  "ParsePackageUrl url =
     (case after_marker PACKAGE_MARKER url of
        None \<Rightarrow> None
      | Some remainder \<Rightarrow>
          let remainder = without_query remainder;
              remainder = rev (dropWhile (\<lambda>c. c = CHR ''/'') (rev remainder));
              namespaceName = takeWhile (\<lambda>c. c \<noteq> CHR ''/'') remainder;
              packageName = drop (length namespaceName + 1) remainder
          in
            if CHR ''/'' \<notin> set remainder \<or> CHR ''/'' \<in> set packageName then None
            else if \<not> IsSafePackageComponent namespaceName \<or> \<not> IsSafePackageComponent packageName then None
            else Some (namespaceName, packageName))"

definition BuildDownloadUrl :: "string \<Rightarrow> string" where
  "BuildDownloadUrl dependencyString =
     (if \<not> IsSafeDependencyString dependencyString then []
      else ''https://gcdn.thunderstore.io/live/repository/packages/'' @ dependencyString @ ''.zip'')"

text \<open>
  The answer of the server, if it is a JSON object: the string members the code reads, and the same of
  the object \<open>latest\<close>.
\<close>

record thunder_latest =
  lt_name :: "string option"
  lt_download_url :: "string option"
  lt_icon :: "string option"
  lt_version_number :: "string option"

record thunder_reply =
  rp_name :: "string option"
  rp_namespace :: "string option"
  rp_latest :: "thunder_latest option"

record PackageDetails =
  m_DownloadUrl :: string
  m_IconUrl :: string
  m_Version :: string
  m_Name :: string
  m_Namespace :: string

definition text_or_empty :: "string option \<Rightarrow> string" where
  "text_or_empty x = (case x of Some s \<Rightarrow> s | None \<Rightarrow> [])"

definition FetchPackageDetails :: "(string \<Rightarrow> string \<Rightarrow> thunder_reply option) \<Rightarrow> string \<Rightarrow> string \<Rightarrow> PackageDetails option" where
  "FetchPackageDetails reply namespaceName packageName =
     (if \<not> IsSafePackageComponent namespaceName \<or> \<not> IsSafePackageComponent packageName then None
      else case reply namespaceName packageName of
        None \<Rightarrow> None
      | Some document \<Rightarrow>
          case rp_latest document of
            None \<Rightarrow> None
          | Some latest \<Rightarrow>
              let name = text_or_empty (rp_name document);
                  name = (if name = [] then text_or_empty (lt_name latest) else name);
                  space = text_or_empty (rp_namespace document);
                  space = (if space = [] then namespaceName else space);
                  version = text_or_empty (lt_version_number latest);
                  directUrl = BuildDownloadUrl (space @ ''-'' @ name @ ''-'' @ version);
                  url = (if directUrl \<noteq> [] then directUrl else text_or_empty (lt_download_url latest))
              in
                if \<not> IsSafePackageComponent space \<or> \<not> IsSafePackageComponent name \<or> \<not> IsSafePackageComponent version then None
                else if url = [] then None
                else Some \<lparr>m_DownloadUrl = url, m_IconUrl = text_or_empty (lt_icon latest), m_Version = version,
                  m_Name = name, m_Namespace = space\<rparr>)"

section \<open>Plans\<close>

datatype ModInstallAction = Install | Update | Replace | Remove

datatype ModInstallOperationState =
    Idle | Queued | FetchingDetails | ResolvingDependencies | Downloading | Validating | Staging
  | Committing | Reloading | Done | Failed | Cancelled | AwaitingMigration

record PackagePlan =
  source :: ModSource
  plan_modId :: u64
  selectedFileId :: u64
  expectedDownloadSize :: u64
  downloadedSize :: u64
  managedId :: string
  plan_name :: string
  plan_author :: string
  plan_version :: string
  selectedFileUpdatedAt :: string
  remoteModUpdatedAt :: string
  downloadUrl :: string
  iconUrl :: string
  iconFallbackUrl :: string
  iconFilename :: string
  plan_sha256 :: string
  containedMods :: "ModWorkshopContainedMod list"
  oldRoot :: "string option"
  plan_destination :: string
  replacementRoots :: "string list"
  archivePath :: string
  stagingRoot :: string
  backupRoot :: string

text \<open>A plan with the initial values of its fields.\<close>

definition no_plan :: PackagePlan where
  "no_plan = \<lparr>source = ModWorkshop, plan_modId = 0, selectedFileId = 0, expectedDownloadSize = 0, downloadedSize = 0,
     managedId = [], plan_name = [], plan_author = [], plan_version = [], selectedFileUpdatedAt = [], remoteModUpdatedAt = [],
     downloadUrl = [], iconUrl = [], iconFallbackUrl = [], iconFilename = [], plan_sha256 = [], containedMods = [],
     oldRoot = None, plan_destination = [], replacementRoots = [], archivePath = [], stagingRoot = [], backupRoot = []\<rparr>"

end
