(* ===== verification/ModInstall.thy ===== *)
theory ModInstall
  imports ModPlatform
begin

text \<open>
  The commit of staged packages, \<open>CModInstallService::CommitPlans\<close>
  (\<open>src/modsystem/modinstaller.cpp\<close>): installed packages are moved to a backup directory, the staged
  ones are moved to their place, the mods are reloaded, and everything is moved back if that fails.

  The code moves and removes whole directories, so the file system is a map from the locations of
  directories to their contents, of any type. Two paths are the same location if their absolute normal
  forms are equal up to the case of ASCII letters.
\<close>

section \<open>The file system\<close>

record 'c dir_state =
  dirs :: "string \<Rightarrow> 'c option"
  fs_ops :: nat

text \<open>
  The environment: the absolute normal form of a path, if it can be computed; which operations of the
  file system fail, by their number; what a failed removal leaves; the message of an error; how the
  calls to the main thread end (\<open>None\<close> for a timeout), given the directories for the reloads.
\<close>

record 'c commit_env =
  normalize :: "string \<Rightarrow> string option"
  op_fails :: "nat \<Rightarrow> bool"
  left_over :: "nat \<Rightarrow> 'c option"
  error_text :: "nat \<Rightarrow> string"
  unload_result :: "bool option"
  reload_result :: "(string \<Rightarrow> 'c option) \<Rightarrow> bool option"
  rollback_result :: "(string \<Rightarrow> 'c option) \<Rightarrow> bool option"

text \<open>\<open>generic_u8string\<close>: the text of a path, with slashes.\<close>

definition generic_form :: "string \<Rightarrow> string" where
  "generic_form path = map (\<lambda>c. if c = CHR 0x5C then CHR ''/'' else c) path"

definition PathKey :: "string \<Rightarrow> string" where
  "PathKey path = LowerAscii (generic_form path)"

definition location :: "'c commit_env \<Rightarrow> string \<Rightarrow> string" where
  "location env p = PathKey (case normalize env p of Some n \<Rightarrow> n | None \<Rightarrow> p)"

definition PathMatchesKey :: "'c commit_env \<Rightarrow> string \<Rightarrow> string \<Rightarrow> bool" where
  "PathMatchesKey env path key = (case normalize env path of None \<Rightarrow> False | Some n \<Rightarrow> PathKey n = key)"

text \<open>\<open>fs::exists\<close>: the answer, false after an error, and whether there was an error.\<close>

definition fs_exists :: "'c commit_env \<Rightarrow> string \<Rightarrow> 'c dir_state \<Rightarrow> bool \<times> bool \<times> 'c dir_state" where
  "fs_exists env p fs =
     (let fails = op_fails env (fs_ops fs) in
      (\<not> fails \<and> dirs fs (location env p) \<noteq> None, fails, fs\<lparr>fs_ops := fs_ops fs + 1\<rparr>))"

text \<open>\<open>fs::rename\<close> of a directory: it fails if there is something at the new place.\<close>

definition fs_rename :: "'c commit_env \<Rightarrow> string \<Rightarrow> string \<Rightarrow> 'c dir_state \<Rightarrow> bool \<times> 'c dir_state" where
  "fs_rename env p q fs =
     (let a = location env p; b = location env q; fs' = fs\<lparr>fs_ops := fs_ops fs + 1\<rparr> in
      if op_fails env (fs_ops fs) \<or> dirs fs a = None \<or> a \<noteq> b \<and> dirs fs b \<noteq> None then (False, fs')
      else (True, fs'\<lparr>dirs := (dirs fs)(a := None, b := dirs fs a)\<rparr>))"

definition fs_remove_all :: "'c commit_env \<Rightarrow> string \<Rightarrow> 'c dir_state \<Rightarrow> bool \<times> 'c dir_state" where
  "fs_remove_all env p fs =
     (let fs' = fs\<lparr>fs_ops := fs_ops fs + 1\<rparr> in
      if op_fails env (fs_ops fs) then (False, fs'\<lparr>dirs := (dirs fs)(location env p := left_over env (fs_ops fs))\<rparr>)
      else (True, fs'\<lparr>dirs := (dirs fs)(location env p := None)\<rparr>))"

section \<open>Records of moves\<close>

record CommitRecord =
  record_plan :: PackagePlan
  oldMoved :: bool
  newPlaced :: bool
  replacementsMoved :: "(string \<times> string) list"

section \<open>Checks\<close>

text \<open>The first loop: an error if there is one. \<open>seen\<close> are the destinations so far.\<close>

fun check_plans :: "'c commit_env \<Rightarrow> string list \<Rightarrow> PackagePlan list \<Rightarrow> 'c dir_state \<Rightarrow> string option \<times> 'c dir_state" where
  "check_plans env seen [] fs = (None, fs)"
| "check_plans env seen (plan # plans) fs =
     (case normalize env (plan_destination plan) of
        None \<Rightarrow> (Some (''Could not normalize destination '' @ CHR 0x27 # plan_destination plan @ [CHR 0x27]), fs)
      | Some n \<Rightarrow>
          let key = PathKey n in
          if key \<in> set seen then (Some ''Two dependency packages resolve to the same destination'', fs)
          else
            let owns = (\<exists>old \<in> set_option (oldRoot plan). PathMatchesKey env old key) \<or>
                       (\<exists>root \<in> set (replacementRoots plan). PathMatchesKey env root key) in
            (case fs_exists env (plan_destination plan) fs of (found, failed, fs) \<Rightarrow>
               if found \<and> \<not> owns
               then (Some (''Destination '' @ CHR 0x27 # plan_destination plan @ CHR 0x27 # '' already belongs to another package''), fs)
               else check_plans env (key # seen) plans fs))"

section \<open>Moving\<close>

definition replacement_backup :: "PackagePlan \<Rightarrow> nat \<Rightarrow> string" where
  "replacement_backup plan i = backupRoot plan @ ''.replacement-'' @ show_nat i"

text \<open>The loop over the packages to replace, with an error, the moves made, and the state.\<close>

fun move_replacements :: "'c commit_env \<Rightarrow> PackagePlan \<Rightarrow> nat \<Rightarrow> string list \<Rightarrow> (string \<times> string) list \<Rightarrow> 'c dir_state \<Rightarrow>
    string option \<times> (string \<times> string) list \<times> 'c dir_state" where
  "move_replacements env plan i [] moved fs = (None, moved, fs)"
| "move_replacements env plan i (root # roots) moved fs =
     (if \<exists>old \<in> set_option (oldRoot plan). PathKey old = PathKey root
      then move_replacements env plan (i + 1) roots moved fs
      else (case fs_exists env root fs of (found, failed, fs) \<Rightarrow>
        if \<not> found \<or> failed
        then (Some (''Existing replacement package '' @ CHR 0x27 # root @ CHR 0x27 # '' is no longer available''), moved, fs)
        else (case fs_rename env root (replacement_backup plan i) fs of (ok, fs') \<Rightarrow>
          if \<not> ok then (Some (''Failed backing up replacement package: '' @ error_text env (fs_ops fs)), moved, fs')
          else move_replacements env plan (i + 1) roots (moved @ [(root, replacement_backup plan i)]) fs')))"

text \<open>The rest of the body of the loop over the plans, after the old package was moved.\<close>

definition finish_plan :: "'c commit_env \<Rightarrow> PackagePlan \<Rightarrow> CommitRecord \<Rightarrow> 'c dir_state \<Rightarrow> string option \<times> CommitRecord \<times> 'c dir_state" where
  "finish_plan env plan rec fs =
     (case move_replacements env plan 0 (replacementRoots plan) [] fs of (err, moved, fs) \<Rightarrow>
        let rec = rec\<lparr>replacementsMoved := moved\<rparr> in
        if err \<noteq> None then (err, rec, fs)
        else (case fs_rename env (stagingRoot plan) (plan_destination plan) fs of (ok, fs') \<Rightarrow>
          if \<not> ok then (Some (''Failed committing staged package: '' @ error_text env (fs_ops fs)), rec, fs')
          else (None, rec\<lparr>newPlaced := True\<rparr>, fs')))"

definition commit_plan :: "'c commit_env \<Rightarrow> PackagePlan \<Rightarrow> 'c dir_state \<Rightarrow> string option \<times> CommitRecord \<times> 'c dir_state" where
  "commit_plan env plan fs =
     (let rec = \<lparr>record_plan = plan, oldMoved = False, newPlaced = False, replacementsMoved = []\<rparr> in
      case oldRoot plan of
        None \<Rightarrow> finish_plan env plan rec fs
      | Some old \<Rightarrow>
          (case fs_exists env old fs of (found, failed, fs) \<Rightarrow>
             if \<not> found then finish_plan env plan rec fs
             else (case fs_rename env old (backupRoot plan) fs of (ok, fs') \<Rightarrow>
               if \<not> ok then (Some (''Failed backing up installed package: '' @ error_text env (fs_ops fs)), rec, fs')
               else finish_plan env plan (rec\<lparr>oldMoved := True\<rparr>) fs')))"

text \<open>The loop over the plans, which stops at the first error.\<close>

fun commit_loop :: "'c commit_env \<Rightarrow> PackagePlan list \<Rightarrow> 'c dir_state \<Rightarrow> string option \<times> CommitRecord list \<times> 'c dir_state" where
  "commit_loop env [] fs = (None, [], fs)"
| "commit_loop env (plan # plans) fs =
     (case commit_plan env plan fs of (err, rec, fs) \<Rightarrow>
        if err \<noteq> None then (err, [rec], fs)
        else (case commit_loop env plans fs of (err, recs, fs) \<Rightarrow> (err, rec # recs, fs)))"

section \<open>Cleaning up and rolling back\<close>

fun remove_paths :: "'c commit_env \<Rightarrow> string list \<Rightarrow> 'c dir_state \<Rightarrow> 'c dir_state" where
  "remove_paths env [] fs = fs"
| "remove_paths env (p # ps) fs = remove_paths env ps (snd (fs_remove_all env p fs))"

definition backups_of :: "CommitRecord \<Rightarrow> string list" where
  "backups_of rec = (if oldMoved rec then [backupRoot (record_plan rec)] else []) @ map snd (replacementsMoved rec)"

text \<open>Moving packages back, and whether all of that worked.\<close>

fun move_back :: "'c commit_env \<Rightarrow> (string \<times> string) list \<Rightarrow> 'c dir_state \<Rightarrow> bool \<times> 'c dir_state" where
  "move_back env [] fs = (True, fs)"
| "move_back env ((original, backup) # moves) fs =
     (case fs_rename env backup original fs of (ok, fs) \<Rightarrow>
        case move_back env moves fs of (oks, fs) \<Rightarrow> (ok \<and> oks, fs))"

definition moves_back :: "CommitRecord \<Rightarrow> (string \<times> string) list" where
  "moves_back rec =
     (if oldMoved rec then [(the (oldRoot (record_plan rec)), backupRoot (record_plan rec))] else []) @
     rev (replacementsMoved rec)"

definition rollback_record :: "'c commit_env \<Rightarrow> CommitRecord \<Rightarrow> 'c dir_state \<Rightarrow> bool \<times> 'c dir_state" where
  "rollback_record env rec fs =
     (case (if newPlaced rec then fs_remove_all env (plan_destination (record_plan rec)) fs else (True, fs)) of (ok, fs) \<Rightarrow>
        case move_back env (moves_back rec) fs of (oks, fs) \<Rightarrow> (ok \<and> oks, fs))"

fun rollback_records :: "'c commit_env \<Rightarrow> CommitRecord list \<Rightarrow> 'c dir_state \<Rightarrow> bool \<times> 'c dir_state" where
  "rollback_records env [] fs = (True, fs)"
| "rollback_records env (rec # recs) fs =
     (case rollback_record env rec fs of (ok, fs) \<Rightarrow>
        case rollback_records env recs fs of (oks, fs) \<Rightarrow> (ok \<and> oks, fs))"

section \<open>The commit\<close>

text \<open>
  The result of \<open>CommitPlans\<close>: whether it succeeded, the message, whether recovery files are to be
  kept, and the states it went through. The error of the creation of the backup directory is not looked
  at; if it fails, so do the moves.
\<close>

record commit_result =
  commit_ok :: bool
  commit_error :: string
  preserveRecoveryFiles :: bool
  transitions :: "ModInstallOperationState list"

definition UnloadRuntime_error :: "bool option \<Rightarrow> string option" where
  "UnloadRuntime_error r =
     (case r of None \<Rightarrow> Some ''Timed out while unloading mod assets''
      | Some ok \<Rightarrow> if ok then None else Some ''Failed unloading mod assets; removal was cancelled'')"

definition ReloadAndVerify_error :: "bool option \<Rightarrow> string option" where
  "ReloadAndVerify_error r =
     (case r of None \<Rightarrow> Some ''Timed out while reloading mods''
      | Some ok \<Rightarrow> if ok then None else Some ''Reloaded mods did not contain every staged package'')"

definition replaces_installed :: "PackagePlan list \<Rightarrow> bool" where
  "replaces_installed plans \<longleftrightarrow> (\<exists>plan \<in> set plans. oldRoot plan \<noteq> None \<or> replacementRoots plan \<noteq> [])"

definition CommitPlans :: "'c commit_env \<Rightarrow> PackagePlan list \<Rightarrow> 'c dir_state \<Rightarrow> commit_result \<times> 'c dir_state" where
  "CommitPlans env plans fs =
     (case check_plans env [] plans fs of
        (Some e, fs) \<Rightarrow> (\<lparr>commit_ok = False, commit_error = e, preserveRecoveryFiles = False, transitions = []\<rparr>, fs)
      | (None, fs) \<Rightarrow>
          let states = (if replaces_installed plans then [Reloading] else []);
              unload = (if replaces_installed plans then UnloadRuntime_error (unload_result env) else None)
          in (case unload of
            Some e \<Rightarrow> (\<lparr>commit_ok = False, commit_error = e, preserveRecoveryFiles = False, transitions = states\<rparr>, fs)
          | None \<Rightarrow>
              (case commit_loop env plans fs of (err, records, fs) \<Rightarrow>
                 let err' = (if err = None then ReloadAndVerify_error (reload_result env (dirs fs)) else err);
                     states = states @ [Committing] @ (if err = None then [Reloading] else []) in
                 (case err' of
                    None \<Rightarrow> (\<lparr>commit_ok = True, commit_error = [], preserveRecoveryFiles = False, transitions = states\<rparr>,
                            remove_paths env (concat (map backups_of records)) fs)
                  | Some e \<Rightarrow>
                      (case rollback_records env (rev records) fs of (ok, fs) \<Rightarrow>
                         let reloaded = (ok \<and> rollback_result env (dirs fs) = Some True);
                             e = (if ok \<and> \<not> reloaded then e @ ''; rollback restored files but mod reload failed'' else e);
                             e = (if \<not> reloaded then e @ ''; automatic rollback was incomplete; recovery files were preserved'' else e)
                         in (\<lparr>commit_ok = False, commit_error = e, preserveRecoveryFiles = \<not> reloaded, transitions = states\<rparr>, fs))))))"

end
