(* ===== verification/ModInstallSpec.thy ===== *)
theory ModInstallSpec
  imports ModInstall
begin

text \<open>
  A commit of packages places all of them or takes everything back, whichever operations fail: no
  installed package is lost.
\<close>

section \<open>Moves\<close>

lemma fs_rename_cases:
  assumes "fs_rename env p q fs = (ok, fs')"
  shows "if ok then dirs fs (location env p) \<noteq> None \<and>
      (location env p \<noteq> location env q \<longrightarrow> dirs fs (location env q) = None) \<and>
      dirs fs' = (dirs fs)(location env p := None, location env q := dirs fs (location env p))
    else dirs fs' = dirs fs"
  using assms by (auto simp: fs_rename_def Let_def split: if_splits)

lemma fs_exists_dirs: "fs_exists env p fs = (found, failed, fs') \<Longrightarrow> dirs fs' = dirs fs"
  by (auto simp: fs_exists_def Let_def)

text \<open>The effect of moves that all worked.\<close>

fun moved_all :: "'c commit_env \<Rightarrow> (string \<times> string) list \<Rightarrow> (string \<Rightarrow> 'c option) \<Rightarrow> (string \<Rightarrow> 'c option) \<Rightarrow> bool" where
  "moved_all env [] d d' \<longleftrightarrow> d' = d"
| "moved_all env ((p, q) # ps) d d' \<longleftrightarrow>
     d (location env p) \<noteq> None \<and> (location env p \<noteq> location env q \<longrightarrow> d (location env q) = None) \<and>
     moved_all env ps (d(location env p := None, location env q := d (location env p))) d'"

definition pair_locs :: "'c commit_env \<Rightarrow> (string \<times> string) list \<Rightarrow> string list" where
  "pair_locs env ps = concat (map (\<lambda>(p, q). [location env p, location env q]) ps)"

lemma pair_locs_simps [simp]:
  "pair_locs env [] = []"
  "pair_locs env ((p, q) # ps) = location env p # location env q # pair_locs env ps"
  "pair_locs env (ps @ qs) = pair_locs env ps @ pair_locs env qs"
  by (simp_all add: pair_locs_def)

lemma in_pair_locs: "(p, q) \<in> set ps \<Longrightarrow> location env p \<in> set (pair_locs env ps) \<and> location env q \<in> set (pair_locs env ps)"
  by (induction ps) auto

lemma moved_all_effect:
  "moved_all env ps d d' \<Longrightarrow> distinct (pair_locs env ps) \<Longrightarrow>
   (\<forall>x. x \<notin> set (pair_locs env ps) \<longrightarrow> d' x = d x) \<and>
   (\<forall>(p, q) \<in> set ps. d (location env p) \<noteq> None \<and> d (location env q) = None \<and>
      d' (location env p) = None \<and> d' (location env q) = d (location env p))"
proof (induction env ps d d' rule: moved_all.induct)
  case (2 env p q ps d d')
  let ?a = "location env p" and ?b = "location env q"
  let ?d = "d(?a := None, ?b := d ?a)"
  have m: "d ?a \<noteq> None" "?a \<noteq> ?b" "d ?b = None" "moved_all env ps ?d d'" and dist: "distinct (pair_locs env ps)"
    and out: "?a \<notin> set (pair_locs env ps)" "?b \<notin> set (pair_locs env ps)"
    using 2(2,3) by auto
  note ih = 2(1) [OF m(4) dist]
  have "d (location env p') \<noteq> None \<and> d (location env q') = None \<and> d' (location env p') = None \<and> d' (location env q') = d (location env p')"
    if pq: "(p', q') \<in> set ps" for p' q'
    using ih pq in_pair_locs [OF pq, of env] out by (auto split: if_splits)
  moreover have "d' ?a = None" "d' ?b = d ?a" using ih out m(2) by simp_all
  ultimately show ?case using ih m by auto
qed simp

text \<open>The packages a plan replaces besides the old one, and where they go.\<close>

fun replacement_pairs :: "PackagePlan \<Rightarrow> nat \<Rightarrow> string list \<Rightarrow> (string \<times> string) list" where
  "replacement_pairs plan i [] = []"
| "replacement_pairs plan i (root # roots) =
     (if \<exists>old \<in> set_option (oldRoot plan). PathKey old = PathKey root then [] else [(root, replacement_backup plan i)]) @
     replacement_pairs plan (i + 1) roots"

definition plan_pairs :: "PackagePlan \<Rightarrow> (string \<times> string) list" where
  "plan_pairs plan = (case oldRoot plan of None \<Rightarrow> [] | Some old \<Rightarrow> [(old, backupRoot plan)]) @
     replacement_pairs plan 0 (replacementRoots plan)"

lemma move_replacements_prefix:
  "move_replacements env plan i roots moved fs = (err, moved', fs') \<Longrightarrow>
   \<exists>k. moved' = moved @ take k (replacement_pairs plan i roots) \<and>
     moved_all env (take k (replacement_pairs plan i roots)) (dirs fs) (dirs fs')"
proof (induction roots arbitrary: i moved fs)
  case (Cons root roots)
  show ?case
  proof (cases "\<exists>old \<in> set_option (oldRoot plan). PathKey old = PathKey root")
    case True
    then show ?thesis using Cons.IH Cons.prems by (simp del: bex_simps)
  next
    case False
    obtain found failed fs1 where e: "fs_exists env root fs = (found, failed, fs1)" by (metis prod_cases3)
    note d1 = fs_exists_dirs [OF e]
    let ?b = "replacement_backup plan i"
    obtain ok fs2 where r: "fs_rename env root ?b fs1 = (ok, fs2)" by (metis prod.exhaust)
    show ?thesis
    proof (cases "found \<and> \<not> failed \<and> ok")
      case True
      then have "move_replacements env plan (i + 1) roots (moved @ [(root, ?b)]) fs2 = (err, moved', fs')"
        using Cons.prems False e r by simp
      from Cons.IH [OF this] obtain k where k: "moved' = (moved @ [(root, ?b)]) @ take k (replacement_pairs plan (i + 1) roots)"
        "moved_all env (take k (replacement_pairs plan (i + 1) roots)) (dirs fs2) (dirs fs')" by blast
      show ?thesis
        using k False True fs_rename_cases [OF r] d1 by (intro exI [of _ "Suc k"]) simp
    next
      case stop: False
      then have "moved' = moved" "dirs fs' = dirs fs"
        using Cons.prems False e r fs_rename_cases [OF r] d1 by (auto split: if_splits)
      then show ?thesis by (intro exI [of _ 0]) simp
    qed
  qed
qed simp

section \<open>One plan\<close>

definition plan_separate :: "'c commit_env \<Rightarrow> PackagePlan \<Rightarrow> bool" where
  "plan_separate env plan \<longleftrightarrow>
     distinct (location env (stagingRoot plan) # pair_locs env (plan_pairs plan)) \<and>
     location env (plan_destination plan) \<noteq> location env (stagingRoot plan) \<and>
     (\<forall>(p, q) \<in> set (plan_pairs plan). location env q \<noteq> location env (plan_destination plan))"

definition record_moves :: "CommitRecord \<Rightarrow> (string \<times> string) list" where
  "record_moves rec =
     (if oldMoved rec then [(the (oldRoot (record_plan rec)), backupRoot (record_plan rec))] else []) @ replacementsMoved rec"

lemma distinct_pair_locs_take: "distinct (pair_locs env ps) \<Longrightarrow> distinct (pair_locs env (take k ps))"
  using pair_locs_simps(3) [of env "take k ps" "drop k ps"] by simp

lemma set_pair_locs: "set (pair_locs env ps) = (\<Union>(p, q) \<in> set ps. {location env p, location env q})"
  by (induction ps) auto

lemma distinct_pair_locs_rev: "distinct (pair_locs env (rev ps)) \<longleftrightarrow> distinct (pair_locs env ps)"
  by (induction ps) (auto simp: set_pair_locs)

text \<open>The state after some packages were moved away and perhaps the new one placed.\<close>

definition committed :: "'c commit_env \<Rightarrow> CommitRecord \<Rightarrow> (string \<Rightarrow> 'c option) \<Rightarrow> (string \<Rightarrow> 'c option) \<Rightarrow> bool" where
  "committed env rec d d' \<longleftrightarrow>
     (let s = location env (stagingRoot (record_plan rec)); t = location env (plan_destination (record_plan rec)) in
      \<exists>d1. moved_all env (record_moves rec) d d1 \<and>
        (if newPlaced rec then d1 s \<noteq> None \<and> d1 t = None \<and> d' = d1(s := None, t := d1 s) else d' = d1))"

lemma commit_plan_effect:
  assumes "commit_plan env plan fs = (err, rec, fs')" "plan_separate env plan"
  shows "record_plan rec = plan \<and> set (record_moves rec) \<subseteq> set (plan_pairs plan) \<and>
    distinct (pair_locs env (record_moves rec)) \<and> (err = None \<longleftrightarrow> newPlaced rec) \<and> committed env rec (dirs fs) (dirs fs')"
proof -
  let ?rec = "\<lparr>record_plan = plan, oldMoved = False, newPlaced = False, replacementsMoved = []\<rparr>"
  let ?pairs = "replacement_pairs plan 0 (replacementRoots plan)"
  have sep: "location env (stagingRoot plan) \<noteq> location env (plan_destination plan)" "distinct (pair_locs env (plan_pairs plan))"
    using assms(2) by (auto simp: plan_separate_def)
  \<comment> \<open>what follows the move of the old package\<close>
  have rest: "record_plan rec = plan \<and> set (record_moves rec) \<subseteq> set (plan_pairs plan) \<and>
      distinct (pair_locs env (record_moves rec)) \<and> (err = None \<longleftrightarrow> newPlaced rec) \<and> committed env rec (dirs fs) (dirs fs')"
    if r: "finish_plan env plan r1 fs1 = (err, rec, fs')"
      and r1: "record_plan r1 = plan" "newPlaced r1 = False" "oldMoved r1 \<longrightarrow> oldRoot plan \<noteq> None"
      and old: "\<And>ps d. moved_all env ps (dirs fs1) d \<Longrightarrow>
          moved_all env ((if oldMoved r1 then [(the (oldRoot plan), backupRoot plan)] else []) @ ps) (dirs fs) d"
    for fs1 r1
  proof -
    obtain e moved fs2 where m: "move_replacements env plan 0 (replacementRoots plan) [] fs1 = (e, moved, fs2)" by (metis prod_cases3)
    obtain k where k: "moved = take k ?pairs" "moved_all env moved (dirs fs1) (dirs fs2)"
      using move_replacements_prefix [OF m] by auto
    let ?old = "if oldMoved r1 then [(the (oldRoot plan), backupRoot plan)] else []"
    have all: "moved_all env (?old @ moved) (dirs fs) (dirs fs2)" by (rule old [OF k(2)])
    have sub: "set (?old @ moved) \<subseteq> set (plan_pairs plan)"
      using r1(3) set_take_subset [of k ?pairs] k(1) by (auto simp: plan_pairs_def)
    have dist: "distinct (pair_locs env (?old @ moved))"
      using sep(2) distinct_pair_locs_take [of env ?pairs k] r1(3) k(1) set_take_subset [of k ?pairs]
      by (auto simp: plan_pairs_def set_pair_locs split: option.splits)
    obtain ok fs3 where ren: "fs_rename env (stagingRoot plan) (plan_destination plan) fs2 = (ok, fs3)" by (metis prod.exhaust)
    have rec: "rec = r1\<lparr>replacementsMoved := moved, newPlaced := (e = None \<and> ok)\<rparr>" "err = None \<longleftrightarrow> e = None \<and> ok"
      "fs' = (if e = None then fs3 else fs2)"
      using r m ren r1(2) by (cases r1; auto simp: finish_plan_def Let_def split: if_splits)+
    then have "record_moves rec = ?old @ moved" using r1(1) by (simp add: record_moves_def)
    moreover have "committed env rec (dirs fs) (dirs fs')"
      unfolding committed_def Let_def \<open>record_moves rec = ?old @ moved\<close>
      using all fs_rename_cases [OF ren] rec r1(1) sep(1) by (intro exI [of _ "dirs fs2"]) auto
    ultimately show ?thesis using rec r1(1) sub dist by simp
  qed
  show ?thesis
  proof (cases "oldRoot plan")
    case None
    then show ?thesis using assms(1) by (intro rest [of ?rec fs]) (simp_all add: commit_plan_def Let_def)
  next
    case (Some old)
    obtain found failed fs1 where e: "fs_exists env old fs = (found, failed, fs1)" by (metis prod_cases3)
    note d1 = fs_exists_dirs [OF e]
    obtain ok fs2 where ren: "fs_rename env old (backupRoot plan) fs1 = (ok, fs2)" by (metis prod.exhaust)
    show ?thesis
    proof (cases "found \<and> \<not> ok")
      case True
      then have "rec = ?rec" "err \<noteq> None" "fs' = fs2" using assms(1) Some e ren by (auto simp: commit_plan_def Let_def)
      then show ?thesis using fs_rename_cases [OF ren] True d1 by (simp add: committed_def record_moves_def Let_def)
    next
      case False
      then show ?thesis
        using assms(1) Some e ren fs_rename_cases [OF ren] d1
        by (intro rest [of "?rec\<lparr>oldMoved := found\<rparr>" "if found then fs2 else fs1"])
           (auto simp: commit_plan_def Let_def split: if_splits)
    qed
  qed
qed

lemma pair_locs_one:
  "distinct (pair_locs env ps) \<Longrightarrow> (p, q) \<in> set ps \<Longrightarrow> (p', q') \<in> set ps \<Longrightarrow>
   location env p = location env p' \<or> location env p = location env q' \<Longrightarrow> (p', q') = (p, q)"
proof (induction ps)
  case (Cons x ps)
  obtain a b where x: "x = (a, b)" by (cases x)
  have out: "location env a \<notin> set (pair_locs env ps)" "location env b \<notin> set (pair_locs env ps)" "location env a \<noteq> location env b"
    "distinct (pair_locs env ps)" using Cons.prems(1) x by auto
  show ?case
  proof (cases "(p, q) = x \<or> (p', q') = x")
    case True
    then show ?thesis using Cons.prems(2-4) out(1-3) x in_pair_locs [of p q ps env] in_pair_locs [of p' q' ps env] by auto
  next
    case False
    then show ?thesis using Cons.IH [OF out(4)] Cons.prems(2-4) by auto
  qed
qed simp

lemma pair_locs_only:
  assumes "distinct (pair_locs env ps)" "(p, q) \<in> set ps" "set moves \<subseteq> set ps" "(p, q) \<notin> set moves"
  shows "location env p \<notin> set (pair_locs env moves)"
proof
  assume "location env p \<in> set (pair_locs env moves)"
  then obtain p' q' where "(p', q') \<in> set moves" "location env p = location env p' \<or> location env p = location env q'"
    by (auto simp: set_pair_locs)
  then show False using pair_locs_one [OF assms(1,2)] assms(3,4) by blast
qed

definition plan_slots :: "'c commit_env \<Rightarrow> PackagePlan \<Rightarrow> string set" where
  "plan_slots env plan = insert (location env (stagingRoot plan)) (insert (location env (plan_destination plan))
     (set (pair_locs env (plan_pairs plan))))"

text \<open>What a record says of the state before and after.\<close>

lemma committed_facts:
  assumes "committed env rec d d'" "plan_separate env (record_plan rec)"
    and "set (record_moves rec) \<subseteq> set (plan_pairs (record_plan rec))" "distinct (pair_locs env (record_moves rec))"
  defines "s \<equiv> location env (stagingRoot (record_plan rec))" and "t \<equiv> location env (plan_destination (record_plan rec))"
  shows "\<forall>(p, q) \<in> set (record_moves rec). d (location env p) \<noteq> None \<and> d (location env q) = None \<and> d' (location env q) = d (location env p)"
    and "\<forall>x. x \<notin> set (pair_locs env (record_moves rec)) \<and> (newPlaced rec \<longrightarrow> x \<noteq> s \<and> x \<noteq> t) \<longrightarrow> d' x = d x"
    and "newPlaced rec \<longrightarrow> d s \<noteq> None \<and> d' t = d s \<and> (t \<in> set (pair_locs env (record_moves rec)) \<or> d t = None)"
    and "\<forall>(p, q) \<in> set (record_moves rec). newPlaced rec \<and> location env p = t \<or> d' (location env p) = None"
proof -
  obtain d1 where m: "moved_all env (record_moves rec) d d1"
    and fin: "if newPlaced rec then d1 s \<noteq> None \<and> d1 t = None \<and> d' = d1(s := None, t := d1 s) else d' = d1"
    using assms(1) by (auto simp: committed_def Let_def s_def t_def)
  note eff = moved_all_effect [OF m assms(4)]
  have st: "s \<noteq> t" using assms(2) by (auto simp: plan_separate_def s_def t_def)
  have locs: "set (pair_locs env (record_moves rec)) \<subseteq> set (pair_locs env (plan_pairs (record_plan rec)))"
    using assms(3) by (auto simp: set_pair_locs)
  have s: "s \<notin> set (pair_locs env (record_moves rec))" using assms(2) locs by (auto simp: plan_separate_def s_def)
  have q: "location env q \<noteq> t \<and> location env q \<noteq> s \<and> location env p \<noteq> s" if "(p, q) \<in> set (record_moves rec)" for p q
    using that assms(2,3) s in_pair_locs [OF that, of env] by (auto simp: plan_separate_def t_def)
  have each: "d (location env p) \<noteq> None \<and> d (location env q) = None \<and> d' (location env q) = d (location env p) \<and>
      (newPlaced rec \<and> location env p = t \<or> d' (location env p) = None)" if pq: "(p, q) \<in> set (record_moves rec)" for p q
    using bspec [OF conjunct2 [OF eff] pq, unfolded prod.case] q [OF pq] fin by (auto split: if_splits)
  show "\<forall>(p, q) \<in> set (record_moves rec). d (location env p) \<noteq> None \<and> d (location env q) = None \<and> d' (location env q) = d (location env p)"
    by (intro ballI case_prodI2) (use each in blast)
  show "\<forall>(p, q) \<in> set (record_moves rec). newPlaced rec \<and> location env p = t \<or> d' (location env p) = None"
    by (intro ballI case_prodI2) (metis each)
  show "\<forall>x. x \<notin> set (pair_locs env (record_moves rec)) \<and> (newPlaced rec \<longrightarrow> x \<noteq> s \<and> x \<noteq> t) \<longrightarrow> d' x = d x"
    using eff fin by (auto split: if_splits)
  show "newPlaced rec \<longrightarrow> d s \<noteq> None \<and> d' t = d s \<and> (t \<in> set (pair_locs env (record_moves rec)) \<or> d t = None)"
    using eff fin s st by (auto split: if_splits)
qed

lemma move_back_effect:
  "move_back env ps fs = (ok, fs') \<Longrightarrow> distinct (pair_locs env ps) \<Longrightarrow>
   (\<forall>x. x \<notin> set (pair_locs env ps) \<longrightarrow> dirs fs' x = dirs fs x) \<and>
   (\<forall>(p, q) \<in> set ps. dirs fs' (location env p) = dirs fs (location env q) \<and> dirs fs' (location env q) = None \<or>
      \<not> ok \<and> dirs fs' (location env p) = dirs fs (location env p) \<and> dirs fs' (location env q) = dirs fs (location env q))"
proof (induction env ps fs arbitrary: ok fs' rule: move_back.induct)
  case (2 env p q ps fs)
  let ?a = "location env p" and ?b = "location env q"
  obtain ok1 fs1 where r: "fs_rename env q p fs = (ok1, fs1)" by (metis prod.exhaust)
  obtain ok2 where m: "move_back env ps fs1 = (ok2, fs')" "ok = (ok1 \<and> ok2)"
    using 2(2) r by (auto split: prod.splits)
  have out: "?a \<notin> set (pair_locs env ps)" "?b \<notin> set (pair_locs env ps)" "?a \<noteq> ?b" "distinct (pair_locs env ps)" using 2(3) by auto
  note ih = 2(1) [OF r [symmetric] m(1) out(4)]
  note c = fs_rename_cases [OF r]
  have same: "dirs fs1 x = dirs fs x" if "x \<noteq> ?a" "x \<noteq> ?b" for x using c that by (auto split: if_splits)
  have "dirs fs' (location env p') = dirs fs (location env q') \<and> dirs fs' (location env q') = None \<or>
      \<not> ok \<and> dirs fs' (location env p') = dirs fs (location env p') \<and> dirs fs' (location env q') = dirs fs (location env q')"
    if pq: "(p', q') \<in> set ps" for p' q'
  proof -
    have ne: "location env p' \<noteq> ?a" "location env p' \<noteq> ?b" "location env q' \<noteq> ?a" "location env q' \<noteq> ?b"
      using in_pair_locs [OF pq, of env] out(1,2) by auto
    from bspec [OF conjunct2 [OF ih] pq, unfolded prod.case] show ?thesis
      using same [OF ne(1,2)] same [OF ne(3,4)] m(2) by auto
  qed
  then have tl: "\<forall>(p', q') \<in> set ps. dirs fs' (location env p') = dirs fs (location env q') \<and> dirs fs' (location env q') = None \<or>
      \<not> ok \<and> dirs fs' (location env p') = dirs fs (location env p') \<and> dirs fs' (location env q') = dirs fs (location env q')"
    by (intro ballI case_prodI2) blast
  have "dirs fs' ?a = dirs fs1 ?a" "dirs fs' ?b = dirs fs1 ?b" using ih out(1,2) by simp_all
  then have hd: "dirs fs' ?a = dirs fs ?b \<and> dirs fs' ?b = None \<or> \<not> ok \<and> dirs fs' ?a = dirs fs ?a \<and> dirs fs' ?b = dirs fs ?b"
    using c out(3) m(2) by (auto split: if_splits)
  have "\<forall>x. x \<notin> set (pair_locs env ((p, q) # ps)) \<longrightarrow> dirs fs' x = dirs fs x" using ih same by simp
  with hd tl show ?case by simp
qed simp

lemma rollback_record_effect:
  assumes "committed env rec d d'" "plan_separate env (record_plan rec)"
    and "set (record_moves rec) \<subseteq> set (plan_pairs (record_plan rec))" "distinct (pair_locs env (record_moves rec))"
    and "\<forall>x \<in> plan_slots env (record_plan rec). dirs fs x = d' x" "rollback_record env rec fs = (ok, fs')"
  shows "\<forall>x. x \<notin> plan_slots env (record_plan rec) \<longrightarrow> dirs fs' x = dirs fs x"
    and "\<forall>(p, q) \<in> set (plan_pairs (record_plan rec)). d (location env p) \<noteq> None \<longrightarrow>
      dirs fs' (location env p) = d (location env p) \<or> dirs fs' (location env q) = d (location env p)"
    and "ok \<longrightarrow> (\<forall>x \<in> plan_slots env (record_plan rec). x \<noteq> location env (stagingRoot (record_plan rec)) \<longrightarrow> dirs fs' x = d x)"
proof -
  let ?s = "location env (stagingRoot (record_plan rec))" and ?t = "location env (plan_destination (record_plan rec))"
  let ?moves = "record_moves rec" and ?slots = "plan_slots env (record_plan rec)"
  note facts = committed_facts [OF assms(1-4)]
  obtain ok1 fs1 where r1: "(if newPlaced rec then fs_remove_all env (plan_destination (record_plan rec)) fs else (True, fs)) = (ok1, fs1)"
    by (metis prod.exhaust)
  obtain ok2 where r2: "move_back env (moves_back rec) fs1 = (ok2, fs')" "ok = (ok1 \<and> ok2)"
    using assms(6) r1 by (auto simp: rollback_record_def split: prod.splits)
  have sets: "set (moves_back rec) = set ?moves" by (auto simp: moves_back_def record_moves_def)
  have locs: "set (pair_locs env (moves_back rec)) = set (pair_locs env ?moves)" by (simp add: set_pair_locs sets)
  have "distinct (pair_locs env (moves_back rec))"
    using assms(4) distinct_pair_locs_rev by (auto simp: moves_back_def record_moves_def set_pair_locs)
  note mb = move_back_effect [OF r2(1) this, unfolded sets locs]
  have fs1: "x \<noteq> ?t \<or> \<not> newPlaced rec \<Longrightarrow> dirs fs1 x = dirs fs x" "newPlaced rec \<and> ok1 \<Longrightarrow> dirs fs1 ?t = None" for x
    using r1 by (auto simp: fs_remove_all_def Let_def split: if_splits)
  have slots: "set (pair_locs env ?moves) \<subseteq> ?slots" using assms(3) by (auto simp: set_pair_locs plan_slots_def)
  have t: "?t \<in> ?slots" by (simp add: plan_slots_def)
  have q: "location env q \<noteq> ?t" if "(p, q) \<in> set ?moves" for p q
    using that assms(2,3) by (auto simp: plan_separate_def)
  show "\<forall>x. x \<notin> ?slots \<longrightarrow> dirs fs' x = dirs fs x"
    using mb slots t fs1(1) by (metis subsetD)
  have moved: "dirs fs' (location env p) = d (location env p) \<and> dirs fs' (location env q) = None \<or>
      \<not> ok \<and> dirs fs' (location env q) = d (location env p)" if pq: "(p, q) \<in> set ?moves" for p q
  proof -
    have "dirs fs1 (location env q) = d' (location env q)"
      using fs1(1) q [OF pq] assms(5) slots in_pair_locs [OF pq, of env] by auto
    moreover have "d' (location env q) = d (location env p)" using bspec [OF facts(1) pq] by simp
    ultimately show ?thesis using bspec [OF conjunct2 [OF mb] pq, unfolded prod.case] r2(2) by auto
  qed
  have unmoved: "dirs fs' x = d x" if "x \<in> ?slots" "x \<notin> set (pair_locs env ?moves)" "newPlaced rec \<longrightarrow> x \<noteq> ?s \<and> x \<noteq> ?t" for x
    using mb that facts(2) fs1(1) assms(5) by auto
  show "\<forall>(p, q) \<in> set (plan_pairs (record_plan rec)). d (location env p) \<noteq> None \<longrightarrow>
      dirs fs' (location env p) = d (location env p) \<or> dirs fs' (location env q) = d (location env p)"
  proof safe
    fix p q y assume pq: "(p, q) \<in> set (plan_pairs (record_plan rec))" and y: "d (location env p) = Some y"
      and n: "dirs fs' (location env q) \<noteq> d (location env p)"
    show "dirs fs' (location env p) = d (location env p)"
    proof (cases "(p, q) \<in> set ?moves")
      case True
      then show ?thesis using moved n by blast
    next
      case False
      have out: "location env p \<notin> set (pair_locs env ?moves)"
        using False pq assms(2,3) pair_locs_only [of env "plan_pairs (record_plan rec)" p q ?moves] by (simp add: plan_separate_def)
      moreover have "location env p \<noteq> ?s" using pq assms(2) in_pair_locs [OF pq, of env] by (auto simp: plan_separate_def)
      moreover have "newPlaced rec \<Longrightarrow> location env p \<noteq> ?t" using facts(3) out y by auto
      moreover have "location env p \<in> ?slots" using in_pair_locs [OF pq, of env] by (simp add: plan_slots_def)
      ultimately show ?thesis using unmoved by blast
    qed
  qed
  show "ok \<longrightarrow> (\<forall>x \<in> ?slots. x \<noteq> ?s \<longrightarrow> dirs fs' x = d x)"
  proof (intro impI ballI)
    fix x assume ok: ok and x: "x \<in> ?slots" "x \<noteq> ?s"
    show "dirs fs' x = d x"
    proof (cases "x \<in> set (pair_locs env ?moves)")
      case True
      then obtain p q where pq: "(p, q) \<in> set ?moves" "x = location env p \<or> x = location env q" by (auto simp: set_pair_locs)
      then show ?thesis using moved [OF pq(1)] ok bspec [OF facts(1) pq(1)] by auto
    next
      case False
      show ?thesis
      proof (cases "newPlaced rec \<and> x = ?t")
        case True
        then have "dirs fs' x = None" using mb False fs1(2) ok r2(2) by auto
        then show ?thesis using True False facts(3) by simp
      next
        case other: False
        then show ?thesis using unmoved x False by blast
      qed
    qed
  qed
qed

section \<open>All plans\<close>

fun plans_separate :: "'c commit_env \<Rightarrow> PackagePlan list \<Rightarrow> bool" where
  "plans_separate env [] \<longleftrightarrow> True"
| "plans_separate env (p # ps) \<longleftrightarrow>
     plan_separate env p \<and> (\<forall>q \<in> set ps. plan_slots env p \<inter> plan_slots env q = {}) \<and> plans_separate env ps"

lemma commit_plan_frame:
  assumes "commit_plan env plan fs = (err, rec, fs')" "plan_separate env plan" "x \<notin> plan_slots env plan"
  shows "dirs fs' x = dirs fs x"
proof -
  note e = commit_plan_effect [OF assms(1,2)]
  have "plan_separate env (record_plan rec)" using e assms(2) by simp
  note f = committed_facts(2) [OF _ this]
  have "x \<notin> set (pair_locs env (record_moves rec))" using e assms(3) by (auto simp: plan_slots_def set_pair_locs)
  then show ?thesis using f e assms(3) by (simp add: plan_slots_def)
qed

lemma commit_loop_frame:
  "commit_loop env plans fs = (err, recs, fs') \<Longrightarrow> plans_separate env plans \<Longrightarrow> \<forall>p \<in> set plans. x \<notin> plan_slots env p \<Longrightarrow>
   dirs fs' x = dirs fs x"
proof (induction plans arbitrary: fs recs)
  case (Cons p ps)
  obtain e rec fs1 where c: "commit_plan env p fs = (e, rec, fs1)" by (metis prod_cases3)
  have "dirs fs1 x = dirs fs x" using commit_plan_frame [OF c] Cons.prems(2,3) by simp
  then show ?case using Cons.IH Cons.prems c by (auto split: if_splits prod.splits)
qed simp

lemma rollback_records_snoc:
  "rollback_records env (recs @ [rec]) fs = (ok, fs') \<Longrightarrow>
   \<exists>ok1 ok2 fs1. rollback_records env recs fs = (ok1, fs1) \<and> rollback_record env rec fs1 = (ok2, fs') \<and> ok = (ok1 \<and> ok2)"
proof (induction recs arbitrary: fs ok)
  case (Cons r recs)
  obtain ok1 fs1 where r: "rollback_record env r fs = (ok1, fs1)" by (metis prod.exhaust)
  obtain ok' where r': "rollback_records env (recs @ [rec]) fs1 = (ok', fs')" "ok = (ok1 \<and> ok')"
    using Cons.prems r by (auto split: prod.splits)
  from Cons.IH [OF r'(1)] obtain a b f where "rollback_records env recs fs1 = (a, f)" "rollback_record env rec f = (b, fs')" "ok' = (a \<and> b)"
    by blast
  then show ?case using r r'(2) by (intro exI [of _ "ok1 \<and> a"] exI [of _ b] exI [of _ f]) simp
qed (auto split: prod.splits)

text \<open>What is left of the packages of a plan, and what is as it was.\<close>

definition none_lost :: "'c commit_env \<Rightarrow> PackagePlan \<Rightarrow> (string \<Rightarrow> 'c option) \<Rightarrow> (string \<Rightarrow> 'c option) \<Rightarrow> bool" where
  "none_lost env plan d d' \<longleftrightarrow> (\<forall>(p, q) \<in> set (plan_pairs plan). d (location env p) \<noteq> None \<longrightarrow>
     d' (location env p) = d (location env p) \<or> d' (location env q) = d (location env p))"

definition restored :: "'c commit_env \<Rightarrow> PackagePlan \<Rightarrow> (string \<Rightarrow> 'c option) \<Rightarrow> (string \<Rightarrow> 'c option) \<Rightarrow> bool" where
  "restored env plan d d' \<longleftrightarrow> (\<forall>x \<in> plan_slots env plan. x \<noteq> location env (stagingRoot plan) \<longrightarrow> d' x = d x)"

lemma slots_same:
  assumes "\<forall>x \<in> plan_slots env plan. d1 x = d x" "\<forall>x \<in> plan_slots env plan. d2 x = d' x"
  shows "none_lost env plan d1 d2 = none_lost env plan d d'" "restored env plan d1 d2 = restored env plan d d'"
proof -
  have "location env p \<in> plan_slots env plan" "location env q \<in> plan_slots env plan" if "(p, q) \<in> set (plan_pairs plan)" for p q
    using in_pair_locs [OF that, of env] by (simp_all add: plan_slots_def)
  then show "none_lost env plan d1 d2 = none_lost env plan d d'" using assms unfolding none_lost_def by fastforce
  show "restored env plan d1 d2 = restored env plan d d'" using assms by (simp add: restored_def)
qed

lemma none_lost_refl: "none_lost env plan d d" "restored env plan d d"
  by (auto simp: none_lost_def restored_def)

lemma rollback_loop:
  "commit_loop env plans fs = (err, recs, fs1) \<Longrightarrow> plans_separate env plans \<Longrightarrow>
   rollback_records env (rev recs) fs1 = (ok, fs3) \<Longrightarrow>
   (\<forall>x. (\<forall>p \<in> set plans. x \<notin> plan_slots env p) \<longrightarrow> dirs fs3 x = dirs fs x) \<and>
   (\<forall>p \<in> set plans. none_lost env p (dirs fs) (dirs fs3) \<and> (ok \<longrightarrow> restored env p (dirs fs) (dirs fs3)))"
proof (induction plans arbitrary: fs recs ok fs3)
  case (Cons p ps)
  obtain e rec fsA where c: "commit_plan env p fs = (e, rec, fsA)" by (metis prod_cases3)
  have sep: "plan_separate env p" "plans_separate env ps" and dis: "\<And>q. q \<in> set ps \<Longrightarrow> plan_slots env p \<inter> plan_slots env q = {}"
    using Cons.prems(2) by simp_all
  note eff = commit_plan_effect [OF c sep(1)]
  then have rp: "record_plan rec = p" "plan_separate env (record_plan rec)"
    and sub: "set (record_moves rec) \<subseteq> set (plan_pairs (record_plan rec))"
    and dist: "distinct (pair_locs env (record_moves rec))" and com: "committed env rec (dirs fs) (dirs fsA)"
    using sep(1) by simp_all
  obtain recs' okB fsB where rest: "recs = rec # recs'" "rollback_records env (rev recs') fs1 = (okB, fsB)"
    and frame: "\<forall>x. (\<forall>q \<in> set ps. x \<notin> plan_slots env q) \<longrightarrow> dirs fsB x = dirs fsA x"
    and ih: "\<forall>q \<in> set ps. none_lost env q (dirs fsA) (dirs fsB) \<and> (okB \<longrightarrow> restored env q (dirs fsA) (dirs fsB))"
  proof (cases "e = None")
    case True
    obtain recs' where l: "commit_loop env ps fsA = (err, recs', fs1)" "recs = rec # recs'"
      using Cons.prems(1) c True by (auto split: prod.splits)
    obtain okB fsB where r: "rollback_records env (rev recs') fs1 = (okB, fsB)" by (metis prod.exhaust)
    from Cons.IH [OF l(1) sep(2) r] that [OF l(2) r] show ?thesis by blast
  next
    case False
    then have "recs = rec # []" "rollback_records env (rev []) fs1 = (True, fsA)" using Cons.prems(1) c by auto
    then show ?thesis using that none_lost_refl by blast
  qed
  obtain ok2 where r2: "rollback_record env rec fsB = (ok2, fs3)" "ok = (okB \<and> ok2)"
    using rollback_records_snoc [of env "rev recs'" rec fs1 ok fs3] Cons.prems(3) rest by auto
  have pB: "\<forall>x \<in> plan_slots env (record_plan rec). dirs fsB x = dirs fsA x" using frame dis rp(1) by blast
  note eff2 = rollback_record_effect [OF com rp(2) sub dist pB r2(1), unfolded rp(1)]
  have "none_lost env q (dirs fs) (dirs fs3) \<and> (ok \<longrightarrow> restored env q (dirs fs) (dirs fs3))" if q: "q \<in> set ps" for q
  proof -
    have "\<forall>x \<in> plan_slots env q. dirs fsA x = dirs fs x" using commit_plan_frame [OF c sep(1)] dis [OF q] by blast
    moreover have "\<forall>x \<in> plan_slots env q. dirs fsB x = dirs fs3 x" using eff2(1) dis [OF q] by fastforce
    ultimately show ?thesis using slots_same [of env q "dirs fsA" "dirs fs" "dirs fsB" "dirs fs3"] ih q r2(2) by blast
  qed
  moreover have "none_lost env p (dirs fs) (dirs fs3)" "ok \<longrightarrow> restored env p (dirs fs) (dirs fs3)"
    using eff2(2,3) r2(2) by (simp_all add: none_lost_def restored_def)
  moreover have "dirs fs3 x = dirs fs x" if "\<forall>q \<in> set (p # ps). x \<notin> plan_slots env q" for x
    using that eff2(1) frame commit_plan_frame [OF c sep(1), of x] by simp
  ultimately show ?case by simp
qed simp

lemma check_plans_dirs: "check_plans env seen plans fs = (err, fs') \<Longrightarrow> dirs fs' = dirs fs"
proof (induction plans arbitrary: seen fs)
  case (Cons p ps)
  obtain found failed fs1 where e: "fs_exists env (plan_destination p) fs = (found, failed, fs1)" by (metis prod_cases3)
  show ?case
    using Cons.prems Cons.IH [of _ fs1] e fs_exists_dirs [OF e] by (auto simp: Let_def split: option.splits if_splits)
qed simp

lemma remove_paths_frame: "x \<notin> location env ` set ps \<Longrightarrow> dirs (remove_paths env ps fs) x = dirs fs x"
proof (induction ps arbitrary: fs)
  case (Cons p ps)
  have "dirs (snd (fs_remove_all env p fs)) x = dirs fs x" using Cons.prems by (simp add: fs_remove_all_def Let_def)
  then show ?case using Cons by simp
qed simp

lemma plans_disjoint:
  "plans_separate env plans \<Longrightarrow> p \<in> set plans \<Longrightarrow> q \<in> set plans \<Longrightarrow> p \<noteq> q \<Longrightarrow> plan_slots env p \<inter> plan_slots env q = {}"
  by (induction plans) auto

lemma plan_backup_slots:
  assumes "plans_separate env plans" "p \<in> set plans" "q \<in> set plans" "(r, b) \<in> set (plan_pairs q)"
  shows "location env b \<noteq> location env (plan_destination p)"
proof (cases "p = q")
  case True
  have "plan_separate env q" using assms(1,3) by (induction plans) auto
  then show ?thesis using True assms(4) by (auto simp: plan_separate_def)
next
  case False
  have "location env b \<in> plan_slots env q" using in_pair_locs [OF assms(4), of env] by (simp add: plan_slots_def)
  moreover have "location env (plan_destination p) \<in> plan_slots env p" by (simp add: plan_slots_def)
  ultimately show ?thesis using plans_disjoint [OF assms(1-3) False] by auto
qed

lemma commit_loop_places:
  "commit_loop env plans fs = (None, recs, fs') \<Longrightarrow> plans_separate env plans \<Longrightarrow>
   (\<forall>p \<in> set plans. dirs fs (location env (stagingRoot p)) \<noteq> None \<and>
      dirs fs' (location env (plan_destination p)) = dirs fs (location env (stagingRoot p))) \<and>
   (\<forall>b \<in> set (concat (map backups_of recs)). \<exists>p \<in> set plans. \<exists>r. (r, b) \<in> set (plan_pairs p))"
proof (induction plans arbitrary: fs recs)
  case (Cons p ps)
  obtain rec fs1 recs' where c: "commit_plan env p fs = (None, rec, fs1)" "commit_loop env ps fs1 = (None, recs', fs')" "recs = rec # recs'"
    using Cons.prems(1) by (auto split: if_splits prod.splits)
  have sep: "plan_separate env p" "plans_separate env ps" and dis: "\<And>q. q \<in> set ps \<Longrightarrow> plan_slots env p \<inter> plan_slots env q = {}"
    using Cons.prems(2) by simp_all
  note eff = commit_plan_effect [OF c(1) sep(1)]
  then have "plan_separate env (record_plan rec)" using sep(1) by simp
  note fact3 = committed_facts(3) [OF _ this]
  let ?s = "location env (stagingRoot p)" and ?t = "location env (plan_destination p)"
  have placed: "dirs fs ?s \<noteq> None" "dirs fs1 ?t = dirs fs ?s" using fact3 eff by auto
  have "?t \<notin> plan_slots env q" if "q \<in> set ps" for q using dis [OF that] by (auto simp: plan_slots_def)
  then have "dirs fs' ?t = dirs fs ?s" using commit_loop_frame [OF c(2) sep(2)] placed(2) by simp
  moreover have "dirs fs1 (location env (stagingRoot q)) = dirs fs (location env (stagingRoot q))" if "q \<in> set ps" for q
    using commit_plan_frame [OF c(1) sep(1)] dis [OF that] by (auto simp: plan_slots_def)
  moreover have "\<exists>r. (r, b) \<in> set (plan_pairs p)" if "b \<in> set (backups_of rec)" for b
  proof -
    have "b \<in> snd ` set (record_moves rec)" using that by (auto simp: backups_of_def record_moves_def split: if_splits)
    then show ?thesis using eff by auto
  qed
  ultimately show ?case using Cons.IH [OF c(2) sep(2)] placed(1) c(3) by fastforce
qed simp

text \<open>
  C19: Whatever operations of the file system fail and however the reload ends, \<open>CommitPlans\<close> touches no
  directory but those of its plans. If it succeeds, every staged package is at its destination. If it
  does not, every installed package to be replaced is where it was or in its backup, and if it does not
  ask to keep the recovery files, everything but the staged packages is as before.
\<close>

theorem commit_or_rollback:
  assumes "plans_separate env plans" "CommitPlans env plans fs = (res, fs')"
  shows "(\<forall>x. (\<forall>p \<in> set plans. x \<notin> plan_slots env p) \<longrightarrow> dirs fs' x = dirs fs x) \<and>
    (if commit_ok res
     then \<forall>p \<in> set plans. dirs fs (location env (stagingRoot p)) \<noteq> None \<and>
       dirs fs' (location env (plan_destination p)) = dirs fs (location env (stagingRoot p))
     else (\<forall>p \<in> set plans. none_lost env p (dirs fs) (dirs fs')) \<and>
       (\<not> preserveRecoveryFiles res \<longrightarrow> (\<forall>p \<in> set plans. restored env p (dirs fs) (dirs fs'))))"
proof -
  obtain e0 fs0 where c: "check_plans env [] plans fs = (e0, fs0)" by (metis prod.exhaust)
  note d0 = check_plans_dirs [OF c]
  obtain err recs fs1 where l: "commit_loop env plans fs0 = (err, recs, fs1)" by (metis prod_cases3)
  obtain ok fs2 where r: "rollback_records env (rev recs) fs1 = (ok, fs2)" by (metis prod.exhaust)
  let ?err' = "if err = None then ReloadAndVerify_error (reload_result env (dirs fs1)) else err"
  consider (early) "\<not> commit_ok res" "\<not> preserveRecoveryFiles res" "fs' = fs0"
    | (complete) "err = None" "commit_ok res" "fs' = remove_paths env (concat (map backups_of recs)) fs1"
    | (rolled) "\<not> commit_ok res" "preserveRecoveryFiles res \<or> ok" "fs' = fs2"
    using assms(2) c l r
    by (cases e0; cases ?err') (auto simp: CommitPlans_def Let_def split: option.splits if_splits)
  then show ?thesis
  proof cases
    case early
    then show ?thesis using d0 by (simp add: none_lost_refl)
  next
    case complete
    note p = commit_loop_places [OF l [unfolded complete(1)] assms(1)]
    have same: "dirs fs' x = dirs fs1 x" if "\<forall>b \<in> set (concat (map backups_of recs)). location env b \<noteq> x" for x
      unfolding complete(3) using that by (intro remove_paths_frame) auto
    have dest: "location env b \<noteq> location env (plan_destination q)" if "q \<in> set plans" "b \<in> set (concat (map backups_of recs))" for q b
      using p that plan_backup_slots [OF assms(1) that(1)] by blast
    have out: "location env b \<noteq> x" if x: "\<forall>q \<in> set plans. x \<notin> plan_slots env q" and b: "b \<in> set (concat (map backups_of recs))" for x b
    proof -
      obtain q u where q: "q \<in> set plans" "(u, b) \<in> set (plan_pairs q)" using p b by blast
      then have "location env b \<in> plan_slots env q" using in_pair_locs [OF q(2), of env] by (simp add: plan_slots_def)
      then show ?thesis using x q(1) by blast
    qed
    have "dirs fs' x = dirs fs x" if "\<forall>p \<in> set plans. x \<notin> plan_slots env p" for x
      using same [of x] out [OF that] commit_loop_frame [OF l assms(1) that] d0 by simp
    moreover have "dirs fs' (location env (plan_destination q)) = dirs fs1 (location env (plan_destination q))" if "q \<in> set plans" for q
      using same dest [OF that] by blast
    ultimately show ?thesis using p d0 complete(2) by simp
  next
    case rolled
    then show ?thesis using rollback_loop [OF l assms(1) r] d0 by auto
  qed
qed

definition ex_commit_env :: "string commit_env" where
  "ex_commit_env = \<lparr>normalize = Some, op_fails = (\<lambda>n. n = 3), left_over = (\<lambda>n. None), error_text = (\<lambda>n. ''busy''),
     unload_result = Some True, reload_result = (\<lambda>d. Some True), rollback_result = (\<lambda>d. Some True)\<rparr>"

definition ex_plan :: PackagePlan where
  "ex_plan = no_plan\<lparr>oldRoot := Some ''p/mws-5'', plan_destination := ''p/mws-5'', stagingRoot := ''j/s'', backupRoot := ''j/b''\<rparr>"

definition ex_dirs :: "string dir_state" where
  "ex_dirs = \<lparr>dirs = [''p/mws-5'' \<mapsto> ''old'', ''j/s'' \<mapsto> ''new''], fs_ops = 0\<rparr>"

lemma ex_plans_separate: "plans_separate ex_commit_env [ex_plan]"
proof -
  have pairs: "plan_pairs ex_plan = [(''p/mws-5'', ''j/b'')]" by (simp add: plan_pairs_def ex_plan_def no_plan_def)
  have loc: "location ex_commit_env p = LowerAscii (generic_form p)" for p
    by (simp add: location_def ex_commit_env_def PathKey_def)
  have "LowerAscii (generic_form ''p/mws-5'') = ''p/mws-5''" "LowerAscii (generic_form ''j/b'') = ''j/b''"
    "LowerAscii (generic_form ''j/s'') = ''j/s''"
    by (simp_all add: LowerAscii_def lower_char_def generic_form_def)
  moreover have "stagingRoot ex_plan = ''j/s''" "plan_destination ex_plan = ''p/mws-5''" by (simp_all add: ex_plan_def no_plan_def)
  ultimately show ?thesis by (simp add: plan_separate_def pairs loc)
qed

text \<open>The move of the staged package fails, and the old one is moved back.\<close>

lemma commit_or_rollback_witness:
  "restored ex_commit_env ex_plan (dirs ex_dirs) (dirs (snd (CommitPlans ex_commit_env [ex_plan] ex_dirs)))"
proof -
  obtain res fs' where c: "CommitPlans ex_commit_env [ex_plan] ex_dirs = (res, fs')" by (metis prod.exhaust)
  have "commit_ok (fst (CommitPlans ex_commit_env [ex_plan] ex_dirs)) = False"
    "preserveRecoveryFiles (fst (CommitPlans ex_commit_env [ex_plan] ex_dirs)) = False"
    by code_simp+
  then show ?thesis using commit_or_rollback [OF ex_plans_separate c] c by simp
qed

end
