(* ===== verification/ModResolve.thy ===== *)
theory ModResolve
  imports ModPlatform
begin

text \<open>
  The resolution of dependencies, \<open>CModInstallService::ResolveModWorkshop\<close>
  (\<open>src/modsystem/modinstaller.cpp\<close>): a depth-first search over the dependencies of a mod that plans every
  package that is needed and not installed, those a package needs before the package itself.

  The set \<open>visiting\<close> holds the mods the search is inside of. The code takes a mod out again on every
  way out of the call that put it in, so it is an argument here.
\<close>

section \<open>State and environment\<close>

text \<open>
  The details of a mod do not change during a search, but each request for them can fail, which
  \<open>request_error\<close> says by the number of the request; an empty text is an error too. Requests
  to Thunderstore are numbered in the same way.
\<close>

record resolve_env =
  mod_details :: "u64 \<Rightarrow> ModWorkshopDetails"
  request_error :: "nat \<Rightarrow> string option"
  thunder_answer :: "nat \<Rightarrow> string \<Rightarrow> string \<Rightarrow> thunder_reply option"
  cancelled_after :: "nat \<Rightarrow> bool"
  inventory :: "ModWorkshopTrackedPackage list"
  package_folder :: string
  installedModNames :: "string set"

record resolve_state =
  plans :: "PackagePlan list"
  resolved :: "u64 \<Rightarrow> nat option"
  requests :: nat
  errorMessage :: string

definition no_resolution :: resolve_state where
  "no_resolution = \<lparr>plans = [], resolved = Map.empty, requests = 0, errorMessage = []\<rparr>"

section \<open>One mod\<close>

definition is_installable :: "ModWorkshopDetails \<Rightarrow> bool" where
  "is_installable details \<longleftrightarrow>
     approved details \<and> \<not> suspended details \<and> \<not> disableModManagers details \<and> hasDownload details \<and>
     (case selectedFile details of
        None \<Rightarrow> False
      | Some f \<Rightarrow> (sf_type f = [] \<or> sf_type f = ''zip'') \<and> sf_downloadUrl f \<noteq> [])"

text \<open>
  The checks of a mod before its dependencies: an error, or nothing to do because it is installed as it
  is offered, or the file to download.
\<close>

definition check_mod ::
    "resolve_env \<Rightarrow> u64 \<Rightarrow> bool \<Rightarrow> ModInstallAction \<Rightarrow> u64 \<Rightarrow> string + ModWorkshopSelectedFile option" where
  "check_mod env modId root action expectedSelectedFileId =
     (let details = mod_details env modId; installed = FindPackage (inventory env) modId in
      case selectedFile details of
        None \<Rightarrow> Inl (''ModWorkshop mod '' @ show_nat (unat modId) @ '' cannot be installed by a mod manager'')
      | Some f \<Rightarrow>
          if \<not> is_installable details
          then Inl (''ModWorkshop mod '' @ show_nat (unat modId) @ '' cannot be installed by a mod manager'')
          else if root \<and> expectedSelectedFileId \<noteq> 0 \<and> sf_id f \<noteq> expectedSelectedFileId
          then Inl ''The selected ModWorkshop download changed before installation''
          else if \<not> root \<and> (\<exists>p \<in> set_option installed. \<exists>s \<in> set_option (installedState p). ps_selectedFileId s = sf_id f)
          then Inr None
          else if root \<and> action = Install \<and> installed \<noteq> None then Inl ''Mod is already installed''
          else if root \<and> action = Update \<and> (case installed of None \<Rightarrow> True | Some p \<Rightarrow> installedState p = None)
          then Inl ''Tracked selected-file metadata is required before updating''
          else Inr (Some f))"

definition mod_plan :: "resolve_env \<Rightarrow> u64 \<Rightarrow> ModWorkshopSelectedFile \<Rightarrow> PackagePlan" where
  "mod_plan env modId f =
     (let details = mod_details env modId;
          icon = (case det_thumbnail details of None \<Rightarrow> [] | Some t \<Rightarrow> IconFilenameForPath (th_file t));
          url = (case det_thumbnail details of None \<Rightarrow> []
                 | Some t \<Rightarrow> if icon = [] then [] else BuildThumbnailUrl (t\<lparr>hasThumbnail := False\<rparr>));
          fallback = (case det_thumbnail details of None \<Rightarrow> []
                 | Some t \<Rightarrow> if icon = [] \<or> \<not> hasThumbnail t then [] else BuildThumbnailUrl (t\<lparr>hasThumbnail := True\<rparr>))
      in no_plan\<lparr>plan_modId := modId, selectedFileId := sf_id f, expectedDownloadSize := sf_size f,
           managedId := show_nat (unat modId), plan_name := det_name details, plan_author := det_author details,
           plan_version := (if sf_version f = [] then det_version details else sf_version f),
           selectedFileUpdatedAt := sf_updatedAt f, remoteModUpdatedAt := det_updatedAt details,
           downloadUrl := sf_downloadUrl f, iconFilename := icon, iconUrl := url, iconFallbackUrl := fallback,
           oldRoot := map_option packageRoot (FindPackage (inventory env) modId),
           plan_destination := path_append (package_folder env) (''mws-'' @ show_nat (unat modId))\<rparr>)"

definition add_plan :: "resolve_env \<Rightarrow> u64 \<Rightarrow> ModWorkshopSelectedFile \<Rightarrow> resolve_state \<Rightarrow> resolve_state" where
  "add_plan env modId f st =
     st\<lparr>resolved := (resolved st)(modId := Some (case resolved st modId of None \<Rightarrow> length (plans st) | Some i \<Rightarrow> i)),
        plans := plans st @ [mod_plan env modId f]\<rparr>"

section \<open>One dependency\<close>

text \<open>A mod of that name is installed, and the dependency is not a package the inventory tracks.\<close>

definition name_installed :: "resolve_env \<Rightarrow> ModWorkshopDependency \<Rightarrow> bool" where
  "name_installed env d \<longleftrightarrow>
     dep_name d \<noteq> [] \<and> dep_name d \<in> installedModNames env \<and>
     (case dep_modId d of None \<Rightarrow> True | Some m \<Rightarrow> FindPackage (inventory env) m = None)"

definition thunder_id :: "PackageDetails \<Rightarrow> string" where
  "thunder_id details = m_Namespace details @ ''/'' @ m_Name details"

definition thunder_plan :: "resolve_env \<Rightarrow> ModWorkshopDependency \<Rightarrow> PackageDetails \<Rightarrow> PackagePlan" where
  "thunder_plan env d details =
     (let icon = IconFilenameForPath (m_IconUrl details) in
      no_plan\<lparr>source := Thunderstore, managedId := thunder_id details,
        plan_name := (if dep_name d = [] then m_Name details else dep_name d),
        plan_author := m_Namespace details, plan_version := m_Version details, downloadUrl := m_DownloadUrl details,
        iconFilename := icon, iconUrl := (if icon = [] then [] else m_IconUrl details),
        plan_destination := path_append (package_folder env)
          (''ts-'' @ SanitizeFolderComponent (m_Namespace details) @ ''-'' @ SanitizeFolderComponent (m_Name details) @
           ''-'' @ SanitizeFolderComponent (m_Version details))\<rparr>)"

text \<open>A dependency on Thunderstore. The request is made only if its names can be read from the URL.\<close>

definition fetch_offsite :: "resolve_env \<Rightarrow> string \<Rightarrow> nat \<Rightarrow> PackageDetails option" where
  "fetch_offsite env url n =
     (case ParsePackageUrl url of
        None \<Rightarrow> None
      | Some (namespaceName, packageName) \<Rightarrow> FetchPackageDetails (thunder_answer env n) namespaceName packageName)"

definition resolve_offsite :: "resolve_env \<Rightarrow> ModWorkshopDependency \<Rightarrow> resolve_state \<Rightarrow> bool \<times> resolve_state" where
  "resolve_offsite env d st =
     (let fetched = fetch_offsite env (dep_url d) (requests st); st = st\<lparr>requests := requests st + 1\<rparr> in
      case fetched of
        None \<Rightarrow>
          (False, st\<lparr>errorMessage := ''Failed resolving required Thunderstore dependency '' @ CHR 0x27 #
             (if dep_name d = [] then dep_url d else dep_name d) @ [CHR 0x27]\<rparr>)
      | Some details \<Rightarrow>
          if cancelled_after env (requests st) then (False, st\<lparr>errorMessage := ''Installation cancelled''\<rparr>)
          else if \<exists>p \<in> set (plans st). source p = Thunderstore \<and> managedId p = thunder_id details then (True, st)
          else (True, st\<lparr>plans := plans st @ [thunder_plan env d details]\<rparr>))"

text \<open>The message of a dependency that could not be resolved, if there is none yet.\<close>

definition unresolved :: "ModWorkshopDependency \<Rightarrow> resolve_state \<Rightarrow> resolve_state" where
  "unresolved d st =
     (if errorMessage st = []
      then st\<lparr>errorMessage := ''Required dependency '' @ CHR 0x27 # dep_name d @ CHR 0x27 # '' has no installable id''\<rparr>
      else st)"

section \<open>The search\<close>

lemma card_unvisited: "m \<notin> (V :: u64 set) \<Longrightarrow> card (UNIV - insert m V) < card (UNIV - V)"
  by (intro psubset_card_mono) auto

function
  ResolveModWorkshop :: "resolve_env \<Rightarrow> u64 set \<Rightarrow> u64 \<Rightarrow> bool \<Rightarrow> ModInstallAction \<Rightarrow> u64 \<Rightarrow> resolve_state \<Rightarrow> bool \<times> resolve_state"
and
  resolve_dependencies :: "resolve_env \<Rightarrow> u64 set \<Rightarrow> ModWorkshopDependency list \<Rightarrow> resolve_state \<Rightarrow> bool \<times> resolve_state"
where
  "ResolveModWorkshop env visiting modId root action expectedSelectedFileId st =
     (if resolved st modId \<noteq> None then (True, st)
      else if modId \<in> visiting then (False, st\<lparr>errorMessage := ''ModWorkshop dependency cycle detected''\<rparr>)
      else
        let failed = request_error env (requests st); st = st\<lparr>requests := requests st + 1\<rparr> in
        case failed of
          Some message \<Rightarrow> (False, st\<lparr>errorMessage := message\<rparr>)
        | None \<Rightarrow>
            (case check_mod env modId root action expectedSelectedFileId of
               Inl message \<Rightarrow> (False, st\<lparr>errorMessage := message\<rparr>)
             | Inr None \<Rightarrow> (True, st)
             | Inr (Some f) \<Rightarrow>
                 (case resolve_dependencies env (insert modId visiting) (dependencies (mod_details env modId)) st of
                    (ok, st) \<Rightarrow> if ok then (True, add_plan env modId f st) else (False, st))))"
| "resolve_dependencies env visiting [] st = (True, st)"
| "resolve_dependencies env visiting (d # ds) st =
     (if dep_optional d \<or> name_installed env d then resolve_dependencies env visiting ds st
      else if dep_offsite d
      then (case resolve_offsite env d st of
              (ok, st) \<Rightarrow> if ok then resolve_dependencies env visiting ds st else (False, st))
      else (case dep_modId d of
              None \<Rightarrow> (False, unresolved d st)
            | Some m \<Rightarrow>
                (case ResolveModWorkshop env visiting m False Install 0 st of
                   (ok, st) \<Rightarrow> if ok then resolve_dependencies env visiting ds st else (False, unresolved d st))))"
  by pat_completeness auto

text \<open>Each call for another mod is inside one mod more, and there are finitely many ids.\<close>

termination
  by (relation "inv_image (less_than <*lex*> less_than) (\<lambda>x. case x of
        Inl (env, visiting, modId, _) \<Rightarrow> (card (UNIV - visiting), 0)
      | Inr (env, visiting, ds, st) \<Rightarrow> (card (UNIV - visiting), length ds + 1))")
    (auto simp del: card_Diff_insert intro!: card_unvisited)

declare ResolveModWorkshop.simps [simp del]

end
