(* ===== verification/ModResolveSpec.thy ===== *)
theory ModResolveSpec
  imports ModResolve
begin

text \<open>
  What a resolution guarantees: the plans are in an order in which every package comes after those it
  needs, nothing is planned twice or without need, and the search fails on a cycle and only for a reason.
\<close>

section \<open>Dependencies\<close>

text \<open>A mod is present if it is installed with the file that is offered.\<close>

definition present :: "resolve_env \<Rightarrow> u64 \<Rightarrow> bool" where
  "present env m \<longleftrightarrow>
     (\<exists>p \<in> set_option (FindPackage (inventory env) m). \<exists>s \<in> set_option (installedState p).
        \<exists>f \<in> set_option (selectedFile (mod_details env m)). ps_selectedFileId s = sf_id f)"

text \<open>A dependency is met by what is installed or planned; the mod \<open>r\<close> that was asked for does not count as installed.\<close>

definition met :: "resolve_env \<Rightarrow> u64 \<Rightarrow> PackagePlan list \<Rightarrow> ModWorkshopDependency \<Rightarrow> bool" where
  "met env r ps d \<longleftrightarrow>
     dep_optional d \<or> name_installed env d \<or>
     (if dep_offsite d
      then \<exists>p \<in> set ps. source p = Thunderstore \<and>
             (\<exists>n details. fetch_offsite env (dep_url d) n = Some details \<and> managedId p = thunder_id details)
      else \<exists>m. dep_modId d = Some m \<and>
             (m \<noteq> r \<and> present env m \<or> (\<exists>p \<in> set ps. source p = ModWorkshop \<and> plan_modId p = m)))"

definition plan_sound :: "resolve_env \<Rightarrow> u64 \<Rightarrow> PackagePlan list \<Rightarrow> PackagePlan \<Rightarrow> bool" where
  "plan_sound env r ps p \<longleftrightarrow>
     (source p = ModWorkshop \<and> is_installable (mod_details env (plan_modId p)) \<and>
      (\<exists>f. selectedFile (mod_details env (plan_modId p)) = Some f \<and> p = mod_plan env (plan_modId p) f) \<and>
      (\<forall>d \<in> set (dependencies (mod_details env (plan_modId p))). met env r ps d) \<and>
      (\<forall>q \<in> set ps. source q = ModWorkshop \<longrightarrow> plan_modId q \<noteq> plan_modId p)) \<or>
     (source p = Thunderstore \<and> (\<forall>q \<in> set ps. source q = Thunderstore \<longrightarrow> managedId q \<noteq> managedId p))"

definition plans_ordered :: "resolve_env \<Rightarrow> u64 \<Rightarrow> PackagePlan list \<Rightarrow> bool" where
  "plans_ordered env r ps \<longleftrightarrow> (\<forall>i < length ps. plan_sound env r (take i ps) (ps ! i))"

definition requires :: "resolve_env \<Rightarrow> (u64 \<times> u64) set" where
  "requires env = {(a, b). \<exists>d \<in> set (dependencies (mod_details env a)).
     \<not> dep_optional d \<and> \<not> name_installed env d \<and> \<not> dep_offsite d \<and> dep_modId d = Some b}"

text \<open>The dependencies that are followed: those of \<open>r\<close> and of mods that are not present.\<close>

definition needs :: "resolve_env \<Rightarrow> u64 \<Rightarrow> (u64 \<times> u64) set" where
  "needs env r = {(a, b) \<in> requires env. a = r \<or> \<not> present env a}"

lemma plans_ordered_Nil [simp]: "plans_ordered env r []"
  by (simp add: plans_ordered_def)

lemma plans_ordered_snoc:
  "plans_ordered env r (ps @ [p]) \<longleftrightarrow> plans_ordered env r ps \<and> plan_sound env r ps p"
  by (auto simp: plans_ordered_def nth_append less_Suc_eq)

lemma met_mono: "met env r ps d \<Longrightarrow> set ps \<subseteq> set qs \<Longrightarrow> met env r qs d"
  unfolding met_def by (auto split: if_splits)

section \<open>Steps\<close>

lemma check_mod_None:
  assumes "check_mod env m root action expected = Inr None"
  shows "\<not> root" "present env m"
proof -
  obtain f where f: "selectedFile (mod_details env m) = Some f"
    using assms by (auto simp: check_mod_def Let_def split: option.splits)
  show "\<not> root" "present env m"
    using assms f by (auto simp: check_mod_def Let_def present_def split: if_splits option.splits)
qed

lemma check_mod_Some:
  assumes "check_mod env m root action expected = Inr (Some f)"
  shows "selectedFile (mod_details env m) = Some f" "is_installable (mod_details env m)" "root \<or> \<not> present env m"
proof -
  obtain g where g: "selectedFile (mod_details env m) = Some g"
    using assms by (auto simp: check_mod_def Let_def split: option.splits)
  show "selectedFile (mod_details env m) = Some f" "is_installable (mod_details env m)" "root \<or> \<not> present env m"
    using assms g by (auto simp: check_mod_def Let_def present_def split: if_splits option.splits)
qed

lemma mod_plan_fields [simp]:
  "source (mod_plan env m f) = ModWorkshop" "plan_modId (mod_plan env m f) = m"
  by (simp_all add: mod_plan_def no_plan_def Let_def)

lemma thunder_plan_fields [simp]:
  "source (thunder_plan env d details) = Thunderstore" "managedId (thunder_plan env d details) = thunder_id details"
  by (simp_all add: thunder_plan_def no_plan_def Let_def)

lemma unresolved_fields [simp]:
  "plans (unresolved d st) = plans st" "resolved (unresolved d st) = resolved st"
  by (simp_all add: unresolved_def)

section \<open>The invariant of the search\<close>

definition search_inv :: "resolve_env \<Rightarrow> u64 \<Rightarrow> u64 set \<Rightarrow> resolve_state \<Rightarrow> bool" where
  "search_inv env r visiting st \<longleftrightarrow>
     plans_ordered env r (plans st) \<and>
     (\<forall>m. resolved st m = None \<longleftrightarrow> (\<forall>p \<in> set (plans st). source p = ModWorkshop \<longrightarrow> plan_modId p \<noteq> m)) \<and>
     (\<forall>m \<in> visiting. resolved st m = None)"

lemma search_inv_same:
  "search_inv env r visiting st \<Longrightarrow> plans st' = plans st \<Longrightarrow> resolved st' = resolved st \<Longrightarrow> search_inv env r visiting st'"
  by (simp add: search_inv_def)

lemma resolve_offsite_inv:
  assumes "search_inv env r visiting st" "resolve_offsite env d st = (ok, st')" "dep_offsite d"
  shows "search_inv env r visiting st'" "set (plans st) \<subseteq> set (plans st')" "ok \<Longrightarrow> met env r (plans st') d"
    "\<forall>p \<in> set (plans st') - set (plans st). source p = Thunderstore"
proof -
  have "search_inv env r visiting st' \<and> set (plans st) \<subseteq> set (plans st') \<and> (ok \<longrightarrow> met env r (plans st') d) \<and>
    (\<forall>p \<in> set (plans st') - set (plans st). source p = Thunderstore)"
  proof (cases "fetch_offsite env (dep_url d) (requests st)")
    case None
    then show ?thesis using assms by (auto simp: resolve_offsite_def search_inv_def)
  next
    case (Some details)
    consider (cancel) "cancelled_after env (requests st + 1)"
      | (planned) "\<not> cancelled_after env (requests st + 1)" "\<exists>p \<in> set (plans st). source p = Thunderstore \<and> managedId p = thunder_id details"
      | (new) "\<not> cancelled_after env (requests st + 1)" "\<not> (\<exists>p \<in> set (plans st). source p = Thunderstore \<and> managedId p = thunder_id details)"
      by blast
    then show ?thesis
    proof cases
      case cancel
      then show ?thesis using assms Some by (auto simp: resolve_offsite_def search_inv_def)
    next
      case planned
      then have st': "ok" "st' = st\<lparr>requests := requests st + 1\<rparr>" using assms Some by (auto simp: resolve_offsite_def)
      have "met env r (plans st') d" using planned(2) Some assms(3) st' by (auto simp: met_def)
      then show ?thesis using assms(1) st' by (auto simp: search_inv_def)
    next
      case new
      then have st': "ok" "st' = st\<lparr>requests := requests st + 1, plans := plans st @ [thunder_plan env d details]\<rparr>"
        using assms Some by (auto simp: resolve_offsite_def Let_def split: if_splits)
      have "met env r (plans st') d" using Some assms(3) st' by (auto simp: met_def)
      moreover have "plan_sound env r (plans st) (thunder_plan env d details)"
        using new(2) by (auto simp: plan_sound_def)
      ultimately show ?thesis using assms(1) st' by (auto simp: search_inv_def plans_ordered_snoc)
    qed
  qed
  then show "search_inv env r visiting st'" "set (plans st) \<subseteq> set (plans st')" "ok \<Longrightarrow> met env r (plans st') d"
    "\<forall>p \<in> set (plans st') - set (plans st). source p = Thunderstore"
    by simp_all
qed

lemma add_plan_inv:
  assumes "search_inv env r (insert m visiting) st" "check_mod env m root action expected = Inr (Some f)" "m \<notin> visiting"
    "\<forall>d \<in> set (dependencies (mod_details env m)). met env r (plans st) d"
  shows "search_inv env r visiting (add_plan env m f st)"
proof -
  have new: "\<forall>p \<in> set (plans st). source p = ModWorkshop \<longrightarrow> plan_modId p \<noteq> m" "resolved st m = None"
    using assms(1) by (auto simp: search_inv_def)
  then have "plan_sound env r (plans st) (mod_plan env m f)"
    using check_mod_Some [OF assms(2)] assms(4) by (auto simp: plan_sound_def)
  then show ?thesis using assms(1,3) by (auto simp: search_inv_def plans_ordered_snoc add_plan_def)
qed

definition planned :: "resolve_state \<Rightarrow> u64 \<Rightarrow> bool" where
  "planned st m \<longleftrightarrow> (\<exists>p \<in> set (plans st). source p = ModWorkshop \<and> plan_modId p = m)"

definition new_mods :: "resolve_state \<Rightarrow> resolve_state \<Rightarrow> u64 set" where
  "new_mods st st' = plan_modId ` {p \<in> set (plans st') - set (plans st). source p = ModWorkshop}"

definition dep_mods :: "resolve_env \<Rightarrow> ModWorkshopDependency list \<Rightarrow> u64 set" where
  "dep_mods env ds = {b. \<exists>d \<in> set ds. \<not> dep_optional d \<and> \<not> name_installed env d \<and> \<not> dep_offsite d \<and> dep_modId d = Some b}"

lemma new_mods_same [simp]: "plans st' = plans st \<Longrightarrow> new_mods st st' = {}"
  by (simp add: new_mods_def)

lemma new_mods_trans: "new_mods st st'' \<subseteq> new_mods st st' \<union> new_mods st' st''"
  by (auto simp: new_mods_def)

lemma dep_mods_requires: "dep_mods env (dependencies (mod_details env m)) = requires env `` {m}"
  by (auto simp: dep_mods_def requires_def)

lemma requires_closed: "x \<in> (requires env)\<^sup>* `` (requires env `` {m}) \<Longrightarrow> (m, x) \<in> (requires env)\<^sup>*"
  by (auto intro: converse_rtrancl_into_rtrancl)

lemma search_correct:
  "search_inv env r visiting st \<Longrightarrow> (if root then m = r else r \<in> visiting) \<Longrightarrow>
     ResolveModWorkshop env visiting m root action expected st = (ok, st') \<Longrightarrow>
     search_inv env r visiting st' \<and> set (plans st) \<subseteq> set (plans st') \<and>
     (ok \<longrightarrow> \<not> root \<and> m \<noteq> r \<and> present env m \<or> planned st' m) \<and>
     new_mods st st' \<subseteq> (requires env)\<^sup>* `` {m}"
  "search_inv env r visiting st \<Longrightarrow> r \<in> visiting \<Longrightarrow>
     resolve_dependencies env visiting ds st = (ok, st') \<Longrightarrow>
     search_inv env r visiting st' \<and> set (plans st) \<subseteq> set (plans st') \<and>
     (ok \<longrightarrow> (\<forall>d \<in> set ds. met env r (plans st') d)) \<and>
     new_mods st st' \<subseteq> (requires env)\<^sup>* `` dep_mods env ds"
proof (induction env visiting m root action expected st and env visiting ds st arbitrary: ok st' and ok st'
    rule: ResolveModWorkshop_resolve_dependencies.induct)
  case (1 env visiting m root action expected st)
  let ?st = "st\<lparr>requests := requests st + 1\<rparr>"
  note run = "1.prems"(3) [unfolded ResolveModWorkshop.simps [of env visiting m] Let_def]
  consider (known) "resolved st m \<noteq> None"
    | (cycle) "resolved st m = None" "m \<in> visiting"
    | (failed) e where "resolved st m = None" "m \<notin> visiting" "request_error env (requests st) = Some e"
    | (refused) e where "resolved st m = None" "m \<notin> visiting" "request_error env (requests st) = None"
        "check_mod env m root action expected = Inl e"
    | (here) "resolved st m = None" "m \<notin> visiting" "request_error env (requests st) = None"
        "check_mod env m root action expected = Inr None"
    | (search) f where "resolved st m = None" "m \<notin> visiting" "request_error env (requests st) = None"
        "check_mod env m root action expected = Inr (Some f)"
    by (metis not_None_eq sum.exhaust)
  then show ?case
  proof cases
    case known
    then have "planned st m" using "1.prems"(1) unfolding search_inv_def planned_def by metis
    then show ?thesis using run known "1.prems"(1) by auto
  next
    case cycle
    then show ?thesis using run "1.prems"(1) by (auto intro: search_inv_same)
  next
    case failed
    then show ?thesis using run "1.prems"(1) by (auto intro: search_inv_same)
  next
    case refused
    then show ?thesis using run "1.prems"(1) by (auto intro: search_inv_same)
  next
    case here
    then have "\<not> root" "present env m" using check_mod_None by blast+
    then show ?thesis using run here "1.prems" by (auto intro: search_inv_same)
  next
    case search
    obtain ok2 st2 where deps: "resolve_dependencies env (insert m visiting) (dependencies (mod_details env m)) ?st = (ok2, st2)"
      by (metis prod.exhaust)
    have inv: "search_inv env r (insert m visiting) ?st" using "1.prems"(1) search(1) by (auto simp: search_inv_def)
    have "r \<in> insert m visiting" using "1.prems"(2) by (auto split: if_splits)
    note IH = "1.IH" [OF _ search(2) refl refl _ search(4) refl, OF _ _ inv this deps]
    have IH: "search_inv env r (insert m visiting) st2" "set (plans st) \<subseteq> set (plans st2)"
      "ok2 \<longrightarrow> (\<forall>d \<in> set (dependencies (mod_details env m)). met env r (plans st2) d)"
      "new_mods st st2 \<subseteq> (requires env)\<^sup>* `` {m}"
      using IH search requires_closed by (auto simp: dep_mods_requires new_mods_def)
    show ?thesis
    proof (cases ok2)
      case True
      have st': "ok" "st' = add_plan env m f st2" using run search deps True by simp_all
      have "search_inv env r visiting st'"
        unfolding st'(2) by (rule add_plan_inv [OF IH(1) search(4,2)]) (use IH(3) True in simp)
      moreover have "set (plans st') = insert (mod_plan env m f) (set (plans st2))" by (simp add: st' add_plan_def)
      ultimately show ?thesis using IH(2,4) by (auto simp: planned_def new_mods_def)
    next
      case False
      then have "\<not> ok" "st' = st2" using run search deps by simp_all
      then show ?thesis using IH by (auto simp: search_inv_def)
    qed
  qed
next
  case (2 env visiting st)
  then show ?case by simp
next
  case (3 env visiting d ds st)
  consider (skip) "dep_optional d \<or> name_installed env d"
    | (offsite) "\<not> (dep_optional d \<or> name_installed env d)" "dep_offsite d"
    | (no_id) "\<not> (dep_optional d \<or> name_installed env d)" "\<not> dep_offsite d" "dep_modId d = None"
    | (site) m where "\<not> (dep_optional d \<or> name_installed env d)" "\<not> dep_offsite d" "dep_modId d = Some m"
    by blast
  then show ?case
  proof cases
    case skip
    then have "resolve_dependencies env visiting ds st = (ok, st')" using "3.prems"(3) by simp
    from "3.IH"(1) [OF skip "3.prems"(1,2) this] show ?thesis using skip by (auto simp: met_def dep_mods_def)
  next
    case offsite
    obtain ok2 st2 where o: "resolve_offsite env d st = (ok2, st2)" by (metis prod.exhaust)
    note inv = resolve_offsite_inv [OF "3.prems"(1) o offsite(2)]
    have none: "new_mods st st2 = {}" using inv(4) by (auto simp: new_mods_def)
    show ?thesis
    proof (cases ok2)
      case True
      then have "resolve_dependencies env visiting ds st2 = (ok, st')" using "3.prems"(3) offsite o by simp
      note IH = "3.IH"(2) [OF offsite(1,2) o [symmetric] True inv(1) "3.prems"(2) this]
      have met: "met env r (plans st') d" using met_mono [OF inv(3) [OF True]] IH by blast
      have "dep_mods env ds \<subseteq> dep_mods env (d # ds)" by (auto simp: dep_mods_def)
      then have "new_mods st st' \<subseteq> (requires env)\<^sup>* `` dep_mods env (d # ds)"
        using IH none new_mods_trans [of st st' st2] by blast
      moreover have "set (plans st) \<subseteq> set (plans st')" using IH inv(2) by blast
      ultimately show ?thesis using IH met by simp
    next
      case False
      then have "\<not> ok" "st' = st2" using "3.prems"(3) offsite o by simp_all
      then show ?thesis using inv none by simp
    qed
  next
    case no_id
    then show ?thesis using "3.prems" by (auto intro: search_inv_same)
  next
    case site
    obtain ok2 st2 where o: "ResolveModWorkshop env visiting m False Install 0 st = (ok2, st2)" by (metis prod.exhaust)
    note IH1 = "3.IH"(3) [OF site "3.prems"(1) _ o]
    have IH1: "search_inv env r visiting st2" "set (plans st) \<subseteq> set (plans st2)"
      "ok2 \<longrightarrow> m \<noteq> r \<and> present env m \<or> planned st2 m" "new_mods st st2 \<subseteq> (requires env)\<^sup>* `` {m}"
      using IH1 "3.prems"(2) by auto
    have m: "m \<in> dep_mods env (d # ds)" using site by (auto simp: dep_mods_def)
    show ?thesis
    proof (cases ok2)
      case True
      then have "resolve_dependencies env visiting ds st2 = (ok, st')" using "3.prems"(3) site o by simp
      note IH = "3.IH"(4) [OF site o [symmetric] True IH1(1) "3.prems"(2) this]
      have "met env r (plans st2) d" using IH1(3) True site by (auto simp: met_def planned_def)
      then have met: "met env r (plans st') d" using met_mono IH by blast
      have "dep_mods env ds \<subseteq> dep_mods env (d # ds)" by (auto simp: dep_mods_def)
      then have "new_mods st st' \<subseteq> (requires env)\<^sup>* `` dep_mods env (d # ds)"
        using IH IH1(4) m new_mods_trans [of st st' st2] by blast
      moreover have "set (plans st) \<subseteq> set (plans st')" using IH IH1(2) by blast
      ultimately show ?thesis using IH met by simp
    next
      case False
      then have "\<not> ok" "st' = unresolved d st2" using "3.prems"(3) site o by simp_all
      then show ?thesis using IH1 m by (auto simp: new_mods_def intro: search_inv_same)
    qed
  qed
qed

section \<open>Cycles\<close>

text \<open>Mods whose dependencies are followed, when the search meets them.\<close>

definition followed :: "resolve_env \<Rightarrow> u64 \<Rightarrow> u64 \<Rightarrow> bool" where
  "followed env r a \<longleftrightarrow> a = r \<or> \<not> present env a"

lemma needs_followed: "(a, b) \<in> needs env r \<Longrightarrow> followed env r a"
  by (auto simp: needs_def followed_def)

definition planned_at :: "PackagePlan list \<Rightarrow> u64 \<Rightarrow> nat \<Rightarrow> bool" where
  "planned_at ps m i \<longleftrightarrow> i < length ps \<and> source (ps ! i) = ModWorkshop \<and> plan_modId (ps ! i) = m"

lemma planned_before:
  assumes "plans_ordered env r ps" "(a, b) \<in> needs env r" "followed env r b" "planned_at ps a i"
  shows "\<exists>j < i. planned_at ps b j"
proof -
  have i: "i < length ps" "source (ps ! i) = ModWorkshop" "plan_modId (ps ! i) = a"
    using assms(4) by (auto simp: planned_at_def)
  have "plan_sound env r (take i ps) (ps ! i)" using assms(1) i(1) by (simp add: plans_ordered_def)
  then have deps: "\<forall>d \<in> set (dependencies (mod_details env a)). met env r (take i ps) d"
    using i by (auto simp: plan_sound_def)
  obtain d where d: "d \<in> set (dependencies (mod_details env a))" "\<not> dep_optional d" "\<not> name_installed env d"
      "\<not> dep_offsite d" "dep_modId d = Some b"
    using assms(2) by (auto simp: needs_def requires_def)
  with deps have "met env r (take i ps) d" by blast
  then obtain p where "p \<in> set (take i ps)" "source p = ModWorkshop" "plan_modId p = b"
    using d assms(3) by (auto simp: met_def followed_def)
  then show ?thesis using i(1) by (auto simp: planned_at_def in_set_conv_nth)
qed

lemma needs_path_followed:
  assumes "(a, b) \<in> (needs env r)\<^sup>+" "followed env r b" "plans_ordered env r ps" "planned_at ps a i"
  shows "\<exists>j < i. planned_at ps b j"
  using assms(1,2,4)
proof (induction a arbitrary: i rule: converse_trancl_induct)
  case (base y)
  then show ?case using planned_before [OF assms(3)] by blast
next
  case (step y z)
  have "followed env r z" using step.hyps(2) by (auto dest: tranclD needs_followed)
  then obtain j where "j < i" "planned_at ps z j" using planned_before [OF assms(3) step.hyps(1)] step.prems(2) by blast
  then show ?case using step.IH [of j] step.prems(1) less_trans by blast
qed

lemma ordered_acyclic:
  assumes "plans_ordered env r ps" "planned_at ps r k" "(r, a) \<in> (needs env r)\<^sup>*" "(a, a) \<in> (needs env r)\<^sup>+"
  shows False
proof -
  have a: "followed env r a" using assms(4) by (auto dest: tranclD needs_followed)
  have "\<exists>i. planned_at ps a i"
    using assms(3) by (cases rule: rtranclE) (use assms(2) needs_path_followed [OF _ a assms(1,2)] in \<open>blast intro: rtrancl_into_trancl1\<close>)+
  then have "planned_at ps a (LEAST i. planned_at ps a i)" by (rule LeastI_ex)
  from needs_path_followed [OF assms(4) a assms(1) this] show False using not_less_Least by blast
qed

section \<open>When the search succeeds\<close>

text \<open>No request fails, the search is not cancelled, and every mod it meets can be installed.\<close>

definition all_available :: "resolve_env \<Rightarrow> u64 \<Rightarrow> ModInstallAction \<Rightarrow> u64 \<Rightarrow> bool" where
  "all_available env r action expected \<longleftrightarrow>
     (\<forall>n. request_error env n = None \<and> \<not> cancelled_after env n) \<and>
     (\<exists>f. check_mod env r True action expected = Inr (Some f)) \<and>
     (\<forall>a. (r, a) \<in> (needs env r)\<^sup>* \<longrightarrow>
        (a \<noteq> r \<longrightarrow> (\<exists>x. check_mod env a False Install 0 = Inr x)) \<and>
        (followed env r a \<longrightarrow> (\<forall>d \<in> set (dependencies (mod_details env a)). \<not> dep_optional d \<longrightarrow> \<not> name_installed env d \<longrightarrow>
           (if dep_offsite d then \<forall>n. fetch_offsite env (dep_url d) n \<noteq> None else dep_modId d \<noteq> None))))"

definition no_cycle :: "resolve_env \<Rightarrow> u64 \<Rightarrow> bool" where
  "no_cycle env r \<longleftrightarrow> (\<forall>a. (r, a) \<in> (needs env r)\<^sup>* \<longrightarrow> (a, a) \<notin> (needs env r)\<^sup>+)"

lemma resolve_offsite_succeeds:
  "fetch_offsite env (dep_url d) (requests st) \<noteq> None \<Longrightarrow> \<not> cancelled_after env (requests st + 1) \<Longrightarrow> fst (resolve_offsite env d st)"
  by (auto simp: resolve_offsite_def Let_def)

lemma all_available_dep:
  assumes "all_available env r action expected" "(r, a) \<in> (needs env r)\<^sup>*" "followed env r a"
    "d \<in> set (dependencies (mod_details env a))" "\<not> (dep_optional d \<or> name_installed env d)"
  shows "if dep_offsite d then \<forall>n. fetch_offsite env (dep_url d) n \<noteq> None else dep_modId d \<noteq> None"
  using assms unfolding all_available_def by blast

lemma search_succeeds:
  "all_available env r act ex \<Longrightarrow> no_cycle env r \<Longrightarrow>
     (if root then m = r \<and> action = act \<and> expected = ex \<and> visiting = {} else r \<in> visiting \<and> action = Install \<and> expected = 0) \<Longrightarrow>
     (r, m) \<in> (needs env r)\<^sup>* \<Longrightarrow> \<forall>v \<in> visiting. (v, m) \<in> (needs env r)\<^sup>+ \<Longrightarrow>
     fst (ResolveModWorkshop env visiting m root action expected st)"
  "all_available env r act ex \<Longrightarrow> no_cycle env r \<Longrightarrow> r \<in> visiting \<Longrightarrow>
     (r, a) \<in> (needs env r)\<^sup>* \<Longrightarrow> followed env r a \<Longrightarrow> \<forall>v \<in> visiting. (v, a) \<in> (needs env r)\<^sup>* \<Longrightarrow>
     set ds \<subseteq> set (dependencies (mod_details env a)) \<Longrightarrow>
     fst (resolve_dependencies env visiting ds st)"
proof (induction env visiting m root action expected st and env visiting ds st arbitrary: and a
    rule: ResolveModWorkshop_resolve_dependencies.induct)
  case (1 env visiting m root action expected st)
  have "m \<notin> visiting" using "1.prems"(2,4,5) by (auto simp: no_cycle_def)
  have "root \<longleftrightarrow> m = r" using "1.prems"(3) \<open>m \<notin> visiting\<close> by (auto split: if_splits)
  have ok: "request_error env (requests st) = None" using "1.prems"(1) by (simp add: all_available_def)
  obtain x where x: "check_mod env m root action expected = Inr x"
    using "1.prems"(1,3,4) \<open>root \<longleftrightarrow> m = r\<close> by (auto simp: all_available_def split: if_splits)
  show ?case
  proof (cases x)
    case None
    then show ?thesis using ok x \<open>m \<notin> visiting\<close> by (simp add: ResolveModWorkshop.simps [of env visiting m] Let_def)
  next
    case (Some f)
    have "followed env r m" using check_mod_Some(3) x Some \<open>root \<longleftrightarrow> m = r\<close> by (auto simp: followed_def)
    moreover have "r \<in> insert m visiting" using "1.prems"(3) by (auto split: if_splits)
    moreover have "\<forall>v \<in> insert m visiting. (v, m) \<in> (needs env r)\<^sup>*" using "1.prems"(5) by (auto intro: trancl_into_rtrancl)
    ultimately have "fst (resolve_dependencies env (insert m visiting) (dependencies (mod_details env m)) (st\<lparr>requests := requests st + 1\<rparr>))"
      if "resolved st m = None"
      using "1.IH" [OF _ \<open>m \<notin> visiting\<close> refl refl _ x [unfolded Some] refl] that ok "1.prems"(1,2,4) by simp
    then show ?thesis using ok x Some \<open>m \<notin> visiting\<close>
      by (cases "resolved st m = None")
        (auto simp: ResolveModWorkshop.simps [of env visiting m] Let_def split: prod.splits)
  qed
next
  case (2 env visiting st)
  then show ?case by simp
next
  case (3 env visiting d ds st)
  have ds: "set ds \<subseteq> set (dependencies (mod_details env a))" and d: "d \<in> set (dependencies (mod_details env a))"
    using "3.prems"(7) by auto
  consider (skip) "dep_optional d \<or> name_installed env d"
    | (offsite) "\<not> (dep_optional d \<or> name_installed env d)" "dep_offsite d"
    | (site) m where "\<not> (dep_optional d \<or> name_installed env d)" "\<not> dep_offsite d" "dep_modId d = Some m"
    using all_available_dep [OF "3.prems"(1,4,5) d] by (cases "dep_offsite d"; cases "dep_modId d") auto
  then show ?case
  proof cases
    case skip
    then show ?thesis using "3.IH"(1) [OF skip "3.prems"(1-6) ds] by simp
  next
    case offsite
    obtain ok2 st2 where o: "resolve_offsite env d st = (ok2, st2)" by (metis prod.exhaust)
    have "ok2" using resolve_offsite_succeeds [of env d st] all_available_dep [OF "3.prems"(1,4,5) d offsite(1)] "3.prems"(1) offsite(2) o
      by (auto simp: all_available_def)
    then show ?thesis using "3.IH"(2) [OF offsite o [symmetric] _ "3.prems"(1-6) ds] offsite o by simp
  next
    case site
    have e: "(a, m) \<in> needs env r" using site d "3.prems"(5) by (auto simp: needs_def requires_def followed_def)
    obtain ok2 st2 where o: "ResolveModWorkshop env visiting m False Install 0 st = (ok2, st2)" by (metis prod.exhaust)
    have "(r, m) \<in> (needs env r)\<^sup>*" "\<forall>v \<in> visiting. (v, m) \<in> (needs env r)\<^sup>+"
      using e "3.prems"(4,6) by (auto intro: rtrancl_into_rtrancl rtrancl_into_trancl1)
    then have "ok2" using "3.IH"(3) [OF site "3.prems"(1,2)] "3.prems"(3) o by simp
    then show ?thesis using "3.IH"(4) [OF site o [symmetric] _ "3.prems"(1-6) ds] site o by simp
  qed
qed

section \<open>Properties\<close>

lemma resolve_root_plan:
  assumes "ResolveModWorkshop env {} r True action expected no_resolution = (True, st)"
  shows "\<exists>ps f. plans st = ps @ [mod_plan env r f]"
proof -
  have "check_mod env r True action expected \<noteq> Inr None" using check_mod_None(1) by blast
  then show ?thesis using assms
    by (auto simp: ResolveModWorkshop.simps [of env "{}" r] no_resolution_def Let_def add_plan_def
        split: option.splits sum.splits prod.splits if_splits)
qed

lemma search_inv_start: "search_inv env r {} no_resolution"
  by (simp add: search_inv_def no_resolution_def)

lemma no_new_mods: "new_mods no_resolution st = plan_modId ` {p \<in> set (plans st). source p = ModWorkshop}"
  by (simp add: new_mods_def no_resolution_def)

text \<open>
  C20: When \<open>ResolveModWorkshop\<close> succeeds for a mod, the plans are in an order that can be carried out: the
  plan of every package of ModWorkshop comes after the plans of all its required dependencies, except those
  that are installed, each mod and each package of Thunderstore is planned once and can be installed, the mod
  itself comes last, and every mod planned is one it needs, directly or through others.
\<close>

theorem resolution_ordered:
  assumes "ResolveModWorkshop env {} r True action expected no_resolution = (True, st)"
  shows "plans_ordered env r (plans st) \<and>
    plans st \<noteq> [] \<and> source (last (plans st)) = ModWorkshop \<and> plan_modId (last (plans st)) = r \<and>
    (\<forall>p \<in> set (plans st). source p = ModWorkshop \<longrightarrow> (r, plan_modId p) \<in> (requires env)\<^sup>*)"
proof -
  have "search_inv env r {} st \<and> new_mods no_resolution st \<subseteq> (requires env)\<^sup>* `` {r}"
    using search_correct(1) [OF search_inv_start _ assms] by simp
  moreover obtain ps f where "plans st = ps @ [mod_plan env r f]" using resolve_root_plan [OF assms] by blast
  ultimately show ?thesis by (auto simp: search_inv_def no_new_mods)
qed

definition ex_file :: "u64 \<Rightarrow> ModWorkshopSelectedFile" where
  "ex_file i = \<lparr>sf_id = i, sf_name = ''f'', sf_file = ''f.zip'', sf_type = ''zip'', sf_version = ''1'', sf_updatedAt = [],
     sf_downloadUrl = ''u'', sf_size = 10\<rparr>"

definition ex_dep :: "u64 \<Rightarrow> ModWorkshopDependency" where
  "ex_dep i = \<lparr>dep_name = [], dep_url = [], dep_modId = Some i, dep_offsite = False, dep_optional = False\<rparr>"

definition ex_mod :: "u64 \<Rightarrow> u64 list \<Rightarrow> ModWorkshopDetails" where
  "ex_mod i ds = \<lparr>det_name = ''m'', det_author = ''a'', det_version = ''1'', det_updatedAt = [], det_thumbnail = None,
     hasDownload = True, approved = True, suspended = False, disableModManagers = False, selectedFile = Some (ex_file i),
     dependencies = map ex_dep ds\<rparr>"

definition ex_resolve :: "(u64 \<Rightarrow> u64 list) \<Rightarrow> resolve_env" where
  "ex_resolve deps = \<lparr>mod_details = (\<lambda>m. ex_mod m (deps m)), request_error = (\<lambda>n. None), thunder_answer = (\<lambda>n a b. None),
     cancelled_after = (\<lambda>n. False), inventory = [], package_folder = ''packages'', installedModNames = {}\<rparr>"

definition ex_deps :: "u64 \<Rightarrow> u64 list" where
  "ex_deps m = (if m = 1 then [2, 3] else if m = 2 then [3] else [])"

lemma resolution_ordered_witness:
  "map plan_modId (plans (snd (ResolveModWorkshop (ex_resolve ex_deps) {} 1 True Install 0 no_resolution))) = [3, 2, 1] \<and>
   plans_ordered (ex_resolve ex_deps) 1 (plans (snd (ResolveModWorkshop (ex_resolve ex_deps) {} 1 True Install 0 no_resolution)))"
proof -
  let ?run = "ResolveModWorkshop (ex_resolve ex_deps) {} 1 True Install 0 no_resolution"
  have ok: "fst ?run" "map plan_modId (plans (snd ?run)) = [3, 2, 1]" by code_simp+
  have "?run = (True, snd ?run)" using ok(1) by (metis prod.collapse)
  from resolution_ordered [OF this] ok(2) show ?thesis by simp
qed

text \<open>
  C21: When no request fails, nothing is cancelled, and every mod and every package the search meets can be
  installed, \<open>ResolveModWorkshop\<close> succeeds if and only if no mod it meets depends on itself, directly or through
  others; the search ends in either case.
\<close>

theorem resolution_iff_acyclic:
  assumes "all_available env r action expected"
  shows "fst (ResolveModWorkshop env {} r True action expected no_resolution) \<longleftrightarrow> no_cycle env r"
proof
  assume "fst (ResolveModWorkshop env {} r True action expected no_resolution)"
  then obtain st where run: "ResolveModWorkshop env {} r True action expected no_resolution = (True, st)"
    by (metis (full_types) prod.collapse)
  have "search_inv env r {} st" using search_correct(1) [OF search_inv_start _ run] by simp
  then have ord: "plans_ordered env r (plans st)" by (simp add: search_inv_def)
  obtain ps f where "plans st = ps @ [mod_plan env r f]" using resolve_root_plan [OF run] by blast
  then have "planned_at (plans st) r (length ps)" by (simp add: planned_at_def)
  from ordered_acyclic [OF ord this] show "no_cycle env r" by (auto simp: no_cycle_def)
next
  assume "no_cycle env r"
  then show "fst (ResolveModWorkshop env {} r True action expected no_resolution)"
    using search_succeeds(1) [OF assms] by simp
qed

definition ex_loop :: "u64 \<Rightarrow> u64 list" where
  "ex_loop m = (if m = 1 then [2] else if m = 2 then [1] else [])"

lemma ex_available: "all_available (ex_resolve deps) r Install 0"
proof -
  have "check_mod (ex_resolve deps) a root Install 0 = Inr (Some (ex_file a))" for a root
    by (simp add: check_mod_def ex_resolve_def ex_mod_def ex_file_def FindPackage_def is_installable_def)
  then show ?thesis
    by (auto simp: all_available_def) (auto simp: ex_resolve_def ex_mod_def ex_dep_def)
qed

text \<open>Two mods that need each other.\<close>

lemma resolution_iff_acyclic_witness: "\<not> fst (ResolveModWorkshop (ex_resolve ex_loop) {} 1 True Install 0 no_resolution)"
proof -
  have present: "\<not> present (ex_resolve ex_loop) a" for a
    by (simp add: present_def ex_resolve_def FindPackage_def)
  have "(1, 2) \<in> requires (ex_resolve ex_loop)" "(2, 1) \<in> requires (ex_resolve ex_loop)"
    by (simp_all add: requires_def ex_resolve_def ex_mod_def ex_loop_def ex_dep_def name_installed_def)
  then have "(1, 2) \<in> needs (ex_resolve ex_loop) 1" "(2, 1) \<in> needs (ex_resolve ex_loop) 1"
    using present by (simp_all add: needs_def)
  then have "(1, 1) \<in> (needs (ex_resolve ex_loop) 1)\<^sup>+" by (meson r_into_trancl trancl_into_trancl)
  then have "\<not> no_cycle (ex_resolve ex_loop) 1" by (auto simp: no_cycle_def)
  then show ?thesis using resolution_iff_acyclic [OF ex_available] by simp
qed

end
