(* ===== verification/ModRequest.thy ===== *)
theory ModRequest
  imports ModPlatform
begin

text \<open>
  The requests to the mod installer and its worker thread: \<open>Request\<close>, \<open>RequestInstalledModRemoval\<close>,
  \<open>Cancel\<close>, \<open>DecideMigration\<close>, \<open>Shutdown\<close>, \<open>RunWorker\<close>, the transitions of the snapshot, and the
  question to the user of \<open>ResolveUnmanagedReplacements\<close> (\<open>src/modsystem/modinstaller.cpp\<close>).

  Calls run on any threads beside the worker. A call is cut into steps where the code locks a mutex, accesses an
  atomic flag, publishes a snapshot or notifies a condition variable; a region under a mutex is one step, and so
  are reads that follow one another. What a request does apart from its transitions is left open.
\<close>

section \<open>State\<close>

record ModInstallOperationSnapshot =
  sn_generation :: u64
  sn_modId :: u64
  sn_action :: ModInstallAction
  sn_state :: ModInstallOperationState
  sn_name :: string
  sn_version :: string
  sn_message :: string
  sn_progress :: u64
  sn_total :: u64
  cancellationDeferred :: bool

definition no_snapshot :: ModInstallOperationSnapshot where
  "no_snapshot = \<lparr>sn_generation = 0, sn_modId = 0, sn_action = Install, sn_state = Idle, sn_name = [], sn_version = [],
     sn_message = [], sn_progress = 0, sn_total = 0, cancellationDeferred = False\<rparr>"

text \<open>The last field is the root, the name and the version of an installed mod to remove.\<close>

record InstallRequest =
  rq_generation :: u64
  rq_modId :: u64
  rq_action :: ModInstallAction
  rq_expectedSelectedFileId :: u64
  rq_installedRemoval :: "(string \<times> string \<times> string) option"

record InstalledRemovalTarget =
  tg_root :: string
  tg_name :: string
  tg_version :: string
  tg_managedModId :: u64
  tg_canDelete :: bool

datatype MigrationDecision = NoDecision | Pending | Accepted | Declined

text \<open>
  Where the worker is. \<open>WLocked\<close> and \<open>MLocked\<close> are between a check of the condition that fails and
  going to sleep, with the mutex held. \<open>WPublish\<close> is between the two halves of a transition.
\<close>

datatype worker_pc =
    WTop
  | WLocked
  | WAsleep
  | WRun InstallRequest
  | WPublish ModInstallOperationSnapshot worker_pc
  | MAsk InstallRequest string
  | MCheck InstallRequest
  | MLocked InstallRequest
  | MAsleep InstallRequest
  | MRefused InstallRequest
  | WResult InstallRequest bool bool string
  | WClear InstallRequest bool
  | WIdle InstallRequest bool
  | WEnd

text \<open>Where a call is.\<close>

datatype call =
    CallRequest ModInstallAction u64 u64
  | ReqLock ModInstallAction u64 u64
  | CallRemoval "InstalledRemovalTarget option"
  | RemLock "InstalledRemovalTarget option"
  | ReqClear InstallRequest
  | ReqPublish InstallRequest
  | ReqNotify
  | CallCancel
  | CancelStore ModInstallOperationSnapshot
  | CancelNotify ModInstallOperationSnapshot
  | CancelPublish ModInstallOperationSnapshot
  | CallDecide u64 bool
  | DecideNotify
  | CallShutdown
  | ShutCancel
  | ShutNotifyMigration
  | ShutNotifyRequest
  | ShutJoin

record installer =
  m_Snapshot :: ModInstallOperationSnapshot
  m_PendingRequest :: "InstallRequest option"
  m_Stopped :: bool
  m_CancelRequested :: bool
  m_Busy :: bool
  m_NextGeneration :: u64
  m_MigrationGeneration :: u64
  m_MigrationDecision :: MigrationDecision
  worker :: worker_pc
  calls :: "call list"

definition new_installer :: installer where
  "new_installer = \<lparr>m_Snapshot = no_snapshot, m_PendingRequest = None, m_Stopped = False, m_CancelRequested = False,
     m_Busy = False, m_NextGeneration = 0, m_MigrationGeneration = 0, m_MigrationDecision = NoDecision, worker = WTop, calls = []\<rparr>"

text \<open>What a step does to requests, for the properties.\<close>

datatype event =
    EvAccepted InstallRequest
  | EvStarted InstallRequest
  | EvFinished InstallRequest
  | EvDecided u64 bool
  | EvReplaces InstallRequest

section \<open>Snapshots\<close>

text \<open>The snapshot a transition publishes, from the one it read.\<close>

definition Transition ::
    "ModInstallOperationState \<Rightarrow> string \<Rightarrow> string \<Rightarrow> string \<Rightarrow> ModInstallOperationSnapshot \<Rightarrow> ModInstallOperationSnapshot" where
  "Transition state message name version snap =
     snap\<lparr>sn_state := state, sn_message := message,
          sn_name := (if name = [] then sn_name snap else name),
          sn_version := (if version = [] then sn_version snap else version),
          sn_progress := 0, sn_total := 0\<rparr>"

definition ReportProgress :: "u64 \<Rightarrow> u64 \<Rightarrow> ModInstallOperationSnapshot \<Rightarrow> ModInstallOperationSnapshot" where
  "ReportProgress progressValue totalValue snap = snap\<lparr>sn_progress := progressValue, sn_total := totalValue\<rparr>"

definition queued_snapshot :: "InstallRequest \<Rightarrow> ModInstallOperationSnapshot" where
  "queued_snapshot rq =
     no_snapshot\<lparr>sn_generation := rq_generation rq, sn_modId := rq_modId rq, sn_action := rq_action rq, sn_state := Queued,
       sn_name := (case rq_installedRemoval rq of None \<Rightarrow> [] | Some (root, name, version) \<Rightarrow> name),
       sn_version := (case rq_installedRemoval rq of None \<Rightarrow> [] | Some (root, name, version) \<Rightarrow> version),
       sn_message := ''#MWS_OPERATION_QUEUED''\<rparr>"

section \<open>Calls\<close>

definition notify_request :: "installer \<Rightarrow> installer" where
  "notify_request st = (case worker st of WAsleep \<Rightarrow> st\<lparr>worker := WTop\<rparr> | _ \<Rightarrow> st)"

definition notify_migration :: "installer \<Rightarrow> installer" where
  "notify_migration st = (case worker st of MAsleep r \<Rightarrow> st\<lparr>worker := MCheck r\<rparr> | _ \<Rightarrow> st)"

definition enqueue ::
    "(u64 \<Rightarrow> InstallRequest) \<Rightarrow> installer \<Rightarrow> event list \<times> installer \<times> call option" where
  "enqueue request st =
     (let generation = m_NextGeneration st + 1; rq = request generation in
      ([EvAccepted rq], st\<lparr>m_Busy := True, m_NextGeneration := generation, m_PendingRequest := Some rq\<rparr>, Some (ReqClear rq)))"

definition is_over :: "ModInstallOperationState \<Rightarrow> bool" where
  "is_over s \<longleftrightarrow> s = Idle \<or> s = Done \<or> s = Failed \<or> s = Cancelled"

text \<open>
  One step of a call: what happened, the state and where the call is afterwards, \<open>None\<close> if it returned.
  The step cannot be taken while the worker holds the mutex, or is not joined.
\<close>

fun call_step :: "call \<Rightarrow> installer \<Rightarrow> (event list \<times> installer \<times> call option) option" where
  "call_step (CallRequest action modId expected) st =
     (if modId = 0 \<or> m_Stopped st then Some ([], st, None) else Some ([], st, Some (ReqLock action modId expected)))"
| "call_step (ReqLock action modId expected) st =
     (if worker st = WLocked then None
      else if m_Busy st \<or> m_PendingRequest st \<noteq> None then Some ([], st, None)
      else Some (enqueue (\<lambda>generation. \<lparr>rq_generation = generation, rq_modId = modId, rq_action = action,
             rq_expectedSelectedFileId = expected, rq_installedRemoval = None\<rparr>) st))"
| "call_step (CallRemoval target) st =
     (if m_Stopped st then Some ([], st, None) else Some ([], st, Some (RemLock target)))"
| "call_step (RemLock target) st =
     (if worker st = WLocked then None
      else if m_Busy st \<or> m_PendingRequest st \<noteq> None then Some ([], st, None)
      else case target of
        None \<Rightarrow> Some ([], st, None)
      | Some t \<Rightarrow>
          if \<not> tg_canDelete t then Some ([], st, None)
          else Some (enqueue (\<lambda>generation. \<lparr>rq_generation = generation, rq_modId = tg_managedModId t, rq_action = Remove,
             rq_expectedSelectedFileId = 0, rq_installedRemoval = Some (tg_root t, tg_name t, tg_version t)\<rparr>) st))"
| "call_step (ReqClear rq) st = Some ([], st\<lparr>m_CancelRequested := False\<rparr>, Some (ReqPublish rq))"
| "call_step (ReqPublish rq) st = Some ([], st\<lparr>m_Snapshot := queued_snapshot rq\<rparr>, Some ReqNotify)"
| "call_step ReqNotify st = Some ([], notify_request st, None)"
| "call_step CallCancel st =
     (if is_over (sn_state (m_Snapshot st)) then Some ([], st, None) else Some ([], st, Some (CancelStore (m_Snapshot st))))"
| "call_step (CancelStore current) st = Some ([], st\<lparr>m_CancelRequested := True\<rparr>, Some (CancelNotify current))"
| "call_step (CancelNotify current) st =
     Some ([], notify_migration st,
       if sn_state current = Committing \<or> sn_state current = Reloading then Some (CancelPublish current) else None)"
| "call_step (CancelPublish current) st =
     Some ([], st\<lparr>m_Snapshot := current\<lparr>cancellationDeferred := True, sn_message := ''#MWS_CANCELLATION_DEFERRED''\<rparr>\<rparr>, None)"
| "call_step (CallDecide generation accept) st =
     (if (case worker st of MLocked r \<Rightarrow> True | _ \<Rightarrow> False) then None
      else if m_MigrationGeneration st \<noteq> generation \<or> m_MigrationDecision st \<noteq> Pending then Some ([], st, None)
      else Some ([EvDecided generation accept],
        st\<lparr>m_MigrationDecision := (if accept then Accepted else Declined)\<rparr>, Some DecideNotify))"
| "call_step DecideNotify st = Some ([], notify_migration st, None)"
| "call_step CallShutdown st =
     (if m_Stopped st then Some ([], st, None) else Some ([], st\<lparr>m_Stopped := True\<rparr>, Some ShutCancel))"
| "call_step ShutCancel st = Some ([], st\<lparr>m_CancelRequested := True\<rparr>, Some ShutNotifyMigration)"
| "call_step ShutNotifyMigration st = Some ([], notify_migration st, Some ShutNotifyRequest)"
| "call_step ShutNotifyRequest st = Some ([], notify_request st, Some ShutJoin)"
| "call_step ShutJoin st = (if worker st = WEnd then Some ([], st, None) else None)"

section \<open>The worker\<close>

definition end_state :: "bool \<Rightarrow> bool \<Rightarrow> ModInstallOperationState" where
  "end_state cancelled preserveRecoveryFiles = (if cancelled \<and> \<not> preserveRecoveryFiles then Cancelled else Failed)"

definition done_message :: "bool \<Rightarrow> ModInstallOperationState \<Rightarrow> string" where
  "done_message cancelled currentState =
     (if cancelled \<and> (currentState = Committing \<or> currentState = Reloading)
      then ''#MWS_OPERATION_COMPLETED_AFTER_CANCELLATION'' else ''#MWS_OPERATION_COMPLETED'')"

definition failure_message :: "bool \<Rightarrow> string \<Rightarrow> string" where
  "failure_message cancelled error =
     (if error \<noteq> [] then error else if cancelled then ''#MWS_OPERATION_CANCELLED'' else ''#MWS_OPERATION_FAILED'')"

text \<open>What the worker does next where that is determined; \<open>None\<close> while it sleeps or runs an operation.\<close>

fun RunWorker :: "worker_pc \<Rightarrow> installer \<Rightarrow> (event list \<times> installer) option" where
  "RunWorker WTop st =
     (if m_Stopped st then Some ([], st\<lparr>worker := WEnd\<rparr>)
      else case m_PendingRequest st of
        Some rq \<Rightarrow> Some ([EvStarted rq], st\<lparr>m_PendingRequest := None, worker := WRun rq\<rparr>)
      | None \<Rightarrow> Some ([], st\<lparr>worker := WLocked\<rparr>))"
| "RunWorker WLocked st = Some ([], st\<lparr>worker := WAsleep\<rparr>)"
| "RunWorker (WPublish snap after) st = Some ([], st\<lparr>m_Snapshot := snap, worker := after\<rparr>)"
| "RunWorker (MAsk rq names) st =
     Some ([], st\<lparr>worker := WPublish (Transition AwaitingMigration ''#MWS_MIGRATION_MESSAGE'' names [] (m_Snapshot st)) (MCheck rq)\<rparr>)"
| "RunWorker (MCheck rq) st =
     (if m_MigrationDecision st \<noteq> Pending \<or> m_CancelRequested st \<or> m_Stopped st
      then (let st' = st\<lparr>m_MigrationDecision := NoDecision, m_MigrationGeneration := 0\<rparr> in
            if m_MigrationDecision st = Accepted then Some ([EvReplaces rq], st'\<lparr>worker := WRun rq\<rparr>)
            else Some ([], st'\<lparr>worker := MRefused rq\<rparr>))
      else Some ([], st\<lparr>worker := MLocked rq\<rparr>))"
| "RunWorker (MLocked rq) st = Some ([], st\<lparr>worker := MAsleep rq\<rparr>)"
| "RunWorker (MRefused rq) st =
     Some ([], st\<lparr>m_CancelRequested := True, worker := WResult rq False False ''Existing mod replacement was cancelled''\<rparr>)"
| "RunWorker (WResult rq success preserveRecoveryFiles error) st =
     (let cancelled = m_CancelRequested st; currentState = sn_state (m_Snapshot st) in
      if success \<and> currentState = Done then Some ([], st\<lparr>worker := WClear rq success\<rparr>)
      else
        let snap = (if success then Transition Done (done_message cancelled currentState) [] [] (m_Snapshot st)
                    else Transition (end_state cancelled preserveRecoveryFiles) (failure_message cancelled error) [] [] (m_Snapshot st))
        in Some ([], st\<lparr>worker := WPublish snap (WClear rq success)\<rparr>))"
| "RunWorker (WClear rq success) st = Some ([], st\<lparr>m_CancelRequested := False, worker := WIdle rq success\<rparr>)"
| "RunWorker (WIdle rq success) st = Some ([EvFinished rq], st\<lparr>m_Busy := False, worker := WTop\<rparr>)"
| "RunWorker _ st = None"

text \<open>A wake-up without notification.\<close>

definition wake_up :: "installer \<Rightarrow> installer" where
  "wake_up st = notify_request (notify_migration st)"

text \<open>
  What the operation of a request does next: a transition, a report of progress, the question whether to
  replace mods, or its end, with whether it succeeded, whether recovery files are kept, and its error.
\<close>

datatype choice =
    DoTransition ModInstallOperationState string string string
  | DoProgress u64 u64
  | AskMigration string
  | Return bool bool string

fun operate :: "InstallRequest \<Rightarrow> choice \<Rightarrow> installer \<Rightarrow> installer" where
  "operate rq (DoTransition s message name version) st =
     st\<lparr>worker := WPublish (Transition s message name version (m_Snapshot st)) (WRun rq)\<rparr>"
| "operate rq (DoProgress progressValue totalValue) st =
     st\<lparr>worker := WPublish (ReportProgress progressValue totalValue (m_Snapshot st)) (WRun rq)\<rparr>"
| "operate rq (AskMigration names) st =
     st\<lparr>m_MigrationGeneration := rq_generation rq, m_MigrationDecision := Pending, worker := MAsk rq names\<rparr>"
| "operate rq (Return success preserveRecoveryFiles error) st =
     st\<lparr>worker := WResult rq success preserveRecoveryFiles error\<rparr>"

section \<open>Runs\<close>

definition is_entry :: "call \<Rightarrow> bool" where
  "is_entry c \<longleftrightarrow> (\<exists>action modId expected. c = CallRequest action modId expected) \<or> (\<exists>target. c = CallRemoval target) \<or>
     c = CallCancel \<or> (\<exists>generation accept. c = CallDecide generation accept) \<or> c = CallShutdown"

definition replace_call :: "call list \<Rightarrow> call option \<Rightarrow> call list \<Rightarrow> installer \<Rightarrow> installer" where
  "replace_call before next after st = st\<lparr>calls := before @ (case next of None \<Rightarrow> [] | Some c \<Rightarrow> [c]) @ after\<rparr>"

text \<open>
  A call begins, a call takes a step, or the worker does. Which transitions an operation makes is left open.
\<close>

inductive installer_step :: "installer \<Rightarrow> event list \<Rightarrow> installer \<Rightarrow> bool" where
  enter: "is_entry c \<Longrightarrow> installer_step st [] (st\<lparr>calls := c # calls st\<rparr>)"
| call: "calls st = before @ c # after \<Longrightarrow> call_step c st = Some (es, st', next) \<Longrightarrow>
    installer_step st es (replace_call before next after st')"
| work: "RunWorker (worker st) st = Some (es, st') \<Longrightarrow> installer_step st es st'"
| operation: "worker st = WRun rq \<Longrightarrow> installer_step st [] (operate rq c st)"
| wake: "installer_step st [] (wake_up st)"

inductive_cases installer_stepE: "installer_step st es st'"

inductive installer_run :: "event list \<Rightarrow> installer \<Rightarrow> bool" where
  init: "installer_run [] new_installer"
| step: "installer_run es st \<Longrightarrow> installer_step st es' st' \<Longrightarrow> installer_run (es @ es') st'"

end
