(* ===== verification/ModRequestSpec.thy ===== *)
theory ModRequestSpec
  imports ModRequest
begin

text \<open>
  What holds of the installer's requests in every order of the steps of its threads, and what can go
  wrong between them.
\<close>

section \<open>Requests in a history\<close>

definition accepted :: "event list \<Rightarrow> InstallRequest list" where
  "accepted es = concat (map (\<lambda>e. case e of EvAccepted r \<Rightarrow> [r] | _ \<Rightarrow> []) es)"

definition started :: "event list \<Rightarrow> InstallRequest list" where
  "started es = concat (map (\<lambda>e. case e of EvStarted r \<Rightarrow> [r] | _ \<Rightarrow> []) es)"

definition finished :: "event list \<Rightarrow> InstallRequest list" where
  "finished es = concat (map (\<lambda>e. case e of EvFinished r \<Rightarrow> [r] | _ \<Rightarrow> []) es)"

lemma history_append [simp]:
  "accepted (es @ es') = accepted es @ accepted es'" "started (es @ es') = started es @ started es'"
  "finished (es @ es') = finished es @ finished es'"
  by (simp_all add: accepted_def started_def finished_def)

lemma history_simps [simp]:
  "accepted [] = []" "started [] = []" "finished [] = []"
  "accepted [EvAccepted r] = [r]" "accepted [EvStarted r] = []" "accepted [EvFinished r] = []"
  "started [EvAccepted r] = []" "started [EvStarted r] = [r]" "started [EvFinished r] = []"
  "finished [EvAccepted r] = []" "finished [EvStarted r] = []" "finished [EvFinished r] = [r]"
  "accepted [EvDecided g b] = []" "started [EvDecided g b] = []" "finished [EvDecided g b] = []"
  "accepted [EvReplaces r] = []" "started [EvReplaces r] = []" "finished [EvReplaces r] = []"
  by (simp_all add: accepted_def started_def finished_def)

section \<open>The worker's place\<close>

fun pc_request :: "worker_pc \<Rightarrow> InstallRequest option" where
  "pc_request WTop = None"
| "pc_request WLocked = None"
| "pc_request WAsleep = None"
| "pc_request (WRun r) = Some r"
| "pc_request (WPublish snap next) = pc_request next"
| "pc_request (MAsk r names) = Some r"
| "pc_request (MCheck r) = Some r"
| "pc_request (MLocked r) = Some r"
| "pc_request (MAsleep r) = Some r"
| "pc_request (MRefused r) = Some r"
| "pc_request (WResult r success preserve e) = Some r"
| "pc_request (WClear r success) = Some r"
| "pc_request (WIdle r success) = Some r"
| "pc_request WEnd = None"

text \<open>The worker is waiting for a decision or about to.\<close>

fun in_question :: "worker_pc \<Rightarrow> bool" where
  "in_question (MAsk r names) = True"
| "in_question (WPublish snap next) = in_question next"
| "in_question (MCheck r) = True"
| "in_question (MLocked r) = True"
| "in_question (MAsleep r) = True"
| "in_question _ = False"

fun pc_ok :: "worker_pc \<Rightarrow> bool" where
  "pc_ok (WPublish snap (WRun r)) = True"
| "pc_ok (WPublish snap (MCheck r)) = True"
| "pc_ok (WPublish snap (WClear r success)) = True"
| "pc_ok (WPublish snap next) = False"
| "pc_ok _ = True"

lemma notify_place [simp]:
  "pc_request (worker (notify_request st)) = pc_request (worker st)"
  "pc_request (worker (notify_migration st)) = pc_request (worker st)"
  "in_question (worker (notify_request st)) = in_question (worker st)"
  "in_question (worker (notify_migration st)) = in_question (worker st)"
  "pc_ok (worker (notify_request st)) = pc_ok (worker st)"
  "pc_ok (worker (notify_migration st)) = pc_ok (worker st)"
  "worker (notify_request st) \<noteq> WAsleep"
  "worker (notify_migration st) = WAsleep \<longleftrightarrow> worker st = WAsleep"
  "worker (notify_request st) = WLocked \<longleftrightarrow> worker st = WLocked"
  "worker (notify_migration st) = WLocked \<longleftrightarrow> worker st = WLocked"
  "worker (notify_request st) = WEnd \<longleftrightarrow> worker st = WEnd"
  "worker (notify_migration st) = WEnd \<longleftrightarrow> worker st = WEnd"
  by (simp_all add: notify_request_def notify_migration_def split: worker_pc.splits)

lemma notify_fields [simp]:
  "m_PendingRequest (notify_request st) = m_PendingRequest st" "m_PendingRequest (notify_migration st) = m_PendingRequest st"
  "m_Busy (notify_request st) = m_Busy st" "m_Busy (notify_migration st) = m_Busy st"
  "m_NextGeneration (notify_request st) = m_NextGeneration st" "m_NextGeneration (notify_migration st) = m_NextGeneration st"
  "m_MigrationGeneration (notify_request st) = m_MigrationGeneration st"
  "m_MigrationGeneration (notify_migration st) = m_MigrationGeneration st"
  "m_MigrationDecision (notify_request st) = m_MigrationDecision st"
  "m_MigrationDecision (notify_migration st) = m_MigrationDecision st"
  "m_Stopped (notify_request st) = m_Stopped st" "m_Stopped (notify_migration st) = m_Stopped st"
  "calls (notify_request st) = calls st" "calls (notify_migration st) = calls st"
  by (simp_all add: notify_request_def notify_migration_def split: worker_pc.splits)

section \<open>The invariant\<close>

definition will_notify :: "call \<Rightarrow> bool" where
  "will_notify c \<longleftrightarrow> (\<exists>r. c = ReqClear r) \<or> (\<exists>r. c = ReqPublish r) \<or> c = ReqNotify"

text \<open>Requests are done one at a time in the order they were accepted.\<close>

definition queue_inv :: "event list \<Rightarrow> installer \<Rightarrow> bool" where
  "queue_inv es st \<longleftrightarrow>
     accepted es = started es @ opt_list (m_PendingRequest st) \<and>
     started es = finished es @ opt_list (pc_request (worker st)) \<and>
     (m_Busy st \<longleftrightarrow> m_PendingRequest st \<noteq> None \<or> pc_request (worker st) \<noteq> None) \<and>
     (m_PendingRequest st = None \<or> pc_request (worker st) = None) \<and>
     (worker st = WLocked \<longrightarrow> m_PendingRequest st = None) \<and>
     (worker st = WEnd \<longrightarrow> m_Stopped st) \<and>
     pc_ok (worker st)"

definition number_inv :: "event list \<Rightarrow> installer \<Rightarrow> bool" where
  "number_inv es st \<longleftrightarrow>
     m_NextGeneration st = of_nat (length (accepted es)) \<and>
     (\<forall>i < length (accepted es). rq_generation (accepted es ! i) = of_nat (i + 1))"

text \<open>A question is open exactly while the worker asks, and only for its request.\<close>

definition question_inv :: "event list \<Rightarrow> installer \<Rightarrow> bool" where
  "question_inv es st \<longleftrightarrow>
     (m_MigrationDecision st \<noteq> NoDecision \<longleftrightarrow> in_question (worker st)) \<and>
     (\<forall>r. in_question (worker st) \<and> pc_request (worker st) = Some r \<longrightarrow> m_MigrationGeneration st = rq_generation r) \<and>
     (m_MigrationDecision st = Accepted \<longrightarrow> EvDecided (m_MigrationGeneration st) True \<in> set es)"

text \<open>Whoever queued a request the worker sleeps on is still going to wake it.\<close>

definition wake_inv :: "installer \<Rightarrow> bool" where
  "wake_inv st \<longleftrightarrow> (worker st = WAsleep \<and> m_PendingRequest st \<noteq> None \<longrightarrow> (\<exists>c \<in> set (calls st). will_notify c))"

lemma RunWorker_queue_inv:
  "RunWorker pc st = Some (es', st') \<Longrightarrow> worker st = pc \<Longrightarrow> queue_inv es st \<Longrightarrow> queue_inv (es @ es') st'"
  by (cases pc) (auto simp: queue_inv_def Let_def split: if_splits option.splits elim: pc_ok.elims)

lemma RunWorker_number_inv: "RunWorker pc st = Some (es', st') \<Longrightarrow> number_inv es st \<Longrightarrow> number_inv (es @ es') st'"
  by (cases pc) (auto simp: number_inv_def Let_def split: if_splits option.splits)

lemma RunWorker_question_inv:
  "RunWorker pc st = Some (es', st') \<Longrightarrow> worker st = pc \<Longrightarrow> question_inv es st \<Longrightarrow> question_inv (es @ es') st'"
  by (cases pc) (auto simp: question_inv_def Let_def split: if_splits option.splits)

lemma RunWorker_wake_inv:
  "RunWorker pc st = Some (es', st') \<Longrightarrow> worker st = pc \<Longrightarrow> queue_inv es st \<Longrightarrow> wake_inv st'"
  by (cases pc) (auto simp: wake_inv_def queue_inv_def Let_def split: if_splits option.splits elim: pc_ok.elims)

lemma wake_up_fields [simp]:
  "m_PendingRequest (wake_up st) = m_PendingRequest st" "m_Busy (wake_up st) = m_Busy st"
  "m_NextGeneration (wake_up st) = m_NextGeneration st" "m_MigrationGeneration (wake_up st) = m_MigrationGeneration st"
  "m_MigrationDecision (wake_up st) = m_MigrationDecision st" "m_Stopped (wake_up st) = m_Stopped st"
  "worker (wake_up st) = WEnd \<longleftrightarrow> worker st = WEnd" "calls (wake_up st) = calls st"
  "pc_request (worker (wake_up st)) = pc_request (worker st)" "in_question (worker (wake_up st)) = in_question (worker st)"
  "pc_ok (worker (wake_up st)) = pc_ok (worker st)" "worker (wake_up st) = WLocked \<longleftrightarrow> worker st = WLocked"
  "worker (wake_up st) \<noteq> WAsleep"
  by (simp_all add: wake_up_def)

definition installer_inv :: "event list \<Rightarrow> installer \<Rightarrow> bool" where
  "installer_inv es st \<longleftrightarrow> queue_inv es st \<and> number_inv es st \<and> question_inv es st \<and> wake_inv st"

lemma number_inv_same [simp]:
  "number_inv es (wake_up st) \<longleftrightarrow> number_inv es st" "number_inv es (operate rq c st) \<longleftrightarrow> number_inv es st"
  by (simp_all add: number_inv_def) (cases c, simp_all)

lemma wake_up_inv: "installer_inv es st \<Longrightarrow> installer_inv es (wake_up st)"
  by (simp add: installer_inv_def queue_inv_def question_inv_def wake_inv_def)

lemma operate_inv:
  assumes "installer_inv es st" "worker st = WRun rq"
  shows "installer_inv es (operate rq c st)"
proof -
  have "m_MigrationDecision st = NoDecision" using assms by (auto simp: installer_inv_def question_inv_def)
  then show ?thesis using assms
    by (cases c) (simp_all add: installer_inv_def queue_inv_def question_inv_def wake_inv_def del: operate.simps,
      simp_all add: queue_inv_def question_inv_def wake_inv_def)
qed

lemma RunWorker_inv:
  assumes "RunWorker (worker st) st = Some (es', st')" "installer_inv es st"
  shows "installer_inv (es @ es') st'"
  using assms RunWorker_queue_inv [OF assms(1) refl] RunWorker_number_inv [OF assms(1)]
    RunWorker_question_inv [OF assms(1) refl] RunWorker_wake_inv [OF assms(1) refl]
  by (auto simp: installer_inv_def)

lemma enqueue_inv:
  assumes "\<not> m_Busy st" "m_PendingRequest st = None" "worker st \<noteq> WLocked" "installer_inv es st"
    "\<And>g. rq_generation (request g) = g" "enqueue request st = (es', st', nxt)"
  shows "installer_inv (es @ es') (replace_call before nxt after st')"
proof -
  let ?g = "m_NextGeneration st + 1"
  have step: "es' = [EvAccepted (request ?g)]" "nxt = Some (ReqClear (request ?g))"
    "st' = st\<lparr>m_Busy := True, m_NextGeneration := ?g, m_PendingRequest := Some (request ?g)\<rparr>"
    using assms(6) by (simp_all add: enqueue_def Let_def)
  have inv: "queue_inv es st" "number_inv es st" "question_inv es st" using assms(4) by (simp_all add: installer_inv_def)
  have "pc_request (worker st) = None" using inv(1) assms(1) by (auto simp: queue_inv_def)
  then have "queue_inv (es @ es') (replace_call before nxt after st')"
    using inv(1) assms(1-3) by (auto simp: queue_inv_def step replace_call_def)
  moreover have "number_inv (es @ es') (replace_call before nxt after st')"
    using inv(2) by (auto simp: number_inv_def step replace_call_def nth_append less_Suc_eq assms(5))
  moreover have "question_inv (es @ es') (replace_call before nxt after st')"
    using inv(3) by (auto simp: question_inv_def step replace_call_def)
  moreover have "wake_inv (replace_call before nxt after st')"
    by (auto simp: wake_inv_def step replace_call_def will_notify_def)
  ultimately show ?thesis by (simp add: installer_inv_def)
qed

lemma replace_call_fields [simp]:
  "m_PendingRequest (replace_call before nxt after st) = m_PendingRequest st" "m_Busy (replace_call before nxt after st) = m_Busy st"
  "m_NextGeneration (replace_call before nxt after st) = m_NextGeneration st"
  "m_MigrationGeneration (replace_call before nxt after st) = m_MigrationGeneration st"
  "m_MigrationDecision (replace_call before nxt after st) = m_MigrationDecision st"
  "m_Stopped (replace_call before nxt after st) = m_Stopped st"
  "worker (replace_call before nxt after st) = worker st"
  "calls (replace_call before nxt after st) = before @ opt_list nxt @ after"
  by (simp_all add: replace_call_def opt_list_def)

lemma number_inv_next: "m_NextGeneration st' = m_NextGeneration st \<Longrightarrow> number_inv es st' \<longleftrightarrow> number_inv es st"
  by (simp add: number_inv_def)

lemma enter_inv: "installer_inv es st \<Longrightarrow> installer_inv es (st\<lparr>calls := c # calls st\<rparr>)"
  using number_inv_next [of "st\<lparr>calls := c # calls st\<rparr>" st es]
  by (simp add: installer_inv_def queue_inv_def question_inv_def wake_inv_def)

text \<open>The other calls keep the invariant, because they change little.\<close>

lemma small_step_inv:
  assumes "installer_inv es st" "calls st = before @ c # after"
    "m_PendingRequest st' = m_PendingRequest st" "m_Busy st' = m_Busy st" "m_NextGeneration st' = m_NextGeneration st"
    "m_MigrationGeneration st' = m_MigrationGeneration st" "m_MigrationDecision st' = m_MigrationDecision st"
    "m_Stopped st \<Longrightarrow> m_Stopped st'"
    "worker st' = worker st \<or> st' = notify_request st \<or> st' = notify_migration st"
    "will_notify c \<Longrightarrow> worker st' = WAsleep \<Longrightarrow> \<exists>c'. nxt = Some c' \<and> will_notify c'"
  shows "installer_inv es (replace_call before nxt after st')"
proof -
  have "pc_request (worker st') = pc_request (worker st)" "in_question (worker st') = in_question (worker st)"
    "pc_ok (worker st') = pc_ok (worker st)" "worker st' = WLocked \<longleftrightarrow> worker st = WLocked"
    "worker st' = WAsleep \<Longrightarrow> worker st = WAsleep"
    "worker st' = WEnd \<longleftrightarrow> worker st = WEnd"
    using assms(9) by auto
  note place = this
  have inv: "queue_inv es st" "number_inv es st" "question_inv es st" "wake_inv st"
    using assms(1) by (simp_all add: installer_inv_def)
  have "queue_inv es (replace_call before nxt after st')" using inv(1) assms(3,4,8) place by (simp add: queue_inv_def)
  moreover have "number_inv es (replace_call before nxt after st')"
    using inv(2) assms(5) number_inv_next [of "replace_call before nxt after st'" st es] by simp
  moreover have "question_inv es (replace_call before nxt after st')"
    using inv(3) assms(6,7) place by (simp add: question_inv_def)
  moreover have "wake_inv (replace_call before nxt after st')"
    unfolding wake_inv_def
  proof (intro impI)
    assume asleep: "worker (replace_call before nxt after st') = WAsleep \<and> m_PendingRequest (replace_call before nxt after st') \<noteq> None"
    then have "worker st' = WAsleep" "m_PendingRequest st \<noteq> None" using assms(3) by simp_all
    then obtain d where d: "d \<in> set (calls st)" "will_notify d" using inv(4) place(5) by (auto simp: wake_inv_def)
    show "\<exists>c \<in> set (calls (replace_call before nxt after st')). will_notify c"
    proof (cases "d = c")
      case True
      then show ?thesis using assms(10) d(2) \<open>worker st' = WAsleep\<close> by auto
    next
      case False
      then show ?thesis using d assms(2) by auto
    qed
  qed
  ultimately show ?thesis by (simp add: installer_inv_def)
qed

lemma call_step_inv:
  assumes "call_step c st = Some (es', st', nxt)" "installer_inv es st" "calls st = before @ c # after"
  shows "installer_inv (es @ es') (replace_call before nxt after st')"
proof (cases "\<exists>rq. es' = [EvAccepted rq]")
  case True
  then have "\<not> m_Busy st \<and> m_PendingRequest st = None \<and> worker st \<noteq> WLocked \<and>
      (\<exists>request. (\<forall>g. rq_generation (request g) = g) \<and> enqueue request st = (es', st', nxt))"
    using assms(1) by (cases c) (force split: if_splits option.splits simp: enqueue_def Let_def)+
  then show ?thesis using enqueue_inv assms(2) by metis
next
  case False
  show ?thesis
  proof (cases "\<exists>g b. es' = [EvDecided g b]")
    case True
    then obtain g b where step: "c = CallDecide g b" "es' = [EvDecided g b]" "m_MigrationGeneration st = g" "m_MigrationDecision st = Pending"
        "st' = st\<lparr>m_MigrationDecision := (if b then Accepted else Declined)\<rparr>" "nxt = Some DecideNotify"
      using assms(1) by (cases c) (auto split: if_splits option.splits simp: enqueue_def Let_def)
    have inv: "queue_inv es st" "number_inv es st" "question_inv es st" "wake_inv st" using assms(2) by (simp_all add: installer_inv_def)
    have "queue_inv (es @ es') (replace_call before nxt after st')" using inv(1) by (simp add: queue_inv_def step)
    moreover have "number_inv (es @ es') (replace_call before nxt after st')" using inv(2) by (simp add: number_inv_def step)
    moreover have "question_inv (es @ es') (replace_call before nxt after st')"
      using inv(3) step(3,4) by (auto simp: question_inv_def step)
    moreover have "wake_inv (replace_call before nxt after st')"
      using inv(4) assms(3) by (auto simp: wake_inv_def step will_notify_def)
    ultimately show ?thesis by (simp add: installer_inv_def)
  next
    case False
    then have "es' = []" using assms(1) \<open>\<nexists>rq. es' = [EvAccepted rq]\<close>
      by (cases c) (auto split: if_splits option.splits simp: enqueue_def Let_def)
    moreover have "installer_inv es (replace_call before nxt after st')"
      by (rule small_step_inv [OF assms(2,3)])
        (use assms(1) \<open>es' = []\<close> in \<open>cases c; auto split: if_splits option.splits simp: enqueue_def Let_def will_notify_def\<close>)+
    ultimately show ?thesis by simp
  qed
qed

lemma installer_run_inv: "installer_run es st \<Longrightarrow> installer_inv es st"
proof (induction rule: installer_run.induct)
  case init
  show ?case by (simp add: installer_inv_def queue_inv_def number_inv_def question_inv_def wake_inv_def new_installer_def)
next
  case (step es st es' st')
  from step.hyps(2) show ?case
  proof (cases rule: installer_step.cases)
    case enter
    then show ?thesis using enter_inv [OF step.IH] by simp
  next
    case call
    then show ?thesis using call_step_inv [OF _ step.IH] by simp
  next
    case work
    then show ?thesis using RunWorker_inv [OF _ step.IH] by simp
  next
    case operation
    then show ?thesis using operate_inv [OF step.IH] by simp
  next
    case wake
    then show ?thesis using wake_up_inv [OF step.IH] by simp
  qed
qed

section \<open>Runs on concrete calls\<close>

fun entry_call :: "call \<Rightarrow> bool" where
  "entry_call (CallRequest action modId expected) = True"
| "entry_call (CallRemoval target) = True"
| "entry_call CallCancel = True"
| "entry_call (CallDecide generation accept) = True"
| "entry_call CallShutdown = True"
| "entry_call _ = False"

datatype move = Enter call | Step nat | Work | Operate choice | WakeUp

fun make_move :: "move \<Rightarrow> event list \<times> installer \<Rightarrow> (event list \<times> installer) option" where
  "make_move (Enter c) (es, st) = (if entry_call c then Some (es, st\<lparr>calls := c # calls st\<rparr>) else None)"
| "make_move (Step i) (es, st) =
     (if i < length (calls st)
      then (case call_step (calls st ! i) st of
          None \<Rightarrow> None
        | Some (es', st', next) \<Rightarrow> Some (es @ es', replace_call (take i (calls st)) next (drop (Suc i) (calls st)) st'))
      else None)"
| "make_move Work (es, st) = (case RunWorker (worker st) st of None \<Rightarrow> None | Some (es', st') \<Rightarrow> Some (es @ es', st'))"
| "make_move (Operate c) (es, st) = (case worker st of WRun rq \<Rightarrow> Some (es, operate rq c st) | _ \<Rightarrow> None)"
| "make_move WakeUp (es, st) = Some (es, wake_up st)"

fun make_moves :: "move list \<Rightarrow> event list \<times> installer \<Rightarrow> (event list \<times> installer) option" where
  "make_moves [] s = Some s"
| "make_moves (m # ms) s = (case make_move m s of None \<Rightarrow> None | Some s' \<Rightarrow> make_moves ms s')"

lemma make_move_run:
  assumes "make_move m (es, st) = Some (es', st')" "installer_run es st"
  shows "installer_run es' st'"
proof (cases m)
  case (Enter c)
  then have "es' = es @ []" "st' = st\<lparr>calls := c # calls st\<rparr>" "is_entry c"
    using assms(1) by (auto simp: is_entry_def split: if_splits elim: entry_call.elims)
  then show ?thesis using installer_run.step [OF assms(2) installer_step.enter] by metis
next
  case (Step i)
  then obtain e s n where s: "i < length (calls st)" "call_step (calls st ! i) st = Some (e, s, n)" "es' = es @ e"
      "st' = replace_call (take i (calls st)) n (drop (Suc i) (calls st)) s"
    using assms(1) by (auto split: if_splits option.splits)
  have "calls st = take i (calls st) @ calls st ! i # drop (Suc i) (calls st)" using s(1) by (rule id_take_nth_drop)
  from installer_run.step [OF assms(2) installer_step.call [OF this s(2)]] show ?thesis by (simp add: s)
next
  case Work
  then obtain e where "RunWorker (worker st) st = Some (e, st')" "es' = es @ e"
    using assms(1) by (auto split: option.splits)
  then show ?thesis using installer_run.step [OF assms(2) installer_step.work] by simp
next
  case (Operate c)
  then obtain rq where "worker st = WRun rq" "es' = es @ []" "st' = operate rq c st"
    using assms(1) by (auto split: worker_pc.splits)
  then show ?thesis using installer_run.step [OF assms(2) installer_step.operation] by metis
next
  case WakeUp
  then have "es' = es @ []" "st' = wake_up st" using assms(1) by simp_all
  then show ?thesis using installer_run.step [OF assms(2) installer_step.wake] by metis
qed

lemma make_moves_run:
  "make_moves ms (es, st) = Some (es', st') \<Longrightarrow> installer_run es st \<Longrightarrow> installer_run es' st'"
proof (induction ms arbitrary: es st)
  case (Cons m ms)
  then obtain e s where "make_move m (es, st) = Some (e, s)" "make_moves ms (e, s) = Some (es', st')"
    by (auto split: option.splits)
  then show ?case using make_move_run Cons by blast
qed simp

lemma run_of_moves:
  assumes "make_moves ms ([], new_installer) = Some (es, st)"
  shows "installer_run es st"
  by (rule make_moves_run [OF assms installer_run.init])

section \<open>Properties\<close>

text \<open>
  C22: However the steps of the calls and of the worker are interleaved, requests are worked on one at a time
  and in the order they were accepted: those accepted are those started and the pending one, those started are
  those finished and the one the worker is busy with, at most one request is accepted and not finished, and
  then \<open>m_Busy\<close> is set, and the requests are numbered from 1 in the order they were accepted.
\<close>

theorem requests_in_order:
  assumes "installer_run es st"
  shows "accepted es = started es @ opt_list (m_PendingRequest st) \<and>
    started es = finished es @ opt_list (pc_request (worker st)) \<and>
    length (accepted es) \<le> length (finished es) + 1 \<and>
    (m_Busy st \<longleftrightarrow> accepted es \<noteq> finished es) \<and>
    map rq_generation (accepted es) = map of_nat [1..<length (accepted es) + 1]"
proof -
  have q: "queue_inv es st" and n: "number_inv es st" using installer_run_inv [OF assms] by (simp_all add: installer_inv_def)
  have "map rq_generation (accepted es) = map of_nat [1..<length (accepted es) + 1]"
    using n by (intro nth_equalityI) (auto simp: number_inv_def simp del: upt_Suc)
  then show ?thesis using q by (auto simp: queue_inv_def opt_list_def split: option.splits)
qed

definition ex_removal :: move where
  "ex_removal = Enter (CallRequest Remove 7 0)"

lemma requests_in_order_witness:
  "\<exists>es st. make_moves [ex_removal, Step 0, Step 0, Work, ex_removal, Step 0, Step 0] ([], new_installer) = Some (es, st) \<and>
     length (accepted es) = 1 \<and> length (accepted es) \<le> length (finished es) + 1"
proof -
  obtain es st where m: "make_moves [ex_removal, Step 0, Step 0, Work, ex_removal, Step 0, Step 0] ([], new_installer) = Some (es, st)"
    and l: "length (accepted es) = 1"
  proof -
    have "case make_moves [ex_removal, Step 0, Step 0, Work, ex_removal, Step 0, Step 0] ([], new_installer) of
      None \<Rightarrow> False | Some (es, st) \<Rightarrow> length (accepted es) = 1" by code_simp
    then show ?thesis using that by (auto split: option.splits)
  qed
  then show ?thesis using requests_in_order [OF run_of_moves [OF m]] by blast
qed

text \<open>
  C23: No request is forgotten: when all calls have returned, a pending request never waits on a sleeping worker,
  and unless the installer is shut down the next step of the worker starts it.
\<close>

theorem request_not_forgotten:
  assumes "installer_run es st" "calls st = []" "m_PendingRequest st = Some rq" "\<not> m_Stopped st"
  shows "worker st = WTop \<and> (\<exists>st'. RunWorker (worker st) st = Some ([EvStarted rq], st'))"
proof -
  have inv: "queue_inv es st" "wake_inv st" using installer_run_inv [OF assms(1)] by (simp_all add: installer_inv_def)
  then have "pc_request (worker st) = None" "worker st \<noteq> WLocked" "worker st \<noteq> WEnd" "pc_ok (worker st)"
    using assms(3,4) by (auto simp: queue_inv_def)
  moreover have "worker st \<noteq> WAsleep" using inv(2) assms(2,3) by (auto simp: wake_inv_def)
  ultimately have "worker st = WTop" by (cases "worker st") (auto elim: pc_ok.elims)
  then show ?thesis using assms(3,4) by simp
qed

lemma request_not_forgotten_witness:
  "\<exists>es st rq st'. make_moves [Work, Work, ex_removal, Step 0, Step 0, Step 0, Step 0, Step 0] ([], new_installer) = Some (es, st) \<and>
     RunWorker (worker st) st = Some ([EvStarted rq], st')"
proof -
  obtain es st where m: "make_moves [Work, Work, ex_removal, Step 0, Step 0, Step 0, Step 0, Step 0] ([], new_installer) = Some (es, st)"
    and p: "calls st = []" "m_PendingRequest st \<noteq> None" "\<not> m_Stopped st"
  proof -
    have "case make_moves [Work, Work, ex_removal, Step 0, Step 0, Step 0, Step 0, Step 0] ([], new_installer) of
      None \<Rightarrow> False | Some (es, st) \<Rightarrow> calls st = [] \<and> m_PendingRequest st \<noteq> None \<and> \<not> m_Stopped st" by code_simp
    then show ?thesis using that by (auto split: option.splits)
  qed
  then obtain rq where "m_PendingRequest st = Some rq" by blast
  then show ?thesis using request_not_forgotten [OF run_of_moves [OF m] p(1) _ p(3)] m by blast
qed

definition with_consent :: "event list \<Rightarrow> bool" where
  "with_consent es \<longleftrightarrow> (\<forall>i < length es. \<forall>rq. es ! i = EvReplaces rq \<longrightarrow> EvDecided (rq_generation rq) True \<in> set (take i es))"

lemma RunWorker_replaces:
  assumes "RunWorker (worker st) st = Some (es', st')" "question_inv es st"
  shows "(\<forall>e \<in> set es'. \<forall>rq. e \<noteq> EvReplaces rq) \<or> (\<exists>rq. es' = [EvReplaces rq] \<and> EvDecided (rq_generation rq) True \<in> set es)"
  using assms by (cases "worker st") (auto simp: question_inv_def Let_def split: if_splits option.splits)

lemma call_step_replaces: "call_step c st = Some (es', st', nxt) \<Longrightarrow> e \<in> set es' \<Longrightarrow> e \<noteq> EvReplaces rq"
  by (cases c) (auto simp: enqueue_def Let_def split: if_splits option.splits)

lemma with_consent_append:
  assumes "with_consent es" "\<forall>e \<in> set es'. \<forall>rq. e \<noteq> EvReplaces rq"
  shows "with_consent (es @ es')"
  using assms by (auto simp: with_consent_def nth_append all_set_conv_all_nth)

text \<open>
  C24: Mods that were there before are replaced only with consent: when an operation goes on after asking
  whether to replace them, \<open>DecideMigration\<close> was called for the number of its request and accepted.
\<close>

theorem replaces_with_consent:
  assumes "installer_run es st" "es = before @ EvReplaces rq # after"
  shows "EvDecided (rq_generation rq) True \<in> set before"
proof -
  have "with_consent es"
    using assms(1)
  proof (induction rule: installer_run.induct)
    case init
    show ?case by (simp add: with_consent_def)
  next
    case (step es st es' st')
    have q: "question_inv es st" using installer_run_inv [OF step.hyps(1)] by (simp add: installer_inv_def)
    from step.hyps(2) show ?case
    proof (cases rule: installer_step.cases)
      case call
      then show ?thesis using call_step_replaces with_consent_append [OF step.IH] by blast
    next
      case work
      from RunWorker_replaces [OF this q] show ?thesis
        using with_consent_append [OF step.IH] step.IH by (auto simp: with_consent_def nth_append)
    qed (use step.IH in simp_all)
  qed
  then show ?thesis using assms(2) unfolding with_consent_def
    by (metis append_eq_conv_conj length_append less_add_same_cancel1 list.size(4) nth_append_length add_Suc_right zero_less_Suc)
qed

lemma replaces_with_consent_witness:
  "\<exists>es st. make_moves [ex_removal, Step 0, Step 0, Work, Operate (AskMigration ''m''), Work, Work, Enter (CallDecide 1 True), Step 0, Work]
     ([], new_installer) = Some (es, st) \<and> EvDecided 1 True \<in> set (butlast es) \<and> (\<exists>rq. last es = EvReplaces rq)"
proof -
  let ?ms = "[ex_removal, Step 0, Step 0, Work, Operate (AskMigration ''m''), Work, Work, Enter (CallDecide 1 True), Step 0, Work]"
  obtain es st rq where m: "make_moves ?ms ([], new_installer) = Some (es, st)" and l: "es \<noteq> []" "last es = EvReplaces rq" "rq_generation rq = 1"
  proof -
    have "case make_moves ?ms ([], new_installer) of
      None \<Rightarrow> False | Some (es, st) \<Rightarrow> es \<noteq> [] \<and> (case last es of EvReplaces rq \<Rightarrow> rq_generation rq = 1 | _ \<Rightarrow> False)" by code_simp
    then show ?thesis using that by (auto split: option.splits event.splits)
  qed
  have "es = butlast es @ EvReplaces rq # []" using l by (metis append_butlast_last_id)
  from replaces_with_consent [OF run_of_moves [OF m] this] show ?thesis using m l by auto
qed

definition ends_in :: "move list \<Rightarrow> (event list \<Rightarrow> installer \<Rightarrow> bool) \<Rightarrow> bool" where
  "ends_in ms P \<longleftrightarrow> (case make_moves ms ([], new_installer) of None \<Rightarrow> False | Some (es, st) \<Rightarrow> P es st)"

lemma ends_in_run: "ends_in ms P \<Longrightarrow> \<exists>es st. installer_run es st \<and> P es st"
  by (auto simp: ends_in_def split: option.splits dest: run_of_moves)

definition at_rest :: "event list \<Rightarrow> installer \<Rightarrow> bool" where
  "at_rest es st \<longleftrightarrow> calls st = [] \<and> worker st = WAsleep \<and> m_PendingRequest st = None \<and> accepted es \<noteq> [] \<and> accepted es = finished es"

text \<open>
  The snapshot can be wrong forever. \<open>Request\<close> publishes the queued state after it released the mutex, so the
  worker may have finished the request by then, and \<open>Cancel\<close> publishes a state it read before; in both cases a run
  ends with every request finished, every call returned and the worker asleep, while the snapshot says that the
  operation is queued, or that it is committing.
\<close>

theorem snapshot_can_go_stale:
  "(\<exists>es st. installer_run es st \<and> at_rest es st \<and> sn_state (m_Snapshot st) = Queued) \<and>
   (\<exists>es st. installer_run es st \<and> at_rest es st \<and> sn_state (m_Snapshot st) = Committing \<and> cancellationDeferred (m_Snapshot st))"
proof
  have "ends_in [ex_removal, Step 0, Step 0, Work, Operate (Return False False ''not installed''), Work, Work, Work, Work,
      Step 0, Step 0, Step 0, Work, Work]
    (\<lambda>es st. at_rest es st \<and> sn_state (m_Snapshot st) = Queued)" by code_simp
  then show "\<exists>es st. installer_run es st \<and> at_rest es st \<and> sn_state (m_Snapshot st) = Queued" by (rule ends_in_run)
  have "ends_in [ex_removal, Step 0, Step 0, Step 0, Step 0, Step 0, Work, Operate (DoTransition Committing [] [] []), Work,
      Enter CallCancel, Step 0, Operate (Return True False []), Work, Work, Work, Work, Step 0, Step 0, Step 0, Work, Work]
    (\<lambda>es st. at_rest es st \<and> sn_state (m_Snapshot st) = Committing \<and> cancellationDeferred (m_Snapshot st))" by code_simp
  then show "\<exists>es st. installer_run es st \<and> at_rest es st \<and> sn_state (m_Snapshot st) = Committing \<and> cancellationDeferred (m_Snapshot st)"
    by (rule ends_in_run)
qed

text \<open>
  Wake-ups can be lost, because \<open>Shutdown\<close> and \<open>Cancel\<close> set their flags without the mutex of the waiting worker.
  A run ends with the installer stopped, the worker asleep and \<open>Shutdown\<close> waiting for it to end, and none of them can go
  on; another ends with the operation cancelled, \<open>Cancel\<close> returned, and the worker still asleep waiting for a decision.
\<close>

theorem wake_ups_can_be_lost:
  "(\<exists>es st. installer_run es st \<and> m_Stopped st \<and> worker st = WAsleep \<and> calls st = [ShutJoin] \<and>
      RunWorker (worker st) st = None \<and> call_step ShutJoin st = None) \<and>
   (\<exists>es st rq. installer_run es st \<and> m_CancelRequested st \<and> worker st = MAsleep rq \<and> calls st = [] \<and>
      RunWorker (worker st) st = None)"
proof
  have "ends_in [Work, Enter CallShutdown, Step 0, Step 0, Step 0, Step 0, Work]
    (\<lambda>es st. m_Stopped st \<and> worker st = WAsleep \<and> calls st = [ShutJoin])" by code_simp
  then obtain es st where "installer_run es st" "m_Stopped st" "worker st = WAsleep" "calls st = [ShutJoin]"
    using ends_in_run by blast
  moreover from this have "RunWorker (worker st) st = None" "call_step ShutJoin st = None" by simp_all
  ultimately show "\<exists>es st. installer_run es st \<and> m_Stopped st \<and> worker st = WAsleep \<and> calls st = [ShutJoin] \<and>
      RunWorker (worker st) st = None \<and> call_step ShutJoin st = None"
    by blast
  have "ends_in [ex_removal, Step 0, Step 0, Step 0, Step 0, Step 0, Work, Operate (AskMigration ''m''), Work, Work, Work,
      Enter CallCancel, Step 0, Step 0, Step 0, Work]
    (\<lambda>es st. m_CancelRequested st \<and> (case worker st of MAsleep rq \<Rightarrow> True | _ \<Rightarrow> False) \<and> calls st = [])" by code_simp
  then obtain es st where "installer_run es st" "m_CancelRequested st" "calls st = []"
    "case worker st of MAsleep rq \<Rightarrow> True | _ \<Rightarrow> False"
    using ends_in_run by blast
  moreover from this(4) obtain rq where "worker st = MAsleep rq" by (cases "worker st") auto
  moreover from this have "RunWorker (worker st) st = None" by simp
  ultimately show "\<exists>es st rq. installer_run es st \<and> m_CancelRequested st \<and> worker st = MAsleep rq \<and> calls st = [] \<and>
      RunWorker (worker st) st = None"
    by blast
qed

end
