(* ===== verification/ModRemove.thy ===== *)
theory ModRemove
  imports ModInstall FileTree ModRequest
begin

text \<open>
  The removal of packages, \<open>ExecuteRemove\<close> and \<open>ExecuteInstalledRemove\<close> of
  \<open>src/modsystem/modinstaller.cpp\<close>, and the functions that decide which directory may be removed:
  \<open>TryGetDirectChildRoot\<close>, \<open>TryDeriveRemovalRoot\<close>, \<open>ValidateRemovalRoot\<close> and \<open>InspectInstalledRemoval\<close>.
\<close>

section \<open>Paths as text\<close>

text \<open>\<open>operator/\<close> of two paths, the second of which may have a drive or a root.\<close>

definition path_div :: "string \<Rightarrow> string \<Rightarrow> string" where
  "path_div a b =
     (case (split_drive a, split_drive b) of ((drive_a, rel_a), (drive_b, rel_b)) \<Rightarrow>
        if drive_b \<noteq> [] \<and> (drive_b \<noteq> drive_a \<or> rel_b \<noteq> [] \<and> is_sep (hd rel_b)) then b
        else if rel_b \<noteq> [] \<and> is_sep (hd rel_b) then drive_a @ rel_b
        else if rel_a = [] then a @ (if length drive_a \<ge> 3 then [CHR 0x5C] else []) @ rel_b
        else a @ (if is_sep (last a) then [] else [CHR 0x5C]) @ rel_b)"

definition parent_path :: "string \<Rightarrow> string" where
  "parent_path p =
     (case split_drive p of (drive, rel) \<Rightarrow>
        drive @ takeWhile is_sep rel @
          rev (dropWhile is_sep (dropWhile (\<lambda>c. \<not> is_sep c) (rev (dropWhile is_sep rel)))))"

section \<open>Directories that may be removed\<close>

text \<open>
  Of the environment: the absolute normal form of a path, the three folders mods are in, and whether a
  directory exists, can be looked at, and is a reparse point.
\<close>

record root_env =
  absolute_normal :: "string \<Rightarrow> string option"
  mod_folders :: "string list"
  is_dir :: "string \<Rightarrow> bool"
  attributes_ok :: "string \<Rightarrow> bool"
  reparse_point :: "string \<Rightarrow> bool"

definition root_prefix_of :: "string \<Rightarrow> string" where
  "root_prefix_of root = (let k = PathKey root in if k \<noteq> [] \<and> last k = CHR ''/'' then k else k @ ''/'')"

text \<open>A normal form is not empty. The path put together at the end is in normal form already.\<close>

definition NormalizeAbsolutePath :: "root_env \<Rightarrow> string \<Rightarrow> string option" where
  "NormalizeAbsolutePath env path = (case absolute_normal env path of Some n \<Rightarrow> if n = [] then None else Some n | None \<Rightarrow> None)"

definition TryGetDirectChildRoot :: "root_env \<Rightarrow> string \<Rightarrow> string \<Rightarrow> string option" where
  "TryGetDirectChildRoot env path allowedRoot =
     (case (NormalizeAbsolutePath env path, NormalizeAbsolutePath env allowedRoot) of
        (Some normalizedPath, Some normalizedAllowedRoot) \<Rightarrow>
          let pathKey = PathKey normalizedPath; rootPrefix = root_prefix_of normalizedAllowedRoot in
          if \<not> starts_with pathKey rootPrefix then None
          else
            let firstComponent = takeWhile (\<lambda>c. c \<noteq> CHR ''/'') (drop (length rootPrefix) pathKey) in
            if firstComponent = [] \<or> firstComponent = ''.'' \<or> firstComponent = ''..'' then None
            else
              let directChild = path_div normalizedAllowedRoot firstComponent in
              if PathKey (parent_path directChild) = PathKey normalizedAllowedRoot then Some directChild else None
      | _ \<Rightarrow> None)"

record installed_mod =
  im_Name :: string
  im_Version :: string
  im_ModDirectory :: string
  im_PackageDirectory :: string
  im_Source :: ModSource
  im_ManagedId :: "string option"

fun derive_root :: "root_env \<Rightarrow> installed_mod \<Rightarrow> string list \<Rightarrow> string option" where
  "derive_root env m [] = None"
| "derive_root env m (allowedRoot # roots) =
     (case TryGetDirectChildRoot env (im_ModDirectory m) allowedRoot of
        None \<Rightarrow> derive_root env m roots
      | Some candidate \<Rightarrow>
          if im_PackageDirectory m = [] then Some candidate
          else (case NormalizeAbsolutePath env (im_PackageDirectory m) of
              None \<Rightarrow> None
            | Some n \<Rightarrow> if PathKey n = PathKey candidate then Some candidate else None))"

definition TryDeriveRemovalRoot :: "root_env \<Rightarrow> installed_mod \<Rightarrow> string option" where
  "TryDeriveRemovalRoot env m = derive_root env m (mod_folders env)"

definition ValidateRemovalRoot :: "root_env \<Rightarrow> string \<Rightarrow> bool" where
  "ValidateRemovalRoot env deletionRoot =
     (case NormalizeAbsolutePath env deletionRoot of
        None \<Rightarrow> False
      | Some n \<Rightarrow>
          (\<exists>allowedRoot \<in> set (mod_folders env). \<exists>candidate \<in> set_option (TryGetDirectChildRoot env n allowedRoot).
             PathKey candidate = PathKey n) \<and>
          is_dir env n \<and> attributes_ok env n \<and> \<not> reparse_point env n)"

text \<open>\<open>std::from_chars\<close> for a whole text: digits whose value is in range.\<close>

definition ParseManagedModId :: "installed_mod \<Rightarrow> u64" where
  "ParseManagedModId m =
     (case im_ManagedId m of
        None \<Rightarrow> 0
      | Some s \<Rightarrow>
          if im_Source m \<noteq> ModWorkshop \<or> s = [] then 0
          else if list_all is_digit s \<and> digits_val s < 2 ^ 64 then of_nat (digits_val s) else 0)"

text \<open>\<open>core\<close> says which names are those of core mods.\<close>

definition InspectInstalledRemoval ::
    "root_env \<Rightarrow> (string \<Rightarrow> bool) \<Rightarrow> installed_mod list option \<Rightarrow> int \<Rightarrow> (InstalledRemovalTarget \<times> nat) option" where
  "InspectInstalledRemoval env core loaded modIndex =
     (case loaded of
        None \<Rightarrow> None
      | Some mods \<Rightarrow>
          if modIndex < 0 \<or> int (length mods) \<le> modIndex then None
          else
            let matched = mods ! nat modIndex in
            (case TryDeriveRemovalRoot env matched of
               None \<Rightarrow> None
             | Some root \<Rightarrow>
                 let same = filter (\<lambda>m. \<exists>r \<in> set_option (TryDeriveRemovalRoot env m). PathKey r = PathKey root) mods in
                 Some (\<lparr>tg_root = root, tg_name = im_Name matched, tg_version = im_Version matched,
                         tg_managedModId = ParseManagedModId matched,
                         tg_canDelete = (\<forall>m \<in> set same. \<not> core (im_Name m)) \<and> \<not> core (im_Name matched) \<and> ValidateRemovalRoot env root\<rparr>,
                       length same)))"

section \<open>Removing\<close>

text \<open>
  The files of a job are below one directory. Removing it removes everything there, unless it fails and
  leaves something.
\<close>

record 'c remove_env =
  base :: "'c commit_env"
  roots :: root_env
  capture_result :: "bool option"
  removal_reload :: "(string \<Rightarrow> 'c option) \<Rightarrow> bool option"
  in_job :: "string \<Rightarrow> bool"
  job_left :: "nat \<Rightarrow> string \<Rightarrow> 'c option"
  backup_place :: string

definition remove_job :: "'c remove_env \<Rightarrow> 'c dir_state \<Rightarrow> 'c dir_state" where
  "remove_job env fs =
     (let left = (if op_fails (base env) (fs_ops fs) then job_left env (fs_ops fs) else (\<lambda>p. None)) in
      \<lparr>dirs = (\<lambda>p. if in_job env p then left p else dirs fs p), fs_ops = fs_ops fs + 1\<rparr>)"

definition create_backups :: "'c remove_env \<Rightarrow> 'c dir_state \<Rightarrow> bool \<times> 'c dir_state" where
  "create_backups env fs = (\<not> op_fails (base env) (fs_ops fs), fs\<lparr>fs_ops := fs_ops fs + 1\<rparr>)"

definition CaptureRuntimeState_error :: "bool option \<Rightarrow> string option" where
  "CaptureRuntimeState_error r =
     (case r of None \<Rightarrow> Some ''Timed out reading mod state'' | Some ok \<Rightarrow> if ok then None else Some ''Mod manager is unavailable'')"

definition ReloadAfterRollback :: "bool option \<Rightarrow> string \<Rightarrow> bool \<times> string" where
  "ReloadAfterRollback r e =
     (if r = Some True then (True, e) else (False, e @ ''; rollback restored files but mod reload failed''))"

text \<open>
  The result of a removal: whether it succeeded, the message, whether recovery files are to be kept, and
  the state. \<open>cancelled\<close> is the answer of \<open>IsCancelled\<close>, \<open>valid\<close> and \<open>still_valid\<close> those of
  \<open>ValidateRemovalRoot\<close> at its two calls.
\<close>

definition ExecuteInstalledRemove ::
    "'c remove_env \<Rightarrow> string \<Rightarrow> bool \<Rightarrow> bool \<Rightarrow> bool \<Rightarrow> 'c dir_state \<Rightarrow> (bool \<times> string \<times> bool) \<times> 'c dir_state" where
  "ExecuteInstalledRemove env root valid cancelled still_valid fs =
     (if root = [] \<or> \<not> valid then ((False, ''Installed mod removal root is missing or no longer safe'', False), fs)
      else if cancelled then ((False, [], False), fs)
      else case CaptureRuntimeState_error (capture_result env) of
        Some e \<Rightarrow> ((False, e, False), fs)
      | None \<Rightarrow>
          (case create_backups env (remove_job env fs) of (created, fs1) \<Rightarrow>
             if \<not> created then ((False, ''Failed creating rollback storage: '' @ error_text (base env) (fs_ops fs + 1), False), fs1)
             else if \<not> still_valid then ((False, ''Installed mod removal root changed before removal'', False), fs1)
             else case UnloadRuntime_error (unload_result (base env)) of
               Some e \<Rightarrow> ((False, e, False), fs1)
             | None \<Rightarrow>
                 (case fs_rename (base env) root (backup_place env) fs1 of (moved, fs2) \<Rightarrow>
                    if \<not> moved
                    then ((False, snd (ReloadAfterRollback (rollback_result (base env) (dirs fs2))
                             (''Failed moving installed mod to rollback storage: '' @ error_text (base env) (fs_ops fs1))), False), fs2)
                    else if removal_reload env (dirs fs2) = Some True then ((True, [], False), remove_job env fs2)
                    else
                      let e = (if removal_reload env (dirs fs2) = None then ''Timed out while reloading mods after removal''
                               else ''Reloaded mods still contain the removed package'') in
                      (case fs_rename (base env) (backup_place env) root fs2 of (back, fs3) \<Rightarrow>
                         if \<not> back
                         then ((False, e @ ''; rollback move failed: '' @ error_text (base env) (fs_ops fs2) @ ''; recovery files were preserved'', True), fs3)
                         else case ReloadAfterRollback (rollback_result (base env) (dirs fs3)) e of (reloaded, e) \<Rightarrow>
                           ((False, e, \<not> reloaded), if reloaded then remove_job env fs3 else fs3)))))"

definition ExecuteRemove ::
    "'c remove_env \<Rightarrow> ModWorkshopTrackedPackage option \<Rightarrow> bool \<Rightarrow> bool \<Rightarrow> 'c dir_state \<Rightarrow> (bool \<times> string) \<times> 'c dir_state" where
  "ExecuteRemove env package cancelled still_valid fs =
     (case package of
        None \<Rightarrow> ((False, ''Tracked ModWorkshop package is not installed''), fs)
      | Some p \<Rightarrow>
          if cancelled then ((False, []), fs)
          else case CaptureRuntimeState_error (capture_result env) of
            Some e \<Rightarrow> ((False, e), fs)
          | None \<Rightarrow>
              (case create_backups env fs of (created, fs1) \<Rightarrow>
                 if \<not> created then ((False, ''Failed creating rollback storage: '' @ error_text (base env) (fs_ops fs)), fs1)
                 else if \<not> still_valid then ((False, ''Tracked package removal root is no longer safe''), fs1)
                 else case UnloadRuntime_error (unload_result (base env)) of
                   Some e \<Rightarrow> ((False, e), fs1)
                 | None \<Rightarrow>
                     (case fs_rename (base env) (packageRoot p) (backup_place env) fs1 of (moved, fs2) \<Rightarrow>
                        if \<not> moved
                        then ((False, snd (ReloadAfterRollback (rollback_result (base env) (dirs fs2))
                                 (''Failed moving package to rollback storage: '' @ error_text (base env) (fs_ops fs1)))), fs2)
                        else if removal_reload env (dirs fs2) \<noteq> Some True
                        then ((False, ''Mod reload failed; removed package was restored''),
                              snd (fs_rename (base env) (backup_place env) (packageRoot p) fs2))
                        else ((True, []), remove_job env fs2))))"

end
