(* ===== verification/ModRemoveSpec.thy ===== *)
theory ModRemoveSpec
  imports ModRemove
begin

text \<open>
  What the removal of packages guarantees: only directories directly in the folders of mods are removed, and
  a package is removed or still there.
\<close>

section \<open>Keys of paths\<close>

lemma PathKey_append: "PathKey (a @ b) = PathKey a @ PathKey b"
  by (simp add: PathKey_def generic_form_def LowerAscii_def)

lemma length_PathKey [simp]: "length (PathKey p) = length p"
  by (simp add: PathKey_def generic_form_def LowerAscii_def)

lemma PathKey_Nil [simp]: "PathKey [] = []"
  by (simp add: PathKey_def generic_form_def LowerAscii_def)

lemma lower_char_idem: "lower_char (lower_char c) = lower_char c"
  by (simp add: lower_char_def)

lemma lower_char_not_backslash: "c \<noteq> CHR 0x5C \<Longrightarrow> lower_char c \<noteq> CHR 0x5C"
proof
  assume c: "c \<noteq> CHR 0x5C" "lower_char c = CHR 0x5C"
  have "(of_char (lower_char c) :: nat) = (if 65 \<le> (of_char c :: nat) \<and> (of_char c :: nat) \<le> 90 then of_char c + 32 else of_char c)"
    by (simp add: lower_char_def)
  moreover have "(of_char (lower_char c) :: nat) = 92" using c(2) by simp
  ultimately have "(of_char c :: nat) = of_char (CHR 0x5C)" by (auto split: if_splits)
  then show False using c(1) by (simp only: of_char_eq_iff)
qed

lemma PathKey_no_backslash: "CHR 0x5C \<notin> set (PathKey p)"
proof
  assume "CHR 0x5C \<in> set (PathKey p)"
  then have "CHR 0x5C \<in> (\<lambda>c. lower_char (if c = CHR 0x5C then CHR ''/'' else c)) ` set p"
    by (simp only: PathKey_def generic_form_def LowerAscii_def set_map image_image)
  then obtain c where c: "CHR 0x5C = lower_char (if c = CHR 0x5C then CHR ''/'' else c)" by (rule imageE)
  have "(if c = CHR 0x5C then CHR ''/'' else c) \<noteq> CHR 0x5C" by simp
  from lower_char_not_backslash [OF this] c [symmetric] show False by (rule notE)
qed

lemma PathKey_idem: "PathKey (PathKey p) = PathKey p"
  by (simp add: PathKey_def generic_form_def LowerAscii_def lower_char_idem lower_char_not_backslash)

lemma PathKey_slash [simp]: "PathKey [CHR 0x5C] = ''/''" "PathKey [CHR ''/''] = ''/''"
  by (simp_all add: PathKey_def generic_form_def LowerAscii_def lower_char_def)

text \<open>Part of a key is its own key.\<close>

lemma PathKey_part: "a @ b = PathKey p \<Longrightarrow> PathKey a = a \<and> PathKey b = b"
proof -
  assume eq: "a @ b = PathKey p"
  then have "PathKey a @ PathKey b = a @ b" using PathKey_idem [of p] by (simp add: PathKey_append [symmetric])
  then show ?thesis by (simp add: append_eq_append_conv)
qed

lemma split_drive_append: "split_drive p = (d, r) \<Longrightarrow> d @ r = p"
  by (auto simp: split_drive_def Let_def split: if_splits)

text \<open>A path that is only a drive and not just a letter is a server, and its name does not end in a slash.\<close>

lemma drive_only: "split_drive p = (d, []) \<Longrightarrow> 3 \<le> length d \<Longrightarrow> \<not> is_sep (last p)"
proof -
  assume s: "split_drive p = (d, [])" "3 \<le> length d"
  then have p: "p = d" using split_drive_append by fastforce
  have "\<not> is_sep (p ! 2) \<and> d = take 2 p @ takeWhile (\<lambda>c. \<not> is_sep c) (drop 2 p)"
    using s by (auto simp: split_drive_def Let_def split: if_splits)
  then have "drop 2 p = takeWhile (\<lambda>c. \<not> is_sep c) (drop 2 p)" "drop 2 p \<noteq> []"
    using p s(2) by (metis append_eq_append_conv append_take_drop_id length_take min.absorb2) (use p s(2) in auto)
  then have "\<not> is_sep (last (drop 2 p))" by (metis last_in_set set_takeWhileD)
  then show ?thesis using p s(2) by (simp add: last_drop)
qed

lemma last_PathKey: "p \<noteq> [] \<Longrightarrow> last (PathKey p) = CHR ''/'' \<Longrightarrow> is_sep (last p)"
proof -
  assume p: "p \<noteq> []" "last (PathKey p) = CHR ''/''"
  let ?c = "if last p = CHR 0x5C then CHR ''/'' else last p"
  have "lower_char ?c = CHR ''/''" using p by (simp add: PathKey_def generic_form_def LowerAscii_def last_map)
  then have "(of_char (lower_char ?c) :: nat) = 47" by simp
  then have "(of_char ?c :: nat) = of_char (CHR ''/'')" by (auto simp: lower_char_def split: if_splits)
  then have "?c = CHR ''/''" by (simp only: of_char_eq_iff)
  then show ?thesis by (auto simp: is_sep_def split: if_splits)
qed

section \<open>Removal roots\<close>

text \<open>A plain name in a folder.\<close>

definition child_key :: "string \<Rightarrow> string \<Rightarrow> bool" where
  "child_key root key \<longleftrightarrow>
     (\<exists>name. key = root_prefix_of root @ name \<and> name \<noteq> [] \<and> name \<noteq> ''.'' \<and> name \<noteq> ''..'' \<and> CHR ''/'' \<notin> set name)"

lemma starts_with_append: "starts_with s p \<longleftrightarrow> (\<exists>r. s = p @ r)"
  unfolding starts_with_def by (metis append_eq_conv_conj append_take_drop_id)

text \<open>
  Where a path is equal, up to its key, to what was put together from the folder and the first component,
  nothing follows that component.
\<close>

lemma direct_child_key:
  assumes key: "PathKey n = root_prefix_of root @ c @ rest" and c: "CHR ''/'' \<notin> set c" "c \<noteq> []"
    and same: "PathKey (path_div root c) = PathKey n"
  shows "rest = []"
proof -
  have n: "length n = length (root_prefix_of root) + length c + length rest" using key by (metis length_PathKey length_append add.assoc)
  have len: "length (path_div root c) = length n" using same by (metis length_PathKey)
  have "CHR ''/'' \<in> set (root_prefix_of root)"
    by (auto simp: root_prefix_of_def Let_def) (metis last_in_set)
  then have "CHR ''/'' \<in> set (PathKey n)" by (simp add: key)
  obtain da ra where a: "split_drive root = (da, ra)" by fastforce
  obtain db rb where b: "split_drive c = (db, rb)" by fastforce
  note cb = split_drive_append [OF b]
  have no_sep: "\<not> (rb \<noteq> [] \<and> is_sep (hd rb))" if "CHR 0x5C \<notin> set c"
    using c(1) that cb by (cases rb) (auto simp: is_sep_def)
  have bs: "CHR 0x5C \<notin> set c" using PathKey_no_backslash [of n] by (simp add: key)
  have prefix: "length (root_prefix_of root) \<ge> length root"
    by (simp add: root_prefix_of_def Let_def)
  consider (drive) "db \<noteq> []" "db \<noteq> da" | (same_drive) "db \<noteq> []" "db = da" | (plain) "db = []" by blast
  then show ?thesis
  proof cases
    case drive
    then have "path_div root c = c" using a b by (simp add: path_div_def)
    then have "CHR ''/'' \<in> set (PathKey c)" using same \<open>CHR ''/'' \<in> set (PathKey n)\<close> by simp
    then show ?thesis using len n \<open>path_div root c = c\<close> by simp
  next
    case same_drive
    then have "length (path_div root c) \<le> length root + 1 + length rb"
      using a b no_sep [OF bs] by (auto simp: path_div_def)
    moreover have "length c = length db + length rb" using cb by (metis length_append)
    moreover have "length db \<ge> 2"
      using b same_drive(1) by (auto simp: split_drive_def Let_def split: if_splits)
    ultimately show ?thesis using len n prefix by simp
  next
    case plain
    then have "rb = c" using cb by simp
    then have "length (path_div root c) \<le> length (root_prefix_of root) + length c"
      using a b plain no_sep [OF bs] c(2) drive_only [of root da] last_PathKey [of root]
      by (cases "root = []") (auto simp: path_div_def root_prefix_of_def Let_def)
    then show ?thesis using len n by simp
  qed
qed

lemma takeWhile_no_slash: "CHR ''/'' \<notin> set (takeWhile (\<lambda>c. c \<noteq> CHR ''/'') s)"
  by (auto dest: set_takeWhileD)

lemma TryGetDirectChildRoot_key:
  assumes "TryGetDirectChildRoot env n root = Some candidate" "NormalizeAbsolutePath env n = Some m" "PathKey candidate = PathKey m"
  shows "\<exists>r. NormalizeAbsolutePath env root = Some r \<and> child_key r (PathKey m) \<and> PathKey (parent_path candidate) = PathKey r"
proof -
  obtain r where r: "NormalizeAbsolutePath env root = Some r"
    using assms(1,2) by (auto simp: TryGetDirectChildRoot_def split: option.splits)
  define rel where "rel = drop (length (root_prefix_of r)) (PathKey m)"
  define c where "c = takeWhile (\<lambda>c. c \<noteq> CHR ''/'') rel"
  have s: "starts_with (PathKey m) (root_prefix_of r)" "c \<noteq> []" "c \<noteq> ''.''" "c \<noteq> ''..''" "candidate = path_div r c"
      "PathKey (parent_path candidate) = PathKey r"
    using assms(1,2) r by (auto simp: TryGetDirectChildRoot_def Let_def c_def rel_def split: if_splits)
  have "PathKey m = root_prefix_of r @ rel" using s(1) by (auto simp: starts_with_append rel_def)
  then have key: "PathKey m = root_prefix_of r @ c @ dropWhile (\<lambda>c. c \<noteq> CHR ''/'') rel" by (simp add: c_def)
  have "CHR ''/'' \<notin> set c" unfolding c_def by (rule takeWhile_no_slash)
  have "PathKey (path_div r c) = PathKey m" using s(5) assms(3) by simp
  from direct_child_key [OF key \<open>CHR ''/'' \<notin> set c\<close> s(2) this] have "PathKey m = root_prefix_of r @ c"
    using key by (simp only: append_Nil2)
  then have "child_key r (PathKey m)" using s(2-4) \<open>CHR ''/'' \<notin> set c\<close> unfolding child_key_def by blast
  then show ?thesis by (intro exI [of _ r]) (simp add: r s(6))
qed

text \<open>
  C25: \<open>ValidateRemovalRoot\<close> accepts only directories directly in one of the folders of mods: up to the case of
  letters and the kind of slashes, the absolute path is that of the folder, a slash and one plain name, which is not a
  dot or two; it is a directory and not a reparse point.
\<close>

theorem removal_root_is_child:
  assumes "\<And>p n. absolute_normal env p = Some n \<Longrightarrow> absolute_normal env n = Some n" "ValidateRemovalRoot env p"
  shows "\<exists>n folder r. NormalizeAbsolutePath env p = Some n \<and> folder \<in> set (mod_folders env) \<and>
    NormalizeAbsolutePath env folder = Some r \<and> child_key r (PathKey n) \<and> is_dir env n \<and> \<not> reparse_point env n"
proof -
  obtain n folder candidate where n: "NormalizeAbsolutePath env p = Some n" "folder \<in> set (mod_folders env)"
      "TryGetDirectChildRoot env n folder = Some candidate" "PathKey candidate = PathKey n" "is_dir env n" "\<not> reparse_point env n"
    using assms(2) by (auto simp: ValidateRemovalRoot_def split: option.splits)
  have "NormalizeAbsolutePath env n = Some n"
    using n(1) assms(1) by (auto simp: NormalizeAbsolutePath_def split: option.splits if_splits)
  from TryGetDirectChildRoot_key [OF n(3) this n(4)] n show ?thesis by blast
qed

definition ex_roots :: root_env where
  "ex_roots = \<lparr>absolute_normal = (\<lambda>p. Some (if starts_with p ''C:'' then p else ''C:'' @ CHR 0x5C # p)),
     mod_folders = [''mods'', ''packages''], is_dir = (\<lambda>p. True), attributes_ok = (\<lambda>p. True), reparse_point = (\<lambda>p. False)\<rparr>"

lemma removal_root_is_child_witness:
  "\<exists>n folder r. NormalizeAbsolutePath ex_roots (''packages'' @ CHR 0x5C # ''My.Mod'') = Some n \<and> folder \<in> set (mod_folders ex_roots) \<and>
    NormalizeAbsolutePath ex_roots folder = Some r \<and> child_key r (PathKey n) \<and> is_dir ex_roots n \<and> \<not> reparse_point ex_roots n"
proof -
  have "absolute_normal ex_roots n = Some n" if "absolute_normal ex_roots p = Some n" for p n
    using that by (auto simp: ex_roots_def starts_with_def split: if_splits)
  moreover have "ValidateRemovalRoot ex_roots (''packages'' @ CHR 0x5C # ''My.Mod'')" by code_simp
  ultimately show ?thesis by (rule removal_root_is_child)
qed

section \<open>Removing\<close>

lemma fs_rename_ok:
  "fs_rename env p q fs = (True, fs') \<Longrightarrow>
     dirs fs' = (dirs fs)(location env p := None, location env q := dirs fs (location env p)) \<and> dirs fs (location env p) \<noteq> None"
  by (auto simp: fs_rename_def Let_def split: if_splits)

lemma fs_rename_failed: "fs_rename env p q fs = (False, fs') \<Longrightarrow> dirs fs' = dirs fs"
  by (auto simp: fs_rename_def Let_def split: if_splits)

lemma remove_job_outside: "\<not> in_job env p \<Longrightarrow> dirs (remove_job env fs) p = dirs fs p"
  by (simp add: remove_job_def Let_def)

lemma create_backups_dirs [simp]: "dirs (snd (create_backups env fs)) = dirs fs"
  by (simp add: create_backups_def)

text \<open>The place of the backup is among the files of the job, the package is not.\<close>

definition job_apart :: "'c remove_env \<Rightarrow> string \<Rightarrow> bool" where
  "job_apart env root \<longleftrightarrow> in_job env (location (base env) (backup_place env)) \<and> \<not> in_job env (location (base env) root)"

text \<open>
  C26: \<open>ExecuteInstalledRemove\<close> removes a package or does not lose it, whatever operations of the file system fail
  and however the reloads end: nothing outside the package and the files of the job changes; on success the package is
  gone; on failure it is in its place as it was, or the caller is told to keep the recovery files and it is in the backup.
\<close>

theorem installed_remove_safe:
  assumes "ExecuteInstalledRemove env root valid cancelled still_valid fs = ((ok, e, keep), fs')" "job_apart env root"
  shows "(\<forall>p. \<not> in_job env p \<and> p \<noteq> location (base env) root \<longrightarrow> dirs fs' p = dirs fs p) \<and>
    (ok \<longrightarrow> dirs fs' (location (base env) root) = None \<and> dirs fs (location (base env) root) \<noteq> None) \<and>
    (\<not> ok \<longrightarrow> dirs fs' (location (base env) root) = dirs fs (location (base env) root) \<or>
      keep \<and> dirs fs' (location (base env) (backup_place env)) = dirs fs (location (base env) root))"
proof -
  let ?L = "location (base env)" and ?b = "backup_place env"
  let ?fs1 = "snd (create_backups env (remove_job env fs))"
  have out: "\<not> in_job env p \<Longrightarrow> dirs ?fs1 p = dirs fs p" for p by (simp add: remove_job_outside)
  have apart: "in_job env (?L ?b)" "\<not> in_job env (?L root)" "?L root \<noteq> ?L ?b" using assms(2) by (auto simp: job_apart_def)
  obtain moved fs2 where m: "fs_rename (base env) root ?b ?fs1 = (moved, fs2)" by fastforce
  obtain bk fs3 where b: "fs_rename (base env) ?b root fs2 = (bk, fs3)" by fastforce
  have m_ok: "moved \<Longrightarrow> dirs fs2 = (dirs ?fs1)(?L root := None, ?L ?b := dirs ?fs1 (?L root)) \<and> dirs ?fs1 (?L root) \<noteq> None"
    using fs_rename_ok [of "base env" root ?b ?fs1 fs2] m by simp
  have m_no: "\<not> moved \<Longrightarrow> dirs fs2 = dirs ?fs1" using fs_rename_failed [of "base env" root ?b ?fs1 fs2] m by simp
  have b_ok: "bk \<Longrightarrow> dirs fs3 = (dirs fs2)(?L ?b := None, ?L root := dirs fs2 (?L ?b))"
    using fs_rename_ok [of "base env" ?b root fs2 fs3] b by simp
  have b_no: "\<not> bk \<Longrightarrow> dirs fs3 = dirs fs2" using fs_rename_failed [of "base env" ?b root fs2 fs3] b by simp
  consider (early) "fs' = fs \<or> dirs fs' = dirs ?fs1" "\<not> ok"
    | (failed) "\<not> moved" "fs' = fs2" "\<not> ok"
    | (removed) "moved" "ok" "fs' = remove_job env fs2"
    | (stuck) "moved" "\<not> bk" "\<not> ok" "keep" "fs' = fs3"
    | (restored) "moved" "bk" "\<not> ok" "fs' = fs3 \<or> fs' = remove_job env fs3"
    using assms(1) m b
    by (auto simp: ExecuteInstalledRemove_def Let_def create_backups_def ReloadAfterRollback_def
        split: if_splits option.splits prod.splits)
  then show ?thesis
  proof cases
    case early
    then show ?thesis using out apart by auto
  next
    case failed
    then show ?thesis using m_no out apart by auto
  next
    case removed
    then show ?thesis using m_ok out apart by (auto simp: remove_job_outside)
  next
    case stuck
    then show ?thesis using m_ok b_no out apart by auto
  next
    case restored
    then show ?thesis using m_ok b_ok out apart by (auto simp: remove_job_outside)
  qed
qed

definition ex_remove :: "(nat \<Rightarrow> bool) \<Rightarrow> string remove_env" where
  "ex_remove fails =
     \<lparr>base = \<lparr>normalize = Some, op_fails = fails, left_over = (\<lambda>n. None), error_text = (\<lambda>n. ''busy''),
        unload_result = Some True, reload_result = (\<lambda>d. Some True), rollback_result = (\<lambda>d. Some True)\<rparr>,
      roots = ex_roots, capture_result = Some True, removal_reload = (\<lambda>d. Some False),
      in_job = (\<lambda>p. starts_with p ''j/''), job_left = (\<lambda>n p. None), backup_place = ''j/b''\<rparr>"

definition ex_installed :: "string dir_state" where
  "ex_installed = \<lparr>dirs = [''p/m'' \<mapsto> ''mod''], fs_ops = 0\<rparr>"

lemma ex_job_apart: "job_apart (ex_remove fails) ''p/m''"
  unfolding job_apart_def by code_simp

lemma installed_remove_safe_witness:
  "\<exists>e keep fs'. ExecuteInstalledRemove (ex_remove (\<lambda>n. n = 3)) ''p/m'' True False True ex_installed = ((False, e, keep), fs') \<and>
     keep \<and> dirs fs' ''j/b'' = Some ''mod'' \<and> dirs fs' ''q'' = None"
proof -
  let ?run = "ExecuteInstalledRemove (ex_remove (\<lambda>n. n = 3)) ''p/m'' True False True ex_installed"
  have v: "fst (fst ?run) = False" "snd (snd (fst ?run)) = True" "dirs (snd ?run) ''p/m'' = None" by code_simp+
  obtain e fs' where run: "?run = ((False, e, True), fs')" using v(1,2) by (metis prod.collapse)
  have L: "location (base (ex_remove (\<lambda>n. n = 3))) ''p/m'' = ''p/m''" "location (base (ex_remove (\<lambda>n. n = 3))) (backup_place (ex_remove (\<lambda>n. n = 3))) = ''j/b''"
    "in_job (ex_remove (\<lambda>n. n = 3)) ''q'' = False" "dirs ex_installed ''p/m'' = Some ''mod''" "dirs ex_installed ''q'' = None" by code_simp+
  have "dirs fs' ''p/m'' = None" using v(3) run by simp
  moreover have "dirs fs' ''q'' = None" "dirs fs' ''p/m'' = Some ''mod'' \<or> dirs fs' ''j/b'' = Some ''mod''"
    using installed_remove_safe [OF run ex_job_apart] L by simp_all
  ultimately show ?thesis using run by auto
qed

text \<open>
  \<open>ExecuteRemove\<close> reports that the removed package was restored without looking whether it was: when moving it back
  fails, the message says so although the package is not in its place.
\<close>

theorem remove_false_report:
  "\<exists>fs'. ExecuteRemove (ex_remove (\<lambda>n. n = 2)) (Some \<lparr>packageRoot = ''p/m'', tp_modId = 7, installedState = None, tp_containedMods = []\<rparr>)
       False True ex_installed = ((False, ''Mod reload failed; removed package was restored''), fs') \<and>
     dirs ex_installed ''p/m'' = Some ''mod'' \<and> dirs fs' ''p/m'' = None"
proof -
  let ?run = "ExecuteRemove (ex_remove (\<lambda>n. n = 2)) (Some \<lparr>packageRoot = ''p/m'', tp_modId = 7, installedState = None, tp_containedMods = []\<rparr>)
    False True ex_installed"
  have "fst ?run = (False, ''Mod reload failed; removed package was restored'')" "dirs ex_installed ''p/m'' = Some ''mod''"
    "dirs (snd ?run) ''p/m'' = None" by code_simp+
  then show ?thesis by (metis prod.collapse)
qed

end
