(* ===== verification/Lzss.thy ===== *)
theory Lzss
  imports BitMem
begin

text \<open>
  The decompressor of network messages, \<open>CLZSS::SafeDecompress\<close> of
  \<open>src/engine/shared/exploit_fixes/exploitfixes_lzss.cpp\<close>, which replaces one of the engine that wrote
  outside its output buffer.
\<close>

text \<open>
  How a call ends: it reads past the end of its input, it leaves its output buffer, or it returns with the
  contents of the output.
\<close>

datatype 'a lzss_result = PastInput | OutsideOutput | Returns 'a "u8 list"

definition LZSS_LOOKSHIFT :: nat where "LZSS_LOOKSHIFT = 4"

definition LZSS_ID :: u32 where "LZSS_ID = 0x53535A4C"

record lzss_header_t =
  header_id :: u32
  actualSize :: u32

definition read_header :: "u8 list \<Rightarrow> lzss_header_t option" where
  "read_header inp = (if length inp < 8 then None else Some \<lparr>header_id = dword_at inp 0, actualSize = dword_at inp 4\<rparr>)"

text \<open>The loop that copies bytes written before, one by one, so that a copy can overlap its source.\<close>

fun copy_back :: "nat \<Rightarrow> nat \<Rightarrow> nat \<Rightarrow> u8 list \<Rightarrow> u8 list option" where
  "copy_back 0 source pos out = Some out"
| "copy_back (Suc n) source pos out =
     (if source < length out \<and> pos < length out
      then copy_back n (Suc source) (Suc pos) (out[pos := out ! source]) else None)"

text \<open>
  The main loop. Its state is the input that is left, \<open>getCmdByte\<close>, \<open>cmdByte\<close>, \<open>totalBytes\<close>, the
  position in the output and the output. It returns \<open>totalBytes\<close> at the end, or \<open>None\<close> if the data
  were refused.
\<close>

function lzss_loop :: "u32 \<Rightarrow> u8 list \<Rightarrow> u32 \<Rightarrow> u32 \<Rightarrow> u32 \<Rightarrow> nat \<Rightarrow> u8 list \<Rightarrow> u32 option lzss_result" where
  "lzss_loop unBufSize inp getCmdByte cmdByte totalBytes pos out =
     (if getCmdByte = 0 \<and> inp = [] then PastInput
      else
        let cmdByte = (if getCmdByte = 0 then ucast (hd inp) else cmdByte);
            inp = (if getCmdByte = 0 then tl inp else inp);
            getCmdByte = (getCmdByte + 1) AND 0x07
        in
          if cmdByte AND 0x01 \<noteq> 0 then
            (case inp of
               b0 # b1 # rest \<Rightarrow>
                 let position = (push_bit LZSS_LOOKSHIFT (ucast b0) OR drop_bit LZSS_LOOKSHIFT (ucast b1)) + 1 :: u32;
                     count = (ucast b1 AND 0x0F) + 1 :: u32
                 in
                   if count = 1 then Returns (Some totalBytes) out
                   else if position > totalBytes then Returns None out
                   else if totalBytes + count > unBufSize then Returns None out
                   else if pos < unat position then OutsideOutput
                   else (case copy_back (unat count) (pos - unat position) pos out of
                       None \<Rightarrow> OutsideOutput
                     | Some out \<Rightarrow> lzss_loop unBufSize rest getCmdByte (drop_bit 1 cmdByte) (totalBytes + count) (pos + unat count) out)
             | _ \<Rightarrow> PastInput)
          else if totalBytes + 1 > unBufSize then Returns None out
          else
            (case inp of
               [] \<Rightarrow> PastInput
             | b # rest \<Rightarrow>
                 if pos < length out
                 then lzss_loop unBufSize rest getCmdByte (drop_bit 1 cmdByte) (totalBytes + 1) (pos + 1) (out[pos := b])
                 else OutsideOutput))"
  by pat_completeness auto

termination
  by (relation "measure (\<lambda>(n, inp, g, c, t, p, out). length inp)")
    (auto split: if_splits dest!: arg_cong [where f = length])

declare lzss_loop.simps [simp del]

text \<open>
  The whole function. The header is read before the pointer is checked, so a null pointer, here \<open>None\<close>,
  is read from as well. A result of zero stands for refused data.
\<close>

definition SafeDecompress :: "u8 list option \<Rightarrow> u8 list \<Rightarrow> u32 \<Rightarrow> u32 lzss_result" where
  "SafeDecompress pInput pOutput unBufSize =
     (case pInput of
        None \<Rightarrow> PastInput
      | Some inp \<Rightarrow>
          (case read_header inp of
             None \<Rightarrow> PastInput
           | Some header \<Rightarrow>
               if actualSize header = 0 \<or> header_id header \<noteq> LZSS_ID \<or> actualSize header > unBufSize then Returns 0 pOutput
               else (case lzss_loop unBufSize (drop 8 inp) 0 0 0 0 pOutput of
                   PastInput \<Rightarrow> PastInput
                 | OutsideOutput \<Rightarrow> OutsideOutput
                 | Returns None out \<Rightarrow> Returns 0 out
                 | Returns (Some totalBytes) out \<Rightarrow> Returns (if totalBytes \<noteq> actualSize header then 0 else totalBytes) out)))"

end
