(* ===== verification/LzssSpec.thy ===== *)
theory LzssSpec
  imports Lzss
begin

text \<open>
  The decompressor never leaves its output buffer, and it decodes what a compressor writes: literal bytes and
  copies of what came before, in groups of eight with a byte that says which is which.
\<close>

section \<open>The output\<close>

lemma copy_back_length: "copy_back n s p out = Some out' \<Longrightarrow> length out' = length out"
  by (induction n s p out rule: copy_back.induct) (auto split: if_splits)

lemma copy_back_some: "s \<le> p \<Longrightarrow> p + n \<le> length out \<Longrightarrow> \<exists>out'. copy_back n s p out = Some out'"
  by (induction n s p out rule: copy_back.induct) auto

lemma copy_back_rest: "copy_back n s p out = Some out' \<Longrightarrow> p + n \<le> k \<Longrightarrow> drop k out' = drop k out"
  by (induction n s p out rule: copy_back.induct) (auto split: if_splits)

lemma copy_count:
  "unat ((ucast (b :: u8) AND 0x0F) + 1 :: u32) = unat (ucast b AND 0x0F :: u32) + 1" "unat (ucast b AND 0x0F :: u32) \<le> 15"
proof -
  have "ucast b AND 0x0F \<le> (0x0F :: u32)" by (rule word_and_le1)
  then show "unat (ucast b AND 0x0F :: u32) \<le> 15" by (simp add: word_le_nat_alt)
  then show "unat ((ucast b AND 0x0F) + 1 :: u32) = unat (ucast b AND 0x0F :: u32) + 1"
    by (simp add: unat_word_ariths)
qed

text \<open>What one turn of the loop does.\<close>

lemma lzss_turn:
  obtains
    (past) "lzss_loop lim inp g c t pos out = PastInput"
  | (refused) "lzss_loop lim inp g c t pos out = Returns None out"
  | (over) "lzss_loop lim inp g c t pos out = Returns (Some t) out"
  | (literal) b rest g' c' where "length rest < length inp" "t + 1 \<le> lim"
      "lzss_loop lim inp g c t pos out =
        (if pos < length out then lzss_loop lim rest g' c' (t + 1) (pos + 1) (out[pos := b]) else OutsideOutput)"
  | (copy) n position rest g' c' where "length rest < length inp" "1 \<le> n" "n \<le> 15" "position \<le> t" "position \<noteq> 0" "t + (of_nat n + 1) \<le> lim"
      "lzss_loop lim inp g c t pos out =
        (if pos < unat position then OutsideOutput
         else case copy_back (n + 1) (pos - unat position) pos out of
             None \<Rightarrow> OutsideOutput
           | Some out' \<Rightarrow> lzss_loop lim rest g' c' (t + (of_nat n + 1)) (pos + (n + 1)) out')"
proof -
  let ?cmd = "if g = 0 then ucast (hd inp) else c" and ?inp = "if g = 0 then tl inp else inp"
  consider (none) "g = 0 \<and> inp = []" | (lit) "\<not> (g = 0 \<and> inp = [])" "?cmd AND 1 = 0" | (cpy) "\<not> (g = 0 \<and> inp = [])" "?cmd AND 1 \<noteq> 0"
    by blast
  then show thesis
  proof cases
    case none
    then show ?thesis by (intro past) (subst lzss_loop.simps, simp)
  next
    case lit
    show ?thesis
    proof (cases "t + 1 > lim")
      case True
      then show ?thesis using lit by (intro refused) (subst lzss_loop.simps, simp)
    next
      case False
      show ?thesis
      proof (cases ?inp)
        case Nil
        then show ?thesis using lit False by (intro past) (subst lzss_loop.simps, simp)
      next
        case (Cons b rest)
        then have "length rest < length inp" by (metis Suc_n_not_le_n leI length_Cons length_tl diff_le_self le_trans)
        moreover have "t + 1 \<le> lim" using False by simp
        moreover have "lzss_loop lim inp g c t pos out =
          (if pos < length out then lzss_loop lim rest ((g + 1) AND 7) (drop_bit 1 ?cmd) (t + 1) (pos + 1) (out[pos := b]) else OutsideOutput)"
          using lit False Cons by (subst lzss_loop.simps) (simp only: Let_def if_False if_True list.case, simp)
        ultimately show ?thesis by (rule literal)
      qed
    qed
  next
    case cpy
    show ?thesis
    proof (cases "\<exists>b0 b1 rest. ?inp = b0 # b1 # rest")
      case False
      then have "?inp = [] \<or> (\<exists>x. ?inp = [x])" by (cases ?inp; cases "tl ?inp") auto
      then show ?thesis using cpy by (intro past) (subst lzss_loop.simps, elim disjE exE; simp only: Let_def if_False if_True list.case, simp)
    next
      case True
      then obtain b0 b1 rest where inp: "?inp = b0 # b1 # rest" by blast
      then have len: "length rest < length inp" by (auto split: if_splits dest: arg_cong [where f = length])
      define position where "position = ((push_bit LZSS_LOOKSHIFT (ucast b0) OR drop_bit LZSS_LOOKSHIFT (ucast b1)) + 1 :: u32)"
      define count where "count = ((ucast b1 AND 0x0F) + 1 :: u32)"
      define n where "n = unat (ucast b1 AND 0x0F :: u32)"
      have n: "unat count = n + 1" "n \<le> 15" "count = of_nat n + 1" using copy_count [of b1] by (simp_all add: count_def n_def)
      have eq: "lzss_loop lim inp g c t pos out =
         (if count = 1 then Returns (Some t) out else if position > t then Returns None out else if t + count > lim then Returns None out
          else if pos < unat position then OutsideOutput
          else case copy_back (unat count) (pos - unat position) pos out of
              None \<Rightarrow> OutsideOutput
            | Some out \<Rightarrow> lzss_loop lim rest ((g + 1) AND 7) (drop_bit 1 ?cmd) (t + count) (pos + unat count) out)"
        using cpy inp unfolding position_def count_def
        by (subst lzss_loop.simps) (simp only: Let_def if_False if_True list.case, simp only: simp_thms if_False if_True)
      have "position \<noteq> 0"
      proof
        assume "position = 0"
        then have "push_bit LZSS_LOOKSHIFT (ucast b0) OR drop_bit LZSS_LOOKSHIFT (ucast b1) = (-1 :: u32)"
          unfolding position_def by (rule eq_neg_iff_add_eq_0 [THEN iffD2])
        then have "bit (push_bit LZSS_LOOKSHIFT (ucast b0) OR drop_bit LZSS_LOOKSHIFT (ucast b1) :: u32) 31" by simp
        then show False using bit_imp_le_length [of b0 27] bit_imp_le_length [of b1 35]
          by (auto simp: bit_simps LZSS_LOOKSHIFT_def)
      qed
      show ?thesis
      proof (cases "count = 1 \<or> position > t \<or> t + count > lim")
        case True
        then show ?thesis using eq over refused by (metis (full_types))
      next
        case False
        then have no: "(count = 1) = False" "(position > t) = False" "(t + count > lim) = False" by simp_all
        have "1 \<le> n" using no(1) n(3) by (cases n) auto
        moreover have "position \<le> t" "t + (of_nat n + 1) \<le> lim" using no(2,3) n(3) by (simp_all add: not_less)
        moreover have "lzss_loop lim inp g c t pos out =
            (if pos < unat position then OutsideOutput
             else case copy_back (n + 1) (pos - unat position) pos out of
                 None \<Rightarrow> OutsideOutput
               | Some out' \<Rightarrow> lzss_loop lim rest ((g + 1) AND 7) (drop_bit 1 ?cmd) (t + (of_nat n + 1)) (pos + (n + 1)) out')"
          using eq unfolding no if_False n(1) by (simp only: n(3))
        ultimately show ?thesis using copy [OF len _ n(2)] \<open>position \<noteq> 0\<close> by blast
      qed
    qed
  qed
qed

text \<open>
  From a position that is the number of bytes written and within the limit, the loop stays in the output,
  and changes nothing behind the limit.
\<close>

definition stays :: "u32 \<Rightarrow> u8 list \<Rightarrow> 'a lzss_result \<Rightarrow> bool" where
  "stays lim out r \<longleftrightarrow>
     (case r of PastInput \<Rightarrow> True | OutsideOutput \<Rightarrow> False
      | Returns x out' \<Rightarrow> length out' = length out \<and> drop (unat lim) out' = drop (unat lim) out)"

lemma lzss_loop_safe:
  "unat lim + 16 < 2 ^ 32 \<Longrightarrow> pos = unat t \<Longrightarrow> t \<le> lim \<Longrightarrow> unat lim \<le> length out \<Longrightarrow> stays lim out (lzss_loop lim inp g c t pos out)"
proof (induction inp arbitrary: g c t pos out rule: measure_induct_rule [where f = length])
  case (less inp)
  show ?case
  proof (cases rule: lzss_turn [of lim inp g c t pos out])
    case past
    then show ?thesis by (simp add: stays_def)
  next
    case refused
    then show ?thesis by (simp add: stays_def)
  next
    case over
    then show ?thesis by (simp add: stays_def)
  next
    case (literal b rest g' c')
    have t: "unat (t + 1) = unat t + 1" using less.prems(1,3) by (simp add: unat_word_ariths word_le_nat_alt)
    then have pos: "pos < unat lim" using literal(2) less.prems(2) by (simp add: word_le_nat_alt)
    have "stays lim (out[pos := b]) (lzss_loop lim rest g' c' (t + 1) (pos + 1) (out[pos := b]))"
      using less.IH [OF literal(1) less.prems(1) _ literal(2)] t less.prems(2,4) by simp
    then show ?thesis using literal(3) pos less.prems(4) by (simp add: stays_def drop_update_cancel split: lzss_result.splits)
  next
    case (copy n position rest g' c')
    have t: "unat (t + (of_nat n + 1)) = unat t + (n + 1)"
      using less.prems(1,3) copy(3) by (simp add: unat_word_ariths word_le_nat_alt unat_of_nat)
    then have pos: "pos + (n + 1) \<le> unat lim" "unat position \<le> pos" using copy(4,6) less.prems(2) by (simp_all add: word_le_nat_alt)
    obtain out' where out': "copy_back (n + 1) (pos - unat position) pos out = Some out'"
      using copy_back_some [of "pos - unat position" pos "n + 1" out] pos less.prems(4) by auto
    have l: "length out' = length out" "drop (unat lim) out' = drop (unat lim) out"
      using copy_back_length [OF out'] copy_back_rest [OF out' pos(1)] by simp_all
    have "stays lim out' (lzss_loop lim rest g' c' (t + (of_nat n + 1)) (pos + (n + 1)) out')"
      using less.IH [OF copy(1) less.prems(1) _ copy(6)] t less.prems(2,4) l(1) by simp
    then show ?thesis using copy(7) out' pos(2) l by (simp add: stays_def split: lzss_result.splits)
  qed
qed

text \<open>
  C27: \<open>SafeDecompress\<close> never leaves its output buffer, whatever the message holds, if the buffer is as large as it is said
  to be and not within 16 bytes of four gigabytes, where \<open>totalBytes\<close> can wrap around: it returns, having changed nothing
  behind the buffer, or it reads past the end of its input.
\<close>

theorem decompress_stays_in_output:
  assumes "unat unBufSize + 16 < 2 ^ 32" "unat unBufSize \<le> length pOutput"
  shows "stays unBufSize pOutput (SafeDecompress pInput pOutput unBufSize)"
proof -
  have "stays unBufSize pOutput (SafeDecompress (Some inp) pOutput unBufSize)" for inp
  proof -
    let ?r = "lzss_loop unBufSize (drop 8 inp) 0 0 0 0 pOutput"
    have "stays unBufSize pOutput ?r" using lzss_loop_safe [OF assms(1), of 0 0 pOutput "drop 8 inp" 0 0] assms(2) by simp
    then show ?thesis
      by (cases ?r) (auto simp: SafeDecompress_def stays_def split: option.split)
  qed
  moreover have "stays unBufSize pOutput (SafeDecompress None pOutput unBufSize)" by (simp add: SafeDecompress_def stays_def)
  ultimately show ?thesis by (cases pInput) simp_all
qed

theorem decompress_stays_in_output_witness:
  "let message = [0x4C, 0x5A, 0x53, 0x53, 3, 0, 0, 0, 8, 65, 66, 67, 0, 0]
   in stays 4 [9, 9, 9, 9] (SafeDecompress (Some message) [9, 9, 9, 9] 4)
     \<and> SafeDecompress (Some message) [9, 9, 9, 9] 4 = Returns 3 [65, 66, 67, 9]
     \<and> SafeDecompress (Some message) [9, 9] 2 = Returns 0 [9, 9]"
proof -
  have "stays 4 [9, 9, 9, 9] (SafeDecompress (Some [0x4C, 0x5A, 0x53, 0x53, 3, 0, 0, 0, 8, 65, 66, 67, 0, 0]) [9, 9, 9, 9] 4)"
    by (rule decompress_stays_in_output) simp_all
  then show ?thesis unfolding Let_def by (intro conjI) (assumption, code_simp+)
qed

section \<open>What a compressor writes\<close>

text \<open>
  A message is a sequence of tokens: a byte, a copy of \<open>n\<close> bytes from \<open>p\<close> bytes back, and the end.
  \<open>expand\<close> is what they stand for, \<open>fits\<close> what a compressor may write.
\<close>

datatype token = Literal u8 | Copy nat nat | Stop

fun repeat_back :: "nat \<Rightarrow> nat \<Rightarrow> u8 list \<Rightarrow> u8 list" where
  "repeat_back p 0 data = data"
| "repeat_back p (Suc n) data = repeat_back p n (data @ [data ! (length data - p)])"

fun expand :: "token list \<Rightarrow> u8 list \<Rightarrow> u8 list" where
  "expand [] data = data"
| "expand (Literal b # ts) data = expand ts (data @ [b])"
| "expand (Copy p n # ts) data = expand ts (repeat_back p n data)"
| "expand (Stop # ts) data = data"

fun fits :: "token list \<Rightarrow> u8 list \<Rightarrow> bool" where
  "fits [] data = False"
| "fits (Literal b # ts) data = fits ts (data @ [b])"
| "fits (Copy p n # ts) data =
     (1 \<le> p \<and> p \<le> 4096 \<and> p \<le> length data \<and> 2 \<le> n \<and> n \<le> 16 \<and> fits ts (repeat_back p n data))"
| "fits (Stop # ts) data = True"

text \<open>The layout: a byte of flags, one for each of the eight tokens that follow it, the lowest bit first.\<close>

fun token_bytes :: "token \<Rightarrow> u8 list" where
  "token_bytes (Literal b) = [b]"
| "token_bytes (Copy p n) = [of_nat ((p - 1) div 16), of_nat ((p - 1) mod 16 * 16 + (n - 1))]"
| "token_bytes Stop = [0, 0]"

fun flags :: "token list \<Rightarrow> nat" where
  "flags [] = 0"
| "flags (Literal b # ts) = 2 * flags ts"
| "flags (t # ts) = 1 + 2 * flags ts"

function groups :: "token list \<Rightarrow> u8 list" where
  "groups ts =
     (if ts = [] then []
      else of_nat (flags (take 8 ts)) # concat (map token_bytes (take 8 ts)) @ groups (drop 8 ts))"
  by pat_completeness auto

termination by (relation "measure length") auto

declare groups.simps [simp del]

definition message :: "token list \<Rightarrow> u8 list" where
  "message ts = dword_bytes LZSS_ID @ dword_bytes (of_nat (length (expand ts []))) @ groups ts"

section \<open>Round trip\<close>

lemma length_repeat_back [simp]: "length (repeat_back p n data) = length data + n"
  by (induction n arbitrary: data) auto

lemma expand_grows: "length data \<le> length (expand ts data)"
  by (induction ts data rule: expand.induct) auto

lemma copy_back_repeat:
  "1 \<le> q \<Longrightarrow> q \<le> length data \<Longrightarrow> n \<le> length rest \<Longrightarrow>
   copy_back n (length data - q) (length data) (data @ rest) = Some (repeat_back q n data @ drop n rest)"
proof (induction n arbitrary: data rest)
  case (Suc n)
  then obtain r rest' where rest: "rest = r # rest'" by (cases rest) auto
  have "length data - q < length data" using Suc.prems by arith
  then
  have "(data @ rest)[length data := (data @ rest) ! (length data - q)] = (data @ [data ! (length data - q)]) @ rest'"
    using Suc.prems rest by (simp add: nth_append)
  moreover have "Suc (length data - q) = length (data @ [data ! (length data - q)]) - q" using Suc.prems by simp
  ultimately show ?case using Suc.IH [of "data @ [data ! (length data - q)]" rest'] Suc.prems rest by simp
qed simp

lemma flags_less: "flags ts < 2 ^ length ts"
  by (induction ts rule: flags.induct) auto

text \<open>The flags of at most eight tokens, read from the lowest bit.\<close>

lemma flag_word:
  assumes "n < 256"
  shows "ucast (of_nat n :: u8) = (of_nat n :: u32)" "drop_bit 1 (of_nat n :: u32) = of_nat (n div 2)" "(of_nat n :: u32) AND 1 = of_nat (n mod 2)"
proof -
  have n: "unat (of_nat n :: u32) = n" "unat (of_nat n :: u8) = n" using assms by (simp_all add: unat_of_nat)
  show "ucast (of_nat n :: u8) = (of_nat n :: u32)" using assms by (simp add: word_unat_eq_iff n unsigned_ucast_eq take_bit_nat_eq_self)
  have "n < 2 ^ 32" "n div 2 < 2 ^ 32" using assms by simp_all
  then show "drop_bit 1 (of_nat n :: u32) = of_nat (n div 2)"
    by (simp add: word_unat_eq_iff drop_bit_eq_div unat_div n unat_of_nat)
  show "(of_nat n :: u32) AND 1 = of_nat (n mod 2)" using \<open>n < 2 ^ 32\<close> by (simp add: word_unat_eq_iff and_one_eq unat_mod n unat_of_nat)
qed
text \<open>The loop after the command byte has been read, for each kind of token.\<close>

definition turn :: "u32 \<Rightarrow> u8 list \<Rightarrow> u32 \<Rightarrow> u32 \<Rightarrow> u32 \<Rightarrow> nat \<Rightarrow> u8 list \<Rightarrow> u32 option lzss_result" where
  "turn lim inp g c t pos out =
     (if c AND 0x01 \<noteq> 0 then
        (case inp of
           b0 # b1 # rest \<Rightarrow>
             let position = (push_bit LZSS_LOOKSHIFT (ucast b0) OR drop_bit LZSS_LOOKSHIFT (ucast b1)) + 1 :: u32;
                 count = (ucast b1 AND 0x0F) + 1 :: u32
             in
               if count = 1 then Returns (Some t) out
               else if position > t then Returns None out
               else if t + count > lim then Returns None out
               else if pos < unat position then OutsideOutput
               else (case copy_back (unat count) (pos - unat position) pos out of
                   None \<Rightarrow> OutsideOutput
                 | Some out \<Rightarrow> lzss_loop lim rest g (drop_bit 1 c) (t + count) (pos + unat count) out)
         | _ \<Rightarrow> PastInput)
      else if t + 1 > lim then Returns None out
      else
        (case inp of
           [] \<Rightarrow> PastInput
         | b # rest \<Rightarrow>
             if pos < length out then lzss_loop lim rest g (drop_bit 1 c) (t + 1) (pos + 1) (out[pos := b])
             else OutsideOutput))"

lemma lzss_loop_turn:
  "lzss_loop lim inp g c t pos out =
     (if g = 0 \<and> inp = [] then PastInput
      else turn lim (if g = 0 then tl inp else inp) ((g + 1) AND 0x07) (if g = 0 then ucast (hd inp) else c) t pos out)"
  by (subst lzss_loop.simps) (simp only: turn_def Let_def)

text \<open>The input when \<open>k\<close> tokens of a group are left.\<close>

definition inside :: "nat \<Rightarrow> token list \<Rightarrow> u8 list" where
  "inside k ts = concat (map token_bytes (take k ts)) @ groups (drop k ts)"

definition next_group :: "nat \<Rightarrow> u32" where "next_group k = of_nat ((8 - k) mod 8)"

lemma flags_take: "k \<le> 8 \<Longrightarrow> flags (take k ts) < 256"
proof -
  assume "k \<le> 8"
  then have "(2 :: nat) ^ length (take k ts) \<le> 2 ^ 8" by (intro power_increasing) simp_all
  then show ?thesis using flags_less [of "take k ts"] by simp
qed

lemma inside_Suc: "inside (Suc k) (t # ts) = token_bytes t @ inside k ts"
  by (simp add: inside_def)

lemma loop_inside:
  assumes "k \<le> 7"
  obtains m where "m \<le> 7"
    "\<And>c t pos out. lzss_loop lim (inside k (tk # ts) @ junk) (next_group k) (if k = 0 then c else of_nat (flags (take k (tk # ts)))) t pos out =
       turn lim (token_bytes tk @ inside m ts @ junk) (next_group m) (of_nat (flags (tk # take m ts))) t pos out"
proof (cases k)
  case 0
  let ?f = "flags (tk # take 7 ts)"
  have t8: "take 8 (tk # ts) = tk # take 7 ts" "drop 8 (tk # ts) = drop 7 ts" by (simp_all add: numeral_eq_Suc)
  have in0: "inside 0 (tk # ts) = of_nat ?f # token_bytes tk @ inside 7 ts"
    by (simp add: inside_def groups.simps [of "tk # ts"] t8)
  have "?f < 256" using flags_take [of 8 "tk # ts"] by (simp only: t8)
  then have f: "ucast (of_nat ?f :: u8) = (of_nat ?f :: u32)" by (rule flag_word)
  have "lzss_loop lim (inside 0 (tk # ts) @ junk) (next_group 0) c t pos out =
     turn lim (token_bytes tk @ inside 7 ts @ junk) (next_group 7) (of_nat ?f) t pos out" for c t pos out
    unfolding in0 next_group_def by (subst lzss_loop_turn) (simp only: append_Cons append_assoc list.sel list.distinct f, simp)
  then show ?thesis using 0 by (intro that [of 7]) simp_all
next
  case (Suc m)
  have m: "m = 0 \<or> m = 1 \<or> m = 2 \<or> m = 3 \<or> m = 4 \<or> m = 5 \<or> m = 6" using assms Suc by arith
  have g: "next_group (Suc m) \<noteq> 0" "(next_group (Suc m) + 1) AND 7 = next_group m"
    using m by (elim disjE; simp add: next_group_def)+
  have "lzss_loop lim (inside (Suc m) (tk # ts) @ junk) (next_group (Suc m)) c t pos out =
     turn lim (token_bytes tk @ inside m ts @ junk) (next_group m) c t pos out" for c t pos out
    by (subst lzss_loop_turn) (simp only: g simp_thms if_False inside_Suc append_assoc)
  then show ?thesis using Suc assms by (intro that [of m]) simp_all
qed

lemma flags_small: "m \<le> 7 \<Longrightarrow> flags (t # take m ts) < 256"
  using flags_take [of "Suc m" "t # ts"] by simp
text \<open>The two bytes of a copy give the distance and the count back.\<close>

lemma copy_bytes:
  assumes "1 \<le> p" "p \<le> 4096" "2 \<le> n" "n \<le> 16"
  shows "push_bit LZSS_LOOKSHIFT (ucast (of_nat ((p - 1) div 16) :: u8)) OR
           drop_bit LZSS_LOOKSHIFT (ucast (of_nat ((p - 1) mod 16 * 16 + (n - 1)) :: u8)) = (of_nat (p - 1) :: u32)"
    "(ucast (of_nat ((p - 1) mod 16 * 16 + (n - 1)) :: u8) AND 0x0F :: u32) = of_nat (n - 1)"
proof -
  define h l where "h = (p - 1) div 16" and "l = (p - 1) mod 16"
  have hl: "h < 256" "l < 16" "p - 1 = 16 * h + l" using assms(1,2) by (auto simp: h_def l_def)
  have h: "ucast (of_nat h :: u8) = (of_nat h :: u32)" by (rule flag_word) (rule hl)
  have b: "l * 16 + (n - 1) < 256" using hl(2) assms(4) by simp
  have l: "ucast (of_nat (l * 16 + (n - 1)) :: u8) = (of_nat (l * 16 + (n - 1)) :: u32)" using b by (rule flag_word)
  have u: "unat (of_nat x :: u32) = x" if "x < 256" for x using that by (simp add: unat_of_nat)
  have d: "drop_bit 4 (of_nat (l * 16 + (n - 1)) :: u32) = of_nat l"
    using b hl(2) assms(4) by (simp add: word_unat_eq_iff drop_bit_eq_div unat_div u del: of_nat_add of_nat_mult)
  have "push_bit 4 (of_nat h :: u32) = of_nat (16 * h)" by (simp add: push_bit_eq_mult)
  moreover have "(of_nat (16 * h) :: u32) AND of_nat l = 0"
  proof (rule bit_word_eqI)
    fix i
    show "bit ((of_nat (16 * h) :: u32) AND of_nat l) i = bit (0 :: u32) i"
    proof (cases "i < 4")
      case True
      then have "\<not> bit (of_nat (16 * h) :: u32) i" using \<open>push_bit 4 (of_nat h) = _\<close> [symmetric] by (simp add: bit_simps)
      then show ?thesis by (simp add: bit_simps)
    next
      case False
      have "\<not> bit l i"
      proof
        assume "bit l i"
        then have "2 ^ i \<le> l" by (auto simp: bit_iff_odd intro: ccontr)
        moreover have "(2 :: nat) ^ 4 \<le> 2 ^ i" using False by (intro power_increasing) simp_all
        ultimately show False using hl(2) by simp
      qed
      then show ?thesis by (simp add: bit_simps bit_of_nat_iff)
    qed
  qed
  ultimately have "push_bit 4 (of_nat h :: u32) OR of_nat l = of_nat (16 * h) + of_nat l"
    by (simp add: disjunctive_add_eq_or)
  then show "push_bit LZSS_LOOKSHIFT (ucast (of_nat ((p - 1) div 16) :: u8)) OR
           drop_bit LZSS_LOOKSHIFT (ucast (of_nat ((p - 1) mod 16 * 16 + (n - 1)) :: u8)) = (of_nat (p - 1) :: u32)"
    unfolding h_def [symmetric] l_def [symmetric] h l LZSS_LOOKSHIFT_def d by (simp only: hl(3) of_nat_add)
  have "x AND 0x0F = take_bit 4 x" for x :: u32 by (simp add: take_bit_eq_mask mask_eq_exp_minus_1)
  then have "(of_nat (l * 16 + (n - 1)) AND 0x0F :: u32) = of_nat (n - 1)"
    using b assms(4) by (simp add: word_unat_eq_iff u unat_mod take_bit_eq_mod del: of_nat_add of_nat_mult)
  then show "(ucast (of_nat ((p - 1) mod 16 * 16 + (n - 1)) :: u8) AND 0x0F :: u32) = of_nat (n - 1)"
    unfolding l_def [symmetric] l .
qed
text \<open>Each token, read by a turn of the loop.\<close>

lemma turn_Literal:
  assumes "2 * f < 256" "t + 1 \<le> lim" "pos < length out"
  shows "turn lim (token_bytes (Literal b) @ inp) g (of_nat (2 * f)) t pos out = lzss_loop lim inp g (of_nat f) (t + 1) (pos + 1) (out[pos := b])"
proof -
  have "(of_nat (2 * f) :: u32) AND 1 = 0" "drop_bit 1 (of_nat (2 * f) :: u32) = of_nat f"
    using flag_word(2,3) [OF assms(1)] by simp_all
  moreover have "\<not> t + 1 > lim" using assms(2) by (simp only: not_less)
  ultimately show ?thesis using assms(3) by (simp add: turn_def del: of_nat_mult)
qed

lemma turn_Stop:
  assumes "1 + 2 * f < 256"
  shows "turn lim (token_bytes Stop @ inp) g (of_nat (1 + 2 * f)) t pos out = Returns (Some t) out"
proof -
  have "(of_nat (1 + 2 * f) :: u32) AND 1 = 1" using flag_word(3) [OF assms] by simp
  then show ?thesis by (simp add: turn_def del: of_nat_mult of_nat_add of_nat_Suc)
qed

lemma turn_Copy:
  assumes "1 + 2 * f < 256" and p: "1 \<le> p" "p \<le> 4096" "2 \<le> n" "n \<le> 16"
    and t: "t = of_nat pos" "p \<le> pos" "pos + n \<le> unat lim" "copy_back n (pos - p) pos out = Some out'"
  shows "turn lim (token_bytes (Copy p n) @ inp) g (of_nat (1 + 2 * f)) t pos out = lzss_loop lim inp g (of_nat f) (t + of_nat n) (pos + n) out'"
proof -
  have f: "(of_nat (1 + 2 * f) :: u32) AND 1 \<noteq> 0" "drop_bit 1 (of_nat (1 + 2 * f) :: u32) = of_nat f"
    using flag_word(2,3) [OF assms(1)] by simp_all
  have less: "pos + n < 2 ^ 32" using t(3) unsigned_less [of lim, where 'a = nat] by simp
  then have u: "unat (of_nat x :: u32) = x" if "x \<le> pos + n" for x using that by (simp add: unat_of_nat)
  have p1: "of_nat (p - 1) + 1 = (of_nat p :: u32)" "of_nat (n - 1) + 1 = (of_nat n :: u32)" using p(1,3) by (simp_all add: of_nat_diff)
  have "unat (of_nat p :: u32) = p" "unat (of_nat n :: u32) = n" "unat (of_nat pos :: u32) = pos" "unat (of_nat (pos + n) :: u32) = pos + n"
    using t(2) by (simp_all only: u)
  then have no: "(of_nat n = (1 :: u32)) = False" "(of_nat p > (of_nat pos :: u32)) = False" "(of_nat pos + of_nat n > lim) = False"
    using p(3) t(2,3) by (simp_all add: word_unat_eq_iff word_less_nat_alt flip: of_nat_add)
  have np: "(pos < p) = False" using t(2) by simp
  show ?thesis
    unfolding turn_def token_bytes.simps append_Cons append_Nil list.case Let_def copy_bytes [OF p] f(2) p1 t(1) no
      \<open>unat (of_nat p :: u32) = p\<close> \<open>unat (of_nat n :: u32) = n\<close> np t(4) option.case
    by (simp only: f(1) if_False if_True simp_thms)
qed

text \<open>The loop decodes the rest of a message to the rest of the data.\<close>

lemma loop_decodes:
  assumes "k \<le> 7" "fits ts data" "length (expand ts data) \<le> unat lim" "length (expand ts data) \<le> length data + length rest"
  shows "lzss_loop lim (inside k ts @ junk) (next_group k) (if k = 0 then c else of_nat (flags (take k ts))) (of_nat (length data)) (length data) (data @ rest)
    = Returns (Some (of_nat (length (expand ts data)))) (expand ts data @ drop (length (expand ts data) - length data) rest)"
  using assms
proof (induction ts data arbitrary: k c rest rule: fits.induct)
  case (2 b ts data)
  obtain m where m: "m \<le> 7" "\<And>c t pos out. lzss_loop lim (inside k (Literal b # ts) @ junk) (next_group k) (if k = 0 then c else of_nat (flags (take k (Literal b # ts)))) t pos out =
       turn lim (token_bytes (Literal b) @ inside m ts @ junk) (next_group m) (of_nat (flags (Literal b # take m ts))) t pos out"
    using loop_inside [OF 2(2)] by blast
  have len: "length data < length (expand ts (data @ [b]))" using expand_grows [of "data @ [b]" ts] by simp
  then obtain r rest' where rest: "rest = r # rest'" using 2(5) by (cases rest) auto
  have "2 * flags (take m ts) < 256" using flags_small [OF m(1), of "Literal b" ts] by simp
  moreover have "of_nat (length data) + 1 \<le> lim"
    using len 2(4) unsigned_less [of lim, where 'a = nat] by (simp add: word_le_nat_alt unat_word_ariths unat_of_nat)
  ultimately have "turn lim (token_bytes (Literal b) @ inside m ts @ junk) (next_group m) (of_nat (flags (Literal b # take m ts))) (of_nat (length data)) (length data) (data @ rest)
    = lzss_loop lim (inside m ts @ junk) (next_group m) (if m = 0 then 0 else of_nat (flags (take m ts))) (of_nat (length (data @ [b]))) (length (data @ [b])) ((data @ [b]) @ rest')"
    using turn_Literal [of "flags (take m ts)" "of_nat (length data)" lim "length data" "data @ rest" b] rest by (auto simp: add.commute)
  then show ?case using m(2) 2(1) [OF m(1)] 2(3,4,5) rest len by (simp flip: Suc_diff_Suc)
next
  case (3 p n ts data)
  let ?data = "repeat_back p n data"
  obtain m where m: "m \<le> 7" "\<And>c t pos out. lzss_loop lim (inside k (Copy p n # ts) @ junk) (next_group k) (if k = 0 then c else of_nat (flags (take k (Copy p n # ts)))) t pos out =
       turn lim (token_bytes (Copy p n) @ inside m ts @ junk) (next_group m) (of_nat (flags (Copy p n # take m ts))) t pos out"
    using loop_inside [OF 3(2)] by blast
  have p: "1 \<le> p" "p \<le> 4096" "2 \<le> n" "n \<le> 16" "p \<le> length data" "fits ts ?data" using 3(3) by auto
  have len: "length data + n \<le> length (expand ts ?data)" using expand_grows [of ?data ts] by simp
  have "1 + 2 * flags (take m ts) < 256" using flags_small [OF m(1), of "Copy p n" ts] by simp
  moreover have "copy_back n (length data - p) (length data) (data @ rest) = Some (?data @ drop n rest)"
    using copy_back_repeat [OF p(1,5)] len 3(5) by simp
  ultimately have "turn lim (token_bytes (Copy p n) @ inside m ts @ junk) (next_group m) (of_nat (flags (Copy p n # take m ts))) (of_nat (length data)) (length data) (data @ rest)
    = lzss_loop lim (inside m ts @ junk) (next_group m) (if m = 0 then 0 else of_nat (flags (take m ts))) (of_nat (length ?data)) (length ?data) (?data @ drop n rest)"
    using turn_Copy [OF _ p(1-4) refl p(5), of "flags (take m ts)" lim "data @ rest" "?data @ drop n rest"] len 3(4) by auto
  then show ?case using m(2) 3(1) [OF m(1) p(6)] 3(4,5) len by simp
next
  case (4 ts data)
  obtain m where m: "m \<le> 7" "\<And>c t pos out. lzss_loop lim (inside k (Stop # ts) @ junk) (next_group k) (if k = 0 then c else of_nat (flags (take k (Stop # ts)))) t pos out =
       turn lim (token_bytes Stop @ inside m ts @ junk) (next_group m) (of_nat (flags (Stop # take m ts))) t pos out"
    using loop_inside [OF 4(1)] by blast
  have "1 + 2 * flags (take m ts) < 256" using flags_small [OF m(1), of "Stop" ts] by simp
  then show ?case using m(2) turn_Stop by simp
qed simp
lemma length_dword_bytes [simp]: "length (dword_bytes v) = 4" by (simp add: dword_bytes_def)

lemma dword_at_dword_bytes: "dword_at (pre @ dword_bytes v @ xs) (length pre) = v"
proof (rule bit_word_eqI)
  fix i
  assume i: "i < LENGTH(32)"
  have q: "i div 8 < 4" using i by simp
  have nth: "dword_bytes v ! k = ucast (drop_bit (8 * k) v)" if "k < 4" for k
    using less_4_cases [OF that] by (elim disjE) (simp_all add: dword_bytes_def)
  have "i mod 8 < 8" by simp
  then have "bit (dword_bytes v ! (i div 8)) (i mod 8) = bit v i"
    unfolding nth [OF q] by (simp add: bit_simps)
  then show "bit (dword_at (pre @ dword_bytes v @ xs) (length pre)) i = bit v i"
    using i q by (simp add: bit_dword_at nth_append)
qed

lemma read_message:
  assumes "length (expand ts []) < 2 ^ 32"
  shows "read_header (message ts @ junk) = Some \<lparr>header_id = LZSS_ID, actualSize = of_nat (length (expand ts []))\<rparr>"
    "drop 8 (message ts @ junk) = groups ts @ junk"
proof -
  have "dword_at (message ts @ junk) 0 = LZSS_ID"
    using dword_at_dword_bytes [of "[]" LZSS_ID] by (simp add: message_def)
  moreover have "dword_at (message ts @ junk) 4 = of_nat (length (expand ts []))"
    using dword_at_dword_bytes [of "dword_bytes LZSS_ID" "of_nat (length (expand ts []))" "groups ts @ junk"] by (simp add: message_def)
  ultimately show "read_header (message ts @ junk) = Some \<lparr>header_id = LZSS_ID, actualSize = of_nat (length (expand ts []))\<rparr>"
    by (simp add: read_header_def) (simp add: message_def)
  show "drop 8 (message ts @ junk) = groups ts @ junk" by (simp add: message_def dword_bytes_def)
qed

text \<open>
  C28: a message of a compressor is decoded to the data it stands for, whatever follows it: if the data fit into the
  buffer and are not empty, \<open>SafeDecompress\<close> returns their number, and they are at the start of the buffer, whose rest is
  as before.
\<close>

theorem decompress_of_message:
  assumes "fits ts []" "expand ts [] \<noteq> []" "length (expand ts []) \<le> unat unBufSize" "unat unBufSize \<le> length pOutput"
  shows "SafeDecompress (Some (message ts @ junk)) pOutput unBufSize =
    Returns (of_nat (length (expand ts []))) (expand ts [] @ drop (length (expand ts [])) pOutput)"
proof -
  let ?n = "length (expand ts [])"
  have less: "?n < 2 ^ 32" using assms(3) unsigned_less [of unBufSize, where 'a = nat] by simp
  then have u: "unat (of_nat ?n :: u32) = ?n" by (simp add: unat_of_nat)
  then have "\<not> (of_nat ?n = (0 :: u32) \<or> of_nat ?n > unBufSize)"
    using assms(2,3) by (simp add: word_unat_eq_iff word_less_nat_alt)
  moreover have "lzss_loop unBufSize (groups ts @ junk) 0 0 0 0 pOutput = Returns (Some (of_nat ?n)) (expand ts [] @ drop ?n pOutput)"
    using loop_decodes [of 0 ts "[]" unBufSize pOutput junk 0] assms by (simp add: inside_def next_group_def)
  ultimately show ?thesis
    by (simp add: SafeDecompress_def read_message [OF less] del: drop_append)
qed

theorem decompress_of_message_witness:
  "let ts = [Literal 65, Literal 66, Copy 2 5, Literal 67, Stop]
   in expand ts [] = [65, 66, 65, 66, 65, 66, 65, 67]
     \<and> message ts = [0x4C, 0x5A, 0x53, 0x53, 8, 0, 0, 0, 20, 65, 66, 0, 20, 67, 0, 0]
     \<and> SafeDecompress (Some (message ts @ [1])) (replicate 10 0) 10 = Returns 8 [65, 66, 65, 66, 65, 66, 65, 67, 0, 0]"
proof -
  let ?ts = "[Literal 65, Literal 66, Copy 2 5, Literal 67, Stop]"
  have e: "expand ?ts [] = [65, 66, 65, 66, 65, 66, 65, 67]" by (simp add: numeral_eq_Suc)
  have "fits ?ts []" by (simp add: numeral_eq_Suc)
  moreover have "length (expand ?ts []) \<le> unat (10 :: u32)" unfolding e by simp
  moreover have "unat (10 :: u32) \<le> length (replicate 10 (0 :: u8))" by simp
  ultimately have "SafeDecompress (Some (message ?ts @ [1])) (replicate 10 0) 10 = Returns 8 [65, 66, 65, 66, 65, 66, 65, 67, 0, 0]"
    using decompress_of_message [of ?ts 10 "replicate 10 0" "[1]"] unfolding e by (simp add: drop_replicate numeral_eq_Suc del: message_def)
  moreover have "message ?ts = [0x4C, 0x5A, 0x53, 0x53, 8, 0, 0, 0, 20, 65, 66, 0, 20, 67, 0, 0]" by code_simp
  ultimately show ?thesis using e by (simp add: Let_def)
qed

end
