(* ===== verification/Limits.thy ===== *)
theory Limits
  imports CppStd
begin

text \<open>
  The limits of a server, \<open>ServerLimitsManager\<close> and its hooks
  (\<open>src/engine/shared/exploit_fixes/ns_limits.cpp\<close>): commands and chat messages a client may send in a
  second, packets an address may send in a second, the time spent on the messages of a client, and the time
  its commands may simulate.
\<close>

section \<open>State\<close>

text \<open>
  Times are of type \<open>'t\<close> and budgets of type \<open>'f\<close>, the doubles and floats of the code apart from NaN, with the
  operations the code applies to them, conversions included. \<open>second_passed t s\<close> is \<open>t - s >= 1.0\<close> and
  \<open>in_a_minute t\<close> is \<open>t + 60.0\<close>; \<open>add_ms a t s\<close> is \<open>a + (t * 1000 - s * 1000)\<close>.
\<close>

record ('t, 'f) fp =
  minus_one :: 't
  zero_time :: 't
  second_passed :: "'t \<Rightarrow> 't \<Rightarrow> bool"
  earlier :: "'t \<Rightarrow> 't \<Rightarrow> bool"
  in_a_minute :: "'t \<Rightarrow> 't"
  add_ms :: "'t \<Rightarrow> 't \<Rightarrow> 't \<Rightarrow> 't"
  reaches :: "'t \<Rightarrow> int \<Rightarrow> bool"
  f_zero :: 'f
  f_add :: "'f \<Rightarrow> 'f \<Rightarrow> 'f"
  f_sub :: "'f \<Rightarrow> 'f \<Rightarrow> 'f"
  f_mul :: "'f \<Rightarrow> 'f \<Rightarrow> 'f"
  f_max :: "'f \<Rightarrow> 'f \<Rightarrow> 'f"
  f_less :: "'f \<Rightarrow> 'f \<Rightarrow> bool"

text \<open>The counters cannot overflow: each is compared with a limit after at most two billion calls in a second.\<close>

record ('t, 'f) PlayerLimitData =
  lastClientCommandQuotaStart :: 't
  numClientCommandsInQuota :: int
  lastNetChanProcessingLimitStart :: 't
  netChanProcessingLimitTime :: 't
  lastSayTextLimitStart :: 't
  sayTextLimitCount :: int
  flFrameUserCmdBudget :: 'f

definition new_PlayerLimitData :: "('t, 'f) fp \<Rightarrow> ('t, 'f) PlayerLimitData" where
  "new_PlayerLimitData fp =
     \<lparr>lastClientCommandQuotaStart = minus_one fp, numClientCommandsInQuota = 0,
      lastNetChanProcessingLimitStart = minus_one fp, netChanProcessingLimitTime = zero_time fp,
      lastSayTextLimitStart = minus_one fp, sayTextLimitCount = 0, flFrameUserCmdBudget = f_zero fp\<rparr>"

record 't UnconnectedPlayerLimitData =
  ul_ip :: "u8 list"
  lastQuotaStart :: 't
  packetCount :: int
  timeoutEnd :: 't

definition new_UnconnectedPlayerLimitData :: "('t, 'f) fp \<Rightarrow> u8 list \<Rightarrow> 't UnconnectedPlayerLimitData" where
  "new_UnconnectedPlayerLimitData fp ip = \<lparr>ul_ip = ip, lastQuotaStart = zero_time fp, packetCount = 0, timeoutEnd = minus_one fp\<rparr>"

text \<open>Clients are pointers into \<open>g_pClientArray\<close>, here the index.\<close>

record ('t, 'f) ServerLimitsManager =
  m_PlayerLimitData :: "nat \<rightharpoonup> ('t, 'f) PlayerLimitData"
  m_UnconnectedPlayerLimitData :: "'t UnconnectedPlayerLimitData list"

definition new_ServerLimitsManager :: "('t, 'f) ServerLimitsManager" where
  "new_ServerLimitsManager = \<lparr>m_PlayerLimitData = Map.empty, m_UnconnectedPlayerLimitData = []\<rparr>"

text \<open>\<open>m_PlayerLimitData[player]\<close>, which makes an entry where there is none.\<close>

definition limit_data :: "('t, 'f) fp \<Rightarrow> ('t, 'f) ServerLimitsManager \<Rightarrow> nat \<Rightarrow> ('t, 'f) PlayerLimitData" where
  "limit_data fp st player = (case m_PlayerLimitData st player of None \<Rightarrow> new_PlayerLimitData fp | Some d \<Rightarrow> d)"

definition set_limit_data ::
    "nat \<Rightarrow> ('t, 'f) PlayerLimitData \<Rightarrow> ('t, 'f) ServerLimitsManager \<Rightarrow> ('t, 'f) ServerLimitsManager" where
  "set_limit_data player d st = st\<lparr>m_PlayerLimitData := (m_PlayerLimitData st)(player \<mapsto> d)\<rparr>"

section \<open>Clients\<close>

text \<open>The budget of a client who joins, from the tick interval, the time scale and the number of ticks.\<close>

definition AddPlayer :: "('t, 'f) fp \<Rightarrow> 'f \<Rightarrow> 'f \<Rightarrow> 'f \<Rightarrow> nat \<Rightarrow> ('t, 'f) ServerLimitsManager \<Rightarrow> ('t, 'f) ServerLimitsManager" where
  "AddPlayer fp tickInterval timescale maxtickbudget player st =
     (case m_PlayerLimitData st player of
        Some d \<Rightarrow> st
      | None \<Rightarrow>
          set_limit_data player
            ((new_PlayerLimitData fp)\<lparr>flFrameUserCmdBudget := f_mul fp (f_mul fp tickInterval timescale) maxtickbudget\<rparr>) st)"

definition RemovePlayer :: "nat \<Rightarrow> ('t, 'f) ServerLimitsManager \<Rightarrow> ('t, 'f) ServerLimitsManager" where
  "RemovePlayer player st = st\<lparr>m_PlayerLimitData := (m_PlayerLimitData st)(player := None)\<rparr>"

text \<open>
  The arguments \<open>now\<close> and \<open>now'\<close> are what \<open>g_PlatFloatTime\<close> returns at the first and at the second call of it.
\<close>

definition CheckStringCommandLimits ::
    "('t, 'f) fp \<Rightarrow> int \<Rightarrow> 't \<Rightarrow> 't \<Rightarrow> nat \<Rightarrow> ('t, 'f) ServerLimitsManager \<Rightarrow> bool \<times> ('t, 'f) ServerLimitsManager" where
  "CheckStringCommandLimits fp quota now now' player st =
     (if quota \<noteq> -1 then
        let d = limit_data fp st player;
            d = (if second_passed fp now (lastClientCommandQuotaStart d)
                 then d\<lparr>lastClientCommandQuotaStart := now', numClientCommandsInQuota := 0\<rparr> else d);
            d = d\<lparr>numClientCommandsInQuota := numClientCommandsInQuota d + 1\<rparr>
        in (\<not> numClientCommandsInQuota d > quota, set_limit_data player d st)
      else (True, st))"

definition CheckChatLimits ::
    "('t, 'f) fp \<Rightarrow> int \<Rightarrow> 't \<Rightarrow> 't \<Rightarrow> nat \<Rightarrow> ('t, 'f) ServerLimitsManager \<Rightarrow> bool \<times> ('t, 'f) ServerLimitsManager" where
  "CheckChatLimits fp limit now now' player st =
     (let d = limit_data fp st player;
          d = (if second_passed fp now (lastSayTextLimitStart d)
               then d\<lparr>lastSayTextLimitStart := now', sayTextLimitCount := 0\<rparr> else d)
      in
        if sayTextLimitCount d \<ge> limit then (False, set_limit_data player d st)
        else (True, set_limit_data player (d\<lparr>sayTextLimitCount := sayTextLimitCount d + 1\<rparr>) st))"

text \<open>
  The hook on \<open>CNetChan::ProcessMessages\<close>, after the messages are processed: \<open>ret\<close> is the result of that, \<open>running\<close>
  says whether the server runs a level and this is its thread. The result is the return value and whether the
  sender is disconnected.
\<close>

definition ProcessMessages ::
    "('t, 'f) fp \<Rightarrow> int \<Rightarrow> int \<Rightarrow> bool \<Rightarrow> bool \<Rightarrow> 't \<Rightarrow> 't \<Rightarrow> nat option \<Rightarrow> bool \<Rightarrow> ('t, 'f) ServerLimitsManager \<Rightarrow>
     (bool \<times> bool) \<times> ('t, 'f) ServerLimitsManager" where
  "ProcessMessages fp limit_mode msec_per_sec ret running startTime endTime sender is_local st =
     (if \<not> running then ((ret, False), st)
      else case sender of
        None \<Rightarrow> ((ret, False), st)
      | Some p \<Rightarrow>
          (case m_PlayerLimitData st p of
             None \<Rightarrow> ((ret, False), st)
           | Some d \<Rightarrow>
               let d = (if second_passed fp startTime (lastNetChanProcessingLimitStart d) \<or>
                           lastNetChanProcessingLimitStart d = minus_one fp
                        then d\<lparr>lastNetChanProcessingLimitStart := startTime, netChanProcessingLimitTime := zero_time fp\<rparr>
                        else d);
                   d = d\<lparr>netChanProcessingLimitTime := add_ms fp (netChanProcessingLimitTime d) endTime startTime\<rparr>
               in (if reaches fp (netChanProcessingLimitTime d) msec_per_sec \<and> limit_mode \<noteq> 0 \<and> \<not> is_local
                   then (False, True) else (ret, False), set_limit_data p d st)))"

section \<open>Addresses\<close>

text \<open>
  Of a packet: the address, if it is one of the network, and the byte after the header.
\<close>

record netpacket =
  pk_ip :: "u8 list option"
  pk_data4 :: char

definition A2S_SIGREQ1 :: char where "A2S_SIGREQ1 = CHR ''T''"

fun update_first :: "('a \<Rightarrow> bool) \<Rightarrow> ('a \<Rightarrow> 'a) \<Rightarrow> 'a list \<Rightarrow> 'a list" where
  "update_first P f [] = []"
| "update_first P f (x # xs) = (if P x then f x # xs else x # update_first P f xs)"

text \<open>The entry of an address, with the list it is in; a new one is put at the end.\<close>

definition send_data ::
    "('t, 'f) fp \<Rightarrow> u8 list \<Rightarrow> 't UnconnectedPlayerLimitData list \<Rightarrow>
     't UnconnectedPlayerLimitData \<times> 't UnconnectedPlayerLimitData list" where
  "send_data fp ip ds =
     (case find (\<lambda>d. ul_ip d = ip) ds of
        Some d \<Rightarrow> (d, ds)
      | None \<Rightarrow> (new_UnconnectedPlayerLimitData fp ip, ds @ [new_UnconnectedPlayerLimitData fp ip]))"

definition CheckConnectionlessPacketLimits ::
    "('t, 'f) fp \<Rightarrow> bool \<Rightarrow> int \<Rightarrow> 't \<times> 't \<times> 't \<times> 't \<Rightarrow> netpacket \<Rightarrow> char \<Rightarrow> ('t, 'f) ServerLimitsManager \<Rightarrow>
     bool \<times> ('t, 'f) ServerLimitsManager" where
  "CheckConnectionlessPacketLimits fp data_block_enabled querylimit clock packet packetType st =
     (if packetType = A2S_SIGREQ1 then (True, st)
      else case pk_ip packet of
        None \<Rightarrow> (True, st)
      | Some ip \<Rightarrow>
          if \<not> (\<not> (pk_data4 packet = CHR ''N'' \<and> data_block_enabled) \<or> \<not> data_block_enabled) then (True, st)
          else
            (case (clock, send_data fp ip (m_UnconnectedPlayerLimitData st)) of ((now1, now2, now3, now4), (d, ds)) \<Rightarrow>
               let store = (\<lambda>d'. st\<lparr>m_UnconnectedPlayerLimitData := update_first (\<lambda>d. ul_ip d = ip) (\<lambda>_. d') ds\<rparr>) in
               if earlier fp now1 (timeoutEnd d) then (False, store d)
               else
                 let d = (if second_passed fp now2 (lastQuotaStart d) then d\<lparr>lastQuotaStart := now3, packetCount := 0\<rparr> else d);
                     d = d\<lparr>packetCount := packetCount d + 1\<rparr>
                 in
                   if packetCount d \<ge> querylimit then (False, store (d\<lparr>timeoutEnd := in_a_minute fp now4\<rparr>))
                   else (True, store d)))"

section \<open>Budgets\<close>

definition RunFrame ::
    "('t, 'f) fp \<Rightarrow> bool \<Rightarrow> 'f \<Rightarrow> 'f \<Rightarrow> 'f \<Rightarrow> 'f \<Rightarrow> 'f \<Rightarrow> 'f \<Rightarrow> nat \<Rightarrow> ('t, 'f) ServerLimitsManager \<Rightarrow> ('t, 'f) ServerLimitsManager" where
  "RunFrame fp enabled tickInterval maxtickbudget multiplier flFrameTime frameTime timescale maxClients st =
     (if \<not> enabled then st
      else st\<lparr>m_PlayerLimitData := (\<lambda>p.
        if p < maxClients
        then map_option (\<lambda>d.
               if f_less fp (flFrameUserCmdBudget d) (f_mul fp tickInterval maxtickbudget)
               then d\<lparr>flFrameUserCmdBudget := f_add fp (flFrameUserCmdBudget d)
                        (f_mul fp multiplier (f_max fp flFrameTime (f_mul fp frameTime timescale)))\<rparr>
               else d) (m_PlayerLimitData st p)
        else m_PlayerLimitData st p)\<rparr>)"

text \<open>The hook on \<open>CPlayerMove::RunCommand\<close>: whether the command is run, and the state.\<close>

definition RunCommand ::
    "('t, 'f) fp \<Rightarrow> bool \<Rightarrow> 'f \<Rightarrow> nat \<Rightarrow> ('t, 'f) ServerLimitsManager \<Rightarrow> bool \<times> ('t, 'f) ServerLimitsManager" where
  "RunCommand fp enabled cmdFrameTime player st =
     (if \<not> enabled then (True, st)
      else case m_PlayerLimitData st player of
        None \<Rightarrow> (True, st)
      | Some d \<Rightarrow>
          let b = f_max fp (f_zero fp) (f_sub fp (flFrameUserCmdBudget d) cmdFrameTime) in
          (f_less fp (f_zero fp) b, set_limit_data player (d\<lparr>flFrameUserCmdBudget := b\<rparr>) st))"

section \<open>Calls\<close>

text \<open>
  What happens to the limits on a server, with the values of the console variables and the clock at the time.
  The answer of a call is whether the message is let through.
\<close>

datatype ('t, 'f) limit_call =
    Join 'f 'f 'f nat
  | Leave nat
  | StringCommand int 't 't nat
  | Chat int 't 't nat
  | Messages int int bool bool 't 't "nat option" bool
  | Packet bool int "'t \<times> 't \<times> 't \<times> 't" netpacket char
  | Frame bool 'f 'f 'f 'f 'f 'f nat
  | UserCommand bool 'f nat

fun limit_step :: "('t, 'f) fp \<Rightarrow> ('t, 'f) limit_call \<Rightarrow> ('t, 'f) ServerLimitsManager \<Rightarrow> bool \<times> ('t, 'f) ServerLimitsManager" where
  "limit_step fp (Join tickInterval timescale budget p) st = (True, AddPlayer fp tickInterval timescale budget p st)"
| "limit_step fp (Leave p) st = (True, RemovePlayer p st)"
| "limit_step fp (StringCommand quota now now' p) st = CheckStringCommandLimits fp quota now now' p st"
| "limit_step fp (Chat limit now now' p) st = CheckChatLimits fp limit now now' p st"
| "limit_step fp (Messages mode msec ret running t0 t1 sender is_local) st =
     apfst fst (ProcessMessages fp mode msec ret running t0 t1 sender is_local st)"
| "limit_step fp (Packet data_block limit clock packet packetType) st =
     CheckConnectionlessPacketLimits fp data_block limit clock packet packetType st"
| "limit_step fp (Frame enabled tick budget multiplier flFrameTime frameTime timescale n) st =
     (True, RunFrame fp enabled tick budget multiplier flFrameTime frameTime timescale n st)"
| "limit_step fp (UserCommand enabled t p) st = RunCommand fp enabled t p st"

text \<open>The state after some calls on a new server.\<close>

definition limit_state :: "('t, 'f) fp \<Rightarrow> ('t, 'f) limit_call list \<Rightarrow> ('t, 'f) ServerLimitsManager" where
  "limit_state fp cs = fold (\<lambda>c st. snd (limit_step fp c st)) cs new_ServerLimitsManager"

end
