(* ===== verification/LimitsSpec.thy ===== *)
theory LimitsSpec
  imports Limits
begin

text \<open>
  What the limits of a server guarantee. The counters of commands, chat messages and packets are windows of
  one second that start at the first message after the last window; the locale \<open>window_limit\<close> states what they
  share, and that no second sees more than two windows.
\<close>

section \<open>Windows\<close>

text \<open>The number of steps that are limited and let through.\<close>

fun let_through :: "('c \<Rightarrow> 's \<Rightarrow> bool \<times> 's) \<Rightarrow> ('c \<Rightarrow> bool) \<Rightarrow> 'c list \<Rightarrow> 's \<Rightarrow> nat" where
  "let_through step counted [] s = 0"
| "let_through step counted (c # cs) s =
     of_bool (counted c \<and> fst (step c s)) + let_through step counted cs (snd (step c s))"

text \<open>
  A state with the start of a window and a count. \<open>counts\<close> says which steps are limited; a step that is let
  through is counted, a window starts at a reading of the clock after the last one has passed.
\<close>

locale window_limit =
  fixes passed :: "'t \<Rightarrow> 't \<Rightarrow> bool"
    and start :: "'s \<Rightarrow> 't"
    and count :: "'s \<Rightarrow> int"
    and step :: "'c \<Rightarrow> 's \<Rightarrow> bool \<times> 's"
    and fair :: "'c \<Rightarrow> bool"
    and counted :: "'c \<Rightarrow> bool"
    and readings :: "'c \<Rightarrow> 't set"
    and bound :: int
  assumes step_window: "fair c \<Longrightarrow> 0 \<le> count s \<Longrightarrow> step c s = (ok, s') \<Longrightarrow>
      start s' = start s \<and> count s + of_bool (counted c \<and> ok) \<le> count s' \<or>
      (\<exists>t \<in> readings c. passed t (start s)) \<and> start s' \<in> readings c \<and> of_bool (counted c \<and> ok) \<le> count s'"
    and step_bound: "fair c \<Longrightarrow> 0 \<le> count s \<Longrightarrow> step c s = (True, s') \<Longrightarrow> counted c \<Longrightarrow> count s' \<le> bound"
    and bound_nonneg: "0 \<le> bound"
begin

lemma step_count_nonneg: "fair c \<Longrightarrow> 0 \<le> count s \<Longrightarrow> 0 \<le> count (snd (step c s))"
  using step_window [of c s "fst (step c s)" "snd (step c s)"] by (auto simp: of_bool_def split: if_splits)

text \<open>Within one window.\<close>

lemma one_window:
  assumes "\<forall>c \<in> set cs. fair c" "0 \<le> count s" "\<forall>c \<in> set cs. \<forall>t \<in> readings c. \<not> passed t (start s)"
  shows "let_through step counted cs s = 0 \<or> count s + int (let_through step counted cs s) \<le> bound"
  using assms
proof (induction cs arbitrary: s)
  case (Cons c cs)
  let ?ok = "fst (step c s)" and ?s = "snd (step c s)"
  have step: "step c s = (?ok, ?s)" by simp
  have w: "start ?s = start s" "count s + of_bool (counted c \<and> ?ok) \<le> count ?s"
    using step_window [OF _ Cons.prems(2) step] Cons.prems(1,3) by auto
  have ih: "let_through step counted cs ?s = 0 \<or> count ?s + int (let_through step counted cs ?s) \<le> bound"
    using Cons.IH [of ?s] Cons.prems w(1) step_count_nonneg [of c s] by simp
  have "counted c \<Longrightarrow> ?ok \<Longrightarrow> count ?s \<le> bound"
    using step_bound [OF _ Cons.prems(2), of c ?s] step Cons.prems(1) by (metis list.set_intros(1) prod.collapse)
  then show ?case using ih w(2) by (auto simp: of_bool_def split: if_splits)
qed simp

text \<open>
  In any stretch of the run in which no second passes, at most twice the bound is let through: the rest of one
  window and another.
\<close>

lemma two_windows:
  assumes "\<forall>c \<in> set cs. fair c" "0 \<le> count s"
    and "\<forall>c \<in> set cs. \<forall>d \<in> set cs. \<forall>t \<in> readings c. \<forall>u \<in> readings d. \<not> passed t u"
  shows "int (let_through step counted cs s) \<le> max 0 (bound - count s) + bound"
  using assms
proof (induction cs arbitrary: s)
  case (Cons c cs)
  let ?ok = "counted c \<and> fst (step c s)" and ?s = "snd (step c s)"
  have step: "step c s = (fst (step c s), ?s)" by simp
  have nn: "0 \<le> count ?s" using step_count_nonneg Cons.prems(1,2) by simp
  have ok: "?ok \<Longrightarrow> count ?s \<le> bound"
    using step_bound [of c s ?s] step Cons.prems(1,2) by (metis list.set_intros(1))
  consider (same) "count s + of_bool ?ok \<le> count ?s" | (new) "start ?s \<in> readings c" "of_bool ?ok \<le> count ?s"
    using step_window [OF _ Cons.prems(2) step] Cons.prems(1) by auto
  then show ?case
  proof cases
    case same
    have "int (let_through step counted cs ?s) \<le> max 0 (bound - count ?s) + bound"
      using Cons.IH [OF _ nn] Cons.prems(1,3) by simp
    then show ?thesis using same ok by (cases ?ok) auto
  next
    case new
    then have "\<forall>c' \<in> set cs. \<forall>t \<in> readings c'. \<not> passed t (start ?s)" using Cons.prems(3) by auto
    then have "let_through step counted cs ?s = 0 \<or> count ?s + int (let_through step counted cs ?s) \<le> bound"
      using one_window [of cs ?s] Cons.prems(1) nn by simp
    then show ?thesis using new(2) ok bound_nonneg by (cases ?ok) auto
  qed
qed (use bound_nonneg in simp)

lemma at_most_two_windows:
  assumes "\<forall>c \<in> set cs. fair c" "0 \<le> count s"
    and "\<forall>c \<in> set cs. \<forall>d \<in> set cs. \<forall>t \<in> readings c. \<forall>u \<in> readings d. \<not> passed t u"
  shows "int (let_through step counted cs s) \<le> 2 * bound"
  using two_windows [OF assms] assms(2) bound_nonneg by simp

end

section \<open>The data of a client\<close>

lemma limit_data_set [simp]: "limit_data fp (set_limit_data q d st) p = (if p = q then d else limit_data fp st p)"
  by (simp add: limit_data_def set_limit_data_def)

text \<open>The windows of a client, those of its chat messages and those of its commands.\<close>

definition chat_window :: "('t, 'f) PlayerLimitData \<Rightarrow> 't \<times> int" where
  "chat_window d = (lastSayTextLimitStart d, sayTextLimitCount d)"

definition command_window :: "('t, 'f) PlayerLimitData \<Rightarrow> 't \<times> int" where
  "command_window d = (lastClientCommandQuotaStart d, numClientCommandsInQuota d)"

lemmas window_defs = chat_window_def command_window_def

text \<open>Other steps leave them as they are.\<close>

lemma windows_AddPlayer:
  "chat_window (limit_data fp (AddPlayer fp tick timescale budget q st) p) = chat_window (limit_data fp st p)"
  "command_window (limit_data fp (AddPlayer fp tick timescale budget q st) p) = command_window (limit_data fp st p)"
  by (auto simp: AddPlayer_def limit_data_def set_limit_data_def window_defs split: option.splits)

lemma windows_RemovePlayer: "p \<noteq> q \<Longrightarrow> limit_data fp (RemovePlayer q st) p = limit_data fp st p"
  by (simp add: limit_data_def RemovePlayer_def)

lemma windows_RunFrame:
  "chat_window (limit_data fp (RunFrame fp e tick budget mult t u v n st) p) = chat_window (limit_data fp st p)"
  "command_window (limit_data fp (RunFrame fp e tick budget mult t u v n st) p) = command_window (limit_data fp st p)"
  by (cases "m_PlayerLimitData st p"; auto simp: RunFrame_def limit_data_def window_defs)+

lemma windows_RunCommand:
  "chat_window (limit_data fp (snd (RunCommand fp e t q st)) p) = chat_window (limit_data fp st p)"
  "command_window (limit_data fp (snd (RunCommand fp e t q st)) p) = command_window (limit_data fp st p)"
  by (auto simp: RunCommand_def Let_def limit_data_def set_limit_data_def window_defs split: option.split)

lemma windows_ProcessMessages:
  "chat_window (limit_data fp (snd (ProcessMessages fp mode msec ret running t0 t1 sender l st)) p) = chat_window (limit_data fp st p)"
  "command_window (limit_data fp (snd (ProcessMessages fp mode msec ret running t0 t1 sender l st)) p) = command_window (limit_data fp st p)"
  by (auto simp: ProcessMessages_def Let_def limit_data_def set_limit_data_def window_defs split: option.split)

lemma windows_Packet: "limit_data fp (snd (CheckConnectionlessPacketLimits fp b l clock pk t st)) p = limit_data fp st p"
  by (auto simp: CheckConnectionlessPacketLimits_def Let_def limit_data_def split: option.split prod.split)

lemma windows_Chat: "command_window (limit_data fp (snd (CheckChatLimits fp limit now now' q st)) p) = command_window (limit_data fp st p)"
  by (simp add: CheckChatLimits_def Let_def window_defs)

lemma windows_StringCommand:
  "chat_window (limit_data fp (snd (CheckStringCommandLimits fp quota now now' q st)) p) = chat_window (limit_data fp st p)"
  by (simp add: CheckStringCommandLimits_def Let_def window_defs)

lemmas windows_kept = windows_AddPlayer windows_RemovePlayer windows_RunFrame windows_RunCommand windows_ProcessMessages
  windows_Packet windows_Chat windows_StringCommand

section \<open>Chat messages\<close>

fun chat_of :: "nat \<Rightarrow> ('t, 'f) limit_call \<Rightarrow> bool" where
  "chat_of p (Chat limit now now' q) = (p = q)"
| "chat_of p _ = False"

text \<open>The limit is at most \<open>N\<close> while the client stays.\<close>

fun chat_fair :: "nat \<Rightarrow> int \<Rightarrow> ('t, 'f) limit_call \<Rightarrow> bool" where
  "chat_fair p N (Chat limit now now' q) = (p = q \<longrightarrow> limit \<le> N)"
| "chat_fair p N (Leave q) = (p \<noteq> q)"
| "chat_fair p N _ = True"

fun chat_readings :: "nat \<Rightarrow> ('t, 'f) limit_call \<Rightarrow> 't set" where
  "chat_readings p (Chat limit now now' q) = (if p = q then {now, now'} else {})"
| "chat_readings p _ = {}"

lemma chat_other:
  assumes "chat_fair p N c" "\<not> chat_of p c"
  shows "chat_window (limit_data fp (snd (limit_step fp c st)) p) = chat_window (limit_data fp st p)"
proof (cases c)
  case (Chat limit now now' q)
  then show ?thesis using assms(2) by (auto simp: CheckChatLimits_def Let_def)
qed (use assms(1) in \<open>simp_all add: windows_kept\<close>)

lemma chat_window_limit:
  "0 \<le> N \<Longrightarrow> window_limit (second_passed fp) (\<lambda>st. fst (chat_window (limit_data fp st p))) (\<lambda>st. snd (chat_window (limit_data fp st p)))
     (limit_step fp) (chat_fair p N) (chat_of p) (chat_readings p) N"
proof (unfold_locales, goal_cases)
  case (1 c st ok st')
  show ?case
  proof (cases "(p, c)" rule: chat_of.cases)
    case (1 p' limit now now' q)
    then show ?thesis using \<open>limit_step fp c st = (ok, st')\<close> \<open>chat_fair p N c\<close> \<open>0 \<le> snd (chat_window (limit_data fp st p))\<close> chat_other [of p N c fp st]
      by (cases "p = q") (auto simp: CheckChatLimits_def Let_def window_defs split: if_splits)
  qed (use 1 chat_other [of p N c fp st] in simp_all)
next
  case (2 c st st')
  then show ?case by (cases "(p, c)" rule: chat_of.cases) (auto simp: CheckChatLimits_def Let_def window_defs split: if_splits)
qed

interpretation chat: window_limit "second_passed fp" "\<lambda>st. fst (chat_window (limit_data fp st p))"
    "\<lambda>st. snd (chat_window (limit_data fp st p))" "limit_step fp" "chat_fair p (int N)" "chat_of p" "chat_readings p" "int N"
  for fp :: "('t, 'f) fp" and p N
  by (rule chat_window_limit) simp

section \<open>Commands\<close>

fun command_of :: "nat \<Rightarrow> ('t, 'f) limit_call \<Rightarrow> bool" where
  "command_of p (StringCommand quota now now' q) = (p = q)"
| "command_of p _ = False"

fun command_fair :: "nat \<Rightarrow> int \<Rightarrow> ('t, 'f) limit_call \<Rightarrow> bool" where
  "command_fair p N (StringCommand quota now now' q) = (p = q \<longrightarrow> quota \<le> N \<and> quota \<noteq> -1)"
| "command_fair p N (Leave q) = (p \<noteq> q)"
| "command_fair p N _ = True"

fun command_readings :: "nat \<Rightarrow> ('t, 'f) limit_call \<Rightarrow> 't set" where
  "command_readings p (StringCommand quota now now' q) = (if p = q then {now, now'} else {})"
| "command_readings p _ = {}"

lemma command_other:
  assumes "command_fair p N c" "\<not> command_of p c"
  shows "command_window (limit_data fp (snd (limit_step fp c st)) p) = command_window (limit_data fp st p)"
proof (cases c)
  case (StringCommand quota now now' q)
  then show ?thesis using assms(2) by (auto simp: CheckStringCommandLimits_def Let_def)
qed (use assms(1) in \<open>simp_all add: windows_kept\<close>)

lemma command_window_limit:
  "0 \<le> N \<Longrightarrow> window_limit (second_passed fp) (\<lambda>st. fst (command_window (limit_data fp st p))) (\<lambda>st. snd (command_window (limit_data fp st p)))
     (limit_step fp) (command_fair p N) (command_of p) (command_readings p) N"
proof (unfold_locales, goal_cases)
  case (1 c st ok st')
  show ?case
  proof (cases "(p, c)" rule: command_of.cases)
    case (1 p' quota now now' q)
    then show ?thesis using \<open>limit_step fp c st = (ok, st')\<close> \<open>command_fair p N c\<close> \<open>0 \<le> snd (command_window (limit_data fp st p))\<close> command_other [of p N c fp st]
      by (cases "p = q") (auto simp: CheckStringCommandLimits_def Let_def window_defs split: if_splits)
  qed (use 1 command_other [of p N c fp st] in simp_all)
next
  case (2 c st st')
  then show ?case
    by (cases "(p, c)" rule: command_of.cases) (auto simp: CheckStringCommandLimits_def Let_def window_defs split: if_splits)
qed

interpretation command: window_limit "second_passed fp" "\<lambda>st. fst (command_window (limit_data fp st p))"
    "\<lambda>st. snd (command_window (limit_data fp st p))" "limit_step fp" "command_fair p (int N)" "command_of p" "command_readings p" "int N"
  for fp :: "('t, 'f) fp" and p N
  by (rule command_window_limit) simp

section \<open>Packets\<close>

definition send_entry :: "('t, 'f) fp \<Rightarrow> u8 list \<Rightarrow> ('t, 'f) ServerLimitsManager \<Rightarrow> 't UnconnectedPlayerLimitData" where
  "send_entry fp ip st = fst (send_data fp ip (m_UnconnectedPlayerLimitData st))"

lemma find_update_first:
  "find P (update_first P (\<lambda>_. d) ds) = (if P d then map_option (\<lambda>_. d) (find P ds) else find P (update_first P (\<lambda>_. d) ds))"
  by (induction ds) auto

lemma find_update_other: "\<lbrakk>\<And>x. P x \<Longrightarrow> \<not> Q x; \<not> Q d\<rbrakk> \<Longrightarrow> find Q (update_first P (\<lambda>_. d) ds) = find Q ds"
  by (induction ds) auto

lemma find_append: "find P (xs @ ys) = (case find P xs of None \<Rightarrow> find P ys | Some x \<Rightarrow> Some x)"
  by (induction xs) auto

lemma ul_ip_send_entry: "ul_ip (fst (send_data fp ip ds)) = ip"
  by (auto simp: send_data_def new_UnconnectedPlayerLimitData_def find_Some_iff split: option.split)

lemma send_data_entry: "find (\<lambda>d. ul_ip d = ip) (snd (send_data fp ip ds)) = Some (fst (send_data fp ip ds))"
  by (cases "find (\<lambda>d. ul_ip d = ip) ds")
    (auto simp: send_data_def new_UnconnectedPlayerLimitData_def find_append)

lemma send_data_other: "ip \<noteq> ip' \<Longrightarrow> find (\<lambda>d. ul_ip d = ip') (snd (send_data fp ip ds)) = find (\<lambda>d. ul_ip d = ip') ds"
  by (auto simp: send_data_def new_UnconnectedPlayerLimitData_def find_append split: option.split)

lemma send_data_stored:
  assumes "ul_ip d = ip"
  shows "fst (send_data fp ip' (update_first (\<lambda>d. ul_ip d = ip) (\<lambda>_. d) (snd (send_data fp ip ds)))) =
    (if ip' = ip then d else fst (send_data fp ip' ds))"
proof (cases "ip' = ip")
  case True
  then show ?thesis using assms send_data_entry [of ip fp ds] find_update_first [of "\<lambda>d. ul_ip d = ip" d "snd (send_data fp ip ds)"]
    by (simp add: send_data_def [of fp ip "update_first _ _ _"])
next
  case False
  then have "find (\<lambda>d. ul_ip d = ip') (update_first (\<lambda>d. ul_ip d = ip) (\<lambda>_. d) (snd (send_data fp ip ds))) = find (\<lambda>d. ul_ip d = ip') ds"
    using assms by (subst find_update_other) (auto simp: send_data_other)
  then show ?thesis using False by (auto simp: send_data_def [of fp ip'] split: option.split)
qed

fun packet_of :: "u8 list \<Rightarrow> ('t, 'f) limit_call \<Rightarrow> bool" where
  "packet_of ip (Packet enabled limit clock packet t) =
     (t \<noteq> A2S_SIGREQ1 \<and> pk_ip packet = Some ip \<and> \<not> (pk_data4 packet = CHR ''N'' \<and> enabled))"
| "packet_of ip _ = False"

text \<open>The limit is the number of packets in a second that is refused, so one less is let through.\<close>

fun packet_fair :: "u8 list \<Rightarrow> int \<Rightarrow> ('t, 'f) limit_call \<Rightarrow> bool" where
  "packet_fair ip N (Packet enabled limit clock packet t) = (pk_ip packet = Some ip \<longrightarrow> limit \<le> N + 1)"
| "packet_fair ip N _ = True"

fun packet_readings :: "u8 list \<Rightarrow> ('t, 'f) limit_call \<Rightarrow> 't set" where
  "packet_readings ip (Packet enabled limit (now1, now2, now3, now4) packet t) =
     (if packet_of ip (Packet enabled limit (now1, now2, now3, now4) packet t :: ('t, 'f) limit_call) then {now2, now3} else {})"
| "packet_readings ip _ = {}"

lemma packet_refused:
  fixes clock :: "'t \<times> 't \<times> 't \<times> 't"
  assumes "packet_of ip (Packet enabled limit clock packet t :: ('t, 'f) limit_call)"
  shows "CheckConnectionlessPacketLimits fp enabled limit clock packet t st =
    (case clock of (now1, now2, now3, now4) \<Rightarrow>
      let store = (\<lambda>d'. st\<lparr>m_UnconnectedPlayerLimitData := update_first (\<lambda>d. ul_ip d = ip) (\<lambda>_. d') (snd (send_data fp ip (m_UnconnectedPlayerLimitData st)))\<rparr>) in
      if earlier fp now1 (timeoutEnd (send_entry fp ip st)) then (False, store (send_entry fp ip st))
      else
        let d = (if second_passed fp now2 (lastQuotaStart (send_entry fp ip st))
                 then (send_entry fp ip st)\<lparr>lastQuotaStart := now3, packetCount := 0\<rparr> else send_entry fp ip st);
            d = d\<lparr>packetCount := packetCount d + 1\<rparr>
        in if packetCount d \<ge> limit then (False, store (d\<lparr>timeoutEnd := in_a_minute fp now4\<rparr>)) else (True, store d))"
  using assms by (auto simp: CheckConnectionlessPacketLimits_def send_entry_def Let_def split: prod.split)

lemma send_entry_store:
  "ul_ip d = ip \<Longrightarrow> send_entry fp ip (st\<lparr>m_UnconnectedPlayerLimitData :=
     update_first (\<lambda>d. ul_ip d = ip) (\<lambda>_. d) (snd (send_data fp ip (m_UnconnectedPlayerLimitData st)))\<rparr>) = d"
  by (simp add: send_entry_def send_data_stored)

lemma ul_ip_entry [simp]: "ul_ip (send_entry fp ip st) = ip"
  by (simp add: send_entry_def ul_ip_send_entry)

lemma packet_other:
  assumes "\<not> packet_of ip c"
  shows "send_entry fp ip (snd (limit_step fp c st)) = send_entry fp ip st"
proof (cases c)
  case (Packet enabled limit clock packet t)
  show ?thesis
  proof (cases "\<exists>ip'. packet_of ip' c")
    case True
    then obtain ip' where ip': "packet_of ip' (Packet enabled limit clock packet t)" "ip' \<noteq> ip" using assms Packet by auto
    have *: "send_entry fp ip (st\<lparr>m_UnconnectedPlayerLimitData := update_first (\<lambda>d. ul_ip d = ip') (\<lambda>_. d)
        (snd (send_data fp ip' (m_UnconnectedPlayerLimitData st)))\<rparr>) = send_entry fp ip st" if "ul_ip d = ip'" for d
      using that ip'(2) by (simp add: send_entry_def send_data_stored)
    show ?thesis unfolding Packet limit_step.simps packet_refused [OF ip'(1)] Let_def by (auto simp: * split: prod.split)
  next
    case False
    then show ?thesis using Packet by (auto simp: CheckConnectionlessPacketLimits_def split: option.split prod.split)
  qed
qed (auto simp: send_entry_def AddPlayer_def RemovePlayer_def set_limit_data_def CheckStringCommandLimits_def CheckChatLimits_def
       ProcessMessages_def RunFrame_def RunCommand_def Let_def split: option.split)

lemma packet_window_limit:
  "0 \<le> N \<Longrightarrow> window_limit (second_passed fp) (\<lambda>st. lastQuotaStart (send_entry fp ip st)) (\<lambda>st. packetCount (send_entry fp ip st))
     (limit_step fp) (packet_fair ip N) (packet_of ip) (packet_readings ip) N"
proof (unfold_locales, goal_cases)
  case (1 c st ok st')
  show ?case
  proof (cases "packet_of ip c")
    case True
    then obtain enabled limit now1 now2 now3 now4 packet t where c: "c = Packet enabled limit (now1, now2, now3, now4) packet t"
      by (cases c) auto
    then show ?thesis using \<open>limit_step fp c st = (ok, st')\<close> \<open>0 \<le> packetCount (send_entry fp ip st)\<close> True packet_refused [of ip enabled limit "(now1, now2, now3, now4)" packet t fp st]
      by (auto simp: Let_def send_entry_store split: if_splits)
  qed (use 1 packet_other [of ip c fp st] in simp_all)
next
  case (2 c st st')
  then obtain enabled limit now1 now2 now3 now4 packet t where c: "c = Packet enabled limit (now1, now2, now3, now4) packet t"
    by (cases c) auto
  then show ?case using 2 packet_refused [of ip enabled limit "(now1, now2, now3, now4)" packet t fp st]
    by (auto simp: Let_def send_entry_store split: if_splits)
qed

interpretation packet: window_limit "second_passed fp" "\<lambda>st. lastQuotaStart (send_entry fp ip st)"
    "\<lambda>st. packetCount (send_entry fp ip st)" "limit_step fp" "packet_fair ip (int N)" "packet_of ip" "packet_readings ip" "int N"
  for fp :: "('t, 'f) fp" and ip N
  by (rule packet_window_limit) simp
section \<open>Properties\<close>

lemma counts_nonneg:
  "0 \<le> snd (chat_window (limit_data fp (limit_state fp cs) p))"
  "0 \<le> snd (command_window (limit_data fp (limit_state fp cs) p))"
  "0 \<le> packetCount (send_entry fp ip (limit_state fp cs))"
proof (induction cs rule: rev_induct)
  case Nil
  show "0 \<le> snd (chat_window (limit_data fp (limit_state fp []) p))"
    "0 \<le> snd (command_window (limit_data fp (limit_state fp []) p))"
    "0 \<le> packetCount (send_entry fp ip (limit_state fp []))"
    by (simp_all add: limit_state_def new_ServerLimitsManager_def limit_data_def window_defs new_PlayerLimitData_def
      send_entry_def send_data_def new_UnconnectedPlayerLimitData_def)
next
  case (snoc c cs)
  have s: "limit_state fp (cs @ [c]) = snd (limit_step fp c (limit_state fp cs))" by (simp add: limit_state_def)
  show "0 \<le> snd (chat_window (limit_data fp (limit_state fp (cs @ [c])) p))"
  proof (cases "c = Leave p")
    case True
    then show ?thesis unfolding s by (simp add: RemovePlayer_def limit_data_def window_defs new_PlayerLimitData_def)
  next
    case False
    then have "\<exists>n. chat_fair p (int n) c"
    proof (cases c)
      case (Chat limit now now' q)
      then show ?thesis by (intro exI [of _ "nat limit"]) simp
    qed auto
    then show ?thesis using chat.step_count_nonneg snoc.IH(1) unfolding s by blast
  qed
  show "0 \<le> snd (command_window (limit_data fp (limit_state fp (cs @ [c])) p))"
  proof (cases "c = Leave p \<or> (\<exists>now now'. c = StringCommand (-1) now now' p)")
    case True
    then show ?thesis using snoc.IH(2)
      by (auto simp: s RemovePlayer_def limit_data_def window_defs new_PlayerLimitData_def CheckStringCommandLimits_def)
  next
    case False
    then have "\<exists>n. command_fair p (int n) c"
    proof (cases c)
      case (StringCommand quota now now' q)
      then show ?thesis using False by (intro exI [of _ "nat quota"]) auto
    qed auto
    then show ?thesis using command.step_count_nonneg snoc.IH(2) unfolding s by blast
  qed
  have "\<exists>n. packet_fair ip (int n) c"
  proof (cases c)
    case (Packet enabled limit clock packet t)
    then show ?thesis by (intro exI [of _ "nat limit"]) simp
  qed auto
  then show "0 \<le> packetCount (send_entry fp ip (limit_state fp (cs @ [c])))"
    using packet.step_count_nonneg snoc.IH(3) unfolding s by blast
qed

text \<open>No second passes between two readings of the clock in a stretch of calls.\<close>

definition within_second :: "('t, 'f) fp \<Rightarrow> (('t, 'f) limit_call \<Rightarrow> 't set) \<Rightarrow> ('t, 'f) limit_call list \<Rightarrow> bool" where
  "within_second fp readings cs \<longleftrightarrow>
     (\<forall>c \<in> set cs. \<forall>d \<in> set cs. \<forall>t \<in> readings c. \<forall>u \<in> readings d. \<not> second_passed fp t u)"

text \<open>
  C29: On a server that has run in any way, and in any stretch of calls in which no second passes, a client who does
  not leave gets at most twice the limit of chat messages and of commands through, and an address at most
  twice the number of packets below its limit, whatever other clients and addresses do.
\<close>

theorem limits_in_a_second:
  fixes fp :: "('t, 'f) fp"
  assumes "\<forall>c \<in> set cs. chat_fair p (int chats) c \<and> command_fair p (int commands) c \<and> packet_fair ip (int packets) c"
    and "within_second fp (\<lambda>c. chat_readings p c \<union> command_readings p c \<union> packet_readings ip c) cs"
  shows "let_through (limit_step fp) (chat_of p) cs (limit_state fp before) \<le> 2 * chats \<and>
    let_through (limit_step fp) (command_of p) cs (limit_state fp before) \<le> 2 * commands \<and>
    let_through (limit_step fp) (packet_of ip) cs (limit_state fp before) \<le> 2 * packets"
proof (intro conjI)
  show "let_through (limit_step fp) (chat_of p) cs (limit_state fp before) \<le> 2 * chats"
  proof -
    have "int (let_through (limit_step fp) (chat_of p) cs (limit_state fp before)) \<le> 2 * int chats"
      by (rule chat.at_most_two_windows) (use assms counts_nonneg in \<open>auto simp: within_second_def\<close>)
    then show ?thesis by simp
  qed
  show "let_through (limit_step fp) (command_of p) cs (limit_state fp before) \<le> 2 * commands"
  proof -
    have "int (let_through (limit_step fp) (command_of p) cs (limit_state fp before)) \<le> 2 * int commands"
      by (rule command.at_most_two_windows) (use assms counts_nonneg in \<open>auto simp: within_second_def\<close>)
    then show ?thesis by simp
  qed
  show "let_through (limit_step fp) (packet_of ip) cs (limit_state fp before) \<le> 2 * packets"
  proof -
    have "int (let_through (limit_step fp) (packet_of ip) cs (limit_state fp before)) \<le> 2 * int packets"
      by (rule packet.at_most_two_windows) (use assms counts_nonneg in \<open>auto simp: within_second_def\<close>)
    then show ?thesis by simp
  qed
qed

text \<open>A clock of milliseconds.\<close>

definition ms_clock :: "(int, int) fp" where
  "ms_clock = \<lparr>minus_one = -1000, zero_time = 0, second_passed = (\<lambda>t s. t - s \<ge> 1000), earlier = (<),
     in_a_minute = (\<lambda>t. t + 60000), add_ms = (\<lambda>a t s. a + (t - s)), reaches = (\<ge>), f_zero = 0, f_add = (+), f_sub = (-),
     f_mul = (*), f_max = max, f_less = (<)\<rparr>"

definition ex_chats :: "(int, int) limit_call list" where
  "ex_chats = [Chat 2 1900 1900 0, Chat 2 1950 1950 0, Chat 2 2100 2100 0, Chat 2 2200 2200 0, Chat 2 2300 2300 0]"

theorem limits_in_a_second_witness:
  "let_through (limit_step ms_clock) (chat_of 0) ex_chats (limit_state ms_clock [Chat 2 1050 1050 0]) = 3 \<and>
   let_through (limit_step ms_clock) (chat_of 0) ex_chats (limit_state ms_clock [Chat 2 1050 1050 0]) \<le> 2 * 2"
proof -
  have "let_through (limit_step ms_clock) (chat_of 0) ex_chats (limit_state ms_clock [Chat 2 1050 1050 0]) \<le> 2 * 2"
    using limits_in_a_second [of ex_chats 0 2 0 "[]" 0 ms_clock "[Chat 2 1050 1050 0]"]
    by (simp add: ex_chats_def within_second_def ms_clock_def)
  moreover have "let_through (limit_step ms_clock) (chat_of 0) ex_chats (limit_state ms_clock [Chat 2 1050 1050 0]) = 3" by code_simp
  ultimately show ?thesis by blast
qed

text \<open>The reading of the clock that is compared with the end of the time-out.\<close>

fun packet_tests :: "u8 list \<Rightarrow> ('t, 'f) limit_call \<Rightarrow> 't set" where
  "packet_tests ip (Packet enabled limit (now1, now2, now3, now4) packet t) = (if pk_ip packet = Some ip then {now1} else {})"
| "packet_tests ip _ = {}"

text \<open>
  An address that goes over its limit is shut out: until a minute has passed on the clock, no packet of it that is limited
  is let through, whatever else happens.
\<close>

theorem shut_out_for_a_minute:
  fixes fp :: "('t, 'f) fp"
  assumes "packet_of ip (Packet enabled limit (now1, now2, now3, now4) packet t :: ('t, 'f) limit_call)"
    and "limit_step fp (Packet enabled limit (now1, now2, now3, now4) packet t) st = (False, st')"
    and "\<not> earlier fp now1 (timeoutEnd (send_entry fp ip st))"
    and "\<forall>c \<in> set cs. \<forall>t \<in> packet_tests ip c. earlier fp t (in_a_minute fp now4)"
  shows "let_through (limit_step fp) (packet_of ip) cs st' = 0"
proof -
  have "timeoutEnd (send_entry fp ip st') = in_a_minute fp now4"
    using assms(2,3) packet_refused [OF assms(1), of fp st] by (auto simp: Let_def send_entry_store split: if_splits)
  then show ?thesis using assms(4)
  proof (induction cs arbitrary: st')
    case (Cons c cs)
    show ?case
    proof (cases "packet_of ip c")
      case True
      then obtain enabled limit t1 t2 t3 t4 packet k where c: "c = Packet enabled limit (t1, t2, t3, t4) packet k" "pk_ip packet = Some ip"
        by (cases c) auto
      then have "earlier fp t1 (timeoutEnd (send_entry fp ip st'))" using Cons.prems by simp
      then have "fst (limit_step fp c st') = False" "send_entry fp ip (snd (limit_step fp c st')) = send_entry fp ip st'"
        using packet_refused [of ip enabled limit "(t1, t2, t3, t4)" packet k fp st'] True c(1) by (simp_all add: Let_def send_entry_store)
      then show ?thesis using Cons.IH [of "snd (limit_step fp c st')"] Cons.prems by simp
    next
      case False
      then show ?thesis using Cons.IH [of "snd (limit_step fp c st')"] Cons.prems packet_other [OF False, of fp st'] by simp
    qed
  qed simp
qed

definition ex_packet :: "int \<Rightarrow> (int, int) limit_call" where
  "ex_packet now = Packet True 2 (now, now, now, now) \<lparr>pk_ip = Some [1], pk_data4 = CHR ''H''\<rparr> CHR ''H''"

theorem shut_out_for_a_minute_witness:
  "map (\<lambda>cs. let_through (limit_step ms_clock) (packet_of [1]) cs (limit_state ms_clock [ex_packet 5000, ex_packet 5100]))
     [[ex_packet 5200, ex_packet 65099], [ex_packet 65100]] = [0, 1]"
proof -
  let ?st = "limit_state ms_clock [ex_packet 5000]"
  have st: "limit_state ms_clock [ex_packet 5000, ex_packet 5100] = snd (limit_step ms_clock (ex_packet 5100) ?st)"
    by (simp add: limit_state_def)
  have "\<not> fst (limit_step ms_clock (ex_packet 5100) ?st)" "\<not> 5100 < timeoutEnd (send_entry ms_clock [1] ?st)" by code_simp+
  then have "let_through (limit_step ms_clock) (packet_of [1]) [ex_packet 5200, ex_packet 65099] (snd (limit_step ms_clock (ex_packet 5100) ?st)) = 0"
    using shut_out_for_a_minute [of "[1]" True 2 5100 5100 5100 5100 "\<lparr>pk_ip = Some [1], pk_data4 = CHR ''H''\<rparr>" "CHR ''H''" ms_clock ?st
      "snd (limit_step ms_clock (ex_packet 5100) ?st)" "[ex_packet 5200, ex_packet 65099]"]
    by (simp add: ex_packet_def A2S_SIGREQ1_def ms_clock_def prod_eq_iff)
  moreover have "let_through (limit_step ms_clock) (packet_of [1]) [ex_packet 65100] (limit_state ms_clock [ex_packet 5000, ex_packet 5100]) = 1"
    by code_simp
  ultimately show ?thesis by (simp add: st)
qed

end
