(* ===== verification/ServerAuth.thy ===== *)
theory ServerAuth
  imports BanSystem Limits
begin

text \<open>
  Who may join a server, and whose persistent data is saved: \<open>ServerAuthenticationManager\<close> and its hooks on
  \<open>CClient\<close> (\<open>src/server/auth/serverauthentication.cpp\<close>), with the ban list and the limits they call, and
  \<open>NSEarlyWritePlayerPersistenceForLeave\<close> (\<open>src/vscript/scripts/server/miscserverscript.cpp\<close>). What the master
  server says of players comes in through \<open>AddRemotePlayer\<close> and \<open>AuthenticateWithOwnServer\<close>
  (\<open>src/masterserver/masterserver.cpp\<close>).
\<close>

section \<open>State\<close>

definition PERSISTENCE_MAX_SIZE :: nat where "PERSISTENCE_MAX_SIZE = 0xDDCD"

text \<open>\<open>READY_INSECURE\<close> is the value \<open>READY\<close> of the game.\<close>

datatype ePersistenceReady = NOT_READY | READY_INSECURE | READY_REMOTE

record RemoteAuthData =
  ra_uid :: string
  ra_username :: string
  ra_pdata :: "u8 list"

record PlayerAuthenticationData =
  usingLocalPdata :: bool
  pdataSize :: nat
  needPersistenceWriteOnLeave :: bool

text \<open>The entry \<open>operator[]\<close> makes.\<close>

definition new_PlayerAuthenticationData :: PlayerAuthenticationData where
  "new_PlayerAuthenticationData = \<lparr>usingLocalPdata = False, pdataSize = 0, needPersistenceWriteOnLeave = True\<rparr>"

text \<open>Of a client, the fields this code uses.\<close>

record client =
  m_iPersistenceReady :: ePersistenceReady
  m_PersistenceBuffer :: "u8 list"
  cl_PlatformID :: string
  m_bFakePlayer :: bool

text \<open>
  The table of tokens is a list in the order of its iteration. Clients are those of \<open>g_pClientArray\<close>, by index.
\<close>

record ('t, 'f) server =
  m_RemoteAuthenticationData :: "(string \<times> RemoteAuthData) list"
  m_PlayerAuthenticationData :: "nat \<rightharpoonup> PlayerAuthenticationData"
  m_bAllowDuplicateAccounts :: bool
  m_bNeedLocalAuthForNewgame :: bool
  m_bForceResetLocalPlayerPersistence :: bool
  m_bStartingLocalSPGame :: bool
  clients :: "nat \<Rightarrow> client"
  bans :: ban_state
  limits :: "('t, 'f) ServerLimitsManager"

text \<open>
  The console variables and the local player, the arithmetic of the limits, and what the game does when a client connects:
  it refuses, or sets up the client.
\<close>

record ('t, 'f) server_env =
  ns_erase_auth_info :: bool
  ns_auth_allow_insecure :: bool
  LocalPlayerUserID :: string
  IsDedicatedServer :: bool
  m_nMaxClients :: nat
  limit_ops :: "('t, 'f) fp"
  tick_budget :: "'f \<times> 'f \<times> 'f"
  engine_connect :: "bool \<Rightarrow> string \<Rightarrow> client \<Rightarrow> client option"

definition set_client :: "nat \<Rightarrow> client \<Rightarrow> ('t, 'f) server \<Rightarrow> ('t, 'f) server" where
  "set_client p c st = st\<lparr>clients := (clients st)(p := c)\<rparr>"

text \<open>\<open>map[token] = data\<close> and \<open>map.erase(token)\<close>.\<close>

fun set_entry :: "string \<Rightarrow> 'a \<Rightarrow> (string \<times> 'a) list \<Rightarrow> (string \<times> 'a) list" where
  "set_entry k v [] = [(k, v)]"
| "set_entry k v ((k', v') # xs) = (if k' = k then (k, v) # xs else (k', v') # set_entry k v xs)"

definition erase_entry :: "string \<Rightarrow> (string \<times> 'a) list \<Rightarrow> (string \<times> 'a) list" where
  "erase_entry k xs = filter (\<lambda>e. fst e \<noteq> k) xs"

section \<open>The master server\<close>

text \<open>\<open>strncpy_s\<close> with a count that does not fit calls the handler for invalid parameters, which ends the process.\<close>

definition AddRemotePlayer :: "string \<Rightarrow> u64 \<Rightarrow> string \<Rightarrow> u8 list \<Rightarrow> ('t, 'f) server \<Rightarrow> ('t, 'f) server outcome" where
  "AddRemotePlayer token uid username pdata st =
     (if length username \<ge> 64 then Undefined
      else Ret (st\<lparr>m_RemoteAuthenticationData := set_entry token
             \<lparr>ra_uid = show_nat (unat uid), ra_username = username, ra_pdata = pdata\<rparr> (m_RemoteAuthenticationData st)\<rparr>))"

text \<open>
  The end of \<open>AuthenticateWithOwnServer\<close>, for a player who joins from the network or, with the last token in
  \<open>serverfilter\<close>, for the local player.
\<close>

definition OwnServerAuthenticated ::
    "string option \<Rightarrow> string \<Rightarrow> string \<Rightarrow> u8 list \<Rightarrow> ('t, 'f) server \<Rightarrow> ('t, 'f) server" where
  "OwnServerAuthenticated oldToken newToken uid pdata st =
     (let newAuthData = \<lparr>ra_uid = take 32 uid, ra_username = [], ra_pdata = pdata\<rparr>;
          map = (case oldToken of
              None \<Rightarrow> m_RemoteAuthenticationData st
            | Some old \<Rightarrow>
                if old \<noteq> [] \<and> old \<noteq> newToken then erase_entry old (m_RemoteAuthenticationData st)
                else m_RemoteAuthenticationData st)
      in st\<lparr>m_RemoteAuthenticationData := set_entry newToken newAuthData map\<rparr>)"

section \<open>Joining\<close>

text \<open>The name a player gets, and whether it may be used. A token that is a null pointer is dereferenced.\<close>

definition VerifyPlayerName :: "string option \<Rightarrow> string \<Rightarrow> ('t, 'f) server \<Rightarrow> (bool \<times> string) outcome" where
  "VerifyPlayerName pAuthToken pName st =
     (case pAuthToken of
        None \<Rightarrow> Undefined
      | Some token \<Rightarrow>
          let verified = (case map_of (m_RemoteAuthenticationData st) token of
                Some d \<Rightarrow> if ra_username d \<noteq> [] then take 63 (ra_username d) else take 63 pName
              | None \<Rightarrow> take 63 pName)
          in Ret (verified \<noteq> [] \<and> (\<forall>c \<in> set verified. \<not> ((of_char c :: nat) < 32 \<or> (of_char c :: nat) > 126)), verified))"

definition IsDuplicateAccount :: "('t, 'f) server_env \<Rightarrow> nat \<Rightarrow> string \<Rightarrow> ('t, 'f) server \<Rightarrow> bool" where
  "IsDuplicateAccount env pPlayer pPlayerUid st =
     (if m_bAllowDuplicateAccounts st then False
      else \<exists>i \<in> set [0..<m_nMaxClients env]. i \<noteq> pPlayer \<and> cl_PlatformID (clients st i) = pPlayerUid)"

definition CheckAuthentication ::
    "('t, 'f) server_env \<Rightarrow> nat \<Rightarrow> u64 \<Rightarrow> string option \<Rightarrow> ('t, 'f) server \<Rightarrow> bool outcome" where
  "CheckAuthentication env pPlayer iUid pAuthToken st =
     (let sUid = show_nat (unat iUid) in
      if ns_auth_allow_insecure env then Ret True
      else if m_bStartingLocalSPGame st \<and> sUid = LocalPlayerUserID env then Ret True
      else if IsDuplicateAccount env pPlayer sUid st then Ret False
      else case pAuthToken of
        None \<Rightarrow> Undefined
      | Some token \<Rightarrow>
          Ret (case map_of (m_RemoteAuthenticationData st) token of None \<Rightarrow> False | Some d \<Rightarrow> sUid = ra_uid d))"

text \<open>The data is copied into the client without a look at its size.\<close>

definition AuthenticatePlayer ::
    "('t, 'f) server_env \<Rightarrow> nat \<Rightarrow> u64 \<Rightarrow> string option \<Rightarrow> ('t, 'f) server \<Rightarrow> ('t, 'f) server outcome" where
  "AuthenticatePlayer env pPlayer iUid pAuthToken st =
     (let c = clients st pPlayer;
          sUid = show_nat (unat (if m_bFakePlayer c then 0 else iUid));
          c = c\<lparr>cl_PlatformID := sUid\<rparr>
      in case pAuthToken of
        None \<Rightarrow> Ret (set_client pPlayer (c\<lparr>m_iPersistenceReady := READY_INSECURE\<rparr>) st)
      | Some token \<Rightarrow>
          (case map_of (m_RemoteAuthenticationData st) token of
             Some d \<Rightarrow>
               if \<not> m_bForceResetLocalPlayerPersistence st \<or> sUid \<noteq> LocalPlayerUserID env then
                 (if length (ra_pdata d) > PERSISTENCE_MAX_SIZE then Undefined
                  else Ret (set_client pPlayer (c\<lparr>m_iPersistenceReady := READY_REMOTE,
                         m_PersistenceBuffer := ra_pdata d @ drop (length (ra_pdata d)) (m_PersistenceBuffer c)\<rparr>) st))
               else Ret (set_client pPlayer (c\<lparr>m_iPersistenceReady := READY_REMOTE\<rparr>) st)
           | None \<Rightarrow>
               Ret (set_client pPlayer (if ns_auth_allow_insecure env \<or> m_bFakePlayer c
                 then c\<lparr>m_iPersistenceReady := READY_INSECURE\<rparr> else c) st)))"

text \<open>\<open>insert\<close> leaves an entry that is there.\<close>

definition auth_AddPlayer :: "nat \<Rightarrow> string option \<Rightarrow> ('t, 'f) server \<Rightarrow> ('t, 'f) server" where
  "auth_AddPlayer pPlayer pToken st =
     (let size = (case pToken of
            None \<Rightarrow> PERSISTENCE_MAX_SIZE
          | Some token \<Rightarrow> (case map_of (m_RemoteAuthenticationData st) token of
                None \<Rightarrow> PERSISTENCE_MAX_SIZE | Some d \<Rightarrow> length (ra_pdata d)));
          data = \<lparr>usingLocalPdata = (m_iPersistenceReady (clients st pPlayer) = READY_INSECURE), pdataSize = size,
                  needPersistenceWriteOnLeave = True\<rparr>
      in case m_PlayerAuthenticationData st pPlayer of
           Some d \<Rightarrow> st
         | None \<Rightarrow> st\<lparr>m_PlayerAuthenticationData := (m_PlayerAuthenticationData st)(pPlayer \<mapsto> data)\<rparr>)"

definition auth_RemovePlayer :: "nat \<Rightarrow> ('t, 'f) server \<Rightarrow> ('t, 'f) server" where
  "auth_RemovePlayer pPlayer st = st\<lparr>m_PlayerAuthenticationData := (m_PlayerAuthenticationData st)(pPlayer := None)\<rparr>"

text \<open>
  The hook on \<open>CClient::Connect\<close>, with the token and the user id of the last \<open>CServer::ConnectClient\<close>. First the checks: the
  reason to reject the client, if there is one, and its name.
\<close>

definition connect_checks ::
    "('t, 'f) server_env \<Rightarrow> nat \<Rightarrow> string \<Rightarrow> bool \<Rightarrow> string option \<Rightarrow> u64 \<Rightarrow> ('t, 'f) server \<Rightarrow>
     (string option \<times> string \<times> ('t, 'f) server) outcome" where
  "connect_checks env self pName bFakePlayer token uid st =
     (if bFakePlayer then Ret (None, take 63 pName, st)
      else
        obind (VerifyPlayerName token pName st) (\<lambda>(ok, name).
          if \<not> ok then Ret (Some ''Invalid Name.'', name, st)
          else
            let allowed = IsUIDAllowed (IsDedicatedServer env) (LocalPlayerUserID env) uid (bans st);
                st = st\<lparr>bans := snd allowed\<rparr>
            in
              if \<not> fst allowed then Ret (Some ''Banned From server.'', name, st)
              else obind (CheckAuthentication env self uid token st) (\<lambda>ok.
                Ret (if ok then None else Some ''Authentication Failed.'', name, st))))"

text \<open>Whether the client is connected, and the state.\<close>

definition connect_client ::
    "('t, 'f) server_env \<Rightarrow> nat \<Rightarrow> string \<Rightarrow> bool \<Rightarrow> string option \<Rightarrow> u64 \<Rightarrow> ('t, 'f) server \<Rightarrow> (bool \<times> ('t, 'f) server) outcome" where
  "connect_client env self name bFakePlayer token uid st =
     (case engine_connect env bFakePlayer name (clients st self) of
        None \<Rightarrow> Ret (False, st)
      | Some c \<Rightarrow>
          obind (AuthenticatePlayer env self uid token (set_client self c st)) (\<lambda>st.
            let st = auth_AddPlayer self token st in
            Ret (True, st\<lparr>limits := AddPlayer (limit_ops env) (fst (tick_budget env)) (fst (snd (tick_budget env)))
              (snd (snd (tick_budget env))) self (limits st)\<rparr>)))"

definition Connect ::
    "('t, 'f) server_env \<Rightarrow> nat \<Rightarrow> string \<Rightarrow> bool \<Rightarrow> string option \<Rightarrow> u64 \<Rightarrow> ('t, 'f) server \<Rightarrow>
     ((string option \<times> bool) \<times> ('t, 'f) server) outcome" where
  "Connect env self pName bFakePlayer token uid st =
     obind (connect_checks env self pName bFakePlayer token uid st) (\<lambda>(failure, name, st).
       if failure \<noteq> None then Ret ((failure, False), st)
       else obind (connect_client env self name bFakePlayer token uid st) (\<lambda>(joined, st). Ret ((None, joined), st)))"

section \<open>Playing and leaving\<close>

text \<open>The authentication data of a player is looked up by user id and removed once.\<close>

definition RemovePlayerAuthData :: "('t, 'f) server_env \<Rightarrow> nat \<Rightarrow> ('t, 'f) server \<Rightarrow> bool \<times> ('t, 'f) server" where
  "RemovePlayerAuthData env pPlayer st =
     (if \<not> ns_erase_auth_info env then (False, st)
      else if m_bNeedLocalAuthForNewgame st \<and> cl_PlatformID (clients st pPlayer) = LocalPlayerUserID env then (False, st)
      else case find (\<lambda>auth. cl_PlatformID (clients st pPlayer) = ra_uid (snd auth)) (m_RemoteAuthenticationData st) of
        None \<Rightarrow> (False, st)
      | Some auth \<Rightarrow> (True, st\<lparr>m_RemoteAuthenticationData := erase_entry (fst auth) (m_RemoteAuthenticationData st)\<rparr>))"

text \<open>\<open>m_PlayerAuthenticationData[pPlayer]\<close>, which makes an entry where there is none.\<close>

definition auth_data :: "nat \<Rightarrow> ('t, 'f) server \<Rightarrow> PlayerAuthenticationData" where
  "auth_data p st = (case m_PlayerAuthenticationData st p of None \<Rightarrow> new_PlayerAuthenticationData | Some d \<Rightarrow> d)"

definition touch_auth_data :: "nat \<Rightarrow> ('t, 'f) server \<Rightarrow> ('t, 'f) server" where
  "touch_auth_data p st = st\<lparr>m_PlayerAuthenticationData := (m_PlayerAuthenticationData st)(p \<mapsto> auth_data p st)\<rparr>"

text \<open>What is sent to the master server: for which user id, and the data. Data of size zero is not sent.\<close>

definition WritePersistentData :: "nat \<Rightarrow> ('t, 'f) server \<Rightarrow> ((string \<times> u8 list) list \<times> ('t, 'f) server) outcome" where
  "WritePersistentData pPlayer st =
     (let c = clients st pPlayer in
      if m_iPersistenceReady c \<noteq> READY_REMOTE then Ret ([], st)
      else
        let n = pdataSize (auth_data pPlayer st); st = touch_auth_data pPlayer st in
        if n > PERSISTENCE_MAX_SIZE then Undefined
        else Ret (if n = 0 then [] else [(cl_PlatformID c, take n (m_PersistenceBuffer c))], st))"

definition ActivatePlayer :: "('t, 'f) server_env \<Rightarrow> nat \<Rightarrow> ('t, 'f) server \<Rightarrow> ((string \<times> u8 list) list \<times> ('t, 'f) server) outcome" where
  "ActivatePlayer env self st =
     (if m_iPersistenceReady (clients st self) = NOT_READY then Ret ([], st)
      else case RemovePlayerAuthData env self st of
        (True, st) \<Rightarrow> Ret ([], st)
      | (False, st) \<Rightarrow> WritePersistentData self (st\<lparr>m_bForceResetLocalPlayerPersistence := False\<rparr>))"

definition Disconnect ::
    "('t, 'f) server_env \<Rightarrow> nat \<Rightarrow> string \<Rightarrow> ('t, 'f) server \<Rightarrow> ((string \<times> u8 list) list \<times> ('t, 'f) server) outcome" where
  "Disconnect env self pReason st =
     (if pReason = ''Connection closing'' then Ret ([], st)
      else
        obind (if needPersistenceWriteOnLeave (auth_data self st) then WritePersistentData self (touch_auth_data self st)
               else Ret ([], touch_auth_data self st)) (\<lambda>(writes, st).
          let n = pdataSize (auth_data self st); c = clients st self in
          if n > PERSISTENCE_MAX_SIZE then Undefined
          else
            let st = set_client self (c\<lparr>m_PersistenceBuffer := replicate n 0 @ drop n (m_PersistenceBuffer c)\<rparr>) st;
                st = auth_RemovePlayer self (snd (RemovePlayerAuthData env self st))
            in Ret (writes, st\<lparr>limits := RemovePlayer self (limits st)\<rparr>)))"

definition NSEarlyWritePlayerPersistenceForLeave ::
    "nat \<Rightarrow> ('t, 'f) server \<Rightarrow> ((string \<times> u8 list) list \<times> ('t, 'f) server) outcome" where
  "NSEarlyWritePlayerPersistenceForLeave p st =
     (case m_PlayerAuthenticationData st p of
        None \<Rightarrow> Ret ([], st)
      | Some d \<Rightarrow>
          WritePersistentData p (st\<lparr>m_PlayerAuthenticationData :=
            (m_PlayerAuthenticationData st)(p \<mapsto> d\<lparr>needPersistenceWriteOnLeave := False\<rparr>)\<rparr>))"

section \<open>Runs\<close>

text \<open>
  What happens on a server: the master server announces a player or the token of the local player, a client connects, is
  activated, leaves or has its data written early by a script; the game changes the data of a client; and the
  flags are set by console commands and changes of level. The events say who was announced, who joined and left, and
  whose data was sent.
\<close>

datatype server_call =
    Announce string u64 string "u8 list"
  | AnnounceOwn "string option" string string "u8 list"
  | ConnectClient nat string bool "string option" u64
  | Activate nat
  | LeaveServer nat string
  | EarlyWrite nat
  | GameWrites nat "u8 list"
  | ResetPersistence
  | SetLocalGame bool bool

datatype server_event =
    Announced string string
  | Joined nat u64
  | Quit nat
  | Saved string "u8 list"

definition saves :: "(string \<times> u8 list) list \<Rightarrow> server_event list" where
  "saves ws = map (\<lambda>w. Saved (fst w) (snd w)) ws"

fun server_step ::
    "('t, 'f) server_env \<Rightarrow> server_call \<Rightarrow> ('t, 'f) server \<Rightarrow> (server_event list \<times> ('t, 'f) server) outcome" where
  "server_step env (Announce token uid username pdata) st =
     obind (AddRemotePlayer token uid username pdata st) (\<lambda>st. Ret ([Announced token (show_nat (unat uid))], st))"
| "server_step env (AnnounceOwn oldToken newToken uid pdata) st =
     Ret ([Announced newToken (take 32 uid)], OwnServerAuthenticated oldToken newToken uid pdata st)"
| "server_step env (ConnectClient p pName bFakePlayer token uid) st =
     obind (Connect env p pName bFakePlayer token uid st) (\<lambda>((failure, ok), st).
       Ret (if ok then [Joined p uid] else [], st))"
| "server_step env (Activate p) st = obind (ActivatePlayer env p st) (\<lambda>(ws, st). Ret (saves ws, st))"
| "server_step env (LeaveServer p pReason) st =
     obind (Disconnect env p pReason st) (\<lambda>(ws, st).
       Ret (saves ws @ (if pReason = ''Connection closing'' then [] else [Quit p]), st))"
| "server_step env (EarlyWrite p) st = obind (NSEarlyWritePlayerPersistenceForLeave p st) (\<lambda>(ws, st). Ret (saves ws, st))"
| "server_step env (GameWrites p data) st = Ret ([], set_client p ((clients st p)\<lparr>m_PersistenceBuffer := data\<rparr>) st)"
| "server_step env ResetPersistence st = Ret ([], st\<lparr>m_bForceResetLocalPlayerPersistence := True\<rparr>)"
| "server_step env (SetLocalGame needLocalAuth localSP) st =
     Ret ([], st\<lparr>m_bNeedLocalAuthForNewgame := needLocalAuth, m_bStartingLocalSPGame := localSP\<rparr>)"

text \<open>The environment may change between steps.\<close>

fun server_run ::
    "(('t, 'f) server_env \<times> server_call) list \<Rightarrow> server_event list \<times> ('t, 'f) server \<Rightarrow>
     (server_event list \<times> ('t, 'f) server) outcome" where
  "server_run [] (es, st) = Ret (es, st)"
| "server_run ((env, c) # cs) (es, st) = obind (server_step env c st) (\<lambda>(es', st'). server_run cs (es @ es', st'))"

text \<open>A server without players; the game has set up \<open>g_pClientArray\<close>.\<close>

definition new_server :: "(nat \<Rightarrow> client) \<Rightarrow> ban_state \<Rightarrow> bool \<Rightarrow> ('t, 'f) server" where
  "new_server cls b allowDuplicates =
     \<lparr>m_RemoteAuthenticationData = [], m_PlayerAuthenticationData = Map.empty, m_bAllowDuplicateAccounts = allowDuplicates,
      m_bNeedLocalAuthForNewgame = False, m_bForceResetLocalPlayerPersistence = False, m_bStartingLocalSPGame = False,
      clients = cls, bans = b, limits = new_ServerLimitsManager\<rparr>"

end
