(* ===== verification/ServerAuthSpec.thy ===== *)
theory ServerAuthSpec
  imports ServerAuth LimitsSpec
begin

text \<open>
  Who joins a server and whose data it saves: the condition of \<open>Connect\<close>, and what holds in every run of a server
  that does not allow insecure connections.
\<close>

section \<open>Connecting\<close>

definition valid_name :: "string \<Rightarrow> bool" where
  "valid_name name \<longleftrightarrow> name \<noteq> [] \<and> length name \<le> 63 \<and> (\<forall>c \<in> set name. 32 \<le> (of_char c :: nat) \<and> (of_char c :: nat) \<le> 126)"

text \<open>The name of the master server, if it gave one, or that of the client, cut to fit.\<close>

definition joining_name :: "string \<Rightarrow> string \<Rightarrow> ('t, 'f) server \<Rightarrow> string" where
  "joining_name token pName st =
     (case map_of (m_RemoteAuthenticationData st) token of
        Some d \<Rightarrow> if ra_username d \<noteq> [] then take 63 (ra_username d) else take 63 pName
      | None \<Rightarrow> take 63 pName)"

definition may_authenticate :: "('t, 'f) server_env \<Rightarrow> nat \<Rightarrow> u64 \<Rightarrow> string \<Rightarrow> ('t, 'f) server \<Rightarrow> bool" where
  "may_authenticate env p uid token st \<longleftrightarrow>
     ns_auth_allow_insecure env \<or>
     m_bStartingLocalSPGame st \<and> show_nat (unat uid) = LocalPlayerUserID env \<or>
     (m_bAllowDuplicateAccounts st \<or> (\<forall>i < m_nMaxClients env. i \<noteq> p \<longrightarrow> cl_PlatformID (clients st i) \<noteq> show_nat (unat uid))) \<and>
     (\<exists>d. map_of (m_RemoteAuthenticationData st) token = Some d \<and> ra_uid d = show_nat (unat uid))"

lemma VerifyPlayerName_joining:
  "VerifyPlayerName (Some token) pName st = Ret (valid_name (joining_name token pName st), joining_name token pName st)"
  by (auto simp: VerifyPlayerName_def valid_name_def joining_name_def Let_def not_less split: option.split)

lemma CheckAuthentication_may:
  "CheckAuthentication env p uid (Some token) st = Ret (may_authenticate env p uid token st)"
  by (auto simp: CheckAuthentication_def may_authenticate_def IsDuplicateAccount_def Let_def split: option.split)

definition join_failure :: "('t, 'f) server_env \<Rightarrow> nat \<Rightarrow> string \<Rightarrow> u64 \<Rightarrow> string \<Rightarrow> ('t, 'f) server \<Rightarrow> string option" where
  "join_failure env p pName uid token st =
     (if \<not> valid_name (joining_name token pName st) then Some ''Invalid Name.''
      else if \<not> fst (IsUIDAllowed (IsDedicatedServer env) (LocalPlayerUserID env) uid (bans st)) then Some ''Banned From server.''
      else if \<not> may_authenticate env p uid token st then Some ''Authentication Failed.''
      else None)"

definition joining_bans :: "('t, 'f) server_env \<Rightarrow> nat \<Rightarrow> string \<Rightarrow> u64 \<Rightarrow> string \<Rightarrow> ('t, 'f) server \<Rightarrow> ban_state" where
  "joining_bans env p pName uid token st =
     (if valid_name (joining_name token pName st)
      then snd (IsUIDAllowed (IsDedicatedServer env) (LocalPlayerUserID env) uid (bans st)) else bans st)"

lemma may_authenticate_bans: "may_authenticate env p uid token (st\<lparr>bans := b\<rparr>) = may_authenticate env p uid token st"
  by (simp add: may_authenticate_def)

lemma connect_checks_result:
  "connect_checks env p pName False (Some token) uid st =
     Ret (join_failure env p pName uid token st, joining_name token pName st, st\<lparr>bans := joining_bans env p pName uid token st\<rparr>)"
proof -
  have "st\<lparr>bans := bans st\<rparr> = st" by simp
  then show ?thesis
    unfolding connect_checks_def VerifyPlayerName_joining CheckAuthentication_may join_failure_def joining_bans_def Let_def
    by (simp add: may_authenticate_bans)
qed

text \<open>What \<open>AuthenticatePlayer\<close> does to the client, and that it leaves the rest alone.\<close>

lemma AuthenticatePlayer_client:
  assumes "AuthenticatePlayer env p uid token st = Ret st'"
  shows "\<exists>c. st' = set_client p c st \<and> m_bFakePlayer c = m_bFakePlayer (clients st p) \<and>
    cl_PlatformID c = show_nat (unat (if m_bFakePlayer (clients st p) then 0 else uid)) \<and>
    (m_iPersistenceReady c = READY_REMOTE \<longrightarrow>
       m_iPersistenceReady (clients st p) = READY_REMOTE \<or>
       (\<exists>t d. token = Some t \<and> map_of (m_RemoteAuthenticationData st) t = Some d))"
  using assms
  by (auto simp: AuthenticatePlayer_def Let_def split: option.splits if_splits)

lemma auth_AddPlayer_same [simp]:
  "clients (auth_AddPlayer p t st) = clients st" "m_RemoteAuthenticationData (auth_AddPlayer p t st) = m_RemoteAuthenticationData st"
  "m_bStartingLocalSPGame (auth_AddPlayer p t st) = m_bStartingLocalSPGame st" "m_bAllowDuplicateAccounts (auth_AddPlayer p t st) = m_bAllowDuplicateAccounts st"
  by (simp_all add: auth_AddPlayer_def Let_def split: option.split)

lemma set_client_same [simp]:
  "clients (set_client p c st) = (clients st)(p := c)" "m_RemoteAuthenticationData (set_client p c st) = m_RemoteAuthenticationData st"
  "m_bStartingLocalSPGame (set_client p c st) = m_bStartingLocalSPGame st" "m_bAllowDuplicateAccounts (set_client p c st) = m_bAllowDuplicateAccounts st"
  "m_PlayerAuthenticationData (set_client p c st) = m_PlayerAuthenticationData st"
  by (simp_all add: set_client_def)

text \<open>
  C30: A client that is not a bot is rejected for its name, then for a ban, then for its authentication, in this order, and
  joins exactly if none of these holds and the game accepts it; then its user id is the one it was checked for. The
  other clients are left as they are.
\<close>

theorem join_condition:
  assumes "Connect env p pName False (Some token) uid st = Ret ((failure, joined), st')"
    and "\<forall>name c c'. engine_connect env False name c = Some c' \<longrightarrow> \<not> m_bFakePlayer c'"
  shows "failure = join_failure env p pName uid token st \<and>
    (joined \<longleftrightarrow> failure = None \<and> engine_connect env False (joining_name token pName st) (clients st p) \<noteq> None) \<and>
    (joined \<longrightarrow> cl_PlatformID (clients st' p) = show_nat (unat uid)) \<and>
    (\<forall>q. q \<noteq> p \<longrightarrow> clients st' q = clients st q)"
proof (cases "join_failure env p pName uid token st")
  case (Some e)
  then show ?thesis using assms(1) by (auto simp: Connect_def connect_checks_result Some)
next
  case None
  then obtain b where c: "connect_client env p (joining_name token pName st) False (Some token) uid (st\<lparr>bans := b\<rparr>) = Ret (joined, st')"
      "failure = None"
    using assms(1) by (auto simp: Connect_def connect_checks_result obind_Ret)
  show ?thesis
  proof (cases "engine_connect env False (joining_name token pName st) (clients st p)")
    case (Some cl)
    then obtain st1 where st1: "AuthenticatePlayer env p uid (Some token) (set_client p cl (st\<lparr>bans := b\<rparr>)) = Ret st1"
      and r: "joined" "clients st' = clients st1"
      using c(1) by (auto simp: connect_client_def obind_Ret Let_def)
    have "\<not> m_bFakePlayer cl" using assms(2) Some by blast
    then show ?thesis using AuthenticatePlayer_client [OF st1] r Some c(2) None by auto
  qed (use c None in \<open>auto simp: connect_client_def\<close>)
qed

section \<open>Runs of a server\<close>

text \<open>Who is on the server after some events.\<close>

definition online :: "server_event list \<Rightarrow> nat set" where
  "online es = fold (\<lambda>e ps. case e of Joined p u \<Rightarrow> insert p ps | Quit p \<Rightarrow> ps - {p} | _ \<Rightarrow> ps) es {}"

lemma online_append_one: "online (es @ [e]) = (case e of Joined p u \<Rightarrow> insert p (online es) | Quit p \<Rightarrow> online es - {p} | _ \<Rightarrow> online es)"
  by (cases e) (simp_all add: online_def)

lemma online_saves: "online (es @ saves ws) = online es"
  by (induction ws rule: rev_induct) (simp_all add: saves_def online_def)

text \<open>
  What is announced: a user id for a token, by the master server or for the local player, with data that fits and a name that does.
\<close>

fun announcement_ok :: "server_call \<Rightarrow> bool" where
  "announcement_ok (Announce token uid username pdata) \<longleftrightarrow> length username < 64 \<and> length pdata \<le> PERSISTENCE_MAX_SIZE"
| "announcement_ok (AnnounceOwn oldToken newToken uid pdata) \<longleftrightarrow> length pdata \<le> PERSISTENCE_MAX_SIZE"
| "announcement_ok _ \<longleftrightarrow> True"

text \<open>No bots, no null pointers for tokens, no local game.\<close>

fun ordinary_call :: "nat \<Rightarrow> server_call \<Rightarrow> bool" where
  "ordinary_call n (ConnectClient p pName bFakePlayer token uid) \<longleftrightarrow> p < n \<and> \<not> bFakePlayer \<and> token \<noteq> None"
| "ordinary_call n (SetLocalGame needLocalAuth localSP) \<longleftrightarrow> \<not> localSP"
| "ordinary_call n _ \<longleftrightarrow> True"

definition secure_env :: "nat \<Rightarrow> ('t, 'f) server_env \<Rightarrow> bool" where
  "secure_env n env \<longleftrightarrow> \<not> ns_auth_allow_insecure env \<and> m_nMaxClients env = n \<and>
     (\<forall>name c c'. engine_connect env False name c = Some c' \<longrightarrow> \<not> m_bFakePlayer c' \<and> m_iPersistenceReady c' = NOT_READY)"

definition announced :: "server_event list \<Rightarrow> string \<Rightarrow> bool" where
  "announced es uid \<longleftrightarrow> (\<exists>token. Announced token uid \<in> set es)"

lemma announced_append: "announced es uid \<Longrightarrow> announced (es @ es') uid"
  by (auto simp: announced_def)

text \<open>The invariant, in four parts: the tables, the clients, the events, and who is online.\<close>

definition tables_ok :: "server_event list \<Rightarrow> ('t, 'f) server \<Rightarrow> bool" where
  "tables_ok es st \<longleftrightarrow> \<not> m_bStartingLocalSPGame st \<and>
     (\<forall>(t, d) \<in> set (m_RemoteAuthenticationData st). announced es (ra_uid d) \<and> length (ra_pdata d) \<le> PERSISTENCE_MAX_SIZE) \<and>
     (\<forall>p d. m_PlayerAuthenticationData st p = Some d \<longrightarrow> pdataSize d \<le> PERSISTENCE_MAX_SIZE)"

definition clients_ok :: "server_event list \<Rightarrow> ('t, 'f) server \<Rightarrow> bool" where
  "clients_ok es st \<longleftrightarrow> (\<forall>p. m_iPersistenceReady (clients st p) = READY_REMOTE \<longrightarrow> announced es (cl_PlatformID (clients st p)))"

definition events_ok :: "server_event list \<Rightarrow> bool" where
  "events_ok es \<longleftrightarrow> (\<forall>p uid. Joined p uid \<in> set es \<longrightarrow> announced es (show_nat (unat uid))) \<and>
     (\<forall>uid data. Saved uid data \<in> set es \<longrightarrow> announced es uid \<and> length data \<le> PERSISTENCE_MAX_SIZE)"

definition online_ok :: "nat \<Rightarrow> bool \<Rightarrow> server_event list \<Rightarrow> ('t, 'f) server \<Rightarrow> bool" where
  "online_ok n dup es st \<longleftrightarrow> (\<forall>p \<in> online es. p < n) \<and> m_bAllowDuplicateAccounts st = dup \<and>
     (dup \<or> inj_on (\<lambda>p. cl_PlatformID (clients st p)) (online es))"

definition server_inv :: "nat \<Rightarrow> bool \<Rightarrow> server_event list \<Rightarrow> ('t, 'f) server \<Rightarrow> bool" where
  "server_inv n dup es st \<longleftrightarrow> tables_ok es st \<and> clients_ok es st \<and> events_ok es \<and> online_ok n dup es st"

lemmas inv_defs = server_inv_def tables_ok_def clients_ok_def events_ok_def online_ok_def

text \<open>Sending data.\<close>

lemma auth_data_ok: "tables_ok es st \<Longrightarrow> pdataSize (auth_data p st) \<le> PERSISTENCE_MAX_SIZE"
  by (auto simp: tables_ok_def auth_data_def new_PlayerAuthenticationData_def split: option.split)

lemma touch_same [simp]:
  "clients (touch_auth_data p st) = clients st" "m_bAllowDuplicateAccounts (touch_auth_data p st) = m_bAllowDuplicateAccounts st"
  "auth_data p (touch_auth_data p st) = auth_data p st"
  by (simp_all add: touch_auth_data_def auth_data_def)

lemma touch_inv: "server_inv n dup es st \<Longrightarrow> server_inv n dup es (touch_auth_data p st)"
  using auth_data_ok [of es st p] by (auto simp: inv_defs touch_auth_data_def)

lemma WritePersistentData_inv:
  assumes "server_inv n dup es st"
  shows "\<exists>ws st'. WritePersistentData p st = Ret (ws, st') \<and> server_inv n dup (es @ saves ws) st' \<and> clients st' = clients st \<and>
    m_bAllowDuplicateAccounts st' = m_bAllowDuplicateAccounts st"
proof (cases "m_iPersistenceReady (clients st p) = READY_REMOTE")
  case True
  have size: "pdataSize (auth_data p st) \<le> PERSISTENCE_MAX_SIZE" using auth_data_ok assms by (auto simp: server_inv_def)
  have ann: "announced es (cl_PlatformID (clients st p))" using assms True by (auto simp: inv_defs)
  define ws where "ws = (if pdataSize (auth_data p st) = 0 then []
    else [(cl_PlatformID (clients st p), take (pdataSize (auth_data p st)) (m_PersistenceBuffer (clients st p)))])"
  have w: "WritePersistentData p st = Ret (ws, touch_auth_data p st)"
    using True size by (simp add: WritePersistentData_def Let_def ws_def)
  have "events_ok (es @ saves ws)"
    using assms ann size by (auto simp: server_inv_def events_ok_def ws_def saves_def intro: announced_append)
  moreover have "tables_ok (es @ saves ws) (touch_auth_data p st)" "clients_ok (es @ saves ws) (touch_auth_data p st)"
    using touch_inv [OF assms, of p] by (auto simp: inv_defs intro: announced_append)
  moreover have "online_ok n dup (es @ saves ws) (touch_auth_data p st)"
    using touch_inv [OF assms, of p] by (simp add: server_inv_def online_ok_def online_saves)
  ultimately show ?thesis using w by (auto simp: server_inv_def)
next
  case False
  then show ?thesis using assms by (auto simp: WritePersistentData_def Let_def saves_def)
qed
text \<open>Removing the data of a player and setting flags keep the invariant.\<close>

lemma set_entry_set: "x \<in> set (set_entry k v xs) \<Longrightarrow> x = (k, v) \<or> x \<in> set xs"
  by (induction k v xs rule: set_entry.induct) (auto split: if_splits)

lemma erase_entry_subset: "set (erase_entry k xs) \<subseteq> set xs"
  by (auto simp: erase_entry_def)

lemma RemovePlayerAuthData_inv:
  assumes "server_inv n dup es st"
  shows "server_inv n dup es (snd (RemovePlayerAuthData env p st))" "clients (snd (RemovePlayerAuthData env p st)) = clients st"
    "m_PlayerAuthenticationData (snd (RemovePlayerAuthData env p st)) = m_PlayerAuthenticationData st"
  using assms erase_entry_subset
  by (auto simp: RemovePlayerAuthData_def inv_defs split: option.split) blast+

lemma set_buffer_inv:
  "server_inv n dup es st \<Longrightarrow> server_inv n dup es (set_client p ((clients st p)\<lparr>m_PersistenceBuffer := data\<rparr>) st)"
  by (auto simp: inv_defs set_client_def inj_on_def)

lemma auth_RemovePlayer_inv: "server_inv n dup es st \<Longrightarrow> server_inv n dup es (auth_RemovePlayer p st)"
  by (auto simp: inv_defs auth_RemovePlayer_def)

lemma limits_inv: "server_inv n dup es (st\<lparr>limits := l\<rparr>) = server_inv n dup es st"
  by (simp add: inv_defs)

lemma Quit_inv: "server_inv n dup es st \<Longrightarrow> server_inv n dup (es @ [Quit p]) st"
  by (auto simp: inv_defs online_append_one announced_append inj_on_def)

text \<open>Each kind of step.\<close>

definition step_ok :: "nat \<Rightarrow> bool \<Rightarrow> server_event list \<Rightarrow> (server_event list \<times> ('t, 'f) server) outcome \<Rightarrow> bool" where
  "step_ok n dup es r \<longleftrightarrow> (\<exists>es' st'. r = Ret (es', st') \<and> server_inv n dup (es @ es') st')"

lemma Announce_inv:
  assumes "server_inv n dup es st" "length username < 64" "length pdata \<le> PERSISTENCE_MAX_SIZE"
  shows "step_ok n dup es (server_step env (Announce token uid username pdata) st)"
proof -
  let ?es = "es @ [Announced token (show_nat (unat uid))]"
  let ?map = "set_entry token \<lparr>ra_uid = show_nat (unat uid), ra_username = username, ra_pdata = pdata\<rparr> (m_RemoteAuthenticationData st)"
  have "announced ?es (show_nat (unat uid))" by (auto simp: announced_def)
  then have "server_inv n dup ?es (st\<lparr>m_RemoteAuthenticationData := ?map\<rparr>)"
    using assms(1,3) by (auto simp: inv_defs online_append_one dest!: set_entry_set intro: announced_append)
  then show ?thesis using assms(2) by (simp add: step_ok_def AddRemotePlayer_def)
qed

lemma own_same [simp]:
  "clients (OwnServerAuthenticated old token uid pdata st) = clients st"
  "m_PlayerAuthenticationData (OwnServerAuthenticated old token uid pdata st) = m_PlayerAuthenticationData st"
  "m_bStartingLocalSPGame (OwnServerAuthenticated old token uid pdata st) = m_bStartingLocalSPGame st"
  "m_bAllowDuplicateAccounts (OwnServerAuthenticated old token uid pdata st) = m_bAllowDuplicateAccounts st"
  by (simp_all add: OwnServerAuthenticated_def Let_def)

lemma own_table:
  assumes "(t, d) \<in> set (m_RemoteAuthenticationData (OwnServerAuthenticated old token uid pdata st))"
  shows "d = \<lparr>ra_uid = take 32 uid, ra_username = [], ra_pdata = pdata\<rparr> \<or> (t, d) \<in> set (m_RemoteAuthenticationData st)"
proof -
  obtain m where m: "m_RemoteAuthenticationData (OwnServerAuthenticated old token uid pdata st) =
      set_entry token \<lparr>ra_uid = take 32 uid, ra_username = [], ra_pdata = pdata\<rparr> m" "set m \<subseteq> set (m_RemoteAuthenticationData st)"
    using that [of "m_RemoteAuthenticationData st"] that [of "erase_entry (the old) (m_RemoteAuthenticationData st)"]
      erase_entry_subset [of "the old" "m_RemoteAuthenticationData st"]
    by (cases old) (simp_all add: OwnServerAuthenticated_def Let_def split: if_splits)
  then show ?thesis using set_entry_set [of "(t, d)"] assms by auto
qed

lemma AnnounceOwn_inv:
  assumes "server_inv n dup es st" "length pdata \<le> PERSISTENCE_MAX_SIZE"
  shows "step_ok n dup es (server_step env (AnnounceOwn oldToken newToken uid pdata) st)"
proof -
  let ?es = "es @ [Announced newToken (take 32 uid)]"
  have a: "announced ?es (take 32 uid)" by (auto simp: announced_def)
  have "announced ?es (ra_uid d) \<and> length (ra_pdata d) \<le> PERSISTENCE_MAX_SIZE"
    if "(t, d) \<in> set (m_RemoteAuthenticationData (OwnServerAuthenticated oldToken newToken uid pdata st))" for t d
    using own_table [OF that]
  proof
    assume "(t, d) \<in> set (m_RemoteAuthenticationData st)"
    then show ?thesis using assms(1) by (auto simp: inv_defs intro: announced_append)
  qed (use a assms(2) in simp)
  then have "tables_ok ?es (OwnServerAuthenticated oldToken newToken uid pdata st)"
    using assms(1) by (auto simp: server_inv_def tables_ok_def)
  moreover have "clients_ok ?es (OwnServerAuthenticated oldToken newToken uid pdata st)"
    "online_ok n dup ?es (OwnServerAuthenticated oldToken newToken uid pdata st)" "events_ok ?es"
    using assms(1) by (auto simp: inv_defs online_append_one intro: announced_append)
  ultimately show ?thesis by (simp add: step_ok_def server_inv_def)
qed

lemma Activate_inv:
  assumes "server_inv n dup es st"
  shows "step_ok n dup es (server_step env (Activate p) st)"
proof -
  let ?r = "RemovePlayerAuthData env p st"
  have inv: "server_inv n dup es (snd ?r)" by (rule RemovePlayerAuthData_inv [OF assms])
  then have "server_inv n dup es ((snd ?r)\<lparr>m_bForceResetLocalPlayerPersistence := False\<rparr>)" by (simp add: inv_defs)
  from WritePersistentData_inv [OF this, of p] inv assms show ?thesis
    by (cases ?r) (auto simp: step_ok_def ActivatePlayer_def saves_def obind_Ret split: bool.split)
qed

lemma LeaveServer_inv:
  assumes "server_inv n dup es st"
  shows "step_ok n dup es (server_step env (LeaveServer p reason) st)"
proof (cases "reason = ''Connection closing''")
  case True
  then show ?thesis using assms by (simp add: step_ok_def Disconnect_def saves_def)
next
  case False
  obtain ws st1 where w: "(if needPersistenceWriteOnLeave (auth_data p st) then WritePersistentData p (touch_auth_data p st)
      else Ret ([], touch_auth_data p st)) = Ret (ws, st1)" and inv: "server_inv n dup (es @ saves ws) st1"
  proof (cases "needPersistenceWriteOnLeave (auth_data p st)")
    case True
    then show ?thesis using that WritePersistentData_inv [OF touch_inv [OF assms, of p], of p] by auto
  next
    case False
    then show ?thesis using that [of "[]" "touch_auth_data p st"] touch_inv [OF assms, of p] by (simp add: saves_def)
  qed
  let ?st2 = "set_client p ((clients st1 p)\<lparr>m_PersistenceBuffer := replicate (pdataSize (auth_data p st1)) 0 @
      drop (pdataSize (auth_data p st1)) (m_PersistenceBuffer (clients st1 p))\<rparr>) st1"
  have "server_inv n dup (es @ saves ws) ?st2" by (rule set_buffer_inv [OF inv])
  then have "server_inv n dup (es @ saves ws) (auth_RemovePlayer p (snd (RemovePlayerAuthData env p ?st2)))"
    by (intro auth_RemovePlayer_inv RemovePlayerAuthData_inv(1))
  then have "server_inv n dup (es @ saves ws @ [Quit p]) (auth_RemovePlayer p (snd (RemovePlayerAuthData env p ?st2)))"
    using Quit_inv by force
  moreover have "pdataSize (auth_data p st1) \<le> PERSISTENCE_MAX_SIZE"
    using inv auth_data_ok by (auto simp: server_inv_def)
  ultimately show ?thesis using False
    by (simp add: step_ok_def Disconnect_def w Let_def limits_inv)
qed

lemma EarlyWrite_inv:
  assumes "server_inv n dup es st"
  shows "step_ok n dup es (server_step env (EarlyWrite p) st)"
proof (cases "m_PlayerAuthenticationData st p")
  case None
  then show ?thesis using assms by (simp add: step_ok_def NSEarlyWritePlayerPersistenceForLeave_def saves_def)
next
  case (Some d)
  have "server_inv n dup es (st\<lparr>m_PlayerAuthenticationData := (m_PlayerAuthenticationData st)(p \<mapsto> d\<lparr>needPersistenceWriteOnLeave := False\<rparr>)\<rparr>)"
    using assms Some by (auto simp: inv_defs)
  from WritePersistentData_inv [OF this, of p] Some show ?thesis
    by (auto simp: step_ok_def NSEarlyWritePlayerPersistenceForLeave_def)
qed
text \<open>Connecting.\<close>

lemma bans_inv: "server_inv n dup es (st\<lparr>bans := b\<rparr>) = server_inv n dup es st"
  by (simp add: inv_defs)

lemma AuthenticatePlayer_returns:
  assumes "tables_ok es st"
  shows "\<exists>st'. AuthenticatePlayer env p uid token st = Ret st'"
  using assms by (auto simp: AuthenticatePlayer_def Let_def tables_ok_def split: option.split dest!: map_of_SomeD)

lemma auth_AddPlayer_tables:
  assumes "tables_ok es st"
  shows "tables_ok es (auth_AddPlayer p token st)"
proof -
  have "length (ra_pdata d) \<le> PERSISTENCE_MAX_SIZE" if "map_of (m_RemoteAuthenticationData st) t = Some d" for t d
    using assms map_of_SomeD [OF that] by (auto simp: tables_ok_def)
  then show ?thesis using assms by (auto simp: auth_AddPlayer_def tables_ok_def Let_def split: option.splits)
qed

lemma no_failure:
  assumes "join_failure env p pName uid token st = None" "secure_env n env" "\<not> m_bStartingLocalSPGame st"
  shows "m_bAllowDuplicateAccounts st \<or> (\<forall>i < n. i \<noteq> p \<longrightarrow> cl_PlatformID (clients st i) \<noteq> show_nat (unat uid))"
    "\<exists>d. map_of (m_RemoteAuthenticationData st) token = Some d \<and> ra_uid d = show_nat (unat uid)"
  using assms by (auto simp: join_failure_def may_authenticate_def secure_env_def split: if_splits)

lemma ConnectClient_inv:
  assumes "server_inv n dup es st" "secure_env n env" "p < n"
  shows "step_ok n dup es (server_step env (ConnectClient p pName False (Some token) uid) st)"
proof (cases "join_failure env p pName uid token st")
  case (Some e)
  then show ?thesis using assms(1) by (simp add: step_ok_def Connect_def connect_checks_result bans_inv)
next
  case None
  define b where "b = joining_bans env p pName uid token st"
  show ?thesis
  proof (cases "engine_connect env False (joining_name token pName st) (clients st p)")
    case none: None
    then show ?thesis using assms(1) None
      by (simp add: step_ok_def Connect_def connect_checks_result connect_client_def bans_inv)
  next
    case (Some cl)
    let ?st0 = "set_client p cl (st\<lparr>bans := b\<rparr>)"
    have cl: "\<not> m_bFakePlayer cl" "m_iPersistenceReady cl = NOT_READY" using assms(2) Some by (auto simp: secure_env_def)
    have t0: "tables_ok es ?st0" using assms(1) by (auto simp: inv_defs set_client_def)
    obtain st1 where st1: "AuthenticatePlayer env p uid (Some token) ?st0 = Ret st1" using AuthenticatePlayer_returns [OF t0] by blast
    obtain c where c: "st1 = set_client p c ?st0" "cl_PlatformID c = show_nat (unat uid)"
      using AuthenticatePlayer_client [OF st1] cl by auto
    let ?st2 = "auth_AddPlayer p (Some token) st1" and ?es = "es @ [Joined p uid]"
    have step: "\<exists>l. server_step env (ConnectClient p pName False (Some token) uid) st = Ret ([Joined p uid], ?st2\<lparr>limits := l\<rparr>)"
      using None Some st1 by (intro exI) (simp add: Connect_def connect_checks_result connect_client_def b_def Let_def)
    have sp: "\<not> m_bStartingLocalSPGame st" using assms(1) by (simp add: inv_defs)
    have nf: "m_bAllowDuplicateAccounts st \<or> (\<forall>i < n. i \<noteq> p \<longrightarrow> cl_PlatformID (clients st i) \<noteq> show_nat (unat uid))"
        "\<exists>d. map_of (m_RemoteAuthenticationData st) token = Some d \<and> ra_uid d = show_nat (unat uid)"
      using no_failure [OF None assms(2) sp] by simp_all
    have ann: "announced ?es (show_nat (unat uid))"
      using nf(2) assms(1) map_of_SomeD by (fastforce simp: inv_defs intro: announced_append)
    have clients: "clients ?st2 = (clients st)(p := c)" by (simp add: c(1))
    have "tables_ok es st1" using t0 by (simp add: c(1) tables_ok_def)
    then have "tables_ok ?es ?st2" using auth_AddPlayer_tables [of es st1] by (auto simp: tables_ok_def intro: announced_append)
    moreover have "clients_ok ?es ?st2"
      using assms(1) ann unfolding clients_ok_def clients by (auto simp: inv_defs c(2) intro: announced_append)
    moreover have "events_ok ?es" using assms(1) ann by (auto simp: inv_defs intro: announced_append)
    moreover have "online_ok n dup ?es ?st2"
    proof -
      have "m_bAllowDuplicateAccounts ?st2 = m_bAllowDuplicateAccounts st" by (simp add: c(1))
      moreover have "inj_on (\<lambda>q. cl_PlatformID (((clients st)(p := c)) q)) (insert p (online es))"
        if "inj_on (\<lambda>q. cl_PlatformID (clients st q)) (online es)" "\<forall>i < n. i \<noteq> p \<longrightarrow> cl_PlatformID (clients st i) \<noteq> show_nat (unat uid)"
          "\<forall>q \<in> online es. q < n"
        using that c(2) by (auto simp: inj_on_def)
      ultimately show ?thesis using assms(1,3) nf(1) unfolding online_ok_def clients
        by (auto simp: server_inv_def online_ok_def online_append_one simp del: auth_AddPlayer_same(1))
    qed
    ultimately show ?thesis using step by (auto simp: step_ok_def server_inv_def inv_defs)
  qed
qed

lemma server_step_inv:
  assumes "server_inv n dup es st" "secure_env n env" "ordinary_call n c" "announcement_ok c"
  shows "step_ok n dup es (server_step env c st)"
proof (cases c)
  case (ConnectClient p pName fake token uid)
  then show ?thesis using ConnectClient_inv [OF assms(1,2)] assms(3) by auto
next
  case (GameWrites p data)
  then show ?thesis using assms(1) set_buffer_inv by (auto simp: step_ok_def)
next
  case ResetPersistence
  then show ?thesis using assms(1) by (simp add: step_ok_def inv_defs)
next
  case (SetLocalGame a b)
  then show ?thesis using assms(1,3) by (simp add: step_ok_def inv_defs)
qed (use assms in \<open>auto intro: Announce_inv AnnounceOwn_inv Activate_inv LeaveServer_inv EarlyWrite_inv simp del: server_step.simps\<close>)

lemma server_run_inv:
  assumes "\<forall>(env, c) \<in> set cs. secure_env n env \<and> ordinary_call n c \<and> announcement_ok c" "server_inv n dup es st"
  shows "\<exists>es' st'. server_run cs (es, st) = Ret (es', st') \<and> server_inv n dup es' st'"
  using assms
proof (induction cs arbitrary: es st)
  case (Cons x cs)
  obtain env c where x: "x = (env, c)" by (cases x)
  then obtain es1 st1 where "server_step env c st = Ret (es1, st1)" "server_inv n dup (es @ es1) st1"
    using server_step_inv [OF Cons.prems(2), of env c] Cons.prems(1) by (auto simp: step_ok_def)
  then show ?case using Cons.IH [of "es @ es1" st1] Cons.prems(1) x by simp
qed simp

text \<open>
  C31: In every run of a server that does not allow insecure connections, without bots and outside of a local game, in which what is
  announced fits: nothing undefined happens; who joins was announced, under the user id of the announcement, by the master
  server or as the local player; data is only sent for user ids that were announced, and never more than the buffer holds;
  and unless it is allowed, no two clients who are on the server have the same user id.
\<close>

theorem server_is_secure:
  fixes cs :: "(('t, 'f) server_env \<times> server_call) list"
  assumes "\<forall>(env, c) \<in> set cs. secure_env n env \<and> ordinary_call n c \<and> announcement_ok c"
    and "\<forall>p. m_iPersistenceReady (cls p) \<noteq> READY_REMOTE"
  shows "\<exists>es st. server_run cs ([], new_server cls b allowDuplicates) = Ret (es, st) \<and>
    (\<forall>p uid. Joined p uid \<in> set es \<longrightarrow> (\<exists>token. Announced token (show_nat (unat uid)) \<in> set es)) \<and>
    (\<forall>uid data. Saved uid data \<in> set es \<longrightarrow> (\<exists>token. Announced token uid \<in> set es) \<and> length data \<le> PERSISTENCE_MAX_SIZE) \<and>
    (allowDuplicates \<or> inj_on (\<lambda>p. cl_PlatformID (clients st p)) (online es))"
proof -
  have "server_inv n allowDuplicates [] (new_server cls b allowDuplicates)"
    using assms(2) by (auto simp: inv_defs new_server_def online_def)
  from server_run_inv [OF assms(1) this] obtain es st where run: "server_run cs ([], new_server cls b allowDuplicates) = Ret (es, st)"
    and inv: "server_inv n allowDuplicates es st" by blast
  then show ?thesis using run inv by (auto simp: inv_defs announced_def)
qed

definition ex_client :: client where
  "ex_client = \<lparr>m_iPersistenceReady = NOT_READY, m_PersistenceBuffer = [], cl_PlatformID = [], m_bFakePlayer = False\<rparr>"

definition ex_server_env :: "bool \<Rightarrow> (int, int) server_env" where
  "ex_server_env insecure = \<lparr>ns_erase_auth_info = True, ns_auth_allow_insecure = insecure, LocalPlayerUserID = ''1'', IsDedicatedServer = True,
     m_nMaxClients = 2, limit_ops = ms_clock, tick_budget = (1, 1, 64),
     engine_connect = (\<lambda>bot name c. Some (c\<lparr>m_bFakePlayer := bot, m_iPersistenceReady := NOT_READY\<rparr>))\<rparr>"

definition ex_join :: "server_call list" where
  "ex_join = [Announce ''t'' 77 ''pilot'' [5, 6], ConnectClient 0 ''x'' False (Some ''t'') 77, ConnectClient 1 ''y'' False (Some ''t'') 77,
     Activate 0, Activate 0, GameWrites 0 [8, 9], LeaveServer 0 ''bye'']"

definition outcome_of :: "'a outcome \<Rightarrow> 'a option" where
  "outcome_of r = (case r of Ret x \<Rightarrow> Some x | _ \<Rightarrow> None)"

definition no_bans :: ban_state where "no_bans = \<lparr>m_vBannedUids = [], banlist_txt = None\<rparr>"

lemma ex_texts: "show_nat 77 = ''77''" "show_nat 99 = ''99''" "show_nat 78 = ''78''" "show_nat 66 = ''66''" by code_simp+

lemmas run_defs = AddRemotePlayer_def Connect_def connect_checks_def VerifyPlayerName_def IsUIDAllowed_def ReloadBanlist_def
  CheckAuthentication_def IsDuplicateAccount_def connect_client_def AuthenticatePlayer_def auth_AddPlayer_def ActivatePlayer_def
  RemovePlayerAuthData_def WritePersistentData_def Disconnect_def auth_data_def touch_auth_data_def auth_RemovePlayer_def
  erase_entry_def saves_def PERSISTENCE_MAX_SIZE_def new_PlayerAuthenticationData_def set_client_def Let_def
  new_server_def ex_client_def ex_server_env_def ex_join_def no_bans_def outcome_of_def ex_texts

theorem server_is_secure_witness:
  "map_option fst (outcome_of (server_run (map (Pair (ex_server_env False)) ex_join) ([], new_server (\<lambda>p. ex_client) no_bans False))) =
     Some [Announced ''t'' ''77'', Joined 0 77, Saved ''77'' [5, 6], Saved ''77'' [8, 9], Quit 0] \<and>
   (\<exists>es st. server_run (map (Pair (ex_server_env False)) ex_join) ([], new_server (\<lambda>p. ex_client) no_bans False) = Ret (es, st) \<and>
      inj_on (\<lambda>p. cl_PlatformID (clients st p)) (online es))"
proof
  show "map_option fst (outcome_of (server_run (map (Pair (ex_server_env False)) ex_join) ([], new_server (\<lambda>p. ex_client) no_bans False))) =
     Some [Announced ''t'' ''77'', Joined 0 77, Saved ''77'' [5, 6], Saved ''77'' [8, 9], Quit 0]" by (simp add: run_defs)
  have "secure_env 2 (ex_server_env False)" by (simp add: secure_env_def ex_server_env_def)
  then have "\<forall>(env, c) \<in> set (map (Pair (ex_server_env False)) ex_join). secure_env 2 env \<and> ordinary_call 2 c \<and> announcement_ok c"
    by (simp add: ex_join_def PERSISTENCE_MAX_SIZE_def)
  from server_is_secure [OF this, of "\<lambda>p. ex_client" no_bans False]
  show "\<exists>es st. server_run (map (Pair (ex_server_env False)) ex_join) ([], new_server (\<lambda>p. ex_client) no_bans False) = Ret (es, st) \<and>
      inj_on (\<lambda>p. cl_PlatformID (clients st p)) (online es)"
    by (auto simp: ex_client_def)
qed

lemma example_ban_file: "strtoull ` set (getlines (text_mode ''66'')) = {66}"
proof -
  have "getlines (text_mode ''66'') = [''66'']" by code_simp
  then show ?thesis
    by (simp add: strtoull_def num_prefix_def is_space_def is_digit_def digits_val_def)
qed

text \<open>The condition of a connection at work: a banned client, a wrong token, and a client who joins.\<close>

theorem join_condition_witness:
  "let st = (new_server (\<lambda>p. ex_client) \<lparr>m_vBannedUids = [], banlist_txt = Some ''66''\<rparr> False)
         \<lparr>m_RemoteAuthenticationData := [(''t'', \<lparr>ra_uid = ''77'', ra_username = [], ra_pdata = []\<rparr>)]\<rparr>
   in map_option fst (outcome_of (Connect (ex_server_env False) 0 ''x'' False (Some ''t'') 66 st)) = Some (Some ''Banned From server.'', False) \<and>
      map_option fst (outcome_of (Connect (ex_server_env False) 0 ''x'' False (Some ''t'') 78 st)) = Some (Some ''Authentication Failed.'', False) \<and>
      (\<exists>st'. Connect (ex_server_env False) 0 ''x'' False (Some ''t'') 77 st = Ret ((None, True), st') \<and> cl_PlatformID (clients st' 0) = ''77'')"
proof -
  define st :: "(int, int) server" where "st = (new_server (\<lambda>p. ex_client) \<lparr>m_vBannedUids = [], banlist_txt = Some ''66''\<rparr> False)
         \<lparr>m_RemoteAuthenticationData := [(''t'', \<lparr>ra_uid = ''77'', ra_username = [], ra_pdata = []\<rparr>)]\<rparr>"
  have r: "map_option fst (outcome_of (Connect (ex_server_env False) 0 ''x'' False (Some ''t'') 66 st)) = Some (Some ''Banned From server.'', False)"
    "map_option fst (outcome_of (Connect (ex_server_env False) 0 ''x'' False (Some ''t'') 78 st)) = Some (Some ''Authentication Failed.'', False)"
    "map_option fst (outcome_of (Connect (ex_server_env False) 0 ''x'' False (Some ''t'') 77 st)) = Some (None, True)"
    unfolding st_def by (simp_all add: run_defs example_ban_file)
  from r(3) obtain st' where st': "Connect (ex_server_env False) 0 ''x'' False (Some ''t'') 77 st = Ret ((None, True), st')"
    by (cases "Connect (ex_server_env False) 0 ''x'' False (Some ''t'') 77 st") (auto simp: outcome_of_def)
  have "cl_PlatformID (clients st' 0) = show_nat (unat (77 :: u64))"
    using join_condition [OF st'] by (simp add: ex_server_env_def)
  also have "\<dots> = ''77''" by code_simp
  finally show ?thesis using r(1,2) st' unfolding st_def [symmetric] Let_def by blast
qed

text \<open>
  On a server that allows insecure connections, a client who has a token of its own joins under any user id it names, gets the data of
  its own account, and on leaving this data is sent as that of the other user id, because \<open>AuthenticatePlayer\<close> does not compare
  the user id with the one the token was announced for.
\<close>

theorem insecure_overwrites_data:
  "map_option fst (outcome_of (server_run (map (Pair (ex_server_env True))
       [Announce ''t'' 77 ''pilot'' [5, 6], ConnectClient 0 ''x'' False (Some ''t'') 99, Activate 0])
       ([], new_server (\<lambda>p. ex_client) no_bans False))) =
     Some [Announced ''t'' ''77'', Joined 0 99, Saved ''99'' [5, 6]]"
  by (simp add: run_defs)

text \<open>
  The data the master server sends for a player that authenticates with the server itself is copied into the client without a check of its
  size, so data that is too large is written behind the buffer.
\<close>

theorem own_data_overflows:
  assumes "length pdata > PERSISTENCE_MAX_SIZE"
  shows "AuthenticatePlayer (ex_server_env False) 0 77 (Some ''t'')
    (OwnServerAuthenticated None ''t'' ''77'' pdata (new_server (\<lambda>p. ex_client) no_bans False)) = Undefined"
  using assms by (simp add: AuthenticatePlayer_def OwnServerAuthenticated_def new_server_def Let_def)

end
