(* ===== verification/ModPackages.thy ===== *)
theory ModPackages
  imports ScriptJson ModRemove
begin

text \<open>
  The packages of the mod platforms on the disk, \<open>CModPlatform\<close> (\<open>src/modsystem/platform/modplatform.cpp\<close>): which package a
  directory belongs to, the file that marks where a package comes from, and the file with the state of a package of
  ModWorkshop; with the comparison of paths (\<open>ModPaths\<close> in \<open>src/modsystem/modmanager.cpp\<close>).
\<close>

section \<open>Paths\<close>

text \<open>The elements of a path without its drive, in normal form; \<open>..\<close> stays where nothing is before it.\<close>

definition normal_step :: "bool \<Rightarrow> string list \<Rightarrow> string \<Rightarrow> string list" where
  "normal_step rooted acc c =
     (if c = [] \<or> c = ''.'' then acc
      else if c = ''..'' then
        (if acc = [] then (if rooted then [] else [c]) else if last acc = ''..'' then acc @ [c] else butlast acc)
      else acc @ [c])"

definition is_rooted :: "string \<Rightarrow> bool" where
  "is_rooted rel \<longleftrightarrow> rel \<noteq> [] \<and> is_sep (hd rel)"

definition normal_names :: "string \<Rightarrow> string list" where
  "normal_names rel = foldl (normal_step (is_rooted rel)) [] (split_seps rel)"

fun join_names :: "string list \<Rightarrow> string" where
  "join_names [] = []"
| "join_names [c] = c"
| "join_names (c # cs) = c @ CHR 0x5C # join_names cs"

definition backslashes :: "string \<Rightarrow> string" where
  "backslashes s = map (\<lambda>c. if c = CHR ''/'' then CHR 0x5C else c) s"

definition lexically_normal :: "string \<Rightarrow> string" where
  "lexically_normal p =
     (if p = [] then []
      else case split_drive p of (drive, rel) \<Rightarrow>
        let names = normal_names rel;
            t = backslashes drive @ (if is_rooted rel then [CHR 0x5C] else []) @ join_names names @
              (if names \<noteq> [] \<and> last names \<noteq> ''..'' \<and> last (split_seps rel) \<in> {[], ''.'', ''..''} then [CHR 0x5C] else [])
        in if t = [] then ''.'' else t)"

text \<open>
  The first element of \<open>lexically_relative\<close> of a path in normal form, if it has one that is not a dot.
\<close>

fun drop_common :: "string list \<Rightarrow> string list \<Rightarrow> string list \<times> string list" where
  "drop_common (a # as) (b # bs) = (if a = b then drop_common as bs else (a # as, b # bs))"
| "drop_common as bs = (as, bs)"

definition relative_first :: "string \<Rightarrow> string \<Rightarrow> string option" where
  "relative_first p root =
     (case (split_drive p, split_drive root) of ((drive, rel), (drive', rel')) \<Rightarrow>
        if backslashes drive \<noteq> backslashes drive' \<or> is_rooted rel \<noteq> is_rooted rel' then None
        else case drop_common (normal_names rel) (normal_names rel') of (as, bs) \<Rightarrow>
          let up = length (filter (\<lambda>b. b = ''..'') bs); down = length bs - up in
          if down < up then None
          else if down > up then Some ''..''
          else case as of [] \<Rightarrow> None | a # _ \<Rightarrow> Some a)"

text \<open>
  The folders of mods and what is known of paths: the current directories and the comparison of names without regard to
  case (\<open>CompareStringOrdinal\<close>).
\<close>

record mod_paths =
  cwd_of :: "string \<Rightarrow> string list"
  same_name :: "string \<Rightarrow> string \<Rightarrow> bool"
  mod_folder :: string
  package_folder :: string
  remote_folder :: string

definition path_parts :: "string \<Rightarrow> string list" where
  "path_parts p = (case split_drive p of (drive, rel) \<Rightarrow> drive # split_seps rel)"

definition NormalizeModPathForComparison :: "mod_paths \<Rightarrow> string \<Rightarrow> string list" where
  "NormalizeModPathForComparison env p = canonical (cwd_of env) (path_parts p)"

definition ModPathComponentsEqual :: "mod_paths \<Rightarrow> string \<Rightarrow> string \<Rightarrow> bool" where
  "ModPathComponentsEqual env l r \<longleftrightarrow> \<not> (int (length l) > 2147483647 \<or> int (length r) > 2147483647) \<and> same_name env l r"

fun components_below :: "mod_paths \<Rightarrow> string list \<Rightarrow> string list \<Rightarrow> bool" where
  "components_below env p [] = True"
| "components_below env [] (r # rs) = False"
| "components_below env (p # ps) (r # rs) = (ModPathComponentsEqual env p r \<and> components_below env ps rs)"

definition IsAtOrBelow :: "mod_paths \<Rightarrow> string \<Rightarrow> string \<Rightarrow> bool" where
  "IsAtOrBelow env path root = components_below env (NormalizeModPathForComparison env path) (NormalizeModPathForComparison env root)"

definition paths_Equal :: "mod_paths \<Rightarrow> string \<Rightarrow> string \<Rightarrow> bool" where
  "paths_Equal env l r = list_all2 (ModPathComponentsEqual env) (NormalizeModPathForComparison env l) (NormalizeModPathForComparison env r)"

section \<open>Where a directory belongs\<close>

definition FindContainingPackageRoot :: "mod_paths \<Rightarrow> string \<Rightarrow> string option" where
  "FindContainingPackageRoot env modDir =
     (let packagesRoot = lexically_normal (package_folder env) in
      if \<not> IsAtOrBelow env modDir packagesRoot \<or> paths_Equal env modDir packagesRoot then None
      else case relative_first (lexically_normal modDir) packagesRoot of
        None \<Rightarrow> None
      | Some f \<Rightarrow> if f = ''..'' then None else Some (path_div packagesRoot f))"

definition ResolvePackageRoot :: "mod_paths \<Rightarrow> string \<Rightarrow> string" where
  "ResolvePackageRoot env path =
     (case FindContainingPackageRoot env path of Some root \<Rightarrow> root | None \<Rightarrow> lexically_normal path)"

definition MODWORKSHOP_MARKER_FILE :: string where "MODWORKSHOP_MARKER_FILE = ''.mws_id''"
definition THUNDERSTORE_MARKER_FILE :: string where "THUNDERSTORE_MARKER_FILE = ''.ts_id''"
definition MODWORKSHOP_STATE_FILE :: string where "MODWORKSHOP_STATE_FILE = ''.mws_state.json''"

text \<open>The files on the disk, by the text of their path.\<close>

type_synonym disk = "string \<rightharpoonup> string"

definition GetManagedSourceForPath :: "mod_paths \<Rightarrow> disk \<Rightarrow> string \<Rightarrow> ModSource" where
  "GetManagedSourceForPath env disk modDir =
     (let root = ResolvePackageRoot env modDir in
      if disk (path_div root MODWORKSHOP_MARKER_FILE) \<noteq> None then ModWorkshop
      else if disk (path_div root THUNDERSTORE_MARKER_FILE) \<noteq> None then Thunderstore
      else Unmanaged)"

definition GetManagedMarkerPath :: "mod_paths \<Rightarrow> string \<Rightarrow> ModSource \<Rightarrow> string option" where
  "GetManagedMarkerPath env packageDir platform =
     (let root = ResolvePackageRoot env packageDir in
      case platform of
        ModWorkshop \<Rightarrow> Some (path_div root MODWORKSHOP_MARKER_FILE)
      | Thunderstore \<Rightarrow> Some (path_div root THUNDERSTORE_MARKER_FILE)
      | _ \<Rightarrow> None)"

section \<open>Files\<close>

definition platform_Trim :: "string \<Rightarrow> string" where
  "platform_Trim value = rev (dropWhile is_space (rev (dropWhile is_space value)))"

definition is_xdigit :: "char \<Rightarrow> bool" where
  "is_xdigit c \<longleftrightarrow> (let n = (of_char c :: nat) in 48 \<le> n \<and> n \<le> 57 \<or> 65 \<le> n \<and> n \<le> 70 \<or> 97 \<le> n \<and> n \<le> 102)"

definition IsSha256 :: "string \<Rightarrow> bool" where
  "IsSha256 value \<longleftrightarrow> length value = 64 \<and> list_all is_xdigit value"

text \<open>
  What may fail when a text is written, with the message of the file system and the error code of Windows, and the name of the temporary
  file, which no other file has.
\<close>

record write_env =
  no_directory :: bool
  not_opened :: bool
  not_written :: bool
  not_moved :: bool
  error_text :: string
  last_error :: u32
  temporary :: "string \<Rightarrow> string"

definition WriteTextAtomically :: "write_env \<Rightarrow> string \<Rightarrow> string \<Rightarrow> disk \<Rightarrow> string option \<times> disk" where
  "WriteTextAtomically env destination contents disk =
     (if no_directory env then (Some (''Failed creating package directory: '' @ error_text env), disk)
      else
        let tmp = temporary env destination in
        if not_opened env then (Some (''Failed opening temporary file '' @ [CHR 0x27] @ tmp @ [CHR 0x27]), disk)
        else if not_written env then (Some (''Failed writing temporary file '' @ [CHR 0x27] @ tmp @ [CHR 0x27]), disk(tmp := None))
        else if not_moved env
        then (Some (''Failed committing '' @ [CHR 0x27] @ destination @ [CHR 0x27] @ '': Windows error '' @ show_nat (unat (last_error env))),
          disk(tmp := None))
        else (None, (disk(tmp := None))(destination \<mapsto> contents)))"

definition MAX_MARKER_BYTES :: nat where "MAX_MARKER_BYTES = 128"
definition MAX_STATE_BYTES :: nat where "MAX_STATE_BYTES = 256 * 1024"

definition TryReadManagedId :: "mod_paths \<Rightarrow> disk \<Rightarrow> string \<Rightarrow> ModSource \<Rightarrow> string option" where
  "TryReadManagedId env disk modDir platform =
     (case GetManagedMarkerPath env modDir platform of
        None \<Rightarrow> None
      | Some markerPath \<Rightarrow>
          (case disk markerPath of
             None \<Rightarrow> None
           | Some contents \<Rightarrow>
               if length contents = 0 \<or> length contents > MAX_MARKER_BYTES then None
               else let value = platform_Trim contents in if value = [] then None else Some value))"

definition WriteManagedMarker :: "mod_paths \<Rightarrow> write_env \<Rightarrow> string \<Rightarrow> ModSource \<Rightarrow> string \<Rightarrow> disk \<Rightarrow> bool \<times> disk" where
  "WriteManagedMarker env w packageDir platform mark disk =
     (case GetManagedMarkerPath env packageDir platform of
        None \<Rightarrow> (False, disk)
      | Some markerPath \<Rightarrow>
          if mark = [] \<or> length mark > MAX_MARKER_BYTES then (False, disk)
          else case WriteTextAtomically w markerPath mark disk of (e, disk) \<Rightarrow> (e = None, disk))"

section \<open>The state of a package\<close>

fun json_member :: "'d json \<Rightarrow> string \<Rightarrow> 'd json option" where
  "json_member (JObject ms) n = map_of ms n"
| "json_member _ n = None"

definition json_string :: "'d json \<Rightarrow> string \<Rightarrow> string" where
  "json_string v n = (case json_member v n of Some (JString s) \<Rightarrow> s | _ \<Rightarrow> [])"

definition json_uint64 :: "'d json \<Rightarrow> string \<Rightarrow> u64 option" where
  "json_uint64 v n =
     (case json_member v n of Some (JInt i) \<Rightarrow> if 0 \<le> i \<and> i < 2 ^ 64 then Some (of_int i) else None | _ \<Rightarrow> None)"

definition MODWORKSHOP_STATE_SCHEMA :: int where "MODWORKSHOP_STATE_SCHEMA = 1"

definition read_contained :: "'d json list \<Rightarrow> ModWorkshopContainedMod list option" where
  "read_contained vs =
     those (map (\<lambda>v. let m = \<lparr>cm_name = json_string v ''name'', cm_version = json_string v ''version''\<rparr> in
       case v of JObject ms \<Rightarrow> if cm_name m = [] then None else Some m | _ \<Rightarrow> None) vs)"

text \<open>From the document to the state, or the message.\<close>

definition state_of_document :: "'d json \<Rightarrow> string + ModWorkshopPackageState" where
  "state_of_document document =
     (case (json_member document ''schema'', json_uint64 document ''mod_id'', json_uint64 document ''selected_file_id'',
            json_uint64 document ''download_size'') of
        (Some (JInt schema), Some mid, Some fid, Some sz) \<Rightarrow>
          let sha256 = json_string document ''sha256'' in
          if schema \<noteq> MODWORKSHOP_STATE_SCHEMA \<or> mid = 0 \<or> fid = 0 \<or> \<not> IsSha256 sha256
          then Inl ''ModWorkshop package state is missing required verified fields''
          else
            let state = \<lparr>ps_schema = schema, ps_modId = mid, ps_selectedFileId = fid, ps_downloadSize = sz,
                  ps_selectedFileVersion = json_string document ''selected_file_version'',
                  ps_selectedFileUpdatedAt = json_string document ''selected_file_updated_at'',
                  ps_remoteModUpdatedAt = json_string document ''remote_mod_updated_at'', ps_sha256 = sha256,
                  ps_installedAt = json_string document ''installed_at'', ps_containedMods = []\<rparr>
            in (case json_member document ''contained_mods'' of
                  None \<Rightarrow> Inr state
                | Some (JArray vs) \<Rightarrow>
                    (case read_contained vs of
                       None \<Rightarrow> Inl ''ModWorkshop contained mod entry is malformed''
                     | Some ms \<Rightarrow> Inr (state\<lparr>ps_containedMods := ms\<rparr>))
                | Some _ \<Rightarrow> Inl ''ModWorkshop contained_mods field is not an array'')
      | _ \<Rightarrow> Inl ''ModWorkshop package state is missing required verified fields'')"

definition ReadWorkshopPackageState ::
    "mod_paths \<Rightarrow> (string \<Rightarrow> 'd json option) \<Rightarrow> disk \<Rightarrow> string \<Rightarrow> string + ModWorkshopPackageState" where
  "ReadWorkshopPackageState env Parse disk packageDir =
     (case disk (path_div (ResolvePackageRoot env packageDir) MODWORKSHOP_STATE_FILE) of
        None \<Rightarrow> Inl ''ModWorkshop package state does not exist''
      | Some contents \<Rightarrow>
          if length contents = 0 \<or> length contents > MAX_STATE_BYTES
          then Inl ''ModWorkshop package state has an invalid size''
          else case Parse contents of
            Some (JObject ms) \<Rightarrow> state_of_document (JObject ms)
          | _ \<Rightarrow> Inl ''ModWorkshop package state is not valid JSON'')"

definition document_of_state :: "ModWorkshopPackageState \<Rightarrow> 'd json" where
  "document_of_state state =
     JObject [(''schema'', JInt (ps_schema state)), (''mod_id'', JInt (uint (ps_modId state))),
       (''selected_file_id'', JInt (uint (ps_selectedFileId state))), (''download_size'', JInt (uint (ps_downloadSize state))),
       (''selected_file_version'', JString (ps_selectedFileVersion state)),
       (''selected_file_updated_at'', JString (ps_selectedFileUpdatedAt state)),
       (''remote_mod_updated_at'', JString (ps_remoteModUpdatedAt state)), (''sha256'', JString (ps_sha256 state)),
       (''installed_at'', JString (ps_installedAt state)),
       (''contained_mods'', JArray (map (\<lambda>m. JObject [(''name'', JString (cm_name m)), (''version'', JString (cm_version m))])
          (ps_containedMods state)))]"

definition WriteWorkshopPackageState ::
    "mod_paths \<Rightarrow> write_env \<Rightarrow> ('d json \<Rightarrow> string) \<Rightarrow> string \<Rightarrow> ModWorkshopPackageState \<Rightarrow> disk \<Rightarrow> string option \<times> disk" where
  "WriteWorkshopPackageState env w Write packageDir state disk =
     (if ps_schema state \<noteq> MODWORKSHOP_STATE_SCHEMA \<or> ps_modId state = 0 \<or> ps_selectedFileId state = 0 \<or> \<not> IsSha256 (ps_sha256 state)
      then (Some ''Cannot write incomplete ModWorkshop package state'', disk)
      else WriteTextAtomically w (path_div (ResolvePackageRoot env packageDir) MODWORKSHOP_STATE_FILE)
        (Write (document_of_state state)) disk)"

end
