(* ===== verification/ModPackagesSpec.thy ===== *)
theory ModPackagesSpec
  imports ModPackages
begin

text \<open>
  What is written of a package is what is read of it, and a write that fails leaves what was there; how paths below
  a folder compare.
\<close>

section \<open>Paths\<close>

text \<open>Names are compared up to an equivalence.\<close>

definition names_ok :: "mod_paths \<Rightarrow> bool" where
  "names_ok env \<longleftrightarrow> equivp (same_name env) \<and> (\<forall>l r. same_name env l r \<longrightarrow> length l = length r)"

lemma components_equal_trans:
  "names_ok env \<Longrightarrow> ModPathComponentsEqual env a b \<Longrightarrow> ModPathComponentsEqual env b c \<Longrightarrow> ModPathComponentsEqual env a c"
  by (auto simp: names_ok_def ModPathComponentsEqual_def elim: equivp_transp)

lemma components_equal_sym:
  "names_ok env \<Longrightarrow> ModPathComponentsEqual env a b \<Longrightarrow> ModPathComponentsEqual env b a"
  by (auto simp: names_ok_def ModPathComponentsEqual_def elim: equivp_symp)

lemma components_below_iff:
  "components_below env ps rs \<longleftrightarrow> length rs \<le> length ps \<and> list_all2 (ModPathComponentsEqual env) (take (length rs) ps) rs"
  by (induction env ps rs rule: components_below.induct) auto

text \<open>Being below a folder is a preorder, and equality of paths its equivalence.\<close>

lemma below_trans:
  assumes "names_ok env" "IsAtOrBelow env a b" "IsAtOrBelow env b c"
  shows "IsAtOrBelow env a c"
proof -
  let ?n = "NormalizeModPathForComparison env"
  have "list_all2 (ModPathComponentsEqual env) (take (length (?n c)) (?n a)) (take (length (?n c)) (?n b))"
    using list_all2_takeI [of "ModPathComponentsEqual env" "take (length (?n b)) (?n a)" "?n b" "length (?n c)"] assms(2,3)
    by (simp add: IsAtOrBelow_def components_below_iff min_def)
  then show ?thesis
    using list_all2_trans [of "ModPathComponentsEqual env" "ModPathComponentsEqual env" "ModPathComponentsEqual env"]
      components_equal_trans [OF assms(1)] assms(2,3)
    unfolding IsAtOrBelow_def components_below_iff by (meson order_trans)
qed

lemma Equal_iff_below:
  assumes "names_ok env"
  shows "paths_Equal env a b \<longleftrightarrow> IsAtOrBelow env a b \<and> IsAtOrBelow env b a"
  using components_equal_sym [OF assms]
  by (auto simp: paths_Equal_def IsAtOrBelow_def components_below_iff list_all2_conv_all_nth)

section \<open>Files\<close>

text \<open>A text is written as a whole or not at all.\<close>

lemma WriteTextAtomically_cases:
  assumes "WriteTextAtomically w path contents disk = (e, disk')" "temporary w path \<noteq> path"
  shows "disk' path = (if e = None then Some contents else disk path)"
  using assms by (auto simp: WriteTextAtomically_def Let_def split: if_splits)

lemma json_member_simps [simp]:
  "json_string (JObject ms) n = (case map_of ms n of Some (JString s) \<Rightarrow> s | _ \<Rightarrow> [])"
  "json_uint64 (JObject ms) n =
     (case map_of ms n of Some (JInt i) \<Rightarrow> if 0 \<le> i \<and> i < 2 ^ 64 then Some (of_int i) else None | _ \<Rightarrow> None)"
  by (simp_all add: json_string_def json_uint64_def)

lemma those_map_same: "\<forall>x \<in> set xs. f x = Some x \<Longrightarrow> those (map f xs) = Some xs"
  by (induction xs) auto

lemma those_map_None: "x \<in> set xs \<Longrightarrow> f x = None \<Longrightarrow> those (map f xs) = None"
  by (induction xs) (auto split: option.split)

lemma read_contained_written:
  "read_contained (map (\<lambda>m. JObject [(''name'', JString (cm_name m)), (''version'', JString (cm_version m))]) ms) =
     (if \<exists>m \<in> set ms. cm_name m = [] then None else Some ms)"
  unfolding read_contained_def map_map
  by (auto simp: Let_def intro!: those_map_same those_map_None)

lemma uint_u64 [simp]: "uint (x :: u64) < 18446744073709551616" "0 \<le> uint (x :: u64)"
  using uint_lt2p [of x] by simp_all

lemma state_of_document_of_state:
  assumes "ps_schema state = MODWORKSHOP_STATE_SCHEMA" "ps_modId state \<noteq> 0" "ps_selectedFileId state \<noteq> 0" "IsSha256 (ps_sha256 state)"
  shows "state_of_document (document_of_state state :: 'd json) =
    (if \<exists>m \<in> set (ps_containedMods state). cm_name m = [] then Inl ''ModWorkshop contained mod entry is malformed'' else Inr state)"
  using assms unfolding state_of_document_def document_of_state_def
  by (simp add: read_contained_written Let_def)

text \<open>
  C32: When the state of a package has been written, reading it returns the state, unless one of its mods has no name or the
  text has become too long, which the writer does not check. When writing fails, at whatever point, reading returns
  what it returned before.
\<close>

theorem package_state_round_trip:
  assumes "WriteWorkshopPackageState env w Write root state disk = (e, disk')"
    and "Parse (Write (document_of_state state)) = Some (document_of_state state)" "Write (document_of_state state) \<noteq> []" and "\<forall>path. temporary w path \<noteq> path"
  shows "ReadWorkshopPackageState env Parse disk' root =
    (if e \<noteq> None then ReadWorkshopPackageState env Parse disk root
     else if length (Write (document_of_state state)) > MAX_STATE_BYTES then Inl ''ModWorkshop package state has an invalid size''
     else if \<exists>m \<in> set (ps_containedMods state). cm_name m = [] then Inl ''ModWorkshop contained mod entry is malformed''
     else Inr state)"
proof (cases "ps_schema state \<noteq> MODWORKSHOP_STATE_SCHEMA \<or> ps_modId state = 0 \<or> ps_selectedFileId state = 0 \<or> \<not> IsSha256 (ps_sha256 state)")
  case True
  then show ?thesis using assms(1) by (auto simp: WriteWorkshopPackageState_def)
next
  case False
  let ?path = "path_div (ResolvePackageRoot env root) MODWORKSHOP_STATE_FILE"
  have "disk' ?path = (if e = None then Some (Write (document_of_state state)) else disk ?path)"
    using assms(1,4) False WriteTextAtomically_cases by (auto simp: WriteWorkshopPackageState_def)
  then show ?thesis
    using assms(2,3) False state_of_document_of_state [of state]
    by (auto simp: ReadWorkshopPackageState_def document_of_state_def)
qed

text \<open>The mark of a package is read back without the blanks around it.\<close>

lemma marker_round_trip:
  assumes "WriteManagedMarker env w root platform mark disk = (True, disk')" "\<forall>path. temporary w path \<noteq> path"
  shows "TryReadManagedId env disk' root platform = (if platform_Trim mark = [] then None else Some (platform_Trim mark))"
proof -
  obtain path where path: "GetManagedMarkerPath env root platform = Some path" "mark \<noteq> []" "length mark \<le> MAX_MARKER_BYTES"
      "WriteTextAtomically w path mark disk = (None, disk')"
    using assms(1) by (auto simp: WriteManagedMarker_def split: option.splits if_splits prod.splits)
  then show ?thesis
    using WriteTextAtomically_cases [OF path(4)] assms(2) by (simp add: TryReadManagedId_def Let_def)
qed

definition ex_mod_paths :: mod_paths where
  "ex_mod_paths = \<lparr>cwd_of = (\<lambda>d. [''C:'', ''g'']), same_name = (\<lambda>l r. map tolower l = map tolower r), mod_folder = ''R2/mods'',
     package_folder = ''R2/packages'', remote_folder = ''R2/remote''\<rparr>"

definition ex_write_env :: "bool \<Rightarrow> write_env" where
  "ex_write_env fails = \<lparr>no_directory = False, not_opened = False, not_written = False, not_moved = fails, error_text = [], last_error = 5, temporary = (\<lambda>p. p @ ''.tmp'')\<rparr>"

definition ex_state :: ModWorkshopPackageState where
  "ex_state = \<lparr>ps_schema = 1, ps_modId = 7, ps_selectedFileId = 9, ps_downloadSize = 100, ps_selectedFileVersion = ''1.0.0'',
     ps_selectedFileUpdatedAt = [], ps_remoteModUpdatedAt = [], ps_sha256 = replicate 64 CHR ''a'', ps_installedAt = [],
     ps_containedMods = [\<lparr>cm_name = ''A'', cm_version = ''1.0.0''\<rparr>]\<rparr>"

text \<open>A package below the folder of packages, in any case of letters, once with a disk that works and once without.\<close>

theorem package_state_round_trip_witness:
  "FindContainingPackageRoot ex_mod_paths ''R2/packages/X/mods/A'' = Some (backslashes ''R2/packages/X'') \<and>
   (let disk' = snd (WriteWorkshopPackageState ex_mod_paths (ex_write_env False) (\<lambda>_ :: unit json. ''{}'') ''R2/packages/X/mods/A'' ex_state Map.empty)
    in ReadWorkshopPackageState ex_mod_paths (\<lambda>_. Some (document_of_state ex_state :: unit json)) disk' ''R2/packages/X'' = Inr ex_state)"
proof -
  have r: "FindContainingPackageRoot ex_mod_paths ''R2/packages/X/mods/A'' = Some (backslashes ''R2/packages/X'')"
    "FindContainingPackageRoot ex_mod_paths ''R2/packages/X'' = Some (backslashes ''R2/packages/X'')" by code_simp+
  let ?w = "WriteWorkshopPackageState ex_mod_paths (ex_write_env False) (\<lambda>_ :: unit json. ''{}'')"
  have e: "?w ''R2/packages/X/mods/A'' ex_state Map.empty = ?w ''R2/packages/X'' ex_state Map.empty"
    by (simp add: WriteWorkshopPackageState_def ResolvePackageRoot_def r)
  have n: "fst (?w ''R2/packages/X'' ex_state Map.empty) = None"
    by (simp add: WriteWorkshopPackageState_def WriteTextAtomically_def ex_write_env_def ex_state_def MODWORKSHOP_STATE_SCHEMA_def
      IsSha256_def is_xdigit_def list_all_iff)
  obtain disk' where d: "?w ''R2/packages/X'' ex_state Map.empty = (None, disk')" using n by (cases "?w ''R2/packages/X'' ex_state Map.empty") auto
  have "\<forall>path. temporary (ex_write_env False) path \<noteq> path" "\<not> (\<exists>m \<in> set (ps_containedMods ex_state). cm_name m = [])"
    by (simp_all add: ex_write_env_def ex_state_def)
  then have "ReadWorkshopPackageState ex_mod_paths (\<lambda>_. Some (document_of_state ex_state :: unit json)) disk' ''R2/packages/X'' = Inr ex_state"
    using package_state_round_trip [OF d, of "\<lambda>_. Some (document_of_state ex_state)"] by (simp add: MAX_STATE_BYTES_def)
  then show ?thesis using r(1) d by (simp add: e)
qed

end
