(* ===== verification/ModManifest.thy ===== *)
theory ModManifest
  imports ModPackages
begin

text \<open>
  What a mod says of itself: the class \<open>Mod\<close> (\<open>src/modsystem/mod.h\<close>) and its constructor, which reads
  \<open>mod.json\<close> (\<open>src/modsystem/mod.cpp\<close>), with the flags of console variables (\<open>src/core/convar/convar.cpp\<close>).
\<close>

section \<open>Data\<close>

datatype ScriptContext = INVALID | SERVER | CLIENT | UI

record ModConVar =
  cv_Name :: string
  cv_DefaultValue :: string
  cv_HelpString :: string
  cv_Flags :: u32

record ModConCommand =
  cc_Name :: string
  cc_Function :: string
  cc_HelpString :: string
  cc_Context :: ScriptContext
  cc_Flags :: u32

record ModScriptCallback =
  cb_Context :: ScriptContext
  BeforeCallback :: string
  AfterCallback :: string
  DestroyCallback :: string

record ModScript =
  sc_Path :: string
  RunOn :: string
  Callbacks :: "ModScriptCallback list"

text \<open>
  Of a mod, the fields its manifest and the mod manager set; what loading finds in its directory is not part of it.
  A table is a list of its entries in the order they were inserted.
\<close>

record Mod =
  m_bEnabled :: bool
  m_bWasReadSuccessfully :: bool
  m_ModDirectory :: string
  m_Source :: ModSource
  m_PackageDirectory :: string
  m_ManagedId :: "string option"
  Name :: string
  Description :: string
  Version :: string
  DownloadLink :: string
  RequiredOnClient :: bool
  LoadPriority :: int
  Scripts :: "ModScript list"
  ConVars :: "ModConVar list"
  ConCommands :: "ModConCommand list"
  LocalisationFiles :: "string list"
  initScript :: string
  initScriptCallBack :: "string option"
  Pdiff :: string
  DependencyConstants :: "(string \<times> string) list"
  PluginDependencyConstants :: "string list"

text \<open>Before the manifest is read. The numbers that are not set are not used before they are.\<close>

definition new_Mod :: "string \<Rightarrow> Mod" where
  "new_Mod modDir =
     \<lparr>m_bEnabled = True, m_bWasReadSuccessfully = False, m_ModDirectory = modDir, m_Source = Unmanaged, m_PackageDirectory = [],
      m_ManagedId = None, Name = [], Description = [], Version = [], DownloadLink = [], RequiredOnClient = False,
      LoadPriority = 0, Scripts = [], ConVars = [], ConCommands = [], LocalisationFiles = [], initScript = [],
      initScriptCallBack = None, Pdiff = [], DependencyConstants = [], PluginDependencyConstants = []\<rparr>"

definition IsCoreModName :: "string \<Rightarrow> bool" where
  "IsCoreModName name \<longleftrightarrow>
     name = ''Northstar.Client'' \<or> name = ''Northstar.Coop'' \<or> name = ''Northstar.CustomServers'' \<or> name = ''Northstar.Custom''"

section \<open>Values\<close>

text \<open>
  \<open>GetString\<close>, as a C string, \<open>GetBool\<close> and \<open>GetInt\<close> of a JSON value: on a value of another type they are undefined.
\<close>

definition c_text :: "string \<Rightarrow> string" where
  "c_text s = takeWhile (\<lambda>c. c \<noteq> NUL) s"

fun get_string :: "'d json \<Rightarrow> string outcome" where
  "get_string (JString s) = Ret (c_text s)"
| "get_string _ = Undefined"

fun get_bool :: "'d json \<Rightarrow> bool outcome" where
  "get_bool (JBool b) = Ret b"
| "get_bool _ = Undefined"

fun is_int :: "'d json \<Rightarrow> bool" where
  "is_int (JInt i) = (- (2 ^ 31) \<le> i \<and> i < 2 ^ 31)"
| "is_int _ = False"

fun get_int :: "'d json \<Rightarrow> int outcome" where
  "get_int (JInt i) = (if - (2 ^ 31) \<le> i \<and> i < 2 ^ 31 then Ret i else Undefined)"
| "get_int _ = Undefined"

fun is_string :: "'d json \<Rightarrow> bool" where
  "is_string (JString s) = True"
| "is_string _ = False"

text \<open>A member of an object, or a default if it has none of this name.\<close>

definition member_or :: "'a \<Rightarrow> ('d json \<Rightarrow> 'a outcome) \<Rightarrow> (string \<times> 'd json) list \<Rightarrow> string \<Rightarrow> 'a outcome" where
  "member_or def get ms name = (case map_of ms name of None \<Rightarrow> Ret def | Some v \<Rightarrow> get v)"

text \<open>A loop that reads each element and keeps some.\<close>

fun read_all :: "('a \<Rightarrow> 'b option outcome) \<Rightarrow> 'a list \<Rightarrow> 'b list outcome" where
  "read_all f [] = Ret []"
| "read_all f (x # xs) = obind (f x) (\<lambda>y. obind (read_all f xs) (\<lambda>ys. Ret (opt_list y @ ys)))"

section \<open>Flags\<close>

definition s_PrintCommandFlags :: "(u32 \<times> string) list" where
  "s_PrintCommandFlags =
     [(push_bit 0 1, ''UNREGISTERED''), (push_bit 1 1, ''DEVELOPMENTONLY''), (push_bit 2 1, ''GAMEDLL''), (push_bit 3 1, ''CLIENTDLL''),
      (push_bit 4 1, ''HIDDEN''), (push_bit 5 1, ''PROTECTED''), (push_bit 6 1, ''SPONLY''), (push_bit 7 1, ''ARCHIVE''),
      (push_bit 8 1, ''NOTIFY''), (push_bit 9 1, ''USERINFO''), (push_bit 10 1, ''PRINTABLEONLY''),
      (push_bit 10 1, ''GAMEDLL_FOR_REMOTE_CLIENTS''), (push_bit 11 1, ''UNLOGGED''), (push_bit 12 1, ''NEVER_AS_STRING''),
      (push_bit 13 1, ''REPLICATED''), (push_bit 14 1, ''CHEAT''), (push_bit 15 1, ''SS''), (push_bit 16 1, ''DEMO''),
      (push_bit 17 1, ''DONTRECORD''), (push_bit 18 1, ''SS_ADDED''), (push_bit 19 1, ''RELEASE''), (push_bit 20 1, ''RELOAD_MATERIALS''),
      (push_bit 21 1, ''RELOAD_TEXTURES''), (push_bit 22 1, ''NOT_CONNECTED''), (push_bit 23 1, ''MATERIAL_SYSTEM_THREAD''),
      (push_bit 24 1, ''ARCHIVE_PLAYERPROFILE''), (push_bit 25 1, ''ACCESSIBLE_FROM_THREADS''), (push_bit 26 1, ''STUDIO_SYSTEM''),
      (push_bit 27 1, ''SERVER_FRAME_THREAD''), (push_bit 28 1, ''SERVER_CAN_EXECUTE''), (push_bit 29 1, ''SERVER_CANNOT_QUERY''),
      (push_bit 30 1, ''CLIENTCMD_CAN_EXECUTE''), (push_bit 31 1, ''PLATFORM_SYSTEM'')]"

text \<open>The texts between bars, and the removal of blanks around them.\<close>

fun split_bars :: "string \<Rightarrow> string list" where
  "split_bars [] = [[]]"
| "split_bars (c # s) = (if c = CHR ''|'' then [] # split_bars s else case split_bars s of w # ws \<Rightarrow> (c # w) # ws)"

definition flag_blank :: "char \<Rightarrow> bool" where
  "flag_blank c \<longleftrightarrow> of_char c \<in> {9, 10, 11, 12, 13, 32 :: nat}"

definition trim_flag :: "string \<Rightarrow> string" where
  "trim_flag s = dropWhile flag_blank (rev (dropWhile flag_blank (rev s)))"

definition ParseConVarFlagsString :: "string \<Rightarrow> u32" where
  "ParseConVarFlagsString sFlags =
     foldl (\<lambda>iFlags sFlag. case find (\<lambda>flagPair. snd flagPair = trim_flag sFlag) s_PrintCommandFlags of
              None \<Rightarrow> iFlags | Some flagPair \<Rightarrow> iFlags OR fst flagPair) 0 (split_bars sFlags)"

definition read_flags :: "(string \<times> 'd json) list \<Rightarrow> u32" where
  "read_flags ms =
     (case map_of ms ''Flags'' of
        Some (JInt i) \<Rightarrow> if is_int (JInt i :: 'd json) then of_int i else 0
      | Some (JString s) \<Rightarrow> ParseConVarFlagsString (c_text s)
      | _ \<Rightarrow> 0)"
section \<open>Lists in a manifest\<close>

definition ParseConVar :: "'d json \<Rightarrow> ModConVar option outcome" where
  "ParseConVar convarObj =
     (case convarObj of
        JObject ms \<Rightarrow>
          (case map_of ms ''Name'' of
             None \<Rightarrow> Ret None
           | Some n \<Rightarrow>
               (case map_of ms ''DefaultValue'' of
                  None \<Rightarrow> obind (get_string n) (\<lambda>_. Ret None)
                | Some d \<Rightarrow>
                    obind (get_string n) (\<lambda>nam.
                    obind (get_string d) (\<lambda>def.
                    obind (member_or [] get_string ms ''HelpString'') (\<lambda>help.
                      Ret (Some \<lparr>cv_Name = nam, cv_DefaultValue = def, cv_HelpString = help, cv_Flags = read_flags ms\<rparr>))))))
      | _ \<Rightarrow> Ret None)"

definition ParseConVars :: "(string \<times> 'd json) list \<Rightarrow> ModConVar list outcome" where
  "ParseConVars json =
     (case map_of json ''ConVars'' of Some (JArray xs) \<Rightarrow> read_all ParseConVar xs | _ \<Rightarrow> Ret [])"

definition ScriptContextFromString :: "string \<Rightarrow> ScriptContext" where
  "ScriptContextFromString s =
     (if s = ''UI'' then UI else if s = ''CLIENT'' then CLIENT else if s = ''SERVER'' then SERVER else INVALID)"

definition ParseConCommand :: "'d json \<Rightarrow> ModConCommand option outcome" where
  "ParseConCommand concommandObj =
     (case concommandObj of
        JObject ms \<Rightarrow>
          (case map_of ms ''Name'' of
             None \<Rightarrow> Ret None
           | Some n \<Rightarrow>
               (case (map_of ms ''Function'', map_of ms ''Context'') of
                  (Some f, Some c) \<Rightarrow>
                    obind (get_string n) (\<lambda>nam.
                    obind (get_string f) (\<lambda>func.
                    obind (get_string c) (\<lambda>ctx.
                      if ScriptContextFromString ctx = INVALID then Ret None
                      else obind (member_or [] get_string ms ''HelpString'') (\<lambda>help.
                        Ret (Some \<lparr>cc_Name = nam, cc_Function = func, cc_HelpString = help,
                          cc_Context = ScriptContextFromString ctx, cc_Flags = read_flags ms\<rparr>)))))
                | _ \<Rightarrow> obind (get_string n) (\<lambda>_. Ret None)))
      | _ \<Rightarrow> Ret None)"

definition ParseConCommands :: "(string \<times> 'd json) list \<Rightarrow> ModConCommand list outcome" where
  "ParseConCommands json =
     (case map_of json ''ConCommands'' of Some (JArray xs) \<Rightarrow> read_all ParseConCommand xs | _ \<Rightarrow> Ret [])"

text \<open>A callback that is not a string, or callbacks that are not an object, are left out.\<close>

definition callback_text :: "(string \<times> 'd json) list \<Rightarrow> string \<Rightarrow> string" where
  "callback_text ms name = (case map_of ms name of Some (JString s) \<Rightarrow> c_text s | _ \<Rightarrow> [])"

definition script_callback :: "(string \<times> 'd json) list \<Rightarrow> string \<times> ScriptContext \<Rightarrow> ModScriptCallback list" where
  "script_callback scriptObj f =
     (case map_of scriptObj (fst f) of
        Some (JObject ms) \<Rightarrow>
          [\<lparr>cb_Context = snd f, BeforeCallback = callback_text ms ''Before'', AfterCallback = callback_text ms ''After'',
            DestroyCallback = callback_text ms ''Destroy''\<rparr>]
      | _ \<Rightarrow> [])"

definition ParseScript :: "'d json \<Rightarrow> ModScript option outcome" where
  "ParseScript scriptObj =
     (case scriptObj of
        JObject ms \<Rightarrow>
          (case map_of ms ''Path'' of
             None \<Rightarrow> Ret None
           | Some p \<Rightarrow>
               (case map_of ms ''RunOn'' of
                  None \<Rightarrow> obind (get_string p) (\<lambda>_. Ret None)
                | Some r \<Rightarrow>
                    obind (get_string p) (\<lambda>path.
                    obind (get_string r) (\<lambda>runOn.
                      Ret (Some \<lparr>sc_Path = path, RunOn = runOn,
                        Callbacks = concat (map (script_callback ms)
                          [(''ServerCallback'', SERVER), (''ClientCallback'', CLIENT), (''UICallback'', UI)])\<rparr>)))))
      | _ \<Rightarrow> Ret None)"

definition ParseScripts :: "(string \<times> 'd json) list \<Rightarrow> ModScript list outcome" where
  "ParseScripts json =
     (case map_of json ''Scripts'' of Some (JArray xs) \<Rightarrow> read_all ParseScript xs | _ \<Rightarrow> Ret [])"

text \<open>What is not a string is read as one to be reported.\<close>

definition ParseLocalization :: "(string \<times> 'd json) list \<Rightarrow> string list outcome" where
  "ParseLocalization json =
     (case map_of json ''Localisation'' of
        Some (JArray xs) \<Rightarrow> read_all (\<lambda>x. obind (get_string x) (\<lambda>s. Ret (Some s))) xs
      | _ \<Rightarrow> Ret [])"

text \<open>A constant that is there already for another mod ends the reading of constants, but not that of the manifest.\<close>

fun dependency_loop :: "(string \<times> 'd json) list \<Rightarrow> (string \<times> string) list \<Rightarrow> (string \<times> string) list outcome" where
  "dependency_loop [] cs = Ret cs"
| "dependency_loop ((n, v) # ms) cs =
     obind (get_string v) (\<lambda>target.
       let nam = c_text n in
       case map_of cs nam of
         None \<Rightarrow> dependency_loop ms (cs @ [(nam, target)])
       | Some t \<Rightarrow> if target \<noteq> t then Ret cs else dependency_loop ms cs)"

definition ParseDependencies :: "(string \<times> 'd json) list \<Rightarrow> (string \<times> string) list outcome" where
  "ParseDependencies json =
     (case map_of json ''Dependencies'' of Some (JObject ms) \<Rightarrow> dependency_loop ms [] | _ \<Rightarrow> Ret [])"

definition ParsePluginDependencies :: "(string \<times> 'd json) list \<Rightarrow> string list" where
  "ParsePluginDependencies json =
     (case map_of json ''PluginDependencies'' of
        Some (JArray xs) \<Rightarrow> concat (map (\<lambda>x. case x of JString s \<Rightarrow> [c_text s] | _ \<Rightarrow> []) xs)
      | _ \<Rightarrow> [])"

definition ParseInitScript :: "(string \<times> 'd json) list \<Rightarrow> string \<times> string option" where
  "ParseInitScript json =
     (case map_of json ''InitScript'' of
        Some (JString s) \<Rightarrow> (c_text s, None)
      | Some (JObject ms) \<Rightarrow>
          (case map_of ms ''InitScript'' of
             Some (JString s) \<Rightarrow>
               (c_text s, case map_of ms ''InitScriptCallback'' of Some (JString c) \<Rightarrow> Some (c_text c) | _ \<Rightarrow> None)
           | _ \<Rightarrow> ([], None))
      | _ \<Rightarrow> ([], None))"

section \<open>The manifest\<close>

text \<open>
  The folders, the disk, whether the mods that must not be loaded are allowed (\<open>-nomodblacklist\<close>), and the parser, which
  returns nothing for a parse error.
\<close>

record 'd mod_env =
  paths :: mod_paths
  nomodblacklist :: bool
  parse_json :: "string \<Rightarrow> 'd json option"

definition ResolveModSourceFromPath :: "mod_paths \<Rightarrow> disk \<Rightarrow> string \<Rightarrow> ModSource" where
  "ResolveModSourceFromPath env disk modDir =
     (if IsAtOrBelow env modDir (remote_folder env) then Remote
      else if IsAtOrBelow env modDir (package_folder env) then GetManagedSourceForPath env disk modDir
      else if IsAtOrBelow env modDir (mod_folder env) then Unmanaged
      else Unknown)"

definition MODS_BLACKLIST :: "string list" where "MODS_BLACKLIST = [''Mod Settings'']"

text \<open>The lists of the manifest, in the order they are read.\<close>

definition read_lists :: "(string \<times> 'd json) list \<Rightarrow> Mod \<Rightarrow> Mod outcome" where
  "read_lists json m =
     obind (ParseConVars json) (\<lambda>convars.
     obind (ParseConCommands json) (\<lambda>concommands.
     obind (ParseScripts json) (\<lambda>scripts.
     obind (ParseLocalization json) (\<lambda>localisation.
     obind (ParseDependencies json) (\<lambda>constants.
       Ret (m\<lparr>ConVars := convars, ConCommands := concommands, Scripts := scripts, LocalisationFiles := localisation,
              DependencyConstants := constants, PluginDependencyConstants := ParsePluginDependencies json,
              initScript := fst (ParseInitScript json), initScriptCallBack := snd (ParseInitScript json)\<rparr>))))))"

text \<open>Where the mod comes from.\<close>

definition locate :: "'d mod_env \<Rightarrow> disk \<Rightarrow> Mod \<Rightarrow> Mod" where
  "locate env disk m =
     (let source = ResolveModSourceFromPath (paths env) disk (m_ModDirectory m) in
      m\<lparr>m_Source := source,
        m_PackageDirectory := (case FindContainingPackageRoot (paths env) (m_ModDirectory m) of
            Some root \<Rightarrow> root | None \<Rightarrow> m_PackageDirectory m),
        m_ManagedId := (if source = ModWorkshop then TryReadManagedId (paths env) disk (m_ModDirectory m) source else m_ManagedId m),
        m_bWasReadSuccessfully := True\<rparr>)"

text \<open>The constructor of \<open>Mod\<close>, from the document.\<close>

definition read_manifest :: "'d mod_env \<Rightarrow> disk \<Rightarrow> string \<Rightarrow> (string \<times> 'd json) list \<Rightarrow> Mod outcome" where
  "read_manifest env disk modDir json =
     (case map_of json ''Name'' of
        None \<Rightarrow> Ret (new_Mod modDir)
      | Some n \<Rightarrow>
          obind (get_string n) (\<lambda>nam.
            let m = (new_Mod modDir)\<lparr>Name := nam\<rparr> in
            if \<not> nomodblacklist env \<and> nam \<in> set MODS_BLACKLIST then Ret m
            else
              obind (member_or [] get_string json ''Description'') (\<lambda>desc.
              obind (member_or ''0.0.0'' get_string json ''Version'') (\<lambda>version.
              obind (member_or [] get_string json ''DownloadLink'') (\<lambda>link.
              obind (member_or False get_bool json ''RequiredOnClient'') (\<lambda>required.
              obind (member_or 0 get_int json ''LoadPriority'') (\<lambda>priority.
              obind (read_lists json (m\<lparr>Description := desc, Version := version, DownloadLink := link,
                       RequiredOnClient := required, LoadPriority := priority\<rparr>)) (\<lambda>m.
                Ret (locate env disk m)))))))))"

definition Mod_Mod :: "'d mod_env \<Rightarrow> disk \<Rightarrow> string \<Rightarrow> string \<Rightarrow> Mod outcome" where
  "Mod_Mod env disk modDir jsonBuf =
     (case parse_json env jsonBuf of
        Some (JObject json) \<Rightarrow> read_manifest env disk modDir json
      | _ \<Rightarrow> Ret (new_Mod modDir))"

end
