(* ===== verification/ModManifestSpec.thy ===== *)
theory ModManifestSpec
  imports ModManifest ModPackagesSpec
begin

text \<open>
  A manifest whose values have the types the constructor expects is read; what is read is well formed, whatever
  the manifest holds.
\<close>

section \<open>Types of a manifest\<close>

definition text_or_absent :: "(string \<times> 'd json) list \<Rightarrow> string \<Rightarrow> bool" where
  "text_or_absent ms k \<longleftrightarrow> (case map_of ms k of None \<Rightarrow> True | Some v \<Rightarrow> is_string v)"

definition typed_entry :: "string list \<Rightarrow> 'd json \<Rightarrow> bool" where
  "typed_entry ks v \<longleftrightarrow> (case v of JObject ms \<Rightarrow> list_all (text_or_absent ms) ks | _ \<Rightarrow> True)"

definition array_of :: "('d json \<Rightarrow> bool) \<Rightarrow> (string \<times> 'd json) list \<Rightarrow> string \<Rightarrow> bool" where
  "array_of P json k \<longleftrightarrow> (case map_of json k of Some (JArray xs) \<Rightarrow> list_all P xs | _ \<Rightarrow> True)"

definition manifest_typed :: "(string \<times> 'd json) list \<Rightarrow> bool" where
  "manifest_typed json \<longleftrightarrow>
     list_all (text_or_absent json) [''Name'', ''Description'', ''Version'', ''DownloadLink''] \<and>
     (case map_of json ''RequiredOnClient'' of None \<Rightarrow> True | Some (JBool b) \<Rightarrow> True | _ \<Rightarrow> False) \<and>
     (case map_of json ''LoadPriority'' of None \<Rightarrow> True | Some v \<Rightarrow> is_int v) \<and>
     array_of (typed_entry [''Name'', ''DefaultValue'', ''HelpString'']) json ''ConVars'' \<and>
     array_of (typed_entry [''Name'', ''Function'', ''Context'', ''HelpString'']) json ''ConCommands'' \<and>
     array_of (typed_entry [''Path'', ''RunOn'']) json ''Scripts'' \<and>
     array_of is_string json ''Localisation'' \<and>
     (case map_of json ''Dependencies'' of Some (JObject ms) \<Rightarrow> list_all (\<lambda>m. is_string (snd m)) ms | _ \<Rightarrow> True)"

text \<open>
  The constants that a manifest gives, each with its mod, and that it gives none for two mods, which the code
  calls a fatal error.
\<close>

definition constant_pairs :: "(string \<times> 'd json) list \<Rightarrow> (string \<times> string) list" where
  "constant_pairs ms = map (\<lambda>(n, v). (c_text n, case v of JString s \<Rightarrow> c_text s | _ \<Rightarrow> [])) ms"

definition dependency_pairs :: "(string \<times> 'd json) list \<Rightarrow> (string \<times> string) list" where
  "dependency_pairs json = (case map_of json ''Dependencies'' of Some (JObject ms) \<Rightarrow> constant_pairs ms | _ \<Rightarrow> [])"

definition consistent :: "(string \<times> string) list \<Rightarrow> bool" where
  "consistent ps \<longleftrightarrow> list_all (\<lambda>p. list_all (\<lambda>q. fst p = fst q \<longrightarrow> snd p = snd q) ps) ps"

text \<open>What every mod that was read satisfies.\<close>

definition mod_ok :: "Mod \<Rightarrow> bool" where
  "mod_ok m \<longleftrightarrow>
     (\<forall>c \<in> set (ConCommands m). cc_Context c \<noteq> INVALID) \<and>
     (\<forall>s \<in> set (Scripts m). distinct (map cb_Context (Callbacks s)) \<and> INVALID \<notin> set (map cb_Context (Callbacks s))) \<and>
     distinct (map fst (DependencyConstants m)) \<and>
     - (2 ^ 31) \<le> LoadPriority m \<and> LoadPriority m < 2 ^ 31 \<and>
     (m_ManagedId m \<noteq> None \<longrightarrow> m_Source m = ModWorkshop) \<and>
     NUL \<notin> set (Name m) \<and> NUL \<notin> set (Version m)"

section \<open>Reading\<close>

lemma c_text_NUL [simp]: "NUL \<notin> set (c_text s)"
  by (auto simp: c_text_def dest: set_takeWhileD)

lemma is_string_get: "is_string v \<Longrightarrow> \<exists>s. get_string v = Ret s \<and> NUL \<notin> set s"
  by (cases v) auto

lemma get_string_NUL: "get_string v = Ret s \<Longrightarrow> NUL \<notin> set s"
  by (cases v) auto

lemma is_int_get: "is_int v \<longleftrightarrow> (\<exists>i. get_int v = Ret i)"
  by (cases v) auto

lemma get_int_range: "get_int v = Ret i \<Longrightarrow> - (2 ^ 31) \<le> i \<and> i < 2 ^ 31"
  by (cases v) (auto split: if_splits)

lemma text_member: "text_or_absent ms k \<Longrightarrow> \<exists>s. member_or d get_string ms k = Ret s"
  using is_string_get by (auto simp: text_or_absent_def member_or_def split: option.splits)

lemma text_value: "text_or_absent ms k \<Longrightarrow> map_of ms k = Some v \<Longrightarrow> \<exists>s. get_string v = Ret s"
  using is_string_get [of v] by (auto simp: text_or_absent_def)

lemma read_all_Ret: "list_all (\<lambda>x. \<exists>y. f x = Ret y) xs \<Longrightarrow> \<exists>ys. read_all f xs = Ret ys"
  by (induction xs) auto

lemma read_all_set: "read_all f xs = Ret ys \<Longrightarrow> y \<in> set ys \<Longrightarrow> \<exists>x \<in> set xs. f x = Ret (Some y)"
  by (induction f xs arbitrary: ys rule: read_all.induct) (auto simp: obind_Ret opt_list_def split: option.splits)

lemma array_read:
  assumes "array_of P json k" "\<And>x. P x \<Longrightarrow> \<exists>y. f x = Ret y"
  shows "\<exists>ys. (case map_of json k of Some (JArray xs) \<Rightarrow> read_all f xs | _ \<Rightarrow> Ret []) = Ret ys"
  using assms by (auto simp: array_of_def list_all_iff intro!: read_all_Ret split: option.splits json.splits)

lemma typed_reads:
  "typed_entry [''Name'', ''DefaultValue'', ''HelpString''] v \<Longrightarrow> \<exists>y. ParseConVar v = Ret y"
  "typed_entry [''Name'', ''Function'', ''Context'', ''HelpString''] v \<Longrightarrow> \<exists>y. ParseConCommand v = Ret y"
  "typed_entry [''Path'', ''RunOn''] v \<Longrightarrow> \<exists>y. ParseScript v = Ret y"
proof -
  show "\<exists>y. ParseConVar v = Ret y" if "typed_entry [''Name'', ''DefaultValue'', ''HelpString''] v"
  proof (cases v)
    case (JObject ms)
    then have t: "text_or_absent ms ''Name''" "text_or_absent ms ''DefaultValue''" "text_or_absent ms ''HelpString''"
      using that by (simp_all add: typed_entry_def)
    from text_member [OF t(3)] obtain h where "member_or [] get_string ms ''HelpString'' = Ret h" by blast
    then show ?thesis
      using text_value [OF t(1)] text_value [OF t(2)] JObject by (fastforce simp: ParseConVar_def split: option.split)
  qed (simp_all add: ParseConVar_def)
  show "\<exists>y. ParseConCommand v = Ret y" if "typed_entry [''Name'', ''Function'', ''Context'', ''HelpString''] v"
  proof (cases v)
    case (JObject ms)
    then have t: "text_or_absent ms ''Name''" "text_or_absent ms ''Function''" "text_or_absent ms ''Context''" "text_or_absent ms ''HelpString''"
      using that by (simp_all add: typed_entry_def)
    from text_member [OF t(4)] obtain h where "member_or [] get_string ms ''HelpString'' = Ret h" by blast
    then show ?thesis
      using text_value [OF t(1)] text_value [OF t(2)] text_value [OF t(3)] JObject
      by (fastforce simp: ParseConCommand_def split: option.split)
  qed (simp_all add: ParseConCommand_def)
  show "\<exists>y. ParseScript v = Ret y" if "typed_entry [''Path'', ''RunOn''] v"
  proof (cases v)
    case (JObject ms)
    then have t: "text_or_absent ms ''Path''" "text_or_absent ms ''RunOn''"
      using that by (simp_all add: typed_entry_def)
    then show ?thesis
      using text_value [OF t(1)] text_value [OF t(2)] JObject by (fastforce simp: ParseScript_def split: option.split)
  qed (simp_all add: ParseScript_def)
qed

lemma dependency_loop_Ret:
  "list_all (\<lambda>m. is_string (snd m)) ms \<Longrightarrow> \<exists>ds. dependency_loop ms cs = Ret ds"
proof (induction ms cs rule: dependency_loop.induct)
  case (2 n v ms cs)
  then obtain t where "get_string v = Ret t" using is_string_get by fastforce
  then show ?case using 2 by (auto simp: Let_def split: option.split)
qed simp

lemma dependency_loop_distinct:
  "dependency_loop ms cs = Ret ds \<Longrightarrow> distinct (map fst cs) \<Longrightarrow> distinct (map fst ds)"
proof (induction ms cs rule: dependency_loop.induct)
  case (2 n v ms cs)
  then obtain t where t: "get_string v = Ret t" by (auto simp: obind_Ret)
  show ?case
  proof (cases "map_of cs (c_text n)")
    case None
    then have "distinct (map fst (cs @ [(c_text n, t)]))" using 2(4) by (simp add: map_of_eq_None_iff)
    then show ?thesis using 2(1) [of "c_text n" t] 2(3) None t by simp
  next
    case (Some u)
    then show ?thesis using 2(2) [of "c_text n" u t] 2(3,4) t by (simp add: Let_def split: if_splits)
  qed
qed simp

lemma consistent_unique: "consistent ps \<Longrightarrow> (k, v) \<in> set ps \<Longrightarrow> (k, w) \<in> set ps \<Longrightarrow> v = w"
  by (force simp: consistent_def list_all_iff)

lemma consistent_subset: "consistent ps \<Longrightarrow> set qs \<subseteq> set ps \<Longrightarrow> consistent qs"
  unfolding consistent_def list_all_iff by blast

lemma dependency_loop_all:
  "dependency_loop ms cs = Ret ds \<Longrightarrow> consistent (cs @ constant_pairs ms) \<Longrightarrow> set ds = set cs \<union> set (constant_pairs ms)"
proof (induction ms cs rule: dependency_loop.induct)
  case (2 n v ms cs)
  then obtain s where v: "v = JString s" by (cases v) auto
  show ?case
  proof (cases "map_of cs (c_text n)")
    case None
    have "consistent ((cs @ [(c_text n, c_text s)]) @ constant_pairs ms)" using 2(4) v by (simp add: constant_pairs_def)
    then show ?thesis using 2(1) [of "c_text n" "c_text s"] 2(3) None v by (auto simp: constant_pairs_def)
  next
    case (Some u)
    then have mem: "(c_text n, u) \<in> set cs" by (rule map_of_SomeD)
    have u: "u = c_text s" using consistent_unique [OF 2(4), of "c_text n" u "c_text s"] mem v by (simp add: constant_pairs_def)
    have "consistent (cs @ constant_pairs ms)" by (rule consistent_subset [OF 2(4)]) (auto simp: constant_pairs_def)
    then show ?thesis using 2(2) [of "c_text n" u "c_text s"] 2(3) Some v u mem by (auto simp: constant_pairs_def)
  qed
qed (simp add: constant_pairs_def)

lemma ParseDependencies_all:
  "ParseDependencies json = Ret ds \<Longrightarrow> consistent (dependency_pairs json) \<Longrightarrow> set ds = set (dependency_pairs json)"
  using dependency_loop_all [where cs = "[]"]
  by (fastforce simp: ParseDependencies_def dependency_pairs_def split: option.splits json.splits)

lemma script_callback_context: "map cb_Context (script_callback ms f) \<in> {[], [snd f]}"
  by (auto simp: script_callback_def split: option.split json.split)

lemma script_contexts:
  fixes v :: "'d json"
  assumes "ParseScript v = Ret (Some s)"
  shows "distinct (map cb_Context (Callbacks s)) \<and> INVALID \<notin> set (map cb_Context (Callbacks s))"
proof -
  obtain ms :: "(string \<times> 'd json) list" where "Callbacks s = concat (map (script_callback ms) [(''ServerCallback'', SERVER), (''ClientCallback'', CLIENT), (''UICallback'', UI)])"
  proof (cases v)
    case (JObject ms)
    then show ?thesis using assms that [of ms] by (auto simp: ParseScript_def obind_Ret split: option.splits)
  qed (use assms in \<open>auto simp: ParseScript_def\<close>)
  then show ?thesis
    using script_callback_context [of ms "(''ServerCallback'', SERVER)"] script_callback_context [of ms "(''ClientCallback'', CLIENT)"]
      script_callback_context [of ms "(''UICallback'', UI)"]
    by (auto simp: map_concat)
qed

lemma command_context: "ParseConCommand v = Ret (Some c) \<Longrightarrow> cc_Context c \<noteq> INVALID"
  by (auto simp: ParseConCommand_def obind_Ret split: json.splits option.splits if_splits)

lemma lists_ok:
  assumes "read_lists json m = Ret m'"
  shows "(\<forall>c \<in> set (ConCommands m'). cc_Context c \<noteq> INVALID) \<and>
    (\<forall>s \<in> set (Scripts m'). distinct (map cb_Context (Callbacks s)) \<and> INVALID \<notin> set (map cb_Context (Callbacks s))) \<and>
    distinct (map fst (DependencyConstants m'))"
proof -
  from assms have l: "ParseConCommands json = Ret (ConCommands m')" "ParseScripts json = Ret (Scripts m')"
      "ParseDependencies json = Ret (DependencyConstants m')"
    by (auto simp: read_lists_def obind_Ret)
  have "c \<in> set (ConCommands m') \<Longrightarrow> cc_Context c \<noteq> INVALID" for c
    using l(1) command_context by (fastforce simp: ParseConCommands_def split: option.splits json.splits dest: read_all_set)
  moreover have "s \<in> set (Scripts m') \<Longrightarrow> distinct (map cb_Context (Callbacks s)) \<and> INVALID \<notin> set (map cb_Context (Callbacks s))" for s
    using l(2) script_contexts by (fastforce simp: ParseScripts_def split: option.splits json.splits dest: read_all_set)
  moreover have "distinct (map fst (DependencyConstants m'))"
    using l(3) dependency_loop_distinct by (fastforce simp: ParseDependencies_def split: option.splits json.splits)
  ultimately show ?thesis by blast
qed

lemma read_lists_same:
  "read_lists json m = Ret m' \<Longrightarrow> Name m' = Name m \<and> Version m' = Version m \<and> LoadPriority m' = LoadPriority m \<and> m_ModDirectory m' = m_ModDirectory m \<and>
     m_ManagedId m' = m_ManagedId m \<and> m_bWasReadSuccessfully m' = m_bWasReadSuccessfully m \<and> m_bEnabled m' = m_bEnabled m"
  by (auto simp: read_lists_def obind_Ret)

lemma new_Mod_ok [simp]: "mod_ok (new_Mod d)" "mod_ok ((new_Mod d)\<lparr>Name := n\<rparr>) \<longleftrightarrow> NUL \<notin> set n"
  by (simp_all add: mod_ok_def new_Mod_def)

lemma locate_ok: "mod_ok m \<Longrightarrow> m_ManagedId m = None \<Longrightarrow> mod_ok (locate env disk m)"
  by (auto simp: mod_ok_def locate_def Let_def)

text \<open>Whatever a manifest holds, a mod that was read from it is well formed.\<close>

lemma Mod_Mod_ok:
  assumes "Mod_Mod env disk modDir buf = Ret m"
  shows "mod_ok m"
proof (cases "\<exists>json n. parse_json env buf = Some (JObject json) \<and> map_of json ''Name'' = Some n")
  case False
  then show ?thesis using assms by (auto simp: Mod_Mod_def read_manifest_def split: option.splits json.splits)
next
  case True
  then obtain json n where j: "read_manifest env disk modDir json = Ret m" "map_of json ''Name'' = Some n"
    using assms by (auto simp: Mod_Mod_def)
  then obtain nam where nam: "get_string n = Ret nam" by (auto simp: read_manifest_def obind_Ret)
  show ?thesis
  proof (cases "\<not> nomodblacklist env \<and> nam \<in> set MODS_BLACKLIST")
    case True
    then show ?thesis using j nam get_string_NUL [OF nam] by (auto simp: read_manifest_def Let_def)
  next
    case False
    then obtain desc version link required priority m' where r:
        "member_or ''0.0.0'' get_string json ''Version'' = Ret version" "member_or 0 get_int json ''LoadPriority'' = Ret priority"
        "read_lists json ((new_Mod modDir)\<lparr>Name := nam, Description := desc, Version := version, DownloadLink := link,
           RequiredOnClient := required, LoadPriority := priority\<rparr>) = Ret m'" "m = locate env disk m'"
      using j nam by (auto simp: read_manifest_def obind_Ret Let_def simp del: not_not) blast+
    have "NUL \<notin> set version" "- (2 ^ 31) \<le> priority \<and> priority < 2 ^ 31"
      using r(1,2) get_string_NUL get_int_range by (auto simp: member_or_def NUL_def split: option.splits)
    then have "mod_ok m'" "m_ManagedId m' = None"
      using lists_ok [OF r(3)] read_lists_same [OF r(3)] get_string_NUL [OF nam] by (simp_all add: mod_ok_def new_Mod_def)
    then show ?thesis using r(4) locate_ok by simp
  qed
qed

text \<open>The lists of a typed manifest are read.\<close>

lemma typed_lists:
  fixes json :: "(string \<times> 'd json) list"
  assumes "manifest_typed json"
  shows "\<exists>m'. read_lists json m = Ret m'"
proof -
  have "\<exists>ys. ParseConVars json = Ret ys"
    using assms array_read typed_reads(1) unfolding ParseConVars_def manifest_typed_def by blast
  moreover have "\<exists>ys. ParseConCommands json = Ret ys"
    using assms array_read typed_reads(2) unfolding ParseConCommands_def manifest_typed_def by blast
  moreover have "\<exists>ys. ParseScripts json = Ret ys"
    using assms array_read typed_reads(3) unfolding ParseScripts_def manifest_typed_def by blast
  moreover have "\<exists>y. obind (get_string x) (\<lambda>s. Ret (Some s)) = Ret y" if "is_string x" for x :: "'d json"
    using is_string_get [OF that] by auto
  then have "\<exists>ys. ParseLocalization json = Ret ys"
    using assms array_read [of is_string json "''Localisation''" "\<lambda>x. obind (get_string x) (\<lambda>s. Ret (Some s))"]
    unfolding ParseLocalization_def manifest_typed_def by blast
  moreover have "\<exists>ys. ParseDependencies json = Ret ys"
    using assms dependency_loop_Ret unfolding ParseDependencies_def manifest_typed_def by (auto split: option.splits json.splits)
  ultimately show ?thesis by (auto simp: read_lists_def)
qed

text \<open>
  C33: A manifest in which the values that are read have the types the constructor takes them for, and which gives no constant
  for two mods, is read without undefined behaviour. The mod counts as read exactly if it has a name that is not excluded;
  then its dependency constants are those of the manifest. It is well formed: its commands and callbacks have a context, each
  constant of it stands for one mod, and only a package of ModWorkshop has an id. What becomes of two mods for one constant
  is stated by \<open>conflict_not_fatal\<close>.
\<close>

theorem typed_manifest_read:
  assumes "parse_json env buf = Some (JObject json)" "manifest_typed json" "consistent (dependency_pairs json)"
  shows "\<exists>m. Mod_Mod env disk modDir buf = Ret m \<and> mod_ok m \<and>
    (m_bWasReadSuccessfully m \<longleftrightarrow>
       map_of json ''Name'' \<noteq> None \<and> (nomodblacklist env \<or> Name m \<notin> set MODS_BLACKLIST)) \<and>
    (m_bWasReadSuccessfully m \<longrightarrow> set (DependencyConstants m) = set (dependency_pairs json))"
proof (cases "map_of json ''Name''")
  case None
  then show ?thesis using assms(1) by (simp add: Mod_Mod_def read_manifest_def) (simp add: new_Mod_def)
next
  case (Some n)
  have typed: "text_or_absent json ''Name''" "text_or_absent json ''Description''" "text_or_absent json ''Version''"
      "text_or_absent json ''DownloadLink''"
    using assms(2) by (simp_all add: manifest_typed_def)
  obtain nam where nam: "get_string n = Ret nam" using text_value [OF typed(1) Some] by blast
  obtain desc version link where r: "member_or [] get_string json ''Description'' = Ret desc"
      "member_or ''0.0.0'' get_string json ''Version'' = Ret version" "member_or [] get_string json ''DownloadLink'' = Ret link"
    using text_member typed by metis
  obtain required priority where s: "member_or False get_bool json ''RequiredOnClient'' = Ret required"
      "member_or 0 get_int json ''LoadPriority'' = Ret priority"
    using assms(2) is_int_get by (fastforce simp: manifest_typed_def member_or_def split: option.splits json.splits)
  obtain m' where l: "read_lists json ((new_Mod modDir)\<lparr>Name := nam, Description := desc, Version := version, DownloadLink := link,
       RequiredOnClient := required, LoadPriority := priority\<rparr>) = Ret m'"
    using typed_lists [OF assms(2)] by blast
  have constants: "set (DependencyConstants m') = set (dependency_pairs json)"
    using l ParseDependencies_all [OF _ assms(3)] by (auto simp: read_lists_def obind_Ret)
  have "read_manifest env disk modDir json =
    Ret (if \<not> nomodblacklist env \<and> nam \<in> set MODS_BLACKLIST then (new_Mod modDir)\<lparr>Name := nam\<rparr> else locate env disk m')"
    using Some nam r s l by (simp add: read_manifest_def Let_def)
  then have m: "Mod_Mod env disk modDir buf =
    Ret (if \<not> nomodblacklist env \<and> nam \<in> set MODS_BLACKLIST then (new_Mod modDir)\<lparr>Name := nam\<rparr> else locate env disk m')"
    using assms(1) by (simp add: Mod_Mod_def)
  then show ?thesis
    using constants Mod_Mod_ok [OF m] read_lists_same [OF l] Some by (auto simp: locate_def Let_def new_Mod_def)
qed

definition ex_mod_env :: "unit json option \<Rightarrow> unit mod_env" where
  "ex_mod_env doc = \<lparr>paths = ex_mod_paths, nomodblacklist = False, parse_json = (\<lambda>_. doc)\<rparr>"

definition ex_manifest :: "(string \<times> unit json) list" where
  "ex_manifest = [(''Name'', JString ''A''), (''LoadPriority'', JInt 2),
     (''ConVars'', JArray [JObject [(''Name'', JString ''v''), (''DefaultValue'', JString ''1''), (''Flags'', JString ''GAMEDLL | CHEAT'')], JNull]),
     (''Scripts'', JArray [JObject [(''Path'', JString ''a.nut''), (''RunOn'', JString ''UI''), (''UICallback'', JObject [(''After'', JString ''Go'')])]]),
     (''Dependencies'', JObject [(''HAS_B'', JString ''B'')])]"

theorem typed_manifest_read_witness:
  "(\<exists>m. Mod_Mod (ex_mod_env (Some (JObject ex_manifest))) Map.empty ''R2/mods/A'' [] = Ret m \<and> mod_ok m \<and> m_bWasReadSuccessfully m \<and>
      set (DependencyConstants m) = {(''HAS_B'', ''B'')}) \<and>
   (\<exists>m. Mod_Mod (ex_mod_env (Some (JObject ex_manifest))) Map.empty ''R2/mods/A'' [] = Ret m \<and>
      (Name m, Version m, LoadPriority m, m_Source m, map cv_Flags (ConVars m), map Callbacks (Scripts m)) =
      (''A'', ''0.0.0'', 2, Unmanaged, [0x4004], [[\<lparr>cb_Context = UI, BeforeCallback = [], AfterCallback = ''Go'', DestroyCallback = []\<rparr>]]))"
proof -
  have "manifest_typed ex_manifest" "consistent (dependency_pairs ex_manifest)" "dependency_pairs ex_manifest = [(''HAS_B'', ''B'')]"
    by code_simp+
  then obtain m where m: "Mod_Mod (ex_mod_env (Some (JObject ex_manifest))) Map.empty ''R2/mods/A'' [] = Ret m" "mod_ok m"
      "m_bWasReadSuccessfully m \<longleftrightarrow> Name m \<notin> set MODS_BLACKLIST"
      "m_bWasReadSuccessfully m \<longrightarrow> set (DependencyConstants m) = {(''HAS_B'', ''B'')}"
    using typed_manifest_read [of "ex_mod_env (Some (JObject ex_manifest))" "[]" ex_manifest Map.empty "''R2/mods/A''"]
    by (auto simp: ex_mod_env_def ex_manifest_def)
  have "(case Mod_Mod (ex_mod_env (Some (JObject ex_manifest))) Map.empty ''R2/mods/A'' [] of Ret m \<Rightarrow>
      (Name m, Version m, LoadPriority m, m_Source m, map cv_Flags (ConVars m), map Callbacks (Scripts m)) =
      (''A'', ''0.0.0'', 2, Unmanaged, [0x4004], [[\<lparr>cb_Context = UI, BeforeCallback = [], AfterCallback = ''Go'', DestroyCallback = []\<rparr>]])
    | _ \<Rightarrow> False)" by code_simp
  then show ?thesis using m by (simp add: MODS_BLACKLIST_def)
qed

text \<open>
  A translation that is not a string is not skipped, as the code says, but undefined: the warning reads it as a string.
\<close>

theorem localisation_must_be_text:
  "ParseLocalization json \<noteq> Undefined \<longleftrightarrow> array_of is_string json ''Localisation''"
proof -
  have "read_all (\<lambda>x. obind (get_string x) (\<lambda>s. Ret (Some s))) xs \<noteq> Undefined \<longleftrightarrow> list_all is_string xs" for xs :: "'a json list"
  proof (induction xs)
    case (Cons x xs)
    let ?r = "read_all (\<lambda>x. obind (get_string x) (\<lambda>s. Ret (Some s))) xs"
    have "?r = Undefined \<or> (\<exists>ys. ?r = Ret ys)"
    proof (induction xs)
      case (Cons a xs)
      then show ?case by (cases a) auto
    qed simp
    then show ?case using Cons.IH by (cases x) auto
  qed simp
  then show ?thesis by (simp add: ParseLocalization_def array_of_def split: option.split json.split)
qed

text \<open>
  A manifest that gives two mods for one constant is read, with the first of them and without the constants that follow,
  although the code calls this fatal.
\<close>

theorem conflict_not_fatal:
  "\<exists>m. Mod_Mod (ex_mod_env (Some (JObject [(''Name'', JString ''A''),
       (''Dependencies'', JObject [(''C'', JString ''B''), (''C'', JString ''D''), (''E'', JString ''F'')])]))) Map.empty ''R2/mods/A'' [] = Ret m \<and>
     m_bWasReadSuccessfully m \<and> DependencyConstants m = [(''C'', ''B'')]"
proof -
  have "(case Mod_Mod (ex_mod_env (Some (JObject [(''Name'', JString ''A''),
       (''Dependencies'', JObject [(''C'', JString ''B''), (''C'', JString ''D''), (''E'', JString ''F'')])]))) Map.empty ''R2/mods/A'' [] of
     Ret m \<Rightarrow> m_bWasReadSuccessfully m \<and> DependencyConstants m = [(''C'', ''B'')] | _ \<Rightarrow> False)" by code_simp
  then show ?thesis by (auto split: outcome.splits)
qed

end
