(* ===== verification/ModManager.thy ===== *)
theory ModManager
  imports ModManifest "HOL-Library.Char_ord" "HOL-Library.List_Lexorder" "HOL-Library.Product_Lexorder"
begin

text \<open>
  The mod manager (\<open>src/modsystem/modmanager.cpp\<close>): finding the mods on the disk, their order, which of them are enabled
  and how this is kept in \<open>enabledmods.json\<close>, loading and unloading; and what other parts of the program do to the
  list of loaded mods: scripts (\<open>src/vscript/scripts/client/scriptmodmenu.cpp\<close>), joining a server
  (\<open>src/client/connect.cpp\<close>), and the download of mods (\<open>src/modsystem/moddownloader.cpp\<close>).
\<close>

section \<open>State\<close>

text \<open>
  \<open>m_ModFiles\<close> gives for each file the position of its mod in \<open>m_LoadedMods\<close>, to which it points. \<open>enabledmods_json\<close> and
  \<open>enabledmods_old\<close> are the files of these names.
\<close>

record 'd mod_manager =
  m_bHasLoadedMods :: bool
  m_bRuntimeUnloadedForFilesystemMutation :: bool
  m_EnabledModsCfg :: "(string \<times> 'd json) list"
  manifestoVersion :: int
  m_EnabledStateOverrides :: "string \<rightharpoonup> bool"
  m_LoadedMods :: "Mod list"
  m_DependencyConstants :: "string \<rightharpoonup> string"
  m_PluginDependencyConstants :: "string list"
  m_ModFiles :: "string \<rightharpoonup> nat"
  m_sOwnModInfoJson :: "'d json"
  enabledmods_json :: "string option"
  enabledmods_old :: "string option"

text \<open>
  What is on the disk: the files by path, the entries of each directory, and for each mod the files below \<open>mod\<close>, relative to it, in
  the order in which they are visited. Further the printer of JSON documents, the order in which a table of
  constants is visited, whether the configuration can be written and renamed, whether the game lets go of what is
  loaded, and how many steps of activating a mod run before an exception.
\<close>

record 'd manager_env = "'d mod_env" +
  disk_of :: disk
  list_dir :: "string \<Rightarrow> string list option"
  override_files :: "string \<Rightarrow> string list"
  write_json :: "'d json \<Rightarrow> string"
  constants_order :: "(string \<times> string) list \<Rightarrow> (string \<times> string) list"
  cfg_writable :: bool
  rename_ok :: bool
  unload_ok :: bool
  activation_steps :: "string \<Rightarrow> nat"

definition mod_file_exists :: "'d manager_env \<Rightarrow> string \<Rightarrow> bool" where
  "mod_file_exists env p \<longleftrightarrow> disk_of env p \<noteq> None \<or> list_dir env p \<noteq> None"

section \<open>Finding mods\<close>

definition with_manifest :: "'d manager_env \<Rightarrow> string list option \<Rightarrow> string list" where
  "with_manifest env entries = filter (\<lambda>dir. mod_file_exists env (path_div dir ''mod.json'')) (concat (opt_list entries))"

definition collect_top :: "'d manager_env \<Rightarrow> string list" where
  "collect_top env =
     concat (map (\<lambda>searchPath. with_manifest env (list_dir env searchPath))
       [mod_folder (paths env), remote_folder (paths env), package_folder (paths env)])"

definition collect_package :: "'d manager_env \<Rightarrow> string list \<Rightarrow> string \<Rightarrow> string list" where
  "collect_package env modDirs dir =
     (if dir \<in> set modDirs then modDirs else modDirs @ with_manifest env (list_dir env (path_div dir ''mods'')))"

definition collect_dirs :: "'d manager_env \<Rightarrow> string list" where
  "collect_dirs env =
     foldl (collect_package env) (collect_top env)
       (concat (map (\<lambda>p. concat (opt_list (list_dir env p))) [package_folder (paths env), remote_folder (paths env)]))"

section \<open>Reading mods\<close>

text \<open>A constant that stands for another mod already stops the loop, and the mod is not loaded.\<close>

fun add_constants :: "(string \<times> string) list \<Rightarrow> (string \<rightharpoonup> string) \<Rightarrow> bool \<times> (string \<rightharpoonup> string)" where
  "add_constants [] cs = (True, cs)"
| "add_constants ((c, target) # xs) cs =
     (case cs c of
        None \<Rightarrow> add_constants xs (cs(c \<mapsto> target))
      | Some t \<Rightarrow> if target \<noteq> t then (False, cs) else add_constants xs cs)"

definition add_plugin_constants :: "string list \<Rightarrow> string list \<Rightarrow> string list" where
  "add_plugin_constants xs cs = foldl (\<lambda>cs c. if c \<in> set cs then cs else cs @ [c]) cs xs"

text \<open>
  Whether a mod is enabled at first. A member of the configuration that is not an object is used as one.
\<close>

definition initial_enabled :: "'d mod_manager \<Rightarrow> Mod \<Rightarrow> bool outcome" where
  "initial_enabled st m =
     (if m_Source m = Remote \<and> \<not> m_bHasLoadedMods st then Ret False
      else case map_of (m_EnabledModsCfg st) (Name m) of
        None \<Rightarrow> Ret True
      | Some (JObject vs) \<Rightarrow> (case map_of vs (Version m) of None \<Rightarrow> Ret True | Some (JBool b) \<Rightarrow> Ret b | Some _ \<Rightarrow> Ret False)
      | Some _ \<Rightarrow> Undefined)"

definition read_mod :: "'d manager_env \<Rightarrow> string \<Rightarrow> 'd mod_manager \<Rightarrow> 'd mod_manager outcome" where
  "read_mod env modDir st =
     (case disk_of env (path_div modDir ''mod.json'') of
        None \<Rightarrow> Ret st
      | Some contents \<Rightarrow>
          obind (Mod_Mod (mod_env.truncate env) (disk_of env) modDir (c_text (text_mode contents))) (\<lambda>m.
            case add_constants (constants_order env (DependencyConstants m)) (m_DependencyConstants st) of (ok, constants) \<Rightarrow>
              let m = m\<lparr>m_bWasReadSuccessfully := (ok \<and> m_bWasReadSuccessfully m)\<rparr>;
                  st = st\<lparr>m_DependencyConstants := constants,
                     m_PluginDependencyConstants := add_plugin_constants (PluginDependencyConstants m) (m_PluginDependencyConstants st)\<rparr>
              in obind (initial_enabled st m) (\<lambda>enabled.
                   let m = m\<lparr>m_bEnabled := (case m_EnabledStateOverrides st (Name m) of None \<Rightarrow> enabled | Some forced \<Rightarrow> forced)\<rparr>
                   in Ret (if m_bWasReadSuccessfully m then st\<lparr>m_LoadedMods := m_LoadedMods st @ [m]\<rparr> else st))))"

text \<open>Reading a mod raises no exception here, so that there is none to catch for the loop.\<close>

fun read_mods :: "'d manager_env \<Rightarrow> string list \<Rightarrow> 'd mod_manager \<Rightarrow> 'd mod_manager outcome" where
  "read_mods env [] st = Ret st"
| "read_mods env (d # ds) st = obind (read_mod env d st) (read_mods env ds)"

text \<open>
  Mods are sorted by priority, name, version and directory. Directories are compared as bytes of UTF-8, the wide strings of the
  code by their units; the two orders differ only for characters that take two units.
\<close>

definition mod_key :: "Mod \<Rightarrow> int \<times> string \<times> string \<times> string" where
  "mod_key m = (LoadPriority m, Name m, Version m, m_ModDirectory m)"

definition SearchFilesystemForMods :: "'d manager_env \<Rightarrow> 'd mod_manager \<Rightarrow> 'd mod_manager outcome" where
  "SearchFilesystemForMods env st =
     obind (read_mods env (collect_dirs env) (st\<lparr>m_LoadedMods := []\<rparr>)) (\<lambda>st.
       Ret (st\<lparr>m_LoadedMods := sort_key mod_key (m_LoadedMods st)\<rparr>))"

text \<open>The positions of the enabled versions of a mod; where there are several, all of them are disabled.\<close>

definition mod_versions :: "Mod list \<Rightarrow> string \<Rightarrow> nat list" where
  "mod_versions ms name = filter (\<lambda>i. m_bEnabled (ms ! i) \<and> Name (ms ! i) = name) [0..<length ms]"

definition disable_at :: "Mod list \<Rightarrow> nat \<Rightarrow> Mod list" where
  "disable_at ms i = ms[i := (ms ! i)\<lparr>m_bEnabled := False\<rparr>]"

definition surplus_versions :: "Mod list \<Rightarrow> nat list" where
  "surplus_versions ms =
     concat (map (\<lambda>name. if length (mod_versions ms name) \<le> 1 then [] else mod_versions ms name) (remdups (map Name ms)))"

definition DisableMultipleModVersions :: "Mod list \<Rightarrow> Mod list" where
  "DisableMultipleModVersions ms = foldl disable_at ms (surplus_versions ms)"

section \<open>The configuration\<close>

text \<open>Setting the first member of a name.\<close>

fun set_member :: "string \<Rightarrow> 'd json \<Rightarrow> (string \<times> 'd json) list \<Rightarrow> (string \<times> 'd json) list" where
  "set_member k v [] = []"
| "set_member k v ((k', v') # ms) = (if k' = k then (k', v) # ms else (k', v') # set_member k v ms)"

text \<open>The state of a mod, set in the object of its versions; missing members are added.\<close>

definition set_version :: "string \<Rightarrow> bool \<Rightarrow> (string \<times> 'd json) list \<Rightarrow> (string \<times> 'd json) list" where
  "set_version version enabled vs =
     set_member version (JBool enabled) (if map_of vs version = None then vs @ [(version, JBool False)] else vs)"

definition set_mod_state :: "Mod \<Rightarrow> bool \<Rightarrow> (string \<times> 'd json) list \<Rightarrow> (string \<times> 'd json) list outcome" where
  "set_mod_state m enabled cfg =
     (let cfg = (if map_of cfg (Name m) = None then cfg @ [(Name m, JObject [])] else cfg) in
      case map_of cfg (Name m) of
        Some (JObject vs) \<Rightarrow> Ret (set_member (Name m) (JObject (set_version (Version m) enabled vs)) cfg)
      | _ \<Rightarrow> Undefined)"

definition write_config :: "'d manager_env \<Rightarrow> 'd mod_manager \<Rightarrow> 'd mod_manager" where
  "write_config env st =
     (if cfg_writable env then st\<lparr>enabledmods_json := Some (to_crlf (write_json env (JObject (m_EnabledModsCfg st))))\<rparr> else st)"

fun export_mods :: "Mod list \<Rightarrow> (string \<times> 'd json) list \<Rightarrow> (string \<times> 'd json) list outcome" where
  "export_mods [] cfg = Ret cfg"
| "export_mods (m # ms) cfg = obind (set_mod_state m (m_bEnabled m) cfg) (export_mods ms)"

definition ExportModsConfigurationToFile :: "'d manager_env \<Rightarrow> 'd mod_manager \<Rightarrow> 'd mod_manager outcome" where
  "ExportModsConfigurationToFile env st =
     obind (export_mods (m_LoadedMods st) []) (\<lambda>cfg.
       Ret (write_config env (st\<lparr>m_EnabledModsCfg := cfg @ [(''Version'', JInt (manifestoVersion st))]\<rparr>)))"

section \<open>Discovery\<close>

text \<open>The configuration as it is read, and the configuration in the old format, if it is one; other formats are dropped.\<close>

definition read_config :: "'d manager_env \<Rightarrow> 'd mod_manager \<Rightarrow> ((string \<times> 'd json) list option \<times> 'd mod_manager) outcome" where
  "read_config env st =
     (case enabledmods_json st of
        None \<Rightarrow> Ret (None, st\<lparr>m_EnabledModsCfg := []\<rparr>)
      | Some f \<Rightarrow>
          let doc = parse_json env (c_text (text_mode f));
              version = (case doc of Some (JObject ms) \<Rightarrow> map_of ms ''Version'' | _ \<Rightarrow> None);
              isUsingUnknownFormat = (case version of Some v \<Rightarrow> \<not> is_int v | None \<Rightarrow> True);
              isUsingOldFormat = (case doc of Some (JObject ms) \<Rightarrow> version = None \<or> version = Some (JInt 0) | _ \<Rightarrow> False);
              ms = (case doc of Some (JObject ms) \<Rightarrow> ms | _ \<Rightarrow> [])
          in if isUsingUnknownFormat \<or> isUsingOldFormat then
               (if \<not> rename_ok env then Throw filesystem_error
                else Ret (if isUsingOldFormat then Some ms else None,
                          st\<lparr>enabledmods_old := Some f, enabledmods_json := None, m_EnabledModsCfg := []\<rparr>))
             else Ret (None, st\<lparr>m_EnabledModsCfg := ms\<rparr>))"

text \<open>
  The entry of a mod in the configuration. The code that replaces an entry that is not an object is not reached, since
  such an entry is used as an object before.
\<close>

definition enter_mod ::
    "(string \<times> 'd json) list option \<Rightarrow> Mod \<Rightarrow> (string \<times> 'd json) list \<Rightarrow> (bool \<times> Mod \<times> (string \<times> 'd json) list) outcome" where
  "enter_mod oldEnabledModsCfg m cfg =
     (case map_of cfg (Name m) of
        Some (JObject vs) \<Rightarrow>
          if m_Source m \<noteq> Remote \<and> map_of vs (Version m) = None then
            (let isEnabled = (case oldEnabledModsCfg of None \<Rightarrow> m_bEnabled m
                   | Some old \<Rightarrow> (case map_of old (Name m) of Some (JBool b) \<Rightarrow> b | _ \<Rightarrow> m_bEnabled m))
             in obind (set_mod_state m isEnabled cfg) (\<lambda>cfg. Ret (True, m\<lparr>m_bEnabled := isEnabled\<rparr>, cfg)))
          else Ret (False, m, cfg)
      | Some _ \<Rightarrow> Undefined
      | None \<Rightarrow>
          if m_Source m \<noteq> Remote then
            (let isEnabled = (case oldEnabledModsCfg of None \<Rightarrow> m_bEnabled m
                   | Some old \<Rightarrow> (case map_of old (Name m) of Some (JBool b) \<Rightarrow> b | _ \<Rightarrow> m_bEnabled m))
             in obind (set_mod_state m isEnabled cfg) (\<lambda>cfg. Ret (True, m\<lparr>m_bEnabled := isEnabled\<rparr>, cfg)))
          else Ret (False, m, cfg))"

fun enter_mods ::
    "(string \<times> 'd json) list option \<Rightarrow> Mod list \<Rightarrow> (string \<times> 'd json) list \<Rightarrow> (bool \<times> Mod list \<times> (string \<times> 'd json) list) outcome" where
  "enter_mods old [] cfg = Ret (False, [], cfg)"
| "enter_mods old (m # ms) cfg =
     obind (enter_mod old m cfg) (\<lambda>(new, m, cfg).
     obind (enter_mods old ms cfg) (\<lambda>(news, ms, cfg). Ret (new \<or> news, m # ms, cfg)))"

definition DiscoverMods :: "'d manager_env \<Rightarrow> 'd mod_manager \<Rightarrow> 'd mod_manager outcome" where
  "DiscoverMods env st =
     obind (read_config env st) (\<lambda>(oldEnabledModsCfg, st).
     obind (SearchFilesystemForMods env st) (\<lambda>st.
       let st = st\<lparr>m_LoadedMods := DisableMultipleModVersions (m_LoadedMods st)\<rparr>;
           noVersion = (map_of (m_EnabledModsCfg st) ''Version'' = None);
           cfg = (if noVersion then m_EnabledModsCfg st @ [(''Version'', JInt 1)] else m_EnabledModsCfg st)
       in obind (case map_of cfg ''Version'' of Some v \<Rightarrow> get_int v | None \<Rightarrow> Undefined) (\<lambda>version.
          obind (enter_mods oldEnabledModsCfg (m_LoadedMods st) cfg) (\<lambda>(newModsDetected, ms, cfg).
            let st = st\<lparr>manifestoVersion := version, m_LoadedMods := ms, m_EnabledModsCfg := cfg\<rparr>
            in Ret (if noVersion \<or> newModsDetected then write_config env st else st)))))"

section \<open>Loading and unloading\<close>

definition NormaliseModFilePath :: "string \<Rightarrow> string" where
  "NormaliseModFilePath path = map tolower (lexically_normal path)"

definition read_pdiff :: "'d manager_env \<Rightarrow> Mod \<Rightarrow> string option" where
  "read_pdiff env m = map_option text_mode (disk_of env (path_div (m_ModDirectory m) ''mod.pdiff''))"

text \<open>What activating the mod at a position sets: the difference to the player data, and the files of the mod.\<close>

definition activate_mod :: "'d manager_env \<Rightarrow> 'd mod_manager \<Rightarrow> nat \<Rightarrow> 'd mod_manager" where
  "activate_mod env st i =
     (let m = m_LoadedMods st ! i; steps = activation_steps env (m_ModDirectory m) in
      if \<not> m_bEnabled m then st
      else
        let st = (if steps \<ge> 1
              then (case read_pdiff env m of None \<Rightarrow> st | Some p \<Rightarrow> st\<lparr>m_LoadedMods := (m_LoadedMods st)[i := m\<lparr>Pdiff := p\<rparr>]\<rparr>)
              else st)
        in if steps \<ge> 2
           then st\<lparr>m_ModFiles := foldl (\<lambda>files p. files(NormaliseModFilePath p \<mapsto> i)) (m_ModFiles st) (override_files env (m_ModDirectory m))\<rparr>
           else st)"

definition activate_mods :: "'d manager_env \<Rightarrow> 'd mod_manager \<Rightarrow> 'd mod_manager" where
  "activate_mods env st = foldl (activate_mod env) st [0..<length (m_LoadedMods st)]"

definition BuildModInfo :: "Mod list \<Rightarrow> 'd json" where
  "BuildModInfo ms =
     JObject [(''Mods'', JArray (map (\<lambda>m. JObject [(''Name'', JString (c_text (Name m))), (''Version'', JString (c_text (Version m))),
        (''RequiredOnClient'', JBool (RequiredOnClient m)), (''Pdiff'', JString (c_text (Pdiff m)))]) (filter m_bEnabled ms)))]"

text \<open>The removal of compiled key values, which are not modelled, is left out, and with it the exception it may raise.\<close>

definition UnloadMods :: "'d manager_env \<Rightarrow> 'd mod_manager \<Rightarrow> (bool \<times> 'd mod_manager) outcome" where
  "UnloadMods env st =
     obind (ExportModsConfigurationToFile env (st\<lparr>m_DependencyConstants := Map.empty, m_ModFiles := Map.empty\<rparr>)) (\<lambda>st.
       Ret (unload_ok env, st\<lparr>m_LoadedMods := []\<rparr>))"

definition LoadMods :: "'d manager_env \<Rightarrow> 'd mod_manager \<Rightarrow> 'd mod_manager outcome" where
  "LoadMods env st =
     obind (if m_bRuntimeUnloadedForFilesystemMutation st
            then Ret (True, st\<lparr>m_bRuntimeUnloadedForFilesystemMutation := False\<rparr>)
            else if m_bHasLoadedMods st then UnloadMods env st
            else Ret (True, st)) (\<lambda>(unloaded, st).
       if \<not> unloaded then Ret st
       else obind (DiscoverMods env st) (\<lambda>st.
         let st = activate_mods env st
         in Ret (st\<lparr>m_sOwnModInfoJson := BuildModInfo (m_LoadedMods st), m_bHasLoadedMods := True\<rparr>)))"

definition UnloadModsForFilesystemMutation :: "'d manager_env \<Rightarrow> 'd mod_manager \<Rightarrow> (bool \<times> 'd mod_manager) outcome" where
  "UnloadModsForFilesystemMutation env st =
     (if \<not> m_bHasLoadedMods st then Ret (True, st)
      else obind (UnloadMods env st) (\<lambda>(unloaded, st).
        let st = st\<lparr>m_bRuntimeUnloadedForFilesystemMutation := True\<rparr>
        in if \<not> unloaded then obind (LoadMods env st) (\<lambda>st. Ret (False, st)) else Ret (True, st)))"

definition ReloadModsWithEnabledStates ::
    "'d manager_env \<Rightarrow> (string \<rightharpoonup> bool) \<Rightarrow> 'd mod_manager \<Rightarrow> 'd mod_manager outcome" where
  "ReloadModsWithEnabledStates env enabledStates st =
     obind (LoadMods env (st\<lparr>m_EnabledStateOverrides := enabledStates\<rparr>)) (\<lambda>st. Ret (st\<lparr>m_EnabledStateOverrides := Map.empty\<rparr>))"

text \<open>Before any mod is loaded.\<close>

definition new_ModManager :: "string option \<Rightarrow> string option \<Rightarrow> 'd mod_manager" where
  "new_ModManager cfg old =
     \<lparr>m_bHasLoadedMods = False, m_bRuntimeUnloadedForFilesystemMutation = False, m_EnabledModsCfg = [], manifestoVersion = 0,
      m_EnabledStateOverrides = Map.empty, m_LoadedMods = [], m_DependencyConstants = Map.empty, m_PluginDependencyConstants = [],
      m_ModFiles = Map.empty, m_sOwnModInfoJson = JNull, enabledmods_json = cfg, enabledmods_old = old\<rparr>"

section \<open>Packages\<close>

definition belongs_to_package :: "mod_paths \<Rightarrow> Mod \<Rightarrow> string \<Rightarrow> bool" where
  "belongs_to_package env m root \<longleftrightarrow>
     IsAtOrBelow env (m_ModDirectory m) root \<or> m_PackageDirectory m \<noteq> [] \<and> paths_Equal env (m_PackageDirectory m) root"

definition CaptureEnabledStatesForPackages :: "mod_paths \<Rightarrow> string list \<Rightarrow> 'd mod_manager \<Rightarrow> (string \<rightharpoonup> bool)" where
  "CaptureEnabledStatesForPackages env packageRoots st =
     foldl (\<lambda>states m. if list_ex (belongs_to_package env m) packageRoots then states(Name m \<mapsto> m_bEnabled m) else states)
       Map.empty (m_LoadedMods st)"

definition HasLoadedPackageMods :: "string \<Rightarrow> string list \<Rightarrow> 'd mod_manager \<Rightarrow> bool" where
  "HasLoadedPackageMods root expectedModNames st =
     list_all (\<lambda>expectedName. list_ex (\<lambda>m. Name m = expectedName \<and> lexically_normal (m_PackageDirectory m) = lexically_normal root)
       (m_LoadedMods st)) expectedModNames"

section \<open>Changes from outside\<close>

text \<open>Changing the first element a test holds for.\<close>

fun update_first_mod :: "(Mod \<Rightarrow> bool) \<Rightarrow> (Mod \<Rightarrow> Mod) \<Rightarrow> Mod list \<Rightarrow> Mod list" where
  "update_first_mod P f [] = []"
| "update_first_mod P f (m # ms) = (if P m then f m # ms else m # update_first_mod P f ms)"

definition NSSetModEnabled :: "string \<Rightarrow> string \<Rightarrow> bool \<Rightarrow> 'd mod_manager \<Rightarrow> 'd mod_manager" where
  "NSSetModEnabled modName modVersion enabled st =
     st\<lparr>m_LoadedMods := update_first_mod (\<lambda>m. Name m = modName \<and> Version m = modVersion) (\<lambda>m. m\<lparr>m_bEnabled := enabled\<rparr>) (m_LoadedMods st)\<rparr>"

record RemoteModInfo =
  rm_Name :: string
  rm_Version :: string

text \<open>The mods a server requires are enabled before joining it, and others that clients need are disabled.\<close>

definition is_required :: "RemoteModInfo list \<Rightarrow> Mod \<Rightarrow> bool" where
  "is_required requiredMods loaded =
     list_ex (\<lambda>required. Name loaded = rm_Name required \<and> (IsCoreModName (Name loaded) \<or> Version loaded = rm_Version required)) requiredMods"

definition for_server :: "RemoteModInfo list \<Rightarrow> Mod \<Rightarrow> Mod" where
  "for_server requiredMods loaded =
     (if is_required requiredMods loaded then loaded\<lparr>m_bEnabled := True\<rparr>
      else if RequiredOnClient loaded then loaded\<lparr>m_bEnabled := False\<rparr> else loaded)"

text \<open>Whether mods are reloaded, and the state before that.\<close>

definition ReloadModsAndConnect :: "bool \<Rightarrow> RemoteModInfo list \<Rightarrow> 'd mod_manager \<Rightarrow> bool \<times> 'd mod_manager" where
  "ReloadModsAndConnect downloadedMods requiredMods st =
     (downloadedMods \<or> list_ex (\<lambda>m. m_bEnabled (for_server requiredMods m) \<noteq> m_bEnabled m) (m_LoadedMods st),
      st\<lparr>m_LoadedMods := map (for_server requiredMods) (m_LoadedMods st)\<rparr>)"

text \<open>Before matchmaking, with how many mods were disabled.\<close>

definition leaves_for_matchmaking :: "Mod \<Rightarrow> bool" where
  "leaves_for_matchmaking m \<longleftrightarrow> RequiredOnClient m \<and> m_Source m = Remote \<and> m_bEnabled m \<and> \<not> IsCoreModName (Name m)"

definition unload_remote_mods :: "'d mod_manager \<Rightarrow> nat \<times> 'd mod_manager" where
  "unload_remote_mods st =
     (length (filter leaves_for_matchmaking (m_LoadedMods st)),
      st\<lparr>m_LoadedMods := map (\<lambda>m. if leaves_for_matchmaking m then m\<lparr>m_bEnabled := False\<rparr> else m) (m_LoadedMods st)\<rparr>)"

text \<open>The removal of a mod that was downloaded: the directory that is removed, and the state.\<close>

definition DeleteRemoteMod :: "mod_paths \<Rightarrow> string \<Rightarrow> string \<Rightarrow> 'd mod_manager \<Rightarrow> string option \<times> 'd mod_manager" where
  "DeleteRemoteMod env modName version st =
     (case filter (\<lambda>i. Name (m_LoadedMods st ! i) = modName \<and> Version (m_LoadedMods st ! i) = version) [0..<length (m_LoadedMods st)] of
        [] \<Rightarrow> (None, st)
      | i # _ \<Rightarrow>
          let m = m_LoadedMods st ! i; remoteRoot = lexically_normal (remote_folder env) in
          if m_Source m \<noteq> Remote then (None, st)
          else case relative_first (lexically_normal (m_ModDirectory m)) remoteRoot of
            None \<Rightarrow> (None, st)
          | Some f \<Rightarrow>
              if f = ''..'' then (None, st)
              else (Some (path_div remoteRoot f), st\<lparr>m_LoadedMods := take i (m_LoadedMods st) @ drop (Suc i) (m_LoadedMods st)\<rparr>))"

text \<open>
  The loop that removes old versions of a mod before a download goes on with the iterators it had before an element was
  erased.
\<close>

fun remove_old_versions :: "mod_paths \<Rightarrow> string \<Rightarrow> string \<Rightarrow> nat list \<Rightarrow> 'd mod_manager \<Rightarrow> 'd mod_manager outcome" where
  "remove_old_versions env modName modVersion [] st = Ret st"
| "remove_old_versions env modName modVersion (i # is) st =
     (let m = m_LoadedMods st ! i in
      if Name m = modName \<and> Version m \<noteq> modVersion \<and> m_Source m = Remote
      then (case DeleteRemoteMod env (Name m) (Version m) st of
              (None, st) \<Rightarrow> remove_old_versions env modName modVersion is st
            | (Some root, st) \<Rightarrow> Undefined)
      else remove_old_versions env modName modVersion is st)"

text \<open>The mod a file is loaded from: the pointer is that of an element, or to where one was.\<close>

definition mod_file_owner :: "'d mod_manager \<Rightarrow> string \<Rightarrow> Mod option outcome" where
  "mod_file_owner st path =
     (case m_ModFiles st (NormaliseModFilePath path) of
        None \<Rightarrow> Ret None
      | Some i \<Rightarrow> if i < length (m_LoadedMods st) then Ret (Some (m_LoadedMods st ! i)) else Undefined)"

text \<open>The command of a mod that was called: of the first enabled mod that has one of this name.\<close>

definition ModConCommandCallback :: "string \<Rightarrow> 'd mod_manager \<Rightarrow> ModConCommand option" where
  "ModConCommandCallback commandString st =
     (let name = takeWhile (\<lambda>c. c \<noteq> CHR '' '') commandString;
          name = (if commandString \<noteq> [] \<and> hd commandString = CHR '' '' then commandString else name)
      in case concat (map (\<lambda>m. filter (\<lambda>c. cc_Name c = name) (ConCommands m)) (filter m_bEnabled (m_LoadedMods st))) of
           [] \<Rightarrow> None | c # _ \<Rightarrow> Some c)"

section \<open>Runs\<close>

datatype manager_call =
    Reload
  | FilesystemMutation
  | ReloadWithStates "string \<rightharpoonup> bool"
  | SetModEnabled string string bool
  | JoinServer bool "RemoteModInfo list"
  | Matchmake
  | DeleteRemote string string

text \<open>Each call with the environment at its time. A reload after joining or matchmaking is a call of its own.\<close>

fun manager_step :: "'d manager_env \<Rightarrow> manager_call \<Rightarrow> 'd mod_manager \<Rightarrow> 'd mod_manager outcome" where
  "manager_step env Reload st = LoadMods env st"
| "manager_step env FilesystemMutation st = obind (UnloadModsForFilesystemMutation env st) (\<lambda>r. Ret (snd r))"
| "manager_step env (ReloadWithStates states) st = ReloadModsWithEnabledStates env states st"
| "manager_step env (SetModEnabled name version enabled) st = Ret (NSSetModEnabled name version enabled st)"
| "manager_step env (JoinServer downloaded required) st = Ret (snd (ReloadModsAndConnect downloaded required st))"
| "manager_step env Matchmake st = Ret (snd (unload_remote_mods st))"
| "manager_step env (DeleteRemote name version) st = Ret (snd (DeleteRemoteMod (paths env) name version st))"

fun manager_run :: "('d manager_env \<times> manager_call) list \<Rightarrow> 'd mod_manager \<Rightarrow> 'd mod_manager outcome" where
  "manager_run [] st = Ret st"
| "manager_run ((env, c) # cs) st = obind (manager_step env c st) (manager_run cs)"

end
