(* ===== verification/ModManagerSpec.thy ===== *)
theory ModManagerSpec
  imports ModManager ModManifestSpec
begin

text \<open>
  The mods that are loaded are in order and agree on their constants, at most one version of each is enabled, what is
  enabled is kept by the configuration, and each file comes from the mod that was loaded last.
\<close>

section \<open>Reading\<close>

text \<open>
  What is read of the mods, apart from whether they are enabled, does not depend on the state but for the constants.
\<close>

definition scan_mod :: "'d manager_env \<Rightarrow> string \<Rightarrow> (string \<rightharpoonup> string) \<Rightarrow> (Mod option \<times> (string \<rightharpoonup> string)) outcome" where
  "scan_mod env modDir cs =
     (case disk_of env (path_div modDir ''mod.json'') of
        None \<Rightarrow> Ret (None, cs)
      | Some contents \<Rightarrow>
          obind (Mod_Mod (mod_env.truncate env) (disk_of env) modDir (c_text (text_mode contents))) (\<lambda>m.
            case add_constants (constants_order env (DependencyConstants m)) cs of (ok, cs) \<Rightarrow>
              Ret (if ok \<and> m_bWasReadSuccessfully m then Some m else None, cs)))"

fun scan_mods :: "'d manager_env \<Rightarrow> string list \<Rightarrow> (string \<rightharpoonup> string) \<Rightarrow> (Mod list \<times> (string \<rightharpoonup> string)) outcome" where
  "scan_mods env [] cs = Ret ([], cs)"
| "scan_mods env (d # ds) cs =
     obind (scan_mod env d cs) (\<lambda>(m, cs). obind (scan_mods env ds cs) (\<lambda>(ms, cs). Ret (opt_list m @ ms, cs)))"

definition set_enabled :: "(Mod \<Rightarrow> bool) \<Rightarrow> Mod \<Rightarrow> Mod" where
  "set_enabled f m = m\<lparr>m_bEnabled := f m\<rparr>"

lemma set_enabled_sel [simp]:
  "m_bEnabled (set_enabled f m) = f m" "Name (set_enabled f m) = Name m" "Version (set_enabled f m) = Version m"
  "m_Source (set_enabled f m) = m_Source m" "m_ModDirectory (set_enabled f m) = m_ModDirectory m" "LoadPriority (set_enabled f m) = LoadPriority m"
  "DependencyConstants (set_enabled f m) = DependencyConstants m" "m_bWasReadSuccessfully (set_enabled f m) = m_bWasReadSuccessfully m"
  "mod_key (set_enabled f m) = mod_key m" "mod_ok (set_enabled f m) = mod_ok m" "Pdiff (set_enabled f m) = Pdiff m"
  by (simp_all add: set_enabled_def mod_key_def mod_ok_def)

text \<open>Whether a mod is enabled when it is read.\<close>

definition enabled_at_first :: "'d mod_manager \<Rightarrow> Mod \<Rightarrow> bool" where
  "enabled_at_first st m =
     (case m_EnabledStateOverrides st (Name m) of
        Some forced \<Rightarrow> forced
      | None \<Rightarrow> (case initial_enabled st m of Ret b \<Rightarrow> b | _ \<Rightarrow> False))"

text \<open>The parts of the state that reading leaves as they are.\<close>

definition same_config :: "'d mod_manager \<Rightarrow> 'd mod_manager \<Rightarrow> bool" where
  "same_config st st' \<longleftrightarrow>
     st' = st\<lparr>m_DependencyConstants := m_DependencyConstants st', m_PluginDependencyConstants := m_PluginDependencyConstants st',
       m_LoadedMods := m_LoadedMods st'\<rparr>"

lemma same_configD:
  assumes "same_config st st'"
  shows "m_EnabledModsCfg st' = m_EnabledModsCfg st" "m_bHasLoadedMods st' = m_bHasLoadedMods st"
    "m_EnabledStateOverrides st' = m_EnabledStateOverrides st" "enabledmods_json st' = enabledmods_json st"
    "m_bRuntimeUnloadedForFilesystemMutation st' = m_bRuntimeUnloadedForFilesystemMutation st" "m_ModFiles st' = m_ModFiles st"
    "manifestoVersion st' = manifestoVersion st"
  using assms unfolding same_config_def by (cases st; cases st'; simp)+

lemma same_config_refl [simp]: "same_config st st"
  by (simp add: same_config_def)

lemma same_config_trans: "same_config a b \<Longrightarrow> same_config b c \<Longrightarrow> same_config a c"
  unfolding same_config_def by (cases a; cases b; cases c) simp

lemma initial_enabled_cong:
  assumes "Name m = Name m'" "Version m = Version m'" "m_Source m = m_Source m'"
    "m_EnabledModsCfg st = m_EnabledModsCfg st'" "m_bHasLoadedMods st = m_bHasLoadedMods st'"
  shows "initial_enabled st m = initial_enabled st' m'"
  unfolding initial_enabled_def assms ..

lemma enabled_at_first_cong:
  assumes "Name m = Name m'" "Version m = Version m'" "m_Source m = m_Source m'" "m_EnabledModsCfg st = m_EnabledModsCfg st'"
    "m_bHasLoadedMods st = m_bHasLoadedMods st'" "m_EnabledStateOverrides st = m_EnabledStateOverrides st'"
  shows "enabled_at_first st m = enabled_at_first st' m'"
  unfolding enabled_at_first_def initial_enabled_cong [OF assms(1-5)] assms(1,6) ..

lemma enabled_at_first_same: "same_config st st' \<Longrightarrow> enabled_at_first st' = enabled_at_first st"
  by (rule ext) (rule enabled_at_first_cong; simp add: same_configD)

lemma read_mod_scan:
  assumes "read_mod env d st = Ret st'"
  shows "\<exists>m. scan_mod env d (m_DependencyConstants st) = Ret (m, m_DependencyConstants st') \<and> same_config st st' \<and>
    m_LoadedMods st' = m_LoadedMods st @ map (set_enabled (enabled_at_first st)) (opt_list m) \<and>
    (\<forall>x \<in> set (opt_list m). \<exists>b. initial_enabled st x = Ret b)"
proof (cases "disk_of env (path_div d ''mod.json'')")
  case None
  then show ?thesis using assms by (simp add: read_mod_def scan_mod_def)
next
  case (Some contents)
  then obtain m where m: "Mod_Mod (mod_env.truncate env) (disk_of env) d (c_text (text_mode contents)) = Ret m"
    using assms by (auto simp: read_mod_def obind_Ret)
  obtain ok cs where c: "add_constants (constants_order env (DependencyConstants m)) (m_DependencyConstants st) = (ok, cs)"
    by fastforce
  let ?m = "m\<lparr>m_bWasReadSuccessfully := (ok \<and> m_bWasReadSuccessfully m)\<rparr>"
  let ?st = "st\<lparr>m_DependencyConstants := cs,
    m_PluginDependencyConstants := add_plugin_constants (PluginDependencyConstants m) (m_PluginDependencyConstants st)\<rparr>"
  have i: "initial_enabled ?st ?m = initial_enabled st m" by (rule initial_enabled_cong) simp_all
  then obtain b where b: "initial_enabled st m = Ret b"
    and st': "st' = (if ok \<and> m_bWasReadSuccessfully m then ?st\<lparr>m_LoadedMods := m_LoadedMods st @
        [?m\<lparr>m_bEnabled := (case m_EnabledStateOverrides st (Name m) of None \<Rightarrow> b | Some forced \<Rightarrow> forced)\<rparr>]\<rparr> else ?st)"
    using assms Some m c by (auto simp: read_mod_def obind_Ret Let_def)
  have e: "set_enabled (enabled_at_first st) m = m\<lparr>m_bEnabled := (case m_EnabledStateOverrides st (Name m) of None \<Rightarrow> b | Some forced \<Rightarrow> forced)\<rparr>"
    by (simp add: set_enabled_def enabled_at_first_def b split: option.split)
  show ?thesis
  proof (cases "ok \<and> m_bWasReadSuccessfully m")
    case True
    then have "?m = m" by simp
    then show ?thesis
      using True st' e b c m Some by (intro exI [of _ "Some m"]) (simp add: scan_mod_def same_config_def)
  next
    case False
    then show ?thesis
      using st' c m Some by (intro exI [of _ None]) (simp add: scan_mod_def same_config_def)
  qed
qed

lemma read_mods_scan:
  assumes "read_mods env ds st = Ret st'"
  shows "\<exists>ms. scan_mods env ds (m_DependencyConstants st) = Ret (ms, m_DependencyConstants st') \<and> same_config st st' \<and>
    m_LoadedMods st' = m_LoadedMods st @ map (set_enabled (enabled_at_first st)) ms \<and>
    (\<forall>m \<in> set ms. \<exists>b. initial_enabled st m = Ret b)"
  using assms
proof (induction ds arbitrary: st)
  case (Cons d ds)
  then obtain st1 where st1: "read_mod env d st = Ret st1" "read_mods env ds st1 = Ret st'" by (auto simp: obind_Ret)
  obtain m where m: "scan_mod env d (m_DependencyConstants st) = Ret (m, m_DependencyConstants st1)" "same_config st st1"
      "m_LoadedMods st1 = m_LoadedMods st @ map (set_enabled (enabled_at_first st)) (opt_list m)"
      "\<forall>x \<in> set (opt_list m). \<exists>b. initial_enabled st x = Ret b"
    using read_mod_scan [OF st1(1)] by blast
  obtain ms where ms: "scan_mods env ds (m_DependencyConstants st1) = Ret (ms, m_DependencyConstants st')" "same_config st1 st'"
      "m_LoadedMods st' = m_LoadedMods st1 @ map (set_enabled (enabled_at_first st1)) ms"
      "\<forall>m \<in> set ms. \<exists>b. initial_enabled st1 m = Ret b"
    using Cons.IH [OF st1(2)] by blast
  have "initial_enabled st1 = initial_enabled st"
    by (rule ext) (rule initial_enabled_cong; simp add: same_configD [OF m(2)])
  then show ?case
    using m ms enabled_at_first_same [OF m(2)] same_config_trans [OF m(2) ms(2)]
    by (intro exI [of _ "opt_list m @ ms"]) auto
qed simp

section \<open>Versions\<close>

lemma foldl_disable:
  "set is \<subseteq> {..<length ms} \<Longrightarrow> length (foldl disable_at ms is) = length ms \<and>
     (\<forall>i < length ms. foldl disable_at ms is ! i = (if i \<in> set is then (ms ! i)\<lparr>m_bEnabled := False\<rparr> else ms ! i))"
proof (induction "is" arbitrary: ms)
  case (Cons j js)
  have "length (disable_at ms j) = length ms" by (simp add: disable_at_def)
  then show ?case using Cons.IH [of "disable_at ms j"] Cons.prems by (auto simp: disable_at_def nth_list_update)
qed simp

text \<open>No other enabled mod in the list has the name of the one at a position.\<close>

definition only_version :: "Mod list \<Rightarrow> nat \<Rightarrow> bool" where
  "only_version ms i \<longleftrightarrow> (\<forall>j < length ms. j \<noteq> i \<longrightarrow> m_bEnabled (ms ! j) \<longrightarrow> Name (ms ! j) \<noteq> Name (ms ! i))"

lemma set_mod_versions: "set (mod_versions ms name) = {i. i < length ms \<and> m_bEnabled (ms ! i) \<and> Name (ms ! i) = name}"
  by (auto simp: mod_versions_def)

lemma several_versions:
  assumes "i < length ms" "m_bEnabled (ms ! i)"
  shows "\<not> length (mod_versions ms (Name (ms ! i))) \<le> 1 \<longleftrightarrow> \<not> only_version ms i"
proof -
  let ?vs = "mod_versions ms (Name (ms ! i))"
  have i: "i \<in> set ?vs" using assms by (simp add: set_mod_versions)
  have "length ?vs = card (set ?vs)" by (subst distinct_card) (simp_all add: mod_versions_def)
  moreover have "card (set ?vs) \<le> 1 \<longleftrightarrow> set ?vs \<subseteq> {i}"
    using i card_le_Suc0_iff_eq [of "set ?vs"] by auto
  ultimately show ?thesis by (auto simp: set_mod_versions only_version_def)
qed

lemma set_surplus_versions: "set (surplus_versions ms) = {i. i < length ms \<and> m_bEnabled (ms ! i) \<and> \<not> only_version ms i}"
proof -
  have "(\<exists>m \<in> set ms. i \<in> set (mod_versions ms (Name m)) \<and> \<not> length (mod_versions ms (Name m)) \<le> 1) \<longleftrightarrow>
      i < length ms \<and> m_bEnabled (ms ! i) \<and> \<not> only_version ms i" for i
    using several_versions [of i ms] by (auto simp: set_mod_versions)
  moreover have "i \<in> set (surplus_versions ms) \<longleftrightarrow>
      (\<exists>m \<in> set ms. i \<in> set (mod_versions ms (Name m)) \<and> \<not> length (mod_versions ms (Name m)) \<le> 1)" for i
    unfolding surplus_versions_def by simp blast
  ultimately show ?thesis by blast
qed

lemma DisableMultiple_nth_length:
  "length (DisableMultipleModVersions ms) = length ms \<and>
   (\<forall>i < length ms. DisableMultipleModVersions ms ! i = set_enabled (\<lambda>m. m_bEnabled m \<and> only_version ms i) (ms ! i))"
proof -
  have "set (surplus_versions ms) \<subseteq> {..<length ms}" by (auto simp: set_surplus_versions)
  from foldl_disable [OF this] show ?thesis
    unfolding DisableMultipleModVersions_def set_surplus_versions by (auto simp: set_enabled_def)
qed

lemmas length_DisableMultipleModVersions [simp] = DisableMultiple_nth_length [THEN conjunct1]
lemmas DisableMultipleModVersions_nth = DisableMultiple_nth_length [THEN conjunct2, rule_format]

text \<open>At most one version of each mod is enabled.\<close>

definition one_version :: "Mod list \<Rightarrow> bool" where
  "one_version ms \<longleftrightarrow> distinct (map Name (filter m_bEnabled ms))"

lemma distinct_map_filter:
  "distinct (map f (filter P xs)) \<longleftrightarrow> (\<forall>i < length xs. \<forall>j < length xs. P (xs ! i) \<and> P (xs ! j) \<and> f (xs ! i) = f (xs ! j) \<longrightarrow> i = j)"
proof (induction xs)
  case (Cons x xs)
  have "(\<forall>i < Suc (length xs). \<forall>j < Suc (length xs). P ((x # xs) ! i) \<and> P ((x # xs) ! j) \<and> f ((x # xs) ! i) = f ((x # xs) ! j) \<longrightarrow> i = j) \<longleftrightarrow>
     (\<forall>j < length xs. \<not> (P x \<and> P (xs ! j) \<and> f x = f (xs ! j))) \<and>
     (\<forall>i < length xs. \<forall>j < length xs. P (xs ! i) \<and> P (xs ! j) \<and> f (xs ! i) = f (xs ! j) \<longrightarrow> i = j)"
    by (auto simp: All_less_Suc2)
  then show ?case using Cons by (auto simp: in_set_conv_nth)
qed simp

lemma one_version_only: "one_version ms \<longleftrightarrow> (\<forall>i < length ms. m_bEnabled (ms ! i) \<longrightarrow> only_version ms i)"
  by (auto simp: one_version_def distinct_map_filter only_version_def)

lemma DisableMultiple_one_version: "one_version (DisableMultipleModVersions ms)"
  by (auto simp: one_version_only only_version_def DisableMultipleModVersions_nth)

lemma DisableMultiple_idle: "one_version ms \<Longrightarrow> DisableMultipleModVersions ms = ms"
  by (rule nth_equalityI) (auto simp: DisableMultipleModVersions_nth one_version_only set_enabled_def)

text \<open>What is left of a mod without the fields that loading sets.\<close>

definition bare :: "Mod \<Rightarrow> Mod" where
  "bare m = m\<lparr>m_bEnabled := True, Pdiff := []\<rparr>"

lemma bare_simps [simp]:
  "bare (set_enabled f m) = bare m" "bare (m\<lparr>Pdiff := p\<rparr>) = bare m" "bare (m\<lparr>m_bEnabled := b\<rparr>) = bare m"
  by (simp_all add: bare_def set_enabled_def)

lemma bare_eqD:
  assumes "bare m = bare m'"
  shows "Name m = Name m'" "Version m = Version m'" "mod_key m = mod_key m'" "mod_ok m = mod_ok m'"
    "m_bWasReadSuccessfully m = m_bWasReadSuccessfully m'" "DependencyConstants m = DependencyConstants m'" "m_Source m = m_Source m'"
    "m_ModDirectory m = m_ModDirectory m'"
  using assms unfolding bare_def mod_key_def mod_ok_def by (cases m; cases m'; simp)+

lemma bare_DisableMultiple [simp]: "map bare (DisableMultipleModVersions ms) = map bare ms"
  by (rule nth_equalityI) (auto simp: DisableMultipleModVersions_nth)

lemma sort_key_bare: "sort_key mod_key (map (set_enabled f) ms) = map (set_enabled f) (sort_key mod_key ms)"
proof (induction ms)
  case (Cons m ms)
  have "insort_key mod_key (set_enabled f m) (map (set_enabled f) xs) = map (set_enabled f) (insort_key mod_key m xs)" for xs
    by (induction xs) auto
  then show ?case using Cons by simp
qed simp

section \<open>Discovery\<close>

text \<open>Reading leaves a list in order, whose mods are well formed and agree on their constants.\<close>

lemma map_le_Some: "m \<subseteq>\<^sub>m m' \<Longrightarrow> m x = Some y \<Longrightarrow> m' x = Some y"
  unfolding map_le_def by (metis domI)

lemma add_constants_mono: "add_constants xs cs = (ok, cs') \<Longrightarrow> cs \<subseteq>\<^sub>m cs'"
proof (induction xs cs arbitrary: cs' rule: add_constants.induct)
  case (2 c t xs cs)
  show ?case
  proof (cases "cs c")
    case None
    from 2(3) None have "add_constants xs (cs(c \<mapsto> t)) = (ok, cs')" by simp
    then have "cs(c \<mapsto> t) \<subseteq>\<^sub>m cs'" using 2(1) [OF None] by blast
    moreover have "cs \<subseteq>\<^sub>m cs(c \<mapsto> t)" using None by (auto simp: map_le_def)
    ultimately show ?thesis using map_le_trans by blast
  qed (use 2 in \<open>auto split: if_splits\<close>)
qed simp

lemma add_constants_all:
  "add_constants xs cs = (True, cs') \<Longrightarrow> (c, t) \<in> set xs \<Longrightarrow> cs' c = Some t"
proof (induction xs arbitrary: cs)
  case (Cons x xs)
  obtain d u where x: "x = (d, u)" by (cases x)
  obtain ds where ds: "ds d = Some u" "add_constants xs ds = (True, cs')"
  proof (cases "cs d")
    case None
    then show ?thesis using Cons.prems(1) x that [of "cs(d \<mapsto> u)"] by simp
  next
    case (Some v)
    then show ?thesis using Cons.prems(1) x that [of cs] by (auto split: if_splits)
  qed
  then show ?case using Cons.IH [OF ds(2)] Cons.prems(2) x map_le_Some [OF add_constants_mono [OF ds(2)]] by auto
qed simp

definition agrees :: "(string \<rightharpoonup> string) \<Rightarrow> Mod \<Rightarrow> bool" where
  "agrees cs m \<longleftrightarrow> (\<forall>(c, t) \<in> set (DependencyConstants m). cs c = Some t)"

lemma agrees_mono: "agrees cs m \<Longrightarrow> cs \<subseteq>\<^sub>m cs' \<Longrightarrow> agrees cs' m"
  unfolding agrees_def by (fast dest: map_le_Some)

definition constants_order_ok :: "'d manager_env \<Rightarrow> bool" where
  "constants_order_ok env \<longleftrightarrow> (\<forall>xs. set (constants_order env xs) = set xs)"

lemma scan_mod_agrees:
  assumes "scan_mod env d cs = Ret (m, cs')"
  shows "cs \<subseteq>\<^sub>m cs'" "constants_order_ok env \<Longrightarrow> x \<in> set (opt_list m) \<Longrightarrow> agrees cs' x \<and> mod_ok x \<and> m_bWasReadSuccessfully x"
proof -
  have "cs \<subseteq>\<^sub>m cs' \<and> (constants_order_ok env \<longrightarrow> x \<in> set (opt_list m) \<longrightarrow> agrees cs' x \<and> mod_ok x \<and> m_bWasReadSuccessfully x)"
  proof (cases "disk_of env (path_div d ''mod.json'')")
    case None
    then show ?thesis using assms by (auto simp: scan_mod_def)
  next
    case (Some contents)
    then obtain y where y: "Mod_Mod (mod_env.truncate env) (disk_of env) d (c_text (text_mode contents)) = Ret y"
      using assms by (auto simp: scan_mod_def obind_Ret)
    obtain ok cs1 where c: "add_constants (constants_order env (DependencyConstants y)) cs = (ok, cs1)" by fastforce
    then have "m = (if ok \<and> m_bWasReadSuccessfully y then Some y else None)" "cs' = cs1"
      using assms Some y by (auto simp: scan_mod_def)
    then show ?thesis
      using add_constants_mono [OF c] add_constants_all [of _ cs cs1] c Mod_Mod_ok [OF y] by (auto simp: agrees_def constants_order_ok_def)
  qed
  then show "cs \<subseteq>\<^sub>m cs'" "constants_order_ok env \<Longrightarrow> x \<in> set (opt_list m) \<Longrightarrow> agrees cs' x \<and> mod_ok x \<and> m_bWasReadSuccessfully x"
    by blast+
qed

lemma scan_mods_agrees:
  assumes "scan_mods env ds cs = Ret (ms, cs')"
  shows "cs \<subseteq>\<^sub>m cs' \<and> (constants_order_ok env \<longrightarrow> (\<forall>m \<in> set ms. agrees cs' m \<and> mod_ok m \<and> m_bWasReadSuccessfully m))"
  using assms
proof (induction ds arbitrary: cs ms)
  case (Cons d ds)
  then obtain m cs1 ms1 where s: "scan_mod env d cs = Ret (m, cs1)" "scan_mods env ds cs1 = Ret (ms1, cs')" "ms = opt_list m @ ms1"
    by (auto simp: obind_Ret)
  show ?case using scan_mod_agrees [OF s(1)] Cons.IH [OF s(2)] s(3) map_le_trans agrees_mono by fastforce
qed simp

lemma same_config_mods: "same_config (st\<lparr>m_LoadedMods := a\<rparr>) st' \<Longrightarrow> same_config st (st'\<lparr>m_LoadedMods := b\<rparr>)"
  unfolding same_config_def by (cases st; cases st') simp

lemma SearchFilesystem_scan:
  assumes "SearchFilesystemForMods env st = Ret st'"
  shows "\<exists>ms. scan_mods env (collect_dirs env) (m_DependencyConstants st) = Ret (ms, m_DependencyConstants st') \<and> same_config st st' \<and>
    m_LoadedMods st' = map (set_enabled (enabled_at_first st)) (sort_key mod_key ms) \<and>
    (\<forall>m \<in> set ms. \<exists>b. initial_enabled st m = Ret b)"
proof -
  let ?st = "st\<lparr>m_LoadedMods := []\<rparr>"
  obtain st1 where st1: "read_mods env (collect_dirs env) ?st = Ret st1" "st' = st1\<lparr>m_LoadedMods := sort_key mod_key (m_LoadedMods st1)\<rparr>"
    using assms by (auto simp: SearchFilesystemForMods_def obind_Ret)
  have "enabled_at_first ?st = enabled_at_first st" "initial_enabled ?st = initial_enabled st"
    by (rule ext, rule enabled_at_first_cong; simp) (rule ext, rule initial_enabled_cong; simp)
  then show ?thesis
    using read_mods_scan [OF st1(1)] st1(2) by (auto simp: sort_key_bare intro: same_config_mods)
qed

lemma enter_mod_result:
  assumes "enter_mod old m cfg = Ret (new, m', cfg')"
  shows "bare m' = bare m" "old = None \<Longrightarrow> m' = m" "Pdiff m' = Pdiff m"
  using assms by (auto simp: enter_mod_def obind_Ret Let_def split: option.splits json.splits if_splits)

lemma enter_mods_result:
  "enter_mods old ms cfg = Ret (new, ms', cfg') \<Longrightarrow> map bare ms' = map bare ms \<and> (old = None \<longrightarrow> ms' = ms) \<and> map Pdiff ms' = map Pdiff ms"
proof (induction ms arbitrary: cfg new ms' cfg')
  case (Cons m ms)
  then obtain n m1 cfg1 where s1: "enter_mod old m cfg = Ret (n, m1, cfg1)" by (auto simp: obind_Ret)
  with Cons.prems obtain n2 ms1 cfg2 where s2: "enter_mods old ms cfg1 = Ret (n2, ms1, cfg2)" "ms' = m1 # ms1"
    by (auto simp: obind_Ret)
  note s = s1 s2
  show ?case using enter_mod_result [OF s(1)] Cons.IH [OF s(2)] s(3) by simp
qed simp

lemma write_config_sel [simp]:
  "m_LoadedMods (write_config env st) = m_LoadedMods st" "m_DependencyConstants (write_config env st) = m_DependencyConstants st"
  "m_bHasLoadedMods (write_config env st) = m_bHasLoadedMods st" "m_ModFiles (write_config env st) = m_ModFiles st"
  "m_bRuntimeUnloadedForFilesystemMutation (write_config env st) = m_bRuntimeUnloadedForFilesystemMutation st"
  "m_EnabledStateOverrides (write_config env st) = m_EnabledStateOverrides st" "manifestoVersion (write_config env st) = manifestoVersion st"
  "m_EnabledModsCfg (write_config env st) = m_EnabledModsCfg st"
  by (simp_all add: write_config_def)

lemma read_config_sel:
  assumes "read_config env st = Ret (old, st')"
  shows "m_LoadedMods st' = m_LoadedMods st" "m_DependencyConstants st' = m_DependencyConstants st" "m_bHasLoadedMods st' = m_bHasLoadedMods st"
    "m_ModFiles st' = m_ModFiles st" "m_EnabledStateOverrides st' = m_EnabledStateOverrides st"
    "m_bRuntimeUnloadedForFilesystemMutation st' = m_bRuntimeUnloadedForFilesystemMutation st"
  using assms by (auto simp: read_config_def Let_def split: option.splits if_splits)

lemma DiscoverMods_result:
  assumes "DiscoverMods env st = Ret st'"
  shows "\<exists>old st1 ms. read_config env st = Ret (old, st1) \<and>
    scan_mods env (collect_dirs env) (m_DependencyConstants st) = Ret (ms, m_DependencyConstants st') \<and>
    map bare (m_LoadedMods st') = map bare (sort_key mod_key ms) \<and> map Pdiff (m_LoadedMods st') = map Pdiff (sort_key mod_key ms) \<and>
    (\<forall>m \<in> set ms. \<exists>b. initial_enabled st1 m = Ret b) \<and>
    (old = None \<longrightarrow> m_LoadedMods st' =
       DisableMultipleModVersions (map (set_enabled (enabled_at_first st1)) (sort_key mod_key ms))) \<and>
    m_bHasLoadedMods st' = m_bHasLoadedMods st \<and> m_ModFiles st' = m_ModFiles st \<and>
    m_EnabledStateOverrides st' = m_EnabledStateOverrides st \<and>
    m_bRuntimeUnloadedForFilesystemMutation st' = m_bRuntimeUnloadedForFilesystemMutation st"
proof -
  obtain old st1 where c: "read_config env st = Ret (old, st1)" using assms by (auto simp: DiscoverMods_def obind_Ret)
  then obtain st2 where s: "SearchFilesystemForMods env st1 = Ret st2" using assms by (auto simp: DiscoverMods_def obind_Ret)
  obtain ms where ms: "scan_mods env (collect_dirs env) (m_DependencyConstants st1) = Ret (ms, m_DependencyConstants st2)" "same_config st1 st2"
      "m_LoadedMods st2 = map (set_enabled (enabled_at_first st1)) (sort_key mod_key ms)" "\<forall>m \<in> set ms. \<exists>b. initial_enabled st1 m = Ret b"
    using SearchFilesystem_scan [OF s] by blast
  obtain new ms' cfg cfg' where e: "enter_mods old (DisableMultipleModVersions (m_LoadedMods st2)) cfg = Ret (new, ms', cfg')"
      "m_LoadedMods st' = ms'" "m_DependencyConstants st' = m_DependencyConstants st2" "m_bHasLoadedMods st' = m_bHasLoadedMods st2"
      "m_ModFiles st' = m_ModFiles st2" "m_EnabledStateOverrides st' = m_EnabledStateOverrides st2"
      "m_bRuntimeUnloadedForFilesystemMutation st' = m_bRuntimeUnloadedForFilesystemMutation st2"
    using assms c s by (auto simp: DiscoverMods_def obind_Ret Let_def split: if_splits)
  have p: "map Pdiff (DisableMultipleModVersions xs) = map Pdiff xs" for xs
    by (rule nth_equalityI) (auto simp: DisableMultipleModVersions_nth)
  have "map bare ms' = map bare (sort_key mod_key ms)" "map Pdiff ms' = map Pdiff (sort_key mod_key ms)"
    using enter_mods_result [OF e(1)] by (simp_all add: ms(3) p comp_def)
  then show ?thesis
    using c ms e enter_mods_result [OF e(1)] by (simp add: read_config_sel [OF c] same_configD [OF ms(2)])
qed

section \<open>Activation\<close>

lemma activate_mod_sel [simp]:
  "map bare (m_LoadedMods (activate_mod env st i)) = map bare (m_LoadedMods st)"
  "map m_bEnabled (m_LoadedMods (activate_mod env st i)) = map m_bEnabled (m_LoadedMods st)"
  "m_DependencyConstants (activate_mod env st i) = m_DependencyConstants st"
  "m_bHasLoadedMods (activate_mod env st i) = m_bHasLoadedMods st"
  "m_bRuntimeUnloadedForFilesystemMutation (activate_mod env st i) = m_bRuntimeUnloadedForFilesystemMutation st"
  "m_EnabledStateOverrides (activate_mod env st i) = m_EnabledStateOverrides st"
proof -
  have "map f ((m_LoadedMods st)[i := (m_LoadedMods st ! i)\<lparr>Pdiff := p\<rparr>]) = map f (m_LoadedMods st)"
    if "\<And>m p. f (m\<lparr>Pdiff := p\<rparr>) = f m" for f :: "Mod \<Rightarrow> 'b" and p
  proof (rule nth_equalityI)
    fix j assume "j < length (map f ((m_LoadedMods st)[i := (m_LoadedMods st ! i)\<lparr>Pdiff := p\<rparr>]))"
    then show "map f ((m_LoadedMods st)[i := (m_LoadedMods st ! i)\<lparr>Pdiff := p\<rparr>]) ! j = map f (m_LoadedMods st) ! j"
      by (cases "i = j") (simp_all add: that)
  qed simp
  note u = this
  show "map bare (m_LoadedMods (activate_mod env st i)) = map bare (m_LoadedMods st)"
    "map m_bEnabled (m_LoadedMods (activate_mod env st i)) = map m_bEnabled (m_LoadedMods st)"
    by (simp_all add: activate_mod_def Let_def u split: option.split)
qed (simp_all add: activate_mod_def Let_def split: option.split)

lemma foldl_activate_sel:
  "map bare (m_LoadedMods (foldl (activate_mod env) st is)) = map bare (m_LoadedMods st) \<and>
   map m_bEnabled (m_LoadedMods (foldl (activate_mod env) st is)) = map m_bEnabled (m_LoadedMods st) \<and>
   m_DependencyConstants (foldl (activate_mod env) st is) = m_DependencyConstants st \<and>
   m_bHasLoadedMods (foldl (activate_mod env) st is) = m_bHasLoadedMods st \<and>
   m_bRuntimeUnloadedForFilesystemMutation (foldl (activate_mod env) st is) = m_bRuntimeUnloadedForFilesystemMutation st \<and>
   m_EnabledStateOverrides (foldl (activate_mod env) st is) = m_EnabledStateOverrides st"
  by (induction "is" arbitrary: st) simp_all

lemmas activate_mods_sel [simp] = foldl_activate_sel [of env st "[0..<length (m_LoadedMods st)]" for env st, folded activate_mods_def, simplified]

lemma map_bare_length: "map bare xs = map bare ys \<Longrightarrow> length xs = length ys"
  using map_eq_imp_length_eq by blast

lemma map_bare_nth: "map bare xs = map bare ys \<Longrightarrow> i < length xs \<Longrightarrow> bare (xs ! i) = bare (ys ! i)"
  by (metis map_bare_length nth_map)

text \<open>
  Whether a mod has a file of a name, by which it replaces the one of the game. A mod whose activation ended with an exception before its
  files were entered counts as having none.
\<close>

definition provides :: "'d manager_env \<Rightarrow> Mod \<Rightarrow> string \<Rightarrow> bool" where
  "provides env m p \<longleftrightarrow> m_bEnabled m \<and> activation_steps env (m_ModDirectory m) \<ge> 2 \<and>
     p \<in> NormaliseModFilePath ` set (override_files env (m_ModDirectory m))"

lemma foldl_files: "foldl (\<lambda>files q. files(g q \<mapsto> i)) files qs p = (if p \<in> g ` set qs then Some i else files p)"
  by (induction qs arbitrary: files) auto

lemma activate_mod_files:
  assumes "i < length (m_LoadedMods st)"
  shows "m_ModFiles (activate_mod env st i) p = (if provides env (m_LoadedMods st ! i) p then Some i else m_ModFiles st p)"
  by (auto simp: activate_mod_def provides_def Let_def foldl_files split: option.split)

lemma provides_same:
  "bare m = bare m' \<Longrightarrow> m_bEnabled m = m_bEnabled m' \<Longrightarrow> provides env m p = provides env m' p"
  using bare_eqD(8) [of m m'] by (simp add: provides_def)

lemma provides_nth:
  assumes "map bare xs = map bare ys" "map m_bEnabled xs = map m_bEnabled ys" "i < length xs"
  shows "provides env (xs ! i) p = provides env (ys ! i) p"
proof -
  have "map m_bEnabled xs ! i = map m_bEnabled ys ! i" using assms(2) by (rule arg_cong)
  then have "m_bEnabled (xs ! i) = m_bEnabled (ys ! i)" using assms(3) map_bare_length [OF assms(1)] by simp
  with map_bare_nth [OF assms(1,3)] show ?thesis by (rule provides_same)
qed

lemma activate_prefix_files:
  assumes "k \<le> length (m_LoadedMods st)" "m_ModFiles st = Map.empty"
  shows "m_ModFiles (foldl (activate_mod env) st [0..<k]) p = Some i \<longleftrightarrow>
    i < k \<and> provides env (m_LoadedMods st ! i) p \<and> (\<forall>j. i < j \<and> j < k \<longrightarrow> \<not> provides env (m_LoadedMods st ! j) p)"
  using assms(1)
proof (induction k arbitrary: i)
  case (Suc k)
  let ?st = "foldl (activate_mod env) st [0..<k]"
  have b: "map bare (m_LoadedMods ?st) = map bare (m_LoadedMods st)" "map m_bEnabled (m_LoadedMods ?st) = map m_bEnabled (m_LoadedMods st)"
    by (simp_all add: foldl_activate_sel)
  have k: "k < length (m_LoadedMods ?st)" using Suc.prems map_bare_length [OF b(1)] by simp
  have "m_ModFiles (activate_mod env ?st k) p = (if provides env (m_LoadedMods st ! k) p then Some k else m_ModFiles ?st p)"
    unfolding activate_mod_files [OF k] provides_nth [OF b k] ..
  then have "m_ModFiles (foldl (activate_mod env) st [0..<Suc k]) p = (if provides env (m_LoadedMods st ! k) p then Some k else m_ModFiles ?st p)"
    by simp
  then show ?case
    using Suc.IH [of i] Suc.prems by (cases "provides env (m_LoadedMods st ! k) p"; cases i k rule: linorder_cases)
      (auto simp: less_Suc_eq)
qed (simp add: assms(2))

lemma activate_mods_files:
  assumes "m_ModFiles st = Map.empty"
  shows "m_ModFiles (activate_mods env st) p = Some i \<longleftrightarrow>
    i < length (m_LoadedMods st) \<and> provides env (m_LoadedMods st ! i) p \<and>
    (\<forall>j. i < j \<and> j < length (m_LoadedMods st) \<longrightarrow> \<not> provides env (m_LoadedMods st ! j) p)"
  unfolding activate_mods_def using activate_prefix_files [OF order_refl assms] .

section \<open>Loading\<close>

text \<open>
  What holds of every state: the mods are in order and well formed and agree on the constants; while no mods are loaded nothing
  of any mod is left.
\<close>

definition manager_inv :: "'d mod_manager \<Rightarrow> bool" where
  "manager_inv st \<longleftrightarrow>
     sorted (map mod_key (m_LoadedMods st)) \<and>
     (\<forall>m \<in> set (m_LoadedMods st). mod_ok m \<and> m_bWasReadSuccessfully m \<and> agrees (m_DependencyConstants st) m) \<and>
     (\<not> m_bHasLoadedMods st \<or> m_bRuntimeUnloadedForFilesystemMutation st \<longrightarrow>
        m_DependencyConstants st = Map.empty \<and> m_ModFiles st = Map.empty)"

lemma map_mod_key_bare:
  assumes "map bare xs = map bare ys"
  shows "map mod_key xs = map mod_key ys"
proof (rule nth_equalityI)
  show "length (map mod_key xs) = length (map mod_key ys)" using map_bare_length [OF assms] by simp
  show "map mod_key xs ! i = map mod_key ys ! i" if "i < length (map mod_key xs)" for i
    using that map_bare_length [OF assms] bare_eqD(3) [OF map_bare_nth [OF assms, of i]] by simp
qed

lemma mods_ok_bare:
  assumes "map bare xs = map bare ys" "\<forall>m \<in> set ys. mod_ok m \<and> m_bWasReadSuccessfully m \<and> agrees cs m"
  shows "\<forall>m \<in> set xs. mod_ok m \<and> m_bWasReadSuccessfully m \<and> agrees cs m"
proof
  fix m assume "m \<in> set xs"
  then obtain i where i: "i < length xs" "m = xs ! i" by (auto simp: in_set_conv_nth)
  then have b: "bare m = bare (ys ! i)" "ys ! i \<in> set ys" using map_bare_nth [OF assms(1)] map_bare_length [OF assms(1)] by auto
  then show "mod_ok m \<and> m_bWasReadSuccessfully m \<and> agrees cs m" using assms(2) by (simp add: bare_eqD [OF b(1)] agrees_def)
qed

lemma ExportMods_sel:
  assumes "ExportModsConfigurationToFile env st = Ret st'"
  shows "m_LoadedMods st' = m_LoadedMods st" "m_DependencyConstants st' = m_DependencyConstants st" "m_ModFiles st' = m_ModFiles st"
    "m_bHasLoadedMods st' = m_bHasLoadedMods st" "m_EnabledStateOverrides st' = m_EnabledStateOverrides st"
    "m_bRuntimeUnloadedForFilesystemMutation st' = m_bRuntimeUnloadedForFilesystemMutation st" "manifestoVersion st' = manifestoVersion st"
  using assms by (auto simp: ExportModsConfigurationToFile_def obind_Ret)

text \<open>Where loading starts to look for mods: nothing of any mod is left.\<close>

lemma LoadMods_result:
  assumes "LoadMods env st = Ret st'" "manager_inv st"
  shows "(m_LoadedMods st' = [] \<and> m_ModFiles st' = Map.empty \<and> m_bHasLoadedMods st' \<and> \<not> m_bRuntimeUnloadedForFilesystemMutation st' \<and> \<not> unload_ok env) \<or>
    (\<exists>st1 st2. DiscoverMods env st1 = Ret st2 \<and> m_DependencyConstants st1 = Map.empty \<and> m_ModFiles st1 = Map.empty \<and>
       \<not> m_bRuntimeUnloadedForFilesystemMutation st1 \<and> m_bHasLoadedMods st1 = m_bHasLoadedMods st \<and>
       m_EnabledStateOverrides st1 = m_EnabledStateOverrides st \<and>
       (m_bHasLoadedMods st \<and> \<not> m_bRuntimeUnloadedForFilesystemMutation st \<longrightarrow> UnloadMods env st = Ret (True, st1)) \<and>
       st' = (activate_mods env st2)\<lparr>m_sOwnModInfoJson := BuildModInfo (m_LoadedMods (activate_mods env st2)), m_bHasLoadedMods := True\<rparr>)"
proof -
  obtain unloaded st1 where u: "(if m_bRuntimeUnloadedForFilesystemMutation st
            then Ret (True, st\<lparr>m_bRuntimeUnloadedForFilesystemMutation := False\<rparr>)
            else if m_bHasLoadedMods st then UnloadMods env st else Ret (True, st)) = Ret (unloaded, st1)"
    and r: "(if \<not> unloaded then Ret st1
       else obind (DiscoverMods env st1) (\<lambda>st.
         let st = activate_mods env st
         in Ret (st\<lparr>m_sOwnModInfoJson := BuildModInfo (m_LoadedMods st), m_bHasLoadedMods := True\<rparr>))) = Ret st'"
    using assms(1) by (auto simp: LoadMods_def obind_Ret)
  have e: "m_DependencyConstants st1 = Map.empty \<and> m_ModFiles st1 = Map.empty \<and> \<not> m_bRuntimeUnloadedForFilesystemMutation st1 \<and>
      m_bHasLoadedMods st1 = m_bHasLoadedMods st \<and> m_EnabledStateOverrides st1 = m_EnabledStateOverrides st"
    using u assms(2) by (auto simp: manager_inv_def UnloadMods_def obind_Ret ExportMods_sel split: if_splits)
  have n: "\<not> unloaded \<Longrightarrow> m_LoadedMods st1 = [] \<and> m_bHasLoadedMods st1 \<and> \<not> unload_ok env"
    using u e by (auto simp: UnloadMods_def obind_Ret split: if_splits)
  have t: "m_bHasLoadedMods st \<and> \<not> m_bRuntimeUnloadedForFilesystemMutation st \<Longrightarrow> UnloadMods env st = Ret (unloaded, st1)"
    using u by auto
  show ?thesis
  proof (cases unloaded)
    case True
    then obtain st2 where "DiscoverMods env st1 = Ret st2" "st' = (activate_mods env st2)\<lparr>m_sOwnModInfoJson := BuildModInfo (m_LoadedMods (activate_mods env st2)), m_bHasLoadedMods := True\<rparr>"
      using r by (auto simp: obind_Ret Let_def)
    then show ?thesis using e t True by (intro disjI2 exI [of _ st1] exI [of _ st2]) auto
  qed (use r n e in auto)
qed

end
