(* ===== verification/ModManagerRuns.thy ===== *)
theory ModManagerRuns
  imports ModManagerSpec
begin

text \<open>
  What holds of the mod manager after any sequence of calls: the order of the mods and their constants, the files that replace those of the
  game, and that what is enabled survives reloading and joining servers.
\<close>

section \<open>Every call keeps the invariant\<close>

lemma manager_inv_bare:
  assumes "manager_inv st" "map bare (m_LoadedMods st') = map bare (m_LoadedMods st)"
    "m_DependencyConstants st' = m_DependencyConstants st" "m_ModFiles st' = m_ModFiles st" "m_bHasLoadedMods st' = m_bHasLoadedMods st"
    "m_bRuntimeUnloadedForFilesystemMutation st' = m_bRuntimeUnloadedForFilesystemMutation st"
  shows "manager_inv st'"
proof -
  have "map mod_key (m_LoadedMods st') = map mod_key (m_LoadedMods st)" by (rule map_mod_key_bare [OF assms(2)])
  moreover have "\<forall>m \<in> set (m_LoadedMods st'). mod_ok m \<and> m_bWasReadSuccessfully m \<and> agrees (m_DependencyConstants st) m"
    using assms(1) by (intro mods_ok_bare [OF assms(2)]) (simp add: manager_inv_def)
  ultimately show ?thesis using assms unfolding manager_inv_def by simp
qed

lemma manager_inv_new: "manager_inv (new_ModManager cfg old)"
  by (simp add: manager_inv_def new_ModManager_def)

lemma DiscoverMods_inv:
  assumes "DiscoverMods env st = Ret st'" "constants_order_ok env"
  shows "sorted (map mod_key (m_LoadedMods st'))"
    "\<forall>m \<in> set (m_LoadedMods st'). mod_ok m \<and> m_bWasReadSuccessfully m \<and> agrees (m_DependencyConstants st') m"
proof -
  obtain ms where ms: "scan_mods env (collect_dirs env) (m_DependencyConstants st) = Ret (ms, m_DependencyConstants st')"
      "map bare (m_LoadedMods st') = map bare (sort_key mod_key ms)"
    using DiscoverMods_result [OF assms(1)] by blast
  show "sorted (map mod_key (m_LoadedMods st'))"
    using map_mod_key_bare [OF ms(2)] by simp
  show "\<forall>m \<in> set (m_LoadedMods st'). mod_ok m \<and> m_bWasReadSuccessfully m \<and> agrees (m_DependencyConstants st') m"
    using scan_mods_agrees [OF ms(1)] assms(2) by (intro mods_ok_bare [OF ms(2)]) simp
qed

lemma LoadMods_inv:
  assumes "LoadMods env st = Ret st'" "manager_inv st" "constants_order_ok env"
  shows "manager_inv st'" "m_bHasLoadedMods st' \<and> \<not> m_bRuntimeUnloadedForFilesystemMutation st'"
proof -
  from LoadMods_result [OF assms(1,2)]
  have "manager_inv st' \<and> m_bHasLoadedMods st' \<and> \<not> m_bRuntimeUnloadedForFilesystemMutation st'"
  proof (elim disjE exE conjE)
    fix st1 st2
    assume a: "DiscoverMods env st1 = Ret st2" "\<not> m_bRuntimeUnloadedForFilesystemMutation st1"
      "st' = (activate_mods env st2)\<lparr>m_sOwnModInfoJson := BuildModInfo (m_LoadedMods (activate_mods env st2)), m_bHasLoadedMods := True\<rparr>"
    have "m_bRuntimeUnloadedForFilesystemMutation st2 = m_bRuntimeUnloadedForFilesystemMutation st1"
      using DiscoverMods_result [OF a(1)] by blast
    then have r: "m_bHasLoadedMods st'" "\<not> m_bRuntimeUnloadedForFilesystemMutation st'"
        "m_DependencyConstants st' = m_DependencyConstants st2" "map bare (m_LoadedMods st') = map bare (m_LoadedMods st2)"
      using a(2,3) by simp_all
    have "sorted (map mod_key (m_LoadedMods st'))"
      using DiscoverMods_inv(1) [OF a(1) assms(3)] map_mod_key_bare [OF r(4)] by simp
    moreover have "\<forall>m \<in> set (m_LoadedMods st'). mod_ok m \<and> m_bWasReadSuccessfully m \<and> agrees (m_DependencyConstants st') m"
      unfolding r(3) using DiscoverMods_inv(2) [OF a(1) assms(3)] by (intro mods_ok_bare [OF r(4)])
    ultimately show ?thesis using r(1,2) by (simp add: manager_inv_def)
  qed (simp add: manager_inv_def)
  then show "manager_inv st'" "m_bHasLoadedMods st' \<and> \<not> m_bRuntimeUnloadedForFilesystemMutation st'" by simp_all
qed

lemma UnloadMods_inv:
  assumes "UnloadMods env st = Ret (b, st')"
  shows "manager_inv st'" "m_LoadedMods st' = []" "m_DependencyConstants st' = Map.empty" "m_ModFiles st' = Map.empty"
    "m_bHasLoadedMods st' = m_bHasLoadedMods st"
  using assms by (auto simp: UnloadMods_def manager_inv_def obind_Ret ExportMods_sel)

lemma map_bare_update_first:
  "map bare (update_first_mod P (\<lambda>m. m\<lparr>m_bEnabled := b\<rparr>) ms) = map bare ms"
  by (induction ms) simp_all

lemma for_server_set_enabled:
  "for_server required = set_enabled (\<lambda>m. is_required required m \<or> m_bEnabled m \<and> \<not> RequiredOnClient m)"
  by (rule ext) (simp add: for_server_def set_enabled_def)

lemma manager_inv_remove:
  assumes "manager_inv st"
  shows "manager_inv (st\<lparr>m_LoadedMods := take i (m_LoadedMods st) @ drop (Suc i) (m_LoadedMods st)\<rparr>)"
proof -
  let ?ms = "m_LoadedMods st"
  have "sorted (map mod_key (take i ?ms @ drop (Suc i) ?ms))"
  proof (cases "i < length ?ms")
    case True
    then have "map mod_key ?ms = map mod_key (take i ?ms) @ mod_key (?ms ! i) # map mod_key (drop (Suc i) ?ms)"
      by (metis id_take_nth_drop list.simps(9) map_append)
    then have "sorted (map mod_key (take i ?ms) @ mod_key (?ms ! i) # map mod_key (drop (Suc i) ?ms))"
      using assms by (simp add: manager_inv_def)
    then show ?thesis by (auto simp: sorted_append)
  qed (use assms in \<open>simp add: manager_inv_def\<close>)
  moreover have "set (take i ?ms @ drop (Suc i) ?ms) \<subseteq> set ?ms"
    using set_take_subset set_drop_subset by fastforce
  ultimately show ?thesis using assms unfolding manager_inv_def by (auto 0 3)
qed

lemma manager_step_inv:
  assumes "manager_inv st" "constants_order_ok env" "manager_step env c st = Ret st'"
  shows "manager_inv st'"
proof (cases c)
  case Reload
  then show ?thesis using assms LoadMods_inv(1) by simp
next
  case FilesystemMutation
  then obtain b where "UnloadModsForFilesystemMutation env st = Ret (b, st')" using assms(3) by (auto simp: obind_Ret)
  then show ?thesis
  proof (cases "m_bHasLoadedMods st")
    case True
    with \<open>_ = Ret (b, st')\<close> obtain u st1 where u: "UnloadMods env st = Ret (u, st1)"
        and r: "(if \<not> u then obind (LoadMods env (st1\<lparr>m_bRuntimeUnloadedForFilesystemMutation := True\<rparr>)) (\<lambda>st. Ret (False, st))
          else Ret (True, st1\<lparr>m_bRuntimeUnloadedForFilesystemMutation := True\<rparr>)) = Ret (b, st')"
      by (auto simp: UnloadModsForFilesystemMutation_def obind_Ret Let_def)
    have "manager_inv (st1\<lparr>m_bRuntimeUnloadedForFilesystemMutation := True\<rparr>)"
      using UnloadMods_inv [OF u] by (simp add: manager_inv_def)
    then show ?thesis using r LoadMods_inv(1) [OF _ _ assms(2)] by (auto simp: obind_Ret split: if_splits)
  qed (use assms(1) in \<open>simp add: UnloadModsForFilesystemMutation_def\<close>)
next
  case (ReloadWithStates states)
  then obtain st1 where l: "LoadMods env (st\<lparr>m_EnabledStateOverrides := states\<rparr>) = Ret st1" "st' = st1\<lparr>m_EnabledStateOverrides := Map.empty\<rparr>"
    using assms(3) by (auto simp: ReloadModsWithEnabledStates_def obind_Ret)
  have "manager_inv st1" by (rule LoadMods_inv(1) [OF l(1) _ assms(2)]) (rule manager_inv_bare [OF assms(1)]; simp)
  then show ?thesis by (rule manager_inv_bare) (simp_all add: l(2))
next
  case (SetModEnabled n v e)
  then show ?thesis using assms(3) by (intro manager_inv_bare [OF assms(1)]) (auto simp: NSSetModEnabled_def map_bare_update_first)
next
  case (JoinServer d required)
  then show ?thesis using assms(3)
    by (intro manager_inv_bare [OF assms(1)]) (auto simp: ReloadModsAndConnect_def for_server_set_enabled)
next
  case Matchmake
  then show ?thesis using assms(3) by (intro manager_inv_bare [OF assms(1)]) (auto simp: unload_remote_mods_def)
next
  case (DeleteRemote n v)
  then show ?thesis using assms(1,3) manager_inv_remove [OF assms(1)]
    by (auto simp: DeleteRemoteMod_def Let_def split: list.splits option.splits if_splits)
qed

lemma manager_run_inv:
  "manager_inv st \<Longrightarrow> \<forall>(env, c) \<in> set cs. constants_order_ok env \<Longrightarrow> manager_run cs st = Ret st' \<Longrightarrow> manager_inv st'"
proof (induction cs arbitrary: st)
  case (Cons x cs)
  obtain env c where x: "x = (env, c)" by (cases x)
  then obtain st1 where st1: "manager_step env c st = Ret st1" "manager_run cs st1 = Ret st'" using Cons.prems(3) by (auto simp: obind_Ret)
  have "manager_inv st1" using manager_step_inv [OF Cons.prems(1) _ st1(1)] Cons.prems(2) x by simp
  then show ?case using Cons.IH [OF _ _ st1(2)] Cons.prems(2) by simp
qed simp

section \<open>Order, versions and files\<close>

text \<open>
  C34: However mods are loaded, reloaded, removed, enabled and disabled, for servers too, the loaded mods are sorted by priority, name,
  version and directory, each of them was read successfully and is well formed, and what a constant of a loaded mod stands for
  is the same for all of them. While no mods are loaded, which is so before the first loading and while they are unloaded for a
  change of their files, the table of replaced files and that of the dependency constants are empty. Nothing is said of what the two
  tables keep of a mod that was deleted while others stay loaded (\<open>deleted_mod_shifts_files\<close>), nor of the constants of plugins,
  which are never cleared.
\<close>

theorem mods_in_order:
  assumes "manager_run cs (new_ModManager cfg old) = Ret st" "\<forall>(env, c) \<in> set cs. constants_order_ok env"
  shows "sorted (map mod_key (m_LoadedMods st)) \<and>
    (\<forall>m \<in> set (m_LoadedMods st). mod_ok m \<and> m_bWasReadSuccessfully m \<and>
       (\<forall>(c, t) \<in> set (DependencyConstants m). m_DependencyConstants st c = Some t)) \<and>
    (\<not> m_bHasLoadedMods st \<or> m_bRuntimeUnloadedForFilesystemMutation st \<longrightarrow>
       m_DependencyConstants st = Map.empty \<and> m_ModFiles st = Map.empty)"
  using manager_run_inv [OF manager_inv_new assms(2,1)] unfolding manager_inv_def agrees_def by blast

lemma last_index:
  fixes P :: "nat \<Rightarrow> bool"
  assumes "P k" "k < n"
  shows "\<exists>i < n. P i \<and> (\<forall>j. i < j \<and> j < n \<longrightarrow> \<not> P j)"
proof -
  let ?S = "{i. i < n \<and> P i}"
  have "Max ?S \<in> ?S" using assms by (intro Max_in) auto
  moreover have "j \<le> Max ?S" if "j \<in> ?S" for j using that by (intro Max_ge) auto
  ultimately show ?thesis by (metis (mono_tags, lifting) mem_Collect_eq not_le)
qed

text \<open>
  C35: After loading, a file of the game is replaced by that of the last enabled mod that has it: no mod that has it comes after the
  one it is taken from in the order of the mods. If no enabled mod has it, it is the file of the game. Mods whose activation ended with an
  exception before their files were entered are not counted (\<open>provides\<close>).
\<close>

theorem files_from_last_mod:
  assumes "manager_run cs (new_ModManager cfg old) = Ret st" "\<forall>(env, c) \<in> set cs. constants_order_ok env" "constants_order_ok env"
    "LoadMods env st = Ret st'"
  shows "(m_ModFiles st' p = None \<longleftrightarrow> (\<forall>m \<in> set (m_LoadedMods st'). \<not> provides env m p)) \<and>
    (\<forall>i. m_ModFiles st' p = Some i \<longrightarrow> i < length (m_LoadedMods st') \<and> provides env (m_LoadedMods st' ! i) p \<and>
       (\<forall>m \<in> set (m_LoadedMods st'). provides env m p \<longrightarrow> mod_key m \<le> mod_key (m_LoadedMods st' ! i)))"
proof -
  have inv: "manager_inv st" by (rule manager_run_inv [OF manager_inv_new assms(2,1)])
  let ?ms = "m_LoadedMods st'"
  have s: "sorted (map mod_key ?ms)" using LoadMods_inv(1) [OF assms(4) inv assms(3)] by (simp add: manager_inv_def)
  have f: "m_ModFiles st' p = Some i \<longleftrightarrow> i < length ?ms \<and> provides env (?ms ! i) p \<and>
      (\<forall>j. i < j \<and> j < length ?ms \<longrightarrow> \<not> provides env (?ms ! j) p)" for i
    using LoadMods_result [OF assms(4) inv]
  proof (elim disjE exE conjE)
    fix st1 st2
    assume a: "DiscoverMods env st1 = Ret st2" "m_ModFiles st1 = Map.empty"
      "st' = (activate_mods env st2)\<lparr>m_sOwnModInfoJson := BuildModInfo (m_LoadedMods (activate_mods env st2)), m_bHasLoadedMods := True\<rparr>"
    then have e: "m_ModFiles st2 = Map.empty" using DiscoverMods_result [OF a(1)] by metis
    have b: "map bare ?ms = map bare (m_LoadedMods st2)" "map m_bEnabled ?ms = map m_bEnabled (m_LoadedMods st2)"
      using a(3) by simp_all
    have "provides env (?ms ! j) p = provides env (m_LoadedMods st2 ! j) p" if "j < length ?ms" for j
      using provides_nth [OF b that] .
    then show ?thesis using activate_mods_files [OF e, of env p i] a(3) map_bare_length [OF b(1)] by auto
  qed simp
  show ?thesis
  proof (intro conjI allI impI)
    show "m_ModFiles st' p = None \<longleftrightarrow> (\<forall>m \<in> set ?ms. \<not> provides env m p)"
    proof
      assume n: "m_ModFiles st' p = None"
      show "\<forall>m \<in> set ?ms. \<not> provides env m p"
      proof (rule ccontr)
        assume "\<not> ?thesis"
        then obtain k where "k < length ?ms" "provides env (?ms ! k) p" by (auto simp: in_set_conv_nth)
        from last_index [of "\<lambda>i. provides env (?ms ! i) p", OF this(2,1)]
        obtain i where "m_ModFiles st' p = Some i" using f by metis
        with n show False by simp
      qed
    next
      assume "\<forall>m \<in> set ?ms. \<not> provides env m p"
      then show "m_ModFiles st' p = None" by (metis f nth_mem not_None_eq)
    qed
    fix i assume i: "m_ModFiles st' p = Some i"
    then show "i < length ?ms" "provides env (?ms ! i) p" using f by auto
    show "\<forall>m \<in> set ?ms. provides env m p \<longrightarrow> mod_key m \<le> mod_key (?ms ! i)"
    proof (intro ballI impI)
      fix m assume "m \<in> set ?ms" "provides env m p"
      then obtain j where j: "j < length ?ms" "m = ?ms ! j" by (auto simp: in_set_conv_nth)
      then have "j \<le> i" using i f \<open>provides env m p\<close> by (meson not_le)
      then show "mod_key m \<le> mod_key (?ms ! i)" using sorted_nth_mono [OF s, of j i] i f j by simp
    qed
  qed
qed

section \<open>States survive a reload\<close>
























lemma activate_mods_version [simp]: "manifestoVersion (activate_mods env st) = manifestoVersion st"
proof -
  have "manifestoVersion (activate_mod env s i) = manifestoVersion s" for s i
    by (simp add: activate_mod_def Let_def split: option.split)
  then have "manifestoVersion (foldl (activate_mod env) s is) = manifestoVersion s" for s "is"
    by (induction "is" arbitrary: s) simp_all
  then show ?thesis by (simp add: activate_mods_def)
qed









text \<open>
  Discovery leaves at most one version of each mod enabled, if the configuration is not one of the old format.
\<close>

theorem one_version_enabled:
  assumes "DiscoverMods env st = Ret st'" "read_config env st = Ret (None, st1)"
  shows "one_version (m_LoadedMods st')"
proof -
  obtain ms where "m_LoadedMods st' = DisableMultipleModVersions ms" using DiscoverMods_result [OF assms(1)] assms(2) by fastforce
  then show ?thesis using DisableMultiple_one_version by simp
qed

section \<open>An example\<close>

definition ex_manager_env :: "(string \<times> string) list \<Rightarrow> (string \<times> unit json) list \<Rightarrow> unit manager_env" where
  "ex_manager_env mods docs =
     \<lparr>paths = \<lparr>cwd_of = (\<lambda>_. [''C:'']), same_name = (=), mod_folder = ''m'', package_folder = ''p'', remote_folder = ''r''\<rparr>, nomodblacklist = False, parse_json = map_of docs,
      disk_of = map_of (map (\<lambda>(d, t). (path_div d ''mod.json'', t)) mods),
      list_dir = (\<lambda>p. if p = ''m'' then Some (map fst mods) else None), override_files = (\<lambda>_. [''X'']),
      write_json = (\<lambda>doc. case find (\<lambda>(t, d). d = doc) docs of None \<Rightarrow> [] | Some (t, _) \<Rightarrow> t), constants_order = (\<lambda>xs. xs), cfg_writable = True, rename_ok = True, unload_ok = True,
      activation_steps = (\<lambda>_. 2)\<rparr>"

definition ex_mod :: "string \<Rightarrow> string \<Rightarrow> int \<Rightarrow> unit json" where
  "ex_mod name version priority = JObject [(''Name'', JString name), (''Version'', JString version), (''LoadPriority'', JInt priority),
     (''RequiredOnClient'', JBool True), (''Dependencies'', JObject [(''HAS_'' @ name, JString name)])]"

definition ex_states :: "bool \<Rightarrow> bool \<Rightarrow> unit json" where
  "ex_states a b = JObject [(''B'', JObject [(''1.0.0'', JBool b)]), (''A'', JObject [(''1.0.0'', JBool a)]), (''Version'', JInt 1)]"

definition ex_two_mods :: "unit manager_env" where
  "ex_two_mods = ex_manager_env [(''m/A'', ''a''), (''m/B'', ''b'')]
     [(''a'', ex_mod ''A'' ''1.0.0'' 2), (''b'', ex_mod ''B'' ''1.0.0'' 1), (''tt'', ex_states True True), (''ft'', ex_states False True), (''tf'', ex_states True False)]"

definition ex_run :: "(unit manager_env \<times> manager_call) list" where
  "ex_run = [(ex_two_mods, Reload), (ex_two_mods, SetModEnabled ''A'' ''1.0.0'' False)]"

lemma ex_constants_order: "constants_order_ok ex_two_mods" "\<forall>(env, c) \<in> set ex_run. constants_order_ok env"
  by (simp_all add: constants_order_ok_def ex_run_def ex_two_mods_def ex_manager_env_def)

text \<open>
  Two mods are loaded, one of them is disabled, and they are loaded again: once more the configuration is \<open>ft\<close>. The other one is
  disabled by joining a server that requires the first.
\<close>

lemma ex_first:
  "case LoadMods ex_two_mods (new_ModManager None None) of Ret st \<Rightarrow>
     map Name (m_LoadedMods st) = [''B'', ''A''] \<and> m_DependencyConstants st ''HAS_A'' = Some ''A'' \<and> manifestoVersion st = 1 \<and>
     map Version (m_LoadedMods st) = [''1.0.0'', ''1.0.0''] \<and> map RequiredOnClient (m_LoadedMods st) = [True, True] \<and>
     map m_bEnabled (m_LoadedMods st) = [True, True] \<and> m_ModFiles st (NormaliseModFilePath ''X'') = Some 1 | _ \<Rightarrow> False"
  by code_simp

lemma ex_first_result:
  obtains st where "LoadMods ex_two_mods (new_ModManager None None) = Ret st" "map Name (m_LoadedMods st) = [''B'', ''A'']"
    "m_DependencyConstants st ''HAS_A'' = Some ''A''" "manifestoVersion st = 1" "map Version (m_LoadedMods st) = [''1.0.0'', ''1.0.0'']"
    "map RequiredOnClient (m_LoadedMods st) = [True, True]" "map m_bEnabled (m_LoadedMods st) = [True, True]"
    "m_ModFiles st (NormaliseModFilePath ''X'') = Some 1"
  using ex_first by (auto split: outcome.splits)




lemma two_elements: "map f xs = [a, b] \<Longrightarrow> \<exists>x y. xs = [x, y] \<and> f x = a \<and> f y = b"
  by (cases xs; cases "tl xs") auto



theorem mods_in_order_witness:
  "\<exists>st. manager_run [(ex_two_mods, Reload)] (new_ModManager None None) = Ret st \<and> map Name (m_LoadedMods st) = [''B'', ''A''] \<and>
     sorted (map mod_key (m_LoadedMods st)) \<and> (\<forall>m \<in> set (m_LoadedMods st). mod_ok m)"
proof -
  obtain st where st: "LoadMods ex_two_mods (new_ModManager None None) = Ret st" "map Name (m_LoadedMods st) = [''B'', ''A'']"
    by (rule ex_first_result)
  then have "manager_run [(ex_two_mods, Reload)] (new_ModManager None None) = Ret st" by simp
  then show ?thesis using mods_in_order [of "[(ex_two_mods, Reload)]" None None st] ex_constants_order(1) st(2) by simp
qed

theorem files_from_last_mod_witness:
  "\<exists>st. LoadMods ex_two_mods (new_ModManager None None) = Ret st \<and> m_ModFiles st (NormaliseModFilePath ''X'') = Some 1 \<and>
     provides ex_two_mods (m_LoadedMods st ! 1) (NormaliseModFilePath ''X'')"
proof -
  obtain st where st: "LoadMods ex_two_mods (new_ModManager None None) = Ret st" "m_ModFiles st (NormaliseModFilePath ''X'') = Some 1"
    by (rule ex_first_result)
  then show ?thesis
    using files_from_last_mod [of "[]" None None "new_ModManager None None" ex_two_mods st "NormaliseModFilePath ''X''"] ex_constants_order(1) by simp
qed



text \<open>Two versions of a mod, without a configuration: both are disabled.\<close>

definition ex_two_versions :: "string \<Rightarrow> unit manager_env" where
  "ex_two_versions name = ex_manager_env [(''m/A'', ''a''), (''m/B'', ''b'')]
     [(''a'', ex_mod name ''1.0.0'' 0), (''b'', ex_mod name ''2.0.0'' 0), (''old'', JObject [(name, JBool True)])]"

theorem one_version_enabled_witness:
  "\<exists>st. DiscoverMods (ex_two_versions ''C'') (new_ModManager None None) = Ret st \<and>
     one_version (m_LoadedMods st) \<and> map m_bEnabled (m_LoadedMods st) = [False, False]"
proof -
  have "(case DiscoverMods (ex_two_versions ''C'') (new_ModManager None None) of Ret st \<Rightarrow> map m_bEnabled (m_LoadedMods st) = [False, False] | _ \<Rightarrow> False)"
    by code_simp
  then obtain st where st: "DiscoverMods (ex_two_versions ''C'') (new_ModManager None None) = Ret st" "map m_bEnabled (m_LoadedMods st) = [False, False]"
    by (auto split: outcome.splits)
  have "read_config (ex_two_versions ''C'') (new_ModManager None None) = Ret (None, new_ModManager None None)"
    by (simp add: read_config_def new_ModManager_def)
  show ?thesis by (intro exI [of _ st] conjI st one_version_enabled [OF st(1) \<open>read_config _ _ = _\<close>])
qed

text \<open>With a configuration of the old format that has the mod enabled, both versions are enabled, until mods are reloaded.\<close>

theorem migration_enables_versions:
  "\<exists>st. DiscoverMods (ex_two_versions ''C'') (new_ModManager (Some ''old'') None) = Ret st \<and>
     map m_bEnabled (m_LoadedMods st) = [True, True] \<and> \<not> one_version (m_LoadedMods st)"
proof -
  have "(case DiscoverMods (ex_two_versions ''C'') (new_ModManager (Some ''old'') None) of Ret st \<Rightarrow>
     map m_bEnabled (m_LoadedMods st) = [True, True] \<and> \<not> one_version (m_LoadedMods st) | _ \<Rightarrow> False)" by code_simp
  then show ?thesis by (auto split: outcome.splits)
qed

text \<open>A server that requires a core mod of which there are two versions has both enabled, and the reload disables both.\<close>

theorem core_versions_disabled:
  assumes "m_LoadedMods st = [a, b]" "Name a = Name b" "Version a \<noteq> Version b" "IsCoreModName (Name a)"
    "rm_Name r = Name a" "st' = snd (ReloadModsAndConnect downloaded [r] st)"
  shows "map m_bEnabled (m_LoadedMods st') = [True, True]"
    "map m_bEnabled (DisableMultipleModVersions (m_LoadedMods st')) = [False, False]"
proof -
  show e: "map m_bEnabled (m_LoadedMods st') = [True, True]"
    using assms by (simp add: ReloadModsAndConnect_def for_server_set_enabled is_required_def)
  obtain x y where xy: "m_LoadedMods st' = [x, y]" "m_bEnabled x" "m_bEnabled y" using two_elements [OF e] by auto
  have "Name x = Name y" using assms xy(1) by (auto simp: ReloadModsAndConnect_def for_server_set_enabled)
  then have "\<not> only_version [x, y] i" if "i < 2" for i
    using xy(2,3) that by (auto simp: only_version_def less_Suc_eq nth_Cons' numeral_2_eq_2)
  then show "map m_bEnabled (DisableMultipleModVersions (m_LoadedMods st')) = [False, False]"
    unfolding xy(1) by (intro nth_equalityI) (auto simp: DisableMultipleModVersions_nth less_Suc_eq)
qed

lemma deleted:
  "(if a then (None, x) else case r of None \<Rightarrow> (None, x) | Some f \<Rightarrow> if f = d then (None, x) else (Some (g f), y)) = (Some root, z) \<Longrightarrow> z = y"
  by (auto split: if_splits option.splits)

text \<open>
  Deleting a mod moves the mods after it by one position, but not the pointers of their files, so that a file of such a mod is taken
  from the mod after its own, and for the last mod from where no mod is.
\<close>

theorem deleted_mod_shifts_files:
  assumes "DeleteRemoteMod env name version st = (Some root, st')" "m_ModFiles st (NormaliseModFilePath path) = Some k"
    "k < length (m_LoadedMods st)"
    "\<forall>j \<in> {k..<length (m_LoadedMods st)}. Name (m_LoadedMods st ! j) \<noteq> name \<or> Version (m_LoadedMods st ! j) \<noteq> version"
  shows "mod_file_owner st path = Ret (Some (m_LoadedMods st ! k))"
    "mod_file_owner st' path = (if Suc k < length (m_LoadedMods st) then Ret (Some (m_LoadedMods st ! Suc k)) else Undefined)"
proof -
  let ?ms = "m_LoadedMods st"
  let ?is = "filter (\<lambda>i. Name (?ms ! i) = name \<and> Version (?ms ! i) = version) [0..<length ?ms]"
  obtain i "is" where i: "?is = i # is" using assms(1) by (cases ?is) (auto simp: DeleteRemoteMod_def)
  then have "i \<in> set ?is" by simp
  then have i': "i < length ?ms" "Name (?ms ! i) = name" "Version (?ms ! i) = version" by simp_all
  have lt: "i < k"
  proof (rule ccontr)
    assume "\<not> i < k"
    then have "i \<in> {k..<length ?ms}" using i'(1) by simp
    with assms(4) i'(2,3) show False by blast
  qed
  have st': "st' = st\<lparr>m_LoadedMods := take i ?ms @ drop (Suc i) ?ms\<rparr>"
    using assms(1) unfolding DeleteRemoteMod_def i list.case Let_def by (rule deleted)
  show "mod_file_owner st path = Ret (Some (?ms ! k))" using assms(2,3) by (simp add: mod_file_owner_def)
  show "mod_file_owner st' path = (if Suc k < length ?ms then Ret (Some (?ms ! Suc k)) else Undefined)"
    using assms(2,3) i'(1) lt by (auto simp: mod_file_owner_def st' nth_append min_def)
qed

text \<open>The loop that removes old versions before a download never goes on after it removed one.\<close>

theorem removing_old_version_undefined:
  assumes "i < length (m_LoadedMods st)" "Name (m_LoadedMods st ! i) = name" "Version (m_LoadedMods st ! i) \<noteq> version"
    "m_Source (m_LoadedMods st ! i) = Remote"
    "DeleteRemoteMod env name (Version (m_LoadedMods st ! i)) st = (Some root, st')"
  shows "remove_old_versions env name version (i # is) st = Undefined"
  using assms by (simp add: Let_def)

text \<open>
  A mod called \<open>Version\<close>, and a configuration that says of a mod whether it is enabled without naming the version, are used as objects
  although they are none; the code that replaces the latter is not reached.
\<close>

theorem config_must_have_objects:
  assumes "map_of (m_EnabledModsCfg st) (Name m) = Some v" "\<And>vs. v \<noteq> JObject vs" "m_Source m \<noteq> Remote"
  shows "initial_enabled st m = Undefined" "enter_mod old m (m_EnabledModsCfg st) = Undefined"
  using assms by (simp_all add: initial_enabled_def enter_mod_def split: json.split)

end
