(* ===== verification/KeyValues.thy ===== *)
theory KeyValues
  imports CppStd
begin

text \<open>
  KeyValues (\<open>src/engine/shared/keyvalues.cpp\<close>, \<open>include/tier1/keyvalues.h\<close>): trees of named values the game keeps its settings in,
  with the search for keys, the reading of values in any of their types, setting, copying and merging, and the text
  format they are written in.
\<close>

section \<open>Nodes\<close>

datatype KeyValuesTypes_t =
    TYPE_NONE | TYPE_STRING | TYPE_INT | TYPE_FLOAT | TYPE_PTR | TYPE_WSTRING | TYPE_COLOR | TYPE_UINT64
  | TYPE_COMPILED_INT_BYTE | TYPE_COMPILED_INT_0 | TYPE_COMPILED_INT_1

text \<open>
  A node without its links. \<open>m_sValue\<close> points to a string, or to the bytes of a number; \<open>m_pValue\<close> are the eight bytes of
  the union, of which an \<open>int\<close>, a \<open>float\<close> (as its bits) and a color are the lower four. The name stands for both of its symbols.
\<close>

record kv_data =
  key_name :: string
  m_sValue :: "string option"
  m_wsValue :: "u16 list option"
  m_pValue :: u64
  m_iDataType :: KeyValuesTypes_t
  m_bHasEscapeSequences :: bool

text \<open>The list of children; the peers of a node are the nodes after it in the list that holds it.\<close>

datatype KeyValues = KeyValues (data: kv_data) (m_pSub: "KeyValues list")

abbreviation kv_name :: "KeyValues \<Rightarrow> string" where
  "kv_name kv \<equiv> key_name (data kv)"

text \<open>
  What the code uses of other code: when two names have one symbol, which disregards case; the printing of
  floats and their parsing, as bits; conversions between numbers, where \<open>None\<close> is undefined; and between strings; and what is read of a
  wide string of which only a part was copied.
\<close>

record kv_env =
  same_symbol :: "string \<Rightarrow> string \<Rightarrow> bool"
  print_f :: "u32 \<Rightarrow> string"
  stream_float :: "u32 \<Rightarrow> string"
  atof :: "string \<Rightarrow> u32"
  wtof :: "u16 list \<Rightarrow> u32"
  wtoi :: "u16 list \<Rightarrow> u32"
  scan_lld :: "string \<Rightarrow> u64"
  wscan_lld :: "u16 list \<Rightarrow> u64"
  scan_floats :: "string \<Rightarrow> u32 list"
  float_to_int :: "u32 \<Rightarrow> u32 option"
  float_to_byte :: "u32 \<Rightarrow> u8 option"
  int_to_float :: "u32 \<Rightarrow> u32"
  u64_to_float :: "u64 \<Rightarrow> u32"
  UnicodeToUTF8 :: "u16 list \<Rightarrow> nat \<Rightarrow> string option"
  UTF8ToUnicode :: "string \<Rightarrow> u16 list option"
  wide_garbage :: "u16 list \<Rightarrow> u16 list"

definition Init :: kv_data where
  "Init = \<lparr>key_name = [], m_sValue = None, m_wsValue = None, m_pValue = 0, m_iDataType = TYPE_NONE, m_bHasEscapeSequences = False\<rparr>"

definition new_KeyValues :: "string \<Rightarrow> KeyValues" where
  "new_KeyValues name = KeyValues (Init\<lparr>key_name := name\<rparr>) []"

definition map_data :: "(kv_data \<Rightarrow> kv_data) \<Rightarrow> KeyValues \<Rightarrow> KeyValues" where
  "map_data f kv = KeyValues (f (data kv)) (m_pSub kv)"

definition UsesEscapeSequences :: "bool \<Rightarrow> KeyValues \<Rightarrow> KeyValues" where
  "UsesEscapeSequences state = map_data (m_bHasEscapeSequences_update (\<lambda>_. state))"

definition SetName :: "string \<Rightarrow> KeyValues \<Rightarrow> KeyValues" where
  "SetName name = map_data (key_name_update (\<lambda>_. name))"

text \<open>\<open>delete m_pSub\<close> destroys all children, as each destroys its peers.\<close>

definition kv_Clear :: "KeyValues \<Rightarrow> KeyValues" where
  "kv_Clear kv = KeyValues (data kv\<lparr>m_iDataType := TYPE_NONE\<rparr>) []"

text \<open>The lower half of the union.\<close>

definition m_iValue :: "kv_data \<Rightarrow> u32" where
  "m_iValue d = ucast (m_pValue d)"

definition set_iValue :: "u32 \<Rightarrow> kv_data \<Rightarrow> kv_data" where
  "set_iValue v d = d\<lparr>m_pValue := (m_pValue d AND NOT 0xFFFFFFFF) OR ucast v\<rparr>"

type_synonym Color = "u8 \<times> u8 \<times> u8 \<times> u8"

definition m_Color :: "kv_data \<Rightarrow> Color" where
  "m_Color d = (let v = m_iValue d in (ucast v, ucast (drop_bit 8 v), ucast (drop_bit 16 v), ucast (drop_bit 24 v)))"

definition set_Color :: "Color \<Rightarrow> kv_data \<Rightarrow> kv_data" where
  "set_Color c = (case c of (r, g, b, a) \<Rightarrow>
     set_iValue (ucast r OR push_bit 8 (ucast g) OR push_bit 16 (ucast b) OR push_bit 24 (ucast a)))"

text \<open>The bytes of a number, as \<open>m_sValue\<close> holds it.\<close>

definition u64_bytes :: "u64 \<Rightarrow> string" where
  "u64_bytes v = map (\<lambda>i. char_of (unat (ucast (drop_bit (8 * i) v) :: u8))) [0..<8]"

definition bytes_u64 :: "string \<Rightarrow> u64" where
  "bytes_u64 s = foldr (\<lambda>c v. push_bit 8 v OR of_nat (of_char c)) s 0"

section \<open>Searching\<close>

text \<open>
  A path of names is searched from its first slash on; the name that is looked for first is the whole path. A slash at
  the end is looked for alone.
\<close>

definition key_split :: "string \<Rightarrow> string \<times> string option" where
  "key_split key =
     (case dropWhile (\<lambda>c. c \<noteq> CHR ''/'') key of
        [] \<Rightarrow> (key, None)
      | [c] \<Rightarrow> ([c], None)
      | c # rest \<Rightarrow> (key, Some rest))"

lemma key_split_shorter: "key_split key = (search, Some rest) \<Longrightarrow> length rest < length key"
  using length_dropWhile_le [of "\<lambda>c. c \<noteq> CHR ''/''" key] by (auto simp: key_split_def split: list.splits)

fun find_index :: "('a \<Rightarrow> bool) \<Rightarrow> 'a list \<Rightarrow> nat option" where
  "find_index P [] = None"
| "find_index P (x # xs) = (if P x then Some 0 else map_option Suc (find_index P xs))"

text \<open>The tree, in which keys may have been created, and where the key is: the positions from the node down.\<close>

function FindKey :: "kv_env \<Rightarrow> bool \<Rightarrow> string \<Rightarrow> KeyValues \<Rightarrow> KeyValues \<times> nat list option" where
  "FindKey env bCreate key kv =
     (if key = [] then (kv, Some [])
      else case key_split key of (search, subStr) \<Rightarrow>
        let found = find_index (\<lambda>c. same_symbol env (kv_name c) search) (m_pSub kv) in
        if found = None \<and> \<not> bCreate then (kv, None)
        else
          let d = (if found = None then data kv\<lparr>m_iDataType := TYPE_NONE\<rparr> else data kv);
              subs = (if found = None then m_pSub kv @ [new_KeyValues search] else m_pSub kv);
              i = (case found of None \<Rightarrow> length (m_pSub kv) | Some i \<Rightarrow> i)
          in case subStr of
               None \<Rightarrow> (KeyValues d subs, Some [i])
             | Some rest \<Rightarrow>
                 (case FindKey env bCreate rest (subs ! i) of (c, p) \<Rightarrow> (KeyValues d (subs[i := c]), map_option ((#) i) p)))"
  by pat_completeness auto
termination
  by (relation "measure (\<lambda>(_, _, key, _). length key)") (auto dest: key_split_shorter [OF sym])

declare FindKey.simps [simp del]

fun at_path :: "nat list \<Rightarrow> KeyValues \<Rightarrow> KeyValues" where
  "at_path [] kv = kv"
| "at_path (i # p) kv = at_path p (m_pSub kv ! i)"

fun update_at :: "nat list \<Rightarrow> (KeyValues \<Rightarrow> KeyValues) \<Rightarrow> KeyValues \<Rightarrow> KeyValues" where
  "update_at [] f kv = f kv"
| "update_at (i # p) f kv = KeyValues (data kv) ((m_pSub kv)[i := update_at p f (m_pSub kv ! i)])"

text \<open>What is at a key.\<close>

definition found_key :: "kv_env \<Rightarrow> string \<Rightarrow> KeyValues \<Rightarrow> kv_data option" where
  "found_key env key kv = map_option (\<lambda>p. data (at_path p kv)) (snd (FindKey env False key kv))"

definition change_key :: "kv_env \<Rightarrow> string \<Rightarrow> (kv_data \<Rightarrow> kv_data) \<Rightarrow> KeyValues \<Rightarrow> KeyValues" where
  "change_key env key f kv =
     (case FindKey env True key kv of (kv, p) \<Rightarrow> (case p of None \<Rightarrow> kv | Some p \<Rightarrow> update_at p (map_data f) kv))"

section \<open>Children\<close>

text \<open>A child is given by its position; \<open>None\<close> is a node that is not a child.\<close>

definition AddSubKey :: "KeyValues \<Rightarrow> KeyValues \<Rightarrow> KeyValues" where
  "AddSubKey sub kv = KeyValues (data kv) (m_pSub kv @ [sub])"

text \<open>Where there are no children, looking for one that is not the first follows a null pointer.\<close>

definition RemoveSubKey :: "nat option \<Rightarrow> KeyValues \<Rightarrow> KeyValues outcome" where
  "RemoveSubKey sub kv =
     (case sub of
        Some i \<Rightarrow> Ret (KeyValues (data kv) (take i (m_pSub kv) @ drop (Suc i) (m_pSub kv)))
      | None \<Rightarrow> if m_pSub kv = [] then Undefined else Ret kv)"

definition InsertSubKey :: "nat \<Rightarrow> KeyValues \<Rightarrow> KeyValues \<Rightarrow> KeyValues" where
  "InsertSubKey nIndex sub kv =
     (if nIndex \<le> length (m_pSub kv) then KeyValues (data kv) (take nIndex (m_pSub kv) @ sub # drop nIndex (m_pSub kv)) else kv)"

definition SwapSubKey :: "nat option \<Rightarrow> KeyValues \<Rightarrow> KeyValues \<Rightarrow> KeyValues outcome" where
  "SwapSubKey existing sub kv =
     (case existing of
        Some i \<Rightarrow> Ret (KeyValues (data kv) ((m_pSub kv)[i := sub]))
      | None \<Rightarrow> if m_pSub kv = [] then Undefined else Ret kv)"

text \<open>
  The children of the node take its place. A node without children is destroyed while it is still linked to its peers, which are destroyed with it,
  although they stay in the list.
\<close>

definition ElideSubKey :: "nat option \<Rightarrow> KeyValues \<Rightarrow> KeyValues outcome" where
  "ElideSubKey sub kv =
     (case sub of
        Some i \<Rightarrow>
          if m_pSub (m_pSub kv ! i) = [] \<and> Suc i < length (m_pSub kv) then Undefined
          else Ret (KeyValues (data kv) (take i (m_pSub kv) @ m_pSub (m_pSub kv ! i) @ drop (Suc i) (m_pSub kv)))
      | None \<Rightarrow> Ret kv)"

definition FindLastSubKey :: "KeyValues \<Rightarrow> KeyValues option" where
  "FindLastSubKey kv = (if m_pSub kv = [] then None else Some (last (m_pSub kv)))"

text \<open>The first node of a list that has a value, or that has none; the next one is the first of the peers.\<close>

definition GetFirstTrueSubKey :: "KeyValues list \<Rightarrow> KeyValues option" where
  "GetFirstTrueSubKey subs = find (\<lambda>c. m_iDataType (data c) = TYPE_NONE) subs"

definition GetFirstValue :: "KeyValues list \<Rightarrow> KeyValues option" where
  "GetFirstValue subs = find (\<lambda>c. m_iDataType (data c) \<noteq> TYPE_NONE) subs"

definition kv_IsEmpty :: "kv_env \<Rightarrow> string \<Rightarrow> KeyValues \<Rightarrow> bool" where
  "kv_IsEmpty env key kv =
     (case snd (FindKey env False key kv) of
        None \<Rightarrow> True
      | Some p \<Rightarrow> m_iDataType (data (at_path p kv)) = TYPE_NONE \<and> m_pSub (at_path p kv) = [])"

section \<open>Reading values\<close>

text \<open>Text as wide characters.\<close>

definition widen :: "string \<Rightarrow> u16 list" where
  "widen s = map (\<lambda>c. of_nat (of_char c)) s"

definition opt_outcome :: "'a option \<Rightarrow> 'a outcome" where
  "opt_outcome x = (case x of None \<Rightarrow> Undefined | Some y \<Rightarrow> Ret y)"

definition GetInt :: "kv_env \<Rightarrow> string \<Rightarrow> u32 \<Rightarrow> KeyValues \<Rightarrow> u32 outcome" where
  "GetInt env key iDefault kv =
     (case found_key env key kv of
        None \<Rightarrow> Ret iDefault
      | Some d \<Rightarrow>
          (case m_iDataType d of
             TYPE_STRING \<Rightarrow> opt_outcome (map_option atoi (m_sValue d))
           | TYPE_WSTRING \<Rightarrow> opt_outcome (map_option (wtoi env) (m_wsValue d))
           | TYPE_FLOAT \<Rightarrow> opt_outcome (float_to_int env (m_iValue d))
           | TYPE_UINT64 \<Rightarrow> Ret 0
           | _ \<Rightarrow> Ret (m_iValue d)))"

definition GetUint64 :: "kv_env \<Rightarrow> string \<Rightarrow> u64 \<Rightarrow> KeyValues \<Rightarrow> u64 outcome" where
  "GetUint64 env key nDefault kv =
     (case found_key env key kv of
        None \<Rightarrow> Ret nDefault
      | Some d \<Rightarrow>
          (case m_iDataType d of
             TYPE_STRING \<Rightarrow> opt_outcome (map_option (scan_lld env) (m_sValue d))
           | TYPE_WSTRING \<Rightarrow> opt_outcome (map_option (wscan_lld env) (m_wsValue d))
           | TYPE_FLOAT \<Rightarrow> opt_outcome (map_option scast (float_to_int env (m_iValue d)))
           | TYPE_UINT64 \<Rightarrow> opt_outcome (map_option bytes_u64 (m_sValue d))
           | TYPE_PTR \<Rightarrow> Ret (m_pValue d)
           | _ \<Rightarrow> Ret (scast (m_iValue d))))"

definition GetPtr :: "kv_env \<Rightarrow> string \<Rightarrow> u64 \<Rightarrow> KeyValues \<Rightarrow> u64" where
  "GetPtr env key pDefault kv =
     (case found_key env key kv of
        None \<Rightarrow> pDefault
      | Some d \<Rightarrow> if m_iDataType d = TYPE_PTR then m_pValue d else 0)"

definition GetFloat :: "kv_env \<Rightarrow> string \<Rightarrow> u32 \<Rightarrow> KeyValues \<Rightarrow> u32 outcome" where
  "GetFloat env key flDefault kv =
     (case found_key env key kv of
        None \<Rightarrow> Ret flDefault
      | Some d \<Rightarrow>
          (case m_iDataType d of
             TYPE_STRING \<Rightarrow> opt_outcome (map_option (atof env) (m_sValue d))
           | TYPE_WSTRING \<Rightarrow> opt_outcome (map_option (wtof env) (m_wsValue d))
           | TYPE_FLOAT \<Rightarrow> Ret (m_iValue d)
           | TYPE_INT \<Rightarrow> Ret (int_to_float env (m_iValue d))
           | TYPE_UINT64 \<Rightarrow> opt_outcome (map_option (\<lambda>s. u64_to_float env (bytes_u64 s)) (m_sValue d))
           | _ \<Rightarrow> Ret 0))"

definition print_Color :: "Color \<Rightarrow> string" where
  "print_Color c = (case c of (r, g, b, a) \<Rightarrow>
     show_nat (unat r) @ '' '' @ show_nat (unat g) @ '' '' @ show_nat (unat b) @ '' '' @ show_nat (unat a))"

text \<open>
  A value of another type as text, as \<open>snprintf\<close> and \<open>swprintf\<close> print it; the outer option is that of the type, which may not be printed at all.
\<close>

definition print_value :: "kv_env \<Rightarrow> kv_data \<Rightarrow> string outcome option" where
  "print_value env d =
     (case m_iDataType d of
        TYPE_FLOAT \<Rightarrow> Some (Ret (print_f env (m_iValue d)))
      | TYPE_PTR \<Rightarrow> Some (Ret (show_int (sint (m_pValue d))))
      | TYPE_INT \<Rightarrow> Some (Ret (show_int (sint (m_iValue d))))
      | TYPE_UINT64 \<Rightarrow> Some (opt_outcome (map_option (\<lambda>s. show_int (sint (bytes_u64 s))) (m_sValue d)))
      | TYPE_COLOR \<Rightarrow> Some (Ret (print_Color (m_Color d)))
      | _ \<Rightarrow> None)"

definition SetStringValue :: "string \<Rightarrow> kv_data \<Rightarrow> kv_data" where
  "SetStringValue s d = d\<lparr>m_sValue := Some s, m_wsValue := None, m_iDataType := TYPE_STRING\<rparr>"

definition SetString :: "kv_env \<Rightarrow> string \<Rightarrow> string \<Rightarrow> KeyValues \<Rightarrow> KeyValues" where
  "SetString env key s = change_key env key (SetStringValue s)"

definition SetWString :: "kv_env \<Rightarrow> string \<Rightarrow> u16 list \<Rightarrow> KeyValues \<Rightarrow> KeyValues" where
  "SetWString env key w = change_key env key (\<lambda>d. d\<lparr>m_wsValue := Some w, m_sValue := None, m_iDataType := TYPE_WSTRING\<rparr>)"

text \<open>The text of a value, which replaces it, and the tree. A null pointer is \<open>None\<close>.\<close>

definition GetString :: "kv_env \<Rightarrow> string \<Rightarrow> string \<Rightarrow> KeyValues \<Rightarrow> (string option \<times> KeyValues) outcome" where
  "GetString env key def kv =
     (case snd (FindKey env False key kv) of
        None \<Rightarrow> Ret (Some def, kv)
      | Some p \<Rightarrow>
          let d = data (at_path p kv);
              set = (\<lambda>s. let kv = SetString env key s kv in (m_sValue (data (at_path p kv)), kv))
          in case print_value env d of
               Some t \<Rightarrow> obind t (\<lambda>t. Ret (set t))
             | None \<Rightarrow>
                 (case m_iDataType d of
                    TYPE_STRING \<Rightarrow> Ret (m_sValue d, kv)
                  | TYPE_WSTRING \<Rightarrow>
                      (case m_wsValue d of
                         None \<Rightarrow> Undefined
                       | Some w \<Rightarrow> (case UnicodeToUTF8 env w 512 of None \<Rightarrow> Ret (Some def, kv) | Some t \<Rightarrow> Ret (set t)))
                  | _ \<Rightarrow> Ret (Some def, kv)))"

definition GetWString :: "kv_env \<Rightarrow> string \<Rightarrow> u16 list \<Rightarrow> KeyValues \<Rightarrow> (u16 list option \<times> KeyValues) outcome" where
  "GetWString env key def kv =
     (case snd (FindKey env False key kv) of
        None \<Rightarrow> Ret (Some def, kv)
      | Some p \<Rightarrow>
          let d = data (at_path p kv);
              set = (\<lambda>w. let kv = SetWString env key w kv in (m_wsValue (data (at_path p kv)), kv))
          in case print_value env d of
               Some t \<Rightarrow> obind t (\<lambda>t. Ret (set (widen t)))
             | None \<Rightarrow>
                 (case m_iDataType d of
                    TYPE_WSTRING \<Rightarrow> Ret (m_wsValue d, kv)
                  | TYPE_STRING \<Rightarrow>
                      (case m_sValue d of
                         None \<Rightarrow> Undefined
                       | Some s \<Rightarrow> (case UTF8ToUnicode env s of None \<Rightarrow> Ret (Some def, kv) | Some w \<Rightarrow> Ret (set w)))
                  | _ \<Rightarrow> Ret (Some def, kv)))"

text \<open>A value as it is written to a file. A float keeps its decimal point.\<close>

definition float_text :: "string \<Rightarrow> string" where
  "float_text t =
     (if (\<exists>c \<in> set t. c \<in> {CHR ''.'', CHR ''e'', CHR ''E''}) \<or> string_find ''nan'' 0 t \<noteq> None \<or> string_find ''inf'' 0 t \<noteq> None
      then t else t @ ''.0'')"

definition GetStringValue :: "kv_env \<Rightarrow> kv_data \<Rightarrow> string" where
  "GetStringValue env d =
     (case m_iDataType d of
        TYPE_STRING \<Rightarrow> concat (opt_list (m_sValue d))
      | TYPE_INT \<Rightarrow> show_int (sint (m_iValue d))
      | TYPE_COMPILED_INT_BYTE \<Rightarrow> show_int (sint (m_iValue d))
      | TYPE_COMPILED_INT_0 \<Rightarrow> ''0''
      | TYPE_COMPILED_INT_1 \<Rightarrow> ''1''
      | TYPE_FLOAT \<Rightarrow> float_text (stream_float env (m_iValue d))
      | TYPE_PTR \<Rightarrow> show_nat (unat (m_pValue d))
      | TYPE_WSTRING \<Rightarrow>
          (case m_wsValue d of
             None \<Rightarrow> []
           | Some w \<Rightarrow> takeWhile (\<lambda>c. c \<noteq> NUL) (concat (opt_list (UnicodeToUTF8 env w (length w * 4 + 1)))))
      | TYPE_COLOR \<Rightarrow> print_Color (m_Color d)
      | TYPE_UINT64 \<Rightarrow> (case m_sValue d of None \<Rightarrow> [] | Some s \<Rightarrow> show_nat (unat (bytes_u64 s)))
      | _ \<Rightarrow> [])"

text \<open>Of a float and of an integer only the red part is set. Numbers a text does not have are zero.\<close>

definition byte_or_zero :: "kv_env \<Rightarrow> u32 list \<Rightarrow> nat \<Rightarrow> u8 outcome" where
  "byte_or_zero env fs i = (if i < length fs then opt_outcome (float_to_byte env (fs ! i)) else Ret 0)"

definition GetColor :: "kv_env \<Rightarrow> string \<Rightarrow> Color \<Rightarrow> KeyValues \<Rightarrow> Color outcome" where
  "GetColor env key def kv =
     (case found_key env key kv of
        None \<Rightarrow> Ret def
      | Some d \<Rightarrow>
          (case m_iDataType d of
             TYPE_COLOR \<Rightarrow> Ret (m_Color d)
           | TYPE_FLOAT \<Rightarrow> obind (opt_outcome (float_to_byte env (m_iValue d))) (\<lambda>r. Ret (r, snd def))
           | TYPE_INT \<Rightarrow> Ret (ucast (m_iValue d), snd def)
           | TYPE_STRING \<Rightarrow>
               (case m_sValue d of
                  None \<Rightarrow> Undefined
                | Some s \<Rightarrow>
                    let fs = scan_floats env s
                    in obind (byte_or_zero env fs 0) (\<lambda>r. obind (byte_or_zero env fs 1) (\<lambda>g.
                       obind (byte_or_zero env fs 2) (\<lambda>b. obind (byte_or_zero env fs 3) (\<lambda>a. Ret (r, g, b, a))))))
           | _ \<Rightarrow> Ret def))"

definition GetDataType :: "kv_env \<Rightarrow> string \<Rightarrow> KeyValues \<Rightarrow> KeyValuesTypes_t" where
  "GetDataType env key kv = (case found_key env key kv of None \<Rightarrow> TYPE_NONE | Some d \<Rightarrow> m_iDataType d)"

section \<open>Setting values\<close>

definition SetInt :: "kv_env \<Rightarrow> string \<Rightarrow> u32 \<Rightarrow> KeyValues \<Rightarrow> KeyValues" where
  "SetInt env key v = change_key env key (\<lambda>d. set_iValue v d\<lparr>m_iDataType := TYPE_INT\<rparr>)"

definition SetFloat :: "kv_env \<Rightarrow> string \<Rightarrow> u32 \<Rightarrow> KeyValues \<Rightarrow> KeyValues" where
  "SetFloat env key v = change_key env key (\<lambda>d. set_iValue v d\<lparr>m_iDataType := TYPE_FLOAT\<rparr>)"

definition SetUint64 :: "kv_env \<Rightarrow> string \<Rightarrow> u64 \<Rightarrow> KeyValues \<Rightarrow> KeyValues" where
  "SetUint64 env key v = change_key env key (\<lambda>d. d\<lparr>m_sValue := Some (u64_bytes v), m_wsValue := None, m_iDataType := TYPE_UINT64\<rparr>)"

definition SetPtr :: "kv_env \<Rightarrow> string \<Rightarrow> u64 \<Rightarrow> KeyValues \<Rightarrow> KeyValues" where
  "SetPtr env key v = change_key env key (\<lambda>d. d\<lparr>m_pValue := v, m_iDataType := TYPE_PTR\<rparr>)"

definition SetColor :: "kv_env \<Rightarrow> string \<Rightarrow> Color \<Rightarrow> KeyValues \<Rightarrow> KeyValues" where
  "SetColor env key c = change_key env key (\<lambda>d. set_Color c d\<lparr>m_iDataType := TYPE_COLOR\<rparr>)"

section \<open>Copying and merging\<close>

text \<open>\<open>RecursiveCopyKeyValues\<close> prints numbers on the way. Wide strings and compiled numbers are not copied.\<close>

definition copy_data :: "kv_env \<Rightarrow> bool \<Rightarrow> kv_data \<Rightarrow> kv_data \<Rightarrow> kv_data outcome" where
  "copy_data env has_sub src d =
     (let d = d\<lparr>key_name := key_name src\<rparr> in
      if has_sub then Ret d
      else
        let d = d\<lparr>m_iDataType := m_iDataType src\<rparr> in
        case m_iDataType src of
          TYPE_STRING \<Rightarrow> Ret (case m_sValue src of None \<Rightarrow> d | Some s \<Rightarrow> d\<lparr>m_sValue := Some s\<rparr>)
        | TYPE_INT \<Rightarrow> Ret (set_iValue (m_iValue src) d\<lparr>m_sValue := Some (show_int (sint (m_iValue src)))\<rparr>)
        | TYPE_FLOAT \<Rightarrow> Ret (set_iValue (m_iValue src) d\<lparr>m_sValue := Some (print_f env (m_iValue src))\<rparr>)
        | TYPE_PTR \<Rightarrow> Ret (d\<lparr>m_pValue := m_pValue src\<rparr>)
        | TYPE_UINT64 \<Rightarrow> (case m_sValue src of None \<Rightarrow> Undefined | Some s \<Rightarrow> Ret (d\<lparr>m_sValue := Some s\<rparr>))
        | TYPE_COLOR \<Rightarrow> Ret (set_iValue (m_iValue src) d)
        | _ \<Rightarrow> Ret d)"

text \<open>New nodes for a list of peers with all below them.\<close>

fun copy_nodes :: "kv_env \<Rightarrow> KeyValues list \<Rightarrow> KeyValues list outcome" where
  "copy_nodes env [] = Ret []"
| "copy_nodes env (KeyValues d subs # peers) =
     obind (copy_data env (subs \<noteq> []) d Init) (\<lambda>d. obind (copy_nodes env subs) (\<lambda>subs.
     obind (copy_nodes env peers) (\<lambda>peers. Ret (KeyValues d subs # peers))))"

text \<open>The node and its peers after copying a node with its peers to it.\<close>

definition RecursiveCopyKeyValues ::
    "kv_env \<Rightarrow> KeyValues \<Rightarrow> KeyValues list \<Rightarrow> KeyValues \<Rightarrow> KeyValues list \<Rightarrow> (KeyValues \<times> KeyValues list) outcome" where
  "RecursiveCopyKeyValues env src src_peers kv peers =
     obind (copy_data env (m_pSub src \<noteq> []) (data src) (data kv)) (\<lambda>d.
     obind (copy_nodes env (m_pSub src)) (\<lambda>subs.
     obind (copy_nodes env src_peers) (\<lambda>copies.
       Ret (KeyValues d (if m_pSub src = [] then m_pSub kv else subs), if src_peers = [] then peers else copies))))"

text \<open>
  \<open>MakeCopy\<close> keeps the type, but not the value of a compiled number. Of a wide string of \<open>n\<close> characters \<open>n + 2\<close> bytes are copied, which are all of them
  only if there are none; the rest is not initialized.
\<close>

definition make_copy_data :: "kv_env \<Rightarrow> kv_data \<Rightarrow> kv_data outcome" where
  "make_copy_data env src =
     (let d = Init\<lparr>key_name := key_name src, m_iDataType := m_iDataType src, m_bHasEscapeSequences := m_bHasEscapeSequences src\<rparr> in
      case m_iDataType src of
        TYPE_STRING \<Rightarrow> Ret (d\<lparr>m_sValue := m_sValue src\<rparr>)
      | TYPE_WSTRING \<Rightarrow> Ret (d\<lparr>m_wsValue := map_option (\<lambda>w. if w = [] then [] else wide_garbage env w) (m_wsValue src)\<rparr>)
      | TYPE_INT \<Rightarrow> Ret (set_iValue (m_iValue src) d)
      | TYPE_FLOAT \<Rightarrow> Ret (set_iValue (m_iValue src) d)
      | TYPE_PTR \<Rightarrow> Ret (d\<lparr>m_pValue := m_pValue src\<rparr>)
      | TYPE_COLOR \<Rightarrow> Ret (set_iValue (m_iValue src) d)
      | TYPE_UINT64 \<Rightarrow> (case m_sValue src of None \<Rightarrow> Undefined | Some s \<Rightarrow> Ret (d\<lparr>m_sValue := Some s\<rparr>))
      | _ \<Rightarrow> Ret d)"

fun make_copies :: "kv_env \<Rightarrow> KeyValues list \<Rightarrow> KeyValues list outcome" where
  "make_copies env [] = Ret []"
| "make_copies env (KeyValues d subs # peers) =
     obind (make_copy_data env d) (\<lambda>d. obind (make_copies env subs) (\<lambda>subs.
     obind (make_copies env peers) (\<lambda>peers. Ret (KeyValues d subs # peers))))"

definition MakeCopy :: "kv_env \<Rightarrow> KeyValues \<Rightarrow> KeyValues outcome" where
  "MakeCopy env kv = obind (make_copies env [kv]) (\<lambda>kvs. Ret (hd kvs))"

definition CopySubkeys :: "kv_env \<Rightarrow> KeyValues \<Rightarrow> KeyValues \<Rightarrow> KeyValues outcome" where
  "CopySubkeys env kv parent =
     obind (make_copies env (m_pSub kv)) (\<lambda>subs. Ret (if subs = [] then parent else KeyValues (data parent) subs))"

text \<open>
  Children of the base are merged into the first child of the same name, which may be one that was added before, or added.
\<close>

fun merge_subs :: "kv_env \<Rightarrow> KeyValues list \<Rightarrow> KeyValues list \<Rightarrow> KeyValues list outcome" where
  "merge_subs env subs [] = Ret subs"
| "merge_subs env subs (KeyValues d base_subs # bases) =
     obind (case find_index (\<lambda>c. key_name d = kv_name c) subs of
              Some i \<Rightarrow> obind (merge_subs env (m_pSub (subs ! i)) base_subs) (\<lambda>merged. Ret (subs[i := KeyValues (data (subs ! i)) merged]))
            | None \<Rightarrow> obind (MakeCopy env (KeyValues d base_subs)) (\<lambda>c. Ret (subs @ [c])))
       (\<lambda>subs. merge_subs env subs bases)"

definition RecursiveMergeKeyValues :: "kv_env \<Rightarrow> KeyValues \<Rightarrow> KeyValues \<Rightarrow> KeyValues outcome" where
  "RecursiveMergeKeyValues env base kv = obind (merge_subs env (m_pSub kv) (m_pSub base)) (\<lambda>subs. Ret (KeyValues (data kv) subs))"

section \<open>Writing\<close>

definition TAB :: char where "TAB = CHR 0x09"
definition QUOTE :: char where "QUOTE = CHR 0x22"
definition BACKSLASH :: char where "BACKSLASH = CHR 0x5C"

definition WriteKeyValuesIndent :: "nat \<Rightarrow> string" where
  "WriteKeyValuesIndent depth = replicate depth TAB"

definition write_character :: "bool \<Rightarrow> char \<Rightarrow> string" where
  "write_character useEscapeSequences c =
     (if c = QUOTE then [BACKSLASH, QUOTE]
      else if c = BACKSLASH \<and> useEscapeSequences then [BACKSLASH, BACKSLASH]
      else if c = CR then [BACKSLASH, CHR ''r'']
      else if c = LF then [BACKSLASH, CHR ''n'']
      else if c = TAB then [BACKSLASH, CHR ''t'']
      else [c])"

definition WriteKeyValuesString :: "bool \<Rightarrow> string \<Rightarrow> string" where
  "WriteKeyValuesString useEscapeSequences value = concat (map (write_character useEscapeSequences) value)"

definition kv_quoted :: "bool \<Rightarrow> string \<Rightarrow> string" where
  "kv_quoted useEscapeSequences value = QUOTE # WriteKeyValuesString useEscapeSequences value @ [QUOTE]"

fun WriteKeyValuesNode :: "kv_env \<Rightarrow> nat \<Rightarrow> KeyValues \<Rightarrow> string" where
  "WriteKeyValuesNode env depth (KeyValues d subs) =
     WriteKeyValuesIndent depth @ kv_quoted (m_bHasEscapeSequences d) (key_name d) @
     (if subs \<noteq> [] \<or> m_iDataType d = TYPE_NONE
      then LF # WriteKeyValuesIndent depth @ [CHR ''{'', LF] @ concat (map (WriteKeyValuesNode env (Suc depth)) subs) @
        WriteKeyValuesIndent depth @ [CHR ''}'', LF]
      else [TAB, TAB] @ kv_quoted (m_bHasEscapeSequences d) (GetStringValue env d) @ [LF])"

text \<open>The text that is saved for a node and its peers.\<close>

definition SaveToFile :: "kv_env \<Rightarrow> KeyValues list \<Rightarrow> string" where
  "SaveToFile env roots = concat (map (WriteKeyValuesNode env 0) roots)"

section \<open>Loading\<close>

text \<open>Playlists are loaded with the file system that was given for the last other file; this is remembered.\<close>

definition LoadFromBuffer :: "'fs option \<Rightarrow> string \<Rightarrow> 'fs option \<Rightarrow> 'fs option \<times> 'fs option" where
  "LoadFromBuffer saved resourceName fileSystem =
     (let saved = (if fileSystem \<noteq> None then fileSystem else saved)
      in (if fileSystem = None \<and> resourceName = ''playlists'' then saved else fileSystem, saved))"

end
