(* ===== verification/Spec2Isabelle.thy ===== *)
theory Spec2Isabelle
  imports Prelude ScriptJson BitMem BitWrite BitRead BitCodec BitVarint BitBlock BitMessage BitSpec
    CppStd DataTable DataTableParse DataTableRows DataTableDump DataTableSpec
    FakeIp EosNetwork FakeIpLemmas FakeIpState FakeIpSpec
    BanSystem BanSpec FileTree SaveFiles SaveFilesSpec
    ModArchive ModArchiveSpec ModExtractSpec ModInstall ModInstallSpec
    ModPlatform ModResolve ModResolveSpec ModRequest ModRequestSpec ModRemove ModRemoveSpec Lzss LzssSpec
    Limits LimitsSpec ServerAuth ServerAuthSpec
    ModPackages ModPackagesSpec ModManifest ModManifestSpec ModManager ModManagerSpec ModManagerRuns
    KeyValues KeyValuesSpec
begin

text \<open>
  A verification library for NorthstarLauncher, the DLL that adds mods, custom servers and peer to
  peer play to Titanfall 2. Paths below are relative to the root of the repository. Much of the code
  patches the game through addresses of its binaries; modelled are parts with logic of their own,
  whose inputs come from scripts, from files, from archives or from the network.

  \<^bold>\<open>The program and its model.\<close> Every component is a group of definitions with the names
  of the source, in one or more theories, followed by theories with its lemmas and its properties.

  \<^item> \<^bold>\<open>Bit streams\<close>, \<open>src/engine/bitbuf.cpp\<close>, \<open>include/tier1/bitbuf.h\<close>: the format of all
    messages between client and server. \<open>BitMem\<close> is the byte buffer with its little-endian double
    words and the mask tables; \<open>BitWrite\<close> is \<open>bf_write\<close> and \<open>BitRead\<close> is \<open>bf_read\<close>, each a record with
    the fields of the class, and every operation returns the new record, \<open>None\<close> standing for an
    access outside the buffer. \<open>BitCodec\<close> states the contract of the two sides as the locale
    \<open>bit_codec\<close>, \<open>BitVarint\<close> and \<open>BitBlock\<close> discharge it for variable-length integers and for blocks,
    \<open>BitMessage\<close> interprets it for every kind of field, \<open>BitSpec\<close> holds the properties C2 to C6, what becomes of reads past the end (\<open>read_past_end\<close>), and where the two sides disagree.
  \<^item> \<^bold>\<open>Script JSON\<close>, \<open>src/vscript/scripts/scriptjson.cpp\<close>: \<open>ScriptJson\<close> models script values, JSON
    documents and the conversions; the Squirrel VM is the locale \<open>squirrel_vm\<close>, interpreted on a stack
    of values. C1; what becomes of other tables is the theorem \<open>json_readback\<close>.
  \<^item> \<^bold>\<open>Datatables\<close>, \<open>src/vscript/scripts/scriptdatatables.cpp\<close>: \<open>DataTable\<close> models the in-place CSV
    parser with its pointers as indices into the buffer, the cache, the script functions, and the
    dump of packed tables. \<open>DataTableParse\<close> relates the parser to the text of a table,
    \<open>DataTableRows\<close> states what all row searches share (locale \<open>row_test\<close>), \<open>DataTableDump\<close> reads a
    dump back, \<open>DataTableSpec\<close> holds C7 to C8.
  \<^item> \<^bold>\<open>Peer to peer\<close>, \<open>src/eos/fake_ip_layer.cpp\<close> and \<open>src/eos/eos_network.cpp\<close>: \<open>FakeIp\<close> models the
    layer that gives peers IPv6 addresses, with its tables and its queue; \<open>EosNetwork\<close> models the
    hooks on the socket functions of the engine, which call the layer. \<open>FakeIpLemmas\<close> and \<open>FakeIpState\<close>
    hold the facts on product ids, the order of the packet routes (an instance of the library's
    lattices), the queue as the locale \<open>selective_queue\<close> and the states the layer reaches
    (\<open>layer_state\<close>); \<open>FakeIpSpec\<close> holds the theorem \<open>product_id_address\<close> and C9 to C11.
  \<^item> \<^bold>\<open>Ban list\<close>, \<open>src/server/auth/bansystem.cpp\<close>: \<open>BanSystem\<close> models the list in memory, the text of
    its file, and the console commands; \<open>BanSpec\<close> shows that they implement a set of user ids (locale
    \<open>ban_register\<close>) and where they do not, C12.
  \<^item> \<^bold>\<open>Mod save files\<close>, \<open>src/modsystem/modsavefiles.cpp\<close>: \<open>SaveFiles\<close> models the script functions and
    the threads they start, over the paths and the file system of \<open>FileTree\<close>; \<open>save_step\<close> is a step of
    a script or of a waiting thread. \<open>SaveFilesSpec\<close> holds C13 to C15.
  \<^item> \<^bold>\<open>Mod installer\<close>, \<open>src/modsystem/modinstaller.cpp\<close>: \<open>ModArchive\<close> models the inspection of a
    downloaded archive (\<open>InspectArchive\<close>) and its extraction (\<open>ExtractArchive\<close>), which installing
    composes; \<open>ModArchiveSpec\<close> and \<open>ModExtractSpec\<close> hold C16 to C18. \<open>ModInstall\<close> models the commit of the
    staged packages (\<open>CommitPlans\<close>) with its rollback, \<open>ModInstallSpec\<close> holds C19. \<open>ModPlatform\<close>
    has the data of the mod platforms (\<open>src/modsystem/platform\<close>), \<open>ModResolve\<close> the search for the packages a mod
    needs (\<open>ResolveModWorkshop\<close>), with C20 and C21. \<open>ModRequest\<close> models the calls to the
    installer and its worker thread as a step relation (\<open>installer_step\<close>) over program counters, with
    C22 to C24, and \<open>ModRemove\<close> the removal of packages (\<open>ExecuteInstalledRemove\<close>,
    \<open>ExecuteRemove\<close>), with C25 and C26.
  \<^item> \<^bold>\<open>Network messages\<close>, \<open>src/engine/shared/exploit_fixes/exploitfixes_lzss.cpp\<close>: \<open>Lzss\<close> models the
    decompressor, \<open>LzssSpec\<close> holds C27 and C28.
  \<^item> \<^bold>\<open>Players of a server\<close>: \<open>Limits\<close> models what clients and addresses may send
    (\<open>src/engine/shared/exploit_fixes/ns_limits.cpp\<close>), over any clock and any arithmetic of floats; the windows of a
    second are the locale \<open>window_limit\<close> in \<open>LimitsSpec\<close>, interpreted for chat messages, commands and packets, with
    C29. \<open>ServerAuth\<close> models who may join and whose data is saved
    (\<open>src/server/auth/serverauthentication.cpp\<close>), on top of \<open>BanSystem\<close> and \<open>Limits\<close>; \<open>server_run\<close> is a run
    of a server with its events. \<open>ServerAuthSpec\<close> holds C30 and C31.
  \<^item> \<^bold>\<open>Mods\<close>: \<open>ModPackages\<close> models the files that say where a package of mods comes from and in which version
    (\<open>src/modsystem/platform/modplatform.cpp\<close>), with the comparison of paths they need, \<open>ModPackagesSpec\<close> holds C32.
    \<open>ModManifest\<close> models what a mod says of itself and its constructor (\<open>src/modsystem/mod.cpp\<close>), \<open>ModManifestSpec\<close> holds C33.
    \<open>ModManager\<close> models how mods are found, put in order, enabled, loaded and unloaded (\<open>src/modsystem/modmanager.cpp\<close>), the file
    that keeps which are enabled, and what scripts, the download of mods and joining a server do to them; \<open>manager_run\<close> is a
    sequence of calls, each with the disk as it is then. \<open>ModManagerSpec\<close> follows discovery and activation, \<open>ModManagerRuns\<close> holds
    C34 to C37.
  \<^item> \<^bold>\<open>KeyValues\<close>, \<open>src/engine/shared/keyvalues.cpp\<close>, \<open>include/tier1/keyvalues.h\<close>: trees of settings. \<open>KeyValues\<close> models
    a node as its data (the fields of the class, the union as its eight bytes) and the list of its children, and every operation as a function that returns the new tree;
    nodes the code returns a pointer to are given by their position. \<open>KeyValuesSpec\<close> holds C38 to C40, with a reader of
    the text format the class documents, with escape sequences on or off.

  \<open>Prelude\<close> has the integer types, decimal text and shared lemmas, \<open>CppStd\<close> has the outcomes of calls
  (a value, an exception, or undefined behaviour), C strings and the parsing of numbers.

  \<^bold>\<open>What the lemmas show.\<close> Data written is data read: C1, C2, C7, C8,
  C15, C28, C32, C36, C38, C39. No input makes the code leave its buffers, its folders or its limits: C3, C4,
  C13, C14, C16, C25, C27,
  C29; their hypotheses name the bounds within which this is so.
  Fast paths compute what the slow ones do: C5, C6. State stays consistent in every order of the operations:
  C10, C12, C13, C19,
  C22, C24, C26, C31, C34. What is asked for arrives: C9, C11, C17,
  C18, C20, C21, C23. Who may join is stated by C30, what a manifest must be to be
  read by C33, which mods a server gets by C37 and from which a file comes by C35, which values a merged tree has by C40. The code departs from what it means to do in the theorems
  \<open>float_reversed\<close>, \<open>reload_bans_comments\<close>, \<open>insecure_overwrites_data\<close>, \<open>own_data_overflows\<close>, \<open>UBitVar_mismatch\<close>, \<open>zero_bits_past_end\<close>, \<open>ge_int_pushes_one\<close>, \<open>vector_read_cuts\<close>, \<open>ban_needs_text\<close>,
  \<open>remove_false_report\<close>, \<open>snapshot_can_go_stale\<close>, \<open>wake_ups_can_be_lost\<close>, \<open>localisation_must_be_text\<close>, \<open>conflict_not_fatal\<close>, \<open>migration_enables_versions\<close>,
  \<open>core_versions_disabled\<close>, \<open>deleted_mod_shifts_files\<close>, \<open>removing_old_version_undefined\<close>, \<open>config_must_have_objects\<close>,
  \<open>path_keys_not_split\<close>, \<open>slash_keys_shared\<close>, \<open>return_not_readable\<close>, \<open>escapes_without_asking\<close>, \<open>elide_cases\<close>, \<open>copy_cuts_wide\<close>,
  \<open>copy_loses_byte\<close>, \<open>large_block_unchecked\<close> and \<open>double_byte_name\<close>, which are stated as what it does.

  \<^bold>\<open>Conventions.\<close> Integers have the widths of MSVC for x64 and wrap around; where the code
  converts to a narrower type, so does the model. The sizes and positions of the bit writer are of type \<open>int\<close>: its sums and products wrap
  at 32 bits (\<open>int32\<close>), which its range checks do not expect; the properties of bit streams are therefore those of streams below 128 MiB. Bytes and characters are eight bits; strings that C
  terminates with a zero are lists inside a larger buffer where the code may leave it. Exceptions and
  script errors are values. Memory is always allocated. All loops are structural recursions or have a termination proof,
  except the reader's string loop, a \<open>partial_function\<close>, which C4 shows to return; no definition uses fuel.

  \<^bold>\<open>Parameters.\<close> Code that is not in the repository is an argument: rapidjson's parser in
  \<open>DecodeJSON\<close> and its writer, of which it is assumed that they agree on the one document at hand, if it can be written at all (no \<open>NaN\<close> or infinity,
  integers of 64 bits), and up to the precision of its doubles (\<open>writes_back\<close>); printing of floats, their parsing and their comparison (\<open>dump_env\<close>, arguments of the
  functions that use them); paks and the game's file system (\<open>dt_env\<close>); the EOS SDK and the
  variables of the engine (\<open>eos_env\<close>); the characters of the code page of the process (\<open>text_env\<close>; the conversion
  itself and that of UTF-8 are modelled, and what is needed of the names of an archive is \<open>names_clean\<close>, which all names satisfy in UTF-8 and in the code pages of one byte); minizip (\<open>zip_archive\<close>
  is what it reports of an archive); failures of the disk and cancellation (\<open>extract_env\<close>, \<open>commit_env\<close>,
  where the number of an operation says whether it fails; \<open>remove_env\<close>); the answers of the mod platforms
  (\<open>resolve_env\<close>); the normal form of paths and the attributes of directories (\<open>root_env\<close>); the outcome of reloading mods; the working
  directory and the save folder (\<open>save_env\<close>); the clock, the arithmetic of floats (\<open>fp\<close>), and what the game does when a client
  connects (\<open>server_env\<close>); the disk with the mods, the parser and the printer of JSON (\<open>mod_env\<close>, \<open>manager_env\<close>) and the failures of a write
  (\<open>write_env\<close>); the symbols of names, printing and parsing of numbers and text conversion for KeyValues (\<open>kv_env\<close>). Every property with a hypothesis on them has a witness.

  \<^bold>\<open>Simplifications.\<close> An operation under a lock is one step, threads are
  steps in any order; only \<open>ModRequest\<close> looks at the steps between locks, flags and notifications. The file system has no links, looks names up as they are spelled, and opens
  files in text mode where the code does. What a failed extraction leaves in the staging directory, which the caller removes, is not kept. In \<open>ModInstall\<close> a directory is a unit that is moved, removed
  or found whole. Log output is left out.

  \<^bold>\<open>Not modelled.\<close> The float encodings of coordinates, angles and normals in the bit streams;
  the start and end of the EOS layer; of the installer the download and staging of packages, the scan for mods to replace and the composition of
  an installation; of activating a mod its VPKs, paks, sounds and models, which the game loads, and the assets that are compiled from those of several mods.
  Further parts have logic of their own and are not modelled either: the packets outside of a
  connection (\<open>src/engine/shared/exploit_fixes/exploitfixes.cpp\<close>, \<open>src/server/servernethooks.cpp\<close>), the text buffers
  (\<open>src/util/utlbuffer.cpp\<close>) and the string routines (\<open>src/util/strtools.cpp\<close>). Of KeyValues the parser is that of the game, and the
  chains to other trees, which no code sets, are left out. The remaining parts call the game, Windows or a
  network service and have little logic that does not depend on them: hooks and memory patching, paks, user interface
  rendering, audio, logging and the crash handler, the particle editor, the script bindings, plugins,
  the launcher and the headers that declare structures of the game.
\<close>

end
